(* ===== verification/PyVal.thy ===== *)
theory PyVal
  imports Prelude "HOL-Library.AList"
begin

text \<open>
  The values gyp works on: what evaluating a \<open>.gyp\<close> file gives (strings, integers, lists
  and dictionaries), with the Booleans and \<open>None\<close> that the tool itself stores. A dictionary
  is an association list with distinct string keys; its order is the iteration order.
\<close>

section \<open>Values\<close>

datatype pyval =
    PNone
  | PBool bool
  | PInt int
  | PStr string
  | PList "pyval list"
  | PDict "(string \<times> pyval) list"

type_synonym pydict = "(string \<times> pyval) list"

abbreviation dget :: "pydict \<Rightarrow> string \<Rightarrow> pyval option" where
  "dget d k \<equiv> map_of d k"

abbreviation dset :: "string \<Rightarrow> pyval \<Rightarrow> pydict \<Rightarrow> pydict" where
  "dset k v d \<equiv> AList.update k v d"

abbreviation ddel :: "string \<Rightarrow> pydict \<Rightarrow> pydict" where
  "ddel k d \<equiv> AList.delete k d"

definition has_key :: "string \<Rightarrow> pydict \<Rightarrow> bool" where
  "has_key k d \<longleftrightarrow> map_of d k \<noteq> None"

lemma has_key_iff: "has_key k d \<longleftrightarrow> k \<in> fst ` set d"
  by (simp add: has_key_def map_of_eq_None_iff)

text \<open>\<open>d[k]\<close> raises \<open>KeyError\<close>; \<open>d.get(k, v)\<close> does not.\<close>

definition dindex :: "pydict \<Rightarrow> string \<Rightarrow> pyval res" where
  "dindex d k = (case map_of d k of None \<Rightarrow> Inl (KeyErr k) | Some v \<Rightarrow> Inr v)"

definition dget_or :: "pydict \<Rightarrow> string \<Rightarrow> pyval \<Rightarrow> pyval" where
  "dget_or d k v = (case map_of d k of None \<Rightarrow> v | Some w \<Rightarrow> w)"

text \<open>The truth value Python gives to a value in an \<open>if\<close>.\<close>

fun truth :: "pyval \<Rightarrow> bool" where
  "truth PNone = False"
| "truth (PBool b) = b"
| "truth (PInt i) = (i \<noteq> 0)"
| "truth (PStr s) = (s \<noteq> [])"
| "truth (PList xs) = (xs \<noteq> [])"
| "truth (PDict d) = (d \<noteq> [])"

text \<open>Views of a value: using it as a string, a list or a dictionary raises otherwise.\<close>

fun as_str :: "pyval \<Rightarrow> string res" where
  "as_str (PStr s) = Inr s"
| "as_str _ = Inl TypeErr"

fun as_list :: "pyval \<Rightarrow> pyval list res" where
  "as_list (PList xs) = Inr xs"
| "as_list _ = Inl TypeErr"

fun as_dict :: "pyval \<Rightarrow> pydict res" where
  "as_dict (PDict d) = Inr d"
| "as_dict _ = Inl TypeErr"

text \<open>The elements a \<open>for\<close> loop over a value visits: a string yields its characters.\<close>

fun iter_items :: "pyval \<Rightarrow> pyval list res" where
  "iter_items (PList xs) = Inr xs"
| "iter_items (PStr s) = Inr (map (\<lambda>c. PStr [c]) s)"
| "iter_items (PDict d) = Inr (map (\<lambda>p. PStr (fst p)) d)"
| "iter_items _ = Inl TypeErr"

text \<open>\<open>s in v\<close> for a string \<open>s\<close>.\<close>

fun str_in :: "string \<Rightarrow> pyval \<Rightarrow> bool res" where
  "str_in s (PList xs) = Inr (PStr s \<in> set xs)"
| "str_in s (PStr t) = Inr (sublist s t)"
| "str_in s (PDict d) = Inr (map_of d s \<noteq> None)"
| "str_in s _ = Inl TypeErr"

text \<open>\<open>int(v)\<close>.\<close>

fun to_int :: "pyval \<Rightarrow> int res" where
  "to_int (PInt i) = Inr i"
| "to_int (PBool b) = Inr (if b then 1 else 0)"
| "to_int (PStr s) = py_int s"
| "to_int _ = Inl TypeErr"

text \<open>Lists and dictionaries cannot be dictionary keys.\<close>

fun hashable :: "pyval \<Rightarrow> bool" where
  "hashable (PList _) = False"
| "hashable (PDict _) = False"
| "hashable _ = True"

text \<open>\<open>type(v) in (str, int)\<close>: Booleans are not of type \<open>int\<close>.\<close>

fun is_str_int :: "pyval \<Rightarrow> bool" where
  "is_str_int (PStr _) = True"
| "is_str_int (PInt _) = True"
| "is_str_int _ = False"

fun is_list :: "pyval \<Rightarrow> bool" where
  "is_list (PList _) = True"
| "is_list _ = False"

fun is_dict :: "pyval \<Rightarrow> bool" where
  "is_dict (PDict _) = True"
| "is_dict _ = False"

text \<open>The Python type, for \<open>type(v) is type(w)\<close>.\<close>

datatype pytype = TNone | TBool | TInt | TStr | TList | TDict

fun py_type :: "pyval \<Rightarrow> pytype" where
  "py_type PNone = TNone"
| "py_type (PBool _) = TBool"
| "py_type (PInt _) = TInt"
| "py_type (PStr _) = TStr"
| "py_type (PList _) = TList"
| "py_type (PDict _) = TDict"

lemma py_type_eq [simp]:
  "py_type v = TNone \<longleftrightarrow> v = PNone" "py_type v = TList \<longleftrightarrow> (\<exists>xs. v = PList xs)"
  "py_type v = TDict \<longleftrightarrow> (\<exists>d. v = PDict d)" "py_type v = TStr \<longleftrightarrow> (\<exists>s. v = PStr s)"
  "py_type v = TInt \<longleftrightarrow> (\<exists>i. v = PInt i)"
  by (cases v; simp)+

text \<open>
  \<open>repr\<close> and \<open>str\<close>. A string is quoted with single quotes unless it holds one and no double
  quote; the quote, the backslash and the control characters are escaped.
\<close>

abbreviation quoted :: "string \<Rightarrow> string" where
  "quoted s \<equiv> CHR 0x27 # s @ [CHR 0x27]"

definition hex_digit :: "nat \<Rightarrow> char" where
  "hex_digit n = ''0123456789abcdef'' ! n"

definition repr_char :: "char \<Rightarrow> char \<Rightarrow> string" where
  "repr_char q c =
     (if c = q \<or> c = CHR 0x5C then [CHR 0x5C, c]
      else if c = CHR 0x09 then [CHR 0x5C, CHR ''t'']
      else if c = CHR 0x0A then [CHR 0x5C, CHR ''n'']
      else if c = CHR 0x0D then [CHR 0x5C, CHR ''r'']
      else let n = (of_char c :: nat) in
        if n < 32 \<or> 126 < n then [CHR 0x5C, CHR ''x'', hex_digit (n div 16), hex_digit (n mod 16)]
        else [c])"

definition repr_str :: "string \<Rightarrow> string" where
  "repr_str s =
     (let q = (if CHR 0x27 \<in> set s \<and> CHR 0x22 \<notin> set s then CHR 0x22 else CHR 0x27)
      in [q] @ concat (map (repr_char q) s) @ [q])"

fun py_repr :: "pyval \<Rightarrow> string" where
  "py_repr PNone = ''None''"
| "py_repr (PBool b) = (if b then ''True'' else ''False'')"
| "py_repr (PInt i) = str_of_int i"
| "py_repr (PStr s) = repr_str s"
| "py_repr (PList xs) = ''['' @ join_with '', '' (map py_repr xs) @ '']''"
| "py_repr (PDict d) =
     ''{'' @ join_with '', '' (map (\<lambda>p. repr_str (fst p) @ '': '' @ py_repr (snd p)) d) @ ''}''"

definition py_str :: "pyval \<Rightarrow> string" where
  "py_str v = (case v of PStr s \<Rightarrow> s | _ \<Rightarrow> py_repr v)"

text \<open>The class name that \<open>v.__class__.__name__\<close> gives.\<close>

fun class_name :: "pyval \<Rightarrow> string" where
  "class_name PNone = ''NoneType''"
| "class_name (PBool _) = ''bool''"
| "class_name (PInt _) = ''int''"
| "class_name (PStr _) = ''str''"
| "class_name (PList _) = ''list''"
| "class_name (PDict _) = ''dict''"

text \<open>
  Python's \<open>==\<close>: Booleans compare as the integers 0 and 1, the order of a dictionary does not
  matter.
\<close>

fun py_eq :: "pyval \<Rightarrow> pyval \<Rightarrow> bool" where
  "py_eq PNone PNone = True"
| "py_eq (PBool a) (PBool b) = (a = b)"
| "py_eq (PBool a) (PInt j) = (j = (if a then 1 else 0))"
| "py_eq (PInt i) (PBool b) = (i = (if b then 1 else 0))"
| "py_eq (PInt i) (PInt j) = (i = j)"
| "py_eq (PStr s) (PStr t) = (s = t)"
| "py_eq (PList xs) (PList ys) = list_all2 py_eq xs ys"
| "py_eq (PDict d) (PDict e) =
     (length d = length e
      \<and> (\<forall>p\<in>set d. case map_of e (fst p) of None \<Rightarrow> False | Some w \<Rightarrow> py_eq (snd p) w))"
| "py_eq _ _ = False"

lemma py_eq_PStr [simp]: "py_eq (PStr s) v \<longleftrightarrow> v = PStr s" "py_eq v (PStr s) \<longleftrightarrow> v = PStr s"
  by (cases v; auto)+

section \<open>Dictionaries\<close>

definition wf_dict :: "(string \<times> 'v) list \<Rightarrow> bool" where
  "wf_dict d \<longleftrightarrow> distinct (map fst d)"

text \<open>Every dictionary inside a value has distinct keys.\<close>

fun wf_val :: "pyval \<Rightarrow> bool" where
  "wf_val (PList xs) = (\<forall>x\<in>set xs. wf_val x)"
| "wf_val (PDict d) = (distinct (map fst d) \<and> (\<forall>p\<in>set d. wf_val (snd p)))"
| "wf_val _ = True"

lemma wf_dict_update [simp]: "wf_dict d \<Longrightarrow> wf_dict (AList.update k v d)"
  by (simp add: wf_dict_def distinct_update)

lemma wf_dict_delete [simp]: "wf_dict d \<Longrightarrow> wf_dict (AList.delete k d)"
  by (simp add: wf_dict_def distinct_delete)

lemma dget_dset [simp]: "dget (dset k v d) k' = (if k' = k then Some v else dget d k')"
  by (simp add: update_conv)

lemma dget_ddel [simp]: "dget (ddel k d) k' = (if k' = k then None else dget d k')"
  by (simp add: delete_conv)

lemma has_key_dset [simp]: "has_key k' (dset k v d) \<longleftrightarrow> k' = k \<or> has_key k' d"
  by (simp add: has_key_def)

lemma has_key_ddel [simp]: "has_key k' (ddel k d) \<longleftrightarrow> k' \<noteq> k \<and> has_key k' d"
  by (simp add: has_key_def)

lemma dset_same: "dget d k = Some v \<Longrightarrow> dset k v d = d"
  by (induction d) auto

lemma set_dset_subset: "set (dset k v d) \<subseteq> insert (k, v) (set d)"
  by (induction d) auto

lemma wf_val_dset: "wf_val (PDict d) \<Longrightarrow> wf_val v \<Longrightarrow> wf_val (PDict (dset k v d))"
  using set_dset_subset [of k v d] by (auto simp: distinct_update dest!: subsetD)

lemma wf_val_ddel: "wf_val (PDict d) \<Longrightarrow> wf_val (PDict (ddel k d))"
  by (auto simp: AList.delete_eq distinct_map_filter)

lemma wf_val_dget: "wf_val (PDict d) \<Longrightarrow> dget d k = Some v \<Longrightarrow> wf_val v"
  by (auto dest!: map_of_SomeD)

lemma dget_in_set: "distinct (map fst d) \<Longrightarrow> (k, v) \<in> set d \<longleftrightarrow> dget d k = Some v"
  by auto

lemma size_dget:
  "dget d k = Some v \<Longrightarrow> size v < Suc (size_list (size_prod (\<lambda>_. 0) size) d)"
  by (induction d) (auto split: if_splits)

lemma size_list_item: "x \<in> set xs \<Longrightarrow> size x < size_list size xs"
  by (induction xs) auto

lemma size_dict_item: "(k, v) \<in> set d \<Longrightarrow> size v < size_list (size_prod (\<lambda>_. 0) size) d"
  by (induction d) auto

end
