(* ===== verification/BuildScript.thy ===== *)
theory BuildScript
  imports Prelude
begin

text \<open>
  The build driver \<open>src/build.py\<close>: the wildcard matcher \<open>match_one\<close> that selects which
  of the four ninja configurations to build, \<open>match\<close> over the patterns of the command line,
  and \<open>main\<close>, which runs ninja on the selected configurations and stops at the first
  failure. \<open>os.system\<close> is a parameter: the exit code of a command, given the commands run
  before it.
\<close>

section \<open>The matcher\<close>

abbreviation star :: char where "star \<equiv> CHR ''*''"

text \<open>
  The first \<open>while\<close> of \<open>match_one\<close>: indices \<open>i\<close>, \<open>j\<close> into target and pattern, and the
  resumption point \<open>x\<close>, \<open>y\<close> (target and pattern position of the last star taken, -1 when
  there is none). \<open>Some None\<close> is the early \<open>return False\<close>; \<open>Some (Some j)\<close> is the end of
  the loop; \<open>None\<close> would be a loop that never ends.
\<close>

partial_function (option) match_loop ::
  "string \<Rightarrow> string \<Rightarrow> int \<Rightarrow> int \<Rightarrow> int \<Rightarrow> int \<Rightarrow> int option option" where
  "match_loop target pattern i j x y =
     (let l1 = int (length target); l2 = int (length pattern) in
      if i < l1 then
        (if j < l2 \<and> target ! nat i = pattern ! nat j
         then match_loop target pattern (i + 1) (j + 1) x y
         else if j < l2 \<and> pattern ! nat j = star
         then match_loop target pattern i (j + 1) i j
         else if x \<ge> 0
         then match_loop target pattern (x + 1) (y + 1) (x + 1) y
         else Some None)
      else Some (Some j))"

declare match_loop.simps [code]

text \<open>The second \<open>while\<close>: trailing stars of the pattern match the empty rest.\<close>

function skip_stars :: "string \<Rightarrow> int \<Rightarrow> int" where
  "skip_stars pattern j =
     (if j < int (length pattern) \<and> pattern ! nat j = star
      then skip_stars pattern (j + 1) else j)"
  by pat_completeness auto
termination by (relation "measure (\<lambda>(p, j). nat (int (length p) - j))") auto

declare skip_stars.simps [simp del]

definition match_one :: "string \<Rightarrow> string \<Rightarrow> bool option" where
  "match_one target pattern =
     (case match_loop target pattern 0 0 (-1) (-1) of
        None \<Rightarrow> None
      | Some None \<Rightarrow> Some False
      | Some (Some j) \<Rightarrow> Some (skip_stars pattern j = int (length pattern)))"

text \<open>\<open>match\<close>: some pattern equals the target or matches it as a wildcard pattern.\<close>

fun match_any :: "string \<Rightarrow> string list \<Rightarrow> bool option" where
  "match_any target [] = Some False"
| "match_any target (pattern # patterns) =
     (if target = pattern then Some True
      else Option.bind (match_one target pattern)
             (\<lambda>b. if b then Some True else match_any target patterns))"

section \<open>The driver\<close>

definition all_targets :: "(string \<times> string) list" where
  "all_targets =
     [(''debug_x86'', ''output'' @ CHR 0x5C # ''Debug''),
      (''debug_x64'', ''output'' @ CHR 0x5C # ''Debug_x64''),
      (''release_x86'', ''output'' @ CHR 0x5C # ''Release''),
      (''release_x64'', ''output'' @ CHR 0x5C # ''Release_x64'')]"

datatype build_event =
    BlankLine
  | PrintBuild string
  | RunCommand string
  | PrintFailed string

text \<open>
  The loop of \<open>main\<close> over the sorted target names. The state is the trace so far and
  \<open>is_first\<close>; \<open>Inl (SysExit c)\<close> carries the exit code of the failed build.
\<close>

definition commands_of :: "build_event list \<Rightarrow> string list" where
  "commands_of tr = concat (map (\<lambda>e. case e of RunCommand c \<Rightarrow> [c] | _ \<Rightarrow> []) tr)"

definition ninja_command :: "string \<Rightarrow> string" where
  "ninja_command t = ''ninja -C '' @ the (map_of all_targets t)"

fun build_loop ::
  "(string list \<Rightarrow> string \<Rightarrow> int) \<Rightarrow> string list \<Rightarrow> bool \<Rightarrow> string list \<Rightarrow> build_event list
     \<Rightarrow> (build_event list \<times> int option) option" where
  "build_loop os_system patterns is_first [] tr = Some (tr, None)"
| "build_loop os_system patterns is_first (t # ts) tr =
     Option.bind (match_any t patterns) (\<lambda>b.
       if \<not> b then build_loop os_system patterns is_first ts tr
       else
         let tr1 = (if is_first then tr else tr @ [BlankLine]) @ [PrintBuild t];
             exit_code = os_system (commands_of tr1) (ninja_command t);
             tr2 = tr1 @ [RunCommand (ninja_command t)]
         in if exit_code \<noteq> 0 then Some (tr2 @ [PrintFailed t], Some exit_code)
            else build_loop os_system patterns False ts tr2)"

definition build_main ::
  "(string list \<Rightarrow> string \<Rightarrow> int) \<Rightarrow> string list \<Rightarrow> (build_event list \<times> int option) option" where
  "build_main os_system argv =
     (let patterns = (if length argv \<ge> 2 then tl argv else [''release_x86''])
      in build_loop os_system patterns True (sort (map fst all_targets)) [])"

section \<open>Specification: wildcard patterns\<close>

text \<open>A star stands for any string, every other character for itself.\<close>

fun glob :: "string \<Rightarrow> string \<Rightarrow> bool" where
  "glob [] t \<longleftrightarrow> t = []"
| "glob (c # p) t \<longleftrightarrow>
     (if c = star then \<exists>k\<in>{0..length t}. glob p (drop k t)
      else case t of [] \<Rightarrow> False | d # u \<Rightarrow> c = d \<and> glob p u)"

lemma glob_star: "glob (star # p) t \<longleftrightarrow> (\<exists>u v. t = u @ v \<and> glob p v)"
proof
  assume "glob (star # p) t"
  then obtain k where "glob p (drop k t)" by auto
  then show "\<exists>u v. t = u @ v \<and> glob p v" by (metis append_take_drop_id)
next
  assume "\<exists>u v. t = u @ v \<and> glob p v"
  then obtain u v where "t = u @ v" "glob p v" by blast
  then show "glob (star # p) t" by (auto intro!: bexI [of _ "length u"])
qed

lemma glob_lit: "c \<noteq> star \<Longrightarrow> glob (c # p) t \<longleftrightarrow> (\<exists>u. t = c # u \<and> glob p u)"
  by (cases t) auto

declare glob.simps(2) [simp del]

lemma glob_literals:
  "star \<notin> set w \<Longrightarrow> glob (w @ p) t \<longleftrightarrow> (\<exists>u. t = w @ u \<and> glob p u)"
  by (induction w arbitrary: t) (auto simp: glob_lit)

lemma glob_Nil: "glob p [] \<longleftrightarrow> set p \<subseteq> {star}"
proof (induction p)
  case (Cons c p)
  then show ?case by (cases "c = star") (auto simp: glob_star glob_lit)
qed simp

lemma skip_stars_end:
  "j \<le> length p \<Longrightarrow> skip_stars p (int j) = int (length p) \<longleftrightarrow> set (drop j p) \<subseteq> {star}"
proof (induction "length p - j" arbitrary: j)
  case 0
  then have "j = length p" by simp
  then show ?case by (simp add: skip_stars.simps)
next
  case (Suc n)
  then have j: "j < length p" by simp
  then have d: "drop j p = p ! j # drop (Suc j) p" by (simp add: Cons_nth_drop_Suc)
  show ?case
  proof (cases "p ! j = star")
    case True
    have "skip_stars p (int j) = skip_stars p (int (Suc j))"
      using j True by (subst skip_stars.simps) (simp add: add.commute)
    then have "(skip_stars p (int j) = int (length p)) = (skip_stars p (int (Suc j)) = int (length p))"
      by simp
    also have "\<dots> \<longleftrightarrow> set (drop (Suc j) p) \<subseteq> {star}"
      by (rule Suc.hyps(1)) (use Suc.hyps(2) j in auto)
    finally show ?thesis using True d by simp
  next
    case False
    then have "skip_stars p (int j) = int j" by (subst skip_stars.simps) simp
    with False d j show ?thesis by simp
  qed
qed

section \<open>Correctness of the matcher\<close>

text \<open>
  The loop invariant. Before the first star the rest of the pattern must match the rest of
  the target. After a star was taken at pattern position \<open>y\<close> and the segment behind it is
  being tried from target position \<open>x\<close>, the segment read so far is literal, and the whole
  question is whether the pattern behind the star matches some suffix from \<open>x\<close> on.
\<close>

definition resumable :: "string \<Rightarrow> string \<Rightarrow> nat \<Rightarrow> nat \<Rightarrow> nat \<Rightarrow> nat \<Rightarrow> bool" where
  "resumable t p i j x y \<longleftrightarrow>
     x \<le> i \<and> y < j \<and> i - x = j - y - 1
     \<and> take (i - x) (drop (Suc y) p) = take (i - x) (drop x t)
     \<and> (glob p t \<longleftrightarrow> (\<exists>k\<ge>x. k \<le> length t \<and> glob (drop (Suc y) p) (drop k t)))"

definition match_inv :: "string \<Rightarrow> string \<Rightarrow> int \<Rightarrow> int \<Rightarrow> int \<Rightarrow> int \<Rightarrow> bool" where
  "match_inv t p i j x y \<longleftrightarrow>
     0 \<le> i \<and> i \<le> int (length t) \<and> 0 \<le> j \<and> j \<le> int (length p)
     \<and> ((x = -1 \<and> y = -1 \<and> (glob p t \<longleftrightarrow> glob (drop (nat j) p) (drop (nat i) t)))
        \<or> (0 \<le> x \<and> 0 \<le> y \<and> resumable t p (nat i) (nat j) (nat x) (nat y)))"

lemma take_Suc_eq:
  "take n xs = take n ys \<Longrightarrow> n < length xs \<Longrightarrow> n < length ys \<Longrightarrow> xs ! n = ys ! n
     \<Longrightarrow> take (Suc n) xs = take (Suc n) ys"
  by (simp add: take_Suc_conv_app_nth)

lemma segment_in_range:
  "(x::nat) \<le> i \<Longrightarrow> y < j \<Longrightarrow> i - x = j - y - 1 \<Longrightarrow> i < m \<Longrightarrow> j < n
     \<Longrightarrow> i - x < n - Suc y \<and> i - x < m - x \<and> Suc y + (i - x) = j \<and> x + (i - x) = i
        \<and> Suc (i - x) = Suc j - y - 1"
  by arith

lemma resumable_segment:
  assumes "resumable t p i j x y" and "i \<le> length t" and "j \<le> length p" and "star \<notin> set t"
  obtains w where "w = take (i - x) (drop x t)" and "star \<notin> set w" and "length w = i - x"
    and "drop (Suc y) p = w @ drop j p" and "drop x t = w @ drop i t"
proof
  let ?w = "take (i - x) (drop x t)"
  from assms have *: "x \<le> i" "y < j" "i - x = j - y - 1"
    "take (i - x) (drop (Suc y) p) = ?w" by (auto simp: resumable_def)
  show "star \<notin> set ?w" using assms(4) by (meson in_set_dropD in_set_takeD)
  show "length ?w = i - x" using * assms by simp
  have "drop (i - x) (drop (Suc y) p) = drop j p" using * by simp
  then show "drop (Suc y) p = ?w @ drop j p" using *(4) by (metis append_take_drop_id)
  have "drop (i - x) (drop x t) = drop i t" using *(1) by simp
  then show "drop x t = ?w @ drop i t" by (metis append_take_drop_id)
qed simp

lemma match_inv_step_char:
  assumes inv: "match_inv t p i j x y" and ns: "star \<notin> set t"
    and i: "i < int (length t)" and j: "j < int (length p)" and eq: "t ! nat i = p ! nat j"
  shows "match_inv t p (i + 1) (j + 1) x y"
proof -
  have ni: "nat i < length t" "nat j < length p" "nat (i + 1) = Suc (nat i)" "nat (j + 1) = Suc (nat j)"
    using inv i j by (auto simp: match_inv_def nat_add_distrib)
  have lit: "p ! nat j \<noteq> star" using ns eq ni(1) nth_mem by metis
  have ds: "drop (nat j) p = p ! nat j # drop (Suc (nat j)) p"
    "drop (nat i) t = t ! nat i # drop (Suc (nat i)) t"
    using ni by (simp_all add: Cons_nth_drop_Suc)
  consider (fresh) "x = -1" "y = -1" "glob p t \<longleftrightarrow> glob (drop (nat j) p) (drop (nat i) t)"
    | (resume) "0 \<le> x" "0 \<le> y" "resumable t p (nat i) (nat j) (nat x) (nat y)"
    using inv by (auto simp: match_inv_def)
  then show ?thesis
  proof cases
    case fresh
    then have "glob p t \<longleftrightarrow> glob (drop (Suc (nat j)) p) (drop (Suc (nat i)) t)"
      using ds lit eq by (simp add: glob_lit)
    with fresh ni i j inv show ?thesis by (auto simp: match_inv_def)
  next
    case resume
    let ?n = "nat i - nat x"
    have r: "nat x \<le> nat i" "nat y < nat j" "?n = nat j - nat y - 1"
      "take ?n (drop (Suc (nat y)) p) = take ?n (drop (nat x) t)"
      using resume(3) unfolding resumable_def by blast+
    note seg = segment_in_range [OF r(1-3) ni(1,2)]
    have n: "?n < length (drop (Suc (nat y)) p)" "?n < length (drop (nat x) t)"
      unfolding length_drop using seg by blast+
    have "Suc (nat y) + ?n = nat j" "nat x + ?n = nat i"
      using seg by blast+
    then have e: "drop (Suc (nat y)) p ! ?n = drop (nat x) t ! ?n"
      using eq ni(1,2) r(1,2) by (simp only: nth_drop Suc_leI less_imp_le)
    have "take (Suc ?n) (drop (Suc (nat y)) p) = take (Suc ?n) (drop (nat x) t)"
      by (rule take_Suc_eq [OF r(4) n e])
    moreover have "Suc (nat i) - nat x = Suc ?n" using r(1) by (rule Suc_diff_le)
    moreover have "Suc ?n = Suc (nat j) - nat y - 1"
      using seg by blast
    ultimately have "resumable t p (Suc (nat i)) (Suc (nat j)) (nat x) (nat y)"
      using resume(3) unfolding resumable_def by (simp only: le_SucI less_SucI simp_thms)
    then have "resumable t p (nat (i + 1)) (nat (j + 1)) (nat x) (nat y)" using ni(3,4) by simp
    moreover have "0 \<le> i" "0 \<le> j" using inv by (simp_all add: match_inv_def)
    ultimately show ?thesis using resume(1,2) i j unfolding match_inv_def by simp
  qed
qed

lemma match_inv_step_star:
  assumes inv: "match_inv t p i j x y" and ns: "star \<notin> set t"
    and i: "i < int (length t)" and j: "j < int (length p)" and st: "p ! nat j = star"
  shows "match_inv t p i (j + 1) i j"
proof -
  have ni: "nat i < length t" "nat j < length p" "nat (j + 1) = Suc (nat j)" "0 \<le> i" "0 \<le> j"
    using inv i j by (auto simp: match_inv_def nat_add_distrib)
  have d: "drop (nat j) p = star # drop (Suc (nat j)) p"
    using ni st by (metis Cons_nth_drop_Suc)
  let ?suf = "\<lambda>n. \<exists>k\<ge>n. k \<le> length t \<and> glob (drop (Suc (nat j)) p) (drop k t)"
  have star_at: "glob (drop (nat j) p) (drop m t) \<longleftrightarrow> ?suf m" if "m \<le> length t" for m
  proof
    assume "glob (drop (nat j) p) (drop m t)"
    then obtain u v where uv: "drop m t = u @ v" "glob (drop (Suc (nat j)) p) v"
      using d by (auto simp: glob_star)
    then have "v = drop (m + length u) t"
      by (metis add.commute append_eq_conv_conj drop_drop)
    moreover have "m + length u \<le> length t"
      using uv(1) that by (metis add_le_imp_le_diff le_add1 length_append length_drop
          add.commute le_diff_conv2)
    ultimately show "?suf m" using uv by (metis le_add1)
  next
    assume "?suf m"
    then obtain k where k: "k \<ge> m" "glob (drop (Suc (nat j)) p) (drop k t)" by blast
    have "drop m t = take (k - m) (drop m t) @ drop k t"
      using k(1) by (metis append_take_drop_id drop_drop le_add_diff_inverse2)
    then show "glob (drop (nat j) p) (drop m t)" using k d by (auto simp: glob_star)
  qed
  have "glob p t \<longleftrightarrow> ?suf (nat i)"
  proof -
    consider (fresh) "glob p t \<longleftrightarrow> glob (drop (nat j) p) (drop (nat i) t)"
      | (resume) "resumable t p (nat i) (nat j) (nat x) (nat y)"
      using inv by (auto simp: match_inv_def)
    then show ?thesis
    proof cases
      case fresh
      then show ?thesis using star_at [of "nat i"] ni by simp
    next
      case resume
      obtain w where w: "star \<notin> set w" "length w = nat i - nat x"
        "drop (Suc (nat y)) p = w @ drop (nat j) p" "drop (nat x) t = w @ drop (nat i) t"
        using resumable_segment [OF resume _ _ ns] ni by (metis less_imp_le_nat)
      have xi: "nat x \<le> nat i" using resume by (simp add: resumable_def)
      have g: "glob p t \<longleftrightarrow> (\<exists>k\<ge>nat x. k \<le> length t \<and> glob (w @ drop (nat j) p) (drop k t))"
        using resume w(3) by (simp add: resumable_def)
      show ?thesis
      proof
        assume "glob p t"
        then obtain k u where k: "k \<ge> nat x" "k \<le> length t" "drop k t = w @ u"
          "glob (drop (nat j) p) u" using g w(1) by (auto simp: glob_literals)
        then have u: "u = drop (k + length w) t"
          by (metis add.commute append_eq_conv_conj drop_drop)
        have "k + length w \<le> length t" using k(2,3)
          by (metis add.commute add_le_imp_le_diff le_add1 le_diff_conv2 length_append length_drop)
        then have "?suf (k + length w)" using star_at k(4) u by blast
        moreover have "nat i \<le> k + length w" using w(2) k(1) xi by arith
        ultimately show "?suf (nat i)" by (meson order_trans)
      next
        assume "?suf (nat i)"
        then have "glob (drop (nat j) p) (drop (nat i) t)" using star_at [of "nat i"] ni by simp
        then have "glob (w @ drop (nat j) p) (drop (nat x) t)" using w by (auto simp: glob_literals)
        then show "glob p t" using g xi ni by (meson less_imp_le_nat order_trans order_refl)
      qed
    qed
  qed
  then show ?thesis using ni i j by (simp add: match_inv_def resumable_def)
qed

lemma match_inv_mismatch:
  assumes inv: "match_inv t p i j x y" and ns: "star \<notin> set t" and i: "i < int (length t)"
    and nochar: "\<not> (j < int (length p) \<and> t ! nat i = p ! nat j)"
    and nostar: "\<not> (j < int (length p) \<and> p ! nat j = star)"
  shows "\<not> glob (drop (nat j) p) (drop (nat i) t)"
proof -
  have ni: "nat i < length t" "0 \<le> i" "0 \<le> j" "j \<le> int (length p)"
    using inv i by (auto simp: match_inv_def)
  have di: "drop (nat i) t = t ! nat i # drop (Suc (nat i)) t"
    using ni by (simp add: Cons_nth_drop_Suc)
  show ?thesis
  proof (cases "nat j < length p")
    case True
    then have "drop (nat j) p = p ! nat j # drop (Suc (nat j)) p" by (simp add: Cons_nth_drop_Suc)
    then show ?thesis using True ni nochar nostar di by (auto simp: glob_lit)
  next
    case False
    then show ?thesis using ni di by simp
  qed
qed

lemma match_inv_step_back:
  assumes inv: "match_inv t p i j x y" and ns: "star \<notin> set t" and i: "i < int (length t)"
    and fail: "\<not> glob (drop (nat j) p) (drop (nat i) t)" and x: "0 \<le> x"
  shows "match_inv t p (x + 1) (y + 1) (x + 1) y"
proof -
  have res: "0 \<le> y" "resumable t p (nat i) (nat j) (nat x) (nat y)"
    and ni: "nat i < length t" "0 \<le> i" "0 \<le> j" "j \<le> int (length p)"
    using inv x i by (auto simp: match_inv_def)
  obtain w where w: "star \<notin> set w"
    "drop (Suc (nat y)) p = w @ drop (nat j) p" "drop (nat x) t = w @ drop (nat i) t"
    using resumable_segment [OF res(2) _ _ ns] ni by (metis less_imp_le_nat nat_le_iff)
  have "\<not> glob (drop (Suc (nat y)) p) (drop (nat x) t)"
    using w fail by (auto simp: glob_literals)
  then have "glob p t \<longleftrightarrow> (\<exists>k\<ge>Suc (nat x). k \<le> length t \<and> glob (drop (Suc (nat y)) p) (drop k t))"
    using res(2) unfolding resumable_def by (metis Suc_leD not_less_eq_eq le_antisym)
  moreover have "nat x \<le> nat i" "nat y < nat j" using res(2) by (auto simp: resumable_def)
  moreover have "nat (x + 1) = Suc (nat x)" "nat (y + 1) = Suc (nat y)"
    using x res by (auto simp: nat_add_distrib)
  ultimately show ?thesis using x res(1) ni by (auto simp: match_inv_def resumable_def)
qed

lemma match_inv_end:
  assumes inv: "match_inv t p i j x y" and ns: "star \<notin> set t" and i: "\<not> i < int (length t)"
  shows "skip_stars p j = int (length p) \<longleftrightarrow> glob p t"
proof -
  have ni: "nat i = length t" "0 \<le> j" "nat j \<le> length p" using inv i by (auto simp: match_inv_def)
  have rest: "skip_stars p j = int (length p) \<longleftrightarrow> glob (drop (nat j) p) []"
    using skip_stars_end [OF ni(3)] ni(2) by (simp add: glob_Nil)
  consider (fresh) "glob p t \<longleftrightarrow> glob (drop (nat j) p) (drop (nat i) t)"
    | (resume) "resumable t p (nat i) (nat j) (nat x) (nat y)"
    using inv by (auto simp: match_inv_def)
  then show ?thesis
  proof cases
    case fresh
    then show ?thesis using rest ni by simp
  next
    case resume
    obtain w where w: "star \<notin> set w" "length w = nat i - nat x"
      "drop (Suc (nat y)) p = w @ drop (nat j) p" "drop (nat x) t = w @ drop (nat i) t"
      using resumable_segment [OF resume _ _ ns] ni by (metis order_refl)
    have xi: "nat x \<le> nat i" using resume by (simp add: resumable_def)
    have g: "glob p t \<longleftrightarrow> (\<exists>k\<ge>nat x. k \<le> length t \<and> glob (w @ drop (nat j) p) (drop k t))"
      using resume w(3) by (simp add: resumable_def)
    have "glob p t \<longleftrightarrow> glob (drop (nat j) p) []"
    proof
      assume "glob p t"
      then obtain k u where k: "k \<ge> nat x" "k \<le> length t" "drop k t = w @ u"
        "glob (drop (nat j) p) u" using g w(1) by (auto simp: glob_literals)
      have "length w + length u = length t - k" using k(3) by (metis length_append length_drop)
      moreover have "length t - k \<le> length t - nat x" using k(1) by (rule diff_le_mono2)
      ultimately have "length w + length u \<le> length w" using w(2) ni(1) by linarith
      then have "u = []" by simp
      with k show "glob (drop (nat j) p) []" by simp
    next
      assume "glob (drop (nat j) p) []"
      then have "glob (w @ drop (nat j) p) (drop (nat x) t)"
        using w(1,4) ni by (auto simp: glob_literals)
      then show "glob p t" using g xi ni by auto
    qed
    then show ?thesis using rest by simp
  qed
qed

lemma match_inv_order:
  assumes "match_inv t p i j x y"
  shows "x = -1 \<and> y = -1 \<or> 0 \<le> x \<and> 0 \<le> y \<and> x \<le> i \<and> y < j"
proof -
  have "x \<le> i \<and> y < j" if "0 \<le> x" "0 \<le> y" "resumable t p (nat i) (nat j) (nat x) (nat y)"
  proof -
    have "nat x \<le> nat i" "nat y < nat j" using that(3) by (simp_all add: resumable_def)
    moreover have "0 \<le> i" using assms by (simp add: match_inv_def)
    ultimately show ?thesis using that(1) by linarith
  qed
  then show ?thesis using assms unfolding match_inv_def by blast
qed

lemma match_loop_correct:
  assumes "match_inv t p i j x y" and "star \<notin> set t"
  shows "\<exists>r. match_loop t p i j x y = Some r
     \<and> ((case r of None \<Rightarrow> False | Some j' \<Rightarrow> skip_stars p j' = int (length p)) \<longleftrightarrow> glob p t)"
  using assms(1)
proof (induction "(i, j, x, y)" arbitrary: i j x y
    rule: wf_induct_rule [OF wf_measures [of "[\<lambda>(i, j, x, y). nat (int (length p) - y),
      \<lambda>(i, j, x, y). nat (int (length t) - x), \<lambda>(i, j, x, y). nat (int (length t) - i)]"]])
  case (1 i j x y)
  note inv = "1.prems" and ns = assms(2)
  note unf = match_loop.simps [of t p i j x y]
  have b: "0 \<le> i" "i \<le> int (length t)" "0 \<le> j" "j \<le> int (length p)"
    using inv by (simp_all add: match_inv_def)
  have xy: "x = -1 \<and> y = -1 \<or> 0 \<le> x \<and> 0 \<le> y \<and> x \<le> i \<and> y < j"
    using inv match_inv_order by blast
  show ?case
  proof (cases "i < int (length t)")
    case False
    then show ?thesis using unf match_inv_end [OF inv ns False] by simp
  next
    case i: True
    consider (char) "j < int (length p)" "t ! nat i = p ! nat j"
      | (star) "j < int (length p)" "t ! nat i \<noteq> p ! nat j" "p ! nat j = star"
      | (stuck) "\<not> (j < int (length p) \<and> t ! nat i = p ! nat j)"
          "\<not> (j < int (length p) \<and> p ! nat j = star)" by blast
    then show ?thesis
    proof cases
      case char
      then have "match_loop t p i j x y = match_loop t p (i + 1) (j + 1) x y"
        using unf i by simp
      then show ?thesis
        using "1.hyps" [OF _ match_inv_step_char [OF inv ns i char]] i by simp
    next
      case star
      then have eq: "match_loop t p i j x y = match_loop t p i (j + 1) i j"
        using unf i by simp
      have "y < j" using xy b by auto
      then show ?thesis
        using "1.hyps" [OF _ match_inv_step_star [OF inv ns i star(1) star(3)]] star(1) eq by auto
    next
      case stuck
      note mis = match_inv_mismatch [OF inv ns i stuck]
      show ?thesis
      proof (cases "0 \<le> x")
        case True
        then have eq: "match_loop t p i j x y = match_loop t p (x + 1) (y + 1) (x + 1) y"
          using unf i stuck by auto
        have "x < int (length t)" using xy i True by auto
        then show ?thesis
          using "1.hyps" [OF _ match_inv_step_back [OF inv ns i mis True]] eq by auto
      next
        case False
        then have "x = -1" using xy by auto
        then have "\<not> glob p t" using inv mis by (auto simp: match_inv_def)
        moreover have "match_loop t p i j x y = Some None" using unf i stuck False by auto
        ultimately show ?thesis by simp
      qed
    qed
  qed
qed

lemma match_one_glob: "star \<notin> set t \<Longrightarrow> match_one t p = Some (glob p t)"
proof -
  assume ns: "star \<notin> set t"
  have "match_inv t p 0 0 (-1) (-1)" by (simp add: match_inv_def)
  from match_loop_correct [OF this ns] show ?thesis
    by (auto simp: match_one_def split: option.splits)
qed

lemma match_any_glob:
  "star \<notin> set t \<Longrightarrow> match_any t ps = Some (\<exists>p\<in>set ps. t = p \<or> glob p t)"
  by (induction ps) (auto simp: match_one_glob)

section \<open>The driver runs the selected builds in order\<close>

text \<open>Run commands one after the other, stopping behind the first that fails.\<close>

fun run_until_failure ::
  "(string list \<Rightarrow> string \<Rightarrow> int) \<Rightarrow> string list \<Rightarrow> string list \<Rightarrow> string list \<times> int option" where
  "run_until_failure os_system hist [] = (hist, None)"
| "run_until_failure os_system hist (c # cs) =
     (if os_system hist c \<noteq> 0 then (hist @ [c], Some (os_system hist c))
      else run_until_failure os_system (hist @ [c]) cs)"

definition selected :: "string list \<Rightarrow> string \<Rightarrow> bool" where
  "selected patterns t \<longleftrightarrow> (\<exists>p\<in>set patterns. t = p \<or> glob p t)"

lemma commands_of_simps [simp]:
  "commands_of [] = []"
  "commands_of (tr @ tr') = commands_of tr @ commands_of tr'"
  "commands_of (BlankLine # es) = commands_of es" "commands_of (PrintBuild t # es) = commands_of es"
  "commands_of (RunCommand c # es) = c # commands_of es"
  "commands_of (PrintFailed t # es) = commands_of es"
  by (simp_all add: commands_of_def)

lemma build_loop_refines:
  assumes "\<forall>t\<in>set ts. star \<notin> set t"
  shows "\<exists>tr'. build_loop os_system ps is_first ts tr
     = Some (tr', snd (run_until_failure os_system (commands_of tr)
                         (map ninja_command (filter (selected ps) ts))))
     \<and> commands_of tr' = fst (run_until_failure os_system (commands_of tr)
                         (map ninja_command (filter (selected ps) ts)))"
  using assms
proof (induction ts arbitrary: is_first tr)
  case (Cons t ts)
  then have m: "match_any t ps = Some (selected ps t)"
    by (simp add: match_any_glob selected_def)
  show ?case
  proof (cases "selected ps t")
    case False
    with m Cons show ?thesis by simp
  next
    case True
    let ?tr1 = "(if is_first then tr else tr @ [BlankLine]) @ [PrintBuild t]"
    have c: "commands_of ?tr1 = commands_of tr" by simp
    show ?thesis
      using m True c Cons.IH [of False "?tr1 @ [RunCommand (ninja_command t)]"] Cons.prems
      by (simp add: Let_def)
  qed
qed simp

lemma all_targets_no_star: "\<forall>t\<in>set (sort (map fst all_targets)). star \<notin> set t"
  by (simp add: all_targets_def)



text \<open>
  The driver always ends; it runs ninja on exactly the configurations selected by the
  patterns (\<open>release_x86\<close> when there are none), in the order of their names, and stops
  behind the first command that fails, whose exit code it returns.
\<close>

theorem build_main_runs_selected:
  "\<exists>tr. build_main os_system argv
     = Some (tr, snd (run_until_failure os_system []
         (map ninja_command (filter (selected (if length argv \<ge> 2 then tl argv else [''release_x86'']))
            (sort (map fst all_targets))))))
     \<and> commands_of tr = fst (run_until_failure os_system []
         (map ninja_command (filter (selected (if length argv \<ge> 2 then tl argv else [''release_x86'']))
            (sort (map fst all_targets)))))"
  unfolding build_main_def Let_def
  using build_loop_refines [OF all_targets_no_star, where tr = "[]"] by simp

end
