(* ===== verification/PosixPath.thy ===== *)
theory PosixPath
  imports Prelude
begin

text \<open>
  The part of Python's \<open>posixpath\<close> that gyp calls: \<open>isabs\<close>, \<open>join\<close>, \<open>split\<close>,
  \<open>dirname\<close>, \<open>basename\<close>, \<open>splitext\<close> and \<open>normpath\<close>, with the component view of a path
  that the proofs use. \<open>os.path.realpath\<close> depends on the file system and stays a
  parameter of the definitions that call it.
\<close>

abbreviation slash :: char where "slash \<equiv> CHR ''/''"

definition isabs :: "string \<Rightarrow> bool" where
  "isabs p \<longleftrightarrow> starts_with p ''/''"

definition path_join :: "string \<Rightarrow> string \<Rightarrow> string" where
  "path_join a b =
     (if starts_with b ''/'' then b
      else if a = [] \<or> ends_with a ''/'' then a @ b
      else a @ slash # b)"

text \<open>\<open>os.path.join(*parts)\<close>\<close>

fun path_joins :: "string list \<Rightarrow> string" where
  "path_joins [] = []"
| "path_joins (p # ps) = foldl path_join p ps"

text \<open>\<open>p[:i], p[i:]\<close> where \<open>i\<close> is behind the last slash.\<close>

definition split_at_slash :: "string \<Rightarrow> string \<times> string" where
  "split_at_slash p = (case rsplit1 slash p of None \<Rightarrow> ([], p) | Some (a, b) \<Rightarrow> (a @ [slash], b))"

definition path_split :: "string \<Rightarrow> string \<times> string" where
  "path_split p =
     (let (head, tail) = split_at_slash p in
      (if head \<noteq> [] \<and> \<not> list_all (\<lambda>c. c = slash) head
       then rev (dropWhile (\<lambda>c. c = slash) (rev head)) else head, tail))"

definition dirname :: "string \<Rightarrow> string" where
  "dirname p = fst (path_split p)"

definition basename :: "string \<Rightarrow> string" where
  "basename p = snd (split_at_slash p)"

text \<open>
  \<open>os.path.splitext\<close>: the extension starts at the last dot of the last component, unless
  everything before that dot in the component is dots.
\<close>

definition splitext :: "string \<Rightarrow> string \<times> string" where
  "splitext p =
     (let (head, tail) = split_at_slash p in
      case rsplit1 (CHR ''.'') tail of
        None \<Rightarrow> (p, [])
      | Some (a, b) \<Rightarrow> if list_all (\<lambda>c. c = CHR ''.'') a then (p, [])
                       else (head @ a, CHR ''.'' # b))"

text \<open>The loop of \<open>normpath\<close> over the components; \<open>acc\<close> is \<open>new_comps\<close> reversed.\<close>

fun norm_comps :: "bool \<Rightarrow> string list \<Rightarrow> string list \<Rightarrow> string list" where
  "norm_comps rooted acc [] = rev acc"
| "norm_comps rooted acc (c # cs) =
     (if c = [] \<or> c = ''.'' then norm_comps rooted acc cs
      else if c \<noteq> ''..'' \<or> (\<not> rooted \<and> acc = []) \<or> (acc \<noteq> [] \<and> hd acc = ''..'')
      then norm_comps rooted (c # acc) cs
      else norm_comps rooted (tl acc) cs)"

definition normpath :: "string \<Rightarrow> string" where
  "normpath path =
     (if path = [] then ''.''
      else
        let slashes = (if starts_with path ''//'' \<and> \<not> starts_with path ''///'' then ''//''
                       else if starts_with path ''/'' then ''/'' else []);
            r = slashes @ join_with ''/'' (norm_comps (slashes \<noteq> []) [] (split_on slash path))
        in if r = [] then ''.'' else r)"

section \<open>Absolute normalised paths by their components\<close>

definition plain_comp :: "string \<Rightarrow> bool" where
  "plain_comp c \<longleftrightarrow> c \<noteq> [] \<and> c \<noteq> ''.'' \<and> c \<noteq> ''..'' \<and> slash \<notin> set c"

definition abs_path :: "string list \<Rightarrow> string" where
  "abs_path cs = slash # join_with ''/'' cs"

lemma norm_comps_plain:
  "\<forall>c\<in>set cs. plain_comp c \<Longrightarrow> norm_comps rooted acc (cs @ ds) = norm_comps rooted (rev cs @ acc) ds"
  by (induction cs arbitrary: acc) (auto simp: plain_comp_def)

lemma norm_comps_up:
  "\<forall>c\<in>set acc. plain_comp c \<Longrightarrow>
     norm_comps True acc (replicate n ''..'' @ ds) = norm_comps True (drop n acc) ds"
proof (induction n arbitrary: acc)
  case (Suc n)
  show ?case
  proof (cases acc)
    case Nil
    then show ?thesis using Suc.IH [of "[]"] by simp
  next
    case (Cons a as)
    then show ?thesis using Suc.IH [of as] Suc.prems by (auto simp: plain_comp_def)
  qed
qed simp

lemma split_abs_path:
  assumes "\<forall>c\<in>set cs. plain_comp c"
  shows "split_on slash (abs_path cs) = (if cs = [] then [[], []] else [] # cs)"
  using assms split_join [of cs slash] by (auto simp: abs_path_def plain_comp_def)

lemma join_with_Cons:
  "join_with sep (p # ps) = (if ps = [] then p else p @ sep @ join_with sep ps)"
  by (cases ps) auto

lemma join_with_append:
  "ps \<noteq> [] \<Longrightarrow> qs \<noteq> [] \<Longrightarrow> join_with sep (ps @ qs) = join_with sep ps @ sep @ join_with sep qs"
  by (induction ps) (auto simp: join_with_Cons)

end
