(* ===== verification/Common.thy ===== *)
theory Common
  imports PyVal PosixPath
begin

text \<open>
  The helpers of \<open>gyp/common.py\<close>: qualified target names, relative paths, quoting for POSIX
  shells, the memoizing decorator, the transitive dependency closures over target
  dictionaries and the small list utilities. The path flavour is \<open>posixpath\<close>;
  \<open>os.path.realpath\<close> is a parameter.
\<close>

section \<open>Qualified targets\<close>

text \<open>\<open>[build_file, target, toolset]\<close>, with \<open>None\<close> for a missing part.\<close>

definition ParseQualifiedTarget :: "string \<Rightarrow> string option \<times> string \<times> string option" where
  "ParseQualifiedTarget target =
     (let (build_file, target') =
            (case rsplit1 (CHR '':'') target of
               Some (a, b) \<Rightarrow> (Some a, b) | None \<Rightarrow> (None, target));
          (target'', toolset) =
            (case rsplit1 (CHR ''#'') target' of
               Some (a, b) \<Rightarrow> (a, Some b) | None \<Rightarrow> (target', None))
      in (build_file, target'', toolset))"

definition FindQualifiedTargets :: "string \<Rightarrow> string list \<Rightarrow> string list" where
  "FindQualifiedTargets target qualified_list =
     [t \<leftarrow> qualified_list. fst (snd (ParseQualifiedTarget t)) = target]"

text \<open>\<open>if toolset:\<close> is false for \<open>None\<close> and for the empty string.\<close>

fun nonempty :: "string option \<Rightarrow> bool" where
  "nonempty None = False"
| "nonempty (Some s) = (s \<noteq> [])"

definition QualifiedTarget :: "string \<Rightarrow> string \<Rightarrow> string option \<Rightarrow> string" where
  "QualifiedTarget build_file target toolset =
     (let fully_qualified = build_file @ '':'' @ target
      in if nonempty toolset then fully_qualified @ ''#'' @ the toolset else fully_qualified)"

definition BuildFile :: "string \<Rightarrow> string option" where
  "BuildFile fully_qualified_target = fst (ParseQualifiedTarget fully_qualified_target)"

definition BuildFileTargets :: "string list \<Rightarrow> string \<Rightarrow> string list" where
  "BuildFileTargets target_list build_file =
     [p \<leftarrow> target_list. BuildFile p = Some build_file]"

lemma ParseQualifiedTarget_Qualified:
  assumes "CHR '':'' \<notin> set target" and "CHR '':'' \<notin> set toolset" and "CHR ''#'' \<notin> set toolset"
    and "toolset \<noteq> []"
  shows "ParseQualifiedTarget (QualifiedTarget build_file target (Some toolset))
     = (Some build_file, target, Some toolset)"
proof -
  have "rsplit1 (CHR '':'') (build_file @ CHR '':'' # target @ CHR ''#'' # toolset)
      = Some (build_file, target @ CHR ''#'' # toolset)"
    using assms by (auto simp: rsplit1_Some)
  moreover have "rsplit1 (CHR ''#'') (target @ CHR ''#'' # toolset) = Some (target, toolset)"
    using assms by (auto simp: rsplit1_Some)
  ultimately show ?thesis
    using assms by (simp add: ParseQualifiedTarget_def QualifiedTarget_def)
qed

lemma ParseQualifiedTarget_Qualified_none:
  assumes "CHR '':'' \<notin> set target" and "CHR ''#'' \<notin> set target" and "\<not> nonempty toolset"
  shows "ParseQualifiedTarget (QualifiedTarget build_file target toolset) = (Some build_file, target, None)"
proof -
  have "rsplit1 (CHR '':'') (build_file @ CHR '':'' # target) = Some (build_file, target)"
    using assms by (auto simp: rsplit1_Some)
  moreover have "rsplit1 (CHR ''#'') target = None" using assms by simp
  ultimately show ?thesis using assms by (simp add: ParseQualifiedTarget_def QualifiedTarget_def)
qed

lemma QualifiedTarget_Parse:
  assumes "ParseQualifiedTarget t = (Some bf, target, toolset)" and "toolset \<noteq> Some []"
  shows "QualifiedTarget bf target toolset = t"
proof -
  obtain rest where r: "rsplit1 (CHR '':'') t = Some (bf, rest)"
    "(case rsplit1 (CHR ''#'') rest of Some (a, b) \<Rightarrow> (a, Some b) | None \<Rightarrow> (rest, None)) = (target, toolset)"
    using assms(1) by (auto simp: ParseQualifiedTarget_def Let_def split: option.splits prod.splits)
  then have "t = bf @ CHR '':'' # rest" by (simp add: rsplit1_Some)
  moreover have "rest = target @ (if nonempty toolset then CHR ''#'' # the toolset else [])"
  proof (cases "rsplit1 (CHR ''#'') rest")
    case None
    with r(2) show ?thesis by simp
  next
    case (Some p)
    with r(2) have "toolset \<noteq> None" "rest = target @ CHR ''#'' # the toolset"
      using rsplit1_Some by (auto split: prod.splits)
    then show ?thesis using assms(2) by auto
  qed
  ultimately show ?thesis by (simp add: QualifiedTarget_def)
qed

section \<open>Relative paths\<close>

text \<open>\<open>os.path.commonprefix\<close> of two component lists.\<close>

fun common_prefix :: "'a list \<Rightarrow> 'a list \<Rightarrow> 'a list" where
  "common_prefix (x # xs) (y # ys) = (if x = y then x # common_prefix xs ys else [])"
| "common_prefix _ _ = []"

definition RelativePath :: "(string \<Rightarrow> string) \<Rightarrow> string \<Rightarrow> string \<Rightarrow> string" where
  "RelativePath realpath path relative_to =
     (let path' = realpath path;
          relative_to' = realpath relative_to;
          path_split = split_on slash path';
          relative_to_split = split_on slash relative_to';
          prefix_len = length (common_prefix path_split relative_to_split);
          relative_split = replicate (length relative_to_split - prefix_len) ''..''
                           @ drop prefix_len path_split
      in if relative_split = [] then [] else path_joins relative_split)"

definition InvertRelativePath ::
  "(string \<Rightarrow> string) \<Rightarrow> string \<Rightarrow> string option \<Rightarrow> string" where
  "InvertRelativePath realpath path toplevel_dir =
     (if path = [] then path
      else let top = (case toplevel_dir of None \<Rightarrow> ''.'' | Some d \<Rightarrow> d)
           in RelativePath realpath top (path_join top path))"

definition FixIfRelativePath :: "(string \<Rightarrow> string) \<Rightarrow> string \<Rightarrow> string \<Rightarrow> string" where
  "FixIfRelativePath realpath path relative_to =
     (if isabs path then path else RelativePath realpath path relative_to)"

definition UnrelativePath :: "string \<Rightarrow> string \<Rightarrow> string" where
  "UnrelativePath path relative_to = normpath (path_join (dirname relative_to) path)"

definition ResolveTarget ::
  "(string \<Rightarrow> string) \<Rightarrow> string option \<Rightarrow> string \<Rightarrow> string option
     \<Rightarrow> string option \<times> string \<times> string option" where
  "ResolveTarget realpath build_file target toolset =
     (let (parsed_build_file, target', parsed_toolset) = ParseQualifiedTarget target;
          build_file' =
            (if nonempty parsed_build_file then
               (if nonempty build_file then
                  let bf = normpath (path_join (dirname (the build_file)) (the parsed_build_file))
                  in Some (if isabs bf then bf else RelativePath realpath bf ''.'')
                else parsed_build_file)
             else build_file);
          toolset' = (if nonempty parsed_toolset then parsed_toolset else toolset)
      in (build_file', target', toolset'))"

lemma common_prefix_prefix:
  "common_prefix xs ys = take (length (common_prefix xs ys)) xs
   \<and> common_prefix xs ys = take (length (common_prefix xs ys)) ys"
  by (induction xs ys rule: common_prefix.induct) auto

lemma common_prefix_split:
  "xs = common_prefix xs ys @ drop (length (common_prefix xs ys)) xs"
  "ys = common_prefix xs ys @ drop (length (common_prefix xs ys)) ys"
  using common_prefix_prefix [of xs ys] by (metis append_take_drop_id)+

lemma common_prefix_Cons_eq: "common_prefix (x # xs) (x # ys) = x # common_prefix xs ys"
  by simp

section \<open>Quoting for POSIX shells\<close>

text \<open>\<open>_quote\<close>: characters that need double quotes; \<open>_escape\<close>: those that need a backslash.\<close>

definition quote_chars :: "char list" where
  "quote_chars = [CHR 0x09, CHR 0x0A] @ '' #$%&'' @ [CHR 0x27] @ ''()*;<=>?[{|}~''"

definition needs_quote :: "string \<Rightarrow> bool" where
  "needs_quote argument \<longleftrightarrow> argument = [] \<or> list_ex (\<lambda>c. c \<in> set quote_chars) argument"

definition escape_char :: "char \<Rightarrow> string" where
  "escape_char c = (if c = CHR 0x22 \<or> c = CHR 0x5C \<or> c = CHR 0x60 then [CHR 0x5C, c] else [c])"

definition EncodePOSIXShellArgument :: "string \<Rightarrow> string" where
  "EncodePOSIXShellArgument argument =
     (let quote = (if needs_quote argument then [CHR 0x22] else [])
      in quote @ concat (map escape_char argument) @ quote)"

definition EncodePOSIXShellList :: "string list \<Rightarrow> string" where
  "EncodePOSIXShellList args = join_with '' '' (map EncodePOSIXShellArgument args)"

section \<open>The memoizing decorator\<close>

definition memo_call :: "('a \<Rightarrow> 'b) \<Rightarrow> ('a \<rightharpoonup> 'b) \<Rightarrow> 'a \<Rightarrow> 'b \<times> ('a \<rightharpoonup> 'b)" where
  "memo_call func cache args =
     (case cache args of
        Some r \<Rightarrow> (r, cache)
      | None \<Rightarrow> let result = func args in (result, cache(args \<mapsto> result)))"

fun memo_calls :: "('a \<Rightarrow> 'b) \<Rightarrow> ('a \<rightharpoonup> 'b) \<Rightarrow> 'a list \<Rightarrow> 'b list \<times> ('a \<rightharpoonup> 'b)" where
  "memo_calls func cache [] = ([], cache)"
| "memo_calls func cache (a # as) =
     (let (r, cache') = memo_call func cache a; (rs, cache'') = memo_calls func cache' as
      in (r # rs, cache''))"

section \<open>Small utilities\<close>

text \<open>\<open>uniquer(seq, idfun)\<close>: keep the first item of every marker.\<close>

fun uniquer_loop :: "('a \<Rightarrow> 'm) \<Rightarrow> 'm list \<Rightarrow> 'a list \<Rightarrow> 'a list \<Rightarrow> 'a list" where
  "uniquer_loop idfun seen result [] = result"
| "uniquer_loop idfun seen result (item # seq) =
     (let marker = idfun item
      in if marker \<in> set seen then uniquer_loop idfun seen result seq
         else uniquer_loop idfun (marker # seen) (result @ [item]) seq)"

definition uniquer :: "('a \<Rightarrow> 'm) \<Rightarrow> 'a list \<Rightarrow> 'a list" where
  "uniquer idfun seq = uniquer_loop idfun [] [] seq"

definition GetFlavor :: "string option \<Rightarrow> string \<Rightarrow> string" where
  "GetFlavor params_flavor platform =
     (case params_flavor of
        Some f \<Rightarrow> f
      | None \<Rightarrow>
         (case map_of [(''cygwin'', ''win''), (''win32'', ''win''), (''darwin'', ''mac'')] platform of
            Some f \<Rightarrow> f
          | None \<Rightarrow>
              if starts_with platform ''sunos'' then ''solaris''
              else if starts_with platform ''freebsd'' then ''freebsd''
              else if starts_with platform ''openbsd'' then ''openbsd''
              else if starts_with platform ''aix'' then ''aix''
              else ''linux''))"

definition GetEnvironFallback :: "(string \<rightharpoonup> string) \<Rightarrow> string list \<Rightarrow> string \<Rightarrow> string" where
  "GetEnvironFallback environ var_list dflt =
     (case List.find (\<lambda>var. environ var \<noteq> None) var_list of
        Some var \<Rightarrow> the (environ var) | None \<Rightarrow> dflt)"

section \<open>A relative path leads back\<close>

lemma path_joins_join_with:
  assumes "\<forall>x\<in>set xs. slash \<notin> set x" and "\<forall>x\<in>set (butlast xs). x \<noteq> []"
  shows "path_joins xs = join_with ''/'' xs"
proof -
  have "foldl path_join p ps = join_with ''/'' (p # ps)"
    if "slash \<notin> set p \<or> last p \<noteq> slash" "\<forall>x\<in>set ps. slash \<notin> set x"
      "\<forall>x\<in>set (butlast (p # ps)). x \<noteq> []" for p ps
    using that
  proof (induction ps arbitrary: p)
    case (Cons q ps)
    have p: "p \<noteq> []" "\<not> ends_with p ''/''"
      using Cons.prems by (auto simp: ends_with_iff)
    have q: "\<not> starts_with q ''/''" using Cons.prems(2) by (auto simp: starts_with_iff)
    have "foldl path_join p (q # ps) = foldl path_join (p @ slash # q) ps"
      using p q by (simp add: path_join_def)
    also have "\<dots> = join_with ''/'' ((p @ slash # q) # ps)"
    proof (cases "ps = []")
      case False
      then have "q \<noteq> []" using Cons.prems(3) by auto
      then have "last (p @ slash # q) \<noteq> slash" using Cons.prems(2) by (auto dest: last_in_set)
      then show ?thesis using Cons.IH [of "p @ slash # q"] Cons.prems(2,3) by auto
    qed simp
    also have "\<dots> = join_with ''/'' (p # q # ps)" by (simp add: join_with_Cons)
    finally show ?case .
  qed simp
  from this [of "hd xs" "tl xs"] show ?thesis using assms by (cases xs) auto
qed

lemma normpath_rooted:
  assumes "L \<noteq> []" and "\<forall>x\<in>set L. slash \<notin> set x" and "hd L \<noteq> [] \<or> L = [[]]"
  shows "normpath (join_with ''/'' ([] # L)) = abs_path (norm_comps True [] L)"
proof -
  let ?p = "join_with ''/'' ([] # L)"
  have p: "?p = slash # join_with ''/'' L" using assms(1) by (simp add: join_with_Cons)
  have "split_on slash ?p = [] # L" using split_join [of "[] # L" slash] assms by auto
  moreover have "\<not> starts_with ?p ''//''"
  proof -
    have "\<exists>c cs. join_with ''/'' L = c # cs \<and> c \<noteq> slash" if "L \<noteq> [[]]"
    proof -
      from that assms obtain c cs L' where "L = (c # cs) # L'" "c \<noteq> slash"
        by (cases L; cases "hd L") auto
      then show ?thesis by (simp add: join_with_Cons)
    qed
    then show ?thesis using p by (cases "L = [[]]") (auto simp: starts_with_def)
  qed
  moreover have "starts_with ?p ''/''" using p by (simp add: starts_with_def)
  ultimately show ?thesis using p by (simp add: normpath_def abs_path_def Let_def)
qed

definition real_comps :: "string list \<Rightarrow> string list" where
  "real_comps cs = (if cs = [] then [[]] else cs)"

lemma norm_comps_relative:
  assumes ps: "\<forall>c\<in>set ps. plain_comp c" and rs: "\<forall>c\<in>set rs. plain_comp c"
    and k: "k = length (common_prefix (real_comps ps) (real_comps rs))"
  shows "norm_comps True [] (rs @ replicate (length (real_comps rs) - k) ''..''
           @ drop k (real_comps ps)) = ps"
proof -
  let ?n = "length (real_comps rs) - k"
  have "norm_comps True [] (rs @ replicate ?n ''..'' @ drop k (real_comps ps))
      = norm_comps True (drop ?n (rev rs)) (drop k (real_comps ps))"
    using norm_comps_plain [OF rs] norm_comps_up [of "rev rs"] rs by simp
  also have "\<dots> = ps"
  proof (cases "ps = []")
    case True
    show ?thesis
    proof (cases "rs = []")
      case True
      then show ?thesis using \<open>ps = []\<close> k by (simp add: real_comps_def)
    next
      case False
      then have "k = 0" using True k rs by (cases rs) (auto simp: real_comps_def plain_comp_def)
      then show ?thesis using True False by (simp add: real_comps_def)
    qed
  next
    case False
    note psne = False
    show ?thesis
    proof (cases "rs = []")
      case True
      then have "k = 0" using psne k ps by (cases ps) (auto simp: real_comps_def plain_comp_def)
      then show ?thesis using True psne norm_comps_plain [OF ps, of True "[]" "[]"]
        by (simp add: real_comps_def)
    next
      case False
      then have c: "real_comps ps = ps" "real_comps rs = rs" using psne by (auto simp: real_comps_def)
      have "take k ps = take k rs" "k \<le> length rs"
        using common_prefix_prefix [of ps rs] k c by (metis, metis length_take min.absorb_iff2 min.commute)
      then have "drop ?n (rev rs) = rev (take k ps)" using c by (simp add: drop_rev)
      moreover have "\<forall>x\<in>set (drop k ps). plain_comp x" using ps by (meson in_set_dropD)
      ultimately show ?thesis
        using c norm_comps_plain [of "drop k ps" True "rev (take k ps)" "[]"] by simp
    qed
  qed
  finally show ?thesis .
qed

lemma join_with_last:
  assumes "\<forall>c\<in>set rs. plain_comp c" and "rs \<noteq> []"
  shows "\<not> ends_with (abs_path rs) ''/''"
proof -
  obtain rs' c where rs: "rs = rs' @ [c]" using assms(2) by (cases rs rule: rev_cases) auto
  then have "plain_comp c" using assms(1) by simp
  then have c: "c \<noteq> []" "last c \<noteq> slash"
    using last_in_set [of c] by (metis plain_comp_def)+
  have "last (abs_path rs) = last c"
    using c(1) rs by (cases "rs' = []") (auto simp: abs_path_def join_with_append)
  then show ?thesis using c(2) by (auto simp: ends_with_iff)
qed

lemma path_join_abs:
  assumes rs: "\<forall>c\<in>set rs. plain_comp c"
    and rel: "rel \<noteq> []" "hd rel \<noteq> []" "\<forall>x\<in>set rel. slash \<notin> set x"
  shows "path_join (abs_path rs) (join_with ''/'' rel) = join_with ''/'' ([] # rs @ rel)"
proof -
  obtain c cs rel' where r: "rel = (c # cs) # rel'" "c \<noteq> slash"
    using rel by (cases rel; cases "hd rel") auto
  then have "\<not> starts_with (join_with ''/'' rel) ''/''"
    by (simp add: join_with_Cons starts_with_def)
  then show ?thesis
    using join_with_last [OF rs] rel(1)
    by (cases "rs = []")
      (simp_all add: path_join_def abs_path_def join_with_Cons join_with_append ends_with_def starts_with_def)
qed

lemma path_join_abs_empty:
  assumes "\<forall>c\<in>set rs. plain_comp c"
  shows "path_join (abs_path rs) [] = join_with ''/'' ([] # rs @ [[]])"
  using join_with_last [OF assms]
  by (cases "rs = []")
    (simp_all add: path_join_def abs_path_def join_with_Cons join_with_append ends_with_def starts_with_def)

lemma relative_split_props:
  assumes ps: "\<forall>c\<in>set ps. plain_comp c"
    and k: "k = length (common_prefix (real_comps ps) (real_comps rs))"
    and rel: "rel = replicate (length (real_comps rs) - k) ''..'' @ drop k (real_comps ps)"
  shows "\<forall>x\<in>set rel. slash \<notin> set x" and "\<forall>x\<in>set (butlast rel). x \<noteq> []" and "rel \<noteq> [] \<Longrightarrow> hd rel \<noteq> []"
proof -
  have sub: "x = ''..'' \<or> x \<in> set (real_comps ps)" if "x \<in> set rel" for x
  proof -
    from that have "x \<in> set (replicate (length (real_comps rs) - k) ''..'') \<or> x \<in> set (drop k (real_comps ps))"
      unfolding rel set_append by (rule UnE) simp_all
    then show ?thesis by (metis in_set_dropD in_set_replicate)
  qed
  have comp: "slash \<notin> set x \<and> (ps \<noteq> [] \<longrightarrow> x \<noteq> [])" if "x \<in> set (real_comps ps)" for x
    using that ps by (auto simp: real_comps_def plain_comp_def split: if_splits)
  show "\<forall>x\<in>set rel. slash \<notin> set x"
  proof
    fix x assume "x \<in> set rel"
    then consider "x = ''..''" | "x \<in> set (real_comps ps)" using sub by blast
    then show "slash \<notin> set x" by cases (simp_all add: comp)
  qed
  have cases: "ps \<noteq> [] \<Longrightarrow> \<forall>x\<in>set rel. x \<noteq> []"
    using sub comp by blast
  have up: "\<forall>x\<in>set (replicate n ''..''). x \<noteq> []" for n by simp
  have nil: "\<exists>n. rel = replicate n ''..'' \<or> 0 < n \<and> rel = replicate n ''..'' @ [[]]" if ps: "ps = []"
  proof (cases "k = 0")
    case True
    have "0 < length (real_comps rs)" by (simp add: real_comps_def)
    moreover have "rel = replicate (length (real_comps rs)) ''..'' @ [[]]"
      using True ps by (simp add: rel real_comps_def)
    ultimately show ?thesis by blast
  next
    case False
    then have "rel = replicate (length (real_comps rs) - k) ''..''"
      using ps by (simp add: rel real_comps_def)
    then show ?thesis by blast
  qed
  show "\<forall>x\<in>set (butlast rel). x \<noteq> []"
  proof (cases "ps = []")
    case True
    from nil [OF this] obtain n where "rel = replicate n ''..'' \<or> 0 < n \<and> rel = replicate n ''..'' @ [[]]" ..
    then show ?thesis using up by (elim disjE) (auto dest: in_set_butlastD)
  next
    case False
    then show ?thesis using cases by (blast dest: in_set_butlastD)
  qed
  show "hd rel \<noteq> []" if "rel \<noteq> []"
  proof (cases "ps = []")
    case True
    from nil [OF this] obtain n where "rel = replicate n ''..'' \<or> 0 < n \<and> rel = replicate n ''..'' @ [[]]" ..
    then show ?thesis using that by (cases n) auto
  next
    case False
    then show ?thesis using cases that by simp
  qed
qed

lemma RelativePath_leads_back:
  assumes p: "realpath path = abs_path ps" "\<forall>c\<in>set ps. plain_comp c"
    and r: "realpath relative_to = abs_path rs" "\<forall>c\<in>set rs. plain_comp c"
  shows "normpath (path_join (realpath relative_to) (RelativePath realpath path relative_to))
     = realpath path"
proof -
  define k where "k = length (common_prefix (real_comps ps) (real_comps rs))"
  define rel where "rel = replicate (length (real_comps rs) - k) ''..'' @ drop k (real_comps ps)"
  note props = relative_split_props [OF p(2) k_def rel_def]
  have sp: "split_on slash (abs_path ps) = [] # real_comps ps"
    and sr: "split_on slash (abs_path rs) = [] # real_comps rs"
    using split_abs_path p(2) r(2) by (simp_all add: real_comps_def)
  have relp: "RelativePath realpath path relative_to = (if rel = [] then [] else path_joins rel)"
    unfolding RelativePath_def Let_def p(1) r(1) sp sr by (simp add: rel_def k_def)
  define L where "L = rs @ (if rel = [] then [[]] else rel)"
  have join: "path_join (abs_path rs) (RelativePath realpath path relative_to) = join_with ''/'' ([] # L)"
    using path_join_abs_empty [OF r(2)] path_join_abs [OF r(2) _ props(3) props(1)]
      path_joins_join_with [OF props(1,2)] relp by (simp add: L_def)
  have plain: "\<forall>x\<in>set rs. slash \<notin> set x \<and> x \<noteq> []" using r(2) by (simp add: plain_comp_def)
  have "L \<noteq> []" by (simp add: L_def)
  moreover have "\<forall>x\<in>set L. slash \<notin> set x" using plain props(1) by (auto simp: L_def)
  moreover have "hd L \<noteq> [] \<or> L = [[]]"
    using plain props(3) by (cases rs) (auto simp: L_def)
  ultimately have "normpath (join_with ''/'' ([] # L)) = abs_path (norm_comps True [] L)"
    by (rule normpath_rooted)
  moreover have "norm_comps True [] L = ps"
  proof -
    have "norm_comps True [] L = norm_comps True [] (rs @ rel)"
      using norm_comps_plain [OF r(2)] by (simp add: L_def)
    also have "\<dots> = ps"
      unfolding rel_def k_def by (rule norm_comps_relative [OF p(2) r(2) refl])
    finally show ?thesis .
  qed
  ultimately show ?thesis using join p(1) r(1) by simp
qed

section \<open>How a POSIX shell reads the encoded arguments\<close>

text \<open>
  Word splitting and quote removal after IEEE 1003.1, XCU 2.2, for text without parameter
  expansion: \<open>None\<close> when a quote is left open or when a character with a special meaning
  (expansion, redirection, globbing, comment, assignment, job control) is left unquoted. The
  current word is \<open>None\<close> between words.
\<close>

definition sh_special :: "char list" where
  "sh_special = [CHR 0x0A, CHR 0x27, CHR 0x60] @ ''|&;<>()$*?[#~=%{}''"

definition word_of :: "string option \<Rightarrow> string" where
  "word_of w = (case w of None \<Rightarrow> [] | Some u \<Rightarrow> u)"

fun sh_scan :: "bool \<Rightarrow> string option \<Rightarrow> string \<Rightarrow> string list option" where
  "sh_scan False w [] = Some (case w of None \<Rightarrow> [] | Some u \<Rightarrow> [u])"
| "sh_scan True w [] = None"
| "sh_scan False w (c # cs) =
     (if c = CHR 0x22 then sh_scan True (Some (word_of w)) cs
      else if c = CHR 0x5C then
        (case cs of [] \<Rightarrow> None
         | d # ds \<Rightarrow> if d = CHR 0x0A then sh_scan False w ds
                    else sh_scan False (Some (word_of w @ [d])) ds)
      else if c = CHR '' '' \<or> c = CHR 0x09
      then map_option (\<lambda>ws. case w of None \<Rightarrow> ws | Some u \<Rightarrow> u # ws) (sh_scan False None cs)
      else if c \<in> set sh_special then None
      else sh_scan False (Some (word_of w @ [c])) cs)"
| "sh_scan True w (c # cs) =
     (if c = CHR 0x22 then sh_scan False w cs
      else if c = CHR 0x5C then
        (case cs of [] \<Rightarrow> None
         | d # ds \<Rightarrow> if d = CHR 0x0A then sh_scan True w ds
                    else if d \<in> {CHR ''$'', CHR 0x60, CHR 0x22, CHR 0x5C}
                    then sh_scan True (Some (word_of w @ [d])) ds
                    else sh_scan True (Some (word_of w @ [c, d])) ds)
      else if c = CHR ''$'' \<or> c = CHR 0x60 then None
      else sh_scan True (Some (word_of w @ [c])) cs)"

definition sh_words :: "string \<Rightarrow> string list option" where
  "sh_words s = sh_scan False None s"

lemma sh_scan_quoted:
  "CHR ''$'' \<notin> set a \<Longrightarrow>
     sh_scan True (Some u) (concat (map escape_char a) @ CHR 0x22 # rest)
       = sh_scan False (Some (u @ a)) rest"
  by (induction a arbitrary: u) (auto simp: escape_char_def word_of_def)

lemma plain_char:
  assumes "c \<notin> set quote_chars" and "escape_char c = [c]"
  shows "c \<noteq> CHR 0x22 \<and> c \<noteq> CHR 0x5C \<and> c \<noteq> CHR '' '' \<and> c \<noteq> CHR 0x09 \<and> c \<notin> set sh_special"
  using assms by (auto simp: quote_chars_def sh_special_def escape_char_def split: if_splits)

lemma sh_scan_unquoted:
  "\<forall>c\<in>set a. c \<notin> set quote_chars \<Longrightarrow> a \<noteq> [] \<or> w \<noteq> None \<Longrightarrow>
     sh_scan False w (concat (map escape_char a) @ rest) = sh_scan False (Some (word_of w @ a)) rest"
proof (induction a arbitrary: w)
  case Nil
  then show ?case by (auto simp: word_of_def)
next
  case (Cons c a)
  have nl: "c \<noteq> CHR 0x0A" using Cons.prems(1) by (auto simp: quote_chars_def)
  have step: "sh_scan False w (escape_char c @ r) = sh_scan False (Some (word_of w @ [c])) r" for r
  proof (cases "escape_char c = [c]")
    case True
    then show ?thesis using plain_char [of c] Cons.prems(1) by simp
  next
    case False
    then show ?thesis using nl by (auto simp: escape_char_def)
  qed
  have "sh_scan False w (concat (map escape_char (c # a)) @ rest)
      = sh_scan False (Some (word_of w @ [c])) (concat (map escape_char a) @ rest)"
    by (simp add: step)
  also have "\<dots> = sh_scan False (Some ((word_of w @ [c]) @ a)) rest"
    using Cons.IH [of "Some (word_of w @ [c])"] Cons.prems(1) by (simp add: word_of_def)
  finally show ?case by simp
qed

lemma sh_scan_argument:
  assumes "CHR ''$'' \<notin> set a"
  shows "sh_scan False None (EncodePOSIXShellArgument a @ rest) = sh_scan False (Some a) rest"
proof (cases "needs_quote a")
  case True
  then show ?thesis
    using sh_scan_quoted [OF assms, of "[]" rest]
    by (simp add: EncodePOSIXShellArgument_def word_of_def)
next
  case False
  then have "a \<noteq> []" "\<forall>c\<in>set a. c \<notin> set quote_chars"
    by (auto simp: needs_quote_def list_ex_iff)
  then show ?thesis
    using False sh_scan_unquoted [of a None rest]
    by (simp add: EncodePOSIXShellArgument_def word_of_def)
qed

lemma sh_words_EncodePOSIXShellList:
  "\<forall>a\<in>set args. CHR ''$'' \<notin> set a \<Longrightarrow> sh_words (EncodePOSIXShellList args) = Some args"
proof (induction args rule: induct_list012)
  case (2 a)
  then show ?case
    using sh_scan_argument [of a "[]"] by (simp add: sh_words_def EncodePOSIXShellList_def)
next
  case (3 a b args)
  then have "sh_words (EncodePOSIXShellList (b # args)) = Some (b # args)" by simp
  then show ?case
    using "3.prems" sh_scan_argument [of a "CHR '' '' # EncodePOSIXShellList (b # args)"]
    by (simp add: sh_words_def EncodePOSIXShellList_def)
qed (simp add: sh_words_def EncodePOSIXShellList_def)

section \<open>Memoization and duplicate removal\<close>

definition memo_ok :: "('a \<Rightarrow> 'b) \<Rightarrow> ('a \<rightharpoonup> 'b) \<Rightarrow> bool" where
  "memo_ok func cache \<longleftrightarrow> (\<forall>a r. cache a = Some r \<longrightarrow> r = func a)"

lemma memo_call_ok:
  "memo_ok func cache \<Longrightarrow> memo_call func cache a = (r, cache') \<Longrightarrow> r = func a \<and> memo_ok func cache'"
  by (auto simp: memo_call_def memo_ok_def Let_def split: option.splits if_splits)

lemma memo_calls_ok: "memo_ok func cache \<Longrightarrow> fst (memo_calls func cache as) = map func as"
proof (induction as arbitrary: cache)
  case (Cons a as)
  obtain r c where "memo_call func cache a = (r, c)" by fastforce
  with memo_call_ok [OF Cons.prems this] Cons.IH [of c] show ?case
    by (cases "memo_calls func c as") auto
qed simp

lemma uniquer_loop_spec:
  assumes "set seen = idfun ` set result" and "distinct (map idfun result)"
  shows "distinct (map idfun (uniquer_loop idfun seen result seq))
    \<and> idfun ` set (uniquer_loop idfun seen result seq) = idfun ` (set result \<union> set seq)
    \<and> (\<exists>ys. uniquer_loop idfun seen result seq = result @ ys \<and> subseq ys seq)"
  using assms
proof (induction seq arbitrary: seen result)
  case (Cons x seq)
  show ?case
  proof (cases "idfun x \<in> set seen")
    case True
    then show ?thesis using Cons.IH [OF Cons.prems] Cons.prems(1) by auto
  next
    case False
    have "distinct (map idfun (result @ [x]))" "set (idfun x # seen) = idfun ` set (result @ [x])"
      using False Cons.prems by auto
    from Cons.IH [OF this(2,1)] show ?thesis using False by (auto simp: Let_def)
  qed
qed auto

section \<open>Properties\<close>

text \<open>
  A target qualified with a toolset parses back into its build file, name and toolset,
  even when the build file contains colons (a Windows drive) or the name contains a hash.
\<close>

theorem QualifiedTarget_roundtrip:
  assumes "CHR '':'' \<notin> set target" and "CHR '':'' \<notin> set toolset" and "CHR ''#'' \<notin> set toolset"
    and "toolset \<noteq> []"
  shows "ParseQualifiedTarget (QualifiedTarget build_file target (Some toolset))
     = (Some build_file, target, Some toolset)"
  using assms by (rule ParseQualifiedTarget_Qualified)

theorem QualifiedTarget_roundtrip_witness:
  "ParseQualifiedTarget (QualifiedTarget ''c:/a/b.gyp'' ''t#1'' (Some ''host''))
     = (Some ''c:/a/b.gyp'', ''t#1'', Some ''host'')"
  by (rule QualifiedTarget_roundtrip) simp_all

text \<open>
  C24: \<open>RelativePath(path, relative_to)\<close>, appended to the real directory \<open>relative_to\<close> and
  normalised, is the real path of \<open>path\<close>, whenever \<open>realpath\<close> returns absolute normalised
  paths for both.
\<close>

theorem RelativePath_correct:
  assumes "realpath path = abs_path ps" and "\<forall>c\<in>set ps. plain_comp c"
    and "realpath relative_to = abs_path rs" and "\<forall>c\<in>set rs. plain_comp c"
  shows "normpath (path_join (realpath relative_to) (RelativePath realpath path relative_to))
     = realpath path"
  using assms by (rule RelativePath_leads_back)

theorem RelativePath_correct_witness:
  "normpath (path_join ''/w/a/b'' (RelativePath (\<lambda>p. path_join ''/w'' p) ''c/d'' ''a/b'')) = ''/w/c/d''"
proof -
  have "realp ''c/d'' = abs_path [''w'', ''c'', ''d''] \<and> realp ''a/b'' = abs_path [''w'', ''a'', ''b'']"
    if "realp = (\<lambda>p. path_join ''/w'' p)" for realp
    by (simp add: that path_join_def abs_path_def starts_with_def ends_with_def)
  then show ?thesis
    using RelativePath_correct [of "\<lambda>p. path_join ''/w'' p" "''c/d''" "[''w'', ''c'', ''d'']" "''a/b''"
        "[''w'', ''a'', ''b'']"]
    by (simp add: plain_comp_def abs_path_def)
qed

text \<open>
  C25: a POSIX shell splits the encoded argument list back into exactly the arguments, with
  no special character left unquoted, for arguments without a dollar sign (parameter
  expansion is deliberately let through).
\<close>

theorem EncodePOSIXShellList_roundtrip:
  assumes "\<forall>a\<in>set args. CHR ''$'' \<notin> set a"
  shows "sh_words (EncodePOSIXShellList args) = Some args"
  using assms by (rule sh_words_EncodePOSIXShellList)

theorem EncodePOSIXShellList_roundtrip_witness:
  "sh_words (EncodePOSIXShellList [''a b'', [], ''-lfoo'', [CHR 0x22, CHR 0x60, CHR 0x5C]])
     = Some [''a b'', [], ''-lfoo'', [CHR 0x22, CHR 0x60, CHR 0x5C]]"
  by (rule EncodePOSIXShellList_roundtrip) simp

end
