(* ===== verification/LinkedRing.thy ===== *)
theory LinkedRing
  imports Prelude
begin

text \<open>
  The circular doubly linked list with a sentinel on which \<open>OrderedSet\<close> of
  \<open>gyp/common.py\<close> and \<open>OrderedDict\<close> of \<open>gyp/ordered_dict.py\<close> are both built: cells
  \<open>[key, prev, next]\<close> in an explicit heap, address 0 being the sentinel. Linking a cell in
  front of the sentinel, unlinking one, and walking in either direction.
\<close>

section \<open>Cells and pointer updates\<close>

record 'k cell =
  cell_key :: "'k option"
  cell_prev :: nat
  cell_next :: nat

type_synonym 'k heap = "nat \<Rightarrow> 'k cell"

definition set_next :: "nat \<Rightarrow> nat \<Rightarrow> 'k heap \<Rightarrow> 'k heap" where
  "set_next a b h = h(a := (h a)\<lparr>cell_next := b\<rparr>)"

definition set_prev :: "nat \<Rightarrow> nat \<Rightarrow> 'k heap \<Rightarrow> 'k heap" where
  "set_prev a b h = h(a := (h a)\<lparr>cell_prev := b\<rparr>)"

definition sentinel_only :: "'k heap" where
  "sentinel_only = (\<lambda>_. \<lparr>cell_key = None, cell_prev = 0, cell_next = 0\<rparr>)"

text \<open>A new cell at \<open>n\<close> between the last cell and the sentinel.\<close>

definition link_last :: "nat \<Rightarrow> 'k \<Rightarrow> 'k heap \<Rightarrow> 'k heap" where
  "link_last n k h =
     (let cur = cell_prev (h 0);
          h1 = h(n := \<lparr>cell_key = Some k, cell_prev = cur, cell_next = 0\<rparr>);
          h2 = set_next cur n h1
      in set_prev 0 n h2)"

definition unlink :: "nat \<Rightarrow> 'k heap \<Rightarrow> 'k heap" where
  "unlink a h =
     (let prev_item = cell_prev (h a); next_item = cell_next (h a)
      in set_prev next_item prev_item (set_next prev_item next_item h))"

partial_function (option) walk_next :: "'k heap \<Rightarrow> nat \<Rightarrow> 'k option list option" where
  "walk_next h cur =
     (if cur = 0 then Some []
      else Option.bind (walk_next h (cell_next (h cur)))
             (\<lambda>ks. Some (cell_key (h cur) # ks)))"

declare walk_next.simps [code]

partial_function (option) walk_prev :: "'k heap \<Rightarrow> nat \<Rightarrow> 'k option list option" where
  "walk_prev h cur =
     (if cur = 0 then Some []
      else Option.bind (walk_prev h (cell_prev (h cur)))
             (\<lambda>ks. Some (cell_key (h cur) # ks)))"

declare walk_prev.simps [code]

section \<open>Well-formed rings\<close>

fun chain :: "'k heap \<Rightarrow> nat \<Rightarrow> nat list \<Rightarrow> nat \<Rightarrow> bool" where
  "chain h u [] v \<longleftrightarrow> cell_next (h u) = v \<and> cell_prev (h v) = u"
| "chain h u (a # as) v \<longleftrightarrow> cell_next (h u) = a \<and> cell_prev (h a) = u \<and> chain h a as v"

definition ring :: "'k heap \<Rightarrow> nat list \<Rightarrow> bool" where
  "ring h as \<longleftrightarrow> chain h 0 as 0 \<and> distinct (0 # as)"

lemma cell_set_next [simp]:
  "cell_next (set_next a b h x) = (if x = a then b else cell_next (h x))"
  "cell_prev (set_next a b h x) = cell_prev (h x)"
  "cell_key (set_next a b h x) = cell_key (h x)"
  by (simp_all add: set_next_def)

lemma cell_set_prev [simp]:
  "cell_prev (set_prev a b h x) = (if x = a then b else cell_prev (h x))"
  "cell_next (set_prev a b h x) = cell_next (h x)"
  "cell_key (set_prev a b h x) = cell_key (h x)"
  by (simp_all add: set_prev_def)

lemma chain_append: "chain h u (as @ b # bs) v \<longleftrightarrow> chain h u as b \<and> chain h b bs v"
  by (induction as arbitrary: u) auto

lemma chain_cong:
  assumes "\<And>x. x = u \<or> x \<in> set as \<Longrightarrow> cell_next (h x) = cell_next (h' x)"
    and "\<And>x. x = v \<or> x \<in> set as \<Longrightarrow> cell_prev (h x) = cell_prev (h' x)"
  shows "chain h u as v \<longleftrightarrow> chain h' u as v"
  using assms by (induction as arbitrary: u) auto

lemma chain_last: "chain h u as v \<Longrightarrow> cell_prev (h v) = last (u # as)"
  by (induction as arbitrary: u) auto

lemma ring_empty [simp]: "ring sentinel_only []"
  by (simp add: ring_def sentinel_only_def)

lemma cell_key_link_last:
  "cell_key (link_last n k h x) = (if x = n then Some k else cell_key (h x))"
  by (simp add: link_last_def Let_def)

lemma cell_key_unlink [simp]: "cell_key (unlink a h x) = cell_key (h x)"
  by (simp add: unlink_def Let_def)

lemma ring_link_last:
  assumes "ring h as" and "n \<noteq> 0" and "n \<notin> set as"
  shows "ring (link_last n k h) (as @ [n])"
proof -
  let ?h = "link_last n k h"
  from assms have ch: "chain h 0 as 0" and d: "distinct (0 # as)" by (auto simp: ring_def)
  have cur: "cell_prev (h 0) = last (0 # as)" by (rule chain_last [OF ch])
  have tail: "cell_next (?h n) = 0 \<and> cell_prev (?h 0) = n"
    using assms(2,3) cur by (cases as rule: rev_cases) (auto simp: link_last_def Let_def)
  have front: "chain ?h 0 as n"
  proof (cases as rule: rev_cases)
    case Nil
    then show ?thesis using cur assms(2) by (simp add: link_last_def Let_def)
  next
    case (snoc bs b)
    have "chain ?h 0 bs b"
    proof (subst chain_cong)
      show "chain h 0 bs b" using ch snoc by (simp add: chain_append)
    qed (use snoc d assms(2,3) cur in \<open>auto simp: link_last_def Let_def intro!: gr0I\<close>)
    moreover have "cell_next (?h b) = n \<and> cell_prev (?h n) = b"
      using snoc cur d assms(2,3) by (auto simp: link_last_def Let_def)
    ultimately show ?thesis using snoc by (simp add: chain_append)
  qed
  show ?thesis
    using front tail d assms(2,3) by (simp add: ring_def chain_append)
qed

lemma ring_unlink:
  assumes "ring h (as @ a # bs)"
  shows "ring (unlink a h) (as @ bs)"
proof -
  let ?h = "unlink a h"
  from assms have ca: "chain h 0 as a" and cb: "chain h a bs 0" and d: "distinct (0 # as @ a # bs)"
    by (auto simp: ring_def chain_append)
  define p where "p = last (0 # as)"
  define q where "q = hd (bs @ [0])"
  have p: "cell_prev (h a) = p" using chain_last [OF ca] by (simp add: p_def)
  have q: "cell_next (h a) = q" using cb by (cases bs) (auto simp: q_def)
  have hp: "cell_next (?h x) = (if x = p then q else cell_next (h x))"
    and hq: "cell_prev (?h x) = (if x = q then p else cell_prev (h x))" for x
    using p q by (simp_all add: unlink_def Let_def)
  have link: "cell_next (?h p) = q \<and> cell_prev (?h q) = p" using hp hq by simp
  have left: "chain ?h 0 as v \<longleftrightarrow> cell_next (?h p) = v \<and> cell_prev (?h v) = p"
    if "v \<notin> set as" for v
  proof (cases as rule: rev_cases)
    case Nil
    then show ?thesis by (simp add: p_def)
  next
    case (snoc cs c)
    have c: "p = c" using snoc by (simp add: p_def)
    have "q \<notin> set as" using d by (cases bs) (auto simp: q_def)
    then have "chain ?h 0 cs c \<longleftrightarrow> chain h 0 cs c"
      using snoc d c by (intro chain_cong) (auto simp: hp hq)
    then show ?thesis using ca snoc c by (simp add: chain_append)
  qed
  show ?thesis
  proof (cases bs)
    case Nil
    then have "q = 0" by (simp add: q_def)
    then show ?thesis using Nil left [of 0] link d by (simp add: ring_def)
  next
    case (Cons b cs)
    have q': "q = b" using Cons by (simp add: q_def)
    have "p \<notin> set bs" using d by (cases as rule: rev_cases) (auto simp: p_def)
    then have "chain ?h b cs 0 \<longleftrightarrow> chain h b cs 0"
      using Cons d q' by (intro chain_cong) (auto simp: hp hq)
    then have "chain ?h b cs 0" using cb Cons by simp
    moreover have "chain ?h 0 as b" using left [of b] link q' d Cons by simp
    ultimately show ?thesis using Cons d by (simp add: ring_def chain_append)
  qed
qed

lemma walk_next_chain:
  "chain h u as 0 \<Longrightarrow> 0 \<notin> set as \<Longrightarrow>
     walk_next h (cell_next (h u)) = Some (map (\<lambda>a. cell_key (h a)) as)"
  by (induction as arbitrary: u) (simp_all add: walk_next.simps)

lemma walk_prev_chain:
  "chain h 0 as v \<Longrightarrow> 0 \<notin> set as \<Longrightarrow>
     walk_prev h (cell_prev (h v)) = Some (map (\<lambda>a. cell_key (h a)) (rev as))"
proof (induction as arbitrary: v rule: rev_induct)
  case (snoc a as)
  then show ?case by (simp add: chain_append walk_prev.simps)
qed (simp add: walk_prev.simps)

end
