(* ===== verification/OrderedSets.thy ===== *)
theory OrderedSets
  imports LinkedRing "HOL-Library.AList"
begin

text \<open>
  \<open>OrderedSet\<close> of \<open>gyp/common.py\<close>: a set that remembers insertion order, kept as a linked
  ring plus the dictionary from keys to cells. The interface its clients in \<open>gyp/input.py\<close>
  rely on is the locale \<open>ordered_set\<close>; the ring implementation is its interpretation.
\<close>

section \<open>The interface\<close>

definition add_if_new :: "'k list \<Rightarrow> 'k \<Rightarrow> 'k list" where
  "add_if_new xs k = (if k \<in> set xs then xs else xs @ [k])"

lemma add_if_new_cases [simp]:
  "k \<in> set xs \<Longrightarrow> add_if_new xs k = xs"
  "k \<notin> set xs \<Longrightarrow> add_if_new xs k = xs @ [k]"
  by (simp_all add: add_if_new_def)

lemma set_add_if_new [simp]: "set (add_if_new xs k) = insert k (set xs)"
  by (auto simp: add_if_new_def)

lemma distinct_add_if_new [simp]: "distinct (add_if_new xs k) = distinct xs"
  by (auto simp: add_if_new_def)

lemma foldl_add_if_new_set: "set (foldl add_if_new xs ys) = set xs \<union> set ys"
  by (induction ys arbitrary: xs) auto

lemma foldl_add_if_new_distinct: "distinct (foldl add_if_new xs ys) = distinct xs"
  by (induction ys arbitrary: xs) auto

lemma foldl_add_if_new_prefix: "\<exists>zs. foldl add_if_new xs ys = xs @ zs"
proof (induction ys arbitrary: xs)
  case (Cons y ys)
  then obtain zs where "foldl add_if_new (add_if_new xs y) ys = add_if_new xs y @ zs" by blast
  then show ?case by (cases "y \<in> set xs") auto
qed simp

locale ordered_set =
  fixes empty :: 's
    and add :: "'k \<Rightarrow> 's \<Rightarrow> 's"
    and discard :: "'k \<Rightarrow> 's \<Rightarrow> 's"
    and contains :: "'s \<Rightarrow> 'k \<Rightarrow> bool"
    and iter :: "'s \<Rightarrow> 'k list option"
    and invar :: "'s \<Rightarrow> bool"
  assumes invar_empty: "invar empty"
    and invar_add: "invar s \<Longrightarrow> invar (add k s)"
    and invar_discard: "invar s \<Longrightarrow> invar (discard k s)"
    and iter_empty: "iter empty = Some []"
    and iter_total: "invar s \<Longrightarrow> \<exists>xs. iter s = Some xs \<and> distinct xs"
    and iter_add: "invar s \<Longrightarrow> iter s = Some xs \<Longrightarrow> iter (add k s) = Some (add_if_new xs k)"
    and iter_discard: "invar s \<Longrightarrow> iter s = Some xs \<Longrightarrow> iter (discard k s) = Some (remove1 k xs)"
    and contains_iff: "invar s \<Longrightarrow> iter s = Some xs \<Longrightarrow> contains s k \<longleftrightarrow> k \<in> set xs"
begin

definition elems :: "'s \<Rightarrow> 'k list" where
  "elems s = the (iter s)"

lemma iter_elems: "invar s \<Longrightarrow> iter s = Some (elems s)"
  using iter_total by (fastforce simp: elems_def)

lemma distinct_elems: "invar s \<Longrightarrow> distinct (elems s)"
  using iter_total by (fastforce simp: elems_def)

lemma elems_add: "invar s \<Longrightarrow> elems (add k s) = add_if_new (elems s) k"
  using iter_add [OF _ iter_elems] by (simp add: elems_def)

lemma elems_discard: "invar s \<Longrightarrow> elems (discard k s) = remove1 k (elems s)"
  using iter_discard [OF _ iter_elems] by (simp add: elems_def)

lemma contains_elems: "invar s \<Longrightarrow> contains s k \<longleftrightarrow> k \<in> set (elems s)"
  by (rule contains_iff [OF _ iter_elems])

text \<open>Adding the items of a sequence one by one, as \<open>update\<close> and the constructor do.\<close>

lemma add_all_invar: "invar s \<Longrightarrow> invar (foldl (\<lambda>s k. add k s) s ks)"
  by (induction ks arbitrary: s) (auto intro: invar_add)

lemma add_all_elems: "invar s \<Longrightarrow> elems (foldl (\<lambda>s k. add k s) s ks) = foldl add_if_new (elems s) ks"
  by (induction ks arbitrary: s) (auto simp: elems_add invar_add)

lemma add_twice: "invar s \<Longrightarrow> iter (add k (add k s)) = iter (add k s)"
proof -
  assume s: "invar s"
  have "iter (add k (add k s)) = Some (add_if_new (add_if_new (elems s) k) k)"
    using iter_add [OF invar_add [OF s] iter_add [OF s iter_elems [OF s]]] .
  then show ?thesis using iter_add [OF s iter_elems [OF s]] by (simp add: add_if_new_def)
qed

lemma discard_add: "invar s \<Longrightarrow> \<not> contains s k \<Longrightarrow> iter (discard k (add k s)) = iter s"
proof -
  assume s: "invar s" and k: "\<not> contains s k"
  have "iter (discard k (add k s)) = Some (remove1 k (add_if_new (elems s) k))"
    using iter_discard [OF invar_add [OF s] iter_add [OF s iter_elems [OF s]]] .
  moreover have "k \<notin> set (elems s)" using s k contains_elems by blast
  ultimately show ?thesis
    using iter_elems [OF s] by (simp add: add_if_new_def remove1_append)
qed

end

section \<open>The implementation\<close>

record 'k oset =
  os_heap :: "'k heap"
  os_fresh :: nat
  os_map :: "('k \<times> nat) list"

definition oset_empty :: "'k oset" where
  "oset_empty = \<lparr>os_heap = sentinel_only, os_fresh = 1, os_map = []\<rparr>"

definition oset_len :: "'k oset \<Rightarrow> nat" where
  "oset_len s = length (os_map s)"

definition oset_contains :: "'k oset \<Rightarrow> 'k \<Rightarrow> bool" where
  "oset_contains s key \<longleftrightarrow> map_of (os_map s) key \<noteq> None"

definition oset_add :: "'k \<Rightarrow> 'k oset \<Rightarrow> 'k oset" where
  "oset_add key s =
     (if \<not> oset_contains s key
      then s\<lparr>os_heap := link_last (os_fresh s) key (os_heap s),
             os_fresh := Suc (os_fresh s),
             os_map := AList.update key (os_fresh s) (os_map s)\<rparr>
      else s)"

definition oset_discard :: "'k \<Rightarrow> 'k oset \<Rightarrow> 'k oset" where
  "oset_discard key s =
     (case map_of (os_map s) key of
        None \<Rightarrow> s
      | Some a \<Rightarrow> s\<lparr>os_map := AList.delete key (os_map s), os_heap := unlink a (os_heap s)\<rparr>)"

text \<open>A walk reads the keys of the cells; the sentinel has none and is never yielded.\<close>

definition oset_iter :: "'k oset \<Rightarrow> 'k list option" where
  "oset_iter s = map_option (map the) (walk_next (os_heap s) (cell_next (os_heap s 0)))"

definition oset_reversed :: "'k oset \<Rightarrow> 'k list option" where
  "oset_reversed s = map_option (map the) (walk_prev (os_heap s) (cell_prev (os_heap s 0)))"

definition oset_pop :: "bool \<Rightarrow> 'k oset \<Rightarrow> ('k \<times> 'k oset) res" where
  "oset_pop last_item s =
     (if oset_len s = 0 then Inl (KeyErr ''set is empty'')
      else let cell = (if last_item then cell_prev (os_heap s 0) else cell_next (os_heap s 0));
               key = the (cell_key (os_heap s cell))
           in Inr (key, oset_discard key s))"

definition oset_update :: "'k list \<Rightarrow> 'k oset \<Rightarrow> 'k oset" where
  "oset_update iterable s =
     foldl (\<lambda>s i. if \<not> oset_contains s i then oset_add i s else s) s iterable"

definition oset_of :: "'k list \<Rightarrow> 'k oset" where
  "oset_of iterable = foldl (\<lambda>s k. oset_add k s) oset_empty iterable"

definition oset_eq :: "'k oset \<Rightarrow> 'k oset \<Rightarrow> bool" where
  "oset_eq s t \<longleftrightarrow> oset_len s = oset_len t \<and> oset_iter s = oset_iter t"

section \<open>Representation invariant\<close>

text \<open>
  \<open>oset_rep s as xs\<close>: the cells at \<open>as\<close> form the ring, hold the keys \<open>xs\<close>, lie below
  the next free address, and the dictionary maps exactly these keys to these cells.
\<close>

definition oset_rep :: "'k oset \<Rightarrow> nat list \<Rightarrow> 'k list \<Rightarrow> bool" where
  "oset_rep s as xs \<longleftrightarrow>
     ring (os_heap s) as \<and> (\<forall>a\<in>set as. a < os_fresh s) \<and> 0 < os_fresh s
     \<and> map (\<lambda>a. cell_key (os_heap s a)) as = map Some xs
     \<and> distinct xs \<and> distinct (map fst (os_map s)) \<and> set (os_map s) = set (zip xs as)"

definition oset_invar :: "'k oset \<Rightarrow> bool" where
  "oset_invar s \<longleftrightarrow> (\<exists>as xs. oset_rep s as xs)"

lemma oset_rep_length: "oset_rep s as xs \<Longrightarrow> length as = length xs"
  unfolding oset_rep_def by (metis length_map)

lemma oset_rep_keys: "oset_rep s as xs \<Longrightarrow> fst ` set (os_map s) = set xs"
proof -
  assume r: "oset_rep s as xs"
  have "fst ` set (os_map s) = set (map fst (zip xs as))"
    using r by (simp add: oset_rep_def)
  also have "\<dots> = set xs" using oset_rep_length [OF r] by simp
  finally show ?thesis .
qed

lemma oset_rep_contains: "oset_rep s as xs \<Longrightarrow> oset_contains s k \<longleftrightarrow> k \<in> set xs"
  by (simp add: oset_contains_def map_of_eq_None_iff oset_rep_keys)

lemma oset_rep_len: "oset_rep s as xs \<Longrightarrow> oset_len s = length xs"
proof -
  assume r: "oset_rep s as xs"
  have "length (os_map s) = card (set (map fst (os_map s)))"
    using r by (metis distinct_card length_map oset_rep_def)
  also have "\<dots> = card (set xs)" using oset_rep_keys [OF r] by simp
  also have "\<dots> = length xs" using r by (simp add: distinct_card oset_rep_def)
  finally show ?thesis by (simp add: oset_len_def)
qed

lemma oset_rep_iter: "oset_rep s as xs \<Longrightarrow> oset_iter s = Some xs"
  using walk_next_chain [of "os_heap s" 0 as]
  by (simp add: oset_rep_def ring_def oset_iter_def comp_def)

lemma oset_rep_reversed: "oset_rep s as xs \<Longrightarrow> oset_reversed s = Some (rev xs)"
proof -
  assume r: "oset_rep s as xs"
  then have "map (\<lambda>a. cell_key (os_heap s a)) (rev as) = map Some (rev xs)"
    by (metis oset_rep_def rev_map)
  then show ?thesis
    using walk_prev_chain [of "os_heap s" as 0] r
    by (simp add: oset_rep_def ring_def oset_reversed_def comp_def)
qed

lemma oset_rep_empty: "oset_rep oset_empty [] []"
  by (simp add: oset_rep_def oset_empty_def)

lemma update_new_key: "k \<notin> fst ` set al \<Longrightarrow> AList.update k v al = al @ [(k, v)]"
  by (induction al) auto

lemma oset_rep_add:
  assumes r: "oset_rep s as xs" and k: "k \<notin> set xs"
  shows "oset_rep (oset_add k s) (as @ [os_fresh s]) (xs @ [k])"
proof -
  let ?n = "os_fresh s"
  have n: "?n \<notin> set as" "?n \<noteq> 0" and rg: "ring (os_heap s) as"
    using r by (auto simp: oset_rep_def)
  have c: "\<not> oset_contains s k" using oset_rep_contains [OF r] k by simp
  then have km: "k \<notin> fst ` set (os_map s)" using oset_rep_keys [OF r] k by simp
  have keys: "map (\<lambda>a. cell_key (link_last ?n k (os_heap s) a)) as = map Some xs"
    using r n(1) by (metis (mono_tags, lifting) cell_key_link_last map_cong oset_rep_def)
  have upd: "AList.update k ?n (os_map s) = os_map s @ [(k, ?n)]"
    using km by (rule update_new_key)
  show ?thesis
    using c ring_link_last [OF rg n(2,1)] keys r k km oset_rep_length [OF r]
    by (auto simp: oset_rep_def oset_add_def upd cell_key_link_last)
qed

lemma split_at_elem:
  assumes "oset_rep s as xs" and "k \<in> set xs"
  obtains ys zs bs a cs where "xs = ys @ k # zs" "as = bs @ a # cs" "length bs = length ys"
    "map_of (os_map s) k = Some a"
proof -
  from assms(2) obtain ys zs where xs: "xs = ys @ k # zs" by (meson split_list)
  define a where "a = as ! length ys"
  have l: "length as = length xs" by (rule oset_rep_length [OF assms(1)])
  then have as: "as = take (length ys) as @ a # drop (Suc (length ys)) as"
    using xs by (simp add: a_def id_take_nth_drop)
  have "(k, a) \<in> set (zip xs as)"
    using l xs by (auto simp: in_set_zip a_def intro!: exI [of _ "length ys"])
  then have "map_of (os_map s) k = Some a"
    using assms(1) by (auto simp: oset_rep_def)
  then show ?thesis using that xs as l by simp
qed

lemma oset_rep_discard:
  assumes r: "oset_rep s as xs" and k: "k \<in> set xs"
  shows "\<exists>as'. oset_rep (oset_discard k s) as' (remove1 k xs)"
proof -
  obtain ys zs bs a cs where sp: "xs = ys @ k # zs" "as = bs @ a # cs" "length bs = length ys"
    and m: "map_of (os_map s) k = Some a" by (rule split_at_elem [OF r k])
  have d: "distinct xs" "k \<notin> set ys" "k \<notin> set zs" using r sp by (auto simp: oset_rep_def)
  have lz: "length cs = length zs" using oset_rep_length [OF r] sp by simp
  have keys: "map (\<lambda>a. cell_key (os_heap s a)) (bs @ cs) = map Some (ys @ zs)"
    using r sp by (auto simp: oset_rep_def)
  have del: "set (AList.delete k (os_map s)) = set (zip (ys @ zs) (bs @ cs))"
  proof -
    have "set (AList.delete k (os_map s)) = {p \<in> set (os_map s). fst p \<noteq> k}"
      by (auto simp: AList.delete_eq)
    also have "\<dots> = {p \<in> set (zip xs as). fst p \<noteq> k}" using r by (simp add: oset_rep_def)
    also have "\<dots> = set (zip (ys @ zs) (bs @ cs))"
      using sp d lz by (auto dest: set_zip_leftD)
    finally show ?thesis .
  qed
  have eq: "oset_discard k s = s\<lparr>os_map := AList.delete k (os_map s), os_heap := unlink a (os_heap s)\<rparr>"
    using m by (simp add: oset_discard_def)
  have rg: "ring (unlink a (os_heap s)) (bs @ cs)"
    using ring_unlink [of "os_heap s" bs a cs] r sp(2) by (simp add: oset_rep_def)
  have fresh: "\<forall>x\<in>set (bs @ cs). x < os_fresh s" "0 < os_fresh s" "distinct (map fst (os_map s))"
    using r sp(2) by (auto simp: oset_rep_def)
  have "distinct (ys @ zs)" using d(1) sp(1) by simp
  then have "oset_rep (oset_discard k s) (bs @ cs) (ys @ zs)"
    unfolding oset_rep_def eq using rg fresh keys del by (simp add: distinct_delete)
  then show ?thesis using sp d by (auto simp: remove1_append)
qed

section \<open>The implementation meets the interface\<close>

lemma oset_add_iter:
  assumes "oset_invar s" and "oset_iter s = Some xs"
  shows "oset_invar (oset_add k s) \<and> oset_iter (oset_add k s) = Some (add_if_new xs k)"
proof -
  obtain as where r: "oset_rep s as xs"
    using assms oset_rep_iter by (fastforce simp: oset_invar_def)
  show ?thesis
  proof (cases "k \<in> set xs")
    case True
    then have "oset_add k s = s" using oset_rep_contains [OF r] by (simp add: oset_add_def)
    then show ?thesis using True assms by (simp add: add_if_new_def)
  next
    case False
    from oset_rep_add [OF r this] show ?thesis
      using oset_rep_iter False by (auto simp: add_if_new_def oset_invar_def)
  qed
qed

lemma oset_discard_iter:
  assumes "oset_invar s" and "oset_iter s = Some xs"
  shows "oset_invar (oset_discard k s) \<and> oset_iter (oset_discard k s) = Some (remove1 k xs)"
proof -
  obtain as where r: "oset_rep s as xs"
    using assms oset_rep_iter by (fastforce simp: oset_invar_def)
  show ?thesis
  proof (cases "k \<in> set xs")
    case True
    from oset_rep_discard [OF r this] show ?thesis using oset_rep_iter by (auto simp: oset_invar_def)
  next
    case False
    then have "\<not> oset_contains s k" using oset_rep_contains [OF r] by simp
    then have "map_of (os_map s) k = None" by (simp add: oset_contains_def)
    then show ?thesis using assms False by (simp add: oset_discard_def remove1_idem)
  qed
qed

lemma oset_invar_iter: "oset_invar s \<Longrightarrow> \<exists>xs. oset_iter s = Some xs \<and> distinct xs"
  using oset_rep_iter by (fastforce simp: oset_invar_def oset_rep_def)

interpretation os: ordered_set oset_empty oset_add oset_discard oset_contains oset_iter oset_invar
proof
  fix s :: "'a oset" and k :: 'a and xs :: "'a list"
  show "oset_invar (oset_empty :: 'a oset)" "oset_iter (oset_empty :: 'a oset) = Some []"
    using oset_rep_empty oset_rep_iter by (auto simp: oset_invar_def)
  assume s: "oset_invar s"
  then show "\<exists>xs. oset_iter s = Some xs \<and> distinct xs" by (rule oset_invar_iter)
  then obtain ys where ys: "oset_iter s = Some ys" by blast
  show "oset_invar (oset_add k s)" by (rule oset_add_iter [OF s ys, THEN conjunct1])
  show "oset_invar (oset_discard k s)" by (rule oset_discard_iter [OF s ys, THEN conjunct1])
  assume xs: "oset_iter s = Some xs"
  show "oset_iter (oset_add k s) = Some (add_if_new xs k)"
    "oset_iter (oset_discard k s) = Some (remove1 k xs)"
    by (rule oset_add_iter [OF s xs, THEN conjunct2], rule oset_discard_iter [OF s xs, THEN conjunct2])
  obtain as zs where r: "oset_rep s as zs" using s by (auto simp: oset_invar_def)
  have "zs = xs" using oset_rep_iter [OF r] xs by simp
  then show "oset_contains s k \<longleftrightarrow> k \<in> set xs" using oset_rep_contains [OF r] by simp
qed

lemma oset_update_add_all: "oset_update ks s = foldl (\<lambda>s k. oset_add k s) s ks"
proof -
  have "(\<lambda>s i. if \<not> oset_contains s i then oset_add i s else s) = (\<lambda>s k. oset_add k s)"
    by (intro ext) (simp add: oset_add_def)
  then show ?thesis unfolding oset_update_def by (rule arg_cong)
qed

lemma oset_pop_spec:
  assumes "oset_invar s" and "oset_iter s = Some xs" and "xs \<noteq> []"
  shows "\<exists>s'. oset_pop last_item s = Inr (if last_item then last xs else hd xs, s')
    \<and> oset_invar s' \<and> oset_iter s' = Some (if last_item then butlast xs else tl xs)"
proof -
  obtain as where r: "oset_rep s as xs"
    using assms oset_rep_iter by (fastforce simp: oset_invar_def)
  have ne: "as \<noteq> []" using oset_rep_length [OF r] assms(3) by auto
  have ch: "chain (os_heap s) 0 as 0" using r by (simp add: oset_rep_def ring_def)
  have keys: "map (\<lambda>a. cell_key (os_heap s a)) as = map Some xs" using r by (simp add: oset_rep_def)
  have d: "distinct xs" using r by (simp add: oset_rep_def)
  let ?k = "if last_item then last xs else hd xs"
  have "the (cell_key (os_heap s (if last_item then cell_prev (os_heap s 0) else cell_next (os_heap s 0)))) = ?k"
  proof (cases last_item)
    case True
    have "cell_prev (os_heap s 0) = last as" using chain_last [OF ch] ne by simp
    moreover have "cell_key (os_heap s (last as)) = Some (last xs)"
      using keys ne assms(3) by (metis last_map)
    ultimately show ?thesis using True by simp
  next
    case False
    have "cell_next (os_heap s 0) = hd as" using ch ne by (cases as) auto
    moreover have "cell_key (os_heap s (hd as)) = Some (hd xs)"
      using keys ne assms(3) by (metis list.map_sel(1))
    ultimately show ?thesis using False by simp
  qed
  moreover have "oset_len s \<noteq> 0" using oset_rep_len [OF r] assms(3) by simp
  ultimately have "oset_pop last_item s = Inr (?k, oset_discard ?k s)"
    by (simp add: oset_pop_def Let_def)
  moreover have "remove1 (last xs) xs = butlast xs"
    using d assms(3) by (metis append_butlast_last_id distinct_butlast not_distinct_conv_prefix
        remove1.simps remove1_append append_Nil2)
  moreover have "remove1 (hd xs) xs = tl xs" using assms(3) by (cases xs) auto
  ultimately show ?thesis using oset_discard_iter [OF assms(1,2), of ?k] by auto
qed

section \<open>Every run of the implementation refines the list of its elements\<close>

datatype 'k set_op = Add 'k | Discard 'k | Update "'k list" | Pop bool

fun oset_step :: "'k oset \<Rightarrow> 'k set_op \<Rightarrow> 'k oset res" where
  "oset_step s (Add k) = Inr (oset_add k s)"
| "oset_step s (Discard k) = Inr (oset_discard k s)"
| "oset_step s (Update ks) = Inr (oset_update ks s)"
| "oset_step s (Pop l) = ebind (oset_pop l s) (\<lambda>(_, s'). Inr s')"

text \<open>The abstract run: a list without duplicates, in order of first insertion.\<close>

fun list_step :: "'k list \<Rightarrow> 'k set_op \<Rightarrow> 'k list res" where
  "list_step xs (Add k) = Inr (add_if_new xs k)"
| "list_step xs (Discard k) = Inr (remove1 k xs)"
| "list_step xs (Update ks) = Inr (foldl add_if_new xs ks)"
| "list_step xs (Pop l) =
     (if xs = [] then Inl (KeyErr ''set is empty'') else Inr (if l then butlast xs else tl xs))"

definition refines_list :: "'k oset res \<Rightarrow> 'k list res \<Rightarrow> bool" where
  "refines_list r a =
     (case (r, a) of
        (Inl e, Inl e') \<Rightarrow> e = e'
      | (Inr s, Inr xs) \<Rightarrow> oset_invar s \<and> oset_iter s = Some xs
      | _ \<Rightarrow> False)"

lemma oset_step_refines:
  assumes s: "oset_invar s" "oset_iter s = Some xs"
  shows "refines_list (oset_step s op) (list_step xs op)"
proof (cases op)
  case (Update ks)
  have "os.elems s = xs" using s by (simp add: os.elems_def)
  then have "oset_iter (oset_update ks s) = Some (foldl add_if_new xs ks)"
    using os.iter_elems [OF os.add_all_invar [OF s(1), of ks]] os.add_all_elems [OF s(1), of ks]
    by (simp add: oset_update_add_all)
  then show ?thesis
    using Update os.add_all_invar [OF s(1), of ks] by (simp add: refines_list_def oset_update_add_all)
next
  case (Pop l)
  show ?thesis
  proof (cases "xs = []")
    case True
    obtain as ys where r: "oset_rep s as ys" using s(1) by (auto simp: oset_invar_def)
    then have "oset_len s = 0" using True s(2) oset_rep_iter [OF r] oset_rep_len [OF r] by simp
    then show ?thesis using True Pop by (simp add: refines_list_def oset_pop_def)
  next
    case False
    then show ?thesis
      using oset_pop_spec [OF s False, of l] Pop by (auto simp: refines_list_def)
  qed
qed (use s os.iter_add os.iter_discard os.invar_add os.invar_discard in
      \<open>auto simp: refines_list_def\<close>)

lemma oset_run_refines:
  "oset_invar s \<Longrightarrow> oset_iter s = Some xs \<Longrightarrow> refines_list (efold oset_step s ops) (efold list_step xs ops)"
proof (induction ops arbitrary: s xs)
  case (Cons op ops)
  have "refines_list (oset_step s op) (list_step xs op)"
    by (rule oset_step_refines [OF Cons.prems])
  then consider e where "oset_step s op = Inl e" "list_step xs op = Inl e"
    | s' xs' where "oset_step s op = Inr s'" "list_step xs op = Inr xs'"
        "oset_invar s'" "oset_iter s' = Some xs'"
    by (auto simp: refines_list_def split: sum.splits)
  then show ?case
  proof cases
    case 2
    then show ?thesis using Cons.IH [OF 2(3,4)] by simp
  qed (simp add: refines_list_def)
qed (simp add: refines_list_def)


end
