(* ===== verification/Traversal.thy ===== *)
theory Traversal
  imports Prelude
begin

text \<open>
  Depth-first traversal with an accumulating list of visited items, the shape shared by
  \<open>DeepDependencies\<close>, \<open>_LinkDependenciesInternal\<close> and \<open>GetIncludedBuildFiles\<close> of
  \<open>gyp/input.py\<close>: an item already in the list is skipped, a new one is appended before its
  successors are visited. Termination on a finite universe, the items found, and the errors
  met are proved here once.
\<close>

partial_function (option) dfs ::
  "('a \<Rightarrow> 'e + 'a list) \<Rightarrow> 'a list \<Rightarrow> 'a list \<Rightarrow> ('e + 'a list) option" where
  "dfs succ xs acc =
     (case xs of
        [] \<Rightarrow> Some (Inr acc)
      | x # xs' \<Rightarrow>
          if x \<in> set acc then dfs succ xs' acc
          else case succ x of
                 Inl e \<Rightarrow> Some (Inl e)
               | Inr ys \<Rightarrow>
                   Option.bind (dfs succ ys (acc @ [x])) (\<lambda>r.
                     case r of Inl e \<Rightarrow> Some (Inl e) | Inr acc' \<Rightarrow> dfs succ xs' acc'))"

declare dfs.simps [code]

lemma dfs_simps [simp]:
  "dfs succ [] acc = Some (Inr acc)"
  "dfs succ (x # xs) acc =
     (if x \<in> set acc then dfs succ xs acc
      else case succ x of
             Inl e \<Rightarrow> Some (Inl e)
           | Inr ys \<Rightarrow>
               Option.bind (dfs succ ys (acc @ [x])) (\<lambda>r.
                 case r of Inl e \<Rightarrow> Some (Inl e) | Inr acc' \<Rightarrow> dfs succ xs acc'))"
  by (subst dfs.simps, simp)+

definition edges :: "('a \<Rightarrow> 'e + 'a list) \<Rightarrow> ('a \<times> 'a) set" where
  "edges succ = {(x, y). \<exists>ys. succ x = Inr ys \<and> y \<in> set ys}"

definition reach :: "('a \<Rightarrow> 'e + 'a list) \<Rightarrow> 'a list \<Rightarrow> 'a set" where
  "reach succ xs = {y. \<exists>x\<in>set xs. (x, y) \<in> (edges succ)\<^sup>*}"

lemma reach_Nil [simp]: "reach succ [] = {}"
  by (simp add: reach_def)

lemma reach_Cons: "reach succ (x # xs) = {y. (x, y) \<in> (edges succ)\<^sup>*} \<union> reach succ xs"
  by (auto simp: reach_def)

lemma reach_succ: "succ x = Inr ys \<Longrightarrow> reach succ ys \<subseteq> {y. (x, y) \<in> (edges succ)\<^sup>*}"
  by (auto simp: reach_def edges_def intro: converse_rtrancl_into_rtrancl)

lemma reach_start: "set xs \<subseteq> reach succ xs"
  by (auto simp: reach_def)

text \<open>What a finished traversal has done.\<close>

definition dfs_post :: "('a \<Rightarrow> 'e + 'a list) \<Rightarrow> 'a list \<Rightarrow> 'a list \<Rightarrow> ('e + 'a list) \<Rightarrow> bool" where
  "dfs_post succ xs acc r \<longleftrightarrow> (\<forall>acc'. r = Inr acc' \<longrightarrow>
     (\<exists>zs. acc' = acc @ zs \<and> set xs \<subseteq> set acc' \<and> (distinct acc \<longrightarrow> distinct acc')
        \<and> set zs \<subseteq> reach succ xs
        \<and> (\<forall>z\<in>set zs. \<exists>ys. succ z = Inr ys \<and> set ys \<subseteq> set acc')))"

lemma dfs_post_holds:
  fixes succ :: "'a \<Rightarrow> 'e + 'a list"
  assumes "dfs succ xs acc = Some r"
  shows "dfs_post succ xs acc r"
proof (rule dfs.raw_induct [where P = dfs_post, OF _ assms])
  fix rec :: "('a \<Rightarrow> 'e + 'a list) \<Rightarrow> 'a list \<Rightarrow> 'a list \<Rightarrow> ('e + 'a list) option"
  fix succ :: "'a \<Rightarrow> 'e + 'a list" and xs acc r
  assume IH: "\<And>succ xs acc r. rec succ xs acc = Some r \<Longrightarrow> dfs_post succ xs acc r"
    and body: "(case xs of [] \<Rightarrow> Some (Inr acc)
      | x # xs' \<Rightarrow> if x \<in> set acc then rec succ xs' acc
          else case succ x of Inl e \<Rightarrow> Some (Inl e)
               | Inr ys \<Rightarrow> Option.bind (rec succ ys (acc @ [x]))
                   (\<lambda>r. case r of Inl e \<Rightarrow> Some (Inl e) | Inr acc' \<Rightarrow> rec succ xs' acc')) = Some r"
  show "dfs_post succ xs acc r"
  proof (cases xs)
    case Nil
    then show ?thesis using body by (auto simp: dfs_post_def)
  next
    case (Cons x xs')
    consider (old) "x \<in> set acc" | (err) e where "x \<notin> set acc" "succ x = Inl e"
      | (new) ys where "x \<notin> set acc" "succ x = Inr ys"
      by (cases "succ x") auto
    then show ?thesis
    proof cases
      case old
      then have "rec succ xs' acc = Some r" using body Cons by simp
      from IH [OF this] old Cons show ?thesis by (fastforce simp: dfs_post_def reach_Cons)
    next
      case err
      then show ?thesis using body Cons by (auto simp: dfs_post_def)
    next
      case new
      then obtain q where q: "rec succ ys (acc @ [x]) = Some q"
        using body Cons by (auto split: Option.bind_splits)
      show ?thesis
      proof (cases q)
        case (Inl e)
        then show ?thesis using body Cons new q by (auto simp: dfs_post_def)
      next
        case (Inr a)
        then have r: "rec succ xs' a = Some r" using body Cons new q by simp
        obtain us where us: "a = (acc @ [x]) @ us" "set ys \<subseteq> set a" "distinct (acc @ [x]) \<longrightarrow> distinct a"
            "set us \<subseteq> reach succ ys" "\<forall>z\<in>set us. \<exists>ys. succ z = Inr ys \<and> set ys \<subseteq> set a"
          using IH [OF q] Inr unfolding dfs_post_def by blast
        show ?thesis
          unfolding dfs_post_def
        proof (intro allI impI)
          fix acc' assume "r = Inr acc'"
          then obtain vs where vs: "acc' = a @ vs" "set xs' \<subseteq> set acc'" "distinct a \<longrightarrow> distinct acc'"
              "set vs \<subseteq> reach succ xs'" "\<forall>z\<in>set vs. \<exists>ys. succ z = Inr ys \<and> set ys \<subseteq> set acc'"
            using IH [OF r] unfolding dfs_post_def by blast
          have found: "set (x # us @ vs) \<subseteq> reach succ xs"
            using us(4) vs(4) reach_succ [of succ x ys, OF new(2)] Cons by (auto simp: reach_Cons)
          have closed: "\<forall>z\<in>set (x # us @ vs). \<exists>ys. succ z = Inr ys \<and> set ys \<subseteq> set acc'"
            using us(2,5) vs(1,5) new(2) by fastforce
          have "acc' = acc @ (x # us @ vs)" "set xs \<subseteq> set acc'" "distinct acc \<longrightarrow> distinct acc'"
            using us vs Cons new(1) by auto
          then show "\<exists>zs. acc' = acc @ zs \<and> set xs \<subseteq> set acc' \<and> (distinct acc \<longrightarrow> distinct acc')
              \<and> set zs \<subseteq> reach succ xs \<and> (\<forall>z\<in>set zs. \<exists>ys. succ z = Inr ys \<and> set ys \<subseteq> set acc')"
            using found closed by blast
        qed
      qed
    qed
  qed
qed

lemmas dfs_Inr = dfs_post_holds [where r = "Inr acc'" for acc', unfolded dfs_post_def, rule_format, OF _ refl]

lemma dfs_found:
  assumes "dfs succ xs [] = Some (Inr zs)"
  shows "distinct zs" and "set zs = reach succ xs"
    and "\<And>z. z \<in> reach succ xs \<Longrightarrow> \<exists>ys. succ z = Inr ys"
proof -
  have r: "set xs \<subseteq> set zs" "distinct zs" "set zs \<subseteq> reach succ xs"
      "\<forall>z\<in>set zs. \<exists>ys. succ z = Inr ys \<and> set ys \<subseteq> set zs"
    using dfs_Inr [OF assms] by auto
  then show "distinct zs" by blast
  have "y \<in> set zs" if "(x, y) \<in> (edges succ)\<^sup>*" "x \<in> set zs" for x y
    using that r(4) by (induction rule: rtrancl_induct) (fastforce simp: edges_def)+
  then show eq: "set zs = reach succ xs" using r(1,3) by (auto simp: reach_def)
  show "\<And>z. z \<in> reach succ xs \<Longrightarrow> \<exists>ys. succ z = Inr ys" using r(4) eq by blast
qed

text \<open>An error of the traversal is an error of a reachable item.\<close>

definition dfs_err :: "('a \<Rightarrow> 'e + 'a list) \<Rightarrow> 'a list \<Rightarrow> 'a list \<Rightarrow> ('e + 'a list) \<Rightarrow> bool" where
  "dfs_err succ xs acc r \<longleftrightarrow> (\<forall>e. r = Inl e \<longrightarrow> (\<exists>z\<in>reach succ xs. succ z = Inl e))"

lemma dfs_err_holds:
  fixes succ :: "'a \<Rightarrow> 'e + 'a list"
  assumes "dfs succ xs acc = Some r"
  shows "dfs_err succ xs acc r"
proof (rule dfs.raw_induct [where P = dfs_err, OF _ assms])
  fix rec :: "('a \<Rightarrow> 'e + 'a list) \<Rightarrow> 'a list \<Rightarrow> 'a list \<Rightarrow> ('e + 'a list) option"
  fix succ :: "'a \<Rightarrow> 'e + 'a list" and xs acc r
  assume IH: "\<And>succ xs acc r. rec succ xs acc = Some r \<Longrightarrow> dfs_err succ xs acc r"
    and body: "(case xs of [] \<Rightarrow> Some (Inr acc)
      | x # xs' \<Rightarrow> if x \<in> set acc then rec succ xs' acc
          else case succ x of Inl e \<Rightarrow> Some (Inl e)
               | Inr ys \<Rightarrow> Option.bind (rec succ ys (acc @ [x]))
                   (\<lambda>r. case r of Inl e \<Rightarrow> Some (Inl e) | Inr acc' \<Rightarrow> rec succ xs' acc')) = Some r"
  show "dfs_err succ xs acc r"
  proof (cases xs)
    case Nil
    then show ?thesis using body by (auto simp: dfs_err_def)
  next
    case (Cons x xs')
    consider (old) "x \<in> set acc" | (err) e where "x \<notin> set acc" "succ x = Inl e"
      | (new) ys where "x \<notin> set acc" "succ x = Inr ys"
      by (cases "succ x") auto
    then show ?thesis
    proof cases
      case old
      then have "rec succ xs' acc = Some r" using body Cons by simp
      from IH [OF this] Cons show ?thesis by (auto simp: dfs_err_def reach_Cons)
    next
      case err
      then show ?thesis using body Cons by (auto simp: dfs_err_def reach_Cons)
    next
      case new
      then obtain q where q: "rec succ ys (acc @ [x]) = Some q"
        using body Cons by (auto split: Option.bind_splits)
      show ?thesis
      proof (cases q)
        case (Inl e)
        then show ?thesis
          using IH [OF q] body Cons new q reach_succ [of succ x ys, OF new(2)] by (auto simp: dfs_err_def reach_Cons)
      next
        case (Inr a)
        then have "rec succ xs' a = Some r" using body Cons new q by simp
        from IH [OF this] Cons show ?thesis by (auto simp: dfs_err_def reach_Cons)
      qed
    qed
  qed
qed

lemmas dfs_Inl = dfs_err_holds [where r = "Inl e" for e, unfolded dfs_err_def, rule_format, OF _ refl]

text \<open>On a finite universe the traversal ends.\<close>

lemma dfs_total:
  assumes fin: "finite U" and closed: "\<And>x ys. x \<in> U \<Longrightarrow> succ x = Inr ys \<Longrightarrow> set ys \<subseteq> U"
  shows "set xs \<subseteq> U \<Longrightarrow> \<exists>r. dfs succ xs acc = Some r"
proof (induction "(card (U - set acc), length xs)" arbitrary: acc xs
    rule: wf_induct_rule [OF wf_lex_prod [OF wf_less_than wf_less_than]])
  case less: 1
  show ?case
  proof (cases xs)
    case (Cons x xs')
    have x: "x \<in> U" "set xs' \<subseteq> U" using less(2) Cons by auto
    show ?thesis
    proof (cases "x \<in> set acc")
      case True
      then show ?thesis using less(1) [of acc xs'] x Cons by simp
    next
      case False
      have smaller: "card (U - set a) < card (U - set acc)" if "x \<in> set a" "set acc \<subseteq> set a" for a
        using that False x(1) fin by (intro psubset_card_mono) auto
      show ?thesis
      proof (cases "succ x")
        case (Inr ys)
        obtain q where q: "dfs succ ys (acc @ [x]) = Some q"
          using less(1) [of "acc @ [x]" ys] closed [OF x(1) Inr] smaller [of "acc @ [x]"] by auto
        show ?thesis
        proof (cases q)
          case (Inr a)
          have "x \<in> set a" "set acc \<subseteq> set a" using dfs_Inr [of succ ys "acc @ [x]" a] q Inr by auto
          then obtain r where "dfs succ xs' a = Some r"
            using less(1) [of a xs'] x(2) smaller [of a] by auto
          then show ?thesis using Cons False \<open>succ x = Inr ys\<close> q Inr by simp
        qed (use Cons False \<open>succ x = Inr ys\<close> q in simp)
      qed (use Cons False in simp)
    qed
  qed simp
qed

text \<open>Successor functions defined on finitely many items reach finitely many.\<close>

lemma finite_reach: "finite (edges succ) \<Longrightarrow> finite (reach succ xs)"
proof -
  assume "finite (edges succ)"
  then have "finite (set xs \<union> Range (edges succ))" by (simp add: finite_Range)
  moreover have "reach succ xs \<subseteq> set xs \<union> Range (edges succ)"
    unfolding reach_def by (auto elim: rtranclE)
  ultimately show ?thesis by (rule rev_finite_subset)
qed

lemma finite_succ_edges:
  assumes "\<And>x ys. succ x = Inr ys \<Longrightarrow> x \<in> K" and "finite K"
  shows "finite (edges succ)"
proof -
  let ?ys = "\<lambda>d. case succ d of Inl _ \<Rightarrow> [] | Inr ys \<Rightarrow> ys"
  have "edges succ \<subseteq> (\<Union>d\<in>K. {d} \<times> set (?ys d))"
    using assms(1) by (auto simp: edges_def)
  then show ?thesis
    by (rule finite_subset) (intro finite_UN_I finite_cartesian_product finite_set; simp add: assms(2))
qed

lemma reach_closed: "x \<in> reach succ xs \<Longrightarrow> succ x = Inr ys \<Longrightarrow> set ys \<subseteq> reach succ xs"
  by (auto simp: reach_def edges_def intro: rtrancl_into_rtrancl)

lemma dfs_total_finite: "finite (edges succ) \<Longrightarrow> \<exists>r. dfs succ xs acc = Some r"
  by (rule dfs_total [OF finite_reach [of succ xs]]) (auto intro: subsetD [OF reach_closed] subsetD [OF reach_start])

end
