(* ===== verification/DependencyGraph.thy ===== *)
theory DependencyGraph
  imports Common OrderedSets
begin

text \<open>
  \<open>DependencyGraphNode\<close> and \<open>BuildDependencyList\<close> of \<open>gyp/input.py\<close>: the graph built from
  the \<open>dependencies\<close> of the targets, its topological flattening, the direct, imported,
  deep and link dependencies of a node. A node is identified by its \<open>ref\<close> (the key of
  \<open>dependency_nodes\<close>), the root node by \<open>None\<close>. \<open>set.pop()\<close> takes an unspecified element:
  the choice is the parameter \<open>pick\<close>.
\<close>

section \<open>The graph\<close>

type_synonym node = "string option"

record dgraph =
  g_refs :: "string list"
  g_deps :: "node \<Rightarrow> node list"
  g_dependents :: "node \<Rightarrow> node list"

type_synonym targets = "(string \<times> pydict) list"

text \<open>A list of strings, as the sections holding dependency links are.\<close>

definition as_strs :: "pyval \<Rightarrow> string list res" where
  "as_strs v = ebind (as_list v) (emap as_str)"

definition empty_graph :: "string list \<Rightarrow> dgraph" where
  "empty_graph refs = \<lparr>g_refs = refs, g_deps = (\<lambda>_. []), g_dependents = (\<lambda>_. [])\<rparr>"

definition link_root :: "dgraph \<Rightarrow> string \<Rightarrow> dgraph" where
  "link_root g target =
     g\<lparr>g_deps := (g_deps g)(Some target := [None]),
       g_dependents := (g_dependents g)(None := g_dependents g None @ [Some target])\<rparr>"

definition link_dep :: "string \<Rightarrow> dgraph \<Rightarrow> string \<Rightarrow> dgraph res" where
  "link_dep target g dependency =
     (if dependency \<notin> set (g_refs g)
      then Inl (GypErr (''Dependency '' @ quoted dependency
             @ '' not found while trying to load target '' @ target))
      else Inr (g\<lparr>g_deps := (g_deps g)(Some target := g_deps g (Some target) @ [Some dependency]),
                  g_dependents := (g_dependents g)
                    (Some dependency := g_dependents g (Some dependency) @ [Some target])\<rparr>))"

definition link_target :: "dgraph \<Rightarrow> string \<times> pydict \<Rightarrow> dgraph res" where
  "link_target g ts =
     (case ts of (target, spec) \<Rightarrow>
        case dget spec ''dependencies'' of
          None \<Rightarrow> Inr (link_root g target)
        | Some v \<Rightarrow>
            if \<not> truth v then Inr (link_root g target)
            else ebind (as_strs v) (efold (link_dep target) g))"

definition build_graph :: "targets \<Rightarrow> dgraph res" where
  "build_graph targets = efold link_target (empty_graph (map fst targets)) targets"

section \<open>FlattenToList\<close>

definition pop_any :: "('a list \<Rightarrow> nat) \<Rightarrow> 'a list \<Rightarrow> 'a \<times> 'a list" where
  "pop_any pick zs = (let i = pick zs mod length zs in (zs ! i, take i zs @ drop (Suc i) zs))"

text \<open>The inner loops: which dependents of the node just flattened have become ready.\<close>

definition now_ready :: "dgraph \<Rightarrow> node oset \<Rightarrow> node \<Rightarrow> bool" where
  "now_ready g flat_list node_dependent =
     list_all (\<lambda>d. oset_contains flat_list d) (g_deps g node_dependent)"

definition add_ready :: "dgraph \<Rightarrow> node oset \<Rightarrow> node list \<Rightarrow> node list \<Rightarrow> node list" where
  "add_ready g flat_list zeros dependents =
     foldl (\<lambda>zs d. if now_ready g flat_list d then add_if_new zs d else zs) zeros dependents"

partial_function (option) flatten_loop ::
  "(node list \<Rightarrow> nat) \<Rightarrow> dgraph \<Rightarrow> node list \<Rightarrow> node oset \<Rightarrow> node oset option" where
  "flatten_loop pick g in_degree_zeros flat_list =
     (if in_degree_zeros = [] then Some flat_list
      else
        let (node, rest) = pop_any pick in_degree_zeros;
            flat_list' = oset_add node flat_list
        in flatten_loop pick g (add_ready g flat_list' rest (g_dependents g node)) flat_list')"

declare flatten_loop.simps [code]

definition FlattenToList :: "(node list \<Rightarrow> nat) \<Rightarrow> dgraph \<Rightarrow> node \<Rightarrow> node list option" where
  "FlattenToList pick g self =
     Option.bind (flatten_loop pick g (foldl add_if_new [] (g_dependents g self)) oset_empty) oset_iter"

text \<open>\<open>None\<close> is a flattening that does not end; \<open>Inl CircularErr\<close> the \<open>CircularException\<close>.\<close>

definition BuildDependencyList ::
  "(node list \<Rightarrow> nat) \<Rightarrow> targets \<Rightarrow> (dgraph \<times> string list) res option" where
  "BuildDependencyList pick targets =
     (case build_graph targets of
        Inl e \<Rightarrow> Some (Inl e)
      | Inr g \<Rightarrow>
          Option.bind (FlattenToList pick g None) (\<lambda>flat_list.
            if length flat_list \<noteq> length targets then Some (Inl CircularErr)
            else Some (Inr (g, map the flat_list))))"

section \<open>What the graph says about the targets\<close>

text \<open>The dependency names of a target, as the graph construction reads them.\<close>

definition dep_names :: "pydict \<Rightarrow> string list" where
  "dep_names spec =
     (case dget spec ''dependencies'' of
        None \<Rightarrow> []
      | Some v \<Rightarrow> if truth v then (case as_strs v of Inr ds \<Rightarrow> ds | Inl _ \<Rightarrow> []) else [])"

definition deps_readable :: "pydict \<Rightarrow> bool" where
  "deps_readable spec \<longleftrightarrow>
     (\<forall>v. dget spec ''dependencies'' = Some v \<longrightarrow> truth v \<longrightarrow> (\<exists>ds. as_strs v = Inr ds))"

definition target_deps :: "targets \<Rightarrow> string \<Rightarrow> string list" where
  "target_deps targets t = (case map_of targets t of None \<Rightarrow> [] | Some spec \<Rightarrow> dep_names spec)"

text \<open>\<open>(d, t)\<close>: target \<open>t\<close> depends on \<open>d\<close>.\<close>

definition depends :: "targets \<Rightarrow> (string \<times> string) set" where
  "depends targets = {(d, t). d \<in> set (target_deps targets t)}"

definition graph_of :: "targets \<Rightarrow> dgraph \<Rightarrow> bool" where
  "graph_of targets g \<longleftrightarrow>
     g_refs g = map fst targets
     \<and> (\<forall>t\<in>set (map fst targets). g_deps g (Some t)
          = (if target_deps targets t = [] then [None] else map Some (target_deps targets t)))
     \<and> (\<forall>t\<in>set (map fst targets). set (target_deps targets t) \<subseteq> set (map fst targets))
     \<and> (\<forall>d. set (g_dependents g (Some d)) = Some ` {t. (d, t) \<in> depends targets})
     \<and> set (g_dependents g None) = Some ` {t \<in> set (map fst targets). target_deps targets t = []}"

lemma target_deps_key: "d \<in> set (target_deps targets t) \<Longrightarrow> t \<in> set (map fst targets)"
  by (cases "map_of targets t") (auto simp: target_deps_def dest: map_of_SomeD intro: rev_image_eqI)

lemma as_strs_nonempty: "as_strs v = Inr ds \<Longrightarrow> truth v \<Longrightarrow> ds \<noteq> []"
  by (cases v) (auto simp: as_strs_def dest: emap_Inr_length)

lemma link_target_cases:
  assumes "link_target g (t, spec) = Inr g'"
  shows "deps_readable spec \<and> (if dep_names spec = [] then g' = link_root g t
     else efold (link_dep t) g (dep_names spec) = Inr g')"
proof (cases "dget spec ''dependencies''")
  case None
  then show ?thesis using assms by (simp add: link_target_def dep_names_def deps_readable_def)
next
  case (Some v)
  show ?thesis
  proof (cases "truth v")
    case False
    then show ?thesis
      using Some assms by (simp add: link_target_def dep_names_def deps_readable_def)
  next
    case True
    then obtain ds where ds: "as_strs v = Inr ds" "efold (link_dep t) g ds = Inr g'"
      using Some assms by (auto simp: link_target_def)
    then show ?thesis
      using Some True as_strs_nonempty [OF ds(1) True] by (simp add: dep_names_def deps_readable_def)
  qed
qed

lemma efold_link_dep:
  assumes "efold (link_dep t) g ds = Inr g'"
  shows "g_refs g' = g_refs g \<and> set ds \<subseteq> set (g_refs g)
    \<and> g_deps g' = (g_deps g)(Some t := g_deps g (Some t) @ map Some ds)
    \<and> g_dependents g' None = g_dependents g None
    \<and> (\<forall>d. set (g_dependents g' (Some d)) = set (g_dependents g (Some d)) \<union> (if d \<in> set ds then {Some t} else {}))"
  using assms
proof (induction ds arbitrary: g)
  case (Cons d ds)
  then obtain h where h: "link_dep t g d = Inr h" "efold (link_dep t) h ds = Inr g'" by auto
  then have "d \<in> set (g_refs g)" "h = g\<lparr>g_deps := (g_deps g)(Some t := g_deps g (Some t) @ [Some d]),
      g_dependents := (g_dependents g)(Some d := g_dependents g (Some d) @ [Some t])\<rparr>"
    by (auto simp: link_dep_def split: if_splits)
  then show ?case using Cons.IH [OF h(2)] by auto
qed auto

text \<open>
  The construction, target by target: after a prefix of the targets the graph holds exactly their
  edges.
\<close>

definition partial_graph :: "string list \<Rightarrow> targets \<Rightarrow> dgraph \<Rightarrow> bool" where
  "partial_graph refs ts g \<longleftrightarrow>
     g_refs g = refs
     \<and> (\<forall>(t, spec)\<in>set ts. g_deps g (Some t)
          = (if dep_names spec = [] then [None] else map Some (dep_names spec))
          \<and> set (dep_names spec) \<subseteq> set refs)
     \<and> (\<forall>t. t \<notin> fst ` set ts \<longrightarrow> g_deps g (Some t) = [])
     \<and> (\<forall>d. set (g_dependents g (Some d)) = {Some t |t spec. (t, spec) \<in> set ts \<and> d \<in> set (dep_names spec)})
     \<and> set (g_dependents g None) = {Some t |t spec. (t, spec) \<in> set ts \<and> dep_names spec = []}"

lemma partial_graph_step:
  assumes pg: "partial_graph refs ts g" and new: "t \<notin> fst ` set ts"
    and step: "link_target g (t, spec) = Inr g'"
  shows "partial_graph refs (ts @ [(t, spec)]) g'"
proof (cases "dep_names spec = []")
  case True
  then have g': "g' = link_root g t" using link_target_cases [OF step] by simp
  show ?thesis
    using pg new True unfolding partial_graph_def g' link_root_def by (fastforce simp: image_iff)
next
  case False
  then have ef: "efold (link_dep t) g (dep_names spec) = Inr g'"
    using link_target_cases [OF step] by simp
  note e = efold_link_dep [OF ef]
  have old: "g_deps g (Some t) = []" using pg new by (simp add: partial_graph_def)
  have deps: "g_deps g' = (g_deps g)(Some t := map Some (dep_names spec))" using e old by simp
  have dp: "set (g_dependents g' (Some d))
      = {Some t' |t' spec'. (t', spec') \<in> set (ts @ [(t, spec)]) \<and> d \<in> set (dep_names spec')}" for d
    using e pg by (auto simp: partial_graph_def split: if_splits)
  have rt: "set (g_dependents g' None)
      = {Some t' |t' spec'. (t', spec') \<in> set (ts @ [(t, spec)]) \<and> dep_names spec' = []}"
    using e pg False by (auto simp: partial_graph_def)
  have "\<forall>(t', spec')\<in>set (ts @ [(t, spec)]). g_deps g' (Some t')
      = (if dep_names spec' = [] then [None] else map Some (dep_names spec'))
      \<and> set (dep_names spec') \<subseteq> set refs"
    using pg new deps e False unfolding partial_graph_def by (force simp: image_iff)
  moreover have "\<forall>t'. t' \<notin> fst ` set (ts @ [(t, spec)]) \<longrightarrow> g_deps g' (Some t') = []"
    using pg deps by (auto simp: partial_graph_def)
  ultimately show ?thesis using pg e dp rt unfolding partial_graph_def by blast
qed

lemma build_graph_partial:
  assumes "efold link_target g ts' = Inr g'" and "partial_graph refs ts g"
    and "distinct (map fst (ts @ ts'))"
  shows "partial_graph refs (ts @ ts') g'"
  using assms
proof (induction ts' arbitrary: ts g)
  case (Cons p ts')
  obtain t spec where p: "p = (t, spec)" by (cases p)
  with Cons.prems obtain h where h: "link_target g (t, spec) = Inr h" "efold link_target h ts' = Inr g'"
    by auto
  have "partial_graph refs (ts @ [(t, spec)]) h"
    by (rule partial_graph_step [OF Cons.prems(2) _ h(1)]) (use Cons.prems(3) p in auto)
  then show ?case using Cons.IH [OF h(2), of "ts @ [(t, spec)]"] Cons.prems(3) p by simp
qed simp

lemma build_graph_graph_of:
  assumes "build_graph targets = Inr g" and d: "distinct (map fst targets)"
  shows "graph_of targets g"
proof -
  have "partial_graph (map fst targets) [] (empty_graph (map fst targets))"
    by (simp add: partial_graph_def empty_graph_def)
  then have pg: "partial_graph (map fst targets) targets g"
    using build_graph_partial [of "empty_graph (map fst targets)" targets g "map fst targets" "[]"] assms
    by (simp add: build_graph_def)
  have td: "target_deps targets t = dep_names spec" if "(t, spec) \<in> set targets" for t spec
    using that d by (simp add: target_deps_def)
  have ntd: "target_deps targets t = []" if "t \<notin> fst ` set targets" for t
    using that by (simp add: target_deps_def map_of_eq_None_iff [THEN iffD2])
  have ex: "(\<exists>spec. (t, spec) \<in> set targets \<and> P (dep_names spec))
      \<longleftrightarrow> t \<in> fst ` set targets \<and> P (target_deps targets t)" (is "?l \<longleftrightarrow> ?r") for t P
  proof
    assume ?l
    then obtain spec where "(t, spec) \<in> set targets" "P (dep_names spec)" by blast
    then show ?r using td [of t spec] by (metis fst_conv imageI)
  next
    assume r: ?r
    then obtain spec where "(t, spec) \<in> set targets" by auto
    then show ?l using r td [of t spec] by auto
  qed
  have edge: "{Some t |t spec. (t, spec) \<in> set targets \<and> d \<in> set (dep_names spec)}
      = Some ` {t. (d, t) \<in> depends targets}" for d
  proof -
    have "t \<in> fst ` set targets" if "d \<in> set (target_deps targets t)" for t
      using that ntd [of t] by (cases "t \<in> fst ` set targets") auto
    then have "{t. \<exists>spec. (t, spec) \<in> set targets \<and> d \<in> set (dep_names spec)}
        = {t. (d, t) \<in> depends targets}"
      unfolding ex [of _ "\<lambda>ds. d \<in> set ds"] depends_def by blast
    then show ?thesis by blast
  qed
  have rt: "{Some t |t spec. (t, spec) \<in> set targets \<and> dep_names spec = []}
      = Some ` {t \<in> set (map fst targets). target_deps targets t = []}"
  proof -
    have "{t. \<exists>spec. (t, spec) \<in> set targets \<and> dep_names spec = []}
        = {t \<in> set (map fst targets). target_deps targets t = []}"
      unfolding ex [of _ "\<lambda>ds. ds = []"] by simp
    then show ?thesis by blast
  qed
  have own: "g_deps g (Some t) = (if target_deps targets t = [] then [None] else map Some (target_deps targets t))
      \<and> set (target_deps targets t) \<subseteq> set (map fst targets)" if t: "t \<in> set (map fst targets)" for t
  proof -
    obtain spec where "(t, spec) \<in> set targets" using t by auto
    then show ?thesis using pg td [of t spec] unfolding partial_graph_def by auto
  qed
  have pgd: "g_refs g = map fst targets"
    "\<And>d. set (g_dependents g (Some d)) = Some ` {t. (d, t) \<in> depends targets}"
    "set (g_dependents g None) = Some ` {t \<in> set (map fst targets). target_deps targets t = []}"
    using pg unfolding partial_graph_def edge rt by simp_all
  show ?thesis unfolding graph_of_def by (intro conjI ballI allI pgd) (use own in simp_all)
qed

section \<open>The flattening loop\<close>

text \<open>In a topological order every element comes after what it depends on.\<close>

definition topo :: "('a \<Rightarrow> 'a set) \<Rightarrow> 'a list \<Rightarrow> bool" where
  "topo needs xs \<longleftrightarrow> (\<forall>ys x zs. xs = ys @ x # zs \<longrightarrow> needs x \<subseteq> set ys)"

lemma topo_Nil [simp]: "topo needs []"
  by (simp add: topo_def)

lemma topo_snoc: "topo needs (xs @ [x]) \<longleftrightarrow> topo needs xs \<and> needs x \<subseteq> set xs"
proof
  assume t: "topo needs (xs @ [x])"
  then have "needs x \<subseteq> set xs" by (simp add: topo_def)
  moreover have "topo needs xs" using t unfolding topo_def by (metis append.assoc append_Cons)
  ultimately show "topo needs xs \<and> needs x \<subseteq> set xs" by simp
next
  assume t: "topo needs xs \<and> needs x \<subseteq> set xs"
  show "topo needs (xs @ [x])"
    unfolding topo_def
  proof (intro allI impI)
    fix ys y zs assume e: "xs @ [x] = ys @ y # zs"
    show "needs y \<subseteq> set ys"
    proof (cases zs rule: rev_cases)
      case Nil
      then show ?thesis using e t by simp
    next
      case (snoc zs' z)
      then have "xs = ys @ y # zs'" using e by simp
      then show ?thesis using t unfolding topo_def by blast
    qed
  qed
qed

lemma topo_acyclic:
  assumes t: "topo needs xs" and d: "distinct xs"
  shows "acyclic {(d, x). x \<in> set xs \<and> d \<in> needs x}"
proof -
  let ?pos = "\<lambda>n. length (takeWhile (\<lambda>x. x \<noteq> n) xs)"
  have pos: "?pos x = length ys" if "xs = ys @ x # zs" for x ys zs
  proof -
    have "x \<notin> set ys" using that d by simp
    then show ?thesis using that by (simp add: takeWhile_neq)
  qed
  have "{(d, x). x \<in> set xs \<and> d \<in> needs x} \<subseteq> measure ?pos"
  proof clarsimp
    fix y x assume "x \<in> set xs" and y: "y \<in> needs x"
    then obtain ys zs where s: "xs = ys @ x # zs" by (meson split_list)
    then have "y \<in> set ys" using t y unfolding topo_def by blast
    then obtain us vs where ys: "ys = us @ y # vs" by (meson split_list)
    have "?pos y = length us" using pos [of us y "vs @ x # zs"] s ys by simp
    then show "?pos y < ?pos x" using pos [OF s] ys by simp
  qed
  then show ?thesis using wf_acyclic [OF wf_subset [OF wf_measure]] by blast
qed

lemma pop_any_split:
  assumes "zs \<noteq> []" and "pop_any pick zs = (n, rest)"
  shows "\<exists>us vs. zs = us @ n # vs \<and> rest = us @ vs"
proof -
  let ?i = "pick zs mod length zs"
  have "?i < length zs" using assms(1) by simp
  then show ?thesis
    using assms(2) id_take_nth_drop [of ?i zs] unfolding pop_any_def Let_def by blast
qed

lemma set_add_ready: "set (add_ready g f zs ds) = set zs \<union> {d \<in> set ds. now_ready g f d}"
  unfolding add_ready_def by (induction ds arbitrary: zs) auto

lemma distinct_add_ready: "distinct (add_ready g f zs ds) = distinct zs"
  unfolding add_ready_def by (induction ds arbitrary: zs) auto

text \<open>What a node waits for, and the loop invariant.\<close>

definition needs_of :: "targets \<Rightarrow> node \<Rightarrow> node set" where
  "needs_of targets n = (case n of None \<Rightarrow> {} | Some t \<Rightarrow> Some ` set (target_deps targets t))"

definition flat_inv :: "targets \<Rightarrow> node list \<Rightarrow> node list \<Rightarrow> bool" where
  "flat_inv targets zeros flat \<longleftrightarrow>
     distinct (zeros @ flat)
     \<and> set (zeros @ flat) \<subseteq> Some ` set (map fst targets)
     \<and> (\<forall>t\<in>set (map fst targets). needs_of targets (Some t) \<subseteq> set flat \<longleftrightarrow> Some t \<in> set (zeros @ flat))
     \<and> topo (needs_of targets) flat"

lemma flat_inv_start:
  assumes "graph_of targets g"
  shows "flat_inv targets (foldl add_if_new [] (g_dependents g None)) []"
  using assms unfolding flat_inv_def graph_of_def
  by (auto simp: foldl_add_if_new_set foldl_add_if_new_distinct needs_of_def)

lemma flat_inv_step:
  assumes g: "graph_of targets g" and inv: "flat_inv targets zeros flat"
    and z: "zeros = us @ n # vs"
    and ready: "\<And>d. now_ready g f d \<longleftrightarrow> set (g_deps g d) \<subseteq> set (flat @ [n])"
  shows "flat_inv targets (add_ready g f (us @ vs) (g_dependents g n)) (flat @ [n])"
proof -
  let ?V = "set (map fst targets)" and ?N = "needs_of targets"
  let ?new = "{d \<in> set (g_dependents g n). now_ready g f d}"
  have inv': "distinct (zeros @ flat)" "set (zeros @ flat) \<subseteq> Some ` ?V"
    "\<And>t. t \<in> ?V \<Longrightarrow> ?N (Some t) \<subseteq> set flat \<longleftrightarrow> Some t \<in> set (zeros @ flat)" "topo ?N flat"
    using inv unfolding flat_inv_def by blast+
  obtain m where m: "n = Some m" "m \<in> ?V" using inv'(2) z by auto
  have nN: "?N n \<subseteq> set flat" using inv'(3) [OF m(2)] m z by auto
  have nflat: "n \<notin> set flat" using inv'(1) z by auto
  have dependent: "d \<in> set (g_dependents g n) \<longleftrightarrow> (\<exists>t\<in>?V. d = Some t \<and> n \<in> ?N (Some t))" for d
  proof -
    have "set (g_dependents g n) = Some ` {t. (m, t) \<in> depends targets}"
      using g m unfolding graph_of_def by blast
    moreover have "(m, t) \<in> depends targets \<longleftrightarrow> t \<in> ?V \<and> n \<in> ?N (Some t)" for t
      using m(1) target_deps_key [of m targets t] by (auto simp: depends_def needs_of_def)
    ultimately show ?thesis by blast
  qed
  have deps: "set (g_deps g (Some t)) = ?N (Some t)" if "t \<in> ?V" "?N (Some t) \<noteq> {}" for t
    using g that unfolding graph_of_def needs_of_def by auto
  have new: "d \<in> ?new \<longleftrightarrow> (\<exists>t\<in>?V. d = Some t \<and> n \<in> ?N (Some t) \<and> ?N (Some t) \<subseteq> set (flat @ [n]))" for d
  proof -
    have "now_ready g f (Some t) \<longleftrightarrow> ?N (Some t) \<subseteq> set (flat @ [n])" if "t \<in> ?V" "n \<in> ?N (Some t)" for t
      using deps [OF that(1)] that(2) ready [of "Some t"] by (metis empty_iff)
    then show ?thesis unfolding mem_Collect_eq dependent [of d] by blast
  qed
  have fresh: "?new \<inter> set (zeros @ flat) = {}"
  proof (rule ccontr)
    assume "?new \<inter> set (zeros @ flat) \<noteq> {}"
    then obtain d where d: "d \<in> ?new" "d \<in> set (zeros @ flat)" by blast
    obtain t where t: "t \<in> ?V" "d = Some t" "n \<in> ?N (Some t)" using d(1) unfolding new by blast
    then have "?N (Some t) \<subseteq> set flat" using d(2) inv'(3) [OF t(1)] by simp
    then show False using t(3) nflat by blast
  qed
  have "distinct (add_ready g f (us @ vs) (g_dependents g n) @ flat @ [n])"
    using inv'(1) fresh unfolding z by (auto simp add: distinct_add_ready set_add_ready)
  moreover have "set (add_ready g f (us @ vs) (g_dependents g n) @ flat @ [n]) \<subseteq> Some ` ?V"
  proof -
    have "?new \<subseteq> Some ` ?V" using new by blast
    then show ?thesis using inv'(2) unfolding z set_add_ready set_append by auto
  qed
  moreover have "?N (Some t) \<subseteq> set (flat @ [n])
      \<longleftrightarrow> Some t \<in> set (add_ready g f (us @ vs) (g_dependents g n) @ flat @ [n])" if t: "t \<in> ?V" for t
  proof -
    have "Some t \<in> set (add_ready g f (us @ vs) (g_dependents g n) @ flat @ [n])
        \<longleftrightarrow> Some t \<in> set (zeros @ flat) \<or> Some t \<in> ?new"
      using z by (auto simp: set_add_ready)
    also have "\<dots> \<longleftrightarrow> ?N (Some t) \<subseteq> set flat \<or> n \<in> ?N (Some t) \<and> ?N (Some t) \<subseteq> set (flat @ [n])"
      using inv'(3) [OF t] new [of "Some t"] t by blast
    also have "\<dots> \<longleftrightarrow> ?N (Some t) \<subseteq> set (flat @ [n])" by auto
    finally show ?thesis by blast
  qed
  moreover have "topo ?N (flat @ [n])" using inv'(4) nN by (simp add: topo_snoc)
  ultimately show ?thesis unfolding flat_inv_def by blast
qed

lemma flatten_loop_ends:
  assumes g: "graph_of targets g" and d: "distinct (map fst targets)"
  shows "\<lbrakk>oset_invar f; oset_iter f = Some flat; flat_inv targets zeros flat\<rbrakk> \<Longrightarrow>
    \<exists>f' flat'. flatten_loop pick g zeros f = Some f' \<and> oset_iter f' = Some flat'
      \<and> flat_inv targets [] flat'"
proof (induction "length targets - length flat" arbitrary: zeros f flat rule: less_induct)
  case less
  show ?case
  proof (cases "zeros = []")
    case True
    then show ?thesis using less.prems by (subst flatten_loop.simps) simp
  next
    case False
    obtain n rest where pop: "pop_any pick zeros = (n, rest)" by (cases "pop_any pick zeros")
    then obtain us vs where z: "zeros = us @ n # vs" "rest = us @ vs"
      using pop_any_split [OF False] by blast
    let ?f = "oset_add n f"
    have n: "n \<notin> set flat" using less.prems(3) z by (auto simp: flat_inv_def)
    have f: "oset_invar ?f" "oset_iter ?f = Some (flat @ [n])"
      using os.invar_add os.iter_add less.prems(1,2) n by force+
    have "now_ready g ?f d \<longleftrightarrow> set (g_deps g d) \<subseteq> set (flat @ [n])" for d
      unfolding now_ready_def list_all_iff using os.contains_iff [OF f] by blast
    from flat_inv_step [OF g less.prems(3) z(1) this]
    have inv: "flat_inv targets (add_ready g ?f rest (g_dependents g n)) (flat @ [n])"
      using z(2) by simp
    have "length flat < length targets"
    proof -
      have "set (zeros @ flat) \<subseteq> Some ` set (map fst targets)" "distinct (zeros @ flat)"
        using less.prems(3) unfolding flat_inv_def by blast+
      then have "length (zeros @ flat) \<le> card (Some ` set (map fst targets))"
        by (metis card_mono distinct_card finite_imageI List.finite_set)
      also have "\<dots> \<le> length targets"
        by (metis card_image_le card_length le_trans length_map List.finite_set)
      finally show ?thesis using z by simp
    qed
    then have "length targets - length (flat @ [n]) < length targets - length flat" by simp
    from less.hyps [OF this f inv] show ?thesis
      using False pop by (subst flatten_loop.simps) (simp add: Let_def)
  qed
qed

lemma FlattenToList_ends:
  assumes "graph_of targets g" and "distinct (map fst targets)"
  shows "\<exists>flat. FlattenToList pick g None = Some flat \<and> flat_inv targets [] flat"
  using flatten_loop_ends [OF assms os.invar_empty os.iter_empty flat_inv_start [OF assms(1)], of pick]
  unfolding FlattenToList_def by force

lemma target_deps_closed:
  assumes "graph_of targets g" and "d \<in> set (target_deps targets t)"
  shows "d \<in> set (map fst targets)"
  using assms target_deps_key [OF assms(2)] unfolding graph_of_def by blast

lemma flat_inv_result:
  assumes g: "graph_of targets g" and d: "distinct (map fst targets)" and inv: "flat_inv targets [] flat"
  shows "length flat = length targets \<longleftrightarrow> acyclic (depends targets)"
    and "acyclic (depends targets) \<Longrightarrow> set flat = Some ` set (map fst targets)"
proof -
  let ?V = "set (map fst targets)"
  have inv': "distinct flat" "set flat \<subseteq> Some ` ?V" "topo (needs_of targets) flat"
    "\<And>t. t \<in> ?V \<Longrightarrow> needs_of targets (Some t) \<subseteq> set flat \<longleftrightarrow> Some t \<in> set flat"
    using inv unfolding flat_inv_def append_Nil by blast+
  have card: "card (Some ` ?V) = length targets"
    using d by (metis card_image distinct_card inj_Some length_map subset_UNIV inj_on_subset)
  have full: "length flat = length targets \<longleftrightarrow> set flat = Some ` ?V"
    using inv'(1,2) card by (metis card_subset_eq distinct_card finite_imageI List.finite_set)
  have rel: "depends targets \<subseteq> ?V \<times> ?V"
    using target_deps_closed [OF g] target_deps_key unfolding depends_def by fast
  show all: "set flat = Some ` ?V" if "acyclic (depends targets)"
  proof -
    have "wf (depends targets)"
      using that rel by (meson finite_acyclic_wf finite_SigmaI finite_subset List.finite_set)
    then have "t \<in> ?V \<longrightarrow> Some t \<in> set flat" for t
    proof (induction t rule: wf_induct_rule)
      case (less t)
      show ?case
      proof
        assume t: "t \<in> ?V"
        have "Some u \<in> set flat" if "u \<in> set (target_deps targets t)" for u
          using less [of u] that target_deps_closed [OF g that] by (simp add: depends_def)
        then have "needs_of targets (Some t) \<subseteq> set flat" by (auto simp: needs_of_def)
        then show "Some t \<in> set flat" using inv'(4) [OF t] by simp
      qed
    qed
    then show ?thesis using inv'(2) by blast
  qed
  show "length flat = length targets \<longleftrightarrow> acyclic (depends targets)"
  proof
    assume "length flat = length targets"
    then have sf: "set flat = Some ` ?V" using full by simp
    have ac: "acyclic {(d, x). x \<in> set flat \<and> d \<in> needs_of targets x}"
      by (rule topo_acyclic [OF inv'(3,1)])
    have edge: "(Some a, Some b) \<in> {(d, x). x \<in> set flat \<and> d \<in> needs_of targets x}"
      if "(a, b) \<in> depends targets" for a b
    proof -
      have "b \<in> ?V" "Some a \<in> needs_of targets (Some b)"
        using that rel by (auto simp: needs_of_def depends_def)
      then show ?thesis using sf by blast
    qed
    have "(Some a, Some b) \<in> {(d, x). x \<in> set flat \<and> d \<in> needs_of targets x}\<^sup>+"
      if "(a, b) \<in> (depends targets)\<^sup>+" for a b
      using that
    proof (induction rule: trancl_induct)
      case (base y)
      then show ?case using edge by blast
    next
      case (step y z)
      then show ?case using edge by (meson trancl_into_trancl)
    qed
    then show "acyclic (depends targets)" using ac unfolding acyclic_def by blast
  next
    assume "acyclic (depends targets)"
    then show "length flat = length targets" using all full by simp
  qed
qed

section \<open>When the graph is built\<close>

lemma efold_link_dep_cases:
  "if set ds \<subseteq> set (g_refs g)
   then \<exists>g'. efold (link_dep t) g ds = Inr g' \<and> g_refs g' = g_refs g
   else \<exists>m. efold (link_dep t) g ds = Inl (GypErr m)"
proof (induction ds arbitrary: g)
  case (Cons d ds)
  show ?case
  proof (cases "d \<in> set (g_refs g)")
    case True
    then obtain h where "link_dep t g d = Inr h" "g_refs h = g_refs g" by (simp add: link_dep_def)
    then show ?thesis using Cons.IH [of h] True by (auto split: if_splits)
  qed (simp add: link_dep_def)
qed simp

lemma link_target_result:
  assumes "deps_readable spec"
  shows "if set (dep_names spec) \<subseteq> set (g_refs g)
   then \<exists>g'. link_target g (t, spec) = Inr g' \<and> g_refs g' = g_refs g
   else \<exists>m. link_target g (t, spec) = Inl (GypErr m)"
proof (cases "dget spec ''dependencies''")
  case None
  then show ?thesis by (simp add: link_target_def dep_names_def link_root_def)
next
  case (Some v)
  show ?thesis
  proof (cases "truth v")
    case False
    then show ?thesis using Some by (simp add: link_target_def dep_names_def link_root_def)
  next
    case True
    then obtain ds where "as_strs v = Inr ds" using assms Some by (auto simp: deps_readable_def)
    then show ?thesis
      using Some True efold_link_dep_cases [of ds g t] by (simp add: link_target_def dep_names_def)
  qed
qed

lemma efold_link_target_result:
  assumes "\<forall>(t, spec)\<in>set ts. deps_readable spec"
  shows "if \<forall>(t, spec)\<in>set ts. set (dep_names spec) \<subseteq> set (g_refs g)
   then \<exists>g'. efold link_target g ts = Inr g'
   else \<exists>m. efold link_target g ts = Inl (GypErr m)"
  using assms
proof (induction ts arbitrary: g)
  case (Cons p ts)
  obtain t spec where p: "p = (t, spec)" by (cases p)
  have r: "deps_readable spec" "\<forall>(t, spec)\<in>set ts. deps_readable spec" using Cons.prems p by auto
  show ?case
  proof (cases "set (dep_names spec) \<subseteq> set (g_refs g)")
    case True
    then obtain h where "link_target g (t, spec) = Inr h" "g_refs h = g_refs g"
      using link_target_result [OF r(1), of g t] by auto
    then show ?thesis using Cons.IH [OF r(2), of h] True p by simp
  next
    case False
    then obtain m where "link_target g (t, spec) = Inl (GypErr m)"
      using link_target_result [OF r(1), of g t] by auto
    then show ?thesis using False p by auto
  qed
qed simp

definition deps_closed :: "targets \<Rightarrow> bool" where
  "deps_closed targets \<longleftrightarrow> (\<forall>(t, spec)\<in>set targets. set (dep_names spec) \<subseteq> set (map fst targets))"

lemma build_graph_result:
  assumes "\<forall>(t, spec)\<in>set targets. deps_readable spec"
  shows "if deps_closed targets then \<exists>g. build_graph targets = Inr g
    else \<exists>m. build_graph targets = Inl (GypErr m)"
  using efold_link_target_result [OF assms, of "empty_graph (map fst targets)"]
  unfolding build_graph_def deps_closed_def by (simp add: empty_graph_def)

lemma BuildDependencyList_result:
  assumes d: "distinct (map fst targets)" and r: "\<forall>(t, spec)\<in>set targets. deps_readable spec"
  shows "if \<not> deps_closed targets
    then \<exists>m. BuildDependencyList pick targets = Some (Inl (GypErr m))
    else if \<not> acyclic (depends targets)
    then BuildDependencyList pick targets = Some (Inl CircularErr)
    else \<exists>g flat. BuildDependencyList pick targets = Some (Inr (g, flat)) \<and> graph_of targets g
      \<and> distinct flat \<and> set flat = set (map fst targets)
      \<and> (\<forall>ys t zs. flat = ys @ t # zs \<longrightarrow> set (target_deps targets t) \<subseteq> set ys)"
proof (cases "deps_closed targets")
  case False
  then show ?thesis using build_graph_result [OF r] by (auto simp: BuildDependencyList_def)
next
  case True
  then obtain g where bg: "build_graph targets = Inr g" using build_graph_result [OF r] by auto
  note g = build_graph_graph_of [OF bg d]
  obtain flat where f: "FlattenToList pick g None = Some flat" "flat_inv targets [] flat"
    using FlattenToList_ends [OF g d] by blast
  note res = flat_inv_result [OF g d f(2)]
  show ?thesis
  proof (cases "acyclic (depends targets)")
    case False
    then show ?thesis using True bg f(1) res(1) by (simp add: BuildDependencyList_def)
  next
    case ac: True
    have sf: "set flat = Some ` set (map fst targets)" by (rule res(2) [OF ac])
    then have fm: "flat = map Some (map the flat)" by (intro nth_equalityI) (auto dest!: nth_mem)
    obtain xs where xs: "flat = map Some xs" using fm by blast
    have "distinct xs" "topo (needs_of targets) (map Some xs)"
      using f(2) xs unfolding flat_inv_def by (simp_all add: distinct_map)
    moreover have "set xs = set (map fst targets)" using sf unfolding xs by (simp add: inj_image_eq_iff)
    moreover have "\<forall>ys t zs. xs = ys @ t # zs \<longrightarrow> set (target_deps targets t) \<subseteq> set ys"
    proof (intro allI impI)
      fix ys t zs assume "xs = ys @ t # zs"
      then have "needs_of targets (Some t) \<subseteq> set (map Some ys)"
        using \<open>topo (needs_of targets) (map Some xs)\<close> [unfolded topo_def]
        by (metis list.simps(9) map_append)
      then show "set (target_deps targets t) \<subseteq> set ys" by (auto simp: needs_of_def)
    qed
    ultimately show ?thesis
      using True ac bg f(1) res(1) g xs by (simp add: BuildDependencyList_def comp_def)
  qed
qed

text \<open>
  C9: for every order in which \<open>set.pop()\<close> may yield the ready nodes, \<open>BuildDependencyList\<close>
  ends. It raises a \<open>GypError\<close> exactly when a dependency names no target, the
  \<open>CircularException\<close> exactly when the dependencies have a cycle, and otherwise returns each
  target once, every target after all of its dependencies, with the graph of those dependencies.
\<close>

theorem BuildDependencyList_correct:
  assumes d: "distinct (map fst targets)" and r: "\<forall>(t, spec)\<in>set targets. deps_readable spec"
  shows "if \<not> deps_closed targets
    then \<exists>m. BuildDependencyList pick targets = Some (Inl (GypErr m))
    else if \<not> acyclic (depends targets)
    then BuildDependencyList pick targets = Some (Inl CircularErr)
    else \<exists>g flat. BuildDependencyList pick targets = Some (Inr (g, flat)) \<and> graph_of targets g
      \<and> distinct flat \<and> set flat = set (map fst targets)
      \<and> (\<forall>ys t zs. flat = ys @ t # zs \<longrightarrow> set (target_deps targets t) \<subseteq> set ys)"
  using assms by (rule BuildDependencyList_result)

theorem BuildDependencyList_correct_witness:
  "\<exists>g flat. BuildDependencyList (\<lambda>_. 0) [(''b'', [(''dependencies'', PList [PStr ''a''])]), (''a'', [])]
      = Some (Inr (g, flat)) \<and> set flat = {''a'', ''b''}"
proof -
  let ?ts = "[(''b'', [(''dependencies'', PList [PStr ''a''])]), (''a'', [])] :: targets"
  have dn: "dep_names [(''dependencies'', PList [PStr ''a''])] = [''a'']" "dep_names [] = []"
    by (simp_all add: dep_names_def as_strs_def)
  have "deps_closed ?ts" by (simp add: deps_closed_def dn)
  moreover have "depends ?ts = {(''a'', ''b'')}"
    by (auto simp: depends_def target_deps_def dn split: if_splits option.splits)
  then have "acyclic (depends ?ts)" by (simp add: acyclic_def trancl_insert)
  moreover have "\<forall>(t, spec)\<in>set ?ts. deps_readable spec"
    by (simp add: deps_readable_def as_strs_def)
  ultimately show ?thesis
    using BuildDependencyList_correct [of ?ts "\<lambda>_. 0"] by auto
qed

end
