(* ===== verification/NodeDependencies.thy ===== *)
theory NodeDependencies
  imports DependencyGraph Traversal
begin

text \<open>
  The dependency queries of \<open>DependencyGraphNode\<close> (\<open>gyp/input.py\<close>): direct, imported, deep
  and link dependencies of a node, and the cycles of the graph. The recursive methods share
  one accumulating set; a recursion over the nodes of a \<open>for\<close> loop is the recursion on the
  list of nodes still to visit.
\<close>

section \<open>Direct and imported dependencies\<close>

definition linkable_types :: "string list" where
  "linkable_types = [''executable'', ''shared_library'', ''loadable_module'']"

definition DirectDependencies :: "dgraph \<Rightarrow> node \<Rightarrow> string list \<Rightarrow> string list" where
  "DirectDependencies g self dependencies =
     foldl (\<lambda>ds dependency. case dependency of None \<Rightarrow> ds | Some r \<Rightarrow> if r \<notin> set ds then ds @ [r] else ds)
       dependencies (g_deps g self)"

fun insert_imported :: "nat \<Rightarrow> nat \<Rightarrow> string list \<Rightarrow> string list \<Rightarrow> string list" where
  "insert_imported index add_index dependencies [] = dependencies"
| "insert_imported index add_index dependencies (imported # rest) =
     (if imported \<notin> set dependencies
      then insert_imported index (add_index + 1)
             (take (index + add_index) dependencies @ imported # drop (index + add_index) dependencies) rest
      else insert_imported index add_index dependencies rest)"

definition exported :: "targets \<Rightarrow> string \<Rightarrow> string list res" where
  "exported targets dependency =
     (case map_of targets dependency of
        None \<Rightarrow> Inl (KeyErr dependency)
      | Some dependency_dict \<Rightarrow> as_strs (dget_or dependency_dict ''export_dependent_settings'' (PList [])))"

partial_function (option) add_imported_loop ::
  "targets \<Rightarrow> nat \<Rightarrow> string list \<Rightarrow> string list res option" where
  "add_imported_loop targets index dependencies =
     (if index < length dependencies
      then (case exported targets (dependencies ! index) of
              Inl e \<Rightarrow> Some (Inl e)
            | Inr imported \<Rightarrow>
                add_imported_loop targets (index + 1) (insert_imported index 1 dependencies imported))
      else Some (Inr dependencies))"

declare add_imported_loop.simps [code]

definition AddImportedDependencies :: "targets \<Rightarrow> string list \<Rightarrow> string list res option" where
  "AddImportedDependencies targets dependencies = add_imported_loop targets 0 dependencies"

definition DirectAndImportedDependencies ::
  "dgraph \<Rightarrow> node \<Rightarrow> targets \<Rightarrow> string list \<Rightarrow> string list res option" where
  "DirectAndImportedDependencies g self targets dependencies =
     AddImportedDependencies targets (DirectDependencies g self dependencies)"

section \<open>Deep dependencies\<close>

partial_function (option) deep_loop :: "dgraph \<Rightarrow> node list \<Rightarrow> string oset \<Rightarrow> string oset option" where
  "deep_loop g nodes dependencies =
     (case nodes of
        [] \<Rightarrow> Some dependencies
      | dependency # rest \<Rightarrow>
          (case dependency of
             None \<Rightarrow> deep_loop g rest dependencies
           | Some r \<Rightarrow>
               if oset_contains dependencies r then deep_loop g rest dependencies
               else Option.bind (deep_loop g (g_deps g dependency) (oset_add r dependencies)) (deep_loop g rest)))"

declare deep_loop.simps [code]

definition DeepDependencies :: "dgraph \<Rightarrow> node \<Rightarrow> string oset option" where
  "DeepDependencies g self = deep_loop g (g_deps g self) oset_empty"

section \<open>Link dependencies\<close>

text \<open>
  The body of \<open>_LinkDependenciesInternal\<close> up to its recursive calls: the set of dependencies
  after it, and the nodes it recurses into.
\<close>

definition link_node ::
  "targets \<Rightarrow> bool \<Rightarrow> dgraph \<Rightarrow> bool \<Rightarrow> node \<Rightarrow> string oset \<Rightarrow> (string oset \<times> node list) res" where
  "link_node targets include_shared_libraries g initial self dependencies =
     (case self of
        None \<Rightarrow> Inr (dependencies, [])
      | Some ref \<Rightarrow>
          ebind (case map_of targets ref of None \<Rightarrow> Inl (KeyErr ref) | Some spec \<Rightarrow> Inr spec) (\<lambda>spec.
          ebind (case dget spec ''target_name'' of
                   None \<Rightarrow> Inl (GypErr (''Missing '' @ quoted ''target_name'' @ '' field in target.''))
                 | Some target_name \<Rightarrow>
                     (case dget spec ''type'' of
                        None \<Rightarrow> Inl (GypErr (''Missing '' @ quoted ''type'' @ '' field in target '' @ py_str target_name))
                      | Some target_type \<Rightarrow> Inr target_type)) (\<lambda>target_type.
          let is_linkable = (\<exists>t\<in>set linkable_types. target_type = PStr t) in
          if initial \<and> \<not> is_linkable then Inr (dependencies, [])
          else if target_type = PStr ''none'' \<and> \<not> truth (dget_or spec ''dependencies_traverse'' (PBool True))
          then Inr (oset_add ref dependencies, [])
          else if \<not> initial \<and> (target_type = PStr ''executable'' \<or> target_type = PStr ''loadable_module'')
          then Inr (dependencies, [])
          else if \<not> initial \<and> target_type = PStr ''shared_library'' \<and> \<not> include_shared_libraries
          then Inr (dependencies, [])
          else if \<not> oset_contains dependencies ref
          then Inr (oset_add ref dependencies, if initial \<or> \<not> is_linkable then g_deps g self else [])
          else Inr (dependencies, []))))"

partial_function (option) link_loop ::
  "targets \<Rightarrow> bool \<Rightarrow> dgraph \<Rightarrow> node list \<Rightarrow> string oset \<Rightarrow> string oset res option" where
  "link_loop targets incl g nodes dependencies =
     (case nodes of
        [] \<Rightarrow> Some (Inr dependencies)
      | dependency # rest \<Rightarrow>
          (case link_node targets incl g False dependency dependencies of
             Inl e \<Rightarrow> Some (Inl e)
           | Inr (dependencies', inner) \<Rightarrow>
               Option.bind (link_loop targets incl g inner dependencies') (\<lambda>r.
                 case r of Inl e \<Rightarrow> Some (Inl e)
                 | Inr dependencies'' \<Rightarrow> link_loop targets incl g rest dependencies'')))"

declare link_loop.simps [code]

definition LinkDependenciesInternal :: "targets \<Rightarrow> bool \<Rightarrow> dgraph \<Rightarrow> node \<Rightarrow> string oset res option" where
  "LinkDependenciesInternal targets incl g self =
     (case link_node targets incl g True self oset_empty of
        Inl e \<Rightarrow> Some (Inl e)
      | Inr (dependencies, inner) \<Rightarrow> link_loop targets incl g inner dependencies)"

definition DependenciesForLinkSettings :: "targets \<Rightarrow> dgraph \<Rightarrow> string \<Rightarrow> string oset res option" where
  "DependenciesForLinkSettings targets g ref =
     (case map_of targets ref of
        None \<Rightarrow> Some (Inl (KeyErr ref))
      | Some spec \<Rightarrow>
          LinkDependenciesInternal targets
            (truth (dget_or spec ''allow_sharedlib_linksettings_propagation'' (PBool True))) g (Some ref))"

definition DependenciesToLinkAgainst :: "targets \<Rightarrow> dgraph \<Rightarrow> string \<Rightarrow> string oset res option" where
  "DependenciesToLinkAgainst targets g ref = LinkDependenciesInternal targets True g (Some ref)"

section \<open>Cycles\<close>

text \<open>\<open>list(set(results))\<close> drops repeated cycles; the order it leaves is unspecified.\<close>

partial_function (option) cycles_loop :: "dgraph \<Rightarrow> node list \<Rightarrow> node list \<Rightarrow> node list list option" where
  "cycles_loop g nodes path =
     (case nodes of
        [] \<Rightarrow> Some []
      | node # rest \<Rightarrow>
          Option.bind
            (if node \<in> set path then Some [node # takeWhile (\<lambda>part. part \<noteq> node) path @ [node]]
             else Option.bind (cycles_loop g (g_dependents g node) (node # path)) (\<lambda>cs. Some (remdups cs)))
            (\<lambda>results. Option.bind (cycles_loop g rest path) (\<lambda>more. Some (results @ more))))"

declare cycles_loop.simps [code]

definition FindCycles :: "dgraph \<Rightarrow> node \<Rightarrow> node list list option" where
  "FindCycles g self = map_option remdups (cycles_loop g (g_dependents g self) [self])"

section \<open>Imported dependencies: the loop ends with the closure\<close>

lemma insert_imported_props:
  assumes "1 \<le> add_index" and "index < length ds"
  shows "take (Suc index) (insert_imported index add_index ds imps) = take (Suc index) ds
    \<and> set (insert_imported index add_index ds imps) = set ds \<union> set imps
    \<and> (distinct ds \<longrightarrow> distinct (insert_imported index add_index ds imps))
    \<and> subseq ds (insert_imported index add_index ds imps)"
  using assms
proof (induction index add_index ds imps rule: insert_imported.induct)
  case (2 index add_index ds imp imps)
  show ?case
  proof (cases "imp \<in> set ds")
    case True
    then show ?thesis using 2 by auto
  next
    case False
    let ?k = "index + add_index"
    let ?ds = "take ?k ds @ imp # drop ?k ds"
    have "take (Suc index) ?ds = take (Suc index) ds"
      using 2(3,4) by (simp add: min_def take_Cons' split: if_splits)
    moreover have "set ?ds = insert imp (set ds)"
      by (metis Un_insert_right append_take_drop_id list.simps(15) set_append)
    moreover have "distinct ?ds" if "distinct ds"
    proof -
      have "distinct (take ?k ds @ drop ?k ds)" using that by simp
      then show ?thesis using False unfolding distinct_append
        by (auto dest: in_set_takeD in_set_dropD)
    qed
    moreover have "subseq ds ?ds"
      by (metis append_take_drop_id list_emb_append_mono subseq_Cons' subseq_order.refl)
    ultimately show ?thesis
      using 2(1) [OF False] 2(3,4) False by (auto intro: subseq_order.trans)
  qed
qed simp

lemma insert_imported_old: "set imps \<subseteq> set ds \<Longrightarrow> insert_imported index add_index ds imps = ds"
  by (induction imps) auto

definition imports_done :: "targets \<Rightarrow> string list \<Rightarrow> nat \<Rightarrow> string list \<Rightarrow> bool" where
  "imports_done targets start index ds \<longleftrightarrow>
     index \<le> length ds \<and> subseq start ds \<and> set ds \<subseteq> reach (exported targets) start
     \<and> (distinct start \<longrightarrow> distinct ds)
     \<and> (\<forall>i<index. \<exists>ys. exported targets (ds ! i) = Inr ys \<and> set ys \<subseteq> set ds)"

lemma imports_done_step:
  assumes inv: "imports_done targets start index ds" and i: "index < length ds"
    and ys: "exported targets (ds ! index) = Inr ys"
  shows "imports_done targets start (index + 1) (insert_imported index 1 ds ys)"
proof -
  let ?ds = "insert_imported index 1 ds ys"
  have p: "take (Suc index) ?ds = take (Suc index) ds" "set ?ds = set ds \<union> set ys"
      "distinct ds \<longrightarrow> distinct ?ds" "subseq ds ?ds"
    using insert_imported_props [OF _ i, of 1 ys] by auto
  have len: "Suc index \<le> length ?ds"
    using list_emb_length [OF p(4)] i by simp
  have nth: "?ds ! j = ds ! j" if "j \<le> index" for j
    using p(1) that by (metis le_imp_less_Suc nth_take)
  have "ds ! index \<in> reach (exported targets) start"
    using inv i unfolding imports_done_def by (meson nth_mem subsetD)
  then have "set ys \<subseteq> reach (exported targets) start"
    using ys unfolding reach_def edges_def by (auto intro: rtrancl_into_rtrancl)
  moreover have "\<exists>zs. exported targets (?ds ! j) = Inr zs \<and> set zs \<subseteq> set ?ds" if "j < Suc index" for j
  proof (cases "j = index")
    case True
    then show ?thesis using ys p(2) nth by auto
  next
    case False
    then have "j < index" using that by simp
    then obtain zs where "exported targets (ds ! j) = Inr zs" "set zs \<subseteq> set ds"
      using inv unfolding imports_done_def by blast
    then show ?thesis using p(2) nth \<open>j < index\<close> by auto
  qed
  ultimately show ?thesis
    using inv p len unfolding imports_done_def by (auto intro: subseq_order.trans)
qed

lemma finite_exported: "finite (edges (exported targets))"
  by (rule finite_succ_edges [of _ "fst ` set targets"])
    (auto simp: exported_def split: option.splits dest!: map_of_SomeD intro: rev_image_eqI)

lemma add_imported_loop_ends:
  "imports_done targets start index ds \<Longrightarrow>
    \<exists>r. add_imported_loop targets index ds = Some r
      \<and> (case r of Inl e \<Rightarrow> \<exists>z\<in>reach (exported targets) start. exported targets z = Inl e
         | Inr ds' \<Rightarrow> imports_done targets start (length ds') ds')"
proof (induction "(card (reach (exported targets) start - set ds), length ds - index)"
    arbitrary: ds index rule: wf_induct_rule [OF wf_lex_prod [OF wf_less_than wf_less_than]])
  case less: 1
  show ?case
  proof (cases "index < length ds")
    case False
    then have "index = length ds" using less(2) by (simp add: imports_done_def)
    then show ?thesis using less(2) by (subst add_imported_loop.simps) simp
  next
    case i: True
    have mem: "ds ! index \<in> reach (exported targets) start"
      using less(2) i unfolding imports_done_def by (meson nth_mem subsetD)
    show ?thesis
    proof (cases "exported targets (ds ! index)")
      case (Inl e)
      then show ?thesis using i mem by (subst add_imported_loop.simps) auto
    next
      case (Inr ys)
      let ?ds = "insert_imported index 1 ds ys"
      have inv: "imports_done targets start (index + 1) ?ds"
        by (rule imports_done_step [OF less(2) i Inr])
      have p: "set ?ds = set ds \<union> set ys" "subseq ds ?ds"
        using insert_imported_props [OF _ i, of 1 ys] by auto
      have "((card (reach (exported targets) start - set ?ds), length ?ds - (index + 1)),
          (card (reach (exported targets) start - set ds), length ds - index)) \<in> less_than <*lex*> less_than"
      proof (cases "?ds = ds")
        case True
        then show ?thesis using i by auto
      next
        case False
        have "set ?ds \<noteq> set ds"
          using False insert_imported_old [of ys ds index 1] p(1) by auto
        then have "reach (exported targets) start - set ?ds \<subset> reach (exported targets) start - set ds"
          using inv p(1) unfolding imports_done_def by auto
        then have "card (reach (exported targets) start - set ?ds) < card (reach (exported targets) start - set ds)"
          using finite_reach [OF finite_exported] by (metis finite_Diff psubset_card_mono)
        then show ?thesis by simp
      qed
      from less(1) [OF this inv] show ?thesis
        using i Inr by (subst add_imported_loop.simps) simp
    qed
  qed
qed

text \<open>
  Adding the imported dependencies always ends. If every dependency reached through
  \<open>export_dependent_settings\<close> is a known target with a readable list, the result holds
  exactly the targets reached, each once, and keeps the given list as a subsequence; otherwise
  the error of a reached target is raised.
\<close>

theorem AddImportedDependencies_closure:
  assumes "distinct start"
  shows "\<exists>r. AddImportedDependencies targets start = Some r
    \<and> (case r of
         Inl e \<Rightarrow> \<exists>z\<in>reach (exported targets) start. exported targets z = Inl e
       | Inr ds \<Rightarrow> distinct ds \<and> subseq start ds \<and> set ds = reach (exported targets) start
           \<and> (\<forall>z\<in>set ds. \<exists>ys. exported targets z = Inr ys))"
proof -
  have "imports_done targets start 0 start"
    by (simp add: imports_done_def reach_start)
  then obtain r where r: "add_imported_loop targets 0 start = Some r"
      "case r of Inl e \<Rightarrow> \<exists>z\<in>reach (exported targets) start. exported targets z = Inl e
         | Inr ds' \<Rightarrow> imports_done targets start (length ds') ds'"
    using add_imported_loop_ends by blast
  have "distinct ds \<and> subseq start ds \<and> set ds = reach (exported targets) start
      \<and> (\<forall>z\<in>set ds. \<exists>ys. exported targets z = Inr ys)" if "r = Inr ds" for ds
  proof -
    have inv: "subseq start ds" "set ds \<subseteq> reach (exported targets) start" "distinct ds"
        "\<forall>z\<in>set ds. \<exists>ys. exported targets z = Inr ys \<and> set ys \<subseteq> set ds"
      using r(2) that assms unfolding imports_done_def all_set_conv_all_nth by auto
    have "y \<in> set ds" if "(x, y) \<in> (edges (exported targets))\<^sup>*" "x \<in> set ds" for x y
      using that inv(4) by (induction rule: rtrancl_induct) (fastforce simp: edges_def)+
    moreover have "set start \<subseteq> set ds" using inv(1) by (auto elim: list_emb_set)
    ultimately show ?thesis using inv unfolding reach_def by blast
  qed
  then show ?thesis
    using r unfolding AddImportedDependencies_def by (cases r) auto
qed

theorem AddImportedDependencies_closure_witness:
  "AddImportedDependencies [(''a'', [(''export_dependent_settings'', PList [PStr ''b''])]), (''b'', [])] [''a'']
     \<noteq> None"
  using AddImportedDependencies_closure
    [of "[''a'']" "[(''a'', [(''export_dependent_settings'', PList [PStr ''b''])]), (''b'', [])]"] by auto

section \<open>Deep dependencies: everything below the node, once\<close>

definition refs :: "node list \<Rightarrow> string list" where
  "refs ns = map the (filter (\<lambda>n. n \<noteq> None) ns)"

lemma refs_simps [simp]:
  "refs [] = []" "refs (None # ns) = refs ns" "refs (Some r # ns) = r # refs ns" "refs (map Some rs) = rs"
  by (simp_all add: refs_def comp_def filter_map)

definition deep_succ :: "dgraph \<Rightarrow> string \<Rightarrow> pyerr + string list" where
  "deep_succ g t = Inr (refs (g_deps g (Some t)))"

lemma deep_loop_simps [simp]:
  "deep_loop g [] s = Some s"
  "deep_loop g (None # ns) s = deep_loop g ns s"
  "deep_loop g (Some r # ns) s =
     (if oset_contains s r then deep_loop g ns s
      else Option.bind (deep_loop g (g_deps g (Some r)) (oset_add r s)) (deep_loop g ns))"
  by (subst deep_loop.simps, simp)+

lemma deep_loop_refs: "deep_loop g ns s = deep_loop g (map Some (refs ns)) s"
proof (induction ns arbitrary: s)
  case (Cons n ns)
  have "deep_loop g ns = deep_loop g (map Some (refs ns))" using Cons by blast
  then show ?case by (cases n) auto
qed simp

definition deep_sim :: "dgraph \<Rightarrow> string list \<Rightarrow> string list \<Rightarrow> (pyerr + string list) \<Rightarrow> bool" where
  "deep_sim g rs acc r \<longleftrightarrow> (\<forall>s. oset_invar s \<longrightarrow> oset_iter s = Some acc \<longrightarrow>
     (\<exists>s' zs. r = Inr zs \<and> deep_loop g (map Some rs) s = Some s' \<and> oset_invar s' \<and> oset_iter s' = Some zs))"

lemma oset_add_new:
  assumes "oset_invar s" "oset_iter s = Some acc" "k \<notin> set acc"
  shows "oset_invar (oset_add k s)" "oset_iter (oset_add k s) = Some (acc @ [k])" "\<not> oset_contains s k"
  using assms os.invar_add os.iter_add [OF assms(1,2), of k] os.contains_iff [OF assms(1,2)] by auto

lemma deep_loop_dfs:
  assumes "dfs (deep_succ g) rs acc = Some r"
  shows "deep_sim g rs acc r"
proof -
  have "sc = deep_succ g \<longrightarrow> deep_sim g rs acc r" if "dfs sc rs acc = Some r" for sc
  proof (rule dfs.raw_induct [where P = "\<lambda>sc rs acc r. sc = deep_succ g \<longrightarrow> deep_sim g rs acc r", OF _ that])
    fix rec :: "(string \<Rightarrow> pyerr + string list) \<Rightarrow> string list \<Rightarrow> string list \<Rightarrow> (pyerr + string list) option"
    fix sc rs acc r
    assume IH: "\<And>sc rs acc r. rec sc rs acc = Some r \<Longrightarrow> sc = deep_succ g \<longrightarrow> deep_sim g rs acc r"
      and body: "(case rs of [] \<Rightarrow> Some (Inr acc)
        | x # xs' \<Rightarrow> if x \<in> set acc then rec sc xs' acc
            else case sc x of Inl e \<Rightarrow> Some (Inl e)
                 | Inr ys \<Rightarrow> Option.bind (rec sc ys (acc @ [x]))
                     (\<lambda>r. case r of Inl e \<Rightarrow> Some (Inl e) | Inr acc' \<Rightarrow> rec sc xs' acc')) = Some r"
    show "sc = deep_succ g \<longrightarrow> deep_sim g rs acc r"
      unfolding deep_sim_def
    proof (intro impI allI)
      fix s :: "string oset"
      assume sc: "sc = deep_succ g" and s: "oset_invar s" "oset_iter s = Some acc"
      show "\<exists>s' zs. r = Inr zs \<and> deep_loop g (map Some rs) s = Some s' \<and> oset_invar s' \<and> oset_iter s' = Some zs"
      proof (cases rs)
        case Nil
        then show ?thesis using body s by auto
      next
        case (Cons x xs)
        show ?thesis
        proof (cases "x \<in> set acc")
          case True
          then have "rec sc xs acc = Some r" using body Cons by simp
          from IH [OF this] sc s True Cons show ?thesis
            using os.contains_iff [OF s] by (auto simp: deep_sim_def)
        next
          case False
          note new = oset_add_new [OF s False]
          obtain q where q: "rec sc (refs (g_deps g (Some x))) (acc @ [x]) = Some q"
            using body Cons False sc by (auto simp: deep_succ_def split: Option.bind_splits)
          from IH [OF q] sc new obtain s1 zs1
            where 1: "q = Inr zs1" "deep_loop g (map Some (refs (g_deps g (Some x)))) (oset_add x s) = Some s1"
              "oset_invar s1" "oset_iter s1 = Some zs1"
            unfolding deep_sim_def by blast
          then have "rec sc xs zs1 = Some r" using body Cons False sc q by (simp add: deep_succ_def)
          from IH [OF this] sc 1 obtain s2 zs2 where "r = Inr zs2" "deep_loop g (map Some xs) s1 = Some s2"
              "oset_invar s2" "oset_iter s2 = Some zs2"
            unfolding deep_sim_def by blast
          then show ?thesis
            using Cons 1(2) new(3) deep_loop_refs [of g "g_deps g (Some x)" "oset_add x s"] by simp
        qed
      qed
    qed
  qed
  then show ?thesis using assms by blast
qed

lemma refs_g_deps:
  assumes "graph_of targets g" and "t \<in> set (map fst targets)"
  shows "refs (g_deps g (Some t)) = target_deps targets t"
proof -
  have "g_deps g (Some t) = (if target_deps targets t = [] then [None] else map Some (target_deps targets t))"
    using assms unfolding graph_of_def by blast
  then show ?thesis by simp
qed

text \<open>What is reached along the dependencies of a target is its set of transitive dependencies.\<close>

lemma reach_depends:
  assumes "\<And>u. u \<in> set (map fst targets) \<Longrightarrow> succ u = Inr (target_deps targets u)"
    and "graph_of targets g" and "t \<in> set (map fst targets)"
  shows "reach succ (target_deps targets t) = {d. (d, t) \<in> (depends targets)\<^sup>+}"
proof -
  have closed: "d \<in> set (map fst targets)" if "d \<in> set (target_deps targets u)" for d u
    using target_deps_closed [OF assms(2) that] .
  have 1: "(y, t) \<in> (depends targets)\<^sup>+" if "(x, y) \<in> (edges succ)\<^sup>*" "x \<in> set (target_deps targets t)" for x y
    using that
  proof (induction rule: rtrancl_induct)
    case base
    then show ?case by (auto simp: depends_def)
  next
    case (step y z)
    then have "(y, t) \<in> (depends targets)\<^sup>+" by blast
    then have "y \<in> set (map fst targets)"
      using closed by (auto simp: depends_def elim: converse_tranclE)
    then have "(z, y) \<in> depends targets" using step(2) assms(1) by (auto simp: edges_def depends_def)
    then show ?case using \<open>(y, t) \<in> (depends targets)\<^sup>+\<close> by (rule trancl_into_trancl2)
  qed
  have 2: "\<exists>x\<in>set (target_deps targets t). (x, y) \<in> (edges succ)\<^sup>*" if "(y, t) \<in> (depends targets)\<^sup>+" for y
    using that
  proof (induction rule: converse_trancl_induct)
    case (base y)
    then show ?case by (auto simp: depends_def)
  next
    case (step y z)
    then obtain x where x: "x \<in> set (target_deps targets t)" "(x, z) \<in> (edges succ)\<^sup>*" by blast
    have "z \<in> set (map fst targets)" using step(1) target_deps_key by (auto simp: depends_def)
    then have "(z, y) \<in> edges succ" using step(1) assms(1) by (auto simp: edges_def depends_def)
    then show ?case using x by (meson rtrancl_into_rtrancl)
  qed
  show ?thesis using 1 2 unfolding reach_def by blast
qed

lemma DeepDependencies_closed:
  assumes "build_graph targets = Inr g" and d: "distinct (map fst targets)" and t: "t \<in> set (map fst targets)"
  shows "\<exists>s xs. DeepDependencies g (Some t) = Some s \<and> oset_iter s = Some xs \<and> distinct xs
    \<and> set xs = {d. (d, t) \<in> (depends targets)\<^sup>+}"
proof -
  have g: "graph_of targets g" by (rule build_graph_graph_of [OF assms(1) d])
  have succ: "deep_succ g u = Inr (target_deps targets u)" if "u \<in> set (map fst targets)" for u
    using refs_g_deps [OF g that] by (simp add: deep_succ_def)
  have closed: "set (target_deps targets u) \<subseteq> set (map fst targets)" for u
    using target_deps_closed [OF g] by blast
  have "set ys \<subseteq> set (map fst targets)" if "u \<in> set (map fst targets)" "deep_succ g u = Inr ys" for u ys
    using succ [OF that(1)] that(2) closed [of u] by simp
  then obtain r where r: "dfs (deep_succ g) (target_deps targets t) [] = Some r"
    using dfs_total [OF finite_set, of "map fst targets" "deep_succ g"] closed by blast
  from deep_loop_dfs [OF r] os.invar_empty os.iter_empty obtain s xs where
    s: "r = Inr xs" "deep_loop g (map Some (target_deps targets t)) oset_empty = Some s" "oset_iter s = Some xs"
    unfolding deep_sim_def by blast
  have "DeepDependencies g (Some t) = Some s"
    unfolding DeepDependencies_def using deep_loop_refs [of g "g_deps g (Some t)"] refs_g_deps [OF g t] s(2) by simp
  moreover have "distinct xs" "set xs = reach (deep_succ g) (target_deps targets t)"
    using dfs_found [of "deep_succ g" "target_deps targets t" xs] r s(1) by auto
  ultimately show ?thesis using s(3) reach_depends [OF succ g t] by blast
qed

text \<open>
  In the graph of the targets, \<open>DeepDependencies\<close> of a target ends and returns exactly its
  transitive dependencies, each once.
\<close>

theorem DeepDependencies_transitive:
  assumes "build_graph targets = Inr g" and d: "distinct (map fst targets)" and t: "t \<in> set (map fst targets)"
  shows "\<exists>s xs. DeepDependencies g (Some t) = Some s \<and> oset_iter s = Some xs \<and> distinct xs
    \<and> set xs = {d. (d, t) \<in> (depends targets)\<^sup>+}"
  using DeepDependencies_closed [OF assms] .

theorem DeepDependencies_transitive_witness:
  "\<exists>g s. build_graph [(''b'', [(''dependencies'', PList [PStr ''a''])]), (''a'', [])] = Inr g
     \<and> DeepDependencies g (Some ''b'') = Some s"
proof -
  let ?ts = "[(''b'', [(''dependencies'', PList [PStr ''a''])]), (''a'', [])] :: targets"
  obtain g where g: "build_graph ?ts = Inr g"
    by (simp add: build_graph_def link_target_def as_strs_def link_dep_def empty_graph_def)
  then show ?thesis using DeepDependencies_transitive [OF g, of "''b''"] by auto
qed

section \<open>Link dependencies\<close>

text \<open>
  The visit of a target below the initial one: whether it is put into the set, and what is
  visited next.
\<close>

definition target_type :: "targets \<Rightarrow> string \<Rightarrow> pyval" where
  "target_type targets t =
     (case map_of targets t of None \<Rightarrow> PNone | Some spec \<Rightarrow> dget_or spec ''type'' PNone)"

definition is_linkable :: "targets \<Rightarrow> string \<Rightarrow> bool" where
  "is_linkable targets t \<longleftrightarrow> target_type targets t \<in> PStr ` set linkable_types"

definition traversed :: "targets \<Rightarrow> string \<Rightarrow> bool" where
  "traversed targets t \<longleftrightarrow> target_type targets t \<noteq> PStr ''none''
     \<or> truth (dget_or (the (map_of targets t)) ''dependencies_traverse'' (PBool True))"

definition linked_in :: "targets \<Rightarrow> bool \<Rightarrow> string \<Rightarrow> bool" where
  "linked_in targets incl t \<longleftrightarrow>
     target_type targets t \<notin> {PStr ''executable'', PStr ''loadable_module''}
     \<and> (target_type targets t = PStr ''shared_library'' \<longrightarrow> incl)"

definition link_succ :: "targets \<Rightarrow> string \<Rightarrow> pyerr + string list" where
  "link_succ targets t =
     Inr (if \<not> is_linkable targets t \<and> traversed targets t then target_deps targets t else [])"

definition typed_targets :: "targets \<Rightarrow> bool" where
  "typed_targets targets \<longleftrightarrow> (\<forall>(t, spec)\<in>set targets. has_key ''target_name'' spec \<and> has_key ''type'' spec)"

lemma link_node_inner:
  assumes ty: "typed_targets targets" and g: "graph_of targets g" and t: "t \<in> set (map fst targets)"
  shows "\<exists>ns. link_node targets incl g False (Some t) s =
      Inr (if linked_in targets incl t then oset_add t s else s, ns)
    \<and> refs ns = (if \<not> is_linkable targets t \<and> traversed targets t \<and> \<not> oset_contains s t
        then target_deps targets t else [])"
proof -
  obtain spec where spec: "map_of targets t = Some spec"
    using t by (metis map_of_eq_None_iff list.set_map not_None_eq)
  then obtain tn ty where "dget spec ''target_name'' = Some tn" "dget spec ''type'' = Some ty"
    using ty by (fastforce simp: typed_targets_def has_key_def dest!: map_of_SomeD)
  then show ?thesis
    using spec refs_g_deps [OF g t]
    by (auto simp: link_node_def linked_in_def is_linkable_def traversed_def target_type_def linkable_types_def
        dget_or_def oset_add_def Let_def)
qed

lemma link_node_initial:
  assumes ty: "typed_targets targets" and g: "graph_of targets g" and t: "t \<in> set (map fst targets)"
  shows "if is_linkable targets t
    then \<exists>ns. link_node targets incl g True (Some t) oset_empty = Inr (oset_add t oset_empty, ns)
      \<and> refs ns = target_deps targets t
    else link_node targets incl g True (Some t) oset_empty = Inr (oset_empty, [])"
proof -
  obtain spec where spec: "map_of targets t = Some spec"
    using t by (metis map_of_eq_None_iff list.set_map not_None_eq)
  then obtain tn ty where "dget spec ''target_name'' = Some tn" "dget spec ''type'' = Some ty"
    using ty by (fastforce simp: typed_targets_def has_key_def dest!: map_of_SomeD)
  moreover have "\<not> oset_contains (oset_empty :: string oset) t"
    using os.contains_iff [OF os.invar_empty os.iter_empty] by simp
  ultimately show ?thesis
    using spec refs_g_deps [OF g t]
    by (auto simp: link_node_def is_linkable_def target_type_def linkable_types_def dget_or_def Let_def)
qed

lemma link_loop_simps [simp]:
  "link_loop targets incl g [] s = Some (Inr s)"
  "link_loop targets incl g (None # ns) s = link_loop targets incl g ns s"
  by (subst link_loop.simps, simp add: link_node_def)+

lemma link_loop_Cons:
  "link_loop targets incl g (n # ns) s =
     (case link_node targets incl g False n s of
        Inl e \<Rightarrow> Some (Inl e)
      | Inr (s', inner) \<Rightarrow> Option.bind (link_loop targets incl g inner s') (\<lambda>r.
          case r of Inl e \<Rightarrow> Some (Inl e) | Inr s'' \<Rightarrow> link_loop targets incl g ns s''))"
  by (subst link_loop.simps) simp

lemma link_loop_refs: "link_loop targets incl g ns s = link_loop targets incl g (map Some (refs ns)) s"
proof (induction ns arbitrary: s)
  case (Cons n ns)
  show ?case
  proof (cases n)
    case None
    then show ?thesis using Cons by simp
  next
    case (Some r)
    have eq: "link_loop targets incl g (map Some (refs ns)) = link_loop targets incl g ns"
      using Cons by (intro ext) simp
    show ?thesis unfolding Some refs_simps list.map link_loop_Cons eq by (rule refl)
  qed
qed simp

definition link_rel :: "targets \<Rightarrow> bool \<Rightarrow> string \<Rightarrow> string oset \<Rightarrow> string list \<Rightarrow> bool" where
  "link_rel targets incl t0 s acc \<longleftrightarrow>
     oset_invar s \<and> oset_iter s = Some (t0 # filter (\<lambda>x. linked_in targets incl x \<and> x \<noteq> t0) acc)"

lemma link_rel_contains:
  "link_rel targets incl t0 s acc \<Longrightarrow>
    oset_contains s x \<longleftrightarrow> x = t0 \<or> (linked_in targets incl x \<and> x \<in> set acc)"
  unfolding link_rel_def by (auto simp: os.contains_iff)

lemma not_linkable_linked: "\<not> is_linkable targets t \<Longrightarrow> linked_in targets incl t"
  by (auto simp: is_linkable_def linked_in_def linkable_types_def)

lemma link_rel_add:
  assumes r: "link_rel targets incl t0 s acc" and x: "x \<notin> set acc"
  shows "link_rel targets incl t0 (if linked_in targets incl x then oset_add x s else s) (acc @ [x])"
proof (cases "linked_in targets incl x \<and> x \<noteq> t0")
  case True
  then have "oset_iter (oset_add x s) = Some (t0 # filter (\<lambda>x. linked_in targets incl x \<and> x \<noteq> t0) acc @ [x])"
    using r x os.iter_add [of s _ x] unfolding link_rel_def by (auto simp: add_if_new_def)
  then show ?thesis using r True os.invar_add [of s x] unfolding link_rel_def by simp
next
  case False
  then have "x = t0 \<Longrightarrow> oset_add x s = s" using link_rel_contains [OF r, of x] by (simp add: oset_add_def)
  then show ?thesis using r False unfolding link_rel_def by auto
qed

text \<open>One visited node, seen from the traversal.\<close>

lemma link_visit_old:
  assumes ty: "typed_targets targets" and g: "graph_of targets g" and x: "x \<in> set (map fst targets)"
    and r: "link_rel targets incl t0 s acc" and old: "x \<in> set acc"
  shows "link_loop targets incl g (Some x # ns) s = link_loop targets incl g ns s"
proof -
  obtain ns1 where n: "link_node targets incl g False (Some x) s =
      Inr (if linked_in targets incl x then oset_add x s else s, ns1)"
    "refs ns1 = (if \<not> is_linkable targets x \<and> traversed targets x \<and> \<not> oset_contains s x
        then target_deps targets x else [])"
    using link_node_inner [OF ty g x] by blast
  have "linked_in targets incl x \<Longrightarrow> oset_contains s x" using link_rel_contains [OF r] old by blast
  then have "(if linked_in targets incl x then oset_add x s else s) = s" "refs ns1 = []"
    using n(2) not_linkable_linked [of targets x incl] by (auto simp: oset_add_def)
  then show ?thesis
    using n(1) link_loop_refs [of targets incl g ns1 s] by (simp add: link_loop_Cons)
qed

lemma link_visit_new:
  assumes ty: "typed_targets targets" and g: "graph_of targets g" and x: "x \<in> set (map fst targets)"
    and r: "link_rel targets incl t0 s acc" and new: "x \<notin> set acc" and t0: "is_linkable targets t0"
  shows "\<exists>s' ys. link_rel targets incl t0 s' (acc @ [x]) \<and> link_succ targets x = Inr ys
    \<and> link_loop targets incl g (Some x # ns) s =
      Option.bind (link_loop targets incl g (map Some ys) s') (\<lambda>r.
        case r of Inl e \<Rightarrow> Some (Inl e) | Inr s'' \<Rightarrow> link_loop targets incl g ns s'')"
proof -
  obtain ns1 where n: "link_node targets incl g False (Some x) s =
      Inr (if linked_in targets incl x then oset_add x s else s, ns1)"
    "refs ns1 = (if \<not> is_linkable targets x \<and> traversed targets x \<and> \<not> oset_contains s x
        then target_deps targets x else [])"
    using link_node_inner [OF ty g x] by blast
  have "oset_contains s x \<longleftrightarrow> x = t0" using link_rel_contains [OF r] new by blast
  then have "link_succ targets x = Inr (refs ns1)" using n(2) t0 by (auto simp: link_succ_def)
  moreover have "link_loop targets incl g ns1 s' = link_loop targets incl g (map Some (refs ns1)) s'" for s'
    by (rule link_loop_refs)
  ultimately show ?thesis
    using link_rel_add [OF r new] n(1) by (auto simp: link_loop_Cons)
qed

definition link_sim ::
  "targets \<Rightarrow> bool \<Rightarrow> dgraph \<Rightarrow> string \<Rightarrow> string list \<Rightarrow> string list \<Rightarrow> (pyerr + string list) \<Rightarrow> bool" where
  "link_sim targets incl g t0 rs acc r \<longleftrightarrow>
     (\<forall>s. link_rel targets incl t0 s acc \<longrightarrow> set rs \<subseteq> set (map fst targets) \<longrightarrow>
       (\<exists>s' zs. r = Inr zs \<and> link_loop targets incl g (map Some rs) s = Some (Inr s')
          \<and> link_rel targets incl t0 s' zs))"

lemma link_loop_dfs:
  assumes ty: "typed_targets targets" and g: "graph_of targets g" and t0: "is_linkable targets t0"
    and d: "dfs (link_succ targets) rs acc = Some r"
  shows "link_sim targets incl g t0 rs acc r"
proof -
  have "sc = link_succ targets \<longrightarrow> link_sim targets incl g t0 rs acc r" if "dfs sc rs acc = Some r" for sc
  proof (rule dfs.raw_induct
      [where P = "\<lambda>sc rs acc r. sc = link_succ targets \<longrightarrow> link_sim targets incl g t0 rs acc r", OF _ that])
    fix rec :: "(string \<Rightarrow> pyerr + string list) \<Rightarrow> string list \<Rightarrow> string list \<Rightarrow> (pyerr + string list) option"
    fix sc rs acc r
    assume IH: "\<And>sc rs acc r. rec sc rs acc = Some r \<Longrightarrow> sc = link_succ targets \<longrightarrow> link_sim targets incl g t0 rs acc r"
      and body: "(case rs of [] \<Rightarrow> Some (Inr acc)
        | x # xs' \<Rightarrow> if x \<in> set acc then rec sc xs' acc
            else case sc x of Inl e \<Rightarrow> Some (Inl e)
                 | Inr ys \<Rightarrow> Option.bind (rec sc ys (acc @ [x]))
                     (\<lambda>r. case r of Inl e \<Rightarrow> Some (Inl e) | Inr acc' \<Rightarrow> rec sc xs' acc')) = Some r"
    show "sc = link_succ targets \<longrightarrow> link_sim targets incl g t0 rs acc r"
      unfolding link_sim_def
    proof (intro impI allI)
      fix s assume sc: "sc = link_succ targets" and s: "link_rel targets incl t0 s acc"
        and V: "set rs \<subseteq> set (map fst targets)"
      show "\<exists>s' zs. r = Inr zs \<and> link_loop targets incl g (map Some rs) s = Some (Inr s')
          \<and> link_rel targets incl t0 s' zs"
      proof (cases rs)
        case Nil
        then show ?thesis using body s by auto
      next
        case (Cons x xs)
        have x: "x \<in> set (map fst targets)" and xs: "set xs \<subseteq> set (map fst targets)" using V Cons by auto
        show ?thesis
        proof (cases "x \<in> set acc")
          case True
          then have "rec sc xs acc = Some r" using body Cons by simp
          from IH [OF this] sc s xs show ?thesis
            using link_visit_old [OF ty g x s True] Cons unfolding link_sim_def by auto
        next
          case False
          obtain s1 ys where 1: "link_rel targets incl t0 s1 (acc @ [x])" "link_succ targets x = Inr ys"
              "link_loop targets incl g (Some x # map Some xs) s =
                Option.bind (link_loop targets incl g (map Some ys) s1) (\<lambda>r.
                  case r of Inl e \<Rightarrow> Some (Inl e) | Inr s'' \<Rightarrow> link_loop targets incl g (map Some xs) s'')"
            using link_visit_new [OF ty g x s False t0] by blast
          have ys: "set ys \<subseteq> set (map fst targets)"
            using 1(2) target_deps_closed [OF g, of _ x] by (auto simp: link_succ_def split: if_splits)
          obtain q where q: "rec sc ys (acc @ [x]) = Some q"
            using body Cons False sc 1(2) by (auto split: Option.bind_splits)
          from IH [OF q] sc 1(1) ys obtain s2 zs2
            where 2: "q = Inr zs2" "link_loop targets incl g (map Some ys) s1 = Some (Inr s2)"
              "link_rel targets incl t0 s2 zs2"
            unfolding link_sim_def by blast
          then have "rec sc xs zs2 = Some r" using body Cons False sc q 1(2) by simp
          from IH [OF this] sc 2(3) xs obtain s3 zs3 where
            "r = Inr zs3" "link_loop targets incl g (map Some xs) s2 = Some (Inr s3)" "link_rel targets incl t0 s3 zs3"
            unfolding link_sim_def by blast
          then show ?thesis using Cons 1(3) 2(2) by simp
        qed
      qed
    qed
  qed
  then show ?thesis using d by blast
qed

text \<open>
  C19: for typed targets \<open>_LinkDependenciesInternal\<close> ends without error. A target that is not
  linkable has no link dependencies; a linkable one has itself and, of the targets reached from
  its dependencies without passing through a linkable target or a \<open>none\<close> target that excludes
  traversal, those that are neither executables nor loadable modules, shared libraries only
  when these are asked for.
\<close>

theorem LinkDependenciesInternal_correct:
  assumes "build_graph targets = Inr g" and d: "distinct (map fst targets)"
    and ty: "typed_targets targets" and t: "t \<in> set (map fst targets)"
  shows "\<exists>s xs. LinkDependenciesInternal targets incl g (Some t) = Some (Inr s)
    \<and> oset_iter s = Some xs \<and> distinct xs
    \<and> set xs = (if is_linkable targets t
        then insert t {x \<in> reach (link_succ targets) (target_deps targets t). linked_in targets incl x}
        else {})"
proof -
  have g: "graph_of targets g" by (rule build_graph_graph_of [OF assms(1) d])
  show ?thesis
  proof (cases "is_linkable targets t")
    case False
    then show ?thesis
      using link_node_initial [OF ty g t, of incl] os.iter_empty by (simp add: LinkDependenciesInternal_def)
  next
    case True
    obtain ns where n: "link_node targets incl g True (Some t) oset_empty = Inr (oset_add t oset_empty, ns)"
      "refs ns = target_deps targets t"
      using link_node_initial [OF ty g t, of incl] True by auto
    have closed: "set (target_deps targets u) \<subseteq> set (map fst targets)" for u
      using target_deps_closed [OF g] by blast
    then have "set ys \<subseteq> set (map fst targets)" if "link_succ targets u = Inr ys" for u ys
      using that by (auto simp: link_succ_def split: if_splits)
    then obtain r where r: "dfs (link_succ targets) (target_deps targets t) [] = Some r"
      using dfs_total [OF finite_set, of "map fst targets" "link_succ targets"] closed by blast
    have "link_rel targets incl t (oset_add t oset_empty) []"
      using oset_add_new [OF os.invar_empty os.iter_empty, of t] by (simp add: link_rel_def)
    with link_loop_dfs [OF ty g True r] closed obtain s zs where
      s: "r = Inr zs" "link_loop targets incl g (map Some (target_deps targets t)) (oset_add t oset_empty) = Some (Inr s)"
        "link_rel targets incl t s zs"
      unfolding link_sim_def by blast
    have "LinkDependenciesInternal targets incl g (Some t) = Some (Inr s)"
      using n s(2) link_loop_refs [of targets incl g ns] by (simp add: LinkDependenciesInternal_def)
    moreover have iter: "oset_iter s = Some (t # filter (\<lambda>x. linked_in targets incl x \<and> x \<noteq> t) zs)"
      using s(3) by (simp add: link_rel_def)
    moreover have "distinct zs" "set zs = reach (link_succ targets) (target_deps targets t)"
      using dfs_found [of "link_succ targets" "target_deps targets t" zs] r s(1) by auto
    then have "set (t # filter (\<lambda>x. linked_in targets incl x \<and> x \<noteq> t) zs)
        = insert t {x \<in> reach (link_succ targets) (target_deps targets t). linked_in targets incl x}"
      "distinct (t # filter (\<lambda>x. linked_in targets incl x \<and> x \<noteq> t) zs)"
      by auto
    ultimately show ?thesis using True by auto
  qed
qed

theorem LinkDependenciesInternal_correct_witness:
  "\<exists>g s. LinkDependenciesInternal
     [(''p'', [(''target_name'', PStr ''p''), (''type'', PStr ''executable''),
               (''dependencies'', PList [PStr ''l''])]),
      (''l'', [(''target_name'', PStr ''l''), (''type'', PStr ''static_library'')])] False g (Some ''p'')
     = Some (Inr s) \<and> oset_iter s \<noteq> Some []"
proof -
  let ?ts = "[(''p'', [(''target_name'', PStr ''p''), (''type'', PStr ''executable''),
               (''dependencies'', PList [PStr ''l''])]),
      (''l'', [(''target_name'', PStr ''l''), (''type'', PStr ''static_library'')])] :: targets"
  obtain g where g: "build_graph ?ts = Inr g"
    by (simp add: build_graph_def link_target_def as_strs_def link_dep_def empty_graph_def)
  have "typed_targets ?ts" by (simp add: typed_targets_def has_key_def)
  moreover have "is_linkable ?ts ''p''"
    by (simp add: is_linkable_def target_type_def linkable_types_def dget_or_def)
  ultimately obtain s xs where s: "LinkDependenciesInternal ?ts False g (Some ''p'') = Some (Inr s)"
      "oset_iter s = Some xs" "''p'' \<in> set xs"
    using LinkDependenciesInternal_correct [OF g, of "''p''" False] by auto
  then show ?thesis by (intro exI [of _ g] exI [of _ s]) auto
qed

section \<open>Cycles\<close>

lemma cycles_loop_simps [simp]:
  "cycles_loop g [] path = Some []"
  "cycles_loop g (n # ns) path =
     Option.bind
       (if n \<in> set path then Some [n # takeWhile (\<lambda>part. part \<noteq> n) path @ [n]]
        else Option.bind (cycles_loop g (g_dependents g n) (n # path)) (\<lambda>cs. Some (remdups cs)))
       (\<lambda>results. Option.bind (cycles_loop g ns path) (\<lambda>more. Some (results @ more)))"
  by (subst cycles_loop.simps, simp)+

text \<open>A walk against the dependent edges: each node is a dependent of the next.\<close>

fun back_walk :: "dgraph \<Rightarrow> node list \<Rightarrow> bool" where
  "back_walk g (m # n # ns) = (m \<in> set (g_dependents g n) \<and> back_walk g (n # ns))"
| "back_walk g _ = True"

definition is_cycle :: "dgraph \<Rightarrow> node list \<Rightarrow> bool" where
  "is_cycle g c \<longleftrightarrow> 2 \<le> length c \<and> hd c = last c \<and> back_walk g c \<and> distinct (tl c)"

lemma back_walk_take: "back_walk g (ns @ ms) \<Longrightarrow> back_walk g ns"
proof (induction ns)
  case (Cons n ns)
  then show ?case by (cases ns) auto
qed simp

lemma path_split_at:
  assumes "n \<in> set path"
  shows "\<exists>rest. path = takeWhile (\<lambda>p. p \<noteq> n) path @ n # rest"
proof -
  obtain us vs where "path = us @ n # vs" "n \<notin> set us" using split_list_first [OF assms] by blast
  then show ?thesis by (simp add: takeWhile_neq)
qed

lemma cycle_of_path:
  assumes "back_walk g path" and "distinct path" and n: "n \<in> set path"
    and "n \<in> set (g_dependents g (hd path))"
  shows "is_cycle g (n # takeWhile (\<lambda>p. p \<noteq> n) path @ [n])"
proof -
  let ?pre = "takeWhile (\<lambda>p. p \<noteq> n) path"
  obtain rest where r: "path = ?pre @ n # rest" using path_split_at [OF n] by blast
  have path: "path \<noteq> []" using n by auto
  have "back_walk g (?pre @ [n])" using assms(1) r back_walk_take [of g "?pre @ [n]" rest] by simp
  moreover have "hd (?pre @ [n]) = hd path" using r by (metis hd_append list.sel(1))
  ultimately have "back_walk g (n # ?pre @ [n])"
    using assms(4) by (cases "?pre @ [n]") auto
  moreover have "distinct (?pre @ [n])"
    using assms(2) distinct_takeWhile set_takeWhileD by fastforce
  ultimately show ?thesis by (simp add: is_cycle_def)
qed

definition dependent_edges :: "dgraph \<Rightarrow> (node \<times> node) set" where
  "dependent_edges g = {(a, b). b \<in> set (g_dependents g a)}"

lemma cycles_loop_total:
  assumes fin: "finite U" and closed: "\<And>n. n \<in> U \<Longrightarrow> set (g_dependents g n) \<subseteq> U"
  shows "\<lbrakk>set (path @ ns) \<subseteq> U; distinct path; path \<noteq> []; back_walk g path; set ns \<subseteq> set (g_dependents g (hd path))\<rbrakk>
    \<Longrightarrow> \<exists>cs. cycles_loop g ns path = Some cs \<and> (\<forall>c\<in>set cs. is_cycle g c \<and> set c \<subseteq> U)"
proof (induction "(card (U - set path), length ns)" arbitrary: path ns
    rule: wf_induct_rule [OF wf_lex_prod [OF wf_less_than wf_less_than]])
  case less: 1
  show ?case
  proof (cases ns)
    case (Cons n ms)
    obtain more where more: "cycles_loop g ms path = Some more" "\<forall>c\<in>set more. is_cycle g c \<and> set c \<subseteq> U"
      using less(1) [of path ms] less(2-) Cons by auto
    show ?thesis
    proof (cases "n \<in> set path")
      case True
      let ?c = "n # takeWhile (\<lambda>p. p \<noteq> n) path @ [n]"
      have "is_cycle g ?c"
        by (rule cycle_of_path) (use less(3,5,6) True Cons in auto)
      moreover have "set ?c \<subseteq> U" using less(2) True by (auto dest: set_takeWhileD)
      ultimately show ?thesis using more Cons True by simp
    next
      case False
      have n: "n \<in> U" using less(2) Cons by simp
      have "card (U - set (n # path)) < card (U - set path)"
        using n False fin by (intro psubset_card_mono) auto
      moreover have "back_walk g (n # path)" using less(4-6) Cons by (cases path) auto
      ultimately obtain cs where "cycles_loop g (g_dependents g n) (n # path) = Some cs"
          "\<forall>c\<in>set cs. is_cycle g c \<and> set c \<subseteq> U"
        using less(1) [of "n # path" "g_dependents g n"] less(2,3) False n closed [OF n] by auto
      then show ?thesis using more Cons False by auto
    qed
  qed simp
qed

lemma cycles_loop_quiet:
  "cycles_loop g ns path = Some [] \<Longrightarrow> n \<in> set ns \<Longrightarrow>
    n \<notin> set path \<and> cycles_loop g (g_dependents g n) (n # path) = Some []"
proof (induction ns)
  case (Cons m ms)
  then show ?case by (auto split: Option.bind_splits if_splits)
qed simp

lemma cycles_loop_quiet_walk:
  assumes "(x, y) \<in> (dependent_edges g)\<^sup>*" and "cycles_loop g (g_dependents g x) (x # p) = Some []"
  shows "\<exists>q. cycles_loop g (g_dependents g y) (y # q) = Some [] \<and> x \<in> set (y # q)"
  using assms
proof (induction rule: rtrancl_induct)
  case (step y z)
  then obtain q where q: "cycles_loop g (g_dependents g y) (y # q) = Some []" "x \<in> set (y # q)" by blast
  have "z \<in> set (g_dependents g y)" using step(2) by (simp add: dependent_edges_def)
  from cycles_loop_quiet [OF q(1) this] q(2) show ?case by auto
qed auto

lemma is_cycle_trancl:
  assumes "is_cycle g c"
  shows "(last c, last c) \<in> (dependent_edges g)\<^sup>+"
proof -
  have "(last (m # n # ns), m) \<in> (dependent_edges g)\<^sup>+" if "back_walk g (m # n # ns)" for m n ns
    using that
  proof (induction ns arbitrary: m n)
    case Nil
    then show ?case by (auto simp: dependent_edges_def)
  next
    case (Cons k ns)
    then have "(last (n # k # ns), n) \<in> (dependent_edges g)\<^sup>+" by simp
    moreover have "(n, m) \<in> dependent_edges g" using Cons.prems by (simp add: dependent_edges_def)
    ultimately show ?case by (simp add: trancl_into_trancl)
  qed
  moreover obtain m n ns where "c = m # n # ns"
    using assms unfolding is_cycle_def by (metis One_nat_def Suc_1 Suc_le_length_iff)
  ultimately show ?thesis using assms unfolding is_cycle_def by (metis list.sel(1))
qed

lemma FindCycles_result:
  assumes g: "graph_of targets g"
  shows "\<exists>cs. FindCycles g self = Some cs \<and> distinct cs
    \<and> (\<forall>c\<in>set cs. is_cycle g c \<and> set c \<subseteq> (dependent_edges g)\<^sup>* `` {self})
    \<and> (cs = [] \<longleftrightarrow> (\<nexists>n. (self, n) \<in> (dependent_edges g)\<^sup>* \<and> (n, n) \<in> (dependent_edges g)\<^sup>+))"
proof -
  let ?D = "dependent_edges g" and ?U = "(dependent_edges g)\<^sup>* `` {self}"
  have "set (g_dependents g n) \<subseteq> Some ` set (map fst targets)" for n
  proof (cases n)
    case None
    then show ?thesis using g unfolding graph_of_def by blast
  next
    case (Some t)
    then have "set (g_dependents g n) = Some ` {u. t \<in> set (target_deps targets u)}"
      using g unfolding graph_of_def depends_def by simp
    then show ?thesis using target_deps_key by blast
  qed
  then have "Range ?D \<subseteq> Some ` set (map fst targets)" by (auto simp: dependent_edges_def)
  then have "finite (Range ?D)" by (rule finite_subset) simp
  moreover have "?U \<subseteq> insert self (Range ?D)" by (auto elim: rtranclE)
  ultimately have fin: "finite ?U" by (meson finite_insert finite_subset)
  have closed: "set (g_dependents g n) \<subseteq> ?U" if "n \<in> ?U" for n
    using that by (auto simp: dependent_edges_def intro: rtrancl_into_rtrancl)
  obtain cs where cs: "cycles_loop g (g_dependents g self) [self] = Some cs"
      "\<forall>c\<in>set cs. is_cycle g c \<and> set c \<subseteq> ?U"
    using cycles_loop_total [OF fin closed, of "[self]" "g_dependents g self"] closed [of self] by auto
  have "cs \<noteq> []" if n: "(self, n) \<in> ?D\<^sup>*" "(n, n) \<in> ?D\<^sup>+" for n
  proof
    assume "cs = []"
    then obtain q where q: "cycles_loop g (g_dependents g n) (n # q) = Some []"
      using cycles_loop_quiet_walk [OF n(1)] cs(1) by blast
    obtain m where m: "(n, m) \<in> ?D\<^sup>*" "n \<in> set (g_dependents g m)"
      using n(2) by (metis (no_types, lifting) tranclD2 dependent_edges_def case_prodD mem_Collect_eq)
    from cycles_loop_quiet_walk [OF m(1) q] cycles_loop_quiet m(2) show False by blast
  qed
  moreover have "\<exists>n. (self, n) \<in> ?D\<^sup>* \<and> (n, n) \<in> ?D\<^sup>+" if ne: "cs \<noteq> []"
  proof -
    obtain c where c: "is_cycle g c" "set c \<subseteq> ?U" using cs(2) ne by (cases cs) auto
    then have "c \<noteq> []" by (auto simp: is_cycle_def)
    then have "last c \<in> ?U" using c(2) last_in_set by blast
    then show ?thesis using is_cycle_trancl [OF c(1)] by blast
  qed
  ultimately show ?thesis using cs unfolding FindCycles_def by auto
qed

text \<open>
  C20: in the graph of the targets, \<open>FindCycles\<close> from a node ends; every list it returns is a
  cycle of dependents that starts and ends at the same node and passes through distinct nodes
  reachable from the start; and it returns no list exactly when no cycle is reachable.
\<close>

theorem FindCycles_correct:
  assumes "build_graph targets = Inr g" and d: "distinct (map fst targets)"
  shows "\<exists>cs. FindCycles g self = Some cs \<and> distinct cs
    \<and> (\<forall>c\<in>set cs. is_cycle g c \<and> set c \<subseteq> (dependent_edges g)\<^sup>* `` {self})
    \<and> (cs = [] \<longleftrightarrow> (\<nexists>n. (self, n) \<in> (dependent_edges g)\<^sup>* \<and> (n, n) \<in> (dependent_edges g)\<^sup>+))"
  by (rule FindCycles_result [OF build_graph_graph_of [OF assms]])

theorem FindCycles_correct_witness:
  "\<exists>g cs. build_graph [(''a'', [(''dependencies'', PList [PStr ''a''])])] = Inr g
     \<and> FindCycles g (Some ''a'') = Some cs \<and> distinct cs"
proof -
  obtain g where g: "build_graph [(''a'', [(''dependencies'', PList [PStr ''a''])])] = Inr g"
    by (simp add: build_graph_def link_target_def as_strs_def link_dep_def empty_graph_def)
  then show ?thesis using FindCycles_correct [OF g, of "Some ''a''"] by auto
qed

end
