(* ===== verification/GraphHelpers.thy ===== *)
theory GraphHelpers
  imports NodeDependencies
begin

text \<open>
  The graph functions outside the dependency graph: \<open>DeepDependencyTargets\<close>, \<open>AllTargets\<close> and
  \<open>TopologicallySorted\<close> of \<open>gyp/common.py\<close>, \<open>GetIncludedBuildFiles\<close> of \<open>gyp/input.py\<close>.
\<close>

section \<open>Included build files\<close>

definition included_files :: "targets \<Rightarrow> string \<Rightarrow> string list res" where
  "included_files aux_data build_file_path =
     (case map_of aux_data build_file_path of
        None \<Rightarrow> Inl (KeyErr build_file_path)
      | Some d \<Rightarrow> as_strs (dget_or d ''included'' (PList [])))"

text \<open>
  The recursion of \<open>GetIncludedBuildFiles\<close> is the traversal itself: return when the file is in
  \<open>included\<close>, else append it and recurse into the files it includes.
\<close>

definition GetIncludedBuildFiles :: "string \<Rightarrow> targets \<Rightarrow> string list \<Rightarrow> string list res option" where
  "GetIncludedBuildFiles build_file_path aux_data included =
     dfs (included_files aux_data) [build_file_path] included"

section \<open>Targets below a set of roots\<close>

definition all_deps :: "targets \<Rightarrow> string \<Rightarrow> string list res" where
  "all_deps target_dicts r =
     (case map_of target_dicts r of
        None \<Rightarrow> Inl (KeyErr r)
      | Some spec \<Rightarrow>
          ebind (as_strs (dget_or spec ''dependencies'' (PList []))) (\<lambda>ds.
          ebind (as_strs (dget_or spec ''dependencies_original'' (PList []))) (\<lambda>os. Inr (ds @ os))))"

partial_function (option) pending_loop ::
  "(string list \<Rightarrow> nat) \<Rightarrow> targets \<Rightarrow> string list \<Rightarrow> string list \<Rightarrow> string list res option" where
  "pending_loop pick target_dicts pending dependencies =
     (if pending = [] then Some (Inr dependencies)
      else
        let (r, rest) = pop_any pick pending
        in if r \<in> set dependencies then pending_loop pick target_dicts rest dependencies
           else case all_deps target_dicts r of
                  Inl e \<Rightarrow> Some (Inl e)
                | Inr ds \<Rightarrow> pending_loop pick target_dicts (foldl add_if_new rest ds) (dependencies @ [r]))"

declare pending_loop.simps [code]

definition DeepDependencyTargets ::
  "(string list \<Rightarrow> nat) \<Rightarrow> targets \<Rightarrow> string list \<Rightarrow> string list res option" where
  "DeepDependencyTargets pick target_dicts roots =
     map_option (map_sum id (filter (\<lambda>d. d \<notin> set roots)))
       (pending_loop pick target_dicts (foldl add_if_new [] roots) [])"

definition AllTargets ::
  "(string list \<Rightarrow> nat) \<Rightarrow> string list \<Rightarrow> targets \<Rightarrow> string \<Rightarrow> string list res option" where
  "AllTargets pick target_list target_dicts build_file =
     (let bftargets = BuildFileTargets target_list build_file
      in map_option (map_sum id (\<lambda>deptargets. bftargets @ deptargets))
           (DeepDependencyTargets pick target_dicts bftargets))"

section \<open>Topological sorting\<close>

record 'a sort_state =
  visited :: "'a list"
  visiting :: "'a list"
  ordered_nodes :: "'a list"

partial_function (option) visit_all ::
  "('a \<Rightarrow> 'a list) \<Rightarrow> 'a list \<Rightarrow> 'a sort_state \<Rightarrow> 'a sort_state res option" where
  "visit_all get_edges nodes st =
     (case nodes of
        [] \<Rightarrow> Some (Inr st)
      | node # rest \<Rightarrow>
          if node \<in> set (visiting st) then Some (Inl CircularErr)
          else if node \<in> set (visited st) then visit_all get_edges rest st
          else Option.bind
            (visit_all get_edges (get_edges node)
               (st\<lparr>visited := node # visited st, visiting := node # visiting st\<rparr>))
            (\<lambda>r. case r of
               Inl e \<Rightarrow> Some (Inl e)
             | Inr st' \<Rightarrow>
                 visit_all get_edges rest
                   (st'\<lparr>visiting := remove1 node (visiting st'), ordered_nodes := node # ordered_nodes st'\<rparr>)))"

declare visit_all.simps [code]

definition TopologicallySorted :: "('a::linorder) list \<Rightarrow> ('a \<Rightarrow> 'a list) \<Rightarrow> 'a list res option" where
  "TopologicallySorted graph get_edges =
     map_option (map_sum id ordered_nodes)
       (visit_all get_edges (sort graph) \<lparr>visited = [], visiting = [], ordered_nodes = []\<rparr>)"

section \<open>What is included\<close>

text \<open>
  Collecting the included build files of a file ends even when files include each other;
  the result lists the file first and every file reached through \<open>included\<close> exactly once, and an
  error is the one of a reached file.
\<close>

theorem GetIncludedBuildFiles_correct:
  "\<exists>r. GetIncludedBuildFiles f aux_data [] = Some r
    \<and> (case r of
         Inl e \<Rightarrow> \<exists>z\<in>reach (included_files aux_data) [f]. included_files aux_data z = Inl e
       | Inr included \<Rightarrow> included \<noteq> [] \<and> hd included = f \<and> distinct included
           \<and> set included = reach (included_files aux_data) [f])"
proof -
  let ?s = "included_files aux_data"
  have "finite (edges ?s)"
    by (rule finite_succ_edges [of _ "fst ` set aux_data"])
      (auto simp: included_files_def split: option.splits dest!: map_of_SomeD intro: rev_image_eqI)
  then obtain r where r: "dfs ?s [f] [] = Some r" using dfs_total_finite by blast
  show ?thesis
  proof (cases r)
    case (Inl e)
    then show ?thesis using r dfs_Inl [of ?s "[f]" "[]" e] by (auto simp: GetIncludedBuildFiles_def)
  next
    case (Inr fs)
    note found = dfs_found [of ?s "[f]" fs, OF r [unfolded Inr]]
    obtain ys where "?s f = Inr ys" using found(3) [of f] by (auto simp: reach_def)
    then obtain a where "dfs ?s ys [f] = Some (Inr a)" "a = fs"
      using r Inr by (auto split: Option.bind_splits sum.splits)
    then have "hd fs = f" "fs \<noteq> []" using dfs_Inr [of ?s ys "[f]" fs] by auto
    then show ?thesis using r Inr found by (auto simp: GetIncludedBuildFiles_def)
  qed
qed

section \<open>Deep dependency targets\<close>

definition pending_inv :: "targets \<Rightarrow> string list \<Rightarrow> string list \<Rightarrow> string list \<Rightarrow> bool" where
  "pending_inv dicts roots pending deps \<longleftrightarrow>
     set (pending @ deps) \<subseteq> reach (all_deps dicts) roots \<and> set roots \<subseteq> set (pending @ deps) \<and> distinct deps
     \<and> (\<forall>d\<in>set deps. \<exists>ys. all_deps dicts d = Inr ys \<and> set ys \<subseteq> set (pending @ deps))"

lemma finite_all_deps: "finite (reach (all_deps dicts) roots)"
  by (rule finite_reach [OF finite_succ_edges [of _ "fst ` set dicts"]])
    (auto simp: all_deps_def split: option.splits dest!: map_of_SomeD intro: rev_image_eqI)

lemma pending_loop_ends:
  "pending_inv dicts roots pending deps \<Longrightarrow>
    \<exists>r. pending_loop pick dicts pending deps = Some r
      \<and> (case r of Inl e \<Rightarrow> \<exists>z\<in>reach (all_deps dicts) roots. all_deps dicts z = Inl e
         | Inr ds \<Rightarrow> pending_inv dicts roots [] ds)"
proof (induction "(card (reach (all_deps dicts) roots - set deps), length pending)"
    arbitrary: deps pending rule: wf_induct_rule [OF wf_lex_prod [OF wf_less_than wf_less_than]])
  case less: 1
  show ?case
  proof (cases "pending = []")
    case True
    then show ?thesis using less(2) by (subst pending_loop.simps) simp
  next
    case False
    obtain x rest where pop: "pop_any pick pending = (x, rest)" by (cases "pop_any pick pending")
    then obtain us vs where z: "pending = us @ x # vs" "rest = us @ vs"
      using pop_any_split [OF False] by blast
    have x: "x \<in> reach (all_deps dicts) roots" using less(2) z unfolding pending_inv_def by auto
    show ?thesis
    proof (cases "x \<in> set deps")
      case True
      have "pending_inv dicts roots rest deps"
      proof -
        have "set (pending @ deps) = set (rest @ deps)" using z True by auto
        then show ?thesis using less(2) unfolding pending_inv_def by simp
      qed
      moreover have "length rest < length pending" using z by simp
      ultimately show ?thesis
        using less(1) [of deps rest] True False pop by (subst pending_loop.simps) simp
    next
      case new: False
      show ?thesis
      proof (cases "all_deps dicts x")
        case (Inl e)
        then show ?thesis using new False pop x by (subst pending_loop.simps) auto
      next
        case (Inr ys)
        let ?p = "foldl add_if_new rest ys" and ?d = "deps @ [x]"
        have sets: "set (?p @ ?d) = set (pending @ deps) \<union> set ys"
          using z by (auto simp: foldl_add_if_new_set)
        have "set ys \<subseteq> reach (all_deps dicts) roots"
          using x Inr by (auto simp: reach_def edges_def intro: rtrancl_into_rtrancl)
        then have "pending_inv dicts roots ?p ?d"
          using less(2) new Inr unfolding pending_inv_def sets by fastforce
        moreover have "card (reach (all_deps dicts) roots - set ?d) < card (reach (all_deps dicts) roots - set deps)"
          using x new finite_all_deps by (intro psubset_card_mono) auto
        ultimately show ?thesis
          using less(1) [of ?d ?p] new False pop Inr by (subst pending_loop.simps) simp
      qed
    qed
  qed
qed

text \<open>
  for every order in which the pending set yields its elements, \<open>DeepDependencyTargets\<close>
  ends and returns exactly the targets reached from the roots over \<open>dependencies\<close> and
  \<open>dependencies_original\<close>, roots excluded and each once; it fails only on a reached target that
  is unknown or unreadable.
\<close>

theorem DeepDependencyTargets_correct:
  "\<exists>r. DeepDependencyTargets pick dicts roots = Some r
    \<and> (case r of
         Inl e \<Rightarrow> \<exists>z\<in>reach (all_deps dicts) roots. all_deps dicts z = Inl e
       | Inr ds \<Rightarrow> distinct ds \<and> set ds = reach (all_deps dicts) roots - set roots)"
proof -
  have "pending_inv dicts roots (foldl add_if_new [] roots) []"
    by (simp add: pending_inv_def foldl_add_if_new_set reach_start)
  then obtain r where r: "pending_loop pick dicts (foldl add_if_new [] roots) [] = Some r"
      "case r of Inl e \<Rightarrow> \<exists>z\<in>reach (all_deps dicts) roots. all_deps dicts z = Inl e
         | Inr ds \<Rightarrow> pending_inv dicts roots [] ds"
    using pending_loop_ends by blast
  have "set ds = reach (all_deps dicts) roots" if "r = Inr ds" for ds
  proof -
    have inv: "set ds \<subseteq> reach (all_deps dicts) roots" "set roots \<subseteq> set ds"
        "\<forall>d\<in>set ds. \<exists>ys. all_deps dicts d = Inr ys \<and> set ys \<subseteq> set ds"
      using r(2) that unfolding pending_inv_def by auto
    have "y \<in> set ds" if "(x, y) \<in> (edges (all_deps dicts))\<^sup>*" "x \<in> set ds" for x y
      using that inv(3) by (induction rule: rtrancl_induct) (fastforce simp: edges_def)+
    then show ?thesis using inv unfolding reach_def by blast
  qed
  moreover have "distinct ds" if "r = Inr ds" for ds
    using r(2) that by (simp add: pending_inv_def)
  ultimately show ?thesis
    using r unfolding DeepDependencyTargets_def by (cases r) auto
qed

section \<open>Topological sorting\<close>

lemma visit_all_simps [simp]:
  "visit_all ge [] st = Some (Inr st)"
  "visit_all ge (n # ns) st =
     (if n \<in> set (visiting st) then Some (Inl CircularErr)
      else if n \<in> set (visited st) then visit_all ge ns st
      else Option.bind
        (visit_all ge (ge n) (st\<lparr>visited := n # visited st, visiting := n # visiting st\<rparr>))
        (\<lambda>r. case r of
           Inl e \<Rightarrow> Some (Inl e)
         | Inr st' \<Rightarrow>
             visit_all ge ns (st'\<lparr>visiting := remove1 n (visiting st'), ordered_nodes := n # ordered_nodes st'\<rparr>)))"
  by (subst visit_all.simps, simp)+

definition arcs :: "('a \<Rightarrow> 'a list) \<Rightarrow> ('a \<times> 'a) set" where
  "arcs ge = {(x, y). y \<in> set (ge x)}"

text \<open>Between two visits: what is ordered is closed and in order, the rest visited is on the stack.\<close>

definition sort_inv :: "('a \<Rightarrow> 'a list) \<Rightarrow> 'a sort_state \<Rightarrow> bool" where
  "sort_inv ge st \<longleftrightarrow>
     set (visited st) = set (visiting st) \<union> set (ordered_nodes st)
     \<and> distinct (visiting st @ ordered_nodes st)
     \<and> topo (\<lambda>n. set (ge n)) (rev (ordered_nodes st))"

definition stack_ok :: "('a \<Rightarrow> 'a list) \<Rightarrow> 'a list \<Rightarrow> 'a list \<Rightarrow> bool" where
  "stack_ok ge stack ns \<longleftrightarrow>
     (stack \<noteq> [] \<longrightarrow> set ns \<subseteq> set (ge (hd stack)) \<and> (\<forall>p\<in>set stack. (p, hd stack) \<in> (arcs ge)\<^sup>*))"

definition visit_result :: "('a \<Rightarrow> 'a list) \<Rightarrow> 'a set \<Rightarrow> 'a list \<Rightarrow> 'a sort_state \<Rightarrow> 'a sort_state res \<Rightarrow> bool" where
  "visit_result ge U ns st r \<longleftrightarrow>
     (case r of
        Inl e \<Rightarrow> e = CircularErr \<and> (\<exists>x\<in>U. (x, x) \<in> (arcs ge)\<^sup>+)
      | Inr st' \<Rightarrow> sort_inv ge st' \<and> visiting st' = visiting st \<and> set (visited st) \<subseteq> set (visited st')
          \<and> set (visited st') \<subseteq> U
          \<and> set ns \<subseteq> set (ordered_nodes st'))"

lemma visit_all_ends:
  assumes fin: "finite U" and closed: "\<And>n. n \<in> U \<Longrightarrow> set (ge n) \<subseteq> U"
  shows "\<lbrakk>sort_inv ge st; stack_ok ge (visiting st) ns; set ns \<subseteq> U; set (visited st) \<subseteq> U\<rbrakk> \<Longrightarrow>
    \<exists>r. visit_all ge ns st = Some r \<and> visit_result ge U ns st r"
proof (induction "(card (U - set (visited st)), length ns)" arbitrary: st ns
    rule: wf_induct_rule [OF wf_lex_prod [OF wf_less_than wf_less_than]])
  case less: 1
  show ?case
  proof (cases ns)
    case Nil
    then show ?thesis using less(2,5) by (simp add: visit_result_def)
  next
    case (Cons n ms)
    have n: "n \<in> U" and ms: "set ms \<subseteq> U" "stack_ok ge (visiting st) ms"
      using less(3,4) Cons by (auto simp: stack_ok_def)
    consider (cycle) "n \<in> set (visiting st)"
      | (old) "n \<notin> set (visiting st)" "n \<in> set (visited st)" "n \<in> set (ordered_nodes st)"
      | (new) "n \<notin> set (visiting st)" "n \<notin> set (visited st)"
      using less(2) unfolding sort_inv_def by blast
    then show ?thesis
    proof cases
      case cycle
      then have "(n, hd (visiting st)) \<in> (arcs ge)\<^sup>*" "(hd (visiting st), n) \<in> arcs ge"
        using less(3) Cons by (auto simp: stack_ok_def arcs_def)
      then have "(n, n) \<in> (arcs ge)\<^sup>+" by (rule rtrancl_into_trancl1)
      then show ?thesis using cycle n Cons by (auto simp: visit_result_def)
    next
      case old
      obtain r where "visit_all ge ms st = Some r" "visit_result ge U ms st r"
        using less(1) [of st ms] less(2,5) ms Cons by auto
      moreover have "visit_result ge U ms st r \<Longrightarrow> visit_result ge U ns st r"
      proof (cases r)
        case (Inr st')
        assume "visit_result ge U ms st r"
        then have st': "sort_inv ge st'" "visiting st' = visiting st" "set (visited st) \<subseteq> set (visited st')"
            "set (visited st') \<subseteq> U" "set ms \<subseteq> set (ordered_nodes st')"
          using Inr by (auto simp: visit_result_def)
        then have "n \<in> set (ordered_nodes st')" using old unfolding sort_inv_def by auto
        then show ?thesis using st' Inr Cons by (simp add: visit_result_def)
      qed (simp add: visit_result_def)
      ultimately show ?thesis using old Cons by simp
    next
      case new
      let ?st = "st\<lparr>visited := n # visited st, visiting := n # visiting st\<rparr>"
      have inv1: "sort_inv ge ?st" using less(2) new unfolding sort_inv_def by auto
      have "(p, n) \<in> (arcs ge)\<^sup>*" if "p \<in> set (visiting st)" for p
        using that less(3) Cons by (auto simp: stack_ok_def arcs_def intro: rtrancl_into_rtrancl)
      then have "stack_ok ge (visiting ?st) (ge n)" by (auto simp: stack_ok_def)
      moreover have "card (U - set (visited ?st)) < card (U - set (visited st))"
        using n new fin by (intro psubset_card_mono) auto
      ultimately obtain r1 where r1: "visit_all ge (ge n) ?st = Some r1" "visit_result ge U (ge n) ?st r1"
        using less(1) [of ?st "ge n"] inv1 closed [OF n] less(5) n by auto
      show ?thesis
      proof (cases r1)
        case (Inl e)
        then show ?thesis using r1 new Cons by (auto simp: visit_result_def)
      next
        case (Inr s1)
        let ?s2 = "s1\<lparr>visiting := remove1 n (visiting s1), ordered_nodes := n # ordered_nodes s1\<rparr>"
        have s1: "sort_inv ge s1" "visiting s1 = n # visiting st" "set (n # visited st) \<subseteq> set (visited s1)"
            "set (visited s1) \<subseteq> U" "set (ge n) \<subseteq> set (ordered_nodes s1)"
          using r1(2) Inr by (simp_all add: visit_result_def)
        have inv2: "sort_inv ge ?s2"
          using s1 unfolding sort_inv_def by (auto simp: topo_snoc)
        have "card (U - set (visited ?s2)) < card (U - set (visited st))"
          using n new fin s1(3,4) by (intro psubset_card_mono) auto
        then obtain r where r: "visit_all ge ms ?s2 = Some r" "visit_result ge U ms ?s2 r"
          using less(1) [of ?s2 ms] inv2 ms s1 by auto
        have "visit_result ge U ns st r"
        proof (cases r)
          case (Inr s3)
          then have s3: "sort_inv ge s3" "visiting s3 = visiting st" "set (visited s1) \<subseteq> set (visited s3)"
              "set (visited s3) \<subseteq> U" "set ms \<subseteq> set (ordered_nodes s3)"
            using r(2) s1(2) by (simp_all add: visit_result_def)
          have "n \<in> set (visited s3)" using s1(3) s3(3) by auto
          then have "n \<in> set (ordered_nodes s3)" using s3(1,2) new(1) unfolding sort_inv_def by auto
          then show ?thesis using s3 s1(3) Inr Cons by (auto simp: visit_result_def)
        qed (use r in \<open>simp add: visit_result_def\<close>)
        then show ?thesis using r(1) r1(1) Inr new Cons by simp
      qed
    qed
  qed
qed

lemma topo_rev_closed:
  assumes "topo (\<lambda>n. set (ge n)) (rev ns)" and "(x, y) \<in> (arcs ge)\<^sup>*" and "x \<in> set ns"
  shows "y \<in> set ns"
  using assms(2,3)
proof (induction rule: rtrancl_induct)
  case (step y z)
  then obtain us vs where "rev ns = us @ y # vs" by (metis set_rev split_list)
  then have "set (ge y) \<subseteq> set (rev ns)" using assms(1) unfolding topo_def by fastforce
  then show ?case using step(2) by (auto simp: arcs_def)
qed simp

lemma topo_rev_no_cycle:
  assumes t: "topo (\<lambda>n. set (ge n)) (rev ns)" and d: "distinct ns" and x: "x \<in> set ns"
  shows "(x, x) \<notin> (arcs ge)\<^sup>+"
proof
  assume c: "(x, x) \<in> (arcs ge)\<^sup>+"
  let ?R = "{(d, x). x \<in> set (rev ns) \<and> d \<in> set (ge x)}"
  have "(z, y) \<in> ?R\<^sup>+" if "(y, z) \<in> (arcs ge)\<^sup>+" "y \<in> set ns" for y z
    using that
  proof (induction rule: trancl_induct)
    case (base z)
    then show ?case by (auto simp: arcs_def)
  next
    case (step z w)
    have "z \<in> set ns" using topo_rev_closed [OF t] step(1,4) by (meson trancl_into_rtrancl)
    then have "(w, z) \<in> ?R" using step(2) by (simp add: arcs_def)
    then show ?case using step(3) step(4) by (meson trancl_into_trancl2)
  qed
  then have "(x, x) \<in> ?R\<^sup>+" using c x by blast
  moreover have "acyclic ?R" by (rule topo_acyclic [OF t]) (simp add: d)
  ultimately show False by (simp add: acyclic_def)
qed

text \<open>
  On a graph with finitely many reachable nodes \<open>TopologicallySorted\<close> ends; it raises
  \<open>CycleError\<close> exactly when a cycle is reachable, and otherwise returns every reachable node
  once, each before the nodes it has edges to.
\<close>

theorem TopologicallySorted_correct:
  assumes fin: "finite ((arcs ge)\<^sup>* `` set graph)"
  shows "if \<exists>x\<in>(arcs ge)\<^sup>* `` set graph. (x, x) \<in> (arcs ge)\<^sup>+
    then TopologicallySorted graph ge = Some (Inl CircularErr)
    else \<exists>ns. TopologicallySorted graph ge = Some (Inr ns) \<and> distinct ns
      \<and> set ns = (arcs ge)\<^sup>* `` set graph
      \<and> (\<forall>ys n zs. ns = ys @ n # zs \<longrightarrow> set (ge n) \<subseteq> set zs)"
proof -
  let ?U = "(arcs ge)\<^sup>* `` set graph" and ?st = "\<lparr>visited = [], visiting = [], ordered_nodes = []\<rparr>"
  have closed: "set (ge n) \<subseteq> ?U" if "n \<in> ?U" for n
    using that by (auto simp: arcs_def intro: rtrancl_into_rtrancl)
  have "set (sort graph) \<subseteq> ?U" by auto
  then obtain r where r: "visit_all ge (sort graph) ?st = Some r" "visit_result ge ?U (sort graph) ?st r"
    using visit_all_ends [of ?U ge ?st "sort graph", OF fin closed] by (auto simp: sort_inv_def stack_ok_def)
  show ?thesis
  proof (cases r)
    case (Inl e)
    then show ?thesis using r by (auto simp: visit_result_def TopologicallySorted_def)
  next
    case (Inr st)
    let ?ns = "ordered_nodes st"
    have st: "visiting st = []" "sort_inv ge st" "set graph \<subseteq> set ?ns" "set (visited st) \<subseteq> ?U"
      using r(2) Inr by (simp_all add: visit_result_def)
    then have topo: "topo (\<lambda>n. set (ge n)) (rev ?ns)" and d: "distinct ?ns" and vis: "set (visited st) = set ?ns"
      by (simp_all add: sort_inv_def)
    have "?U \<subseteq> set ?ns" using topo_rev_closed [OF topo] st(3) by blast
    then have eq: "set ?ns = ?U" using st(4) vis by blast
    have "set (ge n) \<subseteq> set zs" if "?ns = ys @ n # zs" for ys n zs
      using topo that unfolding topo_def by (metis append.assoc append_Cons append_Nil rev.simps(2) rev_append set_rev)
    then show ?thesis
      using r(1) Inr d eq topo_rev_no_cycle [OF topo d] by (auto simp: TopologicallySorted_def)
  qed
qed

theorem TopologicallySorted_correct_witness:
  "\<exists>ns. TopologicallySorted [''a'', ''b'', ''c''] (\<lambda>n. if n = ''a'' then [''b'', ''c''] else if n = ''c'' then [''b''] else [])
     = Some (Inr ns) \<and> distinct ns"
proof -
  let ?ge = "\<lambda>n. if n = ''a'' then [''b'', ''c''] else if n = ''c'' then [''b''] else []"
  have arcs: "arcs ?ge = {(''a'', ''b''), (''a'', ''c''), (''c'', ''b'')}"
    by (auto simp: arcs_def split: if_splits)
  have "acyclic (arcs ?ge)" unfolding arcs by (simp add: acyclic_insert) (simp add: rtrancl_insert acyclic_def)
  then have no: "(x, x) \<notin> (arcs ?ge)\<^sup>+" for x by (simp add: acyclic_def)
  have "(arcs ?ge)\<^sup>* `` set [''a'', ''b'', ''c''] \<subseteq> set [''a'', ''b'', ''c''] \<union> Range (arcs ?ge)"
    by (auto elim: rtranclE)
  then have "finite ((arcs ?ge)\<^sup>* `` set [''a'', ''b'', ''c''])"
    by (rule finite_subset) (simp add: arcs finite_Range)
  from TopologicallySorted_correct [OF this] no show ?thesis by auto
qed

end
