(* ===== verification/OrderedDicts.thy ===== *)
theory OrderedDicts
  imports OrderedSets
begin

text \<open>
  \<open>OrderedDict\<close> of \<open>gyp/ordered_dict.py\<close>: a dictionary with the linked ring of its keys. The
  ring with \<open>__map\<close> has the shape of \<open>OrderedSet\<close> and is kept in \<open>od_links\<close>; \<open>od_dict\<close> is the
  inherited dictionary, whose own order is never read. Keys are strings.
\<close>

section \<open>The interface\<close>

locale ordered_map =
  fixes empty :: 'm
    and set_item :: "string \<Rightarrow> 'v \<Rightarrow> 'm \<Rightarrow> 'm"
    and del_item :: "string \<Rightarrow> 'm \<Rightarrow> 'm res"
    and get_item :: "string \<Rightarrow> 'm \<Rightarrow> 'v res"
    and items :: "'m \<Rightarrow> (string \<times> 'v) list option"
    and invar :: "'m \<Rightarrow> bool"
  assumes invar_empty: "invar empty"
    and items_empty: "items empty = Some []"
    and items_total: "invar m \<Longrightarrow> \<exists>xs. items m = Some xs \<and> distinct (map fst xs)"
    and set_spec: "invar m \<Longrightarrow> items m = Some xs \<Longrightarrow>
      invar (set_item k v m) \<and> items (set_item k v m) = Some (AList.update k v xs)"
    and del_spec: "invar m \<Longrightarrow> items m = Some xs \<Longrightarrow>
      (if k \<in> fst ` set xs
       then \<exists>m'. del_item k m = Inr m' \<and> invar m' \<and> items m' = Some (AList.delete k xs)
       else del_item k m = Inl (KeyErr k))"
    and get_spec: "invar m \<Longrightarrow> items m = Some xs \<Longrightarrow>
      get_item k m = (case map_of xs k of None \<Rightarrow> Inl (KeyErr k) | Some v \<Rightarrow> Inr v)"
begin

lemma get_set: "invar m \<Longrightarrow> get_item k' (set_item k v m) = (if k' = k then Inr v else get_item k' m)"
proof -
  assume m: "invar m"
  then obtain xs where xs: "items m = Some xs" using items_total by blast
  show ?thesis using get_spec [OF m xs] get_spec [of "set_item k v m"] set_spec [OF m xs]
    by (auto simp: update_conv)
qed

lemma set_all_items:
  "invar m \<Longrightarrow> items m = Some xs \<Longrightarrow>
    invar (foldl (\<lambda>m p. set_item (fst p) (snd p) m) m ps)
    \<and> items (foldl (\<lambda>m p. set_item (fst p) (snd p) m) m ps)
        = Some (foldl (\<lambda>xs p. AList.update (fst p) (snd p) xs) xs ps)"
proof (induction ps arbitrary: m xs)
  case (Cons p ps)
  then show ?case using set_spec [OF Cons.prems, of "fst p" "snd p"] by simp
qed simp

end

section \<open>The implementation\<close>

record 'v odict =
  od_links :: "string oset"
  od_dict :: "(string \<times> 'v) list"

definition od_empty :: "'v odict" where
  "od_empty = \<lparr>od_links = oset_empty, od_dict = []\<rparr>"

definition od_has :: "string \<Rightarrow> 'v odict \<Rightarrow> bool" where
  "od_has key d \<longleftrightarrow> map_of (od_dict d) key \<noteq> None"

definition od_getitem :: "string \<Rightarrow> 'v odict \<Rightarrow> 'v res" where
  "od_getitem key d = (case map_of (od_dict d) key of None \<Rightarrow> Inl (KeyErr key) | Some v \<Rightarrow> Inr v)"

definition link_new :: "string \<Rightarrow> string oset \<Rightarrow> string oset" where
  "link_new key s =
     s\<lparr>os_heap := link_last (os_fresh s) key (os_heap s),
       os_fresh := Suc (os_fresh s),
       os_map := AList.update key (os_fresh s) (os_map s)\<rparr>"

definition od_setitem :: "string \<Rightarrow> 'v \<Rightarrow> 'v odict \<Rightarrow> 'v odict" where
  "od_setitem key v d =
     d\<lparr>od_links := (if \<not> od_has key d then link_new key (od_links d) else od_links d),
       od_dict := AList.update key v (od_dict d)\<rparr>"

definition od_delitem :: "string \<Rightarrow> 'v odict \<Rightarrow> 'v odict res" where
  "od_delitem key d =
     (if \<not> od_has key d then Inl (KeyErr key)
      else case map_of (os_map (od_links d)) key of
             None \<Rightarrow> Inl (KeyErr key)
           | Some link \<Rightarrow>
               Inr (d\<lparr>od_dict := AList.delete key (od_dict d),
                      od_links := (od_links d)\<lparr>os_map := AList.delete key (os_map (od_links d)),
                                               os_heap := unlink link (os_heap (od_links d))\<rparr>\<rparr>))"

definition od_iter :: "'v odict \<Rightarrow> string list option" where
  "od_iter d = oset_iter (od_links d)"

definition od_reversed :: "'v odict \<Rightarrow> string list option" where
  "od_reversed d = oset_reversed (od_links d)"

definition od_clear :: "'v odict \<Rightarrow> 'v odict" where
  "od_clear d = d\<lparr>od_links := (od_links d)\<lparr>os_heap := sentinel_only, os_map := []\<rparr>, od_dict := []\<rparr>"

text \<open>\<open>popitem\<close> unlinks the last or the first cell with its own pointer updates.\<close>

definition od_popitem :: "bool \<Rightarrow> 'v odict \<Rightarrow> ((string \<times> 'v) \<times> 'v odict) res" where
  "od_popitem last_item d =
     (if od_dict d = [] then Inl (KeyErr ''dictionary is empty'')
      else
        let h = os_heap (od_links d);
            link = (if last_item then cell_prev (h 0) else cell_next (h 0));
            h' = (if last_item
                  then let link_prev = cell_prev (h link) in set_prev 0 link_prev (set_next link_prev 0 h)
                  else let link_next = cell_next (h link) in set_prev link_next 0 (set_next 0 link_next h));
            key = the (cell_key (h link))
        in case map_of (od_dict d) key of
             None \<Rightarrow> Inl (KeyErr key)
           | Some v \<Rightarrow>
               Inr ((key, v),
                 d\<lparr>od_links := (od_links d)\<lparr>os_heap := h', os_map := AList.delete key (os_map (od_links d))\<rparr>,
                   od_dict := AList.delete key (od_dict d)\<rparr>))"

definition od_items :: "'v odict \<Rightarrow> (string \<times> 'v) list option" where
  "od_items d = map_option (map (\<lambda>k. (k, the (map_of (od_dict d) k)))) (od_iter d)"

definition od_values :: "'v odict \<Rightarrow> 'v list option" where
  "od_values d = map_option (map snd) (od_items d)"

definition od_update :: "(string \<times> 'v) list \<Rightarrow> 'v odict \<Rightarrow> 'v odict" where
  "od_update other d = foldl (\<lambda>d p. od_setitem (fst p) (snd p) d) d other"

definition od_pop :: "string \<Rightarrow> 'v option \<Rightarrow> 'v odict \<Rightarrow> ('v \<times> 'v odict) res" where
  "od_pop key dflt d =
     (if od_has key d
      then ebind (od_getitem key d) (\<lambda>v. ebind (od_delitem key d) (\<lambda>d'. Inr (v, d')))
      else case dflt of None \<Rightarrow> Inl (KeyErr key) | Some v \<Rightarrow> Inr (v, d))"

definition od_setdefault :: "string \<Rightarrow> 'v \<Rightarrow> 'v odict \<Rightarrow> 'v \<times> 'v odict" where
  "od_setdefault key dflt d =
     (case map_of (od_dict d) key of
        Some v \<Rightarrow> (v, d)
      | None \<Rightarrow> (dflt, od_setitem key dflt d))"

definition od_fromkeys :: "string list \<Rightarrow> 'v \<Rightarrow> 'v odict" where
  "od_fromkeys iterable v = foldl (\<lambda>d key. od_setitem key v d) od_empty iterable"

definition od_copy :: "'v odict \<Rightarrow> 'v odict option" where
  "od_copy d = map_option (\<lambda>ps. od_update ps od_empty) (od_items d)"

definition od_eq :: "'v odict \<Rightarrow> 'v odict \<Rightarrow> bool" where
  "od_eq d e \<longleftrightarrow> length (od_dict d) = length (od_dict e) \<and> od_items d = od_items e"

section \<open>Representation\<close>

definition od_rep :: "'v odict \<Rightarrow> nat list \<Rightarrow> (string \<times> 'v) list \<Rightarrow> bool" where
  "od_rep d as xs \<longleftrightarrow>
     oset_rep (od_links d) as (map fst xs) \<and> distinct (map fst (od_dict d))
     \<and> map_of (od_dict d) = map_of xs"

definition od_invar :: "'v odict \<Rightarrow> bool" where
  "od_invar d \<longleftrightarrow> (\<exists>as xs. od_rep d as xs)"

lemma od_rep_distinct: "od_rep d as xs \<Longrightarrow> distinct (map fst xs)"
  by (simp add: od_rep_def oset_rep_def)

lemma od_rep_has: "od_rep d as xs \<Longrightarrow> od_has k d \<longleftrightarrow> k \<in> fst ` set xs"
  by (simp add: od_rep_def od_has_def map_of_eq_None_iff)

lemma od_rep_iter: "od_rep d as xs \<Longrightarrow> od_iter d = Some (map fst xs)"
  using oset_rep_iter by (auto simp: od_rep_def od_iter_def)

lemma od_rep_items: "od_rep d as xs \<Longrightarrow> od_items d = Some xs"
proof -
  assume r: "od_rep d as xs"
  have "map (\<lambda>k. (k, the (map_of xs k))) (map fst xs) = xs"
    using od_rep_distinct [OF r] by (auto intro!: map_idI simp: comp_def map_of_eq_Some_iff)
  then show ?thesis using od_rep_iter [OF r] r by (simp add: od_items_def od_rep_def)
qed

lemma od_rep_len: "od_rep d as xs \<Longrightarrow> length (od_dict d) = length xs"
proof -
  assume r: "od_rep d as xs"
  then have "set (map fst (od_dict d)) = set (map fst xs)" "distinct (map fst (od_dict d))"
    unfolding od_rep_def by (metis dom_map_of_conv_image_fst list.set_map, simp)
  then show ?thesis using od_rep_distinct [OF r] by (metis distinct_card length_map)
qed

lemma od_rep_empty: "od_rep od_empty [] []"
  using oset_rep_empty by (simp add: od_rep_def od_empty_def)

lemma od_rep_setitem:
  assumes r: "od_rep d as xs"
  shows "\<exists>as'. od_rep (od_setitem k v d) as' (AList.update k v xs)"
proof (cases "k \<in> fst ` set xs")
  case True
  have "map fst (AList.update k v xs) = map fst xs" using True by (induction xs) auto
  then have "od_rep (od_setitem k v d) as (AList.update k v xs)"
    using r True od_rep_has [OF r, of k]
    by (simp add: od_rep_def od_setitem_def distinct_update update_conv')
  then show ?thesis by blast
next
  case False
  then have k: "k \<notin> set (map fst xs)" by simp
  have rep: "oset_rep (od_links d) as (map fst xs)" using r by (simp add: od_rep_def)
  have "link_new k (od_links d) = oset_add k (od_links d)"
    using oset_rep_contains [OF rep] k by (simp add: link_new_def oset_add_def)
  moreover have "AList.update k v xs = xs @ [(k, v)]" by (rule update_new_key [OF False])
  moreover have "map_of (xs @ [(k, v)]) = (map_of xs)(k \<mapsto> v)"
    using update_conv' [of k v xs] update_new_key [OF False, of v] by simp
  ultimately have "od_rep (od_setitem k v d) (as @ [os_fresh (od_links d)]) (AList.update k v xs)"
    using oset_rep_add [OF rep k] r False od_rep_has [OF r, of k]
    by (simp add: od_rep_def od_setitem_def distinct_update update_conv' del: map_of_append)
  then show ?thesis by blast
qed

lemma map_fst_delete: "distinct (map fst xs) \<Longrightarrow> map fst (AList.delete k xs) = remove1 k (map fst xs)"
proof (induction xs)
  case (Cons p xs)
  then show ?case by (cases p) (auto simp: delete_idem)
qed simp

lemma od_rep_delitem:
  assumes r: "od_rep d as xs" and k: "k \<in> fst ` set xs"
  shows "\<exists>d' as'. od_delitem k d = Inr d' \<and> od_rep d' as' (AList.delete k xs)"
proof -
  have rep: "oset_rep (od_links d) as (map fst xs)" using r by (simp add: od_rep_def)
  obtain a where a: "map_of (os_map (od_links d)) k = Some a"
    using oset_rep_contains [OF rep, of k] k by (auto simp: oset_contains_def)
  obtain as' where "oset_rep (oset_discard k (od_links d)) as' (remove1 k (map fst xs))"
    using oset_rep_discard [OF rep] k by auto
  moreover have "(od_links d)\<lparr>os_map := AList.delete k (os_map (od_links d)), os_heap := unlink a (os_heap (od_links d))\<rparr>
      = oset_discard k (od_links d)"
    using a by (simp add: oset_discard_def)
  moreover have "map_of (AList.delete k (od_dict d)) = map_of (AList.delete k xs)"
    using r by (simp add: delete_conv' od_rep_def)
  ultimately show ?thesis
    using a k od_rep_has [OF r, of k] r od_rep_distinct [OF r]
    by (auto simp: od_delitem_def od_rep_def map_fst_delete distinct_delete)
qed

lemma od_rep_clear:
  assumes "od_rep d as xs"
  shows "od_rep (od_clear d) [] []"
  using assms by (simp add: od_rep_def od_clear_def oset_rep_def)

text \<open>The pointer updates of \<open>popitem\<close> are an unlinking of the end cell.\<close>

lemma popitem_unlink:
  assumes "chain h 0 as 0" and "as \<noteq> []"
  shows "set_prev 0 (cell_prev (h (last as))) (set_next (cell_prev (h (last as))) 0 h) = unlink (last as) h"
    and "set_prev (cell_next (h (hd as))) 0 (set_next 0 (cell_next (h (hd as))) h) = unlink (hd as) h"
    and "cell_prev (h 0) = last as" and "cell_next (h 0) = hd as"
proof -
  obtain bs where "as = bs @ [last as]" using assms(2) by (metis append_butlast_last_id)
  then have "cell_next (h (last as)) = 0" using assms(1) by (metis chain.simps(1) chain_append)
  then show "set_prev 0 (cell_prev (h (last as))) (set_next (cell_prev (h (last as))) 0 h) = unlink (last as) h"
    by (simp add: unlink_def Let_def)
  have "cell_prev (h (hd as)) = 0" using assms by (cases as) auto
  then show "set_prev (cell_next (h (hd as))) 0 (set_next 0 (cell_next (h (hd as))) h) = unlink (hd as) h"
    by (simp add: unlink_def Let_def)
  show "cell_prev (h 0) = last as" using chain_last [OF assms(1)] assms(2) by simp
  show "cell_next (h 0) = hd as" using assms by (cases as) auto
qed

lemma od_popitem_delitem:
  assumes r: "od_rep d as xs" and ne: "xs \<noteq> []"
  shows "od_popitem l d = ebind (od_delitem (fst (if l then last xs else hd xs)) d)
    (\<lambda>d'. Inr ((if l then last xs else hd xs), d'))"
proof -
  let ?p = "if l then last xs else hd xs"
  have rep: "oset_rep (od_links d) as (map fst xs)" and dict: "map_of (od_dict d) = map_of xs"
    using r by (simp_all add: od_rep_def)
  have len: "length as = length xs" using oset_rep_length [OF rep] by simp
  then have as: "as \<noteq> []" using ne by auto
  have ch: "chain (os_heap (od_links d)) 0 as 0" using rep by (simp add: oset_rep_def ring_def)
  have keys: "map (\<lambda>a. cell_key (os_heap (od_links d) a)) as = map Some (map fst xs)"
    using rep by (simp add: oset_rep_def)
  define i where "i = (if l then length xs - 1 else 0)"
  have i: "i < length xs" using ne by (auto simp: i_def)
  have pi: "?p = xs ! i" using ne by (simp add: i_def last_conv_nth hd_conv_nth)
  let ?a = "if l then last as else hd as"
  have ai: "?a = as ! i" using as len by (simp add: i_def last_conv_nth hd_conv_nth)
  have key: "cell_key (os_heap (od_links d) ?a) = Some (fst ?p)"
    unfolding ai pi using keys i len by (metis (mono_tags, lifting) length_map nth_map)
  have "(fst (xs ! i), as ! i) \<in> set (zip (map fst xs) as)"
    using i len by (auto simp: set_zip intro!: exI [of _ i])
  then have cell: "map_of (os_map (od_links d)) (fst ?p) = Some ?a"
    unfolding ai pi using rep by (simp add: oset_rep_def)
  have val: "map_of (od_dict d) (fst ?p) = Some (snd ?p)"
    unfolding pi dict using od_rep_distinct [OF r] i by simp
  note ends = popitem_unlink [OF ch as]
  show ?thesis
  proof (cases l)
    case True
    then show ?thesis
      using key cell val ends by (auto simp: od_popitem_def od_delitem_def od_has_def Let_def)
  next
    case False
    then show ?thesis
      using key cell val ends by (auto simp: od_popitem_def od_delitem_def od_has_def Let_def)
  qed
qed

lemma od_rep_invar: "od_rep d as xs \<Longrightarrow> od_invar d \<and> od_items d = Some xs"
  using od_rep_items unfolding od_invar_def by blast

lemma od_invarE:
  assumes "od_invar d" "od_items d = Some xs"
  obtains as where "od_rep d as xs"
proof -
  obtain as ys where "od_rep d as ys" using assms(1) by (auto simp: od_invar_def)
  then show ?thesis using od_rep_items [of d as ys] assms(2) that by simp
qed

interpretation od: ordered_map od_empty od_setitem od_delitem od_getitem od_items od_invar
proof
  show "od_invar (od_empty :: 'a odict)" "od_items (od_empty :: 'a odict) = Some []"
    by (simp_all add: od_rep_invar [OF od_rep_empty])
next
  fix m :: "'a odict" assume "od_invar m"
  then obtain as xs where "od_rep m as xs" by (auto simp: od_invar_def)
  then show "\<exists>xs. od_items m = Some xs \<and> distinct (map fst xs)"
    by (intro exI [of _ xs] conjI od_rep_items od_rep_distinct)
next
  fix m :: "'a odict" and xs k v assume m: "od_invar m" "od_items m = Some xs"
  then obtain as where "od_rep m as xs" by (rule od_invarE)
  from od_rep_setitem [OF this] obtain as' where "od_rep (od_setitem k v m) as' (AList.update k v xs)" by blast
  then show "od_invar (od_setitem k v m) \<and> od_items (od_setitem k v m) = Some (AList.update k v xs)"
    by (rule od_rep_invar)
next
  fix m :: "'a odict" and xs k assume m: "od_invar m" "od_items m = Some xs"
  then obtain as where r: "od_rep m as xs" by (rule od_invarE)
  show "if k \<in> fst ` set xs
       then \<exists>m'. od_delitem k m = Inr m' \<and> od_invar m' \<and> od_items m' = Some (AList.delete k xs)
       else od_delitem k m = Inl (KeyErr k)"
  proof (cases "k \<in> fst ` set xs")
    case True
    then obtain d' as' where "od_delitem k m = Inr d'" "od_rep d' as' (AList.delete k xs)"
      using od_rep_delitem [OF r] by blast
    then show ?thesis using True od_rep_invar by auto
  qed (simp add: od_delitem_def od_rep_has [OF r])
next
  fix m :: "'a odict" and xs k assume m: "od_invar m" "od_items m = Some xs"
  then obtain as where "od_rep m as xs" by (rule od_invarE)
  then show "od_getitem k m = (case map_of xs k of None \<Rightarrow> Inl (KeyErr k) | Some v \<Rightarrow> Inr v)"
    by (simp add: od_getitem_def od_rep_def)
qed

section \<open>Every run refines the association list of its items\<close>

datatype 'v map_op =
    SetItem string 'v | DelItem string | PopItem bool | UpdateItems "(string \<times> 'v) list"
  | PopKey string "'v option" | SetDefault string 'v | Clear

fun od_step :: "'v odict \<Rightarrow> 'v map_op \<Rightarrow> 'v odict res" where
  "od_step d (SetItem k v) = Inr (od_setitem k v d)"
| "od_step d (DelItem k) = od_delitem k d"
| "od_step d (PopItem l) = ebind (od_popitem l d) (\<lambda>(_, d'). Inr d')"
| "od_step d (UpdateItems ps) = Inr (od_update ps d)"
| "od_step d (PopKey k v) = ebind (od_pop k v d) (\<lambda>(_, d'). Inr d')"
| "od_step d (SetDefault k v) = Inr (snd (od_setdefault k v d))"
| "od_step d Clear = Inr (od_clear d)"

text \<open>The abstract run: an association list; a new key goes to the end, an old one stays.\<close>

fun alist_step :: "(string \<times> 'v) list \<Rightarrow> 'v map_op \<Rightarrow> (string \<times> 'v) list res" where
  "alist_step xs (SetItem k v) = Inr (AList.update k v xs)"
| "alist_step xs (DelItem k) = (if k \<in> fst ` set xs then Inr (AList.delete k xs) else Inl (KeyErr k))"
| "alist_step xs (PopItem l) =
     (if xs = [] then Inl (KeyErr ''dictionary is empty'') else Inr (if l then butlast xs else tl xs))"
| "alist_step xs (UpdateItems ps) = Inr (foldl (\<lambda>xs p. AList.update (fst p) (snd p) xs) xs ps)"
| "alist_step xs (PopKey k v) =
     (if k \<in> fst ` set xs then Inr (AList.delete k xs) else if v = None then Inl (KeyErr k) else Inr xs)"
| "alist_step xs (SetDefault k v) = Inr (if k \<in> fst ` set xs then xs else AList.update k v xs)"
| "alist_step xs Clear = Inr []"

definition refines_alist :: "'v odict res \<Rightarrow> (string \<times> 'v) list res \<Rightarrow> bool" where
  "refines_alist r a =
     (case (r, a) of
        (Inl e, Inl e') \<Rightarrow> e = e'
      | (Inr d, Inr xs) \<Rightarrow> od_invar d \<and> od_items d = Some xs
      | _ \<Rightarrow> False)"

lemma delete_ends:
  assumes "distinct (map fst xs)" and "xs \<noteq> []"
  shows "AList.delete (fst (last xs)) xs = butlast xs" and "AList.delete (fst (hd xs)) xs = tl xs"
proof -
  obtain ys p where xs: "xs = ys @ [p]" using assms(2) by (metis append_butlast_last_id)
  then have "fst p \<notin> fst ` set ys" using assms(1) by simp
  then have "AList.delete (fst p) ys = ys" by (simp add: delete_idem)
  then show "AList.delete (fst (last xs)) xs = butlast xs" using xs by (simp add: AList.delete_eq case_prod_unfold)
  show "AList.delete (fst (hd xs)) xs = tl xs"
    using assms by (cases xs) (auto simp: delete_idem)
qed

lemma od_step_refines:
  assumes d: "od_invar d" "od_items d = Some xs"
  shows "refines_alist (od_step d op) (alist_step xs op)"
proof -
  obtain as where r: "od_rep d as xs" by (rule od_invarE [OF d])
  have has: "od_has k d \<longleftrightarrow> k \<in> fst ` set xs" for k by (rule od_rep_has [OF r])
  have del: "refines_alist (od_delitem k d) (alist_step xs (DelItem k))" for k
    using od.del_spec [OF d, of k] by (auto simp: refines_alist_def split: if_splits)
  show ?thesis
  proof (cases op)
    case (SetItem k v)
    then show ?thesis using od.set_spec [OF d] by (simp add: refines_alist_def)
  next
    case (DelItem k)
    then show ?thesis using del by simp
  next
    case (PopItem l)
    show ?thesis
    proof (cases "xs = []")
      case True
      then have "od_dict d = []" using od_rep_len [OF r] by simp
      then show ?thesis using True PopItem by (simp add: od_popitem_def refines_alist_def)
    next
      case False
      let ?p = "if l then last xs else hd xs"
      have "fst ?p \<in> fst ` set xs" using False by auto
      then obtain d' where "od_delitem (fst ?p) d = Inr d'" "od_invar d'" "od_items d' = Some (AList.delete (fst ?p) xs)"
        using od.del_spec [OF d, of "fst ?p"] by auto
      then show ?thesis
        using PopItem False od_popitem_delitem [OF r False, of l] delete_ends [OF od_rep_distinct [OF r] False]
        by (auto simp: refines_alist_def)
    qed
  next
    case (UpdateItems ps)
    then show ?thesis using od.set_all_items [OF d] by (simp add: refines_alist_def od_update_def)
  next
    case (PopKey k v)
    show ?thesis
    proof (cases "k \<in> fst ` set xs")
      case True
      then obtain w where "od_getitem k d = Inr w"
        using has [of k] by (auto simp: od_getitem_def od_has_def)
      then show ?thesis
        using PopKey True has [of k] od.del_spec [OF d, of k] by (auto simp: od_pop_def refines_alist_def)
    next
      case False
      then show ?thesis
        using PopKey has [of k] d by (cases v) (simp_all add: od_pop_def refines_alist_def)
    qed
  next
    case (SetDefault k v)
    then show ?thesis
      using has [of k] d od.set_spec [OF d, of k v]
      by (auto simp: od_setdefault_def od_has_def refines_alist_def split: option.splits)
  next
    case Clear
    then show ?thesis
      using od_rep_invar [OF od_rep_clear [OF r]] by (simp add: refines_alist_def)
  qed
qed

lemma od_run_refines:
  "od_invar d \<Longrightarrow> od_items d = Some xs \<Longrightarrow> refines_alist (efold od_step d ops) (efold alist_step xs ops)"
proof (induction ops arbitrary: d xs)
  case (Cons op ops)
  have "refines_alist (od_step d op) (alist_step xs op)"
    by (rule od_step_refines [OF Cons.prems])
  then consider e where "od_step d op = Inl e" "alist_step xs op = Inl e"
    | d' xs' where "od_step d op = Inr d'" "alist_step xs op = Inr xs'" "od_invar d'" "od_items d' = Some xs'"
    by (auto simp: refines_alist_def split: sum.splits)
  then show ?case
  proof cases
    case 2
    then show ?thesis using Cons.IH [OF 2(3,4)] by simp
  qed (simp add: refines_alist_def)
qed (simp add: refines_alist_def)


end
