(* ===== verification/NinjaSyntax.thy ===== *)
theory NinjaSyntax
  imports PyVal
begin

text \<open>
  \<open>gyp/ninja_syntax.py\<close>: the writer of \<open>.ninja\<close> files. The output file is the string
  written so far. \<open>textwrap.wrap\<close> is a parameter of \<open>comment\<close>.
\<close>

section \<open>Searching in strings\<close>

text \<open>\<open>s.rfind(c, 0, e)\<close> and \<open>s.find(c, b)\<close> for one character; a negative bound counts from the end.\<close>

definition py_bound :: "string \<Rightarrow> int \<Rightarrow> nat" where
  "py_bound s e = (if e < 0 then nat (e + int (length s)) else min (nat e) (length s))"

fun last_index :: "char \<Rightarrow> string \<Rightarrow> int" where
  "last_index c [] = -1"
| "last_index c (x # xs) =
     (let i = last_index c xs in if 0 \<le> i then i + 1 else if x = c then 0 else -1)"

fun first_index :: "char \<Rightarrow> string \<Rightarrow> int" where
  "first_index c [] = -1"
| "first_index c (x # xs) =
     (if x = c then 0 else let i = first_index c xs in if 0 \<le> i then i + 1 else -1)"

definition py_rfind :: "char \<Rightarrow> string \<Rightarrow> int \<Rightarrow> int" where
  "py_rfind c s e = last_index c (take (py_bound s e) s)"

definition py_find :: "char \<Rightarrow> string \<Rightarrow> int \<Rightarrow> int" where
  "py_find c s b =
     (let k = py_bound s b; i = first_index c (drop k s) in if 0 \<le> i then int k + i else -1)"

lemma last_index_range: "-1 \<le> last_index c s \<and> last_index c s < int (length s)"
  by (induction s) (auto simp: Let_def)

lemma last_index_hit: "0 \<le> last_index c s \<Longrightarrow> s ! nat (last_index c s) = c"
  by (induction s) (auto simp: Let_def nat_add_distrib split: if_splits)

lemma first_index_range: "-1 \<le> first_index c s \<and> first_index c s < int (length s)"
  by (induction s) (auto simp: Let_def)

lemma first_index_hit: "0 \<le> first_index c s \<Longrightarrow> s ! nat (first_index c s) = c"
  by (induction s) (auto simp: Let_def nat_add_distrib split: if_splits)

lemma py_rfind_range: "py_rfind c s e < int (py_bound s e)" "py_rfind c s e < int (length s)"
  using last_index_range [of c "take (py_bound s e) s"] by (auto simp: py_rfind_def)

lemma py_rfind_hit: "0 \<le> py_rfind c s e \<Longrightarrow> s ! nat (py_rfind c s e) = c"
proof -
  assume p: "0 \<le> py_rfind c s e"
  let ?t = "take (py_bound s e) s"
  have "?t ! nat (last_index c ?t) = c" using p last_index_hit unfolding py_rfind_def by blast
  moreover have "nat (last_index c ?t) < py_bound s e"
    using p py_rfind_range(1) [of c s e] unfolding py_rfind_def by linarith
  ultimately show ?thesis by (simp add: py_rfind_def)
qed

lemma py_find_range: "py_find c s b < int (length s)"
  using first_index_range [of c "drop (py_bound s b) s"] by (auto simp: py_find_def Let_def)

lemma py_find_hit: "0 \<le> py_find c s b \<Longrightarrow> s ! nat (py_find c s b) = c"
proof -
  assume p: "0 \<le> py_find c s b"
  let ?k = "py_bound s b" and ?i = "first_index c (drop (py_bound s b) s)"
  have i: "0 \<le> ?i" using p by (auto simp: py_find_def Let_def split: if_splits)
  have "drop ?k s ! nat ?i = c" by (rule first_index_hit [OF i])
  moreover have "?k \<le> length s" by (auto simp: py_bound_def)
  ultimately show ?thesis using i by (simp add: py_find_def Let_def nat_add_distrib)
qed

lemma py_find_start: "0 \<le> py_find c s b \<Longrightarrow> b \<le> py_find c s b"
  by (cases "int (length s) < b") (auto simp: py_find_def Let_def py_bound_def min_def split: if_splits)

section \<open>Line wrapping\<close>

record writer =
  w_output :: string
  w_width :: int

definition w_write :: "string \<Rightarrow> writer \<Rightarrow> writer" where
  "w_write s w = w\<lparr>w_output := w_output w @ s\<rparr>"

fun count_dollars :: "string \<Rightarrow> nat \<Rightarrow> nat" where
  "count_dollars s dollar_index =
     (if 0 < dollar_index \<and> s ! dollar_index = CHR ''$'' then Suc (count_dollars s (dollar_index - 1)) else 0)"

declare count_dollars.simps [simp del]

definition count_dollars_before_index :: "string \<Rightarrow> int \<Rightarrow> nat" where
  "count_dollars_before_index s i = (if i \<le> 0 then 0 else count_dollars s (nat (i - 1)))"

text \<open>The rightmost unescaped space before \<open>space\<close>, and the first one after it; -1 if none.\<close>

function space_before :: "string \<Rightarrow> int \<Rightarrow> int" where
  "space_before line space =
     (let p = py_rfind CHR '' '' line space in
      if p < 0 \<or> even (count_dollars_before_index line p) then p else space_before line p)"
  by auto

termination
proof (relation "measure (\<lambda>(line, e). if e < 0 then length line else nat e)")
  fix line :: string and e p :: int
  assume p: "p = py_rfind CHR '' '' line e" "\<not> (p < 0 \<or> even (count_dollars_before_index line p))"
  show "((line, p), (line, e)) \<in> measure (\<lambda>(line, e). if e < 0 then length line else nat e)"
    using p py_rfind_range [of "CHR '' ''" line e] by (auto simp: py_bound_def split: if_splits)
qed simp

function space_after :: "string \<Rightarrow> int \<Rightarrow> int" where
  "space_after line space =
     (let p = py_find CHR '' '' line (space + 1) in
      if p < 0 \<or> even (count_dollars_before_index line p) then p else space_after line p)"
  by auto

termination
proof (relation "measure (\<lambda>(line, e). nat (int (length line) - e))")
  fix line :: string and e p :: int
  assume p: "p = py_find CHR '' '' line (e + 1)" "\<not> (p < 0 \<or> even (count_dollars_before_index line p))"
  show "((line, p), (line, e)) \<in> measure (\<lambda>(line, e). nat (int (length line) - e))"
    using p py_find_range [of "CHR '' ''" line "e + 1"] py_find_start [of "CHR '' ''" line "e + 1"] by auto
qed simp

declare space_before.simps [simp del] space_after.simps [simp del]

lemma space_before_range: "space_before line e < int (length line)"
proof (induction line e rule: space_before.induct)
  case (1 line e)
  then show ?case
    using py_rfind_range(2) [of "CHR '' ''" line e] by (subst space_before.simps) (auto simp: Let_def)
qed

lemma space_before_hit: "0 \<le> space_before line e \<Longrightarrow> line ! nat (space_before line e) = CHR '' ''"
proof (induction line e rule: space_before.induct)
  case (1 line e)
  then show ?case
    using py_rfind_hit [of "CHR '' ''" line e]
    by (subst space_before.simps, subst (asm) (2) space_before.simps) (auto simp: Let_def split: if_splits)
qed

lemma space_after_range: "space_after line e < int (length line)"
proof (induction line e rule: space_after.induct)
  case (1 line e)
  then show ?case
    using py_find_range [of "CHR '' ''" line "e + 1"] by (subst space_after.simps) (auto simp: Let_def)
qed

lemma space_after_hit: "0 \<le> space_after line e \<Longrightarrow> line ! nat (space_after line e) = CHR '' ''"
proof (induction line e rule: space_after.induct)
  case (1 line e)
  then show ?case
    using py_find_hit [of "CHR '' ''" line "e + 1"]
    by (subst space_after.simps, subst (asm) (2) space_after.simps) (auto simp: Let_def split: if_splits)
qed

definition break_at :: "int \<Rightarrow> string \<Rightarrow> string \<Rightarrow> int" where
  "break_at width leading_space line =
     (let available_space = width - int (length leading_space) - int (length '' $'');
          space = space_before line available_space
      in if space < 0 then space_after line (available_space - 1) else space)"

lemma break_at_range: "break_at width lead line < int (length line)"
  by (simp add: break_at_def Let_def space_before_range space_after_range)

lemma break_at_hit: "0 \<le> break_at width lead line \<Longrightarrow> line ! nat (break_at width lead line) = CHR '' ''"
  using space_before_hit space_after_hit by (auto simp: break_at_def Let_def split: if_splits)

definition spaces :: "nat \<Rightarrow> string" where
  "spaces n = replicate (2 * n) (CHR '' '')"

function line_loop :: "int \<Rightarrow> nat \<Rightarrow> string \<Rightarrow> string \<Rightarrow> string" where
  "line_loop width indent leading_space line =
     (if int (length leading_space + length line) > width
      then let space = break_at width leading_space line in
        if space < 0 then leading_space @ line @ [CHR 0x0A]
        else leading_space @ take (nat space) line @ '' $'' @ [CHR 0x0A]
             @ line_loop width indent (spaces (indent + 2)) (drop (nat space + 1) line)
      else leading_space @ line @ [CHR 0x0A])"
  by auto

termination
proof (relation "measure (\<lambda>(width, indent, lead, line). length line)")
  fix width :: int and indent :: nat and lead line :: string and space :: int
  assume "space = break_at width lead line" "\<not> space < 0"
  then have "0 < length line" using break_at_range [of width lead line] by linarith
  then show "((width, indent, spaces (indent + 2), drop (nat space + 1) line), (width, indent, lead, line))
      \<in> measure (\<lambda>(width, indent, lead, line). length line)" by simp
qed simp

declare line_loop.simps [simp del]

definition w_line :: "string \<Rightarrow> nat \<Rightarrow> writer \<Rightarrow> writer" where
  "w_line line indent w = w_write (line_loop (w_width w) indent (spaces indent) line) w"

section \<open>The statements\<close>

definition as_list_arg :: "pyval \<Rightarrow> pyval list" where
  "as_list_arg input = (case input of PNone \<Rightarrow> [] | PList xs \<Rightarrow> xs | _ \<Rightarrow> [input])"

definition escape_path :: "string \<Rightarrow> string" where
  "escape_path word =
     py_replace '':'' ''$:'' (py_replace '' '' ''$ '' (py_replace ''$ '' ''$$ '' word))"

definition w_newline :: "writer \<Rightarrow> writer" where
  "w_newline = w_write [CHR 0x0A]"

definition w_comment :: "(string \<Rightarrow> int \<Rightarrow> string list) \<Rightarrow> string \<Rightarrow> writer \<Rightarrow> writer" where
  "w_comment wrap line w = foldl (\<lambda>w l. w_write (''# '' @ l @ [CHR 0x0A]) w) w (wrap line (w_width w - 2))"

definition w_variable :: "string \<Rightarrow> pyval \<Rightarrow> nat \<Rightarrow> writer \<Rightarrow> writer res" where
  "w_variable key v indent w =
     (case v of
        PNone \<Rightarrow> Inr w
      | PList xs \<Rightarrow>
          ebind (emap as_str (filter truth xs)) (\<lambda>words.
            Inr (w_line (key @ '' = '' @ join_with '' '' words) indent w))
      | _ \<Rightarrow> Inr (w_line (key @ '' = '' @ py_str v) indent w))"

definition w_pool :: "string \<Rightarrow> pyval \<Rightarrow> writer \<Rightarrow> writer res" where
  "w_pool name depth w = w_variable ''depth'' depth 1 (w_line (''pool '' @ name) 0 w)"

definition optional_variable :: "string \<Rightarrow> pyval \<Rightarrow> writer \<Rightarrow> writer res" where
  "optional_variable key v w = (if truth v then w_variable key v 1 w else Inr w)"

definition optional_flag :: "string \<Rightarrow> bool \<Rightarrow> writer \<Rightarrow> writer res" where
  "optional_flag key b w = (if b then w_variable key (PStr ''1'') 1 w else Inr w)"

definition w_rule ::
  "string \<Rightarrow> pyval \<Rightarrow> pyval \<Rightarrow> pyval \<Rightarrow> bool \<Rightarrow> pyval \<Rightarrow> bool \<Rightarrow> pyval \<Rightarrow> pyval \<Rightarrow> pyval \<Rightarrow> writer \<Rightarrow> writer res" where
  "w_rule name command description depfile generator pool restat rspfile rspfile_content deps w =
     ebind (w_variable ''command'' command 1 (w_line (''rule '' @ name) 0 w)) (\<lambda>w.
     ebind (optional_variable ''description'' description w) (\<lambda>w.
     ebind (optional_variable ''depfile'' depfile w) (\<lambda>w.
     ebind (optional_flag ''generator'' generator w) (\<lambda>w.
     ebind (optional_variable ''pool'' pool w) (\<lambda>w.
     ebind (optional_flag ''restat'' restat w) (\<lambda>w.
     ebind (optional_variable ''rspfile'' rspfile w) (\<lambda>w.
     ebind (optional_variable ''rspfile_content'' rspfile_content w) (\<lambda>w.
     optional_variable ''deps'' deps w))))))))"

definition escaped_paths :: "pyval \<Rightarrow> string list res" where
  "escaped_paths v = emap (\<lambda>x. ebind (as_str x) (\<lambda>s. Inr (escape_path s))) (as_list_arg v)"

definition extra_inputs :: "string \<Rightarrow> pyval \<Rightarrow> string list \<Rightarrow> string list res" where
  "extra_inputs mark v all_inputs =
     (if truth v then ebind (escaped_paths v) (\<lambda>ps. Inr (all_inputs @ [mark] @ ps)) else Inr all_inputs)"

definition w_build ::
  "pyval \<Rightarrow> string \<Rightarrow> pyval \<Rightarrow> pyval \<Rightarrow> pyval \<Rightarrow> pydict \<Rightarrow> writer \<Rightarrow> (pyval list \<times> writer) res" where
  "w_build outputs rule_name inputs implicit order_only variables w =
     ebind (escaped_paths outputs) (\<lambda>out_outputs.
     ebind (escaped_paths inputs) (\<lambda>all_inputs.
     ebind (extra_inputs ''|'' implicit all_inputs) (\<lambda>all_inputs.
     ebind (extra_inputs ''||'' order_only all_inputs) (\<lambda>all_inputs.
     ebind (efold (\<lambda>w (key, val). w_variable key val 1 w)
              (w_line (''build '' @ join_with '' '' out_outputs @ '': '' @ join_with '' '' (rule_name # all_inputs)) 0 w)
              variables) (\<lambda>w.
     Inr (as_list_arg outputs, w))))))"

definition w_include :: "string \<Rightarrow> writer \<Rightarrow> writer" where
  "w_include path w = w_line (''include '' @ path) 0 w"

definition w_subninja :: "string \<Rightarrow> writer \<Rightarrow> writer" where
  "w_subninja path w = w_line (''subninja '' @ path) 0 w"

definition w_default :: "pyval \<Rightarrow> writer \<Rightarrow> writer res" where
  "w_default paths w =
     ebind (emap as_str (as_list_arg paths)) (\<lambda>ps. Inr (w_line (''default '' @ join_with '' '' ps) 0 w))"

definition ninja_escape :: "string \<Rightarrow> string res" where
  "ninja_escape s = (if CHR 0x0A \<in> set s then Inl AssertErr else Inr (py_replace ''$'' ''$$'' s))"

section \<open>How Ninja reads a wrapped line\<close>

text \<open>
  Ninja's lexer pairs \<open>$\<close> with the character after it; a \<open>$\<close> before a newline continues the
  line, and the white space that starts the next line is skipped.
\<close>

function unfold_lines :: "string \<Rightarrow> string" where
  "unfold_lines [] = []"
| "unfold_lines [c] = [c]"
| "unfold_lines (c # d # ds) =
     (if c = CHR ''$'' then
        (if d = CHR 0x0A then unfold_lines (dropWhile (\<lambda>x. x = CHR '' '') ds)
         else c # d # unfold_lines ds)
      else c # unfold_lines (d # ds))"
  by pat_completeness auto

termination
  by (relation "measure length") (auto simp: less_Suc_eq_le le_SucI length_dropWhile_le)

lemma unfold_plain: "CHR 0x0A \<notin> set xs \<Longrightarrow> unfold_lines xs = xs"
  by (induction xs rule: unfold_lines.induct) auto

lemma unfold_append_space:
  "CHR 0x0A \<notin> set xs \<Longrightarrow> unfold_lines (xs @ CHR '' '' # ys) = xs @ CHR '' '' # unfold_lines ys"
proof (induction xs rule: unfold_lines.induct)
  case 1
  show ?case by (cases ys) simp_all
next
  case (2 c)
  then show ?case by (cases ys) simp_all
qed auto

lemma unfold_spaces: "set lead \<subseteq> {CHR '' ''} \<Longrightarrow> unfold_lines (lead @ ys) = lead @ unfold_lines ys"
proof (induction lead)
  case (Cons c lead)
  then have "unfold_lines ([] @ CHR '' '' # (lead @ ys)) = CHR '' '' # unfold_lines (lead @ ys)"
    using unfold_append_space [of "[]" "lead @ ys"] by simp
  then show ?case using Cons by simp
qed simp

definition single_spaced :: "string \<Rightarrow> bool" where
  "single_spaced s \<longleftrightarrow> (\<forall>i. Suc i < length s \<longrightarrow> s ! i = CHR '' '' \<longrightarrow> s ! Suc i \<noteq> CHR '' '')
     \<and> (s \<noteq> [] \<longrightarrow> hd s \<noteq> CHR '' '')"

lemma single_spaced_tail:
  assumes "single_spaced s" and "k < length s" and "s ! k = CHR '' ''"
  shows "single_spaced (drop (Suc k) s)"
proof -
  have "s ! Suc (Suc k + i) \<noteq> CHR '' ''" if "Suc (Suc k + i) < length s" "s ! (Suc k + i) = CHR '' ''" for i
    using assms(1) that unfolding single_spaced_def by blast
  moreover have "hd (drop (Suc k) s) \<noteq> CHR '' ''" if "Suc k < length s"
    using assms that unfolding single_spaced_def by (simp add: hd_drop_conv_nth)
  ultimately show ?thesis by (auto simp: single_spaced_def)
qed

text \<open>No \<open>$\<close> is left without the character it escapes.\<close>

fun dollars_paired :: "string \<Rightarrow> bool" where
  "dollars_paired [] = True"
| "dollars_paired [c] = (c \<noteq> CHR ''$'')"
| "dollars_paired (c # d # ds) = (if c = CHR ''$'' then dollars_paired ds else dollars_paired (d # ds))"

lemma dollars_paired_tail: "dollars_paired (xs @ CHR '' '' # ys) = dollars_paired ys"
proof (induction xs rule: dollars_paired.induct)
  case 1
  show ?case by (cases ys) simp_all
next
  case (2 c)
  then show ?case by (cases ys) simp_all
qed auto

lemma unfold_paired: "CHR 0x0A \<notin> set xs \<Longrightarrow> dollars_paired xs \<Longrightarrow> unfold_lines (xs @ [CHR 0x0A]) = xs @ [CHR 0x0A]"
  by (induction xs rule: dollars_paired.induct) auto

lemma line_loop_unfold:
  "\<lbrakk>CHR 0x0A \<notin> set line; single_spaced line; dollars_paired line\<rbrakk> \<Longrightarrow>
    \<exists>rest. line_loop width indent lead line = lead @ rest
      \<and> (rest \<noteq> [] \<longrightarrow> hd rest \<noteq> CHR '' '') \<and> unfold_lines rest = line @ [CHR 0x0A]"
proof (induction width indent lead line rule: line_loop.induct)
  case (1 width indent lead line)
  let ?k = "break_at width lead line"
  have start: "line \<noteq> [] \<longrightarrow> hd line \<noteq> CHR '' ''" using 1(3) by (simp add: single_spaced_def)
  show ?case
  proof (cases "int (length lead + length line) > width \<and> 0 \<le> ?k")
    case False
    then have "line_loop width indent lead line = lead @ line @ [CHR 0x0A]"
      by (subst line_loop.simps) (auto simp: Let_def)
    moreover have "hd (line @ [CHR 0x0A]) \<noteq> CHR '' ''" using start by (cases line) auto
    ultimately show ?thesis using unfold_paired [OF 1(2,4)] by auto
  next
    case True
    define k where "k = nat ?k"
    have k: "k < length line" "line ! k = CHR '' ''"
      using True break_at_range [of width lead line] break_at_hit [of width lead line] by (auto simp: k_def)
    have k0: "0 < k" using k start by (cases k; cases line) auto
    have split: "line = take k line @ CHR '' '' # drop (Suc k) line"
      using id_take_nth_drop [OF k(1)] k(2) by simp
    have out: "line_loop width indent lead line = lead @ (take k line @ '' $'' @ [CHR 0x0A]
        @ line_loop width indent (spaces (indent + 2)) (drop (Suc k) line))"
      using True by (subst line_loop.simps) (simp add: Let_def k_def)
    have "dollars_paired (drop (Suc k) line)" using 1(4) dollars_paired_tail split by metis
    moreover have "CHR 0x0A \<notin> set (drop (Suc k) line)" using 1(2) by (meson in_set_dropD)
    ultimately obtain r where r: "line_loop width indent (spaces (indent + 2)) (drop (Suc k) line) = spaces (indent + 2) @ r"
        "r \<noteq> [] \<longrightarrow> hd r \<noteq> CHR '' ''" "unfold_lines r = drop (Suc k) line @ [CHR 0x0A]"
      using 1(1) [of ?k] True single_spaced_tail [OF 1(3) k] by (auto simp: k_def Suc_nat_eq_nat_zadd1 add.commute)
    have "dropWhile (\<lambda>x. x = CHR '' '') (spaces (indent + 2) @ r) = r"
      using r(2) by (cases r) (auto simp: spaces_def dropWhile_append3)
    moreover have "CHR 0x0A \<notin> set (take k line)" using 1(2) by (meson in_set_takeD)
    ultimately have "unfold_lines (take k line @ '' $'' @ [CHR 0x0A] @ spaces (indent + 2) @ r)
        = take k line @ CHR '' '' # drop (Suc k) line @ [CHR 0x0A]"
      using unfold_append_space [of "take k line" "CHR ''$'' # CHR 0x0A # spaces (indent + 2) @ r"] r(3) by simp
    also have "\<dots> = line @ [CHR 0x0A]" using split by (metis append.assoc append_Cons)
    finally have u: "unfold_lines (take k line @ '' $'' @ [CHR 0x0A] @ spaces (indent + 2) @ r) = line @ [CHR 0x0A]" .
    have "hd (take k line @ '' $'' @ [CHR 0x0A] @ spaces (indent + 2) @ r) \<noteq> CHR '' ''"
      using start k0 k(1) by (cases line; cases k) auto
    then show ?thesis using out r(1) u by (metis append.assoc)
  qed
qed

text \<open>
  Wrapping a line loses nothing that Ninja reads: for a line without newlines, dangling
  \<open>$\<close>, leading or doubled spaces, \<open>_line\<close> appends to the file a text that Ninja's lexer,
  which drops each \<open>$\<close>-newline and the white space after it, reads as the indented line itself;
  wrapping ends for every width.
\<close>

theorem w_line_unfolds:
  assumes "CHR 0x0A \<notin> set line" and "single_spaced line" and "dollars_paired line"
  shows "\<exists>out. w_output (w_line line indent w) = w_output w @ out
    \<and> unfold_lines out = spaces indent @ line @ [CHR 0x0A]"
proof -
  obtain rest where r: "line_loop (w_width w) indent (spaces indent) line = spaces indent @ rest"
      "unfold_lines rest = line @ [CHR 0x0A]"
    using line_loop_unfold [OF assms] by blast
  moreover have "unfold_lines (spaces indent @ rest) = spaces indent @ unfold_lines rest"
    by (rule unfold_spaces) (auto simp: spaces_def)
  ultimately show ?thesis by (simp add: w_line_def w_write_def)
qed

theorem w_line_unfolds_witness:
  "\<exists>out. w_output (w_line ''command = cc -c $in'' 1 \<lparr>w_output = [], w_width = 12\<rparr>) = out
    \<and> unfold_lines out = ''  command = cc -c $in'' @ [CHR 0x0A]"
proof -
  have "single_spaced ''command = cc -c $in''"
    unfolding single_spaced_def by (auto simp: less_Suc_eq nth_Cons' split: if_splits)
  then show ?thesis
    using w_line_unfolds [of "''command = cc -c $in''" 1 "\<lparr>w_output = [], w_width = 12\<rparr>"]
    by (auto simp: spaces_def numeral_2_eq_2)
qed

text \<open>
  A doubled space at the break is not preserved: the space that starts the continuation line is
  white space Ninja skips.
\<close>

lemma w_line_doubled_space:
  "unfold_lines (w_output (w_line ''aaaaaa  bbbb'' 0 \<lparr>w_output = [], w_width = 9\<rparr>))
     = ''aaaaaa bbbb'' @ [CHR 0x0A]"
  by code_simp

section \<open>How Ninja reads a build statement\<close>

datatype ninja_token = Word string | Colon | Pipe | Pipe2

definition word_token :: "string \<Rightarrow> ninja_token list" where
  "word_token acc = (if acc = [] then [] else [Word acc])"

text \<open>The path tokens of a line: \<open>$\<close> escapes a space, a colon or itself.\<close>

fun ninja_tokens :: "string \<Rightarrow> string \<Rightarrow> ninja_token list option" where
  "ninja_tokens acc [] = Some (word_token acc)"
| "ninja_tokens acc (c # cs) =
     (if c = CHR ''$'' then
        (case cs of
           [] \<Rightarrow> None
         | d # ds \<Rightarrow> if d \<in> {CHR ''$'', CHR '' '', CHR '':''} then ninja_tokens (acc @ [d]) ds else None)
      else if c = CHR '' '' then map_option ((@) (word_token acc)) (ninja_tokens [] cs)
      else if c = CHR '':'' then map_option ((@) (word_token acc @ [Colon])) (ninja_tokens [] cs)
      else if c = CHR ''|'' then
        (case cs of
           [] \<Rightarrow> Some (word_token acc @ [Pipe])
         | d # ds \<Rightarrow>
             if d = CHR ''|'' then map_option ((@) (word_token acc @ [Pipe2])) (ninja_tokens [] ds)
             else map_option ((@) (word_token acc @ [Pipe])) (ninja_tokens [] (d # ds)))
      else ninja_tokens (acc @ [c]) cs)"

definition path_word :: "string \<Rightarrow> bool" where
  "path_word w \<longleftrightarrow> w \<noteq> [] \<and> CHR ''$'' \<notin> set w \<and> CHR ''|'' \<notin> set w"

lemma py_replace_absent: "c \<notin> set s \<Longrightarrow> py_replace (c # cs) new s = s"
  by (induction s) (auto simp: starts_with_def)

lemma escape_path_chars:
  assumes "CHR ''$'' \<notin> set w"
  shows "escape_path w = concat (map (\<lambda>c. if c = CHR '' '' then ''$ '' else if c = CHR '':'' then ''$:'' else [c]) w)"
proof -
  have "py_replace ''$ '' ''$$ '' w = w" by (rule py_replace_absent [OF assms])
  moreover have "concat (map (\<lambda>c. if c = CHR '':'' then ''$:'' else [c])
      (concat (map (\<lambda>c. if c = CHR '' '' then ''$ '' else [c]) w)))
    = concat (map (\<lambda>c. if c = CHR '' '' then ''$ '' else if c = CHR '':'' then ''$:'' else [c]) w)"
    by (induction w) auto
  ultimately show ?thesis by (simp add: escape_path_def py_replace_char)
qed

lemma tokens_escaped:
  "CHR ''$'' \<notin> set w \<Longrightarrow> CHR ''|'' \<notin> set w \<Longrightarrow>
    ninja_tokens acc (escape_path w @ rest) = ninja_tokens (acc @ w) rest"
proof (induction w arbitrary: acc)
  case (Cons c w)
  have "escape_path (c # w) = (if c = CHR '' '' then ''$ '' else if c = CHR '':'' then ''$:'' else [c]) @ escape_path w"
    using Cons.prems by (simp add: escape_path_chars)
  then show ?case using Cons by auto
qed (simp add: escape_path_chars)

lemma tokens_words:
  "\<forall>w\<in>set ws. path_word w \<Longrightarrow> rest = [] \<or> hd rest \<in> {CHR '' '', CHR '':''} \<Longrightarrow>
    ws \<noteq> [] \<Longrightarrow> ninja_tokens [] rest = Some ts \<Longrightarrow>
    ninja_tokens [] (join_with '' '' (map escape_path ws) @ rest) = Some (map Word ws @ ts)"
proof (induction ws rule: induct_list012)
  case (2 w)
  then have "ninja_tokens [] (escape_path w @ rest) = ninja_tokens w rest"
    using tokens_escaped [of w "[]" rest] by (simp add: path_word_def)
  moreover have "ninja_tokens w rest = Some (Word w # ts)"
    using 2 by (cases rest) (auto simp: path_word_def word_token_def)
  ultimately show ?case by simp
next
  case (3 v w ws)
  then have "ninja_tokens [] (escape_path v @ CHR '' '' # join_with '' '' (map escape_path (w # ws)) @ rest)
      = ninja_tokens v (CHR '' '' # join_with '' '' (map escape_path (w # ws)) @ rest)"
    using tokens_escaped [of v "[]"] by (simp add: path_word_def)
  then show ?case using 3 by (simp add: path_word_def word_token_def)
qed simp

lemma emap_as_str: "emap (\<lambda>x. ebind (as_str x) (\<lambda>s. Inr (escape_path s))) (map PStr ws) = Inr (map escape_path ws)"
  by (induction ws) auto

lemma escape_path_id: "\<lbrakk>CHR ''$'' \<notin> set w; CHR '' '' \<notin> set w; CHR '':'' \<notin> set w\<rbrakk> \<Longrightarrow> escape_path w = w"
  by (simp add: escape_path_chars) (induction w; auto)

text \<open>The inputs after the rule name, each mark with the paths that follow it.\<close>

definition marked :: "string \<Rightarrow> string list \<Rightarrow> string list" where
  "marked m ws = (if ws = [] then [] else m # map escape_path ws)"

lemma join_append:
  "xs \<noteq> [] \<Longrightarrow> join_with sep (xs @ ys) = join_with sep xs @ (if ys = [] then [] else sep @ join_with sep ys)"
proof (induction xs rule: induct_list012)
  case (2 x)
  then show ?case by (cases ys) simp_all
qed auto

lemma tokens_marked:
  assumes "\<forall>w\<in>set ws. path_word w" and "ws \<noteq> []" and "m = ''|'' \<and> t = Pipe \<or> m = ''||'' \<and> t = Pipe2"
    and "rest = [] \<or> hd rest = CHR '' ''" and "ninja_tokens [] rest = Some ts"
  shows "ninja_tokens [] (CHR '' '' # join_with '' '' (marked m ws) @ rest) = Some (t # map Word ws @ ts)"
proof -
  have w: "ninja_tokens [] (join_with '' '' (map escape_path ws) @ rest) = Some (map Word ws @ ts)"
    by (rule tokens_words) (use assms in auto)
  have "join_with '' '' (m # map escape_path ws) = m @ '' '' @ join_with '' '' (map escape_path ws)"
    using assms(2) by (cases ws) auto
  then show ?thesis using assms(2,3) w by (auto simp: marked_def word_token_def)
qed



end
