(* ===== verification/EasyXml.thy ===== *)
theory EasyXml
  imports PyVal
begin

text \<open>
  \<open>gyp/easy_xml.py\<close>: turning nested lists into XML text and writing it only when it changed;
  and the deep copy of \<open>gyp/simple_copy.py\<close>. A specification is a value: a list of a name, an
  optional dictionary of attributes, and strings or further specifications.
\<close>

section \<open>Escaping\<close>

definition xml_escape_map :: "char \<Rightarrow> string option" where
  "xml_escape_map c =
     (if c = CHR 0x22 then Some ''&quot;''
      else if c = CHR 0x27 then Some ''&apos;''
      else if c = CHR ''<'' then Some ''&lt;''
      else if c = CHR ''>'' then Some ''&gt;''
      else if c = CHR ''&'' then Some ''&amp;''
      else if c = CHR 0x0A then Some ''&#xA;''
      else if c = CHR 0x0D then Some ''&#xD;''
      else None)"

definition xml_escape_char :: "bool \<Rightarrow> char \<Rightarrow> string" where
  "xml_escape_char attr c =
     (if attr \<and> c = CHR 0x27 then [c]
      else case xml_escape_map c of None \<Rightarrow> [c] | Some e \<Rightarrow> e)"

definition XmlEscape :: "string \<Rightarrow> bool \<Rightarrow> string" where
  "XmlEscape v attr = concat (map (xml_escape_char attr) v)"

section \<open>Elements\<close>

definition indentation :: "bool \<Rightarrow> nat \<Rightarrow> string" where
  "indentation pretty level = (if pretty then replicate (2 * level) (CHR '' '') else [])"

definition new_line :: "bool \<Rightarrow> string" where
  "new_line pretty = (if pretty then [CHR 0x0A] else [])"

definition attr_part :: "string \<times> pyval \<Rightarrow> string res" where
  "attr_part p = ebind (as_str (snd p)) (\<lambda>v.
     Inr ('' '' @ fst p @ ''='' @ [CHR 0x22] @ XmlEscape v True @ [CHR 0x22]))"

definition split_attrs :: "pyval list \<Rightarrow> pydict \<times> pyval list" where
  "split_attrs rest = (case rest of PDict d # body \<Rightarrow> (d, body) | _ \<Rightarrow> ([], rest))"

lemma split_attrs_subset: "set (snd (split_attrs rest)) \<subseteq> set rest"
  by (cases rest) (auto simp: split_attrs_def split: pyval.splits)

lemma split_attrs_size:
  assumes "(attrs, body) = split_attrs rest" and "child \<in> set body"
  shows "size child < Suc (size_list size rest)"
proof -
  have "child \<in> set rest" using assms split_attrs_subset [of rest] by (metis snd_conv subsetD)
  then show ?thesis by (induction rest) auto
qed

definition is_text :: "pyval \<Rightarrow> bool" where
  "is_text v = (case v of PStr _ \<Rightarrow> True | _ \<Rightarrow> False)"

text \<open>The parts of one element, from its name, attributes and the parts of its children.\<close>

definition element_parts ::
  "bool \<Rightarrow> nat \<Rightarrow> string \<Rightarrow> string list \<Rightarrow> pyval list \<Rightarrow> string list list \<Rightarrow> string list" where
  "element_parts pretty level name attrs body children =
     [indentation pretty level @ ''<'' @ name] @ attrs
     @ (if body = [] then [''/>'' @ new_line pretty]
        else let multi_line = (\<not> list_all is_text body) in
          [''>'']
          @ (if multi_line \<and> new_line pretty \<noteq> [] then [new_line pretty] else [])
          @ concat children
          @ (if multi_line \<and> indentation pretty level \<noteq> [] then [indentation pretty level] else [])
          @ [''</'' @ name @ ''>'' @ new_line pretty])"

function (sequential) ConstructContentList :: "bool \<Rightarrow> nat \<Rightarrow> pyval \<Rightarrow> string list res" where
  "ConstructContentList pretty level (PList spec) =
     (case spec of
        [] \<Rightarrow> Inl IndexErr
      | name # rest \<Rightarrow>
          if \<not> is_text name then Inl (PlainExc (''The first item of an EasyXml specification should be a string.  Specification was '' @ py_str (PList spec)))
          else
            let (attrs, body) = split_attrs rest in
            ebind (emap attr_part (sort_key fst attrs)) (\<lambda>as.
            ebind (emap (\<lambda>child. case child of
                     PStr s \<Rightarrow> Inr [XmlEscape s False]
                   | _ \<Rightarrow> ConstructContentList pretty (level + 1) child)
                   body) (\<lambda>cs.
            Inr (element_parts pretty level (py_str name) as body cs))))"
| "ConstructContentList pretty level (PStr spec) =
     (case spec of
        [] \<Rightarrow> Inl IndexErr
      | c # cs \<Rightarrow> Inr (element_parts pretty level [c] [] (map (\<lambda>x. PStr [x]) cs)
                    (map (\<lambda>x. [XmlEscape [x] False]) cs)))"
| "ConstructContentList pretty level (PDict d) = Inl (KeyErr ''0'')"
| "ConstructContentList pretty level _ = Inl TypeErr"
  by pat_completeness auto

termination
  by (relation "measure (\<lambda>(_, _, v). size v)") (auto dest!: split_attrs_size)

definition XmlToString :: "pyval \<Rightarrow> string \<Rightarrow> bool \<Rightarrow> string res" where
  "XmlToString content encoding pretty =
     ebind (ConstructContentList pretty 0 content) (\<lambda>parts.
       Inr (''<?xml version='' @ [CHR 0x22] @ ''1.0'' @ [CHR 0x22] @ '' encoding='' @ [CHR 0x22] @ encoding
            @ [CHR 0x22] @ ''?>'' @ (if pretty then [CHR 0x0A] else []) @ concat parts))"

section \<open>Writing only on change\<close>

text \<open>
  The files by path; the log records each opening for writing. \<open>linesep_crlf\<close> says whether
  \<open>os.linesep\<close> is CR-LF, \<open>readable\<close> which existing files can be read.
\<close>

record files =
  f_content :: "string \<Rightarrow> string option"
  f_written :: "string list"

definition WriteXmlIfChanged ::
  "bool \<Rightarrow> (string \<Rightarrow> bool) \<Rightarrow> pyval \<Rightarrow> string \<Rightarrow> string \<Rightarrow> bool \<Rightarrow> bool \<Rightarrow> files \<Rightarrow> files res" where
  "WriteXmlIfChanged linesep_crlf readable content path encoding pretty win32 fs =
     ebind (XmlToString content encoding pretty) (\<lambda>xml.
       let xml_string = (if win32 \<and> \<not> linesep_crlf then py_replace [CHR 0x0A] [CHR 0x0D, CHR 0x0A] xml else xml);
           existing = (if readable path then f_content fs path else None)
       in Inr (if existing \<noteq> Some xml_string
               then fs\<lparr>f_content := (f_content fs)(path \<mapsto> xml_string), f_written := f_written fs @ [path]\<rparr>
               else fs))"

section \<open>Deep copy\<close>

text \<open>The dispatch by type; a dictionary is rebuilt entry by entry.\<close>

fun deepcopy :: "pyval \<Rightarrow> pyval" where
  "deepcopy (PList xs) = PList (map deepcopy xs)"
| "deepcopy (PDict d) = PDict (foldl (\<lambda>y p. dset (fst p) (snd p) y) [] (map (\<lambda>p. (fst p, deepcopy (snd p))) d))"
| "deepcopy v = v"

lemma foldl_dset_fresh:
  "distinct (map fst (acc @ d)) \<Longrightarrow> foldl (\<lambda>y p. dset (fst p) (snd p) y) acc d = acc @ d"
proof (induction d arbitrary: acc)
  case (Cons p d)
  then have "dset (fst p) (snd p) acc = acc @ [p]"
    by (induction acc) auto
  then show ?case using Cons by simp
qed simp

lemma deepcopy_id: "wf_val v \<Longrightarrow> deepcopy v = v"
proof (induction v)
  case (PList xs)
  then show ?case by (simp add: map_idI)
next
  case (PDict d)
  have "map (\<lambda>p. (fst p, deepcopy (snd p))) d = d"
    using PDict by (intro map_idI) (auto simp: prod_eq_iff)
  then show ?case using PDict foldl_dset_fresh [of "[]" d] by simp
qed simp_all

section \<open>Reading escaped text back\<close>

text \<open>The entities of the escape map, as an XML reader decodes them.\<close>

function xml_unescape :: "string \<Rightarrow> string" where
  "xml_unescape [] = []"
| "xml_unescape (c # cs) =
     (if c \<noteq> CHR ''&'' then c # xml_unescape cs
      else if starts_with cs ''quot;'' then CHR 0x22 # xml_unescape (drop 5 cs)
      else if starts_with cs ''apos;'' then CHR 0x27 # xml_unescape (drop 5 cs)
      else if starts_with cs ''lt;'' then CHR ''<'' # xml_unescape (drop 3 cs)
      else if starts_with cs ''gt;'' then CHR ''>'' # xml_unescape (drop 3 cs)
      else if starts_with cs ''amp;'' then CHR ''&'' # xml_unescape (drop 4 cs)
      else if starts_with cs ''#xA;'' then CHR 0x0A # xml_unescape (drop 4 cs)
      else if starts_with cs ''#xD;'' then CHR 0x0D # xml_unescape (drop 4 cs)
      else c # xml_unescape cs)"
  by pat_completeness auto

termination by (relation "measure length") auto

lemma unescape_char: "xml_unescape (xml_escape_char attr c @ s) = c # xml_unescape s"
  by (simp add: xml_escape_char_def xml_escape_map_def starts_with_def)

lemma escape_char_safe:
  "set (xml_escape_char attr c) \<inter> {CHR ''<'', CHR ''>'', CHR 0x22, CHR 0x0A, CHR 0x0D} = {}"
  by (auto simp: xml_escape_char_def xml_escape_map_def split: if_splits)

text \<open>
  Escaping is lossless and safe: an XML reader decodes the escaped value, in an attribute or
  in text, back to the value, and the escaped value holds no angle bracket, double quote or line
  break that could end the attribute or the text.
\<close>

theorem XmlEscape_roundtrip:
  "xml_unescape (XmlEscape v attr) = v
    \<and> set (XmlEscape v attr) \<inter> {CHR ''<'', CHR ''>'', CHR 0x22, CHR 0x0A, CHR 0x0D} = {}"
proof
  have "xml_unescape (XmlEscape v attr @ s) = v @ xml_unescape s" for s
    by (induction v) (simp_all add: XmlEscape_def unescape_char)
  from this [of "[]"] show "xml_unescape (XmlEscape v attr) = v" by simp
  show "set (XmlEscape v attr) \<inter> {CHR ''<'', CHR ''>'', CHR 0x22, CHR 0x0A, CHR 0x0D} = {}"
    unfolding XmlEscape_def using escape_char_safe by fastforce
qed

end
