(* ===== verification/MergeLogic.thy ===== *)
theory MergeLogic
  imports Common PyVal OrderedSets
begin

text \<open>
  Merging of dictionaries and lists in \<open>gyp/input.py\<close>: which keys hold paths, how a path moves
  from one build file to another, and the merge policies of lists. The values are trees, as
  the code keeps them by copying. What the functions read from their surroundings (the working
  directory through \<open>realpath\<close>, the global \<open>path_sections\<close>, the two build files) is the
  record \<open>merge_ctx\<close>.
\<close>

section \<open>Path sections\<close>

definition base_path_sections :: "string list" where
  "base_path_sections =
     [''destination'', ''files'', ''include_dirs'', ''inputs'', ''libraries'', ''outputs'', ''sources'']"

text \<open>
  The loop tests \<open>section[-1:] in '=+?!'\<close>, which holds for the empty string too.
\<close>

partial_function (option) strip_section :: "string \<Rightarrow> string option" where
  "strip_section s =
     (if s = [] \<or> last s \<in> set ''=+?!'' then strip_section (butlast s) else Some s)"

definition path_suffix :: "string \<Rightarrow> bool" where
  "path_suffix s =
     (CHR ''_'' \<in> set s \<and>
      (let tail = drop (length s - 6) s;
           tail' = (if last tail = CHR ''s'' then butlast tail else tail)
       in ends_with tail' ''_file'' \<or> ends_with tail' ''_path'' \<or> ends_with tail' ''_dir''))"

definition IsPathSection :: "string list \<Rightarrow> string \<Rightarrow> bool option" where
  "IsPathSection path_sections section_name =
     Option.bind (strip_section section_name) (\<lambda>s. Some (s \<in> set path_sections \<or> path_suffix s))"

section \<open>Moving a path between build files\<close>

record merge_ctx =
  mc_realpath :: "string \<Rightarrow> string"
  mc_path_sections :: "string list"
  mc_to_file :: "string option"
  mc_fro_file :: "string option"

text \<open>\<open>exception_re.match(item)\<close>: an optional quote and one of the special characters.\<close>

definition path_exception :: "string \<Rightarrow> bool" where
  "path_exception item =
     (let rest = (if item \<noteq> [] \<and> hd item \<in> {CHR 0x22, CHR 0x27} then tl item else item)
      in rest \<noteq> [] \<and> hd rest \<in> set ''-/$<>^'')"

definition MakePathRelative :: "merge_ctx \<Rightarrow> pyval \<Rightarrow> pyval res" where
  "MakePathRelative c v =
     (if mc_to_file c = mc_fro_file c then Inr v
      else ebind (as_str v) (\<lambda>item.
        if path_exception item then Inr v
        else case (mc_to_file c, mc_fro_file c) of
          (Some to_file, Some fro_file) \<Rightarrow>
            let ret = py_replace [CHR 0x5C] ''/''
                  (normpath (path_join (RelativePath (mc_realpath c) (dirname fro_file) (dirname to_file)) item))
            in if item = [] then Inl IndexErr
               else Inr (PStr (if last item = CHR ''/'' then ret @ ''/'' else ret))
        | _ \<Rightarrow> Inl TypeErr))"

section \<open>Merging lists and dictionaries\<close>

text \<open>One item put into the list under construction, with the prepend position.\<close>

definition put_item :: "bool \<Rightarrow> bool \<Rightarrow> pyval \<Rightarrow> pyval list \<times> nat \<Rightarrow> pyval list \<times> nat" where
  "put_item appending singleton to_item st =
     (case st of (to, prepend_index) \<Rightarrow>
        if appending
        then (if \<not> singleton \<or> to_item \<notin> set to then to @ [to_item] else to, prepend_index)
        else
          let to' = (if singleton then removeAll to_item to else to)
          in (take prepend_index to' @ to_item # drop prepend_index to', prepend_index + 1))"

definition single_item :: "pyval \<Rightarrow> bool" where
  "single_item item = (case item of PStr s \<Rightarrow> \<not> starts_with s ''-'' | PInt _ \<Rightarrow> True | _ \<Rightarrow> False)"

definition list_policy :: "string \<Rightarrow> string \<times> string list \<times> bool \<times> bool" where
  "list_policy k =
     (let ext = last k; base = butlast k in
      if ext = CHR ''='' then (base, [base, base @ ''?''], True, True)
      else if ext = CHR ''+'' then (base, [base @ ''='', base @ ''?''], False, False)
      else if ext = CHR ''?'' then (base, [base, base @ ''='', base @ ''+''], True, False)
      else (k, [k @ ''='', k @ ''?''], True, False))"

definition bad_merge :: "pyval \<Rightarrow> pyval \<Rightarrow> bool" where
  "bad_merge v old = (if is_str_int v then \<not> is_str_int old else py_type v \<noteq> py_type old)"

definition is_path_section :: "merge_ctx \<Rightarrow> string \<Rightarrow> bool res" where
  "is_path_section c k =
     (case IsPathSection (mc_path_sections c) k of None \<Rightarrow> Inl NoReturn | Some b \<Rightarrow> Inr b)"

text \<open>
  For a list value: the key it is merged under, the list it is merged into (\<open>None\<close> to leave the
  dictionary as it is), and whether to append.
\<close>

definition merge_target :: "string \<Rightarrow> pydict \<Rightarrow> pydict \<Rightarrow> (string \<times> pyval list \<times> bool) option res" where
  "merge_target k fro to =
     (if k = [] then Inl IndexErr
      else case list_policy k of (list_base, lists_incompatible, appending, replace) \<Rightarrow>
        (case filter (\<lambda>i. has_key i fro) lists_incompatible of
           i # _ \<Rightarrow> Inl (GypErr (''Incompatible list policies '' @ k @ '' and '' @ i))
         | [] \<Rightarrow>
             (case (if replace then Some (PList []) else dget to list_base) of
                None \<Rightarrow> Inr (Some (list_base, [], appending))
              | Some old \<Rightarrow>
                  if last k = CHR ''?'' then Inr None
                  else case old of PList xs \<Rightarrow> Inr (Some (list_base, xs, appending)) | _ \<Rightarrow> Inl TypeErr)))"

function (sequential)
  MergeLists :: "merge_ctx \<Rightarrow> pyval list \<Rightarrow> pyval list \<Rightarrow> bool \<Rightarrow> bool \<Rightarrow> pyval list res" and
  MergeDicts :: "merge_ctx \<Rightarrow> pydict \<Rightarrow> pydict \<Rightarrow> pydict res"
where
  "MergeLists c to fro is_paths appending =
     ebind (efold (\<lambda>st item.
         ebind (case item of
                  PStr s \<Rightarrow> if is_paths then MakePathRelative c item else Inr item
                | PInt i \<Rightarrow> if is_paths then MakePathRelative c item else Inr item
                | PDict d \<Rightarrow> ebind (MergeDicts c [] d) (\<lambda>d'. Inr (PDict d'))
                | PList xs \<Rightarrow> ebind (MergeLists c [] xs False True) (\<lambda>xs'. Inr (PList xs'))
                | _ \<Rightarrow> Inl TypeErr)
           (\<lambda>to_item. Inr (put_item appending (single_item item) to_item st)))
       (to, 0) fro) (\<lambda>st. Inr (fst st))"
| "MergeDicts c to fro =
     efold (\<lambda>to kv. case kv of (k, v) \<Rightarrow>
         if (case dget to k of Some old \<Rightarrow> bad_merge v old | None \<Rightarrow> False) then Inl TypeErr
         else case v of
           PStr s \<Rightarrow> ebind (is_path_section c k) (\<lambda>p.
             if p then ebind (MakePathRelative c v) (\<lambda>v'. Inr (dset k v' to)) else Inr (dset k v to))
         | PInt i \<Rightarrow> ebind (is_path_section c k) (\<lambda>p.
             if p then ebind (MakePathRelative c v) (\<lambda>v'. Inr (dset k v' to)) else Inr (dset k v to))
         | PDict d \<Rightarrow>
             ebind (as_dict (dget_or to k (PDict []))) (\<lambda>old.
             ebind (MergeDicts c old d) (\<lambda>d'. Inr (dset k (PDict d') to)))
         | PList xs \<Rightarrow>
             ebind (merge_target k fro to) (\<lambda>t.
               case t of
                 None \<Rightarrow> Inr to
               | Some (list_base, old, appending) \<Rightarrow>
                   ebind (is_path_section c list_base) (\<lambda>is_paths.
                   ebind (MergeLists c old xs is_paths appending) (\<lambda>xs'.
                   Inr (dset list_base (PList xs') to))))
         | _ \<Rightarrow> Inl TypeErr) to fro"
  by pat_completeness auto

termination
  by (relation "measure (\<lambda>x. case x of Inl (_, _, fro, _, _) \<Rightarrow> size_list size fro
      | Inr (_, _, fro) \<Rightarrow> size_list (size_prod (\<lambda>_. 0) size) fro)")
    (auto dest!: size_list_item size_dict_item)

section \<open>Path sections are the regular expression\<close>

definition section_base :: "string \<Rightarrow> string" where
  "section_base s = rev (dropWhile (\<lambda>c. c \<in> set ''=+?!'') (rev s))"

lemma section_base_snoc:
  "section_base (s @ [c]) = (if c \<in> set ''=+?!'' then section_base s else s @ [c])"
  by (simp add: section_base_def)

lemma strip_section_Some:
  assumes "strip_section s = Some r"
  shows "section_base s \<noteq> [] \<and> r = section_base s"
proof (rule strip_section.raw_induct [where P = "\<lambda>s r. section_base s \<noteq> [] \<and> r = section_base s", OF _ assms])
  fix rec :: "string \<Rightarrow> string option" and s r
  assume IH: "\<And>s r. rec s = Some r \<Longrightarrow> section_base s \<noteq> [] \<and> r = section_base s"
    and body: "(if s = [] \<or> last s \<in> set ''=+?!'' then rec (butlast s) else Some s) = Some r"
  show "section_base s \<noteq> [] \<and> r = section_base s"
  proof (cases s rule: rev_cases)
    case Nil
    then show ?thesis using body IH [of "[]" r] by simp
  next
    case (snoc t c)
    then show ?thesis using body IH [of t r] by (auto simp: section_base_snoc split: if_splits)
  qed
qed

lemma strip_section_eq [code]: "strip_section s = (if section_base s = [] then None else Some (section_base s))"
proof (cases "section_base s = []")
  case True
  then have "strip_section s \<noteq> Some r" for r using strip_section_Some [of s r] by auto
  then show ?thesis using True by (cases "strip_section s") auto
next
  case False
  then have "strip_section s = Some (section_base s)"
  proof (induction s rule: rev_induct)
    case (snoc c s)
    then show ?case by (subst strip_section.simps) (auto simp: section_base_snoc split: if_splits)
  qed (simp add: section_base_def)
  then show ?thesis using False by simp
qed

lemma ends_with_drop: "n = 0 \<or> length suf + n \<le> length s \<Longrightarrow> ends_with (drop n s) suf = ends_with s suf"
proof -
  assume n: "n = 0 \<or> length suf + n \<le> length s"
  show ?thesis
  proof
    assume "ends_with (drop n s) suf"
    then obtain t where "drop n s = t @ suf" by (auto simp: ends_with_iff)
    then have "s = (take n s @ t) @ suf" by (metis append.assoc append_take_drop_id)
    then show "ends_with s suf" unfolding ends_with_iff by blast
  next
    assume "ends_with s suf"
    then obtain t where t: "s = t @ suf" by (auto simp: ends_with_iff)
    then have "n \<le> length t" using n by auto
    then show "ends_with (drop n s) suf" unfolding ends_with_iff by (simp add: t)
  qed
qed

definition path_regexp :: "string \<Rightarrow> bool" where
  "path_regexp s \<longleftrightarrow>
     (\<exists>p d e. s = p @ ''_'' @ d @ e \<and> (d = ''dir'' \<or> d = ''file'' \<or> d = ''path'') \<and> (e = [] \<or> e = ''s''))"

lemma path_suffix_regexp: "path_suffix s = path_regexp s"
proof (cases s rule: rev_cases)
  case Nil
  then show ?thesis by (simp add: path_suffix_def path_regexp_def)
next
  case (snoc t c)
  let ?n = "length s - 6"
  define s' where "s' = (if c = CHR ''s'' then t else s)"
  let ?ends = "\<lambda>x. ends_with x ''_file'' \<or> ends_with x ''_path'' \<or> ends_with x ''_dir''"
  have tail: "drop ?n s = drop ?n t @ [c]" using snoc by simp
  have tail': "(if last (drop ?n s) = CHR ''s'' then butlast (drop ?n s) else drop ?n s) = drop ?n s'"
    unfolding tail s'_def using tail by simp
  have "ends_with (drop ?n s') suf = ends_with s' suf" if "length suf \<le> 5" for suf
    using that snoc by (intro ends_with_drop) (auto simp: s'_def)
  then have "?ends (drop ?n s') = ?ends s'" by simp
  moreover have us: "CHR ''_'' \<in> set s" if "?ends s'"
    using that snoc by (auto simp: s'_def ends_with_iff split: if_splits)
  ultimately have "path_suffix s = ?ends s'"
    unfolding path_suffix_def Let_def tail' by blast
  also have "\<dots> = path_regexp s"
  proof
    assume "?ends s'"
    then obtain p d where p: "s' = p @ ''_'' @ d" "d = ''dir'' \<or> d = ''file'' \<or> d = ''path''"
      by (auto simp: ends_with_iff)
    show "path_regexp s"
    proof (cases "c = CHR ''s''")
      case True
      then have "s = p @ ''_'' @ d @ ''s''" using p(1) snoc by (simp add: s'_def)
      then show ?thesis using p(2) unfolding path_regexp_def by blast
    next
      case False
      then have "s = p @ ''_'' @ d @ []" using p(1) snoc by (simp add: s'_def)
      then show ?thesis using p(2) unfolding path_regexp_def by blast
    qed
  next
    assume "path_regexp s"
    then obtain p d e where s: "s = p @ ''_'' @ d @ e" "d = ''dir'' \<or> d = ''file'' \<or> d = ''path''" "e = [] \<or> e = ''s''"
      unfolding path_regexp_def by blast
    have "last s = c" "butlast s = t" using snoc by simp_all
    then have "s' = p @ ''_'' @ d" using s by (auto simp: s'_def butlast_append)
    then show "?ends s'" using s(2) by (auto simp: ends_with_iff)
  qed
  finally show ?thesis .
qed

text \<open>
  C29: \<open>IsPathSection\<close> strips the trailing merge characters and then holds exactly for the
  registered path sections and for the names that match \<open>_(dir|file|path)s?$\<close>; for a name made
  of merge characters alone, the empty one included, its loop never ends.
\<close>

theorem IsPathSection_regexp:
  "IsPathSection path_sections s =
     (if set s \<subseteq> set ''=+?!'' then None
      else Some (section_base s \<in> set path_sections \<or> path_regexp (section_base s)))"
proof -
  have "section_base s = [] \<longleftrightarrow> set s \<subseteq> set ''=+?!''"
    unfolding section_base_def by (auto simp: dropWhile_eq_Nil_conv)
  then show ?thesis by (simp add: IsPathSection_def strip_section_eq path_suffix_regexp)
qed

section \<open>Merging lists of plain items\<close>

text \<open>One item and one entry of the two loops, and the loops over them.\<close>

definition merged_item :: "merge_ctx \<Rightarrow> bool \<Rightarrow> pyval \<Rightarrow> pyval res" where
  "merged_item c is_paths item =
     (case item of
        PStr s \<Rightarrow> if is_paths then MakePathRelative c item else Inr item
      | PInt i \<Rightarrow> if is_paths then MakePathRelative c item else Inr item
      | PDict d \<Rightarrow> ebind (MergeDicts c [] d) (\<lambda>d'. Inr (PDict d'))
      | PList xs \<Rightarrow> ebind (MergeLists c [] xs False True) (\<lambda>xs'. Inr (PList xs'))
      | _ \<Rightarrow> Inl TypeErr)"

definition merged_plain :: "merge_ctx \<Rightarrow> string \<Rightarrow> pyval \<Rightarrow> pyval res" where
  "merged_plain c k v = ebind (is_path_section c k) (\<lambda>p. if p then MakePathRelative c v else Inr v)"

definition merged_list :: "merge_ctx \<Rightarrow> pydict \<Rightarrow> pydict \<Rightarrow> string \<Rightarrow> pyval list \<Rightarrow> pydict res" where
  "merged_list c fro to k xs =
     ebind (merge_target k fro to) (\<lambda>t.
       case t of
         None \<Rightarrow> Inr to
       | Some (list_base, old, appending) \<Rightarrow>
           ebind (is_path_section c list_base) (\<lambda>is_paths.
           ebind (MergeLists c old xs is_paths appending) (\<lambda>xs'.
           Inr (dset list_base (PList xs') to))))"

definition merge_entry :: "merge_ctx \<Rightarrow> pydict \<Rightarrow> pydict \<Rightarrow> string \<times> pyval \<Rightarrow> pydict res" where
  "merge_entry c fro to kv =
     (case kv of (k, v) \<Rightarrow>
        if (case dget to k of Some old \<Rightarrow> bad_merge v old | None \<Rightarrow> False) then Inl TypeErr
        else case v of
          PStr s \<Rightarrow> ebind (merged_plain c k v) (\<lambda>v'. Inr (dset k v' to))
        | PInt i \<Rightarrow> ebind (merged_plain c k v) (\<lambda>v'. Inr (dset k v' to))
        | PDict d \<Rightarrow>
            ebind (as_dict (dget_or to k (PDict []))) (\<lambda>old.
            ebind (MergeDicts c old d) (\<lambda>d'. Inr (dset k (PDict d') to)))
        | PList xs \<Rightarrow> merged_list c fro to k xs
        | _ \<Rightarrow> Inl TypeErr)"

declare MergeLists.simps [simp del] MergeDicts.simps [simp del]

lemma MergeLists_loop:
  "MergeLists c to fro is_paths appending =
     ebind (efold (\<lambda>st item. ebind (merged_item c is_paths item)
              (\<lambda>x. Inr (put_item appending (single_item item) x st))) (to, 0) fro) (\<lambda>st. Inr (fst st))"
  by (subst MergeLists.simps) (simp only: merged_item_def [abs_def])

lemma MergeDicts_loop: "MergeDicts c to fro = efold (merge_entry c fro) to fro"
proof -
  have eq: "ebind (is_path_section c k) (\<lambda>p.
        if p then ebind (MakePathRelative c v) (\<lambda>v'. Inr (dset k v' to)) else Inr (dset k v to))
      = ebind (merged_plain c k v) (\<lambda>v'. Inr (dset k v' to))" for v k to
    unfolding merged_plain_def by (cases "is_path_section c k") simp_all
  show ?thesis
    by (subst MergeDicts.simps) (simp only: eq merge_entry_def [abs_def] merged_list_def [abs_def])
qed

definition plain_item :: "pyval \<Rightarrow> bool" where
  "plain_item v \<longleftrightarrow> is_str_int v \<and> single_item v"

lemma merge_plain_efold:
  assumes "\<forall>v\<in>set fro. plain_item v"
  shows "MergeLists c to fro False appending = Inr (fst (foldl (\<lambda>st v. put_item appending True v st) (to, 0) fro))"
proof -
  have "ebind (merged_item c False v) (\<lambda>x. Inr (put_item appending (single_item v) x st))
      = Inr (put_item appending True v st)" if "v \<in> set fro" for st v
    using assms that by (cases v) (auto simp: plain_item_def merged_item_def)
  then show ?thesis
    unfolding MergeLists_loop by (subst efold_pure [where g = "\<lambda>st v. put_item appending True v st"]) simp_all
qed

lemma put_item_append: "fst (foldl (\<lambda>st v. put_item True True v st) (to, n) fro) = foldl add_if_new to fro"
  by (induction fro arbitrary: to n) (auto simp: put_item_def add_if_new_def)

lemma put_item_prepend:
  assumes "distinct (pre @ fro)" and "set rest \<inter> set pre = {}"
  shows "foldl (\<lambda>st v. put_item False True v st) (pre @ rest, length pre) fro
    = ((pre @ fro) @ filter (\<lambda>v. v \<notin> set fro) rest, length (pre @ fro))"
  using assms
proof (induction fro arbitrary: pre rest)
  case (Cons v fro)
  have "put_item False True v (pre @ rest, length pre) = ((pre @ [v]) @ removeAll v rest, length (pre @ [v]))"
    using Cons.prems by (simp add: put_item_def removeAll_id)
  moreover have "set (removeAll v rest) \<inter> set (pre @ [v]) = {}" using Cons.prems by auto
  moreover have "filter (\<lambda>x. x \<notin> set fro) (removeAll v rest) = filter (\<lambda>x. x \<notin> set (v # fro)) rest"
    by (induction rest) auto
  ultimately show ?case using Cons.IH [of "pre @ [v]" "removeAll v rest"] Cons.prems by simp
qed simp

text \<open>
  Merging a list of plain items (strings that are not flags, and integers) that are not paths:
  appending keeps the old list and adds each new item once, at its first position; prepending a
  list without repeats puts it in front, in its order, and drops the old occurrences behind it.
\<close>

theorem MergeLists_plain:
  assumes "\<forall>v\<in>set fro. plain_item v" and "distinct fro"
  shows "MergeLists c to fro False True = Inr (to @ filter (\<lambda>v. v \<notin> set to) fro)
    \<and> MergeLists c to fro False False = Inr (fro @ filter (\<lambda>v. v \<notin> set fro) to)"
proof
  have "foldl add_if_new to fro = to @ filter (\<lambda>v. v \<notin> set to) fro"
    using assms(2)
  proof (induction fro arbitrary: to)
    case (Cons v fro)
    have "filter (\<lambda>x. x \<notin> set (to @ [v])) fro = filter (\<lambda>x. x \<notin> set to) fro"
      using Cons.prems by (intro filter_cong) auto
    then show ?case using Cons by (cases "v \<in> set to") simp_all
  qed simp
  then show "MergeLists c to fro False True = Inr (to @ filter (\<lambda>v. v \<notin> set to) fro)"
    by (simp only: merge_plain_efold [OF assms(1)] put_item_append)
  show "MergeLists c to fro False False = Inr (fro @ filter (\<lambda>v. v \<notin> set fro) to)"
    using merge_plain_efold [OF assms(1), of c to False] put_item_prepend [of "[]" fro to] assms(2)
    by simp
qed

theorem MergeLists_plain_witness:
  "MergeLists \<lparr>mc_realpath = id, mc_path_sections = [], mc_to_file = None, mc_fro_file = None\<rparr>
     [PStr ''b'', PStr ''x''] [PStr ''a'', PStr ''b''] False True = Inr [PStr ''b'', PStr ''x'', PStr ''a'']
    \<and> MergeLists \<lparr>mc_realpath = id, mc_path_sections = [], mc_to_file = None, mc_fro_file = None\<rparr>
     [PStr ''b'', PStr ''x''] [PStr ''a'', PStr ''b''] False False
      = Inr [PStr ''a'', PStr ''b'', PStr ''x'']"
  using MergeLists_plain [of "[PStr ''a'', PStr ''b'']"
      "\<lparr>mc_realpath = id, mc_path_sections = [], mc_to_file = None, mc_fro_file = None\<rparr>"
      "[PStr ''b'', PStr ''x'']"]
  by (simp add: plain_item_def single_item_def starts_with_def)

text \<open>
  Prepending a list with a repeated item does not put it in front: removing the first copy leaves
  the position one too far.
\<close>

lemma MergeLists_prepend_repeat:
  "MergeLists c [PStr ''x''] [PStr ''a'', PStr ''a''] False False = Inr [PStr ''x'', PStr ''a'']"
  by (simp add: MergeLists_loop merged_item_def put_item_def single_item_def starts_with_def)

section \<open>Well-formedness and frame\<close>

text \<open>The keys of the target a merge of \<open>fro\<close> may touch.\<close>

definition touched :: "pydict \<Rightarrow> string set" where
  "touched fro = {k'. \<exists>(k, v)\<in>set fro. k' = (if is_list v then fst (list_policy k) else k)}"

lemma wf_put_item:
  assumes "\<forall>x\<in>set (fst st). wf_val x" and "wf_val v"
  shows "\<forall>x\<in>set (fst (put_item appending single v st)). wf_val x"
  using assms by (cases st) (auto simp: put_item_def Let_def dest: in_set_takeD in_set_dropD)

lemma merged_plain_wf: "is_str_int v \<Longrightarrow> merged_plain c k v = Inr v' \<Longrightarrow> wf_val v'"
  by (cases v) (auto simp: merged_plain_def MakePathRelative_def Let_def split: if_splits option.splits)

lemma merge_target_Some:
  "merge_target k fro to = Inr (Some (b, old, appending)) \<Longrightarrow>
    b = fst (list_policy k) \<and> (old = [] \<or> dget to b = Some (PList old))"
  by (auto simp: merge_target_def split: prod.splits list.splits option.splits if_splits pyval.splits)

text \<open>Induction over the values merged from, for both functions at once.\<close>

lemma merge_induct:
  assumes L: "\<And>c to fro is_paths appending.
      (\<And>xs to' p a. PList xs \<in> set fro \<Longrightarrow> P c to' xs p a) \<Longrightarrow>
      (\<And>d to'. PDict d \<in> set fro \<Longrightarrow> Q c to' d) \<Longrightarrow> P c to fro is_paths appending"
    and D: "\<And>c to fro.
      (\<And>k xs to' p a. (k, PList xs) \<in> set fro \<Longrightarrow> P c to' xs p a) \<Longrightarrow>
      (\<And>k d to'. (k, PDict d) \<in> set fro \<Longrightarrow> Q c to' d) \<Longrightarrow> Q c to fro"
  shows "P c to fro is_paths appending" and "Q c dto dfro"
proof -
  let ?ds = "size_list (size_prod (\<lambda>_::string. 0) (size :: pyval \<Rightarrow> nat))"
  have both: "(\<forall>c to fro p a. size_list size fro < n \<longrightarrow> P c to fro p a) \<and> (\<forall>c to fro. ?ds fro < n \<longrightarrow> Q c to fro)" for n
  proof (induction n)
    case (Suc n)
    have "P c to fro p a" if "size_list size fro < Suc n" for c to fro p a
      by (rule L) (use Suc that in \<open>auto dest!: size_list_item\<close>)
    moreover have "Q c to fro" if "?ds fro < Suc n" for c to fro
      by (rule D) (use Suc that in \<open>auto dest!: size_dict_item\<close>)
    ultimately show ?case by blast
  qed simp
  show "P c to fro is_paths appending" "Q c dto dfro" using both lessI by blast+
qed

lemma merged_item_plain_wf: "is_str_int v \<Longrightarrow> merged_item c p v = Inr x \<Longrightarrow> wf_val x"
  by (cases v) (auto simp: merged_item_def MakePathRelative_def Let_def split: if_splits option.splits)

definition list_wf_goal :: "merge_ctx \<Rightarrow> pyval list \<Rightarrow> pyval list \<Rightarrow> bool \<Rightarrow> bool \<Rightarrow> bool" where
  "list_wf_goal c to fro p a \<longleftrightarrow> (\<forall>r. (\<forall>x\<in>set to. wf_val x) \<longrightarrow> (\<forall>x\<in>set fro. wf_val x) \<longrightarrow>
     MergeLists c to fro p a = Inr r \<longrightarrow> (\<forall>x\<in>set r. wf_val x))"

definition dict_wf_goal :: "merge_ctx \<Rightarrow> pydict \<Rightarrow> pydict \<Rightarrow> bool" where
  "dict_wf_goal c to fro \<longleftrightarrow> (\<forall>r. wf_val (PDict to) \<longrightarrow> wf_val (PDict fro) \<longrightarrow>
     MergeDicts c to fro = Inr r \<longrightarrow> wf_val (PDict r))"

lemma merge_wf_step_list:
  assumes xs: "\<And>xs to' p a. PList xs \<in> set fro \<Longrightarrow> list_wf_goal c to' xs p a"
    and ds: "\<And>d to'. PDict d \<in> set fro \<Longrightarrow> dict_wf_goal c to' d"
  shows "list_wf_goal c to fro is_paths appending"
  unfolding list_wf_goal_def
proof (intro allI impI)
  fix r assume to: "\<forall>x\<in>set to. wf_val x" and fro: "\<forall>x\<in>set fro. wf_val x"
    and r: "MergeLists c to fro is_paths appending = Inr r"
  have item: "wf_val x" if v: "v \<in> set fro" "merged_item c is_paths v = Inr x" for v x
  proof (cases v)
    case (PList ys)
    then obtain zs where "MergeLists c [] ys False True = Inr zs" "x = PList zs"
      using v(2) by (auto simp: merged_item_def)
    moreover have "\<forall>y\<in>set ys. wf_val y" using fro v(1) PList by fastforce
    ultimately show ?thesis
      using xs [of ys "[]" False True] v(1) PList unfolding list_wf_goal_def by auto
  next
    case (PDict d)
    then obtain e where "MergeDicts c [] d = Inr e" "x = PDict e"
      using v(2) by (auto simp: merged_item_def)
    moreover have "wf_val (PDict d)" using fro v(1) PDict by blast
    ultimately show ?thesis using ds [of d "[]"] v(1) PDict unfolding dict_wf_goal_def by simp
  qed (use v in \<open>auto simp: merged_item_def MakePathRelative_def Let_def split: if_splits option.splits\<close>)
  obtain st where st: "efold (\<lambda>st item. ebind (merged_item c is_paths item)
      (\<lambda>x. Inr (put_item appending (single_item item) x st))) (to, 0) fro = Inr st" "r = fst st"
    using r unfolding MergeLists_loop by auto
  have "\<forall>x\<in>set (fst st). wf_val x"
  proof (rule efold_invariant [OF st(1), where P = "\<lambda>st. \<forall>x\<in>set (fst st). wf_val x"])
    fix s s' v assume v: "v \<in> set fro" "\<forall>x\<in>set (fst s). wf_val x"
      and e: "ebind (merged_item c is_paths v) (\<lambda>x. Inr (put_item appending (single_item v) x s)) = Inr s'"
    from e obtain x where x: "merged_item c is_paths v = Inr x" "s' = put_item appending (single_item v) x s"
      by auto
    show "\<forall>x\<in>set (fst s'). wf_val x" unfolding x(2) by (rule wf_put_item [OF v(2) item [OF v(1) x(1)]])
  qed (use to in simp)
  then show "\<forall>x\<in>set r. wf_val x" using st(2) by simp
qed

lemma merge_wf_step_dict:
  assumes xs: "\<And>k xs to' p a. (k, PList xs) \<in> set fro \<Longrightarrow> list_wf_goal c to' xs p a"
    and ds: "\<And>k d to'. (k, PDict d) \<in> set fro \<Longrightarrow> dict_wf_goal c to' d"
  shows "dict_wf_goal c to fro"
  unfolding dict_wf_goal_def
proof (intro allI impI)
  fix r assume to: "wf_val (PDict to)" and fro: "wf_val (PDict fro)" and r: "MergeDicts c to fro = Inr r"
  show "wf_val (PDict r)"
  proof (rule efold_invariant [OF r [unfolded MergeDicts_loop], where P = "\<lambda>s. wf_val (PDict s)"])
    fix s s' kv assume kv: "kv \<in> set fro" and s: "wf_val (PDict s)" and e: "merge_entry c fro s kv = Inr s'"
    obtain k v where k: "kv = (k, v)" by (cases kv)
    have v: "wf_val v" using fro kv k by fastforce
    show "wf_val (PDict s')"
    proof (cases v)
      case (PList ys)
      then obtain t where t: "merge_target k fro s = Inr t"
          "(case t of None \<Rightarrow> Inr s | Some (b, old, a) \<Rightarrow> ebind (is_path_section c b) (\<lambda>p.
             ebind (MergeLists c old ys p a) (\<lambda>xs'. Inr (dset b (PList xs') s)))) = Inr s'"
        using e k by (auto simp: merge_entry_def merged_list_def split: if_splits)
      show ?thesis
      proof (cases t)
        case None
        then show ?thesis using t(2) s by simp
      next
        case (Some u)
        obtain b old a where u: "u = (b, old, a)" by (cases u)
        then obtain p zs where z: "MergeLists c old ys p a = Inr zs" "s' = dset b (PList zs) s"
          using t(2) Some by auto
        have "\<forall>x\<in>set old. wf_val x"
          using merge_target_Some [of k fro s b old a] t(1) Some u s wf_val_dget [of s b "PList old"] by auto
        moreover have "\<forall>y\<in>set ys. wf_val y" using v PList by simp
        ultimately have "\<forall>x\<in>set zs. wf_val x"
          using xs [of k ys old p a] kv k PList z(1) unfolding list_wf_goal_def by blast
        then show ?thesis unfolding z(2) by (intro wf_val_dset [OF s]) simp
      qed
    next
      case (PDict d)
      then obtain old e where e: "as_dict (dget_or s k (PDict [])) = Inr old" "MergeDicts c old d = Inr e" "s' = dset k (PDict e) s"
        using e k by (auto simp: merge_entry_def split: if_splits)
      have "wf_val (dget_or s k (PDict []))"
        using wf_val_dget [OF s] by (auto simp: dget_or_def split: option.splits)
      then have "wf_val (PDict old)" using e(1) by (cases "dget_or s k (PDict [])") auto
      then have "wf_val (PDict e)"
        using ds [of k d old] kv k PDict e(2) v unfolding dict_wf_goal_def by blast
      then show ?thesis unfolding e(3) by (intro wf_val_dset [OF s])
    next
      case (PStr x)
      then obtain v' where "merged_plain c k v = Inr v'" "s' = dset k v' s"
        using e k by (auto simp: merge_entry_def split: if_splits)
      then show ?thesis using PStr merged_plain_wf [of v c k v'] s by (auto intro: wf_val_dset simp del: wf_val.simps)
    next
      case (PInt x)
      then obtain v' where "merged_plain c k v = Inr v'" "s' = dset k v' s"
        using e k by (auto simp: merge_entry_def split: if_splits)
      then show ?thesis using PInt merged_plain_wf [of v c k v'] s by (auto intro: wf_val_dset simp del: wf_val.simps)
    qed (use e k in \<open>auto simp: merge_entry_def split: if_splits\<close>)
  qed (rule to)
qed

lemma merge_wf: "list_wf_goal c to fro is_paths appending" "dict_wf_goal c dto dfro"
  by (induction c to fro is_paths appending and c dto dfro rule: merge_induct [of list_wf_goal dict_wf_goal])
    (rule merge_wf_step_list merge_wf_step_dict; assumption)+

lemma merge_entry_frame:
  assumes "merge_entry c fro s (k, v) = Inr s'" and "k' \<noteq> (if is_list v then fst (list_policy k) else k)"
  shows "dget s' k' = dget s k'"
proof (cases v)
  case (PList ys)
  then obtain t where t: "merge_target k fro s = Inr t"
      "(case t of None \<Rightarrow> Inr s | Some (b, old, a) \<Rightarrow> ebind (is_path_section c b) (\<lambda>p.
         ebind (MergeLists c old ys p a) (\<lambda>xs'. Inr (dset b (PList xs') s)))) = Inr s'"
    using assms(1) by (auto simp: merge_entry_def merged_list_def split: if_splits)
  show ?thesis
  proof (cases t)
    case (Some u)
    then show ?thesis using t PList assms(2) merge_target_Some [of k fro s] by (cases u) auto
  qed (use t in simp)
qed (use assms in \<open>auto simp: merge_entry_def split: if_splits\<close>)

text \<open>
  C16: a successful merge keeps dictionaries well formed at every level (no key twice) and changes
  no key of the target other than those named by the merged dictionary, a list key standing for
  the key without its policy character.
\<close>

theorem MergeDicts_invariant:
  assumes "wf_val (PDict to)" and "wf_val (PDict fro)" and "MergeDicts c to fro = Inr r"
  shows "wf_val (PDict r) \<and> (\<forall>k. k \<notin> touched fro \<longrightarrow> dget r k = dget to k)"
proof
  show "wf_val (PDict r)" using merge_wf(2) [of c to fro] assms unfolding dict_wf_goal_def by blast
  show "\<forall>k. k \<notin> touched fro \<longrightarrow> dget r k = dget to k"
  proof (intro allI impI)
    fix k assume k: "k \<notin> touched fro"
    show "dget r k = dget to k"
    proof (rule efold_invariant [OF assms(3) [unfolded MergeDicts_loop], where P = "\<lambda>s. dget s k = dget to k"])
      fix s kv s' assume kv: "kv \<in> set fro" and s: "dget s k = dget to k" and e: "merge_entry c fro s kv = Inr s'"
      obtain j v where j: "kv = (j, v)" by (cases kv)
      have "k \<noteq> (if is_list v then fst (list_policy j) else j)" using k kv j unfolding touched_def by blast
      then show "dget s' k = dget to k" using merge_entry_frame e j s by simp
    qed simp
  qed
qed

theorem MergeDicts_invariant_witness:
  "\<exists>r. MergeDicts \<lparr>mc_realpath = id, mc_path_sections = [], mc_to_file = None, mc_fro_file = None\<rparr>
      [(''a'', PInt 1), (''b'', PList [PStr ''x''])] [(''b+'', PList [PStr ''y''])] = Inr r
    \<and> dget r ''a'' = Some (PInt 1)"
proof -
  let ?c = "\<lparr>mc_realpath = id, mc_path_sections = [], mc_to_file = None, mc_fro_file = None\<rparr>"
  let ?to = "[(''a'', PInt 1), (''b'', PList [PStr ''x''])]" and ?fro = "[(''b+'', PList [PStr ''y''])]"
  have "is_path_section ?c ''b'' = Inr False"
    unfolding is_path_section_def IsPathSection_def strip_section_eq
    by (simp add: section_base_def path_suffix_def)
  then obtain r where r: "MergeDicts ?c ?to ?fro = Inr r"
    by (simp add: MergeDicts_loop merge_entry_def merged_list_def merge_target_def list_policy_def
        MergeLists_loop merged_item_def single_item_def starts_with_def put_item_def has_key_def)
  have "''a'' \<notin> touched ?fro" by (simp add: touched_def list_policy_def)
  then show ?thesis using r MergeDicts_invariant [OF _ _ r] by auto
qed

section \<open>Merging into nothing copies\<close>

text \<open>
  A copy made by merging holds every plain item of a list once; all else is kept.
\<close>

definition add_once :: "pyval list \<Rightarrow> pyval \<Rightarrow> pyval list" where
  "add_once acc v = (if single_item v \<and> v \<in> set acc then acc else acc @ [v])"

fun copied :: "pyval \<Rightarrow> pyval" where
  "copied (PList xs) = PList (foldl add_once [] (map copied xs))"
| "copied (PDict d) = PDict (map (\<lambda>p. (fst p, copied (snd p))) d)"
| "copied v = v"

text \<open>Values made of strings, integers, lists and dictionaries whose list keys carry no policy.\<close>

fun mergeable :: "pyval \<Rightarrow> bool" where
  "mergeable (PStr s) = True"
| "mergeable (PInt i) = True"
| "mergeable (PList xs) = (\<forall>x\<in>set xs. mergeable x)"
| "mergeable (PDict d) = (distinct (map fst d)
     \<and> (\<forall>p\<in>set d. fst p \<noteq> [] \<and> last (fst p) \<notin> set ''=+?!'' \<and> mergeable (snd p)))"
| "mergeable _ = False"

lemma single_copied [simp]: "single_item (copied v) = single_item v"
  by (cases v) (simp_all add: single_item_def)

lemma merged_plain_same:
  assumes "mc_to_file c = mc_fro_file c" and "k \<noteq> []" and "last k \<notin> set ''=+?!''"
  shows "is_path_section c k = Inr (k \<in> set (mc_path_sections c) \<or> path_suffix k)"
    and "merged_plain c k v = Inr v"
proof -
  have "strip_section k = Some k" using assms(2,3) by (subst strip_section.simps) auto
  then show "is_path_section c k = Inr (k \<in> set (mc_path_sections c) \<or> path_suffix k)"
    by (simp add: is_path_section_def IsPathSection_def)
  then show "merged_plain c k v = Inr v" using assms(1) by (simp add: merged_plain_def MakePathRelative_def)
qed

lemma merge_target_plain:
  assumes "k \<noteq> []" and "last k \<notin> set ''=+?!''" and "\<forall>p\<in>set fro. fst p \<noteq> [] \<and> last (fst p) \<notin> set ''=+?!''"
    and "dget to k = None"
  shows "merge_target k fro to = Inr (Some (k, [], True))"
proof -
  have "\<not> has_key (k @ [x]) fro" if "x \<in> set ''=+?!''" for x
  proof
    assume "has_key (k @ [x]) fro"
    then obtain v where "(k @ [x], v) \<in> set fro" by (auto simp: has_key_iff)
    then have "last (k @ [x]) \<notin> set ''=+?!''" using assms(3) by fastforce
    then show False using that by simp
  qed
  from this [of "CHR ''=''"] this [of "CHR ''?''"] show ?thesis
    using assms(1,2,4) by (simp add: merge_target_def list_policy_def Let_def)
qed

definition list_copy_goal :: "merge_ctx \<Rightarrow> pyval list \<Rightarrow> pyval list \<Rightarrow> bool \<Rightarrow> bool \<Rightarrow> bool" where
  "list_copy_goal c to fro p a \<longleftrightarrow> (mc_to_file c = mc_fro_file c \<longrightarrow> to = [] \<longrightarrow> a \<longrightarrow> mergeable (PList fro) \<longrightarrow>
     (\<exists>r. MergeLists c to fro p a = Inr r \<and> PList r = copied (PList fro)))"

definition dict_copy_goal :: "merge_ctx \<Rightarrow> pydict \<Rightarrow> pydict \<Rightarrow> bool" where
  "dict_copy_goal c to fro \<longleftrightarrow> (mc_to_file c = mc_fro_file c \<longrightarrow> to = [] \<longrightarrow> mergeable (PDict fro) \<longrightarrow>
     (\<exists>r. MergeDicts c to fro = Inr r \<and> PDict r = copied (PDict fro)))"

lemma put_once: "put_item True (single_item v) (copied v) st = (add_once (fst st) (copied v), snd st)"
  by (cases st) (simp add: put_item_def add_once_def)

lemma copy_step_list:
  assumes xs: "\<And>xs to' p a. PList xs \<in> set fro \<Longrightarrow> list_copy_goal c to' xs p a"
    and ds: "\<And>d to'. PDict d \<in> set fro \<Longrightarrow> dict_copy_goal c to' d"
  shows "list_copy_goal c to fro p a"
  unfolding list_copy_goal_def
proof (intro impI)
  assume same: "mc_to_file c = mc_fro_file c" and to: "to = []" and a: a and m: "mergeable (PList fro)"
  have item: "merged_item c p v = Inr (copied v)" if v: "v \<in> set fro" for v
  proof (cases v)
    case (PList ys)
    then show ?thesis
      using xs [of ys "[]" False True] same m v unfolding list_copy_goal_def by (force simp: merged_item_def)
  next
    case (PDict d)
    then show ?thesis
      using ds [of d "[]"] same m v unfolding dict_copy_goal_def by (force simp: merged_item_def)
  qed (use v m same in \<open>auto simp: merged_item_def MakePathRelative_def\<close>)
  have "efold (\<lambda>st v. ebind (merged_item c p v) (\<lambda>x. Inr (put_item a (single_item v) x st))) (to, 0) fro
      = Inr (foldl (\<lambda>st v. (add_once (fst st) (copied v), snd st)) (to, 0) fro)"
    by (rule efold_pure) (simp add: item a put_once)
  moreover have "fst (foldl (\<lambda>st v. (add_once (fst st) (copied v), snd st)) st fro)
      = foldl add_once (fst st) (map copied fro)" for st :: "pyval list \<times> nat"
    by (induction fro arbitrary: st) simp_all
  ultimately show "\<exists>r. MergeLists c to fro p a = Inr r \<and> PList r = copied (PList fro)"
    by (simp add: MergeLists_loop to)
qed

lemma copy_step_dict:
  assumes xs: "\<And>k xs to' p a. (k, PList xs) \<in> set fro \<Longrightarrow> list_copy_goal c to' xs p a"
    and ds: "\<And>k d to'. (k, PDict d) \<in> set fro \<Longrightarrow> dict_copy_goal c to' d"
  shows "dict_copy_goal c to fro"
  unfolding dict_copy_goal_def
proof (intro impI)
  assume same: "mc_to_file c = mc_fro_file c" and to: "to = []" and m: "mergeable (PDict fro)"
  have keys: "\<forall>p\<in>set fro. fst p \<noteq> [] \<and> last (fst p) \<notin> set ''=+?!''" using m by auto
  have step: "merge_entry c fro acc p = Inr (acc @ [(fst p, copied (snd p))])"
    if p: "p \<in> set fro" "fst p \<notin> fst ` set acc" for acc p
  proof -
    obtain k v where k: "p = (k, v)" by (cases p)
    have kk: "k \<noteq> []" "last k \<notin> set ''=+?!''" "mergeable v" using m p(1) k by auto
    have none: "dget acc k = None" using p(2) k by (simp add: map_of_eq_None_iff)
    have new: "dset k w acc = acc @ [(k, w)]" for w using p(2) k by (intro update_new_key) simp
    note path = merged_plain_same [OF same kk(1,2)]
    show ?thesis
    proof (cases v)
      case (PList ys)
      obtain zs where "MergeLists c [] ys (k \<in> set (mc_path_sections c) \<or> path_suffix k) True = Inr zs" "PList zs = copied v"
        using xs [of k ys "[]" _ True] p(1) k PList same kk(3) unfolding list_copy_goal_def by blast
      then show ?thesis
        using PList k none new path(1) merge_target_plain [OF kk(1,2) keys none]
        by (simp add: merge_entry_def merged_list_def)
    next
      case (PDict d)
      obtain e where "MergeDicts c [] d = Inr e" "PDict e = copied v"
        using ds [of k d "[]"] p(1) k PDict same kk(3) unfolding dict_copy_goal_def by blast
      then show ?thesis using PDict k none new by (simp add: merge_entry_def dget_or_def)
    qed (use k none new path kk(3) in \<open>auto simp: merge_entry_def\<close>)
  qed
  have "efold (merge_entry c fro) acc ps = Inr (acc @ map (\<lambda>p. (fst p, copied (snd p))) ps)"
    if "set ps \<subseteq> set fro" "distinct (map fst (acc @ ps))" for acc ps
    using that
  proof (induction ps arbitrary: acc)
    case (Cons p ps)
    then have "merge_entry c fro acc p = Inr (acc @ [(fst p, copied (snd p))])" by (intro step) auto
    then show ?case using Cons.IH [of "acc @ [(fst p, copied (snd p))]"] Cons.prems by simp
  qed simp
  from this [of fro "[]"] m to show "\<exists>r. MergeDicts c to fro = Inr r \<and> PDict r = copied (PDict fro)"
    by (simp add: MergeDicts_loop)
qed

lemma copy_goals: "list_copy_goal c to fro p a" "dict_copy_goal c dto dfro"
  by (induction c to fro p a and c dto dfro rule: merge_induct [of list_copy_goal dict_copy_goal])
    (rule copy_step_list copy_step_dict; assumption)+

text \<open>
  merging a dictionary of one build file into the empty one copies it: it never fails, keys,
  order and nested structure are kept, and within each list a plain item that occurs again is
  dropped.
\<close>

theorem MergeDicts_copy:
  assumes "mc_to_file c = mc_fro_file c" and "mergeable (PDict fro)"
  shows "\<exists>r. MergeDicts c [] fro = Inr r \<and> PDict r = copied (PDict fro)"
  using copy_goals(2) [of c "[]" fro] assms unfolding dict_copy_goal_def by blast

theorem MergeDicts_copy_witness:
  "MergeDicts \<lparr>mc_realpath = id, mc_path_sections = [], mc_to_file = None, mc_fro_file = None\<rparr> []
      [(''action'', PList [PStr ''cp'', PStr ''-f'', PStr ''a'', PStr ''a'', PStr ''-f''])]
    = Inr [(''action'', PList [PStr ''cp'', PStr ''-f'', PStr ''a'', PStr ''-f''])]"
  using MergeDicts_copy
    [of "\<lparr>mc_realpath = id, mc_path_sections = [], mc_to_file = None, mc_fro_file = None\<rparr>"
        "[(''action'', PList [PStr ''cp'', PStr ''-f'', PStr ''a'', PStr ''a'', PStr ''-f''])]"]
  by (simp add: add_once_def single_item_def starts_with_def)

end
