(* ===== verification/ListFilters.thy ===== *)
theory ListFilters
  imports PyVal
begin

text \<open>
  The exclusion and regular-expression filters of \<open>gyp/input.py\<close>:
  \<open>ProcessListFiltersInDict\<close> applies the lists under \<open>key!\<close> and \<open>key/\<close> to the list under
  \<open>key\<close> and moves what they exclude to \<open>key_excluded\<close>, in every dictionary reachable through
  dictionaries and lists. \<open>re.compile(p).search\<close> is the parameter \<open>re_compile\<close>, which gives
  the search predicate or the exception of a malformed pattern.
\<close>

section \<open>Which lists are filtered\<close>

definition filter_key :: "string \<Rightarrow> bool" where
  "filter_key key \<longleftrightarrow> key \<noteq> [] \<and> (last key = CHR ''!'' \<or> last key = CHR ''/'')"

definition find_filter :: "string \<Rightarrow> pydict \<Rightarrow> string list \<times> string list \<Rightarrow> string \<times> pyval
    \<Rightarrow> (string list \<times> string list) res" where
  "find_filter name the_dict st kv =
     (case (st, kv) of ((list_keys, del_lists), (key, value)) \<Rightarrow>
        if key = [] then Inl IndexErr
        else if \<not> filter_key key then Inr (list_keys, del_lists)
        else if \<not> is_list value
        then Inl (ValueErr (name @ '' key '' @ key @ '' must be list, not '' @ class_name value))
        else
          let list_key = butlast key in
          case dget the_dict list_key of
            None \<Rightarrow> Inr (list_keys, del_lists @ [key])
          | Some v \<Rightarrow>
              if \<not> is_list v
              then Inl (ValueErr (name @ '' key '' @ list_key @ '' must be list, not '' @ class_name v
                     @ '' when applying '' @ (if last key = CHR ''!'' then ''exclusion'' else ''regex'')))
              else Inr (if list_key \<in> set list_keys then list_keys else list_keys @ [list_key], del_lists))"

definition find_filters :: "string \<Rightarrow> pydict \<Rightarrow> (string list \<times> string list) res" where
  "find_filters name the_dict = efold (find_filter name the_dict) ([], []) the_dict"

section \<open>Filtering one list\<close>

text \<open>The actions run parallel to the list: -1 untouched, 0 exclude, 1 include.\<close>

definition exclude_actions :: "pyval list \<Rightarrow> int list \<Rightarrow> pyval list \<Rightarrow> int list" where
  "exclude_actions the_list actions excludes =
     foldl (\<lambda>acts ex. map2 (\<lambda>a x. if py_eq ex x then 0 else a) acts the_list) actions excludes"

text \<open>\<open>[action, pattern] = regex_item\<close>: any iterable of two elements will do.\<close>

definition unpack2 :: "pyval \<Rightarrow> (pyval \<times> pyval) res" where
  "unpack2 v =
     ebind (iter_items v) (\<lambda>xs. case xs of [a, b] \<Rightarrow> Inr (a, b) | _ \<Rightarrow> Inl (ValueErr ''unpack''))"

definition action_value :: "string \<Rightarrow> string \<Rightarrow> pyval \<Rightarrow> int res" where
  "action_value name regex_key action =
     (if action = PStr ''exclude'' then Inr 0
      else if action = PStr ''include'' then Inr 1
      else ebind (as_str action) (\<lambda>a.
        Inl (ValueErr (''Unrecognized action '' @ a @ '' in '' @ name @ '' key '' @ regex_key))))"

definition regex_rule :: "(string \<Rightarrow> (string \<Rightarrow> bool) res) \<Rightarrow> string \<Rightarrow> string \<Rightarrow> pyval
    \<Rightarrow> (int \<times> (string \<Rightarrow> bool)) res" where
  "regex_rule re_compile name regex_key regex_item =
     ebind (unpack2 regex_item) (\<lambda>(action, pattern).
     ebind (ebind (as_str pattern) re_compile) (\<lambda>search.
     ebind (action_value name regex_key action) (\<lambda>av. Inr (av, search))))"

definition regex_step :: "(string \<Rightarrow> (string \<Rightarrow> bool) res) \<Rightarrow> string \<Rightarrow> string \<Rightarrow> pyval list
    \<Rightarrow> int list \<Rightarrow> pyval \<Rightarrow> int list res" where
  "regex_step re_compile name regex_key the_list actions regex_item =
     ebind (regex_rule re_compile name regex_key regex_item) (\<lambda>(av, search).
       emap (\<lambda>(a, list_item).
           if a = av then Inr a
           else ebind (as_str list_item) (\<lambda>s. Inr (if search s then av else a)))
         (zip actions the_list))"

definition apply_actions :: "string \<Rightarrow> pydict \<Rightarrow> string \<Rightarrow> pyval list \<Rightarrow> int list \<Rightarrow> pydict res" where
  "apply_actions name the_dict list_key the_list actions =
     (let d = ddel (list_key @ ''/'') (ddel (list_key @ ''!'') the_dict);
          excluded_key = list_key @ ''_excluded'';
          excluded_list = map snd (filter (\<lambda>p. fst p = 0) (zip actions the_list));
          kept_list = map snd (filter (\<lambda>p. fst p \<noteq> 0) (zip actions the_list));
          d' = dset list_key (PList kept_list) d
      in if has_key excluded_key d
         then Inl (GypErr (name @ '' key '' @ excluded_key
                @ '' must not be present prior  to applying exclusion/regex filters for '' @ list_key))
         else Inr (if excluded_list \<noteq> [] then dset excluded_key (PList excluded_list) d' else d'))"

definition filter_list :: "(string \<Rightarrow> (string \<Rightarrow> bool) res) \<Rightarrow> string \<Rightarrow> pydict \<Rightarrow> string \<Rightarrow> pydict res" where
  "filter_list re_compile name the_dict list_key =
     ebind (ebind (dindex the_dict list_key) as_list) (\<lambda>the_list.
     ebind (as_list (dget_or the_dict (list_key @ ''!'') (PList []))) (\<lambda>excludes.
     ebind (as_list (dget_or the_dict (list_key @ ''/'') (PList []))) (\<lambda>regexes.
     ebind (efold (regex_step re_compile name (list_key @ ''/'') the_list)
              (exclude_actions the_list (replicate (length the_list) (-1)) excludes) regexes) (\<lambda>actions.
       apply_actions name the_dict list_key the_list actions))))"

text \<open>The part of \<open>ProcessListFiltersInDict\<close> before its recursion.\<close>

definition filter_lists :: "(string \<Rightarrow> (string \<Rightarrow> bool) res) \<Rightarrow> string \<Rightarrow> pydict \<Rightarrow> pydict res" where
  "filter_lists re_compile name the_dict =
     ebind (find_filters name the_dict) (\<lambda>(list_keys, del_lists).
       efold (filter_list re_compile name) (foldl (\<lambda>d k. ddel k d) the_dict del_lists) list_keys)"

section \<open>The values of a filtered dictionary\<close>

text \<open>A value of the filtered dictionary was there before, or is a sublist of a list that was.\<close>

definition sublist_val :: "pyval \<Rightarrow> pyval \<Rightarrow> bool" where
  "sublist_val v w \<longleftrightarrow> v = w \<or> (\<exists>xs ys. v = PList ys \<and> w = PList xs \<and> subseq ys xs)"

definition shrunk :: "pydict \<Rightarrow> pydict \<Rightarrow> bool" where
  "shrunk d d' \<longleftrightarrow> (\<forall>v\<in>snd ` set d'. \<exists>w\<in>snd ` set d. sublist_val v w)"

lemma sublist_val_trans: "sublist_val u v \<Longrightarrow> sublist_val v w \<Longrightarrow> sublist_val u w"
  unfolding sublist_val_def by auto

lemma shrunk_refl: "shrunk d d"
  unfolding shrunk_def sublist_val_def by blast

lemma shrunk_trans: "shrunk d d' \<Longrightarrow> shrunk d' d'' \<Longrightarrow> shrunk d d''"
  unfolding shrunk_def using sublist_val_trans by meson

lemma shrunk_ddel: "shrunk d (ddel k d)"
proof -
  have "set (ddel k d) \<subseteq> set d" by (simp add: AList.delete_eq)
  then show ?thesis unfolding shrunk_def sublist_val_def by blast
qed

lemma shrunk_dset:
  assumes "shrunk d d'" and "PList xs \<in> snd ` set d" and "subseq ys xs"
  shows "shrunk d (dset k (PList ys) d')"
  unfolding shrunk_def
proof
  fix v assume "v \<in> snd ` set (dset k (PList ys) d')"
  then have "v = PList ys \<or> v \<in> snd ` set d'" using set_dset_subset [of k "PList ys" d'] by auto
  moreover have "sublist_val (PList ys) (PList xs)" using assms(3) by (simp add: sublist_val_def)
  ultimately show "\<exists>w\<in>snd ` set d. sublist_val v w" using assms(1,2) unfolding shrunk_def by blast
qed

lemma dget_in_values: "dget d k = Some v \<Longrightarrow> v \<in> snd ` set d"
  by (force dest: map_of_SomeD)

lemma subseq_filter_zip: "subseq (map snd (filter P (zip as xs))) xs"
proof (induction as arbitrary: xs)
  case (Cons a as)
  then show ?case by (cases xs) auto
qed simp

lemma ebind_InrE: "ebind m f = Inr y \<Longrightarrow> (\<And>x. m = Inr x \<Longrightarrow> f x = Inr y \<Longrightarrow> R) \<Longrightarrow> R"
  by auto

lemma dindex_list_Inr: "ebind (dindex d k) as_list = Inr xs \<longleftrightarrow> dget d k = Some (PList xs)"
proof -
  have "as_list v = Inr xs \<longleftrightarrow> v = PList xs" for v by (cases v) auto
  then show ?thesis by (auto simp: dindex_def split: option.splits)
qed

lemma shrunk_apply_actions:
  assumes "apply_actions name d k xs actions = Inr d'" and "PList xs \<in> snd ` set d"
  shows "shrunk d d'"
proof -
  have "shrunk d (ddel a (ddel b d))" for a b by (rule shrunk_trans [OF shrunk_ddel shrunk_ddel])
  note s = shrunk_dset [OF this assms(2) subseq_filter_zip]
  note s' = shrunk_dset [OF s assms(2) subseq_filter_zip]
  show ?thesis using assms(1) s s' unfolding apply_actions_def Let_def by (auto split: if_splits)
qed

lemma shrunk_filter_list:
  assumes "filter_list re_compile name d k = Inr d'"
  shows "shrunk d d'"
  using assms unfolding filter_list_def
  by (elim ebind_InrE) (metis shrunk_apply_actions dindex_list_Inr ebind_simps(2) dget_in_values)

lemma shrunk_filter_lists:
  assumes "filter_lists re_compile name d = Inr d'"
  shows "shrunk d d'"
proof -
  have del: "shrunk d (foldl (\<lambda>d k. ddel k d) d ks)" for ks
  proof (induction ks rule: rev_induct)
    case (snoc k ks)
    then show ?case using shrunk_trans [OF snoc.IH shrunk_ddel] by simp
  qed (simp add: shrunk_refl)
  obtain ks dels where "efold (filter_list re_compile name) (foldl (\<lambda>d k. ddel k d) d dels) ks = Inr d'"
    using assms unfolding filter_lists_def by (auto split: prod.splits)
  then show ?thesis
    by (rule efold_invariant [where P = "shrunk d"]) (use del shrunk_trans shrunk_filter_list in blast)+
qed

lemma shrunk_size:
  assumes "shrunk d d'" and "(k, v) \<in> set d'"
  shows "size v < size_list (size_prod (\<lambda>_. 0) size) d"
proof -
  have sub: "size_list size ys \<le> size_list size xs" if "subseq ys xs" for ys xs :: "pyval list"
    using that by (induction ys xs rule: list_emb.induct) auto
  obtain w where w: "w \<in> snd ` set d" "sublist_val v w"
    using assms unfolding shrunk_def by force
  then have "size v \<le> size w" using sub by (auto simp: sublist_val_def)
  moreover have "size w < size_list (size_prod (\<lambda>_. 0) size) d" using w(1) by (auto dest: size_dict_item)
  ultimately show ?thesis by simp
qed

lemma filter_lists_size:
  assumes "filter_lists re_compile name d = Inr d'"
  shows "(k, PList xs) \<in> set d' \<Longrightarrow> size_list size xs < size_list (size_prod (\<lambda>_. 0) size) d"
    "(k, PDict e) \<in> set d' \<Longrightarrow> size_list (size_prod (\<lambda>_. 0) size) e < size_list (size_prod (\<lambda>_. 0) size) d"
  using shrunk_size [OF shrunk_filter_lists [OF assms], of k "PList xs"]
    shrunk_size [OF shrunk_filter_lists [OF assms], of k "PDict e"] by simp_all

section \<open>The whole filter\<close>

function (sequential)
  ProcessListFiltersInDict :: "(string \<Rightarrow> (string \<Rightarrow> bool) res) \<Rightarrow> string \<Rightarrow> pydict \<Rightarrow> pydict res" and
  ProcessListFiltersInList :: "(string \<Rightarrow> (string \<Rightarrow> bool) res) \<Rightarrow> string \<Rightarrow> pyval list \<Rightarrow> pyval list res"
where
  "ProcessListFiltersInDict re_compile name the_dict =
     ebind (filter_lists re_compile name the_dict) (\<lambda>d.
       emap (\<lambda>kv. case kv of (key, value) \<Rightarrow>
           (case value of
              PDict e \<Rightarrow> ebind (ProcessListFiltersInDict re_compile key e) (\<lambda>e'. Inr (key, PDict e'))
            | PList xs \<Rightarrow> ebind (ProcessListFiltersInList re_compile key xs) (\<lambda>xs'. Inr (key, PList xs'))
            | _ \<Rightarrow> Inr (key, value))) d)"
| "ProcessListFiltersInList re_compile name the_list =
     emap (\<lambda>item.
         case item of
           PDict e \<Rightarrow> ebind (ProcessListFiltersInDict re_compile name e) (\<lambda>e'. Inr (PDict e'))
         | PList xs \<Rightarrow> ebind (ProcessListFiltersInList re_compile name xs) (\<lambda>xs'. Inr (PList xs'))
         | _ \<Rightarrow> Inr item) the_list"
  by pat_completeness auto

termination
  by (relation "measure (\<lambda>x. case x of Inl (_, _, d) \<Rightarrow> size_list (size_prod (\<lambda>_. 0) size) d
      | Inr (_, _, xs) \<Rightarrow> size_list size xs)")
    (auto simp: filter_lists_size dest!: size_list_item [of "v :: pyval" for v])

declare ProcessListFiltersInDict.simps [simp del] ProcessListFiltersInList.simps [simp del]

section \<open>What is excluded\<close>

text \<open>
  The specification, item by item: the last rule that matches an item decides; an item no rule
  matches is excluded when it is in the exclusion list.
\<close>

definition dropped :: "pyval list \<Rightarrow> (int \<times> (string \<Rightarrow> bool)) list \<Rightarrow> string \<Rightarrow> bool" where
  "dropped excludes rules s =
     (case find (\<lambda>(av, search). search s) (rev rules) of
        Some (av, _) \<Rightarrow> av = 0
      | None \<Rightarrow> PStr s \<in> set excludes)"

definition verdict :: "(int \<times> (string \<Rightarrow> bool)) list \<Rightarrow> (string \<Rightarrow> int) \<Rightarrow> string \<Rightarrow> int" where
  "verdict rules a0 s = foldl (\<lambda>a (av, search). if search s then av else a) (a0 s) rules"

lemma exclude_actions_map:
  "exclude_actions (map PStr xs) (map f xs) excludes
     = map (\<lambda>s. if PStr s \<in> set excludes then 0 else f s) xs"
proof (induction excludes arbitrary: f)
  case (Cons ex excludes)
  have "exclude_actions (map PStr xs) (map f xs) (ex # excludes)
      = exclude_actions (map PStr xs) (map (\<lambda>s. if ex = PStr s then 0 else f s) xs) excludes"
    by (simp add: exclude_actions_def comp_def zip_map_map zip_same_conv_map split_def cong: if_cong)
  then show ?case by (auto simp: Cons.IH)
qed (simp add: exclude_actions_def)

lemma regex_step_map:
  assumes "regex_rule re_compile name rk item = Inr (av, search)"
  shows "regex_step re_compile name rk (map PStr xs) (map f xs) item
    = Inr (map (\<lambda>s. if search s then av else f s) xs)"
proof -
  have "emap (\<lambda>(a, list_item). if a = av then Inr a
          else ebind (as_str list_item) (\<lambda>s. Inr (if search s then av else a)))
        (zip (map f xs) (map PStr xs)) = (Inr (map (\<lambda>s. if search s then av else f s) xs) :: int list res)"
    by (induction xs) auto
  then show ?thesis by (simp only: regex_step_def assms ebind_simps prod.case)
qed

lemma regex_steps_map:
  assumes "emap (regex_rule re_compile name rk) items = Inr rules"
  shows "efold (regex_step re_compile name rk (map PStr xs)) (map f xs) items
    = Inr (map (verdict rules f) xs)"
  using assms
proof (induction items arbitrary: f rules)
  case (Cons item items)
  then obtain av search rs where r: "regex_rule re_compile name rk item = Inr (av, search)"
    "emap (regex_rule re_compile name rk) items = Inr rs" "rules = (av, search) # rs" by auto
  show ?case
    using Cons.IH [OF r(2), of "\<lambda>s. if search s then av else f s"] r(3)
    by (simp add: regex_step_map [OF r(1)] verdict_def)
qed (simp add: verdict_def [abs_def])

lemma verdict_dropped:
  "verdict rules (\<lambda>s. if PStr s \<in> set excludes then 0 else - 1) s = 0 \<longleftrightarrow> dropped excludes rules s"
proof (induction rules rule: rev_induct)
  case (snoc r rules)
  then show ?case by (cases r) (auto simp: verdict_def dropped_def)
qed (simp add: verdict_def dropped_def)

lemma filter_zip_map:
  "map snd (filter (\<lambda>p. P (fst p)) (zip (map f xs) (map PStr xs))) = map PStr (filter (\<lambda>s. P (f s)) xs)"
  by (induction xs) auto

text \<open>
  C30: Applying the filters of one list of strings keeps, in order, the items that are not
  excluded and moves the excluded ones, in order, to \<open>key_excluded\<close> when there are any: an
  item is excluded when the last regex rule that matches it says so, or when none matches it
  and the exclusion list names it. The two filter lists are gone afterwards and every other key
  is left alone.
\<close>

theorem filter_list_correct:
  assumes "dget d k = Some (PList (map PStr xs))"
    and "dget_or d (k @ ''!'') (PList []) = PList excludes"
    and "dget_or d (k @ ''/'') (PList []) = PList regexes"
    and "emap (regex_rule re_compile name (k @ ''/'')) regexes = Inr rules"
    and "dget d (k @ ''_excluded'') = None"
  shows "\<exists>d'. filter_list re_compile name d k = Inr d'
    \<and> dget d' k = Some (PList (map PStr (filter (\<lambda>s. \<not> dropped excludes rules s) xs)))
    \<and> dget d' (k @ ''_excluded'')
        = (if filter (dropped excludes rules) xs = [] then None
           else Some (PList (map PStr (filter (dropped excludes rules) xs))))
    \<and> dget d' (k @ ''!'') = None \<and> dget d' (k @ ''/'') = None
    \<and> (\<forall>k'. k' \<notin> {k, k @ ''_excluded'', k @ ''!'', k @ ''/''} \<longrightarrow> dget d' k' = dget d k')"
proof -
  let ?f = "\<lambda>s. if PStr s \<in> set excludes then 0 else - 1 :: int"
  let ?acts = "map (verdict rules ?f) xs"
  have init: "replicate (length (map PStr xs)) (-1) = map (\<lambda>s. -1 :: int) xs" by (simp add: map_replicate_const)
  have "filter_list re_compile name d k = apply_actions name d k (map PStr xs) ?acts"
    unfolding filter_list_def dindex_def assms(1-3) option.case as_list.simps ebind_simps init exclude_actions_map
      regex_steps_map [OF assms(4)] ..
  moreover have "map snd (filter (\<lambda>p. fst p = 0) (zip ?acts (map PStr xs)))
      = map PStr (filter (dropped excludes rules) xs)"
    using filter_zip_map [of "\<lambda>a. a = 0" "verdict rules ?f" xs] by (simp only: verdict_dropped)
  moreover have "map snd (filter (\<lambda>p. fst p \<noteq> 0) (zip ?acts (map PStr xs)))
      = map PStr (filter (\<lambda>s. \<not> dropped excludes rules s) xs)"
    using filter_zip_map [of "\<lambda>a. a \<noteq> 0" "verdict rules ?f" xs] by (simp only: verdict_dropped)
  ultimately show ?thesis
    using assms(5) unfolding apply_actions_def Let_def by (auto simp: has_key_def)
qed

theorem filter_list_correct_witness:
  "\<exists>d'. filter_list (\<lambda>p. Inr (\<lambda>s. ends_with s p)) ''t''
        [(''sources'', PList [PStr ''a.cc'', PStr ''b.c'', PStr ''c.cc'']),
         (''sources!'', PList [PStr ''c.cc'']),
         (''sources/'', PList [PList [PStr ''exclude'', PStr ''.c'']])] ''sources'' = Inr d'
     \<and> dget d' ''sources'' = Some (PList [PStr ''a.cc''])
     \<and> dget d' ''sources_excluded'' = Some (PList [PStr ''b.c'', PStr ''c.cc''])"
  using filter_list_correct [of "[(''sources'', PList [PStr ''a.cc'', PStr ''b.c'', PStr ''c.cc'']),
         (''sources!'', PList [PStr ''c.cc'']),
         (''sources/'', PList [PList [PStr ''exclude'', PStr ''.c'']])]" "''sources''"
      "[''a.cc'', ''b.c'', ''c.cc'']" "[PStr ''c.cc'']" "[PList [PStr ''exclude'', PStr ''.c'']]"
      "\<lambda>p. Inr (\<lambda>s. ends_with s p)" "''t''" "[(0, \<lambda>s. ends_with s ''.c'')]"]
  by (auto simp: dget_or_def regex_rule_def unpack2_def action_value_def dropped_def ends_with_def
      starts_with_def)

section \<open>No filter is left behind\<close>

text \<open>No dictionary inside the value has an empty key or a filter key.\<close>

fun clean :: "pyval \<Rightarrow> bool" where
  "clean (PList xs) = (\<forall>x\<in>set xs. clean x)"
| "clean (PDict d) = (\<forall>p\<in>set d. fst p \<noteq> [] \<and> \<not> filter_key (fst p) \<and> clean (snd p))"
| "clean _ = True"

definition keys_of :: "pydict \<Rightarrow> string set" where
  "keys_of d = fst ` set d"

lemma keys_of_simps [simp]:
  "keys_of (dset k v d) = insert k (keys_of d)" "keys_of (ddel k d) = keys_of d - {k}"
  by (auto simp: keys_of_def dom_update AList.delete_eq image_iff)

lemma filter_list_keys:
  assumes "filter_list re_compile name d k = Inr d'"
  shows "k \<in> keys_of d" and "keys_of d' \<subseteq> insert (k @ ''_excluded'') (insert k (keys_of d - {k @ ''!'', k @ ''/''}))"
proof -
  obtain xs acts where x: "dget d k = Some (PList xs)" "apply_actions name d k xs acts = Inr d'"
    using assms unfolding filter_list_def by (elim ebind_InrE) (metis dindex_list_Inr ebind_simps(2))
  show "k \<in> keys_of d" using x(1) by (force simp: keys_of_def dest: map_of_SomeD)
  show "keys_of d' \<subseteq> insert (k @ ''_excluded'') (insert k (keys_of d - {k @ ''!'', k @ ''/''}))"
    using x(2) unfolding apply_actions_def Let_def by (auto split: if_splits)
qed

text \<open>The filter keys of a dictionary whose list is still to be processed.\<close>

definition pending :: "string list \<Rightarrow> pydict \<Rightarrow> bool" where
  "pending ks d \<longleftrightarrow> (\<forall>key\<in>keys_of d. key \<noteq> [] \<and> (filter_key key \<longrightarrow> butlast key \<in> set ks))"

lemma pending_step:
  assumes p: "pending (k # ks) d" and f: "filter_list re_compile name d k = Inr d'"
  shows "pending ks d'"
  unfolding pending_def
proof
  fix key assume key: "key \<in> keys_of d'"
  note kk = filter_list_keys [OF f]
  have ex: "\<not> filter_key (k @ ''_excluded'')" by (simp add: filter_key_def)
  consider "key = k @ ''_excluded''" | "key \<in> keys_of d" "key \<noteq> k @ ''!''" "key \<noteq> k @ ''/''" | "key = k"
    using key kk(2) by auto
  then show "key \<noteq> [] \<and> (filter_key key \<longrightarrow> butlast key \<in> set ks)"
  proof cases
    case 1
    then show ?thesis using ex by simp
  next
    case 2
    have "butlast key \<noteq> k" if "filter_key key"
      using that 2 by (cases key rule: rev_cases) (auto simp: filter_key_def)
    then show ?thesis using p 2 by (auto simp: pending_def)
  next
    case 3
    have "k \<noteq> [] \<and> (filter_key k \<longrightarrow> butlast k \<in> set (k # ks))" using p kk(1) by (simp add: pending_def)
    moreover have "butlast k \<noteq> k" if "k \<noteq> []" using that by (metis append_butlast_last_id append_self_conv not_Cons_self2)
    ultimately show ?thesis using 3 by auto
  qed
qed

lemma pending_steps:
  "efold (filter_list re_compile name) d ks = Inr d' \<Longrightarrow> pending ks d \<Longrightarrow> pending [] d'"
proof (induction ks arbitrary: d)
  case (Cons k ks)
  then obtain e where "filter_list re_compile name d k = Inr e" "efold (filter_list re_compile name) e ks = Inr d'"
    by auto
  then show ?case using Cons.IH Cons.prems(2) pending_step by blast
qed simp

lemma find_filters_pending:
  assumes "efold (find_filter name d) (ks, dels) kvs = Inr (ks', dels')"
  shows "set ks \<subseteq> set ks' \<and> set dels \<subseteq> set dels'
    \<and> (\<forall>key\<in>fst ` set kvs. key \<noteq> [] \<and> (filter_key key \<longrightarrow> key \<in> set dels' \<or> butlast key \<in> set ks'))"
  using assms
proof (induction kvs arbitrary: ks dels)
  case (Cons kv kvs)
  obtain key v where kv: "kv = (key, v)" by (cases kv)
  obtain ks1 dels1 where step: "find_filter name d (ks, dels) kv = Inr (ks1, dels1)"
    "efold (find_filter name d) (ks1, dels1) kvs = Inr (ks', dels')"
    using Cons.prems by auto
  have "set ks \<subseteq> set ks1 \<and> set dels \<subseteq> set dels1 \<and> key \<noteq> []
      \<and> (filter_key key \<longrightarrow> key \<in> set dels1 \<or> butlast key \<in> set ks1)"
    using step(1) kv by (auto simp: find_filter_def Let_def split: if_splits option.splits)
  then show ?case using Cons.IH [OF step(2)] kv by auto
qed simp

lemma filter_lists_clean:
  assumes "filter_lists re_compile name d = Inr d'"
  shows "\<forall>key\<in>keys_of d'. key \<noteq> [] \<and> \<not> filter_key key"
proof -
  obtain ks dels where f: "find_filters name d = Inr (ks, dels)"
    "efold (filter_list re_compile name) (foldl (\<lambda>d k. ddel k d) d dels) ks = Inr d'"
    using assms unfolding filter_lists_def by (auto split: prod.splits)
  have "keys_of (foldl (\<lambda>d k. ddel k d) d dels) = keys_of d - set dels"
    by (induction dels rule: rev_induct) auto
  moreover have "\<forall>key\<in>keys_of d. key \<noteq> [] \<and> (filter_key key \<longrightarrow> key \<in> set dels \<or> butlast key \<in> set ks)"
    using find_filters_pending [OF f(1) [unfolded find_filters_def]] unfolding keys_of_def by blast
  ultimately have "pending ks (foldl (\<lambda>d k. ddel k d) d dels)" unfolding pending_def by blast
  then have "pending [] d'" using f(2) pending_steps by blast
  then show ?thesis unfolding pending_def by auto
qed

lemma find_filters_none:
  "\<forall>kv\<in>set kvs. fst kv \<noteq> [] \<and> \<not> filter_key (fst kv) \<Longrightarrow> efold (find_filter name d) st kvs = Inr st"
  by (induction kvs) (auto simp: find_filter_def split: prod.splits)

lemma filter_lists_none:
  assumes "\<forall>p\<in>set d. fst p \<noteq> [] \<and> \<not> filter_key (fst p)"
  shows "filter_lists re_compile name d = Inr d"
  by (simp add: filter_lists_def find_filters_def find_filters_none [OF assms])

lemma emap_same: "\<forall>x\<in>set xs. f x = Inr x \<Longrightarrow> emap f xs = Inr xs"
  by (induction xs) auto

lemma process_clean_same:
  "clean (PDict d) \<Longrightarrow> ProcessListFiltersInDict re_compile name d = Inr d"
  "clean (PList xs) \<Longrightarrow> ProcessListFiltersInList re_compile name' xs = Inr xs"
proof (induction re_compile name d and re_compile name' xs
    rule: ProcessListFiltersInDict_ProcessListFiltersInList.induct)
  case (1 re_compile name d)
  have "filter_lists re_compile name d = Inr d" using 1(3) by (intro filter_lists_none) simp
  then show ?case
    using 1(1,2,3) by (subst ProcessListFiltersInDict.simps) (fastforce intro!: emap_same split: pyval.splits)
next
  case (2 re_compile name xs)
  then show ?case
    by (subst ProcessListFiltersInList.simps) (fastforce intro!: emap_same split: pyval.splits)
qed

lemma emap_Inr_set: "emap f xs = Inr ys \<Longrightarrow> y \<in> set ys \<Longrightarrow> \<exists>x\<in>set xs. f x = Inr y"
  by (induction xs arbitrary: ys) auto

lemma process_clean:
  "ProcessListFiltersInDict re_compile name d = Inr d' \<Longrightarrow> clean (PDict d')"
  "ProcessListFiltersInList re_compile name' xs = Inr xs' \<Longrightarrow> clean (PList xs')"
proof (induction re_compile name d and re_compile name' xs arbitrary: d' and xs'
    rule: ProcessListFiltersInDict_ProcessListFiltersInList.induct)
  case (1 re_compile name d)
  let ?f = "\<lambda>kv. case kv of (key, value) \<Rightarrow>
           (case value of
              PDict e \<Rightarrow> ebind (ProcessListFiltersInDict re_compile key e) (\<lambda>e'. Inr (key, PDict e'))
            | PList xs \<Rightarrow> ebind (ProcessListFiltersInList re_compile key xs) (\<lambda>xs'. Inr (key, PList xs'))
            | _ \<Rightarrow> Inr (key, value))"
  obtain e where e: "filter_lists re_compile name d = Inr e" "emap ?f e = Inr d'"
    using 1(3) by (subst (asm) ProcessListFiltersInDict.simps) auto
  have "fst p \<noteq> [] \<and> \<not> filter_key (fst p) \<and> clean (snd p)" if "p \<in> set d'" for p
  proof -
    obtain key v where kv: "(key, v) \<in> set e" "?f (key, v) = Inr p" using emap_Inr_set [OF e(2) \<open>p \<in> set d'\<close>] by auto
    then have "key \<in> keys_of e" by (force simp: keys_of_def)
    then have "key \<noteq> [] \<and> \<not> filter_key key" using filter_lists_clean [OF e(1)] by blast
    moreover have "fst p = key" using kv(2) by (cases v) auto
    moreover have "clean (snd p)"
      using kv(2) 1(1) [OF e(1) kv(1) refl] 1(2) [OF e(1) kv(1) refl] by (cases v) auto
    ultimately show ?thesis by simp
  qed
  then show ?case by simp
next
  case (2 re_compile name xs)
  let ?f = "\<lambda>item. case item of
           PDict e \<Rightarrow> ebind (ProcessListFiltersInDict re_compile name e) (\<lambda>e'. Inr (PDict e'))
         | PList ys \<Rightarrow> ebind (ProcessListFiltersInList re_compile name ys) (\<lambda>ys'. Inr (PList ys'))
         | _ \<Rightarrow> Inr item"
  have f: "emap ?f xs = Inr xs'" using 2(3) by (subst (asm) ProcessListFiltersInList.simps)
  have "clean y" if "y \<in> set xs'" for y
  proof -
    obtain x where x: "x \<in> set xs" "?f x = Inr y" using emap_Inr_set [OF f \<open>y \<in> set xs'\<close>] by blast
    show ?thesis using x(2) 2(1,2) [OF x(1)] by (cases x) auto
  qed
  then show ?case by simp
qed

text \<open>
  A dictionary that went through \<open>ProcessListFiltersInDict\<close> holds no key ending in
  \<open>!\<close> or \<open>/\<close> at any depth, whatever filters of filters it had, and a second pass (the code
  makes one before and one after setting up the configurations) leaves it as it is.
\<close>

theorem ProcessListFilters_clean:
  assumes "ProcessListFiltersInDict re_compile name d = Inr d'"
  shows "clean (PDict d') \<and> ProcessListFiltersInDict re_compile' name' d' = Inr d'"
  using process_clean(1) [OF assms] process_clean_same(1) by blast

theorem ProcessListFilters_clean_witness:
  "clean (PDict [(''d'', PDict [(''x'', PList []), (''x_excluded'', PList [PInt 1])])])"
  using ProcessListFilters_clean [of "\<lambda>_. Inl TypeErr" "''t''"
      "[(''y/'', PList []), (''d'', PDict [(''x'', PList [PInt 1]), (''x!'', PList [PInt 1])])]"
      "[(''d'', PDict [(''x'', PList []), (''x_excluded'', PList [PInt 1])])]"
      "\<lambda>_. Inl TypeErr" "''t''"]
  by (simp add: ProcessListFiltersInDict.simps filter_lists_def find_filters_def find_filter_def
      filter_key_def filter_list_def dindex_def dget_or_def exclude_actions_def apply_actions_def has_key_def)

end
