(* ===== verification/TargetPasses.thy ===== *)
theory TargetPasses
  imports NodeDependencies
begin

text \<open>
  The passes of \<open>gyp/input.py\<close> over the dictionary of targets, from its construction to the
  pruning of unwanted targets. The code's dictionaries share the target dictionaries between
  \<open>data\<close> and \<open>targets\<close>; the passes that change a target write only sections that no pass reads
  through \<open>data\<close>. The set \<open>data['target_build_files']\<close> is iterated in an unspecified order:
  it is given as a list. \<open>multiple_toolsets\<close> and \<open>realpath\<close> are arguments.
\<close>

section \<open>Building the dictionary of targets\<close>

text \<open>A toolset is a string; a false value counts as no toolset.\<close>

definition as_toolset :: "pyval \<Rightarrow> string option res" where
  "as_toolset v = (if truth v then ebind (as_str v) (\<lambda>s. Inr (Some s)) else Inr None)"

definition qualified_name :: "string \<Rightarrow> pydict \<Rightarrow> string res" where
  "qualified_name build_file target =
     ebind (dindex target ''target_name'') (\<lambda>n.
     ebind (dindex target ''toolset'') (\<lambda>t.
     ebind (as_str n) (\<lambda>target_name.
     ebind (as_toolset t) (\<lambda>toolset. Inr (QualifiedTarget build_file target_name toolset)))))"

definition add_target :: "string \<Rightarrow> targets \<Rightarrow> pyval \<Rightarrow> targets res" where
  "add_target build_file targets v =
     ebind (as_dict v) (\<lambda>target.
     ebind (qualified_name build_file target) (\<lambda>target_name.
       if target_name \<in> fst ` set targets
       then Inl (GypErr (''Duplicate target definitions for '' @ target_name))
       else Inr (targets @ [(target_name, target)])))"

definition file_targets :: "(string \<times> pydict) list \<Rightarrow> string \<Rightarrow> pyval list res" where
  "file_targets data build_file =
     (case map_of data build_file of
        None \<Rightarrow> Inl (KeyErr build_file)
      | Some d \<Rightarrow> iter_items (dget_or d ''targets'' (PList [])))"

definition BuildTargetsDict :: "string list \<Rightarrow> (string \<times> pydict) list \<Rightarrow> targets res" where
  "BuildTargetsDict target_build_files data =
     efold (\<lambda>targets build_file.
         ebind (file_targets data build_file) (efold (add_target build_file) targets))
       [] target_build_files"

section \<open>Passes over the targets\<close>

text \<open>
  \<open>for target, target_dict in targets.iteritems()\<close> with a body that changes the dictionary of
  the target at hand and may read those of the others.
\<close>

definition each_target :: "(targets \<Rightarrow> string \<Rightarrow> pydict \<Rightarrow> pydict res) \<Rightarrow> targets \<Rightarrow> targets res" where
  "each_target body targets =
     efold (\<lambda>ts name.
         case map_of ts name of
           None \<Rightarrow> Inr ts
         | Some target_dict \<Rightarrow> ebind (body ts name target_dict) (\<lambda>d. Inr (AList.update name d ts)))
       targets (map fst targets)"

definition dependency_sections :: "string list" where
  "dependency_sections = [''dependencies'', ''export_dependent_settings'']"

definition all_dependency_sections :: "string list" where
  "all_dependency_sections = concat (map (\<lambda>dep. [dep, dep @ ''!'', dep @ ''/'']) dependency_sections)"

subsection \<open>Qualified dependencies\<close>

definition qualify_dependency :: "(string \<Rightarrow> string) \<Rightarrow> bool \<Rightarrow> string option \<Rightarrow> string option \<Rightarrow> pyval \<Rightarrow> string res" where
  "qualify_dependency realpath multiple_toolsets target_build_file toolset dep =
     ebind (as_str dep) (\<lambda>d.
       case ResolveTarget realpath target_build_file d toolset of (dep_file, dep_target, dep_toolset) \<Rightarrow>
         case dep_file of
           None \<Rightarrow> Inl TypeErr
         | Some f \<Rightarrow> Inr (QualifiedTarget f dep_target (if multiple_toolsets then dep_toolset else toolset)))"

text \<open>One index of a section: the list is changed in place before the check.\<close>

definition qualify_index :: "(string \<Rightarrow> string) \<Rightarrow> bool \<Rightarrow> string \<Rightarrow> string option \<Rightarrow> string
    \<Rightarrow> pydict \<Rightarrow> nat \<Rightarrow> pydict res" where
  "qualify_index realpath multiple_toolsets target toolset dependency_key target_dict index =
     ebind (ebind (dindex target_dict dependency_key) as_list) (\<lambda>dependencies.
     ebind (qualify_dependency realpath multiple_toolsets (BuildFile target) toolset (dependencies ! index))
       (\<lambda>dependency.
         let target_dict' = dset dependency_key (PList (dependencies[index := PStr dependency])) target_dict
         in if dependency_key = ''dependencies'' then Inr target_dict'
            else ebind (ebind (dindex target_dict' ''dependencies'') (str_in dependency)) (\<lambda>present.
              if present then Inr target_dict'
              else Inl (GypErr (''Found '' @ dependency @ '' in '' @ dependency_key @ '' of '' @ target
                     @ '', but not in dependencies'')))))"

definition py_len :: "pyval \<Rightarrow> nat res" where
  "py_len v = ebind (iter_items v) (\<lambda>xs. Inr (length xs))"

definition qualify_section :: "(string \<Rightarrow> string) \<Rightarrow> bool \<Rightarrow> string \<Rightarrow> string option
    \<Rightarrow> pydict \<Rightarrow> string \<Rightarrow> pydict res" where
  "qualify_section realpath multiple_toolsets target toolset target_dict dependency_key =
     ebind (py_len (dget_or target_dict dependency_key (PList []))) (\<lambda>n.
       efold (qualify_index realpath multiple_toolsets target toolset dependency_key) target_dict [0..<n])"

definition QualifyDependencies :: "(string \<Rightarrow> string) \<Rightarrow> bool \<Rightarrow> targets \<Rightarrow> targets res" where
  "QualifyDependencies realpath multiple_toolsets targets =
     each_target (\<lambda>_ target target_dict.
         ebind (ebind (dindex target_dict ''toolset'') as_toolset) (\<lambda>toolset.
           efold (qualify_section realpath multiple_toolsets target toolset) target_dict all_dependency_sections))
       targets"

subsection \<open>Wildcards\<close>

definition wildcard_match :: "string \<Rightarrow> string \<Rightarrow> string option \<Rightarrow> pyval \<Rightarrow> pyval list res" where
  "wildcard_match dependency_build_file dependency_target dependency_toolset v =
     ebind (as_dict v) (\<lambda>d.
     ebind (to_int (dget_or d ''suppress_wildcard'' (PBool False))) (\<lambda>suppress.
       if suppress \<noteq> 0 then Inr []
       else
         ebind (dindex d ''target_name'') (\<lambda>name.
           if dependency_target \<noteq> ''*'' \<and> name \<noteq> PStr dependency_target then Inr []
           else
             ebind (dindex d ''toolset'') (\<lambda>toolset.
               if dependency_toolset \<noteq> Some ''*''
                  \<and> toolset \<noteq> (case dependency_toolset of None \<Rightarrow> PNone | Some t \<Rightarrow> PStr t)
               then Inr []
               else
                 ebind (as_str name) (\<lambda>n. ebind (as_toolset toolset) (\<lambda>ts.
                   Inr [PStr (QualifiedTarget dependency_build_file n ts)]))))))"

definition expand_dependency :: "(string \<times> pydict) list \<Rightarrow> string \<Rightarrow> string \<Rightarrow> pyval \<Rightarrow> pyval list res" where
  "expand_dependency data target dependency_key dep =
     ebind (as_str dep) (\<lambda>s.
       case ParseQualifiedTarget s of (dependency_build_file, dependency_target, dependency_toolset) \<Rightarrow>
         if dependency_target \<noteq> ''*'' \<and> dependency_toolset \<noteq> Some ''*'' then Inr [dep]
         else if dependency_build_file = BuildFile target
         then Inl (GypErr (''Found wildcard in '' @ dependency_key @ '' of '' @ target
                @ '' referring to same build file''))
         else case dependency_build_file of
             None \<Rightarrow> Inl (KeyErr ''None'')
           | Some f \<Rightarrow>
               (case map_of data f of
                  None \<Rightarrow> Inl (KeyErr f)
                | Some d \<Rightarrow>
                    ebind (ebind (dindex d ''targets'') iter_items) (\<lambda>ts.
                    ebind (emap (wildcard_match f dependency_target dependency_toolset) ts) (\<lambda>xss.
                    Inr (concat xss)))))"

text \<open>
  The loop replaces a wildcard by the targets it stands for and goes on behind them, so a
  section becomes the concatenation of its expanded items.
\<close>

definition expand_section :: "(string \<times> pydict) list \<Rightarrow> string \<Rightarrow> pydict \<Rightarrow> string \<Rightarrow> pydict res" where
  "expand_section data target target_dict dependency_key =
     (case dget target_dict dependency_key of
        None \<Rightarrow> Inr target_dict
      | Some v \<Rightarrow>
          ebind (py_len v) (\<lambda>n.
            if n = 0 then Inr target_dict
            else
              ebind (as_list v) (\<lambda>dependencies.
              ebind (emap (expand_dependency data target dependency_key) dependencies) (\<lambda>xss.
              Inr (dset dependency_key (PList (concat xss)) target_dict)))))"

definition ExpandWildcardDependencies :: "targets \<Rightarrow> (string \<times> pydict) list \<Rightarrow> targets res" where
  "ExpandWildcardDependencies targets data =
     each_target (\<lambda>_ target target_dict.
         ebind (dindex target_dict ''toolset'') (\<lambda>_.
           efold (expand_section data target) target_dict dependency_sections))
       targets"
subsection \<open>Duplicates, self dependencies and link dependencies\<close>

definition Unify :: "pyval list \<Rightarrow> pyval list res" where
  "Unify l = (if list_all hashable l then Inr (foldl add_if_new [] l) else Inl TypeErr)"

definition RemoveDuplicateDependencies :: "targets \<Rightarrow> targets res" where
  "RemoveDuplicateDependencies targets =
     each_target (\<lambda>_ _ target_dict.
         efold (\<lambda>td dependency_key.
             let dependencies = dget_or td dependency_key (PList [])
             in if truth dependencies
                then ebind (ebind (iter_items dependencies) Unify) (\<lambda>ds. Inr (dset dependency_key (PList ds) td))
                else Inr td)
           target_dict dependency_sections)
       targets"

definition Filter :: "pyval list \<Rightarrow> string \<Rightarrow> pyval list res" where
  "Filter l item =
     (let kept = filter (\<lambda>e. e \<noteq> PStr item) l in if list_all hashable kept then Inr kept else Inl TypeErr)"

text \<open>\<open>targets[t].get('variables', {}).get(name, 0)\<close> as a condition.\<close>

definition variable_flag :: "pydict \<Rightarrow> string \<Rightarrow> bool res" where
  "variable_flag spec name =
     ebind (as_dict (dget_or spec ''variables'' (PDict []))) (\<lambda>vs. Inr (truth (dget_or vs name (PInt 0))))"

text \<open>
  The inner loops run over the list that was there before: the section itself is replaced.
\<close>

definition prune_self :: "string \<Rightarrow> pydict \<Rightarrow> string \<Rightarrow> pydict res" where
  "prune_self target_name target_dict dependency_key =
     (let dependencies = dget_or target_dict dependency_key (PList []) in
      if truth dependencies
      then ebind (iter_items dependencies) (\<lambda>ds.
        efold (\<lambda>td t.
            if t = PStr target_name
            then ebind (variable_flag td ''prune_self_dependency'') (\<lambda>prune.
              if prune
              then ebind (Filter ds target_name) (\<lambda>ds'. Inr (dset dependency_key (PList ds') td))
              else Inr td)
            else Inr td) target_dict ds)
      else Inr target_dict)"

definition RemoveSelfDependencies :: "targets \<Rightarrow> targets res" where
  "RemoveSelfDependencies targets =
     each_target (\<lambda>_ target_name target_dict. efold (prune_self target_name) target_dict dependency_sections)
       targets"

definition lookup_target :: "targets \<Rightarrow> pyval \<Rightarrow> (string \<times> pydict) res" where
  "lookup_target targets t =
     (case t of
        PStr s \<Rightarrow> (case map_of targets s of None \<Rightarrow> Inl (KeyErr s) | Some spec \<Rightarrow> Inr (s, spec))
      | _ \<Rightarrow> if hashable t then Inl (KeyErr (py_repr t)) else Inl TypeErr)"

definition prune_link :: "targets \<Rightarrow> string \<Rightarrow> pydict \<Rightarrow> string \<Rightarrow> pydict res" where
  "prune_link targets target_name target_dict dependency_key =
     (let dependencies = dget_or target_dict dependency_key (PList []) in
      if truth dependencies
      then ebind (iter_items dependencies) (\<lambda>ds.
        efold (\<lambda>td t.
            if dget_or td ''type'' PNone = PStr ''none''
            then ebind (lookup_target (AList.update target_name td targets) t) (\<lambda>(s, spec).
              ebind (variable_flag spec ''link_dependency'') (\<lambda>link.
              if link
              then ebind (ebind (dindex td dependency_key) iter_items) (\<lambda>now.
                ebind (Filter now s) (\<lambda>ds'. Inr (dset dependency_key (PList ds') td)))
              else Inr td))
            else Inr td) target_dict ds)
      else Inr target_dict)"

definition RemoveLinkDependenciesFromNoneTargets :: "targets \<Rightarrow> targets res" where
  "RemoveLinkDependenciesFromNoneTargets targets =
     each_target (\<lambda>ts target_name target_dict. efold (prune_link ts target_name) target_dict dependency_sections)
       targets"

subsection \<open>Colliding and unwanted targets\<close>

text \<open>The path, the key \<open>path/to:target_name\<close> and the file of a fully qualified target.\<close>

definition collision_key :: "string \<Rightarrow> (string \<times> string \<times> string \<times> string) res" where
  "collision_key target =
     (case rsplit1 (CHR '':'') target of
        None \<Rightarrow> Inl (ValueErr ''unpack'')
      | Some (path, name) \<Rightarrow>
          (case path_split path of (head, gyp) \<Rightarrow>
             let subdir = (if head = [] then ''.'' else head)
             in Inr (subdir @ '':'' @ name, name, subdir, gyp)))"

definition use_name :: "(string \<times> string) list \<Rightarrow> string \<Rightarrow> (string \<times> string) list res" where
  "use_name used target =
     ebind (collision_key target) (\<lambda>(key, name, subdir, gyp).
       case map_of used key of
         Some other \<Rightarrow> Inl (GypErr (''Duplicate target name \"'' @ name @ ''\" in directory \"'' @ subdir
           @ ''\" used both in \"'' @ gyp @ ''\" and \"'' @ other @ ''\".''))
       | None \<Rightarrow> Inr (used @ [(key, gyp)]))"

definition VerifyNoCollidingTargets :: "string list \<Rightarrow> (string \<times> string) list res" where
  "VerifyNoCollidingTargets targets = efold use_name [] targets"

definition add_root :: "string list \<Rightarrow> string list \<Rightarrow> string \<Rightarrow> string list res" where
  "add_root flat_list acc t =
     (let target = strip t; qualified_targets = FindQualifiedTargets target flat_list
      in if qualified_targets = [] then Inl (GypErr (''Could not find target '' @ target))
         else Inr (acc @ qualified_targets))"

definition root_names :: "string list \<Rightarrow> string list \<Rightarrow> string list res" where
  "root_names flat_list root_targets = efold (add_root flat_list) [] root_targets"

definition want :: "targets \<Rightarrow> targets \<Rightarrow> string \<Rightarrow> targets res" where
  "want targets wanted t =
     (case map_of targets t of None \<Rightarrow> Inl (KeyErr t) | Some spec \<Rightarrow> Inr (AList.update t spec wanted))"

fun want_roots :: "dgraph \<Rightarrow> targets \<Rightarrow> targets \<Rightarrow> string list \<Rightarrow> targets res option" where
  "want_roots g targets wanted [] = Some (Inr wanted)"
| "want_roots g targets wanted (target # rest) =
     (case want targets wanted target of
        Inl e \<Rightarrow> Some (Inl e)
      | Inr wanted' \<Rightarrow>
          if target \<notin> set (g_refs g) then Some (Inl (KeyErr target))
          else Option.bind (Option.bind (DeepDependencies g (Some target)) oset_iter) (\<lambda>deps.
            case efold (want targets) wanted' deps of
              Inl e \<Rightarrow> Some (Inl e)
            | Inr wanted'' \<Rightarrow> want_roots g targets wanted'' rest))"

text \<open>The targets of one build file that are wanted.\<close>

definition prune_file :: "targets \<Rightarrow> (string \<times> pydict) list \<Rightarrow> string \<Rightarrow> (string \<times> pydict) list res" where
  "prune_file wanted data build_file =
     (case map_of data build_file of
        None \<Rightarrow> Inl (KeyErr build_file)
      | Some d \<Rightarrow>
          (case dget d ''targets'' of
             None \<Rightarrow> Inr data
           | Some v \<Rightarrow>
               ebind (iter_items v) (\<lambda>ts.
               ebind (efold (\<lambda>new_targets t.
                   ebind (as_dict t) (\<lambda>target.
                   ebind (qualified_name build_file target) (\<lambda>name.
                     Inr (if name \<in> fst ` set wanted then new_targets @ [t] else new_targets)))) [] ts)
                 (\<lambda>new_targets. Inr (AList.update build_file (dset ''targets'' (PList new_targets) d) data)))))"

definition PruneUnwantedTargets ::
  "targets \<Rightarrow> string list \<Rightarrow> dgraph \<Rightarrow> string list \<Rightarrow> string list \<Rightarrow> (string \<times> pydict) list
     \<Rightarrow> (targets \<times> string list \<times> (string \<times> pydict) list) res option" where
  "PruneUnwantedTargets targets flat_list dependency_nodes root_targets target_build_files data =
     (case root_names flat_list root_targets of
        Inl e \<Rightarrow> Some (Inl e)
      | Inr roots \<Rightarrow>
          Option.bind (want_roots dependency_nodes targets [] roots) (\<lambda>r.
            case r of
              Inl e \<Rightarrow> Some (Inl e)
            | Inr wanted \<Rightarrow>
                Some (ebind (efold (prune_file wanted) data target_build_files) (\<lambda>data'.
                  Inr (wanted, filter (\<lambda>t. t \<in> fst ` set wanted) flat_list, data')))))"

section \<open>The dictionary of targets\<close>

definition file_entries :: "(string \<times> pydict) list \<Rightarrow> string \<Rightarrow> (string \<times> pydict) list res" where
  "file_entries data f =
     ebind (file_targets data f) (emap (\<lambda>v. ebind (as_dict v) (\<lambda>d. ebind (qualified_name f d) (\<lambda>q. Inr (q, d)))))"

definition extend_targets :: "targets \<Rightarrow> (string \<times> pydict) list \<Rightarrow> targets res \<Rightarrow> bool" where
  "extend_targets ts es r \<longleftrightarrow>
     (if distinct (map fst (ts @ es)) then r = Inr (ts @ es)
      else \<exists>q. q \<in> fst ` set es \<and> r = Inl (GypErr (''Duplicate target definitions for '' @ q)))"

lemma extend_targets_more:
  assumes "extend_targets (ts @ es) es' r"
  shows "extend_targets ts (es @ es') r"
proof (cases "distinct (map fst (ts @ es @ es'))")
  case True
  then show ?thesis using assms unfolding extend_targets_def append.assoc by (simp only: if_True)
next
  case False
  then have "\<exists>q. q \<in> fst ` set es' \<and> r = Inl (GypErr (''Duplicate target definitions for '' @ q))"
    using assms unfolding extend_targets_def append.assoc by (simp only: if_False)
  then show ?thesis using False unfolding extend_targets_def set_append image_Un by (simp only: if_False) blast
qed

lemma extend_targets_fail:
  assumes "extend_targets ts es r" and "\<not> distinct (map fst (ts @ es))"
  shows "extend_targets ts (es @ es') r"
proof -
  have "\<not> distinct (map fst (ts @ es @ es'))" using assms(2) by auto
  moreover have "\<exists>q. q \<in> fst ` set es \<and> r = Inl (GypErr (''Duplicate target definitions for '' @ q))"
    using assms unfolding extend_targets_def by (simp only: if_False)
  ultimately show ?thesis unfolding extend_targets_def set_append image_Un by (simp only: if_False) blast
qed

lemma add_targets:
  assumes "emap (\<lambda>v. ebind (as_dict v) (\<lambda>d. ebind (qualified_name f d) (\<lambda>q. Inr (q, d)))) vs = Inr es"
    and "distinct (map fst ts)"
  shows "extend_targets ts es (efold (add_target f) ts vs)"
  using assms
proof (induction vs arbitrary: ts es)
  case (Cons v vs)
  then obtain d q es' where e: "as_dict v = Inr d" "qualified_name f d = Inr q" "es = (q, d) # es'"
    "emap (\<lambda>v. ebind (as_dict v) (\<lambda>d. ebind (qualified_name f d) (\<lambda>q. Inr (q, d)))) vs = Inr es'"
    by auto
  show ?case
  proof (cases "q \<in> fst ` set ts")
    case True
    then have "add_target f ts v = Inl (GypErr (''Duplicate target definitions for '' @ q))"
      using e by (simp add: add_target_def)
    moreover have "\<not> distinct (map fst (ts @ es))" using True e(3) by auto
    ultimately show ?thesis using e(3) unfolding extend_targets_def by simp
  next
    case False
    then have "extend_targets (ts @ [(q, d)]) es' (efold (add_target f) (ts @ [(q, d)]) vs)"
      using Cons.IH [OF e(4)] Cons.prems(2) by simp
    moreover have "add_target f ts v = Inr (ts @ [(q, d)])" using e False by (simp add: add_target_def)
    ultimately show ?thesis using e(3) extend_targets_more [of ts "[(q, d)]" es'] by simp
  qed
qed (simp add: extend_targets_def)

lemma build_targets:
  assumes "\<And>f. f \<in> set files \<Longrightarrow> file_entries data f = Inr (es f)" and "distinct (map fst ts)"
  shows "extend_targets ts (concat (map es files))
     (efold (\<lambda>targets f. ebind (file_targets data f) (efold (add_target f) targets)) ts files)"
  using assms
proof (induction files arbitrary: ts)
  case (Cons f files)
  obtain vs where v: "file_targets data f = Inr vs"
    "emap (\<lambda>v. ebind (as_dict v) (\<lambda>d. ebind (qualified_name f d) (\<lambda>q. Inr (q, d)))) vs = Inr (es f)"
    using Cons.prems(1) [of f] by (auto simp: file_entries_def)
  have step: "extend_targets ts (es f) (efold (add_target f) ts vs)"
    by (rule add_targets [OF v(2) Cons.prems(2)])
  show ?case
  proof (cases "distinct (map fst (ts @ es f))")
    case True
    then have r: "efold (add_target f) ts vs = Inr (ts @ es f)" using step by (simp add: extend_targets_def)
    have "extend_targets (ts @ es f) (concat (map es files))
      (efold (\<lambda>targets f. ebind (file_targets data f) (efold (add_target f) targets)) (ts @ es f) files)"
      using Cons.IH [OF _ True] Cons.prems(1) by simp
    then show ?thesis using r v(1) by (simp add: extend_targets_more)
  next
    case False
    have "\<exists>e. efold (add_target f) ts vs = Inl e" using step False unfolding extend_targets_def by (metis (lifting))
    then show ?thesis using extend_targets_fail [OF step False] v(1) by auto
  qed
qed (simp add: extend_targets_def)

text \<open>
  When every target of the build files has a name and a toolset, \<open>BuildTargetsDict\<close> lists
  every target of every file, in order, under its fully qualified name, if these names are
  pairwise different; otherwise it raises the \<open>GypError\<close> that names a duplicate.
\<close>

theorem BuildTargetsDict_correct:
  assumes "\<And>f. f \<in> set files \<Longrightarrow> file_entries data f = Inr (es f)"
  shows "let entries = concat (map es files) in
    if distinct (map fst entries) then BuildTargetsDict files data = Inr entries
    else \<exists>q. q \<in> fst ` set entries
      \<and> BuildTargetsDict files data = Inl (GypErr (''Duplicate target definitions for '' @ q))"
proof -
  have "extend_targets [] (concat (map es files)) (BuildTargetsDict files data)"
    using build_targets [OF assms, of files "[]"] by (simp add: BuildTargetsDict_def)
  then show ?thesis unfolding extend_targets_def Let_def append_Nil .
qed

theorem BuildTargetsDict_correct_witness:
  "let t = [(''target_name'', PStr ''a''), (''toolset'', PStr ''host'')]
   in BuildTargetsDict [''x.gyp''] [(''x.gyp'', [(''targets'', PList [PDict t])])] = Inr [(''x.gyp:a#host'', t)]
     \<and> (\<exists>m. BuildTargetsDict [''x.gyp''] [(''x.gyp'', [(''targets'', PList [PDict t, PDict t])])] = Inl (GypErr m))"
proof -
  let ?t = "[(''target_name'', PStr ''a''), (''toolset'', PStr ''host'')]"
  have q: "qualified_name ''x.gyp'' ?t = Inr ''x.gyp:a#host''"
    by (simp add: qualified_name_def dindex_def as_toolset_def QualifiedTarget_def)
  then show ?thesis
    using BuildTargetsDict_correct [of "[''x.gyp'']" "[(''x.gyp'', [(''targets'', PList [PDict ?t])])]"
        "\<lambda>_. [(''x.gyp:a#host'', ?t)]"]
      BuildTargetsDict_correct [of "[''x.gyp'']" "[(''x.gyp'', [(''targets'', PList [PDict ?t, PDict ?t])])]"
        "\<lambda>_. [(''x.gyp:a#host'', ?t), (''x.gyp:a#host'', ?t)]"]
    by (simp add: file_entries_def file_targets_def dget_or_def Let_def)
qed

section \<open>A pass over the targets, one by one\<close>

lemma update_middle:
  "n \<notin> fst ` set ps \<Longrightarrow> AList.update n d' (ps @ (n, d) # qs) = ps @ (n, d') # qs"
  by (induction ps) auto

lemma each_target_loop:
  assumes "distinct (map fst (ps @ qs))"
  shows "efold (\<lambda>ts n. case map_of ts n of None \<Rightarrow> Inr ts
            | Some d \<Rightarrow> ebind (f n d) (\<lambda>d'. Inr (AList.update n d' ts))) (ps @ qs) (map fst qs)
    = ebind (emap (\<lambda>p. ebind (f (fst p) (snd p)) (\<lambda>d. Inr (fst p, d))) qs) (\<lambda>qs'. Inr (ps @ qs'))"
  using assms
proof (induction qs arbitrary: ps)
  case (Cons q qs)
  obtain n d where q: "q = (n, d)" by (cases q)
  have n: "n \<notin> fst ` set ps" using Cons.prems q by auto
  then have "map_of ps n = None" by (simp add: map_of_eq_None_iff)
  then have "map_of (ps @ q # qs) n = Some d" using q by (simp add: map_add_def)
  then show ?case
  proof (cases "f n d")
    case (Inr d')
    have "distinct (map fst ((ps @ [(n, d')]) @ qs))" using Cons.prems q by auto
    from Cons.IH [OF this] show ?thesis
      using q Inr \<open>map_of (ps @ q # qs) n = Some d\<close>
      by (cases "emap (\<lambda>p. ebind (f (fst p) (snd p)) (\<lambda>d. Inr (fst p, d))) qs") (simp_all add: update_middle [OF n])
  qed (use q in simp)
qed simp

lemma each_target_local:
  assumes "distinct (map fst targets)"
  shows "each_target (\<lambda>_. f) targets = emap (\<lambda>p. ebind (f (fst p) (snd p)) (\<lambda>d. Inr (fst p, d))) targets"
  using each_target_loop [of "[]" targets f] assms unfolding each_target_def by simp

lemma each_target_get:
  assumes "distinct (map fst targets)" and "each_target (\<lambda>_. f) targets = Inr targets'"
    and "map_of targets t = Some d"
  shows "\<exists>d'. f t d = Inr d' \<and> map_of targets' t = Some d'"
proof -
  have e: "emap (\<lambda>p. ebind (f (fst p) (snd p)) (\<lambda>d. Inr (fst p, d))) targets = Inr targets'"
    using assms(2) each_target_local [OF assms(1)] by simp
  have "map fst targets' = map fst targets"
  proof (rule nth_equalityI)
    fix i assume "i < length (map fst targets')"
    then show "map fst targets' ! i = map fst targets ! i"
      using emap_Inr_length [OF e] emap_Inr_nth [OF e, of i] by (auto dest: sym)
  qed (simp add: emap_Inr_length [OF e])
  then have dist: "distinct (map fst targets')" using assms(1) by simp
  obtain i where i: "i < length targets" "targets ! i = (t, d)"
    using assms(3) by (metis in_set_conv_nth map_of_SomeD)
  then obtain d' where "f t d = Inr d'" "targets' ! i = (t, d')" using emap_Inr_nth [OF e i(1)] by auto
  then show ?thesis using dist i(1) emap_Inr_length [OF e] by (metis nth_mem map_of_is_SomeI)
qed

lemma each_target_names:
  assumes "each_target f targets = Inr targets'"
  shows "fst ` set targets' = fst ` set targets"
proof -
  have "fst ` set t = fst ` set targets" if "efold (\<lambda>ts n. case map_of ts n of None \<Rightarrow> Inr ts
      | Some d \<Rightarrow> ebind (f ts n d) (\<lambda>d'. Inr (AList.update n d' ts))) targets ns = Inr t" for t ns
    using that
  proof (rule efold_invariant [where P = "\<lambda>ts. fst ` set ts = fst ` set targets"])
    fix s n s' assume "fst ` set s = fst ` set targets"
      "(case map_of s n of None \<Rightarrow> Inr s | Some d \<Rightarrow> ebind (f s n d) (\<lambda>d'. Inr (AList.update n d' s))) = Inr s'"
    then show "fst ` set s' = fst ` set targets"
    proof (cases "map_of s n")
      case (Some d)
      then have "n \<in> fst ` set s" by (force dest: map_of_SomeD)
      moreover obtain x where "s' = AList.update n x s" using \<open>_ = Inr s'\<close> Some by auto
      ultimately have "fst ` set s' = fst ` set s" by (simp add: dom_update insert_absorb)
      then show ?thesis using \<open>fst ` set s = fst ` set targets\<close> by simp
    qed simp
  qed simp
  then show ?thesis using assms unfolding each_target_def by blast
qed

section \<open>Qualified dependencies\<close>

text \<open>The name a dependency is rewritten to, when it resolves to a build file.\<close>

definition fq_dep :: "(string \<Rightarrow> string) \<Rightarrow> bool \<Rightarrow> string \<Rightarrow> string option \<Rightarrow> string \<Rightarrow> string" where
  "fq_dep realpath multiple_toolsets target toolset d =
     (case ResolveTarget realpath (BuildFile target) d toolset of (f, n, ts) \<Rightarrow>
        QualifiedTarget (the f) n (if multiple_toolsets then ts else toolset))"

lemma qualify_dependency_Inr:
  "qualify_dependency rp mt (BuildFile target) toolset v = Inr q \<Longrightarrow>
     \<exists>d. v = PStr d \<and> q = fq_dep rp mt target toolset d"
  by (cases v) (auto simp: qualify_dependency_def fq_dep_def split: prod.splits option.splits)

text \<open>After \<open>n\<close> steps of the index loop over the section \<open>key\<close>.\<close>

definition qualified_upto :: "(string \<Rightarrow> string) \<Rightarrow> bool \<Rightarrow> string \<Rightarrow> string option \<Rightarrow> string \<Rightarrow> pydict
    \<Rightarrow> pyval list \<Rightarrow> nat \<Rightarrow> pydict \<Rightarrow> bool" where
  "qualified_upto rp mt target toolset key td vs n td' \<longleftrightarrow>
     (\<exists>ds. length ds = n \<and> take n vs = map PStr ds
        \<and> dget td' key = Some (PList (map (\<lambda>d. PStr (fq_dep rp mt target toolset d)) ds @ drop n vs))
        \<and> (\<forall>k. k \<noteq> key \<longrightarrow> dget td' k = dget td k)
        \<and> (key \<noteq> ''dependencies'' \<longrightarrow> (\<forall>d\<in>set ds.
             ebind (dindex td ''dependencies'') (str_in (fq_dep rp mt target toolset d)) = Inr True)))"

lemma qualify_index_step:
  assumes q: "qualified_upto rp mt target toolset key td vs n td'" and n: "n < length vs"
    and r: "qualify_index rp mt target toolset key td' n = Inr td''"
  shows "qualified_upto rp mt target toolset key td vs (Suc n) td''"
proof -
  let ?q = "fq_dep rp mt target toolset"
  obtain ds where ds: "length ds = n" "take n vs = map PStr ds"
    "dget td' key = Some (PList (map (\<lambda>d. PStr (?q d)) ds @ drop n vs))"
    "\<forall>k. k \<noteq> key \<longrightarrow> dget td' k = dget td k"
    "key \<noteq> ''dependencies'' \<Longrightarrow> \<forall>d\<in>set ds. ebind (dindex td ''dependencies'') (str_in (?q d)) = Inr True"
    using q unfolding qualified_upto_def by blast
  let ?xs = "map (\<lambda>d. PStr (?q d)) ds @ drop n vs"
  have xs: "?xs ! n = vs ! n" using ds(1) n by (simp add: nth_append)
  have get: "ebind (dindex td' key) as_list = Inr ?xs" using ds(3) by (simp add: dindex_def)
  obtain p where p: "qualify_dependency rp mt (BuildFile target) toolset (?xs ! n) = Inr p"
    using r unfolding qualify_index_def get ebind_simps by (cases "qualify_dependency rp mt (BuildFile target) toolset (?xs ! n)") auto
  then obtain d where d: "vs ! n = PStr d" "p = ?q d" using qualify_dependency_Inr xs by metis
  let ?td = "dset key (PList (?xs[n := PStr p])) td'"
  have "td'' = ?td \<and> (key \<noteq> ''dependencies'' \<longrightarrow> ebind (dindex ?td ''dependencies'') (str_in p) = Inr True)"
    using r unfolding qualify_index_def get ebind_simps p Let_def
    by (cases "key = ''dependencies''"; cases "ebind (dindex ?td ''dependencies'') (str_in p)") (auto split: if_splits)
  then have td'': "td'' = ?td"
    and inn: "key \<noteq> ''dependencies'' \<longrightarrow> ebind (dindex td ''dependencies'') (str_in p) = Inr True"
    using ds(4) by (auto simp: dindex_def)
  have "?xs[n := PStr p] = map (\<lambda>d. PStr (?q d)) (ds @ [d]) @ drop (Suc n) vs"
    using ds(1) n d(2) by (simp add: list_update_append Cons_nth_drop_Suc [symmetric])
  moreover have "take (Suc n) vs = map PStr (ds @ [d])" using ds(2) n d(1) by (simp add: take_Suc_conv_app_nth)
  ultimately show ?thesis
    unfolding qualified_upto_def td'' using ds(1,4,5) inn d(2) by (intro exI [of _ "ds @ [d]"]) auto
qed

lemma qualify_section_Inr:
  assumes "qualify_section rp mt target toolset td key = Inr td'" and "dget td key = Some (PList vs)"
  shows "qualified_upto rp mt target toolset key td vs (length vs) td'"
proof -
  have "qualified_upto rp mt target toolset key td vs n t"
    if "efold (qualify_index rp mt target toolset key) td [0..<n] = Inr t" "n \<le> length vs" for n t
    using that
  proof (induction n arbitrary: t)
    case 0
    then show ?case using assms(2) by (simp add: qualified_upto_def)
  next
    case (Suc n)
    then obtain u where "efold (qualify_index rp mt target toolset key) td [0..<n] = Inr u"
      "qualify_index rp mt target toolset key u n = Inr t" by (auto simp: efold_append)
    then show ?case using Suc qualify_index_step by (meson Suc_leD less_eq_Suc_le)
  qed
  then show ?thesis using assms by (simp add: qualify_section_def py_len_def dget_or_def)
qed

text \<open>A section of \<open>td\<close> is rewritten in \<open>td'\<close>.\<close>

definition section_qualified :: "(string \<Rightarrow> string) \<Rightarrow> bool \<Rightarrow> string \<Rightarrow> string option \<Rightarrow> pydict \<Rightarrow> pydict
    \<Rightarrow> string \<Rightarrow> bool" where
  "section_qualified rp mt target toolset td td' key \<longleftrightarrow>
     (\<forall>vs. dget td key = Some (PList vs) \<longrightarrow>
       (\<exists>ds. vs = map PStr ds
          \<and> dget td' key = Some (PList (map (\<lambda>d. PStr (fq_dep rp mt target toolset d)) ds))
          \<and> (key \<noteq> ''dependencies'' \<longrightarrow> (\<forall>d\<in>set ds.
               ebind (dindex td' ''dependencies'') (str_in (fq_dep rp mt target toolset d)) = Inr True))))"

lemma qualify_section_result:
  assumes "qualify_section rp mt target toolset td key = Inr td'"
  shows "(\<forall>k. k \<noteq> key \<longrightarrow> dget td' k = dget td k) \<and> section_qualified rp mt target toolset td td' key"
proof (cases "\<exists>vs. dget td key = Some (PList vs)")
  case True
  then obtain vs where vs: "dget td key = Some (PList vs)" by blast
  obtain ds where ds: "vs = map PStr ds"
    "dget td' key = Some (PList (map (\<lambda>d. PStr (fq_dep rp mt target toolset d)) ds))"
    "\<forall>k. k \<noteq> key \<longrightarrow> dget td' k = dget td k"
    "key \<noteq> ''dependencies'' \<longrightarrow> (\<forall>d\<in>set ds.
       ebind (dindex td ''dependencies'') (str_in (fq_dep rp mt target toolset d)) = Inr True)"
    using qualify_section_Inr [OF assms vs] unfolding qualified_upto_def by auto
  then show ?thesis using vs unfolding section_qualified_def dindex_def by auto
next
  case False
  obtain n where n: "py_len (dget_or td key (PList [])) = Inr n"
    "efold (qualify_index rp mt target toolset key) td [0..<n] = Inr td'"
    using assms unfolding qualify_section_def by auto
  have "n = 0"
  proof (rule ccontr)
    assume "n \<noteq> 0"
    then have "efold (qualify_index rp mt target toolset key) td (0 # [1..<n]) = Inr td'"
      using n(2) by (simp add: upt_conv_Cons)
    moreover have "ebind (dindex td key) as_list \<noteq> Inr xs" for xs
    proof -
      have "as_list v = Inr xs \<longleftrightarrow> v = PList xs" for v by (cases v) auto
      then show ?thesis using False by (auto simp: dindex_def split: option.splits)
    qed
    ultimately show False
      unfolding qualify_index_def efold.simps by (cases "ebind (dindex td key) as_list") auto
  qed
  then show ?thesis using n(2) False by (auto simp: section_qualified_def)
qed

lemma qualify_sections_result:
  assumes "efold (qualify_section rp mt target toolset) td keys = Inr td'"
    and "distinct keys" and "''dependencies'' \<notin> set keys"
  shows "(\<forall>k. k \<notin> set keys \<longrightarrow> dget td' k = dget td k)
    \<and> (\<forall>k\<in>set keys. section_qualified rp mt target toolset td td' k)"
  using assms
proof (induction keys arbitrary: td)
  case (Cons key keys)
  then obtain u where u: "qualify_section rp mt target toolset td key = Inr u"
    "efold (qualify_section rp mt target toolset) u keys = Inr td'" by auto
  note s = qualify_section_result [OF u(1)]
  have r: "(\<forall>k. k \<notin> set keys \<longrightarrow> dget td' k = dget u k)
    \<and> (\<forall>k\<in>set keys. section_qualified rp mt target toolset u td' k)"
    using Cons.IH [OF u(2)] Cons.prems by simp
  have "section_qualified rp mt target toolset td td' key"
    using s r Cons.prems(2,3) unfolding section_qualified_def dindex_def by auto
  moreover have "section_qualified rp mt target toolset td td' k" if "k \<in> set keys" for k
  proof -
    have "dget u k = dget td k" using s that Cons.prems(2) by auto
    then show ?thesis using r that unfolding section_qualified_def by simp
  qed
  ultimately show ?case using s r by auto
qed simp

text \<open>
  When \<open>QualifyDependencies\<close> succeeds, every dependency section of every target holds,
  item for item, the fully qualified names its dependencies resolve to (with the toolset of the
  target when the generator has one toolset only), every name listed in another section appears
  under \<open>dependencies\<close>, and no other key of a target is changed.
\<close>

theorem QualifyDependencies_correct:
  assumes "distinct (map fst targets)" and "QualifyDependencies rp mt targets = Inr targets'"
    and "map_of targets t = Some td"
  shows "\<exists>td' toolset. map_of targets' t = Some td'
    \<and> ebind (dindex td ''toolset'') as_toolset = Inr toolset
    \<and> (\<forall>k. k \<notin> set all_dependency_sections \<longrightarrow> dget td' k = dget td k)
    \<and> (\<forall>k\<in>set all_dependency_sections. section_qualified rp mt t toolset td td' k)"
proof -
  obtain td' toolset where t: "map_of targets' t = Some td'"
    "ebind (dindex td ''toolset'') as_toolset = Inr toolset"
    "efold (qualify_section rp mt t toolset) td all_dependency_sections = Inr td'"
    using each_target_get [OF assms(1) assms(2) [unfolded QualifyDependencies_def] assms(3)]
    unfolding ebind_Inr_iff by blast
  define rest where "rest = tl all_dependency_sections"
  have secs: "all_dependency_sections = ''dependencies'' # rest"
    and rest: "distinct rest" "''dependencies'' \<notin> set rest"
    by (simp_all add: rest_def all_dependency_sections_def dependency_sections_def)
  obtain u where u: "qualify_section rp mt t toolset td ''dependencies'' = Inr u"
    "efold (qualify_section rp mt t toolset) u rest = Inr td'"
    using t(3) unfolding secs efold.simps ebind_Inr_iff by blast
  note s = qualify_section_result [OF u(1)]
  note r = qualify_sections_result [OF u(2) rest]
  have "section_qualified rp mt t toolset td td' ''dependencies''"
    using s r rest(2) unfolding section_qualified_def by auto
  moreover have "section_qualified rp mt t toolset td td' k" if "k \<in> set rest" for k
  proof -
    have "k \<noteq> ''dependencies''" using that rest(2) by blast
    then have "dget u k = dget td k" using s by blast
    then show ?thesis using r that unfolding section_qualified_def by simp
  qed
  moreover have mem: "k \<in> set all_dependency_sections \<longleftrightarrow> k = ''dependencies'' \<or> k \<in> set rest" for k
    unfolding secs by (simp only: list.set insert_iff)
  moreover have "dget td' k = dget td k" if "k \<notin> set all_dependency_sections" for k
    using that s r unfolding mem by metis
  ultimately show ?thesis using t(1,2) by metis
qed

theorem QualifyDependencies_correct_witness:
  "\<exists>td'. map_of [(''x.gyp:a#host'', [(''toolset'', PStr ''host''), (''dependencies'', PList [PStr ''x.gyp:b#host''])])]
      ''x.gyp:a#host'' = Some td' \<and> dget td' ''toolset'' = Some (PStr ''host'')"
  using QualifyDependencies_correct [of
      "[(''x.gyp:a#host'', [(''toolset'', PStr ''host''), (''dependencies'', PList [PStr '':b''])])]" id True
      "[(''x.gyp:a#host'', [(''toolset'', PStr ''host''), (''dependencies'', PList [PStr ''x.gyp:b#host''])])]"
      "''x.gyp:a#host''" "[(''toolset'', PStr ''host''), (''dependencies'', PList [PStr '':b''])]"]
  by (auto simp: QualifyDependencies_def each_target_def all_dependency_sections_def dependency_sections_def
      qualify_section_def qualify_index_def qualify_dependency_def py_len_def dget_or_def dindex_def
      as_toolset_def ResolveTarget_def ParseQualifiedTarget_def BuildFile_def QualifiedTarget_def)

end
