(* ===== verification/TargetSelection.thy ===== *)
theory TargetSelection
  imports TargetPasses
begin

text \<open>
  What the passes of \<open>TargetPasses\<close> select: the targets a wildcard dependency stands for, the
  targets that survive the pruning to the wanted roots, and the check that no two targets of a
  directory share a name.
\<close>

section \<open>Wildcards\<close>

definition wildcard :: "string \<Rightarrow> bool" where
  "wildcard s \<longleftrightarrow> (case ParseQualifiedTarget s of (_, n, ts) \<Rightarrow> n = ''*'' \<or> ts = Some ''*'')"

text \<open>
  \<open>q\<close> names the target \<open>target\<close> of the file \<open>f\<close>, which does not suppress wildcards and has the
  name and the toolset that are asked for.
\<close>

definition picks :: "string \<Rightarrow> string \<Rightarrow> string option \<Rightarrow> pydict \<Rightarrow> string \<Rightarrow> bool" where
  "picks f n ts target q \<longleftrightarrow>
     (\<exists>name tv toolset.
        to_int (dget_or target ''suppress_wildcard'' (PBool False)) = Inr 0
        \<and> dget target ''target_name'' = Some (PStr name) \<and> (n = ''*'' \<or> name = n)
        \<and> dget target ''toolset'' = Some tv \<and> as_toolset tv = Inr toolset
        \<and> (ts = Some ''*'' \<or> tv = (case ts of None \<Rightarrow> PNone | Some t \<Rightarrow> PStr t))
        \<and> q = QualifiedTarget f name toolset)"

text \<open>\<open>q\<close> is one of the targets the wildcard \<open>s\<close> stands for.\<close>

definition stands_for :: "(string \<times> pydict) list \<Rightarrow> string \<Rightarrow> string \<Rightarrow> bool" where
  "stands_for data s q \<longleftrightarrow>
     (\<exists>f n ts d vs target.
        ParseQualifiedTarget s = (Some f, n, ts) \<and> map_of data f = Some d
        \<and> ebind (dindex d ''targets'') iter_items = Inr vs \<and> PDict target \<in> set vs
        \<and> picks f n ts target q)"

lemma wildcard_match_Inr:
  assumes "wildcard_match f n ts v = Inr xs"
  shows "\<exists>target. v = PDict target \<and> (\<forall>x. x \<in> set xs \<longleftrightarrow> (\<exists>q. x = PStr q \<and> picks f n ts target q))"
proof -
  have str: "as_str v = Inr s \<longleftrightarrow> v = PStr s" for v s by (cases v) auto
  obtain target where t: "v = PDict target" using assms by (cases v) (auto simp: wildcard_match_def)
  show ?thesis
    using assms unfolding t wildcard_match_def picks_def
    by (auto simp: dindex_def str split: if_splits option.splits)
qed

lemma expand_dependency_set:
  assumes "expand_dependency data target key v = Inr xs"
  shows "\<exists>s. v = PStr s \<and> (\<forall>x. x \<in> set xs \<longleftrightarrow> (if wildcard s then \<exists>q. x = PStr q \<and> stands_for data s q else x = v))"
proof -
  obtain s where s: "v = PStr s" using assms by (cases v) (auto simp: expand_dependency_def)
  obtain bf n ts where p: "ParseQualifiedTarget s = (bf, n, ts)" by (cases "ParseQualifiedTarget s")
  show ?thesis
  proof (cases "wildcard s")
    case False
    then show ?thesis using assms s p by (auto simp: expand_dependency_def wildcard_def)
  next
    case True
    then have w: "\<not> (n \<noteq> ''*'' \<and> ts \<noteq> Some ''*'')" using p by (simp add: wildcard_def)
    obtain f d vs xss where f: "bf = Some f" "map_of data f = Some d"
      "ebind (dindex d ''targets'') iter_items = Inr vs" "emap (wildcard_match f n ts) vs = Inr xss" "xs = concat xss"
      using assms unfolding s expand_dependency_def as_str.simps ebind_simps p prod.case if_not_P [OF w]
      by (auto split: if_splits option.splits)
    have "x \<in> set xs \<longleftrightarrow> (\<exists>q. x = PStr q \<and> stands_for data s q)" for x
    proof
      assume "x \<in> set xs"
      then obtain ys where ys: "ys \<in> set xss" "x \<in> set ys" using f(5) by auto
      then obtain v' where "v' \<in> set vs" "wildcard_match f n ts v' = Inr ys"
        using f(4) emap_Inr_length emap_Inr_nth by (metis in_set_conv_nth)
      then show "\<exists>q. x = PStr q \<and> stands_for data s q"
        using wildcard_match_Inr [of f n ts v' ys] ys(2) f(1-3) p unfolding stands_for_def by blast
    next
      assume "\<exists>q. x = PStr q \<and> stands_for data s q"
      then obtain q t where q: "x = PStr q" "PDict t \<in> set vs" "picks f n ts t q"
        using p f(1-3) unfolding stands_for_def by auto
      then obtain ys where ys: "ys \<in> set xss" "wildcard_match f n ts (PDict t) = Inr ys"
        using f(4) emap_Inr_length emap_Inr_nth by (metis in_set_conv_nth)
      have "x \<in> set ys" using wildcard_match_Inr [OF ys(2)] q(1,3) by auto
      then show "x \<in> set xs" using ys(1) f(5) by auto
    qed
    then show ?thesis using s True by auto
  qed
qed

text \<open>What the expansion of one section makes of its list.\<close>

definition expanded :: "(string \<times> pydict) list \<Rightarrow> pydict \<Rightarrow> pydict \<Rightarrow> string \<Rightarrow> bool" where
  "expanded data td td' key \<longleftrightarrow>
     (\<forall>deps. dget td key = Some (PList (map PStr deps)) \<longrightarrow>
       (\<exists>deps'. dget td' key = Some (PList (map PStr deps'))
          \<and> set deps' = {s \<in> set deps. \<not> wildcard s} \<union> {q. \<exists>s\<in>set deps. wildcard s \<and> stands_for data s q}))"

lemma expand_section_result:
  assumes "expand_section data target td key = Inr td'"
  shows "(\<forall>k. k \<noteq> key \<longrightarrow> dget td' k = dget td k) \<and> expanded data td td' key"
proof (intro conjI)
  show "\<forall>k. k \<noteq> key \<longrightarrow> dget td' k = dget td k"
    using assms unfolding expand_section_def by (auto split: option.splits if_splits)
  show "expanded data td td' key"
    unfolding expanded_def
  proof (intro allI impI)
    fix deps assume k: "dget td key = Some (PList (map PStr deps))"
    show "\<exists>deps'. dget td' key = Some (PList (map PStr deps'))
          \<and> set deps' = {s \<in> set deps. \<not> wildcard s} \<union> {q. \<exists>s\<in>set deps. wildcard s \<and> stands_for data s q}"
    proof (cases "deps = []")
      case True
      then show ?thesis using assms k by (auto simp: expand_section_def py_len_def)
    next
      case False
      then obtain xss where x: "emap (expand_dependency data target key) (map PStr deps) = Inr xss"
        "td' = dset key (PList (concat xss)) td"
        using assms k by (auto simp: expand_section_def py_len_def)
      have e: "expand_dependency data target key (PStr (deps ! i)) = Inr (xss ! i)" if "i < length deps" for i
        using emap_Inr_nth [OF x(1), of i] that by simp
      have len: "length xss = length deps" using emap_Inr_length [OF x(1)] by simp
      have mem: "v \<in> set (concat xss) \<longleftrightarrow> (\<exists>s\<in>set deps. if wildcard s then \<exists>q. v = PStr q \<and> stands_for data s q else v = PStr s)" for v
      proof -
        have "v \<in> set (concat xss) \<longleftrightarrow> (\<exists>i<length deps. v \<in> set (xss ! i))"
          using len by (simp add: set_concat) (metis in_set_conv_nth)
        also have "\<dots> \<longleftrightarrow> (\<exists>i<length deps. if wildcard (deps ! i)
            then \<exists>q. v = PStr q \<and> stands_for data (deps ! i) q else v = PStr (deps ! i))"
          using expand_dependency_set [OF e] by (metis (full_types) pyval.inject(3))
        finally show ?thesis by (metis in_set_conv_nth)
      qed
      then have "\<forall>v\<in>set (concat xss). \<exists>s. v = PStr s" by (metis (full_types))
      then obtain deps' where d: "concat xss = map PStr deps'" by (metis ex_map_conv)
      have "s \<in> set deps' \<longleftrightarrow> PStr s \<in> set (concat xss)" for s unfolding d by auto
      then have "set deps' = {s \<in> set deps. \<not> wildcard s} \<union> {q. \<exists>s\<in>set deps. wildcard s \<and> stands_for data s q}"
        unfolding mem by (auto split: if_splits)
      then show ?thesis using x(2) d by auto
    qed
  qed
qed

text \<open>
  C18: After \<open>ExpandWildcardDependencies\<close> each dependency section of a target holds its ordinary
  dependencies and, instead of each wildcard, exactly the targets the wildcard stands for; the
  other keys of the target are unchanged.
\<close>

theorem ExpandWildcards_correct:
  assumes "distinct (map fst targets)" and "ExpandWildcardDependencies targets data = Inr targets'"
    and "map_of targets t = Some td"
  shows "\<exists>td'. map_of targets' t = Some td'
    \<and> (\<forall>k. k \<notin> set dependency_sections \<longrightarrow> dget td' k = dget td k)
    \<and> (\<forall>k\<in>set dependency_sections. expanded data td td' k)"
proof -
  obtain td' where t: "map_of targets' t = Some td'"
    "ebind (dindex td ''toolset'') (\<lambda>_. efold (expand_section data t) td dependency_sections) = Inr td'"
    using each_target_get [OF assms(1) assms(2) [unfolded ExpandWildcardDependencies_def] assms(3)] by blast
  have ne: "''dependencies'' \<noteq> ''export_dependent_settings''" by simp
  obtain u where u: "expand_section data t td ''dependencies'' = Inr u"
    "expand_section data t u ''export_dependent_settings'' = Inr td'"
    using t(2) unfolding dependency_sections_def efold.simps ebind_Inr_iff by blast
  note r = expand_section_result [OF u(1), THEN conjunct1] expand_section_result [OF u(1), THEN conjunct2]
    expand_section_result [OF u(2), THEN conjunct1] expand_section_result [OF u(2), THEN conjunct2]
  have "dget td' ''dependencies'' = dget u ''dependencies''" by (rule r(3) [rule_format, OF ne])
  moreover have "dget u ''export_dependent_settings'' = dget td ''export_dependent_settings''"
    by (rule r(1) [rule_format, OF ne [symmetric]])
  ultimately have e: "expanded data td td' ''dependencies''" "expanded data td td' ''export_dependent_settings''"
    using r(2,4) unfolding expanded_def by (simp_all only:)
  have "\<forall>k. k \<notin> set dependency_sections \<longrightarrow> dget td' k = dget td k"
  proof (intro allI impI)
    fix k assume "k \<notin> set dependency_sections"
    then have k: "k \<noteq> ''dependencies''" "k \<noteq> ''export_dependent_settings''"
      unfolding dependency_sections_def list.set by blast+
    show "dget td' k = dget td k"
      using r(1) [rule_format, OF k(1)] r(3) [rule_format, OF k(2)] by simp
  qed
  moreover have "\<forall>k\<in>set dependency_sections. expanded data td td' k"
    unfolding dependency_sections_def list.set using e by blast
  ultimately show ?thesis using t(1) by blast
qed

theorem ExpandWildcards_correct_witness:
  "let td = [(''toolset'', PStr ''host''), (''dependencies'', PList [PStr ''y.gyp:*#host''])];
       b = [(''target_name'', PStr ''b''), (''toolset'', PStr ''host'')]
   in \<exists>td'. ExpandWildcardDependencies [(''x.gyp:a#host'', td)] [(''y.gyp'', [(''targets'', PList [PDict b])])]
        = Inr [(''x.gyp:a#host'', td')] \<and> dget td' ''toolset'' = Some (PStr ''host'')"
proof -
  let ?td = "[(''toolset'', PStr ''host''), (''dependencies'', PList [PStr ''y.gyp:*#host''])]"
  let ?td' = "[(''toolset'', PStr ''host''), (''dependencies'', PList [PStr ''y.gyp:b#host''])]"
  let ?data = "[(''y.gyp'', [(''targets'', PList [PDict [(''target_name'', PStr ''b''), (''toolset'', PStr ''host'')]])])]"
  have e: "ExpandWildcardDependencies [(''x.gyp:a#host'', ?td)] ?data = Inr [(''x.gyp:a#host'', ?td')]"
    by (simp add: ExpandWildcardDependencies_def each_target_def dependency_sections_def expand_section_def
        py_len_def expand_dependency_def wildcard_match_def dget_or_def dindex_def as_toolset_def
        ParseQualifiedTarget_def BuildFile_def QualifiedTarget_def)
  show ?thesis
    using e ExpandWildcards_correct [of "[(''x.gyp:a#host'', ?td)]" ?data "[(''x.gyp:a#host'', ?td')]"
        "''x.gyp:a#host''" ?td]
    by (auto simp: Let_def dependency_sections_def)
qed

section \<open>Colliding names\<close>

text \<open>The directory and the name of a fully qualified target.\<close>

definition place :: "string \<Rightarrow> string \<times> string" where
  "place target =
     (case rsplit1 (CHR '':'') target of
        None \<Rightarrow> ([], target)
      | Some (path, name) \<Rightarrow> (if dirname path = [] then ''.'' else dirname path, name))"

definition place_key :: "string \<times> string \<Rightarrow> string" where
  "place_key p = fst p @ '':'' @ snd p"

lemma collision_key_place:
  assumes "CHR '':'' \<in> set t"
  shows "\<exists>gyp. collision_key t = Inr (place_key (place t), snd (place t), fst (place t), gyp)
    \<and> CHR '':'' \<notin> set (snd (place t))"
proof -
  obtain path name where p: "rsplit1 (CHR '':'') t = Some (path, name)"
    using assms by (cases "rsplit1 (CHR '':'') t") (auto simp: rsplit1_None)
  then have "CHR '':'' \<notin> set name" by (simp add: rsplit1_Some)
  then show ?thesis
    using p by (simp add: collision_key_def place_def place_key_def dirname_def Let_def split: prod.splits)
qed

lemma place_key_inj:
  assumes "CHR '':'' \<notin> set (snd p)" and "CHR '':'' \<notin> set (snd q)" and "place_key p = place_key q"
  shows "p = q"
proof -
  have "rsplit1 (CHR '':'') (place_key r) = Some r" if "CHR '':'' \<notin> set (snd r)" for r
    using that by (cases r) (simp add: place_key_def rsplit1_Some)
  then show ?thesis using assms by (metis option.inject)
qed

lemma use_names:
  assumes "\<forall>t\<in>set ts. CHR '':'' \<in> set t" and "distinct (map fst used)"
  shows "if distinct (map fst used @ map (place_key \<circ> place) ts) then \<exists>used'. efold use_name used ts = Inr used'
    else \<exists>m. efold use_name used ts = Inl (GypErr m)"
  using assms
proof (induction ts arbitrary: used)
  case (Cons t ts)
  obtain gyp where k: "collision_key t = Inr (place_key (place t), snd (place t), fst (place t), gyp)"
    using Cons.prems(1) collision_key_place by auto
  show ?case
  proof (cases "map_of used (place_key (place t))")
    case None
    then have "place_key (place t) \<notin> fst ` set used" by (simp add: map_of_eq_None_iff)
    moreover have "use_name used t = Inr (used @ [(place_key (place t), gyp)])"
      using k None by (simp add: use_name_def)
    ultimately show ?thesis
      using Cons.IH [of "used @ [(place_key (place t), gyp)]"] Cons.prems by (auto split: if_splits)
  next
    case (Some other)
    then have "place_key (place t) \<in> fst ` set used" by (force dest: map_of_SomeD)
    moreover have "\<exists>m. use_name used t = Inl (GypErr m)" using k Some by (simp add: use_name_def)
    ultimately show ?thesis by auto
  qed
qed simp

lemma colliding_targets:
  assumes "\<forall>t\<in>set ts. CHR '':'' \<in> set t"
  shows "if distinct (map place ts) then \<exists>used. VerifyNoCollidingTargets ts = Inr used
    else \<exists>m. VerifyNoCollidingTargets ts = Inl (GypErr m)"
proof -
  have "inj_on place_key (place ` set ts)"
    using assms collision_key_place place_key_inj by (intro inj_onI) blast
  then have "distinct (map (place_key \<circ> place) ts) \<longleftrightarrow> distinct (map place ts)"
    by (metis distinct_map list.map_comp list.set_map)
  then show ?thesis using use_names [OF assms, of "[]"] by (simp add: VerifyNoCollidingTargets_def)
qed

text \<open>
  C22: For fully qualified targets, \<open>VerifyNoCollidingTargets\<close> passes exactly when no two of
  them have the same name in the same directory, and raises a \<open>GypError\<close> otherwise.
\<close>

theorem VerifyNoCollidingTargets_correct:
  assumes "\<forall>t\<in>set ts. CHR '':'' \<in> set t"
  shows "if distinct (map place ts) then \<exists>used. VerifyNoCollidingTargets ts = Inr used
    else \<exists>m. VerifyNoCollidingTargets ts = Inl (GypErr m)"
  using assms by (rule colliding_targets)

theorem VerifyNoCollidingTargets_correct_witness:
  "\<exists>m. VerifyNoCollidingTargets [''d/x.gyp:a'', ''d/y.gyp:a''] = Inl (GypErr m)"
  using VerifyNoCollidingTargets_correct [of "[''d/x.gyp:a'', ''d/y.gyp:a'']"]
  by (simp add: place_def dirname_def path_split_def split_at_slash_def)

section \<open>Wanted targets\<close>

text \<open>The targets wanted by a set of roots: the roots and everything they depend on.\<close>

definition wanted_by :: "targets \<Rightarrow> string set \<Rightarrow> string set" where
  "wanted_by targets roots = {d. \<exists>r\<in>roots. (d, r) \<in> (depends targets)\<^sup>*}"

definition wanted_ok :: "targets \<Rightarrow> targets \<Rightarrow> string set \<Rightarrow> bool" where
  "wanted_ok targets wanted names \<longleftrightarrow>
     distinct (map fst wanted) \<and> fst ` set wanted = names \<and> set wanted \<subseteq> set targets"

lemma want_ok:
  assumes "wanted_ok targets wanted names" and "t \<in> fst ` set targets"
  shows "\<exists>wanted'. want targets wanted t = Inr wanted' \<and> wanted_ok targets wanted' (insert t names)"
proof -
  obtain spec where s: "map_of targets t = Some spec" using assms(2)
    by (metis map_of_eq_None_iff not_Some_eq)
  have "set (AList.update t spec wanted) \<subseteq> insert (t, spec) (set wanted)"
    by (induction wanted) auto
  then have "set (AList.update t spec wanted) \<subseteq> set targets"
    using assms(1) s unfolding wanted_ok_def by (auto dest: map_of_SomeD)
  then show ?thesis
    using assms(1) s unfolding wanted_ok_def by (simp add: want_def distinct_update dom_update)
qed

lemma want_all_ok:
  assumes "wanted_ok targets wanted names" and "set ts \<subseteq> fst ` set targets"
  shows "\<exists>wanted'. efold (want targets) wanted ts = Inr wanted' \<and> wanted_ok targets wanted' (names \<union> set ts)"
  using assms
proof (induction ts arbitrary: wanted names)
  case (Cons t ts)
  then obtain w where w: "want targets wanted t = Inr w" "wanted_ok targets w (insert t names)"
    using want_ok by (metis insert_subset list.simps(15))
  then show ?case using Cons.IH [OF w(2)] Cons.prems(2) by auto
qed simp

lemma want_roots_ok:
  assumes g: "build_graph targets = Inr g" and d: "distinct (map fst targets)"
    and "wanted_ok targets wanted names" and "set ts \<subseteq> fst ` set targets"
  shows "\<exists>wanted'. want_roots g targets wanted ts = Some (Inr wanted')
    \<and> wanted_ok targets wanted' (names \<union> wanted_by targets (set ts))"
  using assms(3,4)
proof (induction ts arbitrary: wanted names)
  case (Cons t ts)
  note gr = build_graph_graph_of [OF g d]
  have t: "t \<in> set (map fst targets)" using Cons.prems(2) by simp
  have refs: "t \<in> set (g_refs g)" using t gr unfolding graph_of_def by simp
  obtain w where w: "want targets wanted t = Inr w" "wanted_ok targets w (insert t names)"
    using want_ok [OF Cons.prems(1)] t by auto
  obtain s xs where s: "DeepDependencies g (Some t) = Some s" "oset_iter s = Some xs"
    "set xs = {d. (d, t) \<in> (depends targets)\<^sup>+}"
    using DeepDependencies_closed [OF g d t] by blast
  have "set xs \<subseteq> fst ` set targets"
  proof
    fix x assume "x \<in> set xs"
    then have "(x, t) \<in> (depends targets)\<^sup>+" using s(3) by simp
    then obtain u where "(x, u) \<in> depends targets" by (meson tranclD)
    then show "x \<in> fst ` set targets" using gr target_deps_key unfolding graph_of_def depends_def by fastforce
  qed
  then obtain w' where w': "efold (want targets) w xs = Inr w'" "wanted_ok targets w' (insert t names \<union> set xs)"
    using want_all_ok [OF w(2)] by blast
  obtain w'' where w'': "want_roots g targets w' ts = Some (Inr w'')"
    "wanted_ok targets w'' (insert t names \<union> set xs \<union> wanted_by targets (set ts))"
    using Cons.IH [OF w'(2)] Cons.prems(2) by auto
  have "insert t names \<union> set xs \<union> wanted_by targets (set ts) = names \<union> wanted_by targets (set (t # ts))"
    unfolding s(3) wanted_by_def by (auto simp: rtrancl_eq_or_trancl)
  then show ?case using w(1) refs s(1,2) w'(1) w'' by simp
qed (simp add: wanted_by_def)

lemma add_roots_ok:
  assumes "\<forall>r\<in>set rs. FindQualifiedTargets (strip r) flat \<noteq> []"
  shows "efold (add_root flat) acc rs = Inr (acc @ concat (map (\<lambda>r. FindQualifiedTargets (strip r) flat) rs))"
  using assms by (induction rs arbitrary: acc) (simp_all add: add_root_def Let_def)

lemma add_roots_fail:
  assumes "\<not> (\<forall>r\<in>set rs. FindQualifiedTargets (strip r) flat \<noteq> [])"
  shows "\<exists>m. efold (add_root flat) acc rs = Inl (GypErr m)"
  using assms
proof (induction rs arbitrary: acc)
  case (Cons r rs)
  then show ?case by (cases "FindQualifiedTargets (strip r) flat = []") (auto simp: add_root_def Let_def)
qed simp

text \<open>The targets the roots name: any toolset, any build file.\<close>

definition named_by :: "string list \<Rightarrow> string list \<Rightarrow> string set" where
  "named_by root_targets flat = {t \<in> set flat. \<exists>r\<in>set root_targets. fst (snd (ParseQualifiedTarget t)) = strip r}"

lemma PruneUnwantedTargets_kept:
  assumes "build_graph targets = Inr g" and "distinct (map fst targets)" and "set flat \<subseteq> fst ` set targets"
  shows "if \<forall>r\<in>set root_targets. FindQualifiedTargets (strip r) flat \<noteq> []
    then \<exists>wanted. wanted_ok targets wanted (wanted_by targets (named_by root_targets flat))
      \<and> PruneUnwantedTargets targets flat g root_targets files data
        = Some (ebind (efold (prune_file wanted) data files)
            (\<lambda>data'. Inr (wanted, filter (\<lambda>t. t \<in> fst ` set wanted) flat, data')))
    else \<exists>m. PruneUnwantedTargets targets flat g root_targets files data = Some (Inl (GypErr m))"
proof (cases "\<forall>r\<in>set root_targets. FindQualifiedTargets (strip r) flat \<noteq> []")
  case True
  let ?roots = "concat (map (\<lambda>r. FindQualifiedTargets (strip r) flat) root_targets)"
  have roots: "root_names flat root_targets = Inr ?roots"
    using add_roots_ok [OF True, of "[]"] unfolding root_names_def by simp
  have set_roots: "set ?roots = named_by root_targets flat"
    by (auto simp: named_by_def FindQualifiedTargets_def)
  have "wanted_ok targets [] {}" by (simp add: wanted_ok_def)
  then obtain w where w: "want_roots g targets [] ?roots = Some (Inr w)"
    "wanted_ok targets w (wanted_by targets (named_by root_targets flat))"
    using want_roots_ok [OF assms(1,2), of "[]" "{}" ?roots] assms(3) set_roots by (auto simp: named_by_def)
  have "PruneUnwantedTargets targets flat g root_targets files data
      = Some (ebind (efold (prune_file w) data files) (\<lambda>data'. Inr (w, filter (\<lambda>t. t \<in> fst ` set w) flat, data')))"
    unfolding PruneUnwantedTargets_def by (simp only: roots w(1) sum.case bind.bind_lunit)
  then show ?thesis using True w(2) by auto
next
  case False
  then obtain m where "root_names flat root_targets = Inl (GypErr m)"
    using add_roots_fail unfolding root_names_def by blast
  then have "PruneUnwantedTargets targets flat g root_targets files data = Some (Inl (GypErr m))"
    by (simp add: PruneUnwantedTargets_def)
  then show ?thesis unfolding if_not_P [OF False] by blast
qed

text \<open>
  C14: If every root names a target, \<open>PruneUnwantedTargets\<close> keeps exactly the targets the roots
  name and their transitive dependencies, each with its own dictionary, the flat list filtered
  to them in its order, and prunes the build files with the same set; if some root names none, it
  raises a \<open>GypError\<close>.
\<close>

theorem PruneUnwantedTargets_correct:
  assumes "build_graph targets = Inr g" and "distinct (map fst targets)" and "set flat \<subseteq> fst ` set targets"
  shows "if \<forall>r\<in>set root_targets. FindQualifiedTargets (strip r) flat \<noteq> []
    then \<exists>wanted. wanted_ok targets wanted (wanted_by targets (named_by root_targets flat))
      \<and> PruneUnwantedTargets targets flat g root_targets files data
        = Some (ebind (efold (prune_file wanted) data files)
            (\<lambda>data'. Inr (wanted, filter (\<lambda>t. t \<in> fst ` set wanted) flat, data')))
    else \<exists>m. PruneUnwantedTargets targets flat g root_targets files data = Some (Inl (GypErr m))"
  using assms by (rule PruneUnwantedTargets_kept)

theorem PruneUnwantedTargets_correct_witness:
  "\<exists>m. PruneUnwantedTargets [(''x.gyp:a#t'', [])] [''x.gyp:a#t''] (link_root (empty_graph [''x.gyp:a#t'']) ''x.gyp:a#t'')
      ['' b''] [] [] = Some (Inl (GypErr m))"
  using PruneUnwantedTargets_correct [of "[(''x.gyp:a#t'', [])]"
      "link_root (empty_graph [''x.gyp:a#t'']) ''x.gyp:a#t''" "[''x.gyp:a#t'']" "['' b'']" "[]" "[]"]
  by (simp add: build_graph_def link_target_def FindQualifiedTargets_def ParseQualifiedTarget_def strip_def
      lstrip_def rstrip_def py_space_def)

end
