(* ===== verification/Validation.thy ===== *)
theory Validation
  imports PyVal PosixPath Common
begin

text \<open>
  The checks \<open>Load\<close> makes on every target before it hands the targets to a generator
  (\<open>Validate...\<close> in \<open>gyp/input.py\<close>), the assignment of sources to rules, and the final
  conversion of integers to strings. Only the exceptions are modelled, not the listing of
  colliding files that is printed before one of them.
\<close>

section \<open>Target type\<close>

definition VALID_TARGET_TYPES :: "string list" where
  "VALID_TARGET_TYPES =
     [''executable'', ''loadable_module'', ''static_library'', ''shared_library'', ''none'']"

definition ValidateTargetType :: "string \<Rightarrow> pydict \<Rightarrow> unit res" where
  "ValidateTargetType target target_dict =
     (let target_type = dget_or target_dict ''type'' PNone in
      if target_type \<notin> PStr ` set VALID_TARGET_TYPES
      then Inl (GypErr (''Target '' @ target @ '' has an invalid target type '' @ quoted (py_str target_type)
             @ ''.  Must be one of '' @ join_with ''/'' VALID_TARGET_TYPES @ ''.''))
      else if truth (dget_or target_dict ''standalone_static_library'' (PInt 0)) \<and> target_type \<noteq> PStr ''static_library''
      then Inl (GypErr (''Target '' @ target @ '' has type '' @ py_str target_type
             @ '' but standalone_static_library flag is only valid for static_library type.''))
      else Inr ())"

section \<open>Sources\<close>

definition compiled_extensions :: "string list" where
  "compiled_extensions = [''.c'', ''.cc'', ''.cpp'', ''.cxx'', ''.m'', ''.mm'', ''.s'', ''.S'']"

text \<open>\<open>basenames.setdefault(basename, []).append(source)\<close>\<close>

definition note_basename :: "(string \<times> string list) list \<Rightarrow> pyval \<Rightarrow> (string \<times> string list) list res" where
  "note_basename basenames v =
     ebind (as_str v) (\<lambda>source.
       case splitext source of (name, ext) \<Rightarrow>
         if ext \<notin> set compiled_extensions then Inr basenames
         else
           let b = basename name; files = (case map_of basenames b of None \<Rightarrow> [] | Some fs \<Rightarrow> fs)
           in Inr (AList.update b (files @ [source]) basenames))"

definition ValidateSourcesInTarget :: "string \<Rightarrow> pydict \<Rightarrow> bool \<Rightarrow> unit res" where
  "ValidateSourcesInTarget target target_dict duplicate_basename_check =
     (if \<not> duplicate_basename_check then Inr ()
      else if dget_or target_dict ''type'' PNone \<notin> {PStr ''static_library'', PStr ''shared_library''} then Inr ()
      else
        ebind (iter_items (dget_or target_dict ''sources'' (PList []))) (\<lambda>sources.
        ebind (efold note_basename [] sources) (\<lambda>basenames.
          if \<exists>p\<in>set basenames. 1 < length (snd p)
          then Inl (GypErr ''Duplicate basenames in sources section, see list above'')
          else Inr ())))"

section \<open>Rules\<close>

definition drop_dot :: "string \<Rightarrow> string" where
  "drop_dot ext = (if starts_with ext ''.'' then tl ext else ext)"

definition rule_source :: "string \<Rightarrow> pyval list \<Rightarrow> pyval \<Rightarrow> pyval list res" where
  "rule_source rule_extension rule_sources v =
     ebind (as_str v) (\<lambda>source.
       Inr (if drop_dot (snd (splitext source)) = rule_extension then rule_sources @ [v] else rule_sources))"

definition sources_of_rule :: "pydict \<Rightarrow> string list \<Rightarrow> string \<Rightarrow> pyval list res" where
  "sources_of_rule target_dict extra_sources_for_rules rule_extension =
     efold (\<lambda>acc source_key.
         ebind (iter_items (dget_or target_dict source_key (PList []))) (efold (rule_source rule_extension) acc))
       [] (''sources'' # extra_sources_for_rules)"

record rule_state =
  rs_names :: "pyval list"
  rs_extensions :: "(string \<times> pyval) list"
  rs_rules :: "pyval list"

text \<open>One rule: the checks, and \<open>rule['rule_sources']\<close> set in place.\<close>

definition validate_rule :: "string \<Rightarrow> pydict \<Rightarrow> string list \<Rightarrow> rule_state \<Rightarrow> pyval \<Rightarrow> rule_state res" where
  "validate_rule target target_dict extra_sources_for_rules st v =
     ebind (as_dict v) (\<lambda>rule.
     ebind (dindex rule ''rule_name'') (\<lambda>rule_name.
       if \<not> hashable rule_name then Inl TypeErr
       else if list_ex (py_eq rule_name) (rs_names st)
       then Inl (GypErr (''rule '' @ py_str rule_name @ '' exists in duplicate, target '' @ target))
       else
         ebind (ebind (dindex rule ''extension'') as_str) (\<lambda>ext.
         let rule_extension = drop_dot ext in
         case map_of (rs_extensions st) rule_extension of
           Some other \<Rightarrow>
             Inl (GypErr (''extension '' @ rule_extension @ '' associated with multiple rules, target ''
               @ target @ '' rules '' @ py_str other @ '' and '' @ py_str rule_name))
         | None \<Rightarrow>
             if has_key ''rule_sources'' rule
             then Inl (GypErr (''rule_sources must not exist in input, target '' @ target @ '' rule '' @ py_str rule_name))
             else
               ebind (sources_of_rule target_dict extra_sources_for_rules rule_extension) (\<lambda>rule_sources.
               Inr \<lparr>rs_names = rs_names st @ [rule_name],
                    rs_extensions = rs_extensions st @ [(rule_extension, rule_name)],
                    rs_rules = rs_rules st @ [PDict
                      (if rule_sources \<noteq> [] then dset ''rule_sources'' (PList rule_sources) rule else rule)]\<rparr>))))"

definition ValidateRulesInTarget :: "string \<Rightarrow> pydict \<Rightarrow> string list \<Rightarrow> pydict res" where
  "ValidateRulesInTarget target target_dict extra_sources_for_rules =
     (let rules = dget_or target_dict ''rules'' (PList []) in
      ebind (iter_items rules) (\<lambda>rs.
      ebind (efold (validate_rule target target_dict extra_sources_for_rules)
               \<lparr>rs_names = [], rs_extensions = [], rs_rules = []\<rparr> rs) (\<lambda>st.
        Inr (if rs_rules st = [] then target_dict else dset ''rules'' (PList (rs_rules st)) target_dict))))"

section \<open>Actions\<close>

definition in_target_file :: "pyval \<Rightarrow> string \<Rightarrow> string" where
  "in_target_file target_name build_file = '' in target '' @ py_str target_name @ '' from file '' @ build_file"

definition ValidateRunAsInTarget :: "pydict \<Rightarrow> string \<Rightarrow> unit res" where
  "ValidateRunAsInTarget target_dict build_file =
     (let target_name = dget_or target_dict ''target_name'' PNone;
          run_as = dget_or target_dict ''run_as'' PNone;
          place = py_str target_name;
          the_run_as = ''The '' @ quoted ''run_as'';
          for_run_as = '' for '' @ quoted ''run_as'' in
      if \<not> truth run_as then Inr ()
      else case run_as of
        PDict d \<Rightarrow>
          (let action = dget_or d ''action'' PNone;
               working_directory = dget_or d ''working_directory'' PNone;
               environment = dget_or d ''environment'' PNone in
           if \<not> truth action
           then Inl (GypErr (the_run_as @ in_target_file target_name build_file
                  @ '' must have an '' @ quoted ''action'' @ '' section.''))
           else if \<not> is_list action
           then Inl (GypErr (''The '' @ quoted ''action'' @ for_run_as @ in_target_file target_name build_file
                  @ '' must be a list.''))
           else if truth working_directory \<and> py_type working_directory \<noteq> TStr
           then Inl (GypErr (''The '' @ quoted ''working_directory'' @ for_run_as @ '' in target '' @ place
                  @ '' in file '' @ build_file @ '' should be a string.''))
           else if truth environment \<and> \<not> is_dict environment
           then Inl (GypErr (''The '' @ quoted ''environment'' @ for_run_as @ '' in target '' @ place
                  @ '' in file '' @ build_file @ '' should be a dictionary.''))
           else Inr ())
      | _ \<Rightarrow> Inl (GypErr (the_run_as @ in_target_file target_name build_file @ '' should be a dictionary.'')))"

text \<open>\<open>v[0]\<close>\<close>

fun first_item :: "pyval \<Rightarrow> pyval res" where
  "first_item (PList (x # xs)) = Inr x"
| "first_item (PStr (c # cs)) = Inr (PStr [c])"
| "first_item (PList []) = Inl IndexErr"
| "first_item (PStr []) = Inl IndexErr"
| "first_item (PDict d) = Inl (KeyErr ''0'')"
| "first_item _ = Inl TypeErr"

definition validate_action :: "pyval \<Rightarrow> pyval \<Rightarrow> unit res" where
  "validate_action target_name v =
     ebind (as_dict v) (\<lambda>action.
       if \<not> truth (dget_or action ''action_name'' PNone)
       then Inl (GypErr (''Anonymous action in target '' @ py_str target_name
              @ ''.  An action must have an '' @ quoted ''action_name'' @ '' field.''))
       else if dget_or action ''inputs'' PNone = PNone
       then Inl (GypErr (''Action in target '' @ py_str target_name @ '' has no inputs.''))
       else
         let action_command = dget_or action ''action'' PNone in
         if truth action_command
         then ebind (first_item action_command) (\<lambda>x.
           if truth x then Inr () else Inl (GypErr (''Empty action as command in target '' @ py_str target_name @ ''.'')))
         else Inr ())"

definition ValidateActionsInTarget :: "pydict \<Rightarrow> unit res" where
  "ValidateActionsInTarget target_dict =
     (let target_name = dget_or target_dict ''target_name'' PNone in
      ebind (iter_items (dget_or target_dict ''actions'' (PList []))) (\<lambda>actions.
        efold (\<lambda>_ action. validate_action target_name action) () actions))"

section \<open>Integers become strings\<close>

text \<open>
  The keys of a dictionary are strings here, so the branch that renames an integer key has no
  counterpart.
\<close>

fun TurnIntIntoStr :: "pyval \<Rightarrow> pyval" where
  "TurnIntIntoStr (PInt i) = PStr (str_of_int i)"
| "TurnIntIntoStr (PList xs) = PList (map TurnIntIntoStr xs)"
| "TurnIntIntoStr (PDict d) = PDict (map (\<lambda>p. (fst p, TurnIntIntoStr (snd p))) d)"
| "TurnIntIntoStr v = v"

definition TurnIntIntoStrInDict :: "pydict \<Rightarrow> pydict" where
  "TurnIntIntoStrInDict d = map (\<lambda>p. (fst p, TurnIntIntoStr (snd p))) d"

definition TurnIntIntoStrInList :: "pyval list \<Rightarrow> pyval list" where
  "TurnIntIntoStrInList xs = map TurnIntIntoStr xs"

section \<open>Integers: the result has none\<close>

fun int_free :: "pyval \<Rightarrow> bool" where
  "int_free (PInt i) = False"
| "int_free (PList xs) = (\<forall>x\<in>set xs. int_free x)"
| "int_free (PDict d) = (\<forall>p\<in>set d. int_free (snd p))"
| "int_free v = True"

lemma TurnInt_free: "int_free (TurnIntIntoStr v)"
  by (induction v rule: TurnIntIntoStr.induct) auto

lemma TurnInt_same: "int_free v \<Longrightarrow> TurnIntIntoStr v = v"
  by (induction v rule: TurnIntIntoStr.induct) (auto intro!: map_idI)



section \<open>Duplicate base names\<close>

definition compiled :: "string \<Rightarrow> bool" where
  "compiled s \<longleftrightarrow> snd (splitext s) \<in> set compiled_extensions"

definition object_name :: "string \<Rightarrow> string" where
  "object_name s = basename (fst (splitext s))"

lemma note_basenames:
  assumes "\<And>b. (case map_of bs b of None \<Rightarrow> [] | Some fs \<Rightarrow> fs) = filter (\<lambda>s. object_name s = b) ys"
    and "wf_dict bs"
  shows "\<exists>bs'. efold note_basename bs (map PStr xs) = Inr bs' \<and> wf_dict bs'
    \<and> (\<forall>b. (case map_of bs' b of None \<Rightarrow> [] | Some fs \<Rightarrow> fs) = filter (\<lambda>s. object_name s = b) (ys @ filter compiled xs))"
  using assms
proof (induction xs arbitrary: bs ys)
  case (Cons x xs)
  show ?case
  proof (cases "compiled x")
    case True
    let ?b = "object_name x"
    let ?bs = "AList.update ?b ((case map_of bs ?b of None \<Rightarrow> [] | Some fs \<Rightarrow> fs) @ [x]) bs"
    have step: "note_basename bs (PStr x) = Inr ?bs"
      using True by (cases "splitext x") (simp add: note_basename_def compiled_def object_name_def Let_def)
    have "(case map_of ?bs b of None \<Rightarrow> [] | Some fs \<Rightarrow> fs) = filter (\<lambda>s. object_name s = b) (ys @ [x])" for b
      using Cons.prems(1) [of b] by (simp add: update_conv)
    moreover have "wf_dict ?bs" using Cons.prems(2) by simp
    ultimately show ?thesis using Cons.IH [of ?bs "ys @ [x]"] step True by simp
  next
    case False
    then have "note_basename bs (PStr x) = Inr bs"
      by (cases "splitext x") (simp add: note_basename_def compiled_def)
    then show ?thesis using Cons.IH [OF Cons.prems] False by simp
  qed
qed simp

lemma distinct_by_key: "distinct (map f xs) \<longleftrightarrow> (\<forall>b. length (filter (\<lambda>s. f s = b) xs) \<le> 1)"
proof (induction xs)
  case (Cons x xs)
  have mem: "f x \<in> f ` set xs \<longleftrightarrow> filter (\<lambda>s. f s = f x) xs \<noteq> []"
    by (auto simp: filter_empty_conv image_iff) metis
  have "length (filter (\<lambda>s. f s = b) (x # xs)) = (if f x = b then 1 else 0) + length (filter (\<lambda>s. f s = b) xs)" for b
    by simp
  then have "(\<forall>b. length (filter (\<lambda>s. f s = b) (x # xs)) \<le> 1)
      \<longleftrightarrow> (\<forall>b. length (filter (\<lambda>s. f s = b) xs) \<le> 1) \<and> filter (\<lambda>s. f s = f x) xs = []"
    by (simp only:) (auto split: if_splits)
  then show ?case using Cons.IH mem by (simp only: list.map distinct.simps set_map) blast
qed simp

text \<open>
  For a static or shared library whose sources are strings, \<open>ValidateSourcesInTarget\<close> with
  the check enabled fails exactly when two compiled sources (by extension) have the same base
  name without extension, whatever their directories and extensions.
\<close>

theorem ValidateSources_correct:
  assumes "dget d ''type'' \<in> {Some (PStr ''static_library''), Some (PStr ''shared_library'')}"
    and "dget_or d ''sources'' (PList []) = PList (map PStr xs)"
  shows "ValidateSourcesInTarget t d True =
    (if distinct (map object_name (filter compiled xs)) then Inr ()
     else Inl (GypErr ''Duplicate basenames in sources section, see list above''))"
proof -
  obtain bs where bs: "efold note_basename [] (map PStr xs) = Inr bs" "wf_dict bs"
    "\<And>b. (case map_of bs b of None \<Rightarrow> [] | Some fs \<Rightarrow> fs) = filter (\<lambda>s. object_name s = b) (filter compiled xs)"
    using note_basenames [of "[]" "[]" xs] by (auto simp: wf_dict_def)
  have "(\<exists>p\<in>set bs. 1 < length (snd p)) \<longleftrightarrow> (\<exists>b fs. map_of bs b = Some fs \<and> 1 < length fs)"
    using bs(2) unfolding wf_dict_def by (metis eq_snd_iff map_of_SomeD map_of_is_SomeI)
  also have "\<dots> \<longleftrightarrow> (\<exists>b. 1 < length (case map_of bs b of None \<Rightarrow> [] | Some fs \<Rightarrow> fs))"
    by (auto split: option.splits)
  also have "\<dots> \<longleftrightarrow> \<not> distinct (map object_name (filter compiled xs))"
    unfolding bs(3) distinct_by_key by (simp add: not_le)
  finally have dup: "(\<exists>p\<in>set bs. 1 < length (snd p)) \<longleftrightarrow> \<not> distinct (map object_name (filter compiled xs))" .
  have "dget_or d ''type'' PNone \<in> {PStr ''static_library'', PStr ''shared_library''}"
    using assms(1) by (auto simp: dget_or_def)
  then have "ValidateSourcesInTarget t d True = (if \<exists>p\<in>set bs. 1 < length (snd p)
      then Inl (GypErr ''Duplicate basenames in sources section, see list above'') else Inr ())"
    unfolding ValidateSourcesInTarget_def assms(2) by (simp only: not_True_eq_False if_False not_not iter_items.simps ebind_simps bs(1))
  then show ?thesis unfolding dup by simp
qed

theorem ValidateSources_correct_witness:
  "ValidateSourcesInTarget ''t'' [(''type'', PStr ''static_library''),
      (''sources'', PList [PStr ''a/x.c'', PStr ''b/x.cc'', PStr ''b/x.h''])] True
    = Inl (GypErr ''Duplicate basenames in sources section, see list above'')"
  using ValidateSources_correct [of "[(''type'', PStr ''static_library''),
      (''sources'', PList [PStr ''a/x.c'', PStr ''b/x.cc'', PStr ''b/x.h''])]"
      "[''a/x.c'', ''b/x.cc'', ''b/x.h'']" "''t''"]
  by (simp add: dget_or_def compiled_def object_name_def compiled_extensions_def splitext_def split_at_slash_def
      basename_def)

section \<open>Rules and their sources\<close>

definition handles :: "string \<Rightarrow> string \<Rightarrow> bool" where
  "handles rule_extension s \<longleftrightarrow> drop_dot (snd (splitext s)) = rule_extension"

text \<open>The name and the extension of a well-formed rule, and the rule with its sources.\<close>

definition rule_ok :: "pydict \<Rightarrow> bool" where
  "rule_ok r \<longleftrightarrow> (\<exists>n e. dget r ''rule_name'' = Some (PStr n) \<and> dget r ''extension'' = Some (PStr e))
     \<and> \<not> has_key ''rule_sources'' r"

definition rule_name :: "pydict \<Rightarrow> string" where
  "rule_name r = (case dget r ''rule_name'' of Some (PStr n) \<Rightarrow> n | _ \<Rightarrow> [])"

definition rule_ext :: "pydict \<Rightarrow> string" where
  "rule_ext r = (case dget r ''extension'' of Some (PStr e) \<Rightarrow> drop_dot e | _ \<Rightarrow> [])"

definition with_sources :: "string list \<Rightarrow> pydict \<Rightarrow> pydict" where
  "with_sources srcs r =
     (let mine = filter (handles (rule_ext r)) srcs
      in if mine = [] then r else dset ''rule_sources'' (PList (map PStr mine)) r)"

lemma rule_sources_filter:
  "efold (rule_source ext) acc (map PStr xs) = Inr (acc @ map PStr (filter (handles ext) xs))"
  by (induction xs arbitrary: acc) (simp_all add: rule_source_def handles_def)

lemma sources_of_rule_filter:
  assumes "\<forall>k\<in>set (''sources'' # extra). dget_or td k (PList []) = PList (map PStr (src k))"
  shows "sources_of_rule td extra ext
     = Inr (map PStr (filter (handles ext) (concat (map src (''sources'' # extra)))))"
proof -
  have "efold (\<lambda>acc k. ebind (iter_items (dget_or td k (PList []))) (efold (rule_source ext) acc)) acc ks
      = Inr (acc @ map PStr (filter (handles ext) (concat (map src ks))))"
    if "\<forall>k\<in>set ks. dget_or td k (PList []) = PList (map PStr (src k))" for ks acc
    using that by (induction ks arbitrary: acc) (simp_all add: rule_sources_filter)
  from this [OF assms, of "[]"] show ?thesis unfolding sources_of_rule_def by (simp only: append_Nil)
qed

definition rules_state :: "string list \<Rightarrow> pydict list \<Rightarrow> rule_state" where
  "rules_state srcs rs =
     \<lparr>rs_names = map (\<lambda>r. PStr (rule_name r)) rs,
      rs_extensions = map (\<lambda>r. (rule_ext r, PStr (rule_name r))) rs,
      rs_rules = map (\<lambda>r. PDict (with_sources srcs r)) rs\<rparr>"

lemma validate_rule_step:
  assumes src: "\<forall>k\<in>set (''sources'' # extra). dget_or td k (PList []) = PList (map PStr (src k))"
    and r: "rule_ok r"
  defines "srcs \<equiv> concat (map src (''sources'' # extra))"
  shows "if rule_name r \<in> rule_name ` set rs \<or> rule_ext r \<in> rule_ext ` set rs
    then \<exists>m. validate_rule t td extra (rules_state srcs rs) (PDict r) = Inl (GypErr m)
    else validate_rule t td extra (rules_state srcs rs) (PDict r) = Inr (rules_state srcs (rs @ [r]))"
proof -
  obtain n e where ne: "dget r ''rule_name'' = Some (PStr n)" "dget r ''extension'' = Some (PStr e)"
    "\<not> has_key ''rule_sources'' r" using r unfolding rule_ok_def by blast
  have n: "rule_name r = n" "rule_ext r = drop_dot e" using ne by (simp_all add: rule_name_def rule_ext_def)
  have idx: "dindex r ''rule_name'' = Inr (PStr n)" "dindex r ''extension'' = Inr (PStr e)"
    using ne by (simp_all add: dindex_def)
  have names: "list_ex (py_eq (PStr n)) (rs_names (rules_state srcs rs)) \<longleftrightarrow> n \<in> rule_name ` set rs"
    by (auto simp: rules_state_def list_ex_iff)
  have exts: "map_of (rs_extensions (rules_state srcs rs)) x = None \<longleftrightarrow> x \<notin> rule_ext ` set rs" for x
    by (auto simp: rules_state_def map_of_eq_None_iff image_image)
  show ?thesis
  proof (cases "n \<in> rule_name ` set rs")
    case True
    then show ?thesis using n idx names by (simp add: validate_rule_def)
  next
    case nn: False
    show ?thesis
    proof (cases "map_of (rs_extensions (rules_state srcs rs)) (drop_dot e)")
      case (Some other)
      then have "drop_dot e \<in> rule_ext ` set rs" using exts [of "drop_dot e"] by auto
      then show ?thesis using n idx names nn Some by (simp add: validate_rule_def Let_def)
    next
      case None
      then have "drop_dot e \<notin> rule_ext ` set rs" using exts by blast
      then show ?thesis
        using n idx names nn None ne(3) sources_of_rule_filter [OF src, of "drop_dot e"]
        by (simp add: validate_rule_def Let_def rules_state_def with_sources_def srcs_def)
    qed
  qed
qed

lemma validate_rules_loop:
  assumes src: "\<forall>k\<in>set (''sources'' # extra). dget_or td k (PList []) = PList (map PStr (src k))"
    and "\<forall>r\<in>set rs. rule_ok r"
    and "distinct (map rule_name ps)" and "distinct (map rule_ext ps)"
  defines "srcs \<equiv> concat (map src (''sources'' # extra))"
  shows "if distinct (map rule_name (ps @ rs)) \<and> distinct (map rule_ext (ps @ rs))
    then efold (validate_rule t td extra) (rules_state srcs ps) (map PDict rs) = Inr (rules_state srcs (ps @ rs))
    else \<exists>m. efold (validate_rule t td extra) (rules_state srcs ps) (map PDict rs) = Inl (GypErr m)"
  using assms(2-4)
proof (induction rs arbitrary: ps)
  case (Cons r rs)
  have ok: "rule_ok r" using Cons.prems(1) by simp
  note step = validate_rule_step [OF src ok, of ps t, folded srcs_def]
  show ?case
  proof (cases "rule_name r \<in> rule_name ` set ps \<or> rule_ext r \<in> rule_ext ` set ps")
    case True
    then show ?thesis using step by auto
  next
    case False
    then have d: "distinct (map rule_name (ps @ [r]))" "distinct (map rule_ext (ps @ [r]))"
      using Cons.prems(2,3) by auto
    show ?thesis using Cons.IH [OF _ d] Cons.prems(1) step False by (auto split: if_splits)
  qed
qed simp

text \<open>
  For well-formed rules, \<open>ValidateRulesInTarget\<close> fails exactly when two rules share a name
  or an extension (with or without its leading dot); otherwise each rule gets, in order, exactly
  the sources of its extension from \<open>sources\<close> and the generator's extra lists, and a rule
  without sources is left alone.
\<close>

theorem ValidateRules_correct:
  assumes "dget_or td ''rules'' (PList []) = PList (map PDict rs)" and "\<forall>r\<in>set rs. rule_ok r"
    and "\<forall>k\<in>set (''sources'' # extra). dget_or td k (PList []) = PList (map PStr (src k))"
  shows "if distinct (map rule_name rs) \<and> distinct (map rule_ext rs)
    then ValidateRulesInTarget t td extra
      = Inr (if rs = [] then td
             else dset ''rules'' (PList (map (\<lambda>r. PDict (with_sources (concat (map src (''sources'' # extra))) r)) rs)) td)
    else \<exists>m. ValidateRulesInTarget t td extra = Inl (GypErr m)"
proof -
  let ?srcs = "concat (map src (''sources'' # extra))"
  have "\<lparr>rs_names = [], rs_extensions = [], rs_rules = []\<rparr> = rules_state ?srcs []" by (simp add: rules_state_def)
  then have "ValidateRulesInTarget t td extra
      = ebind (efold (validate_rule t td extra) (rules_state ?srcs []) (map PDict rs)) (\<lambda>st.
          Inr (if rs_rules st = [] then td else dset ''rules'' (PList (rs_rules st)) td))"
    unfolding ValidateRulesInTarget_def Let_def assms(1) by (simp only: iter_items.simps ebind_simps)
  moreover have "rs_rules (rules_state ?srcs rs) = map (\<lambda>r. PDict (with_sources ?srcs r)) rs" by (simp add: rules_state_def)
  ultimately show ?thesis
    using validate_rules_loop [OF assms(3,2), of "[]" t] by (auto split: if_splits)
qed

theorem ValidateRules_correct_witness:
  "let r = [(''rule_name'', PStr ''yacc''), (''extension'', PStr ''.y'')]
   in ValidateRulesInTarget ''t'' [(''rules'', PList [PDict r]), (''sources'', PList [PStr ''a.y'', PStr ''b.c''])] []
        = Inr [(''rules'', PList [PDict (r @ [(''rule_sources'', PList [PStr ''a.y''])])]),
               (''sources'', PList [PStr ''a.y'', PStr ''b.c''])]"
  using ValidateRules_correct [of "[(''rules'', PList [PDict [(''rule_name'', PStr ''yacc''), (''extension'', PStr ''.y'')]]),
        (''sources'', PList [PStr ''a.y'', PStr ''b.c''])]" "[[(''rule_name'', PStr ''yacc''), (''extension'', PStr ''.y'')]]"
      "[]" "\<lambda>_. [''a.y'', ''b.c'']" "''t''"]
  by (simp add: dget_or_def rule_ok_def has_key_def with_sources_def handles_def rule_ext_def drop_dot_def
      starts_with_def splitext_def split_at_slash_def Let_def)

end
