(* ===== verification/Configurations.thy ===== *)
theory Configurations
  imports MergeLogic EasyXml
begin

text \<open>
  The configurations of a target (\<open>gyp/input.py\<close>): \<open>MergeConfigWithInheritance\<close> merges a
  configuration and the configurations it inherits from, \<open>SetUpConfigurations\<close> moves the
  settings of the target into its concrete configurations. The global
  \<open>non_configuration_keys\<close> is an argument; the build file is the \<open>merge_ctx\<close> whose two files are
  that file.
\<close>

section \<open>Inheritance\<close>

definition configuration_dict :: "pydict \<Rightarrow> pyval \<Rightarrow> pydict res" where
  "configuration_dict configurations configuration =
     (case configuration of
        PStr s \<Rightarrow> ebind (dindex configurations s) as_dict
      | _ \<Rightarrow> if hashable configuration then Inl (KeyErr (py_repr configuration)) else Inl TypeErr)"

definition inherit_from :: "pydict \<Rightarrow> pyval list res" where
  "inherit_from d = iter_items (dget_or d ''inherit_from'' (PList []))"

text \<open>Merging one configuration; the result is never abstract.\<close>

definition merge_config :: "merge_ctx \<Rightarrow> pydict \<Rightarrow> pydict \<Rightarrow> pydict res" where
  "merge_config c new_configuration_dict d =
     ebind (MergeDicts c new_configuration_dict d) (\<lambda>new'. Inr (ddel ''abstract'' new'))"

lemma configuration_dict_key: "configuration_dict cs conf = Inr d \<Longrightarrow> conf \<in> PStr ` fst ` set cs"
  by (cases conf) (auto simp: configuration_dict_def dindex_def split: option.splits if_splits
      dest!: map_of_SomeD intro: rev_image_eqI)

text \<open>\<open>target_dict['configurations']\<close> is the argument \<open>configurations\<close>.\<close>

lemma visited_decreases:
  assumes "configuration_dict cs conf = Inr d" and "conf \<notin> set visited"
  shows "card (PStr ` fst ` set cs - set (visited @ [conf])) < card (PStr ` fst ` set cs - set visited)"
proof (rule psubset_card_mono)
  show "PStr ` fst ` set cs - set (visited @ [conf]) \<subset> PStr ` fst ` set cs - set visited"
    using configuration_dict_key [OF assms(1)] assms(2) by auto
qed simp

function MergeConfigWithInheritance ::
  "merge_ctx \<Rightarrow> pydict \<Rightarrow> pydict \<Rightarrow> pyval \<Rightarrow> pyval list \<Rightarrow> pydict res" where
  "MergeConfigWithInheritance c configurations new_configuration_dict configuration visited =
     (if configuration \<in> set visited then Inr new_configuration_dict
      else
        ebind (configuration_dict configurations configuration) (\<lambda>d.
        ebind (inherit_from d) (\<lambda>parents.
        ebind (efold (\<lambda>new parent.
                 MergeConfigWithInheritance c configurations new parent (visited @ [configuration]))
               new_configuration_dict parents) (\<lambda>new.
        merge_config c new d))))"
  by pat_completeness auto
termination
  by (relation "measure (\<lambda>(_, cs, _, _, visited). card (PStr ` fst ` set cs - set visited))")
    (use visited_decreases in auto)

section \<open>Setting up the configurations of a target\<close>

definition key_suffixes :: "string list" where
  "key_suffixes = [''='', ''+'', ''?'', ''!'', ''/'']"

definition key_base :: "string \<Rightarrow> string" where
  "key_base key = (if key \<noteq> [] \<and> [last key] \<in> set key_suffixes then butlast key else key)"

definition invalid_configuration_keys :: "string list" where
  "invalid_configuration_keys =
     [''actions'', ''all_dependent_settings'', ''configurations'', ''dependencies'',
      ''direct_dependent_settings'', ''libraries'', ''link_settings'', ''sources'',
      ''standalone_static_library'', ''target_name'', ''type'']"

definition base_non_configuration_keys :: "string list" where
  "base_non_configuration_keys =
     [''actions'', ''configurations'', ''copies'', ''default_configuration'', ''dependencies'',
      ''dependencies_original'', ''libraries'', ''postbuilds'', ''product_dir'', ''product_extension'',
      ''product_name'', ''product_prefix'', ''rules'', ''run_as'', ''sources'',
      ''standalone_static_library'', ''suppress_wildcard'', ''target_name'', ''toolset'', ''toolsets'',
      ''type'', ''variables'']"

definition is_abstract :: "pyval \<Rightarrow> bool res" where
  "is_abstract config = ebind (as_dict config) (\<lambda>d. Inr (truth (dget_or d ''abstract'' PNone)))"

definition concrete_names :: "pydict \<Rightarrow> string list res" where
  "concrete_names configurations =
     efold (\<lambda>acc (i, config). ebind (is_abstract config) (\<lambda>a. Inr (if a then acc else acc @ [i]))) [] configurations"

text \<open>The defaults: a single configuration, and the least concrete one.\<close>

definition add_default_configuration :: "pydict \<Rightarrow> pydict res" where
  "add_default_configuration target_dict =
     (let td = (if has_key ''configurations'' target_dict then target_dict
                else dset ''configurations'' (PDict [(''Default'', PDict [])]) target_dict)
      in if has_key ''default_configuration'' td then Inr td
         else
           ebind (ebind (dindex td ''configurations'') as_dict) (\<lambda>cs.
           ebind (concrete_names cs) (\<lambda>concrete.
             if concrete = [] then Inl IndexErr
             else Inr (dset ''default_configuration'' (PStr (hd (sort concrete))) td))))"

text \<open>What a configuration inherits from the target scope.\<close>

definition inherited_settings :: "string list \<Rightarrow> pydict \<Rightarrow> pydict" where
  "inherited_settings non_configuration_keys target_dict =
     foldl (\<lambda>new (key, target_val).
         if key_base key \<notin> set non_configuration_keys then dset key (deepcopy target_val) new else new)
       [] target_dict"

definition build_configuration :: "merge_ctx \<Rightarrow> string list \<Rightarrow> pydict \<Rightarrow> pydict \<Rightarrow> pydict \<Rightarrow> string \<times> pyval \<Rightarrow> pydict res" where
  "build_configuration c non_configuration_keys target_dict cs merged kv =
     (case kv of (configuration, old) \<Rightarrow>
        ebind (is_abstract old) (\<lambda>a.
          if a then Inr merged
          else
            ebind (MergeConfigWithInheritance c cs (inherited_settings non_configuration_keys target_dict)
                     (PStr configuration) []) (\<lambda>new.
            Inr (dset configuration (PDict new) merged))))"

definition drop_abstract :: "pydict \<Rightarrow> pydict res" where
  "drop_abstract cs =
     efold (\<lambda>acc (configuration, old). ebind (is_abstract old) (\<lambda>a.
         Inr (if a then ddel configuration acc else acc))) cs cs"

definition check_configuration :: "string \<Rightarrow> string \<times> pyval \<Rightarrow> unit res" where
  "check_configuration target kv =
     (case kv of (configuration, v) \<Rightarrow>
        ebind (as_dict v) (\<lambda>d.
          case filter (\<lambda>p. fst p \<in> set invalid_configuration_keys) d of
            [] \<Rightarrow> Inr ()
          | (key, _) # _ \<Rightarrow> Inl (GypErr (key @ '' not allowed in the '' @ configuration
              @ '' configuration, found in target '' @ target))))"

definition SetUpConfigurations :: "merge_ctx \<Rightarrow> string list \<Rightarrow> string \<Rightarrow> pydict \<Rightarrow> pydict res" where
  "SetUpConfigurations c non_configuration_keys target target_dict =
     ebind (add_default_configuration target_dict) (\<lambda>td.
     ebind (ebind (dindex td ''configurations'') as_dict) (\<lambda>configs.
     ebind (efold (build_configuration c non_configuration_keys td configs) [] configs) (\<lambda>merged.
     ebind (drop_abstract (foldl (\<lambda>cs (k, v). dset k v cs) configs merged)) (\<lambda>cs.
     let td' = filter (\<lambda>p. key_base (fst p) \<in> set non_configuration_keys) (dset ''configurations'' (PDict cs) td)
     in ebind (ebind (dindex td' ''configurations'') as_dict) (\<lambda>final.
        ebind (efold (\<lambda>_ kv. check_configuration target kv) () final) (\<lambda>_. Inr td'))))))"

declare MergeConfigWithInheritance.simps [simp del]

section \<open>Inheritance is the merge of the ancestors\<close>

text \<open>The configurations merged for one configuration, in the order they are merged.\<close>

function lineage :: "pydict \<Rightarrow> pyval \<Rightarrow> pyval list \<Rightarrow> pydict list res" where
  "lineage configurations configuration visited =
     (if configuration \<in> set visited then Inr []
      else
        ebind (configuration_dict configurations configuration) (\<lambda>d.
        ebind (inherit_from d) (\<lambda>parents.
        ebind (emap (\<lambda>parent. lineage configurations parent (visited @ [configuration])) parents) (\<lambda>xss.
        Inr (concat xss @ [d])))))"
  by pat_completeness auto
termination
  by (relation "measure (\<lambda>(cs, _, visited). card (PStr ` fst ` set cs - set visited))")
    (use visited_decreases in auto)

declare lineage.simps [simp del]

lemma efold_concat:
  assumes "emap f ps = Inr xss" and "\<And>p xs new. p \<in> set ps \<Longrightarrow> f p = Inr xs \<Longrightarrow> g new p = efold h new xs"
  shows "efold g new ps = efold h new (concat xss)"
  using assms
proof (induction ps arbitrary: xss new)
  case (Cons p ps)
  then obtain xs yss where e: "f p = Inr xs" "emap f ps = Inr yss" "xss = xs # yss" by auto
  have "g new p = efold h new xs" using Cons.prems(2) e(1) by simp
  moreover have "efold g s ps = efold h s (concat yss)" for s
    using Cons.IH [OF e(2)] Cons.prems(2) by simp
  ultimately show ?case using e(3) by (simp add: efold_append)
qed simp

lemma merge_lineage:
  "lineage cs conf visited = Inr xs \<Longrightarrow>
     MergeConfigWithInheritance c cs new conf visited = efold (merge_config c) new xs"
proof (induction cs conf visited arbitrary: xs new rule: lineage.induct)
  case (1 cs conf visited)
  show ?case
  proof (cases "conf \<in> set visited")
    case True
    then show ?thesis using 1(2) by (simp add: MergeConfigWithInheritance.simps lineage.simps)
  next
    case False
    obtain d parents xss where d: "configuration_dict cs conf = Inr d" "inherit_from d = Inr parents"
      "emap (\<lambda>parent. lineage cs parent (visited @ [conf])) parents = Inr xss" "xs = concat xss @ [d]"
      using 1(2) False by (subst (asm) lineage.simps) auto
    have "efold (\<lambda>new parent. MergeConfigWithInheritance c cs new parent (visited @ [conf])) new parents
        = efold (merge_config c) new (concat xss)"
      using 1(1) [OF False d(1,2)] by (intro efold_concat [OF d(3)]) blast
    then show ?thesis
      using False d by (subst MergeConfigWithInheritance.simps) (simp add: efold_append)
  qed
qed

text \<open>The inheritance relation, and the part of it outside the configurations visited.\<close>

definition inherits :: "pydict \<Rightarrow> (pyval \<times> pyval) set" where
  "inherits cs = {(conf, parent). \<exists>d ps. configuration_dict cs conf = Inr d \<and> inherit_from d = Inr ps \<and> parent \<in> set ps}"

definition outside :: "'a set \<Rightarrow> ('a \<times> 'a) set \<Rightarrow> ('a \<times> 'a) set" where
  "outside V E = {(x, y) \<in> E. x \<notin> V \<and> y \<notin> V}"

lemma outside_first_step:
  assumes "(a, x) \<in> (outside V E)\<^sup>*" and "a \<notin> V"
  shows "x = a \<or> (\<exists>p. (a, p) \<in> E \<and> p \<notin> insert a V \<and> (p, x) \<in> (outside (insert a V) E)\<^sup>*)"
  using assms(1)
proof (induction rule: rtrancl_induct)
  case (step y z)
  have yz: "(y, z) \<in> E" "y \<notin> V" "z \<notin> V" using step.hyps(2) by (auto simp: outside_def)
  show ?case
  proof (cases "z = a")
    case False
    from step.IH show ?thesis
    proof
      assume "y = a"
      then show ?thesis using yz False by blast
    next
      assume "\<exists>p. (a, p) \<in> E \<and> p \<notin> insert a V \<and> (p, y) \<in> (outside (insert a V) E)\<^sup>*"
      then obtain p where p: "(a, p) \<in> E" "p \<notin> insert a V" "(p, y) \<in> (outside (insert a V) E)\<^sup>*" by blast
      have "y \<notin> insert a V" using p(3,2) by (induction rule: rtrancl_induct) (auto simp: outside_def)
      then have "(y, z) \<in> outside (insert a V) E" using yz False by (simp add: outside_def)
      then show ?thesis using p by (meson rtrancl_into_rtrancl)
    qed
  qed simp
qed simp

lemma outside_mono: "V \<subseteq> W \<Longrightarrow> (outside W E)\<^sup>* \<subseteq> (outside V E)\<^sup>*"
  by (rule rtrancl_mono) (auto simp: outside_def)

lemma outside_step:
  assumes "(a, p) \<in> E" and "a \<notin> V" and "p \<notin> insert a V" and "(p, x) \<in> (outside (insert a V) E)\<^sup>*"
  shows "(a, x) \<in> (outside V E)\<^sup>*"
proof -
  have "(p, x) \<in> (outside V E)\<^sup>*" using outside_mono [of V "insert a V" E] assms(4) by blast
  moreover have "(a, p) \<in> outside V E" using assms(1-3) by (simp add: outside_def)
  ultimately show ?thesis by (meson converse_rtrancl_into_rtrancl)
qed

text \<open>The dictionaries of the configurations that can be reached without going through \<open>V\<close>.\<close>

definition ancestors :: "pydict \<Rightarrow> pyval set \<Rightarrow> pyval \<Rightarrow> pydict set" where
  "ancestors cs V conf =
     {d. \<exists>x. (conf, x) \<in> (outside V (inherits cs))\<^sup>* \<and> configuration_dict cs x = Inr d}"

lemma lineage_set:
  "lineage cs conf visited = Inr xs \<Longrightarrow>
     set xs = (if conf \<in> set visited then {} else ancestors cs (set visited) conf)"
proof (induction cs conf visited arbitrary: xs rule: lineage.induct)
  case (1 cs conf visited)
  show ?case
  proof (cases "conf \<in> set visited")
    case True
    then show ?thesis using 1(2) by (simp add: lineage.simps)
  next
    case False
    let ?V = "set visited" and ?E = "inherits cs"
    obtain d ps xss where d: "configuration_dict cs conf = Inr d" "inherit_from d = Inr ps"
      "emap (\<lambda>parent. lineage cs parent (visited @ [conf])) ps = Inr xss" "xs = concat xss @ [d]"
      using 1(2) False by (subst (asm) lineage.simps) auto
    have E: "(conf, p) \<in> ?E \<longleftrightarrow> p \<in> set ps" for p using d(1,2) by (auto simp: inherits_def)
    have ih: "set ys = (if p \<in> insert conf ?V then {} else ancestors cs (insert conf ?V) p)"
      if "p \<in> set ps" "lineage cs p (visited @ [conf]) = Inr ys" for p ys
      using 1(1) [OF False d(1,2) that] by simp
    have ex: "\<exists>ys. lineage cs p (visited @ [conf]) = Inr ys" if "p \<in> set ps" for p
      using emap_Inr_nth [OF d(3)] that by (metis in_set_conv_nth)
    have "v \<in> set (concat xss) \<longleftrightarrow> (\<exists>p\<in>set ps - insert conf ?V. v \<in> ancestors cs (insert conf ?V) p)" for v
    proof -
      have "v \<in> set (concat xss) \<longleftrightarrow> (\<exists>p\<in>set ps. \<exists>ys. lineage cs p (visited @ [conf]) = Inr ys \<and> v \<in> set ys)"
        by (rule emap_concat_set [OF d(3)])
      also have "\<dots> \<longleftrightarrow> (\<exists>p\<in>set ps. v \<in> (if p \<in> insert conf ?V then {} else ancestors cs (insert conf ?V) p))"
        using ih ex by (metis (no_types, lifting))
      finally show ?thesis by auto
    qed
    then have "set (concat xss) = (\<Union>p\<in>set ps - insert conf ?V. ancestors cs (insert conf ?V) p)" by blast
    moreover have "ancestors cs ?V conf = insert d (\<Union>p\<in>set ps - insert conf ?V. ancestors cs (insert conf ?V) p)"
    proof -
      have "(conf, x) \<in> (outside ?V ?E)\<^sup>*
          \<longleftrightarrow> x = conf \<or> (\<exists>p\<in>set ps - insert conf ?V. (p, x) \<in> (outside (insert conf ?V) ?E)\<^sup>*)" for x
        using outside_first_step [of conf x ?V ?E] outside_step [of conf _ ?E ?V x] False E by blast
      then show ?thesis using d(1) unfolding ancestors_def by auto
    qed
    ultimately show ?thesis using d(4) False by simp
  qed
qed

lemma lineage_last:
  assumes "lineage cs conf visited = Inr xs" and "conf \<notin> set visited"
  shows "xs \<noteq> [] \<and> configuration_dict cs conf = Inr (last xs)"
  using assms(1) unfolding lineage.simps [of cs conf visited] if_not_P [OF assms(2)] ebind_Inr_iff by auto

text \<open>Every configuration is a dictionary whose parents exist.\<close>

definition closed_inheritance :: "pydict \<Rightarrow> bool" where
  "closed_inheritance cs \<longleftrightarrow>
     (\<forall>p\<in>set cs. \<exists>d ps. snd p = PDict d \<and> inherit_from d = Inr ps \<and> set ps \<subseteq> PStr ` fst ` set cs)"

lemma lineage_total:
  "closed_inheritance cs \<Longrightarrow> conf \<in> PStr ` fst ` set cs \<Longrightarrow> \<exists>xs. lineage cs conf visited = Inr xs"
proof (induction cs conf visited rule: lineage.induct)
  case (1 cs conf visited)
  show ?case
  proof (cases "conf \<in> set visited")
    case True
    then show ?thesis by (simp add: lineage.simps)
  next
    case False
    obtain s where s: "conf = PStr s" "s \<in> fst ` set cs" using 1(3) by auto
    then obtain v where v: "map_of cs s = Some v" "(s, v) \<in> set cs"
      by (metis map_of_SomeD map_of_eq_None_iff not_Some_eq)
    then obtain d ps where d: "v = PDict d" "inherit_from d = Inr ps" "set ps \<subseteq> PStr ` fst ` set cs"
      using 1(2) unfolding closed_inheritance_def by fastforce
    have cd: "configuration_dict cs conf = Inr d" using s v d by (simp add: configuration_dict_def dindex_def)
    have "\<exists>xs. lineage cs p (visited @ [conf]) = Inr xs" if "p \<in> set ps" for p
      using 1(1) [OF False cd d(2) that 1(2)] d(3) that by blast
    then obtain xss where "emap (\<lambda>p. lineage cs p (visited @ [conf])) ps = Inr xss"
      using emap_total [of ps "\<lambda>p. lineage cs p (visited @ [conf])"] by blast
    then show ?thesis unfolding lineage.simps [of cs conf visited] if_not_P [OF False] by (simp add: cd d(2))
  qed
qed

text \<open>
  Merging a configuration with inheritance always ends, cycles of \<open>inherit_from\<close>
  included. When the configurations and their parents exist, it is the merge, one after the
  other, of a list of configurations: exactly those reachable through \<open>inherit_from\<close>, with the
  configuration itself last, so that its own settings are merged over the inherited ones.
\<close>

theorem MergeConfig_ancestors:
  assumes "closed_inheritance cs" and "conf \<in> PStr ` fst ` set cs"
  shows "\<exists>ds. (\<forall>new. MergeConfigWithInheritance c cs new conf [] = efold (merge_config c) new ds)
    \<and> set ds = {d. \<exists>x. (conf, x) \<in> (inherits cs)\<^sup>* \<and> configuration_dict cs x = Inr d}
    \<and> ds \<noteq> [] \<and> configuration_dict cs conf = Inr (last ds)"
proof -
  obtain ds where ds: "lineage cs conf [] = Inr ds" using lineage_total [OF assms] by blast
  have "outside {} (inherits cs) = inherits cs" by (auto simp: outside_def)
  then have "set ds = {d. \<exists>x. (conf, x) \<in> (inherits cs)\<^sup>* \<and> configuration_dict cs x = Inr d}"
    using lineage_set [OF ds] by (simp add: ancestors_def)
  then show ?thesis using merge_lineage [OF ds] lineage_last [OF ds] by auto
qed

theorem MergeConfig_ancestors_witness:
  "\<exists>ds. set ds = {d. \<exists>x. (PStr ''A'', x) \<in> (inherits [(''A'', PDict [(''inherit_from'', PList [PStr ''A''])])])\<^sup>*
       \<and> configuration_dict [(''A'', PDict [(''inherit_from'', PList [PStr ''A''])])] x = Inr d}
     \<and> last ds = [(''inherit_from'', PList [PStr ''A''])]"
proof -
  let ?cs = "[(''A'', PDict [(''inherit_from'', PList [PStr ''A''])])]"
  have "closed_inheritance ?cs" by (simp add: closed_inheritance_def inherit_from_def dget_or_def)
  moreover have "configuration_dict ?cs (PStr ''A'') = Inr [(''inherit_from'', PList [PStr ''A''])]"
    by (simp add: configuration_dict_def dindex_def)
  moreover have "PStr ''A'' \<in> PStr ` fst ` set ?cs" by simp
  ultimately obtain ds where
    "set ds = {d. \<exists>x. (PStr ''A'', x) \<in> (inherits ?cs)\<^sup>* \<and> configuration_dict ?cs x = Inr d}"
    "Inr [(''inherit_from'', PList [PStr ''A''])] = (Inr (last ds) :: pydict res)"
    using MergeConfig_ancestors [of ?cs "PStr ''A''"
        "\<lparr>mc_realpath = id, mc_path_sections = [], mc_to_file = None, mc_fro_file = None\<rparr>"] by auto
  then show ?thesis by (intro exI [of _ ds]) simp
qed

section \<open>What a set-up target looks like\<close>

definition no_abstract :: "pyval \<Rightarrow> bool" where
  "no_abstract v \<longleftrightarrow> (\<exists>d. v = PDict d \<and> \<not> has_key ''abstract'' d)"

lemma merged_not_abstract:
  assumes "MergeConfigWithInheritance c cs new conf [] = Inr d"
  shows "\<not> has_key ''abstract'' d"
proof -
  have "\<exists>m d0. merge_config c m d0 = Inr d"
    using assms unfolding MergeConfigWithInheritance.simps [of c cs new conf] by auto
  then show ?thesis by (auto simp: merge_config_def)
qed

lemma build_configurations:
  assumes "efold (build_configuration c nck td cs) merged kvs = Inr merged'"
    and "\<forall>p\<in>set merged. no_abstract (snd p)" and "wf_dict merged"
  shows "(\<forall>p\<in>set merged'. no_abstract (snd p)) \<and> wf_dict merged'
    \<and> fst ` set merged' = fst ` set merged \<union> {k. \<exists>v. (k, v) \<in> set kvs \<and> is_abstract v = Inr False}
    \<and> (\<forall>p\<in>set kvs. \<exists>a. is_abstract (snd p) = Inr a)"
  using assms
proof (induction kvs arbitrary: merged)
  case (Cons kv kvs)
  obtain k v where kv: "kv = (k, v)" by (cases kv)
  obtain m a where m: "build_configuration c nck td cs merged kv = Inr m"
    "efold (build_configuration c nck td cs) m kvs = Inr merged'" "is_abstract v = Inr a"
    using Cons.prems(1) unfolding efold.simps ebind_Inr_iff kv build_configuration_def prod.case by blast
  have "(\<forall>p\<in>set m. no_abstract (snd p)) \<and> wf_dict m
    \<and> fst ` set m = fst ` set merged \<union> (if a then {} else {k})"
  proof (cases a)
    case True
    then show ?thesis using m kv Cons.prems(2,3) by (simp add: build_configuration_def)
  next
    case False
    then obtain new where new: "MergeConfigWithInheritance c cs (inherited_settings nck td) (PStr k) [] = Inr new"
      "m = dset k (PDict new) merged" using m kv by (auto simp: build_configuration_def)
    have "no_abstract (PDict new)" using merged_not_abstract [OF new(1)] by (simp add: no_abstract_def)
    then show ?thesis
      using new(2) Cons.prems(2,3) False set_dset_subset [of k "PDict new" merged] by (auto simp: dom_update)
  qed
  then show ?case using Cons.IH [OF m(2)] kv m(3) by (cases a) auto
qed simp

lemma put_configurations:
  assumes "distinct (map fst merged)"
  shows "map_of (foldl (\<lambda>cs (k, v). dset k v cs) cs merged) k
      = (case map_of merged k of Some v \<Rightarrow> Some v | None \<Rightarrow> map_of cs k)
    \<and> (wf_dict cs \<longrightarrow> wf_dict (foldl (\<lambda>cs (k, v). dset k v cs) cs merged))"
  using assms
proof (induction merged arbitrary: cs)
  case (Cons p merged)
  obtain j v where p: "p = (j, v)" by (cases p)
  have "map_of merged j = None" using Cons.prems p by (simp add: map_of_eq_None_iff)
  then show ?case using Cons.IH [of "dset j v cs"] Cons.prems p by (auto split: option.splits)
qed simp

lemma drop_abstract_loop:
  assumes "efold (\<lambda>acc (k, old). ebind (is_abstract old) (\<lambda>a. Inr (if a then ddel k acc else acc))) acc kvs = Inr r"
    and "distinct (map fst kvs)"
  shows "\<forall>k. map_of r k = (if \<exists>v. (k, v) \<in> set kvs \<and> is_abstract v = Inr True then None else map_of acc k)"
  using assms
proof (induction kvs arbitrary: acc)
  case (Cons p kvs)
  obtain j v where p: "p = (j, v)" by (cases p)
  obtain a where a: "is_abstract v = Inr a"
    "efold (\<lambda>acc (k, old). ebind (is_abstract old) (\<lambda>a. Inr (if a then ddel k acc else acc)))
       (if a then ddel j acc else acc) kvs = Inr r"
    using Cons.prems(1) unfolding efold.simps ebind_Inr_iff p prod.case by blast
  have "j \<notin> fst ` set kvs" using Cons.prems(2) p by simp
  then show ?case using Cons.IH [OF a(2)] Cons.prems(2) a(1) p by (cases a) force+
qed simp

lemma drop_abstract_wf: "drop_abstract cs = Inr r \<Longrightarrow> wf_dict cs \<Longrightarrow> wf_dict r"
  unfolding drop_abstract_def
  by (erule efold_invariant [where P = wf_dict]) (auto split: if_splits)

lemma map_of_filter_key: "map_of (filter (\<lambda>p. P (fst p)) d) k = (if P k then map_of d k else None)"
  by (induction d) auto

lemma add_default_wf: "add_default_configuration td = Inr td' \<Longrightarrow> wf_val (PDict td) \<Longrightarrow> wf_val (PDict td')"
  unfolding add_default_configuration_def Let_def
  by (auto simp del: wf_val.simps(2) intro!: wf_val_dset split: if_splits) auto

lemma check_configurations:
  "efold (\<lambda>_ kv. check_configuration target kv) () cs = Inr () \<Longrightarrow> p \<in> set cs \<Longrightarrow>
     \<exists>d. snd p = PDict d \<and> fst ` set d \<inter> set invalid_configuration_keys = {}"
proof (induction cs)
  case (Cons q cs)
  have d: "as_dict v = Inr d \<longleftrightarrow> v = PDict d" for v d by (cases v) auto
  have q: "check_configuration target q = Inr ()" "efold (\<lambda>_ kv. check_configuration target kv) () cs = Inr ()"
    using Cons.prems(1) by auto
  then obtain d where d: "snd q = PDict d" by (cases q) (auto simp: check_configuration_def d)
  have "filter (\<lambda>p. fst p \<in> set invalid_configuration_keys) d = []"
    using q(1) d by (cases "filter (\<lambda>p. fst p \<in> set invalid_configuration_keys) d"; cases q)
      (auto simp: check_configuration_def)
  then have "\<exists>d. snd q = PDict d \<and> fst ` set d \<inter> set invalid_configuration_keys = {}"
    using d by (auto simp: filter_empty_conv)
  then show ?case using Cons.IH [OF q(2)] Cons.prems(2) by auto
qed simp

text \<open>
  C15: When \<open>SetUpConfigurations\<close> succeeds, the configurations of the target are exactly its
  concrete ones, each a dictionary without \<open>abstract\<close> and without a key that is not allowed in
  a configuration, and nothing is left in the target that belongs into its configurations.
\<close>

theorem SetUpConfigurations_invariant:
  assumes "SetUpConfigurations c nck target td = Inr r" and "wf_val (PDict td)"
  shows "\<exists>td' configs cs. add_default_configuration td = Inr td' \<and> dget td' ''configurations'' = Some (PDict configs)
    \<and> dget r ''configurations'' = Some (PDict cs)
    \<and> fst ` set cs = {k. \<exists>v. (k, v) \<in> set configs \<and> is_abstract v = Inr False}
    \<and> (\<forall>p\<in>set cs. \<exists>d. snd p = PDict d \<and> \<not> has_key ''abstract'' d
         \<and> fst ` set d \<inter> set invalid_configuration_keys = {})
    \<and> (\<forall>p\<in>set r. key_base (fst p) \<in> set nck)"
proof -
  obtain td' where td': "add_default_configuration td = Inr td'" using assms(1) unfolding SetUpConfigurations_def by auto
  obtain configs where configs: "dget td' ''configurations'' = Some (PDict configs)"
    "ebind (dindex td' ''configurations'') as_dict = Inr configs"
    using assms(1) unfolding SetUpConfigurations_def td' ebind_simps
    by (auto simp: dindex_def split: option.splits elim: as_dict.elims)
  obtain merged where merged: "efold (build_configuration c nck td' configs) [] configs = Inr merged"
    using assms(1) unfolding SetUpConfigurations_def td' ebind_simps configs(2) by auto
  obtain cs where cs: "drop_abstract (foldl (\<lambda>cs (k, v). dset k v cs) configs merged) = Inr cs"
    using assms(1) unfolding SetUpConfigurations_def td' ebind_simps configs(2) merged by auto
  define cs1 where "cs1 = foldl (\<lambda>cs (k, v). dset k v cs) configs merged"
  define r' where "r' = filter (\<lambda>p. key_base (fst p) \<in> set nck) (dset ''configurations'' (PDict cs) td')"
  have "ebind (ebind (dindex r' ''configurations'') as_dict)
      (\<lambda>final. ebind (efold (\<lambda>_ kv. check_configuration target kv) () final) (\<lambda>_. Inr r')) = Inr r"
    using assms(1) unfolding SetUpConfigurations_def td' ebind_simps configs(2) merged cs Let_def r'_def .
  then obtain final where final: "ebind (dindex r' ''configurations'') as_dict = Inr final"
    "efold (\<lambda>_ kv. check_configuration target kv) () final = Inr ()" "r = r'" by auto
  have get: "dget r' ''configurations'' = (if key_base ''configurations'' \<in> set nck then Some (PDict cs) else None)"
    unfolding r'_def map_of_filter_key [where P = "\<lambda>k. key_base k \<in> set nck"] by simp
  then have cs_final: "dget r ''configurations'' = Some (PDict cs)" "final = cs"
    using final(1,3) by (auto simp: dindex_def split: if_splits)
  have wf: "wf_dict configs"
    using wf_val_dget [OF add_default_wf [OF td' assms(2)] configs(1)] by (simp add: wf_dict_def)
  have b: "(\<forall>p\<in>set merged. no_abstract (snd p)) \<and> wf_dict merged
    \<and> fst ` set merged = {k. \<exists>v. (k, v) \<in> set configs \<and> is_abstract v = Inr False}
    \<and> (\<forall>p\<in>set configs. \<exists>a. is_abstract (snd p) = Inr a)"
    using build_configurations [OF merged] by (simp add: wf_dict_def)
  have m1: "map_of cs1 k = (case map_of merged k of Some v \<Rightarrow> Some v | None \<Rightarrow> map_of configs k)" and wf1: "wf_dict cs1" for k
    using put_configurations [of merged configs k] b wf unfolding cs1_def wf_dict_def by blast+
  have wfcs: "wf_dict cs" using drop_abstract_wf [OF cs] wf1 unfolding cs1_def by blast
  have in1: "(k, v) \<in> set cs1 \<longleftrightarrow> map_of cs1 k = Some v" for k v using wf1 by (simp add: wf_dict_def)
  have m2: "map_of cs k = (if \<exists>v. map_of cs1 k = Some v \<and> is_abstract v = Inr True then None else map_of cs1 k)" for k
    using drop_abstract_loop [OF cs [folded cs1_def, unfolded drop_abstract_def] wf1 [unfolded wf_dict_def], rule_format, of k]
    unfolding in1 .
  have na: "is_abstract v = Inr False" if "no_abstract v" for v
    using that by (auto simp: no_abstract_def is_abstract_def dget_or_def has_key_def split: option.splits)
  have conc: "map_of cs k = Some v \<longleftrightarrow> map_of merged k = Some v" for k v
  proof (cases "map_of merged k")
    case (Some w)
    then have "no_abstract w" using b by (metis map_of_SomeD snd_conv)
    then show ?thesis using m1 m2 Some na by simp
  next
    case None
    have "is_abstract w = Inr True" if w: "map_of configs k = Some w" for w
    proof -
      have kw: "(k, w) \<in> set configs" using w by (rule map_of_SomeD)
      then obtain a where a: "is_abstract w = Inr a" using b by fastforce
      have "k \<notin> fst ` set merged" using None by (simp add: map_of_eq_None_iff)
      then have "is_abstract w \<noteq> Inr False" using b kw by blast
      then show ?thesis using a by (cases a) auto
    qed
    then show ?thesis using m1 [of k] m2 [of k] None by (cases "map_of configs k") auto
  qed
  have "map_of cs = map_of merged" using conc by (metis ext not_Some_eq)
  then have "fst ` set cs = fst ` set merged" by (metis dom_map_of_conv_image_fst)
  moreover have "\<exists>d. snd p = PDict d \<and> \<not> has_key ''abstract'' d \<and> fst ` set d \<inter> set invalid_configuration_keys = {}"
    if p: "p \<in> set cs" for p
  proof -
    have "map_of cs (fst p) = Some (snd p)" using p wfcs by (metis map_of_is_SomeI prod.collapse wf_dict_def)
    then have "no_abstract (snd p)" using conc b by (metis map_of_SomeD snd_conv)
    moreover have "p \<in> set final" using p cs_final(2) by simp
    from check_configurations [OF final(2) this]
    obtain d where "snd p = PDict d" "fst ` set d \<inter> set invalid_configuration_keys = {}" by blast
    ultimately show ?thesis unfolding no_abstract_def by (metis pyval.inject(5))
  qed
  ultimately show ?thesis using td' configs(1) cs_final(1) b final(3) by (auto simp: r'_def)
qed

theorem SetUpConfigurations_invariant_witness:
  "\<exists>cs. fst ` set cs = {''Default''} \<and>
     SetUpConfigurations \<lparr>mc_realpath = id, mc_path_sections = [], mc_to_file = None, mc_fro_file = None\<rparr>
       [''configurations'', ''default_configuration''] ''t'' []
     = Inr [(''configurations'', PDict cs), (''default_configuration'', PStr ''Default'')]"
proof -
  let ?c = "\<lparr>mc_realpath = id, mc_path_sections = [], mc_to_file = None, mc_fro_file = None\<rparr>"
  let ?r = "[(''configurations'', PDict [(''Default'', PDict [])]), (''default_configuration'', PStr ''Default'')]"
  have a: "add_default_configuration [] = Inr ?r"
    by (simp add: add_default_configuration_def has_key_def dindex_def concrete_names_def is_abstract_def dget_or_def)
  have "SetUpConfigurations ?c [''configurations'', ''default_configuration''] ''t'' [] = Inr ?r"
    by (simp add: SetUpConfigurations_def a dindex_def build_configuration_def is_abstract_def dget_or_def
        MergeConfigWithInheritance.simps configuration_dict_def inherit_from_def merge_config_def MergeDicts.simps
        inherited_settings_def key_base_def key_suffixes_def drop_abstract_def check_configuration_def)
  then show ?thesis
    using SetUpConfigurations_invariant [of ?c "[''configurations'', ''default_configuration'']" "''t''" "[]" ?r]
    by auto
qed

end
