(* ===== verification/DependentSettings.thy ===== *)
theory DependentSettings
  imports MergeLogic NodeDependencies
begin

text \<open>
  Settings published to dependents and the dependencies of static libraries
  (\<open>DoDependentSettings\<close>, \<open>AdjustStaticLibraryDependencies\<close> in \<open>gyp/input.py\<close>).
  \<open>None\<close> is a dependency query that does not end.
\<close>

section \<open>Publishing settings\<close>

definition settings_dependencies :: "dgraph \<Rightarrow> targets \<Rightarrow> string \<Rightarrow> string \<Rightarrow> string list res option" where
  "settings_dependencies g targets key target =
     (if key = ''all_dependent_settings''
      then Option.bind (DeepDependencies g (Some target)) (\<lambda>s. map_option Inr (oset_iter s))
      else if key = ''direct_dependent_settings''
      then DirectAndImportedDependencies g (Some target) targets []
      else if key = ''link_settings''
      then Option.bind (DependenciesForLinkSettings targets g target) (\<lambda>r.
        case r of Inl e \<Rightarrow> Some (Inl e) | Inr s \<Rightarrow> map_option Inr (oset_iter s))
      else Some (Inl (GypErr (''DoDependentSettings doesn'' @ CHR 0x27 # ''t know how to determine ''
             @ ''dependencies for '' @ key))))"

text \<open>
  The context of a merge from the build file of \<open>dependency\<close> into the one of \<open>target\<close>; the
  working directory and the path sections come with \<open>c\<close>.
\<close>

definition between :: "merge_ctx \<Rightarrow> string \<Rightarrow> string \<Rightarrow> merge_ctx" where
  "between c target dependency = c\<lparr>mc_to_file := BuildFile target, mc_fro_file := BuildFile dependency\<rparr>"

definition publish :: "merge_ctx \<Rightarrow> string \<Rightarrow> string \<Rightarrow> targets \<Rightarrow> string \<Rightarrow> targets res" where
  "publish c key target targets dependency =
     (case map_of targets dependency of
        None \<Rightarrow> Inl (KeyErr dependency)
      | Some dependency_dict \<Rightarrow>
          (case dget dependency_dict key of
             None \<Rightarrow> Inr targets
           | Some v \<Rightarrow>
               (case map_of targets target of
                  None \<Rightarrow> Inl (KeyErr target)
                | Some target_dict \<Rightarrow>
                    ebind (as_dict v) (\<lambda>settings.
                    ebind (MergeDicts (between c target dependency) target_dict settings) (\<lambda>d.
                    Inr (AList.update target d targets))))))"

fun dependent_settings_loop :: "merge_ctx \<Rightarrow> dgraph \<Rightarrow> string \<Rightarrow> string list \<Rightarrow> targets \<Rightarrow> targets res option" where
  "dependent_settings_loop c g key [] targets = Some (Inr targets)"
| "dependent_settings_loop c g key (target # flat_list) targets =
     (if map_of targets target = None then Some (Inl (KeyErr target))
      else Option.bind (settings_dependencies g targets key target) (\<lambda>r.
        case ebind r (\<lambda>dependencies. efold (publish c key target) targets dependencies) of
          Inl e \<Rightarrow> Some (Inl e)
        | Inr targets' \<Rightarrow> dependent_settings_loop c g key flat_list targets'))"

definition DoDependentSettings :: "merge_ctx \<Rightarrow> string \<Rightarrow> string list \<Rightarrow> targets \<Rightarrow> dgraph \<Rightarrow> targets res option" where
  "DoDependentSettings c key flat_list targets dependency_nodes =
     dependent_settings_loop c dependency_nodes key flat_list targets"

section \<open>Static libraries\<close>

definition dependency_type :: "targets \<Rightarrow> string \<Rightarrow> (pydict \<times> pyval) res" where
  "dependency_type targets dependency =
     (case map_of targets dependency of
        None \<Rightarrow> Inl (KeyErr dependency)
      | Some dependency_dict \<Rightarrow> ebind (dindex dependency_dict ''type'') (\<lambda>t. Inr (dependency_dict, t)))"

text \<open>
  Whether a dependency of the static library stays. \<open>direct\<close> is the list under
  \<open>dependencies\<close>, which is read only for a dependency that is not a static library.
\<close>

definition keeps_dependency :: "targets \<Rightarrow> pyval \<Rightarrow> string \<Rightarrow> bool res" where
  "keeps_dependency targets direct dependency =
     ebind (dependency_type targets dependency) (\<lambda>(dependency_dict, t).
       if t = PStr ''static_library''
       then Inr (truth (dget_or dependency_dict ''hard_dependency'' (PBool False)))
       else str_in dependency direct)"

fun filter_dependencies :: "(string \<Rightarrow> bool res) \<Rightarrow> string list \<Rightarrow> string list res" where
  "filter_dependencies keep [] = Inr []"
| "filter_dependencies keep (d # ds) =
     ebind (keep d) (\<lambda>b. ebind (filter_dependencies keep ds) (\<lambda>rest. Inr (if b then d # rest else rest)))"

definition adjust_static :: "dgraph \<Rightarrow> targets \<Rightarrow> string \<Rightarrow> pydict \<Rightarrow> pydict res option" where
  "adjust_static g targets target target_dict =
     (case dget target_dict ''dependencies'' of
        None \<Rightarrow> Some (Inr target_dict)
      | Some direct \<Rightarrow>
          (case iter_items direct of
             Inl e \<Rightarrow> Some (Inl e)
           | Inr _ \<Rightarrow>
               let td = dset ''dependencies_original'' direct target_dict in
               Option.bind (DirectAndImportedDependencies g (Some target) (AList.update target td targets) []) (\<lambda>r.
                 Some (ebind r (\<lambda>dependencies.
                   ebind (filter_dependencies (keeps_dependency (AList.update target td targets) direct) dependencies)
                     (\<lambda>kept. Inr (if kept \<noteq> [] then dset ''dependencies'' (PList (map PStr kept)) td
                                  else ddel ''dependencies'' td)))))))"

definition add_link_dependency :: "string \<Rightarrow> pydict \<Rightarrow> string \<Rightarrow> pydict res" where
  "add_link_dependency target target_dict dependency =
     (if dependency = target then Inr target_dict
      else
        let direct = dget_or target_dict ''dependencies'' (PList [])
        in ebind (str_in dependency direct) (\<lambda>present.
             if present then Inr (dset ''dependencies'' direct target_dict)
             else ebind (as_list direct) (\<lambda>ds. Inr (dset ''dependencies'' (PList (ds @ [PStr dependency])) target_dict))))"

definition sort_links :: "string list \<Rightarrow> bool \<Rightarrow> pydict \<Rightarrow> pydict res" where
  "sort_links flat_list sort_dependencies target_dict =
     (case dget target_dict ''dependencies'' of
        None \<Rightarrow> Inr target_dict
      | Some direct \<Rightarrow>
          if \<not> sort_dependencies then Inr target_dict
          else ebind (filter_dependencies (\<lambda>d. str_in d direct) (rev flat_list)) (\<lambda>ds.
            Inr (dset ''dependencies'' (PList (map PStr ds)) target_dict)))"

definition adjust_linkable :: "dgraph \<Rightarrow> targets \<Rightarrow> string list \<Rightarrow> bool \<Rightarrow> string \<Rightarrow> pydict \<Rightarrow> pydict res option" where
  "adjust_linkable g targets flat_list sort_dependencies target target_dict =
     Option.bind (DependenciesToLinkAgainst targets g target) (\<lambda>r.
       case r of
         Inl e \<Rightarrow> Some (Inl e)
       | Inr s \<Rightarrow>
           Option.bind (oset_iter s) (\<lambda>link_dependencies.
             Some (ebind (efold (add_link_dependency target) target_dict link_dependencies)
               (sort_links flat_list sort_dependencies))))"

definition adjust_target :: "dgraph \<Rightarrow> string list \<Rightarrow> bool \<Rightarrow> targets \<Rightarrow> string \<Rightarrow> pydict res option" where
  "adjust_target g flat_list sort_dependencies targets target =
     (case map_of targets target of
        None \<Rightarrow> Some (Inl (KeyErr target))
      | Some target_dict \<Rightarrow>
          (case dget target_dict ''type'' of
             None \<Rightarrow> Some (Inl (KeyErr ''type''))
           | Some ty \<Rightarrow>
               if ty = PStr ''static_library'' then adjust_static g targets target target_dict
               else if ty \<in> PStr ` set linkable_types
               then adjust_linkable g targets flat_list sort_dependencies target target_dict
               else Some (Inr target_dict)))"

fun adjust_loop :: "dgraph \<Rightarrow> string list \<Rightarrow> bool \<Rightarrow> string list \<Rightarrow> targets \<Rightarrow> targets res option" where
  "adjust_loop g flat_list sort_dependencies [] targets = Some (Inr targets)"
| "adjust_loop g flat_list sort_dependencies (target # rest) targets =
     Option.bind (adjust_target g flat_list sort_dependencies targets target) (\<lambda>r.
       case r of
         Inl e \<Rightarrow> Some (Inl e)
       | Inr d \<Rightarrow> adjust_loop g flat_list sort_dependencies rest (AList.update target d targets))"

definition AdjustStaticLibraryDependencies ::
  "string list \<Rightarrow> targets \<Rightarrow> dgraph \<Rightarrow> bool \<Rightarrow> targets res option" where
  "AdjustStaticLibraryDependencies flat_list targets dependency_nodes sort_dependencies =
     adjust_loop dependency_nodes flat_list sort_dependencies flat_list targets"

section \<open>What the adjustment reaches\<close>

text \<open>Only the two dependency lists of a target change.\<close>

definition adjusted_keys :: "string set" where
  "adjusted_keys = {''dependencies'', ''dependencies_original''}"

definition same_spec :: "targets \<Rightarrow> targets \<Rightarrow> bool" where
  "same_spec ts ts' \<longleftrightarrow>
     (\<forall>t. rel_option (\<lambda>d d'. \<forall>k. k \<notin> adjusted_keys \<longrightarrow> dget d' k = dget d k) (map_of ts t) (map_of ts' t))"

lemma same_spec_refl: "same_spec ts ts"
  by (simp add: same_spec_def option.rel_refl)

lemma same_spec_trans:
  assumes "same_spec ts ts'" and "same_spec ts' ts''"
  shows "same_spec ts ts''"
  unfolding same_spec_def
proof
  fix t
  show "rel_option (\<lambda>d d'. \<forall>k. k \<notin> adjusted_keys \<longrightarrow> dget d' k = dget d k) (map_of ts t) (map_of ts'' t)"
    using assms [unfolded same_spec_def, THEN spec, of t]
    by (cases "map_of ts t"; cases "map_of ts' t"; cases "map_of ts'' t") simp_all
qed

lemma same_spec_update:
  assumes "map_of ts t = Some d" and "\<forall>k. k \<notin> adjusted_keys \<longrightarrow> dget d' k = dget d k"
  shows "same_spec ts (AList.update t d' ts)"
  using assms by (auto simp: same_spec_def update_conv option.rel_refl)

lemma same_spec_get:
  assumes "same_spec ts ts'"
  shows "map_of ts t = None \<longleftrightarrow> map_of ts' t = None"
    and "map_of ts t = Some d \<Longrightarrow> map_of ts' t = Some d' \<Longrightarrow> k \<notin> adjusted_keys \<Longrightarrow> dget d' k = dget d k"
  using assms [unfolded same_spec_def, THEN spec, of t] by (cases "map_of ts t"; cases "map_of ts' t"; simp)+

lemma adjusted_keys_simps [simp]:
  "''dependencies'' \<in> adjusted_keys" "''dependencies_original'' \<in> adjusted_keys"
  "''type'' \<notin> adjusted_keys" "''target_name'' \<notin> adjusted_keys" "''dependencies_traverse'' \<notin> adjusted_keys"
  "''hard_dependency'' \<notin> adjusted_keys"
  by (simp_all add: adjusted_keys_def)

lemma not_adjusted: "k \<notin> adjusted_keys \<Longrightarrow> k \<noteq> ''dependencies'' \<and> k \<noteq> ''dependencies_original''"
  by auto

lemma dget_or_same: "dget d' k = dget d k \<Longrightarrow> dget_or d' k v = dget_or d k v"
  by (simp add: dget_or_def)

lemma link_node_same:
  assumes "same_spec ts ts'"
  shows "link_node ts' incl g initial self ds = link_node ts incl g initial self ds"
proof (cases self)
  case (Some ref)
  show ?thesis
  proof (cases "map_of ts ref")
    case None
    then have "map_of ts' ref = None" using same_spec_get(1) [OF assms] by simp
    then show ?thesis using None Some by (simp add: link_node_def)
  next
    case d: (Some d)
    then obtain d' where d': "map_of ts' ref = Some d'" using same_spec_get(1) [OF assms, of ref] by (cases "map_of ts' ref") auto
    have same: "dget d' k = dget d k" if "k \<notin> adjusted_keys" for k
      by (rule same_spec_get(2) [OF assms d d' that])
    have eqs: "dget d' ''type'' = dget d ''type''" "dget d' ''target_name'' = dget d ''target_name''"
      by (rule same; simp)+
    have eq: "dget_or d' ''dependencies_traverse'' v = dget_or d ''dependencies_traverse'' v" for v
      by (rule dget_or_same, rule same) simp
    show ?thesis unfolding link_node_def Some option.case d d' sum.case ebind_simps eqs eq ..
  qed
qed (simp add: link_node_def)

lemma link_loop_same:
  assumes "link_loop ts incl g nodes s = Some r" and "same_spec ts ts'"
  shows "link_loop ts' incl g nodes s = Some r"
proof -
  have "same_spec ts ts' \<longrightarrow> link_loop ts' incl g nodes s = Some r"
  proof (rule link_loop.raw_induct [where P = "\<lambda>t i h ns s r. same_spec t ts' \<longrightarrow> link_loop ts' i h ns s = Some r",
        OF _ assms(1)])
    fix rec :: "targets \<Rightarrow> bool \<Rightarrow> dgraph \<Rightarrow> node list \<Rightarrow> string oset \<Rightarrow> string oset res option"
    fix t i h ns s r
    assume IH: "\<And>t i h ns s r. rec t i h ns s = Some r \<Longrightarrow> same_spec t ts' \<longrightarrow> link_loop ts' i h ns s = Some r"
      and body: "(case ns of [] \<Rightarrow> Some (Inr s)
          | dependency # rest \<Rightarrow>
              (case link_node t i h False dependency s of
                 Inl e \<Rightarrow> Some (Inl e)
               | Inr (s', inner) \<Rightarrow>
                   Option.bind (rec t i h inner s') (\<lambda>r.
                     case r of Inl e \<Rightarrow> Some (Inl e) | Inr s'' \<Rightarrow> rec t i h rest s''))) = Some r"
    show "same_spec t ts' \<longrightarrow> link_loop ts' i h ns s = Some r"
    proof
      assume st: "same_spec t ts'"
      have IH': "rec t i h ns s = Some r \<Longrightarrow> link_loop ts' i h ns s = Some r" for ns s r using IH st by blast
      show "link_loop ts' i h ns s = Some r"
        using body by (subst link_loop.simps, unfold link_node_same [OF st])
          (auto split: list.splits sum.splits prod.splits Option.bind_splits dest!: IH')
    qed
  qed
  then show ?thesis using assms(2) by blast
qed

lemma DependenciesToLinkAgainst_same:
  assumes "DependenciesToLinkAgainst ts g t = Some r" and "same_spec ts ts'"
  shows "DependenciesToLinkAgainst ts' g t = Some r"
  using assms link_loop_same [OF _ assms(2)] link_node_same [OF assms(2)]
  unfolding DependenciesToLinkAgainst_def LinkDependenciesInternal_def
  by (auto split: sum.splits prod.splits)

lemma adjust_target_frame:
  assumes "adjust_target g flat srt ts t = Some (Inr d')" and "map_of ts t = Some d"
  shows "\<forall>k. k \<notin> adjusted_keys \<longrightarrow> dget d' k = dget d k"
proof (intro allI impI)
  fix k assume "k \<notin> adjusted_keys"
  then have k: "k \<noteq> ''dependencies''" "k \<noteq> ''dependencies_original''" using not_adjusted by blast+
  have add: "dget d2 k = dget d1 k" if "add_link_dependency u d1 x = Inr d2" for u d1 x d2
    using that k(1) unfolding add_link_dependency_def Let_def by (auto split: if_splits)
  have adds: "dget d2 k = dget d1 k" if "efold (add_link_dependency u) d1 xs = Inr d2" for u d1 xs d2
    using that by (rule efold_invariant [where P = "\<lambda>s. dget s k = dget d1 k"]) (use add in auto)
  have links: "dget d2 k = dget d1 k" if "sort_links flat srt d1 = Inr d2" for d1 d2
    using that k(1) unfolding sort_links_def by (auto split: option.splits if_splits)
  show "dget d' k = dget d k"
    using assms k unfolding adjust_target_def
    by (auto simp: adjust_static_def adjust_linkable_def Let_def split: option.splits sum.splits if_splits
        Option.bind_splits dest!: adds links)
qed

lemma adjust_loop_get:
  assumes "adjust_loop g flat srt rest ts = Some (Inr ts')" and "distinct rest"
  shows "same_spec ts ts' \<and> (\<forall>t. t \<notin> set rest \<longrightarrow> map_of ts' t = map_of ts t)
    \<and> (\<forall>t\<in>set rest. \<exists>ts1 d'. same_spec ts ts1 \<and> map_of ts1 t = map_of ts t
         \<and> adjust_target g flat srt ts1 t = Some (Inr d') \<and> map_of ts' t = Some d')"
  using assms
proof (induction rest arbitrary: ts)
  case Nil
  then show ?case by (simp add: same_spec_refl)
next
  case (Cons u rest)
  obtain d' where d': "adjust_target g flat srt ts u = Some (Inr d')"
    "adjust_loop g flat srt rest (AList.update u d' ts) = Some (Inr ts')"
    using Cons.prems(1) by (auto split: Option.bind_splits sum.splits)
  obtain d where d: "map_of ts u = Some d" using d'(1) by (cases "map_of ts u") (auto simp: adjust_target_def)
  let ?ts = "AList.update u d' ts"
  have s: "same_spec ts ?ts" by (rule same_spec_update [OF d adjust_target_frame [OF d'(1) d]])
  have ih: "same_spec ?ts ts'" "\<forall>t. t \<notin> set rest \<longrightarrow> map_of ts' t = map_of ?ts t"
    "\<forall>t\<in>set rest. \<exists>ts1 d'. same_spec ?ts ts1 \<and> map_of ts1 t = map_of ?ts t
         \<and> adjust_target g flat srt ts1 t = Some (Inr d') \<and> map_of ts' t = Some d'"
    using Cons.IH [OF d'(2)] Cons.prems(2) by auto
  have u: "u \<notin> set rest" using Cons.prems(2) by simp
  have "\<exists>ts1 d'. same_spec ts ts1 \<and> map_of ts1 t = map_of ts t
         \<and> adjust_target g flat srt ts1 t = Some (Inr d') \<and> map_of ts' t = Some d'" if tin: "t \<in> set (u # rest)" for t
  proof (cases "t = u")
    case True
    then show ?thesis using d'(1) ih(2) u same_spec_refl [of ts] by (auto simp: update_conv)
  next
    case False
    then have "map_of ?ts t = map_of ts t" by (simp add: update_conv)
    moreover obtain ts1 e where "same_spec ?ts ts1" "map_of ts1 t = map_of ?ts t"
      "adjust_target g flat srt ts1 t = Some (Inr e)" "map_of ts' t = Some e"
      using ih(3) tin False by (metis set_ConsD)
    ultimately show ?thesis using same_spec_trans [OF s] by metis
  qed
  moreover have "map_of ts' t = map_of ts t" if "t \<notin> set (u # rest)" for t
    using ih(2) that by (simp add: update_conv)
  ultimately show ?case using same_spec_trans [OF s ih(1)] by blast
qed

subsection \<open>One target\<close>

lemma filter_dependencies_set:
  "filter_dependencies keep ds = Inr xs \<Longrightarrow> set xs = {d \<in> set ds. keep d = Inr True} \<and> subseq xs ds"
  by (induction ds arbitrary: xs) (auto split: if_splits)

text \<open>Which dependencies a static library may keep, by the targets as they were.\<close>

definition may_keep :: "targets \<Rightarrow> pyval \<Rightarrow> string \<Rightarrow> bool" where
  "may_keep ts direct d \<longleftrightarrow>
     (\<exists>spec. map_of ts d = Some spec \<and>
        (if dget spec ''type'' = Some (PStr ''static_library'')
         then truth (dget_or spec ''hard_dependency'' (PBool False))
         else str_in d direct = Inr True))"

lemma keeps_dependency_same:
  assumes "same_spec ts ts'" and "keeps_dependency ts' direct d = Inr True"
  shows "may_keep ts direct d"
proof -
  obtain spec' where s': "map_of ts' d = Some spec'"
    using assms(2) by (cases "map_of ts' d") (auto simp: keeps_dependency_def dependency_type_def)
  then obtain spec where s: "map_of ts d = Some spec"
    using same_spec_get(1) [OF assms(1), of d] by (cases "map_of ts d") auto
  have same: "dget spec' k = dget spec k" if "k \<notin> adjusted_keys" for k
    by (rule same_spec_get(2) [OF assms(1) s s' that])
  have eqs: "dget spec' ''type'' = dget spec ''type''"
    "dget_or spec' ''hard_dependency'' v = dget_or spec ''hard_dependency'' v" for v
    by (rule same, simp) (rule dget_or_same, rule same, simp)
  show ?thesis
    using assms(2) s unfolding keeps_dependency_def dependency_type_def s' option.case dindex_def eqs may_keep_def
    by (auto simp: eqs split: option.splits if_splits)
qed

lemma adjust_static_result:
  assumes a: "adjust_static g ts t d = Some (Inr d')" and d: "map_of ts t = Some d"
    and v: "dget d ''dependencies'' = Some v" and s: "same_spec ts0 ts"
  shows "dget d' ''dependencies_original'' = Some v
    \<and> (\<forall>w. dget d' ''dependencies'' = Some w \<longrightarrow>
         (\<exists>xs. w = PList (map PStr xs) \<and> xs \<noteq> [] \<and> (\<forall>x\<in>set xs. may_keep ts0 v x)))"
proof -
  let ?td = "dset ''dependencies_original'' v d"
  let ?ts = "AList.update t ?td ts"
  obtain ds kept where k: "filter_dependencies (keeps_dependency ?ts v) ds = Inr kept"
    "d' = (if kept \<noteq> [] then dset ''dependencies'' (PList (map PStr kept)) ?td else ddel ''dependencies'' ?td)"
    using a v unfolding adjust_static_def Let_def
    by (auto split: option.splits sum.splits Option.bind_splits)
  have "\<forall>k. k \<notin> adjusted_keys \<longrightarrow> dget ?td k = dget d k" using not_adjusted by simp
  then have "same_spec ts0 ?ts" using same_spec_trans [OF s same_spec_update [OF d]] by blast
  then have "\<forall>x\<in>set kept. may_keep ts0 v x"
    using filter_dependencies_set [OF k(1)] keeps_dependency_same by blast
  then show ?thesis using k(2) by (cases "kept = []") auto
qed

lemma add_links:
  assumes "dget_or d ''dependencies'' (PList []) = PList (map PStr ds)"
    and "efold (add_link_dependency t) d xs = Inr d'"
  shows "dget_or d' ''dependencies'' (PList []) = PList (map PStr (foldl add_if_new ds (filter (\<lambda>x. x \<noteq> t) xs)))"
  using assms
proof (induction xs arbitrary: d ds)
  case (Cons x xs)
  obtain e where e: "add_link_dependency t d x = Inr e" "efold (add_link_dependency t) e xs = Inr d'"
    using Cons.prems(2) by auto
  have "dget_or e ''dependencies'' (PList []) = PList (map PStr (if x = t then ds else add_if_new ds x))"
    using e(1) Cons.prems(1) unfolding add_link_dependency_def Let_def
    by (auto simp: add_if_new_def dget_or_def split: if_splits)
  from Cons.IH [OF this e(2)] show ?case by simp
qed simp

lemma filter_dependencies_in:
  "filter_dependencies (\<lambda>d. str_in d (PList (map PStr ys))) zs = Inr (filter (\<lambda>d. d \<in> set ys) zs)"
  by (induction zs) auto

lemma adjust_linkable_result:
  assumes a: "adjust_linkable g ts flat srt t d = Some (Inr d')"
    and l: "DependenciesToLinkAgainst ts g t = Some (Inr s)" "oset_iter s = Some xs"
    and ds: "dget_or d ''dependencies'' (PList []) = PList (map PStr ds)"
  shows "\<exists>ys. dget_or d' ''dependencies'' (PList []) = PList (map PStr ys)
    \<and> set ys = {x \<in> set ds \<union> (set xs - {t}). srt \<longrightarrow> dget d' ''dependencies'' \<noteq> None \<longrightarrow> x \<in> set flat}
    \<and> (srt \<longrightarrow> subseq ys (rev flat))"
proof -
  let ?ys = "foldl add_if_new ds (filter (\<lambda>x. x \<noteq> t) xs)"
  obtain e where e: "efold (add_link_dependency t) d xs = Inr e" "sort_links flat srt e = Inr d'"
    using a l unfolding adjust_linkable_def by auto
  note links = add_links [OF ds e(1)]
  have set_ys: "set ?ys = set ds \<union> (set xs - {t})" by (auto simp: foldl_add_if_new_set)
  show ?thesis
  proof (cases "dget e ''dependencies''")
    case None
    then have "?ys = []" "d' = e" using links e(2) by (simp_all add: dget_or_def sort_links_def)
    then show ?thesis using links None set_ys by (intro exI [of _ "[]"]) auto
  next
    case (Some v)
    then have v: "v = PList (map PStr ?ys)" using links by (simp add: dget_or_def)
    show ?thesis
    proof (cases srt)
      case False
      then have "d' = e" using e(2) Some by (simp add: sort_links_def)
      then show ?thesis using links False set_ys by auto
    next
      case True
      then have "d' = dset ''dependencies'' (PList (map PStr (filter (\<lambda>d. d \<in> set ?ys) (rev flat)))) e"
        using e(2) True unfolding sort_links_def Some option.case v filter_dependencies_in by simp
      then show ?thesis using True set_ys
        by (intro exI [of _ "filter (\<lambda>d. d \<in> set ?ys) (rev flat)"]) (auto simp: dget_or_def)
    qed
  qed
qed



end
