(* ===== verification/FileCycles.thy ===== *)
theory FileCycles
  imports NodeDependencies
begin

text \<open>
  \<open>VerifyNoGYPFileCircularDependencies\<close> of \<open>gyp/input.py\<close>: the graph of the build files, with
  an edge when a target of one depends on a target of another, must have no cycle. The names of
  the targets are fully qualified, so each has a build file; a target without one is outside the
  model (\<open>PlainExc\<close>).
\<close>

section \<open>The graph of the build files\<close>

definition file_of :: "string \<Rightarrow> string res" where
  "file_of target = (case BuildFile target of None \<Rightarrow> Inl (PlainExc ''no build file'') | Some f \<Rightarrow> Inr f)"

definition link_file :: "string \<Rightarrow> dgraph \<Rightarrow> string option \<Rightarrow> dgraph res" where
  "link_file build_file g dependency_build_file =
     (if dependency_build_file = Some build_file then Inr g
      else case dependency_build_file of
        None \<Rightarrow> Inl (GypErr (''Dependancy '' @ quoted ''None'' @ '' not found''))
      | Some f \<Rightarrow>
          if f \<notin> set (g_refs g) then Inl (GypErr (''Dependancy '' @ quoted f @ '' not found''))
          else if Some f \<in> set (g_deps g (Some build_file)) then Inr g
          else Inr (g\<lparr>g_deps := (g_deps g)(Some build_file := g_deps g (Some build_file) @ [Some f]),
                      g_dependents := (g_dependents g)(Some f := g_dependents g (Some f) @ [Some build_file])\<rparr>))"

definition link_file_target :: "dgraph \<Rightarrow> string \<times> pydict \<Rightarrow> dgraph res" where
  "link_file_target g ts =
     (case ts of (target, spec) \<Rightarrow>
        ebind (file_of target) (\<lambda>build_file.
        ebind (iter_items (dget_or spec ''dependencies'' (PList []))) (\<lambda>target_dependencies.
          efold (\<lambda>g v. ebind (as_str v) (\<lambda>dependency. link_file build_file g (BuildFile dependency)))
            g target_dependencies)))"

definition file_graph :: "targets \<Rightarrow> dgraph res" where
  "file_graph targets =
     ebind (emap (\<lambda>p. file_of (fst p)) targets) (\<lambda>files.
       efold link_file_target (empty_graph (foldl add_if_new [] files)) targets)"

text \<open>Files that have no dependencies are dependents of the root node.\<close>

definition link_roots :: "dgraph \<Rightarrow> dgraph" where
  "link_roots g = foldl (\<lambda>g f. if g_deps g (Some f) = [] then link_root g f else g) g (g_refs g)"

text \<open>\<open>os.path.commonprefix\<close>: the common prefix of the least and the greatest string.\<close>

definition commonprefix :: "string list \<Rightarrow> string" where
  "commonprefix m = (if m = [] then [] else common_prefix (hd (sort m)) (last (sort m)))"

text \<open>The exception for a cycle; building its message asserts that every path has the prefix.\<close>

definition simplified_path :: "string \<Rightarrow> node \<Rightarrow> string res" where
  "simplified_path common_path_prefix n =
     (case n of
        None \<Rightarrow> Inl TypeErr
      | Some ref \<Rightarrow> if starts_with ref common_path_prefix then Inr (drop (length common_path_prefix) ref)
                    else Inl AssertErr)"

definition cycle_error :: "string list \<Rightarrow> node list list \<Rightarrow> unit res" where
  "cycle_error files cycles =
     ebind (emap (emap (simplified_path (commonprefix files))) cycles) (\<lambda>_. Inl CircularErr)"

definition VerifyNoGYPFileCircularDependencies :: "(node list \<Rightarrow> nat) \<Rightarrow> targets \<Rightarrow> unit res option" where
  "VerifyNoGYPFileCircularDependencies pick targets =
     (case file_graph targets of
        Inl e \<Rightarrow> Some (Inl e)
      | Inr g0 \<Rightarrow>
          let g = link_roots g0 in
          Option.bind (FlattenToList pick g None) (\<lambda>flat_list.
            if length flat_list \<noteq> length (g_refs g)
            then Option.bind (FindCycles g None) (\<lambda>cycles. Some (cycle_error (g_refs g) cycles))
            else Some (Inr ())))"

section \<open>The common prefix\<close>

lemma common_prefix_between:
  fixes xs :: "('a::linorder) list"
  shows "xs \<le> zs \<Longrightarrow> zs \<le> ys \<Longrightarrow> take (length (common_prefix xs ys)) zs = common_prefix xs ys"
proof (induction xs ys arbitrary: zs rule: common_prefix.induct)
  case (1 x xs y ys)
  show ?case
  proof (cases "x = y")
    case True
    obtain z zs' where z: "zs = z # zs'" using 1(2) by (cases zs) auto
    have "z = x" "xs \<le> zs'" "zs' \<le> ys" using 1(2,3) True z by (auto simp: Cons_le_Cons)
    then show ?thesis using 1(1) [OF True, of zs'] z True by simp
  qed simp
qed auto

lemma starts_with_commonprefix:
  assumes "f \<in> set m"
  shows "starts_with f (commonprefix m)"
proof -
  have "sort m \<noteq> []" using assms by (metis empty_iff empty_set set_sort)
  then have m: "sort m \<noteq> []" "f \<in> set (sort m)" "sorted (sort m)" using assms by simp_all
  then obtain i where i: "i < length (sort m)" "f = sort m ! i" by (metis in_set_conv_nth)
  have "hd (sort m) \<le> f" using m i by (simp add: hd_conv_nth sorted_nth_mono)
  moreover have "f \<le> last (sort m)" using m i by (simp add: last_conv_nth sorted_nth_mono)
  ultimately show ?thesis
    using common_prefix_between assms unfolding starts_with_def commonprefix_def by auto
qed

section \<open>The edges between the files\<close>

text \<open>The pairs (file, file of a dependency) in the order they are linked.\<close>

definition target_edges :: "string \<times> pydict \<Rightarrow> (string \<times> string option) list res" where
  "target_edges p =
     ebind (file_of (fst p)) (\<lambda>f.
     ebind (iter_items (dget_or (snd p) ''dependencies'' (PList []))) (\<lambda>ds.
       emap (\<lambda>v. ebind (as_str v) (\<lambda>d. Inr (f, BuildFile d))) ds))"

definition file_edges :: "targets \<Rightarrow> (string \<times> string option) list res" where
  "file_edges targets = ebind (emap target_edges targets) (\<lambda>xss. Inr (concat xss))"

definition fdeps :: "(string \<times> string option) list \<Rightarrow> string \<Rightarrow> string list" where
  "fdeps es f = foldl add_if_new [] (map (the \<circ> snd) (filter (\<lambda>e. fst e = f \<and> snd e \<noteq> Some f) es))"

definition file_depends :: "(string \<times> string option) list \<Rightarrow> (string \<times> string) set" where
  "file_depends es = {(d, f). (f, Some d) \<in> set es \<and> d \<noteq> f}"

lemma link_targets_edges:
  assumes "emap target_edges ts = Inr xss"
  shows "efold link_file_target g ts = efold (\<lambda>g e. link_file (fst e) g (snd e)) g (concat xss)"
  using assms
proof (induction ts arbitrary: g xss)
  case (Cons p ts)
  obtain xs yss where x: "target_edges p = Inr xs" "emap target_edges ts = Inr yss" "xss = xs # yss"
    using Cons.prems by auto
  obtain f ds where f: "file_of (fst p) = Inr f" "iter_items (dget_or (snd p) ''dependencies'' (PList [])) = Inr ds"
    "emap (\<lambda>v. ebind (as_str v) (\<lambda>d. Inr (f, BuildFile d))) ds = Inr xs"
    using x(1) unfolding target_edges_def by auto
  have "efold (\<lambda>g v. ebind (as_str v) (\<lambda>d. link_file f g (BuildFile d))) g ds
      = efold (\<lambda>g e. link_file (fst e) g (snd e)) g xs" for g
    using f(3)
  proof (induction ds arbitrary: g xs)
    case (Cons v ds)
    then obtain d ys where d: "as_str v = Inr d" "xs = (f, BuildFile d) # ys"
      "emap (\<lambda>v. ebind (as_str v) (\<lambda>d. Inr (f, BuildFile d))) ds = Inr ys" by auto
    show ?case using Cons.IH [OF d(3)] d(1,2) by (simp cong: ebind_cong)
  qed simp
  then have "link_file_target g p = efold (\<lambda>g e. link_file (fst e) g (snd e)) g xs"
    using f(1,2) by (cases p) (simp add: link_file_target_def)
  then show ?case using Cons.IH [OF x(2)] x(3) by (simp add: efold_append cong: ebind_cong)
qed simp

section \<open>The graph that is built\<close>

definition file_inv :: "string list \<Rightarrow> (string \<times> string option) list \<Rightarrow> dgraph \<Rightarrow> bool" where
  "file_inv files es g \<longleftrightarrow>
     g_refs g = files
     \<and> (\<forall>f. g_deps g (Some f) = map Some (fdeps es f))
     \<and> (\<forall>d. set (g_dependents g (Some d)) = Some ` {f. d \<in> set (fdeps es f)})
     \<and> g_dependents g None = []"

lemma fdeps_snoc:
  "fdeps (es @ [(f, d)]) f' = (if f' = f \<and> d \<noteq> Some f then add_if_new (fdeps es f) (the d) else fdeps es f')"
  by (auto simp: fdeps_def)

lemma set_fdeps: "\<forall>e\<in>set es. snd e \<noteq> None \<Longrightarrow> set (fdeps es f) = {d. (d, f) \<in> file_depends es}"
proof (induction es rule: rev_induct)
  case Nil
  then show ?case by (simp add: fdeps_def file_depends_def)
next
  case (snoc e es)
  obtain a d where e: "e = (a, Some d)" using snoc.prems by (cases e) auto
  have "set (fdeps es f') = {d. (d, f') \<in> file_depends es}" if "f' = f" for f' using snoc that by simp
  then show ?case using e by (auto simp: fdeps_snoc file_depends_def add_if_new_def)
qed

lemma link_file_inv:
  assumes i: "file_inv files es g" and f: "f \<in> set files"
  shows "case d of
      None \<Rightarrow> \<exists>m. link_file f g d = Inl (GypErr m)
    | Some d' \<Rightarrow> if d' \<in> set files then \<exists>g'. link_file f g d = Inr g' \<and> file_inv files (es @ [(f, d)]) g'
                 else \<exists>m. link_file f g d = Inl (GypErr m)"
proof (cases d)
  case None
  then show ?thesis by (simp add: link_file_def)
next
  case (Some d')
  show ?thesis
  proof (cases "d' = f \<or> d' \<notin> set files \<or> d' \<in> set (fdeps es f)")
    case True
    have "file_inv files (es @ [(f, d)]) g" if "d' = f \<or> d' \<in> set (fdeps es f)"
    proof -
      have "fdeps (es @ [(f, d)]) f' = fdeps es f'" for f'
        using that Some by (auto simp: fdeps_snoc add_if_new_def)
      then show ?thesis using i unfolding file_inv_def by simp
    qed
    then show ?thesis using True Some f i by (auto simp: link_file_def file_inv_def)
  next
    case False
    let ?g = "g\<lparr>g_deps := (g_deps g)(Some f := g_deps g (Some f) @ [Some d']),
                      g_dependents := (g_dependents g)(Some d' := g_dependents g (Some d') @ [Some f])\<rparr>"
    have "link_file f g d = Inr ?g" using False Some i by (auto simp: link_file_def file_inv_def)
    moreover have "fdeps (es @ [(f, d)]) f' = (if f' = f then fdeps es f @ [d'] else fdeps es f')" for f'
      using False Some by (simp add: fdeps_snoc add_if_new_def)
    then have "file_inv files (es @ [(f, d)]) ?g"
      using i unfolding file_inv_def by (auto split: if_splits)
    ultimately show ?thesis using False Some by simp
  qed
qed

lemma link_files_result:
  assumes "file_inv files es0 g" and "\<forall>e\<in>set es. fst e \<in> set files"
  shows "if \<forall>e\<in>set es. \<exists>d\<in>set files. snd e = Some d
    then \<exists>g'. efold (\<lambda>g e. link_file (fst e) g (snd e)) g es = Inr g' \<and> file_inv files (es0 @ es) g'
    else \<exists>m. efold (\<lambda>g e. link_file (fst e) g (snd e)) g es = Inl (GypErr m)"
  using assms
proof (induction es arbitrary: g es0)
  case (Cons e es)
  obtain f d where e: "e = (f, d)" by (cases e)
  have f: "f \<in> set files" using Cons.prems(2) e by simp
  note step = link_file_inv [OF Cons.prems(1) f, of d]
  show ?case
  proof (cases "\<exists>d'\<in>set files. d = Some d'")
    case True
    then obtain g' where g': "link_file f g d = Inr g'" "file_inv files (es0 @ [(f, d)]) g'" using step by auto
    show ?thesis using Cons.IH [OF g'(2)] Cons.prems(2) g'(1) e True by (auto split: if_splits)
  next
    case False
    then have "\<exists>m. link_file f g d = Inl (GypErr m)" using step by (auto split: option.splits)
    then show ?thesis using False e by auto
  qed
qed simp

text \<open>The targets a dictionary with one entry per file would have: the graph of \<open>DependencyGraph\<close>.\<close>

definition as_targets :: "string list \<Rightarrow> (string \<times> string option) list \<Rightarrow> targets" where
  "as_targets files es = map (\<lambda>f. (f, [(''dependencies'', PList (map PStr (fdeps es f)))])) files"

lemma as_targets_simps [simp]:
  "map fst (as_targets files es) = files" "length (as_targets files es) = length files"
  by (simp_all add: as_targets_def comp_def)

lemma as_targets_deps:
  "f \<in> set files \<Longrightarrow> target_deps (as_targets files es) f = fdeps es f"
  "f \<notin> set files \<Longrightarrow> target_deps (as_targets files es) f = []"
proof -
  have strs: "as_strs (PList (map PStr ds)) = Inr ds" for ds
    by (simp add: as_strs_def) (induction ds, auto)
  have "map_of (as_targets files es) f
      = (if f \<in> set files then Some [(''dependencies'', PList (map PStr (fdeps es f)))] else None)"
    unfolding as_targets_def by (induction files) auto
  then show "f \<in> set files \<Longrightarrow> target_deps (as_targets files es) f = fdeps es f"
    "f \<notin> set files \<Longrightarrow> target_deps (as_targets files es) f = []"
    by (auto simp: target_deps_def dep_names_def strs)
qed

lemma link_roots_loop:
  assumes i: "file_inv files es g" and "distinct (ps @ qs)"
    and "g_refs h = g_refs g" and "\<And>d. g_dependents h (Some d) = g_dependents g (Some d)"
    and "\<And>f. g_deps h (Some f) = (if f \<in> set ps \<and> fdeps es f = [] then [None] else map Some (fdeps es f))"
    and "set (g_dependents h None) = Some ` {f \<in> set ps. fdeps es f = []}"
  defines "h' \<equiv> foldl (\<lambda>g f. if g_deps g (Some f) = [] then link_root g f else g) h qs"
  shows "g_refs h' = g_refs g \<and> (\<forall>d. g_dependents h' (Some d) = g_dependents g (Some d))
    \<and> (\<forall>f. g_deps h' (Some f) = (if f \<in> set (ps @ qs) \<and> fdeps es f = [] then [None] else map Some (fdeps es f)))
    \<and> set (g_dependents h' None) = Some ` {f \<in> set (ps @ qs). fdeps es f = []}"
  using assms(2-6) unfolding h'_def
proof (induction qs arbitrary: ps h)
  case Nil
  then show ?case by simp
next
  case (Cons q qs)
  let ?h = "if g_deps h (Some q) = [] then link_root h q else h"
  have q: "q \<notin> set ps" using Cons.prems(1) by simp
  have "g_deps h (Some q) = [] \<longleftrightarrow> fdeps es q = []" using Cons.prems(4) [of q] q by simp
  then have h: "?h = (if fdeps es q = [] then link_root h q else h)" by simp
  have 1: "distinct ((ps @ [q]) @ qs)" using Cons.prems(1) by simp
  have 2: "g_refs ?h = g_refs g" using Cons.prems(2) h by (simp add: link_root_def)
  have 3: "g_dependents ?h (Some d) = g_dependents g (Some d)" for d
    using Cons.prems(3) h by (simp add: link_root_def)
  have 4: "g_deps ?h (Some f) = (if f \<in> set (ps @ [q]) \<and> fdeps es f = [] then [None] else map Some (fdeps es f))" for f
    using Cons.prems(4) [of f] unfolding h by (auto simp: link_root_def)
  have 5: "set (g_dependents ?h None) = Some ` {f \<in> set (ps @ [q]). fdeps es f = []}"
    using Cons.prems(5) unfolding h by (auto simp: link_root_def)
  show ?case using Cons.IH [OF 1 2 3 4 5] by simp
qed

lemma link_roots_graph:
  assumes i: "file_inv files es g" and d: "distinct files"
    and src: "\<And>f. f \<notin> set files \<Longrightarrow> fdeps es f = []" and tgt: "\<And>f. set (fdeps es f) \<subseteq> set files"
  shows "graph_of (as_targets files es) (link_roots g) \<and> g_refs (link_roots g) = files"
proof -
  let ?ts = "as_targets files es"
  have refs: "g_refs g = files" using i by (simp add: file_inv_def)
  have r: "g_refs (link_roots g) = files \<and> (\<forall>d. g_dependents (link_roots g) (Some d) = g_dependents g (Some d))
    \<and> (\<forall>f. g_deps (link_roots g) (Some f) = (if f \<in> set files \<and> fdeps es f = [] then [None] else map Some (fdeps es f)))
    \<and> set (g_dependents (link_roots g) None) = Some ` {f \<in> set files. fdeps es f = []}"
    using link_roots_loop [OF i, of "[]" files g] d i refs unfolding link_roots_def file_inv_def by simp
  have td: "target_deps ?ts f = fdeps es f" for f using as_targets_deps [of f files es] src by (cases "f \<in> set files") auto
  have dep: "(x, f) \<in> depends ?ts \<longleftrightarrow> x \<in> set (fdeps es f)" for x f by (simp add: depends_def td)
  have "set (g_dependents (link_roots g) (Some x)) = Some ` {f. (x, f) \<in> depends ?ts}" for x
    using r i unfolding dep file_inv_def by simp
  then show ?thesis using r tgt unfolding graph_of_def td by auto
qed

section \<open>The check decides acyclicity\<close>

lemma cycle_error_circular:
  assumes "\<forall>c\<in>set cycles. set c \<subseteq> Some ` set files"
  shows "cycle_error files cycles = Inl CircularErr"
proof -
  let ?p = "commonprefix files"
  have "simplified_path ?p n = Inr (drop (length ?p) (the n))" if "n \<in> Some ` set files" for n
    using that starts_with_commonprefix by (auto simp: simplified_path_def)
  then have "emap (simplified_path ?p) c = Inr (map (\<lambda>n. drop (length ?p) (the n)) c)" if "c \<in> set cycles" for c
    using assms that emap_pure [of c "simplified_path ?p" "\<lambda>n. drop (length ?p) (the n)"] by blast
  then have "emap (emap (simplified_path ?p)) cycles = Inr (map (map (\<lambda>n. drop (length ?p) (the n))) cycles)"
    by (rule emap_pure)
  then show ?thesis by (simp add: cycle_error_def)
qed

lemma cycle_nodes:
  assumes "is_cycle g c" and "\<And>n. set (g_dependents g n) \<subseteq> V"
  shows "set c \<subseteq> V"
proof -
  have but: "set (butlast c) \<subseteq> V" if "back_walk g c" for c
    using that
  proof (induction c)
    case (Cons m c)
    then show ?case using assms(2) [of "hd c"] by (cases c) auto
  qed simp
  have "2 \<le> length c" "hd c = last c" "back_walk g c" using assms(1) by (auto simp: is_cycle_def)
  then have "last c \<in> set (butlast c)" by (cases c) auto
  moreover have "c \<noteq> []" using \<open>2 \<le> length c\<close> by auto
  then have "set c = insert (last c) (set (butlast c))"
    by (metis append_butlast_last_id list.set(2) list.simps(15) rotate1.simps(2) set_rotate1)
  ultimately show ?thesis using but [OF \<open>back_walk g c\<close>] by auto
qed

text \<open>
  C21: For every order in which \<open>set.pop()\<close> yields the ready files, the check ends. It raises a
  \<open>GypError\<close> when a dependency lies in a file that no target is from, passes when the
  dependencies between different files have no cycle, and raises the \<open>CircularException\<close>
  (building its message without failing) when they have one; a file may depend on itself.
\<close>

theorem VerifyNoGYPFileCircularDependencies_correct:
  assumes es: "file_edges targets = Inr es"
  defines "files \<equiv> {f. \<exists>p\<in>set targets. file_of (fst p) = Inr f}"
  shows "if \<exists>e\<in>set es. snd e \<notin> Some ` files
    then \<exists>m. VerifyNoGYPFileCircularDependencies pick targets = Some (Inl (GypErr m))
    else VerifyNoGYPFileCircularDependencies pick targets
      = Some (if acyclic (file_depends es) then Inr () else Inl CircularErr)"
proof -
  obtain xss where xss: "emap target_edges targets = Inr xss" "es = concat xss"
    using es by (auto simp: file_edges_def)
  have "\<exists>f. file_of (fst p) = Inr f" if "p \<in> set targets" for p
    using that emap_Inr_nth [OF xss(1)] by (auto simp: in_set_conv_nth target_edges_def)
  then obtain fs where fs: "emap (\<lambda>p. file_of (fst p)) targets = Inr fs"
    using emap_total [of targets "\<lambda>p. file_of (fst p)"] by blast
  define ns where "ns = foldl add_if_new [] fs"
  have "f \<in> set fs \<longleftrightarrow> (\<exists>p\<in>set targets. file_of (fst p) = Inr f)" for f
    by (rule emap_Inr_mem [OF fs])
  then have set_ns: "set ns = files" by (auto simp: ns_def files_def foldl_add_if_new_set)
  have dist: "distinct ns" by (simp add: ns_def foldl_add_if_new_distinct)
  have start: "file_inv ns [] (empty_graph ns)" by (simp add: file_inv_def empty_graph_def fdeps_def)
  have src: "fst e \<in> set ns" if e: "e \<in> set es" for e
  proof -
    obtain p xs where p: "p \<in> set targets" "target_edges p = Inr xs" "e \<in> set xs"
      using e emap_concat_set [OF xss(1), of e] unfolding xss(2) by blast
    then obtain f ds where f: "file_of (fst p) = Inr f"
      "emap (\<lambda>v. ebind (as_str v) (\<lambda>d. Inr (f, BuildFile d))) ds = Inr xs" by (auto simp: target_edges_def)
    have "\<exists>v\<in>set ds. ebind (as_str v) (\<lambda>d. Inr (f, BuildFile d)) = Inr e"
      using emap_Inr_mem [OF f(2), of e] p(3) by blast
    then have "fst e = f" by auto
    then show ?thesis using f(1) p(1) set_ns by (auto simp: files_def)
  qed
  have fg: "file_graph targets = efold (\<lambda>g e. link_file (fst e) g (snd e)) (empty_graph ns) es"
    using fs link_targets_edges [OF xss(1)] xss(2) by (simp add: file_graph_def ns_def)
  have src': "\<forall>e\<in>set es. fst e \<in> set ns" using src by blast
  note res = link_files_result [OF start src']
  show ?thesis
  proof (cases "\<exists>e\<in>set es. snd e \<notin> Some ` files")
    case True
    then have "\<not> (\<forall>e\<in>set es. \<exists>d\<in>set ns. snd e = Some d)" using set_ns by blast
    have "\<exists>m. file_graph targets = Inl (GypErr m)"
      unfolding fg using res(1) unfolding if_not_P [OF \<open>\<not> (\<forall>e\<in>set es. \<exists>d\<in>set ns. snd e = Some d)\<close>] .
    then obtain m where "file_graph targets = Inl (GypErr m)" ..
    then show ?thesis using True by (auto simp: VerifyNoGYPFileCircularDependencies_def)
  next
    case False
    then have known: "\<forall>e\<in>set es. \<exists>d\<in>set ns. snd e = Some d" using set_ns by blast
    have "\<exists>g'. file_graph targets = Inr g' \<and> file_inv ns es g'"
      unfolding fg using res(1) unfolding if_P [OF known] append_Nil .
    then obtain g0 where g0: "file_graph targets = Inr g0" "file_inv ns es g0" by blast
    have fd: "set (fdeps es f) = {d. (d, f) \<in> file_depends es}" for f
      using known by (intro set_fdeps) auto
    have none: "fdeps es f = []" if "f \<notin> set ns" for f
    proof -
      have "set (fdeps es f) = {}" using src that unfolding fd by (auto simp: file_depends_def)
      then show ?thesis by simp
    qed
    have sub: "set (fdeps es f) \<subseteq> set ns" for f
      using known unfolding fd by (auto simp: file_depends_def)
    let ?ts = "as_targets ns es" and ?g = "link_roots g0"
    have g: "graph_of ?ts ?g" "g_refs ?g = ns"
      using link_roots_graph [OF g0(2) dist none sub] by blast+
    have d: "distinct (map fst ?ts)" using dist by simp
    obtain flat where flat: "FlattenToList pick ?g None = Some flat" "flat_inv ?ts [] flat"
      using FlattenToList_ends [OF g(1) d] by blast
    have td: "target_deps ?ts f = fdeps es f" for f
      using as_targets_deps [of f ns es] none [of f] by (cases "f \<in> set ns") simp_all
    have dep: "depends ?ts = file_depends es" by (simp add: depends_def td fd)
    then have len: "length flat = length ns \<longleftrightarrow> acyclic (file_depends es)"
      using flat_inv_result(1) [OF g(1) d flat(2)] by simp
    obtain cs where cs: "FindCycles ?g None = Some cs" "\<forall>c\<in>set cs. is_cycle ?g c"
      using FindCycles_result [OF g(1)] by blast
    have "file_depends es \<subseteq> UNIV \<times> set ns" using src by (auto simp: file_depends_def)
    then have "set (g_dependents ?g n) \<subseteq> Some ` set ns" for n
      using g(1) unfolding graph_of_def dep as_targets_simps by (cases n) auto
    then have "cycle_error ns cs = Inl CircularErr"
      using cs(2) cycle_nodes by (intro cycle_error_circular) blast
    then show ?thesis
      using False g0(1) flat(1) g(2) cs(1) len by (auto simp: VerifyNoGYPFileCircularDependencies_def Let_def)
  qed
qed

theorem VerifyNoGYPFileCircularDependencies_correct_witness:
  "VerifyNoGYPFileCircularDependencies (\<lambda>_. 0)
     [(''a.gyp:x'', [(''dependencies'', PList [PStr ''a.gyp:y''])]), (''a.gyp:y'', [])] = Some (Inr ())"
proof -
  let ?ts = "[(''a.gyp:x'', [(''dependencies'', PList [PStr ''a.gyp:y''])]), (''a.gyp:y'', [])] :: targets"
  have b: "BuildFile ''a.gyp:x'' = Some ''a.gyp''" "BuildFile ''a.gyp:y'' = Some ''a.gyp''"
    by (simp_all add: BuildFile_def ParseQualifiedTarget_def)
  have "file_edges ?ts = Inr [(''a.gyp'', Some ''a.gyp'')]"
    by (simp add: file_edges_def target_edges_def file_of_def b dget_or_def)
  moreover have "file_depends [(''a.gyp'', Some ''a.gyp'')] = {}" by (auto simp: file_depends_def)
  ultimately show ?thesis
    using VerifyNoGYPFileCircularDependencies_correct [of ?ts "[(''a.gyp'', Some ''a.gyp'')]" "\<lambda>_. 0"]
    by (simp add: file_of_def b acyclic_def)
qed

end
