(* ===== verification/VariableSyntax.thy ===== *)
theory VariableSyntax
  imports PyVal
begin

text \<open>
  The lexical helpers of the variable expansion in \<open>gyp/input.py\<close>: the matching bracket
  (\<open>FindEnclosingBracketGroup\<close>), canonical integers (\<open>IsStrCanonicalInt\<close>) and the command fix-up
  for Windows (\<open>FixupPlatformCommand\<close>).
\<close>

section \<open>Brackets\<close>

definition LBRACKETS :: "char list" where
  "LBRACKETS = ''{[(''"

definition BRACKETS :: "(char \<times> char) list" where
  "BRACKETS = [(CHR ''}'', CHR ''{''), (CHR '']'', CHR ''[''), (CHR '')'', CHR ''('')]"

text \<open>The loop of the function; \<open>stack\<close> holds the open brackets, the innermost first.\<close>

fun group_loop :: "char list \<Rightarrow> int \<Rightarrow> int \<Rightarrow> string \<Rightarrow> int \<times> int" where
  "group_loop stack start index [] = (-1, -1)"
| "group_loop stack start index (c # cs) =
     (if c \<in> set LBRACKETS
      then group_loop (c # stack) (if start = -1 then index else start) (index + 1) cs
      else case map_of BRACKETS c of
        None \<Rightarrow> group_loop stack start (index + 1) cs
      | Some left \<Rightarrow>
          (case stack of
             [] \<Rightarrow> (-1, -1)
           | opened # rest \<Rightarrow>
               if opened \<noteq> left then (-1, -1)
               else if rest = [] then (start, index + 1)
               else group_loop rest start (index + 1) cs))"

definition FindEnclosingBracketGroup :: "string \<Rightarrow> int \<times> int" where
  "FindEnclosingBracketGroup input_str = group_loop [] (-1) 0 input_str"

text \<open>The specification: strings in which every bracket is matched, and bracketed groups.\<close>

definition closer :: "char \<Rightarrow> char" where
  "closer l = (if l = CHR ''{'' then CHR ''}'' else if l = CHR ''['' then CHR '']'' else CHR '')'')"

definition bracket :: "char \<Rightarrow> bool" where
  "bracket c \<longleftrightarrow> c \<in> set ''{[()]}''"

inductive balanced :: "string \<Rightarrow> bool" where
  balanced_Nil: "balanced []"
| balanced_char: "\<not> bracket c \<Longrightarrow> balanced s \<Longrightarrow> balanced (c # s)"
| balanced_group: "l \<in> set LBRACKETS \<Longrightarrow> balanced s \<Longrightarrow> balanced t \<Longrightarrow> balanced (l # s @ closer l # t)"

inductive_cases balanced_ConsE: "balanced (c # s)"

definition bracket_group :: "string \<Rightarrow> bool" where
  "bracket_group g \<longleftrightarrow> (\<exists>l s. l \<in> set LBRACKETS \<and> balanced s \<and> g = l # s @ [closer l])"

text \<open>\<open>closes stk u\<close>: \<open>u\<close> closes the open brackets \<open>stk\<close>, with matched text in between.\<close>

fun closes :: "char list \<Rightarrow> string \<Rightarrow> bool" where
  "closes [] u \<longleftrightarrow> u = []"
| "closes (t # stk) u \<longleftrightarrow> (\<exists>b v. balanced b \<and> closes stk v \<and> u = b @ closer t # v)"

lemma bracket_cases:
  obtains (left) "c \<in> set LBRACKETS" "bracket c"
  | (right) l where "c \<notin> set LBRACKETS" "l \<in> set LBRACKETS" "c = closer l" "map_of BRACKETS c = Some l"
  | (other) "c \<notin> set LBRACKETS" "map_of BRACKETS c = None" "\<not> bracket c"
proof -
  have "c \<in> set LBRACKETS \<and> bracket c
     \<or> (\<exists>l. c \<notin> set LBRACKETS \<and> l \<in> set LBRACKETS \<and> c = closer l \<and> map_of BRACKETS c = Some l)
     \<or> c \<notin> set LBRACKETS \<and> map_of BRACKETS c = None \<and> \<not> bracket c"
    by (auto simp: LBRACKETS_def BRACKETS_def bracket_def closer_def)
  then show thesis using that by blast
qed

lemma closer_lookup:
  "l \<in> set LBRACKETS \<Longrightarrow> closer l \<notin> set LBRACKETS \<and> map_of BRACKETS (closer l) = Some l"
  by (auto simp: LBRACKETS_def BRACKETS_def closer_def)

lemma not_bracket: "\<not> bracket c \<Longrightarrow> c \<notin> set LBRACKETS \<and> map_of BRACKETS c = None"
  by (auto simp: bracket_def LBRACKETS_def BRACKETS_def)

lemma group_loop_balanced:
  assumes "balanced b" and "stk \<noteq> []" and "st \<noteq> -1"
  shows "group_loop stk st i (b @ rest) = group_loop stk st (i + int (length b)) rest"
  using assms
proof (induction b arbitrary: stk i rest rule: balanced.induct)
  case (balanced_char c s)
  then show ?case using not_bracket [of c] by (simp add: algebra_simps)
next
  case (balanced_group l s t)
  note l = closer_lookup [OF balanced_group.hyps(1)]
  have "group_loop stk st i ((l # s @ closer l # t) @ rest) = group_loop (l # stk) st (i + 1) (s @ closer l # t @ rest)"
    using balanced_group.hyps(1) balanced_group.prems by simp
  also have "\<dots> = group_loop (l # stk) st (i + 1 + int (length s)) (closer l # t @ rest)"
    using balanced_group.IH(1) [of "l # stk"] balanced_group.prems by simp
  also have "\<dots> = group_loop stk st (i + 2 + int (length s)) (t @ rest)"
    using l balanced_group.prems(1) by (simp add: algebra_simps)
  also have "\<dots> = group_loop stk st (i + 2 + int (length s) + int (length t)) rest"
    using balanced_group.IH(2) balanced_group.prems by simp
  finally show ?case by (simp add: algebra_simps)
qed simp

lemma group_loop_closes:
  assumes "closes stk u" and "stk \<noteq> []" and "st \<noteq> -1" and "set stk \<subseteq> set LBRACKETS"
  shows "group_loop stk st i (u @ rest) = (st, i + int (length u))"
  using assms
proof (induction stk arbitrary: u i)
  case (Cons t stk)
  obtain b v where u: "balanced b" "closes stk v" "u = b @ closer t # v" using Cons.prems(1) by auto
  note t = closer_lookup [of t]
  have "group_loop (t # stk) st i (u @ rest) = group_loop (t # stk) st (i + int (length b)) (closer t # v @ rest)"
    using group_loop_balanced [OF u(1), of "t # stk" st i "closer t # v @ rest"] Cons.prems(3) u(3) by simp
  also have "\<dots> = (st, i + int (length u))"
  proof (cases "stk = []")
    case True
    then show ?thesis using t u Cons.prems(4) by simp
  next
    case False
    then have "group_loop (t # stk) st (i + int (length b)) (closer t # v @ rest) = group_loop stk st (i + int (length b) + 1) (v @ rest)"
      using t Cons.prems(4) by simp
    also have "\<dots> = (st, i + int (length b) + 1 + int (length v))"
      using Cons.IH [OF u(2) False Cons.prems(3)] Cons.prems(4) by simp
    finally show ?thesis using u(3) by simp
  qed
  finally show ?case .
qed simp

lemma group_loop_found:
  assumes "group_loop stk st i cs \<noteq> (-1, -1)" and "stk \<noteq> []" and "st \<noteq> -1"
  shows "\<exists>u rest. cs = u @ rest \<and> closes stk u"
  using assms
proof (induction cs arbitrary: stk i)
  case (Cons c cs)
  obtain t ts where stk: "stk = t # ts" using Cons.prems(2) by (cases stk) auto
  show ?case
  proof (cases c rule: bracket_cases)
    case left
    then have "group_loop (c # stk) st (i + 1) cs \<noteq> (-1, -1)" using Cons.prems by simp
    then obtain u rest where u: "cs = u @ rest" "closes (c # stk) u" using Cons.IH Cons.prems(3) by blast
    then obtain b b' v where b: "balanced b" "balanced b'" "closes ts v" "u = b @ closer c # b' @ closer t # v"
      using stk by auto
    have "balanced (c # b @ closer c # b')" using left(1) b(1,2) by (rule balanced_group)
    then have "closes stk (c # u)" using b(3,4) stk by force
    then show ?thesis using u(1) by (intro exI [of _ "c # u"] exI [of _ rest]) simp
  next
    case (right l)
    then have tl: "t = l" "ts \<noteq> [] \<Longrightarrow> group_loop ts st (i + 1) cs \<noteq> (-1, -1)"
      using Cons.prems stk by (auto split: if_splits)
    show ?thesis
    proof (cases "ts = []")
      case True
      then have "closes stk [c]" using stk tl(1) right(3) balanced_Nil by auto
      then show ?thesis by (intro exI [of _ "[c]"] exI [of _ cs]) simp
    next
      case False
      then obtain u rest where u: "cs = u @ rest" "closes ts u" using Cons.IH [OF tl(2)] Cons.prems(3) by blast
      then have "closes stk (c # u)" using stk tl(1) right(3) balanced_Nil by auto
      then show ?thesis using u(1) by (intro exI [of _ "c # u"] exI [of _ rest]) simp
    qed
  next
    case other
    then have "group_loop stk st (i + 1) cs \<noteq> (-1, -1)" using Cons.prems by simp
    then obtain u rest where u: "cs = u @ rest" "closes stk u" using Cons.IH Cons.prems by blast
    then obtain b v where "balanced b" "closes ts v" "u = b @ closer t # v" using stk by auto
    then have "closes stk (c # u)" using stk balanced_char [OF other(3)] by force
    then show ?thesis using u(1) by (intro exI [of _ "c # u"] exI [of _ rest]) simp
  qed
qed simp

lemma group_loop_prefix:
  assumes "\<forall>c\<in>set p. \<not> bracket c"
  shows "group_loop [] (-1) i (p @ cs) = group_loop [] (-1) (i + int (length p)) cs"
  using assms
proof (induction p arbitrary: i)
  case (Cons c p)
  then show ?case using not_bracket [of c] by (simp add: algebra_simps)
qed simp

lemma FindEnclosingBracketGroup_found:
  assumes "\<forall>c\<in>set p. \<not> bracket c" and "bracket_group g"
  shows "FindEnclosingBracketGroup (p @ g @ q) = (int (length p), int (length p) + int (length g))"
proof -
  obtain l s where g: "l \<in> set LBRACKETS" "balanced s" "g = l # s @ [closer l]"
    using assms(2) by (auto simp: bracket_group_def)
  have "FindEnclosingBracketGroup (p @ g @ q) = group_loop [l] (int (length p)) (int (length p) + 1) ((s @ [closer l]) @ q)"
    unfolding FindEnclosingBracketGroup_def group_loop_prefix [OF assms(1)] g(3) using g(1) by simp
  also have "\<dots> = (int (length p), int (length p) + 1 + int (length (s @ [closer l])))"
    using g by (intro group_loop_closes) auto
  finally show ?thesis using g(3) by simp
qed

lemma FindEnclosingBracketGroup_exists:
  assumes "group_loop [] (-1) i s \<noteq> (-1, -1)" and "0 \<le> i"
  shows "\<exists>p g q. s = p @ g @ q \<and> (\<forall>c\<in>set p. \<not> bracket c) \<and> bracket_group g"
  using assms
proof (induction s arbitrary: i)
  case (Cons c cs)
  show ?case
  proof (cases c rule: bracket_cases)
    case left
    then have "group_loop [c] i (i + 1) cs \<noteq> (-1, -1)" using Cons.prems by simp
    then obtain u rest where u: "cs = u @ rest" "closes [c] u"
      using group_loop_found [of "[c]" i "i + 1" cs] Cons.prems(2) by auto
    then have "bracket_group (c # u)" using left(1) by (auto simp: bracket_group_def)
    then show ?thesis using u(1) by (intro exI [of _ "[]"] exI [of _ "c # u"] exI [of _ rest]) simp
  next
    case (right l)
    then show ?thesis using Cons.prems by simp
  next
    case other
    then have "group_loop [] (-1) (i + 1) cs \<noteq> (-1, -1)" using Cons.prems by simp
    then obtain p g q where "cs = p @ g @ q" "\<forall>c\<in>set p. \<not> bracket c" "bracket_group g"
      using Cons.IH [of "i + 1"] Cons.prems(2) by auto
    then show ?thesis using other(3) by (intro exI [of _ "c # p"] exI [of _ g] exI [of _ q]) simp
  qed
qed simp

text \<open>
  \<open>FindEnclosingBracketGroup\<close> finds the first bracketed group of a string: when the string is
  a prefix without brackets, a group in which every bracket is matched by one of its kind, and any
  rest, the result is the start and the end of the group, and when it has no such form the result
  is (-1, -1).
\<close>

theorem FindEnclosingBracketGroup_correct:
  "if \<exists>p g q. input_str = p @ g @ q \<and> (\<forall>c\<in>set p. \<not> bracket c) \<and> bracket_group g
   then \<exists>p g q. input_str = p @ g @ q \<and> (\<forall>c\<in>set p. \<not> bracket c) \<and> bracket_group g
     \<and> FindEnclosingBracketGroup input_str = (int (length p), int (length p) + int (length g))
   else FindEnclosingBracketGroup input_str = (-1, -1)"
proof (cases "\<exists>p g q. input_str = p @ g @ q \<and> (\<forall>c\<in>set p. \<not> bracket c) \<and> bracket_group g")
  case True
  then obtain p g q where p: "input_str = p @ g @ q" "\<forall>c\<in>set p. \<not> bracket c" "bracket_group g" by blast
  then have "FindEnclosingBracketGroup input_str = (int (length p), int (length p) + int (length g))"
    using FindEnclosingBracketGroup_found by blast
  with True p show ?thesis by (simp only: if_True) blast
next
  case False
  then have "FindEnclosingBracketGroup input_str = (-1, -1)"
    unfolding FindEnclosingBracketGroup_def using FindEnclosingBracketGroup_exists [of 0 input_str] by blast
  then show ?thesis by (simp only: if_not_P [OF False])
qed

theorem FindEnclosingBracketGroup_correct_witness:
  "\<exists>p g q. ''<(a)'' = p @ g @ q \<and> (\<forall>c\<in>set p. \<not> bracket c) \<and> bracket_group g
     \<and> FindEnclosingBracketGroup ''<(a)'' = (int (length p), int (length p) + int (length g))"
proof -
  have "bracket_group (CHR ''('' # ''a'' @ [closer CHR ''(''])"
    unfolding bracket_group_def
    by (rule exI [of _ "CHR ''(''"], rule exI [of _ "''a''"]) (simp add: LBRACKETS_def bracket_def balanced.intros)
  then have "bracket_group ''(a)''" by (simp add: closer_def)
  moreover have "''<(a)'' = ''<'' @ ''(a)'' @ []" "\<forall>c\<in>set ''<''. \<not> bracket c" by (simp_all add: bracket_def)
  ultimately have "\<exists>p g q. ''<(a)'' = p @ g @ q \<and> (\<forall>c\<in>set p. \<not> bracket c) \<and> bracket_group g" by blast
  then show ?thesis using FindEnclosingBracketGroup_correct [of "''<(a)''"] by (simp only: if_True)
qed

section \<open>Canonical integers\<close>

definition IsStrCanonicalInt :: "pyval \<Rightarrow> bool" where
  "IsStrCanonicalInt v =
     (case v of
        PStr string \<Rightarrow>
          if string = [] then False
          else if string = ''0'' then True
          else let digits = (if hd string = CHR ''-'' then tl string else string) in
            if digits = [] then False
            else if (of_char CHR ''1'' :: nat) \<le> of_char (hd digits) \<and> (of_char (hd digits) :: nat) \<le> of_char CHR ''9''
            then isdigit digits else False
      | _ \<Rightarrow> False)"

lemma nat_of_digits_Cons_pos:
  assumes "isdigit s" and "hd s \<noteq> CHR ''0''"
  shows "0 < nat_of_digits s \<and> digits_of_nat (nat_of_digits s) = s"
  using assms
proof (induction s rule: rev_induct)
  case (snoc c s)
  have c: "digit_char (digit_val c) = c" "digit_val c < 10" using snoc.prems(1) digit_char_val by (auto simp: isdigit_def)
  show ?case
  proof (cases "s = []")
    case True
    have "digit_val c \<noteq> 0" using snoc.prems True by (auto simp: isdigit_def is_digit_def digit_val_def)
    then show ?thesis using True c by (simp add: nat_of_digits_def digits_of_nat.simps)
  next
    case False
    then have "0 < nat_of_digits s \<and> digits_of_nat (nat_of_digits s) = s"
      using snoc by (auto simp: isdigit_def hd_append)
    then show ?thesis using c by (subst digits_of_nat.simps) (simp add: False)
  qed
qed (simp add: isdigit_def)

lemma digits_of_nat_hd: "0 < n \<Longrightarrow> hd (digits_of_nat n) \<in> set ''123456789''"
proof (induction n rule: digits_of_nat.induct)
  case (1 n)
  show ?case
  proof (cases "n < 10")
    case True
    then have "n \<in> {1, 2, 3, 4, 5, 6, 7, 8, 9}" using 1(2) by auto
    then show ?thesis using True by (subst digits_of_nat.simps) (auto simp: digit_char_def)
  next
    case False
    then have "0 < n div 10" by (simp add: div_greater_zero_iff)
    moreover have "digits_of_nat (n div 10) \<noteq> []" using isdigit_digits_of_nat [of "n div 10"] by (simp add: isdigit_def)
    ultimately show ?thesis using 1(1) [OF False] False by (subst digits_of_nat.simps) (simp add: hd_append)
  qed
qed

lemma canonical_first: "(of_char CHR ''1'' :: nat) \<le> of_char c \<and> (of_char c :: nat) \<le> of_char CHR ''9'' \<Longrightarrow> c \<noteq> CHR ''0'' \<and> c \<noteq> CHR ''-''"
  by auto

text \<open>
  \<open>IsStrCanonicalInt\<close> holds of exactly the strings that \<open>str\<close> gives for an integer, as its
  documentation promises; the hand-written test accepts no leading zero and no minus zero.
\<close>

theorem IsStrCanonicalInt_iff: "IsStrCanonicalInt v \<longleftrightarrow> (\<exists>i. v = PStr (str_of_int i))"
proof
  assume can: "IsStrCanonicalInt v"
  then obtain s where s: "v = PStr s" "s \<noteq> []" by (auto simp: IsStrCanonicalInt_def split: pyval.splits if_splits)
  show "\<exists>i. v = PStr (str_of_int i)"
  proof (cases "s = ''0''")
    case True
    then have "s = str_of_int 0" by (simp add: str_of_int_def digits_of_nat.simps digit_char_def)
    then show ?thesis using s(1) by blast
  next
    case False
    define d where "d = (if hd s = CHR ''-'' then tl s else s)"
    have "(of_char CHR ''1'' :: nat) \<le> of_char (hd d) \<and> (of_char (hd d) :: nat) \<le> of_char CHR ''9''" "isdigit d"
      using can False s unfolding IsStrCanonicalInt_def d_def by (auto simp: Let_def split: if_splits)
    then have d: "0 < nat_of_digits d" "digits_of_nat (nat_of_digits d) = d"
      using nat_of_digits_Cons_pos [of d] canonical_first by blast+
    show ?thesis
    proof (cases "hd s = CHR ''-''")
      case True
      then have "s = str_of_int (- int (nat_of_digits d))" using d s(2) by (cases s) (auto simp: str_of_int_def d_def)
      then show ?thesis using s(1) by blast
    next
      case False
      then have "s = str_of_int (int (nat_of_digits d))" using d by (simp add: str_of_int_def d_def)
      then show ?thesis using s(1) by blast
    qed
  qed
next
  assume "\<exists>i. v = PStr (str_of_int i)"
  then obtain i where v: "v = PStr (str_of_int i)" by blast
  define d where "d = digits_of_nat (nat \<bar>i\<bar>)"
  have d: "isdigit d" "d \<noteq> []" using isdigit_digits_of_nat by (auto simp: d_def isdigit_def)
  have z: "str_of_int 0 = ''0''" by (simp add: str_of_int_def digits_of_nat.simps digit_char_def)
  show "IsStrCanonicalInt v"
  proof (cases "i = 0")
    case True
    then show ?thesis using v z by (simp add: IsStrCanonicalInt_def)
  next
    case False
    then have hd: "hd d \<in> set ''123456789''" unfolding d_def by (intro digits_of_nat_hd) simp
    show ?thesis
    proof (cases "i < 0")
      case True
      then have "str_of_int i = CHR ''-'' # d" by (simp add: str_of_int_def d_def)
      then show ?thesis using v d hd by (auto simp: IsStrCanonicalInt_def)
    next
      case False
      then have "str_of_int i = d" by (simp add: str_of_int_def d_def)
      then show ?thesis using v d hd by (auto simp: IsStrCanonicalInt_def)
    qed
  qed
qed

section \<open>Commands\<close>

text \<open>\<open>re.sub('^cat ', 'type ', cmd)\<close>: without a multi-line flag only the start can match.\<close>

definition sub_cat :: "string \<Rightarrow> string" where
  "sub_cat cmd = (if starts_with cmd ''cat '' then ''type '' @ drop 4 cmd else cmd)"

definition FixupPlatformCommand :: "string \<Rightarrow> pyval \<Rightarrow> pyval res" where
  "FixupPlatformCommand platform cmd =
     (if platform = ''win32'' then
        (case cmd of
           PList xs \<Rightarrow>
             (case xs of
                [] \<Rightarrow> Inl IndexErr
              | x # rest \<Rightarrow> ebind (as_str x) (\<lambda>s. Inr (PList (PStr (sub_cat s) # rest))))
         | _ \<Rightarrow> ebind (as_str cmd) (\<lambda>s. Inr (PStr (sub_cat s))))
      else Inr cmd)"

end
