(* ===== verification/LoadHelpers.thy ===== *)
theory LoadHelpers
  imports EasyXml
begin

text \<open>
  Two steps of loading a build file in \<open>gyp/input.py\<close>: \<open>CheckedEval\<close> and \<open>CheckNode\<close>, which turn
  the syntax tree of a file into its value, and \<open>ProcessToolsetsInDict\<close>, which splits a target
  into one for each of its toolsets. The parser is a library of Python, an argument.
\<close>

section \<open>The syntax tree of a build file\<close>

text \<open>
  The nodes \<open>Dict\<close>, \<open>List\<close> and \<open>Const\<close>; any other node keeps its printed form. A module has a doc
  string and statements, of which \<open>Discard\<close> wraps an expression.
\<close>

datatype ast =
    DictNode "(ast \<times> ast) list"
  | ListNode "ast list"
  | ConstNode pyval
  | OtherNode string

datatype stmt = Discard ast | OtherStmt

definition repeated_key :: "string \<Rightarrow> string list \<Rightarrow> string" where
  "repeated_key key keypath =
     ''Key '' @ quoted key @ '' repeated at level '' @ str_of_int (int (length keypath) + 1)
       @ '' with key path '' @ quoted (join_with ''.'' keypath)"

text \<open>
  A key that is a constant but not a string is outside the model (\<open>PlainExc\<close>): the dictionaries
  of the model have string keys.
\<close>

fun CheckNode :: "ast \<Rightarrow> string list \<Rightarrow> pyval res"
and check_entries :: "(ast \<times> ast) list \<Rightarrow> string list \<Rightarrow> pydict \<Rightarrow> pydict res"
and check_children :: "ast list \<Rightarrow> nat \<Rightarrow> string list \<Rightarrow> pyval list res" where
  "CheckNode (DictNode kvs) keypath = ebind (check_entries kvs keypath []) (\<lambda>d. Inr (PDict d))"
| "CheckNode (ListNode xs) keypath = ebind (check_children xs 0 keypath) (\<lambda>vs. Inr (PList vs))"
| "CheckNode (ConstNode v) keypath = Inr v"
| "CheckNode (OtherNode r) keypath = Inl TypeErr"
| "check_entries [] keypath d = Inr d"
| "check_entries ((k, v) # kvs) keypath d =
     (case k of
        ConstNode (PStr key) \<Rightarrow>
          if map_of d key \<noteq> None then Inl (GypErr (repeated_key key keypath))
          else ebind (CheckNode v (keypath @ [key])) (\<lambda>x. check_entries kvs keypath (d @ [(key, x)]))
      | ConstNode _ \<Rightarrow> Inl (PlainExc ''key is not a string'')
      | _ \<Rightarrow> Inl AssertErr)"
| "check_children [] index keypath = Inr []"
| "check_children (x # xs) index keypath =
     ebind (CheckNode x (keypath @ [str_of_int (int index)])) (\<lambda>v.
     ebind (check_children xs (Suc index) keypath) (\<lambda>vs. Inr (v # vs)))"

definition CheckedEval :: "(string \<Rightarrow> (string option \<times> stmt list) res) \<Rightarrow> string \<Rightarrow> pyval res" where
  "CheckedEval parse file_contents =
     ebind (parse file_contents) (\<lambda>(doc, stmts).
       if doc \<noteq> None then Inl AssertErr
       else case stmts of
         [] \<Rightarrow> Inl IndexErr
       | Discard e # _ \<Rightarrow> CheckNode e []
       | OtherStmt # _ \<Rightarrow> Inl AssertErr)"

section \<open>The value that is read\<close>

text \<open>
  The tree that a value is written as: strings, non-negative integers (a minus sign is an operator
  of its own), lists and dictionaries. A dictionary here may repeat a key, as a file may.
\<close>

fun literal :: "pyval \<Rightarrow> bool" where
  "literal (PStr s) = True"
| "literal (PInt i) = (0 \<le> i)"
| "literal (PList xs) = (\<forall>x\<in>set xs. literal x)"
| "literal (PDict d) = (\<forall>p\<in>set d. literal (snd p))"
| "literal _ = False"

fun written :: "pyval \<Rightarrow> ast" where
  "written (PList xs) = ListNode (map written xs)"
| "written (PDict d) = DictNode (map (\<lambda>p. (ConstNode (PStr (fst p)), written (snd p))) d)"
| "written v = ConstNode v"

definition reads_back :: "pyval \<Rightarrow> pyval res \<Rightarrow> bool" where
  "reads_back v r \<longleftrightarrow> (if wf_val v then r = Inr v else \<exists>m. r = Inl (GypErr m))"

lemma check_entries_written:
  assumes "\<And>p keypath. p \<in> set kvs \<Longrightarrow> reads_back (snd p) (CheckNode (written (snd p)) keypath)"
    and "distinct (map fst d)"
  shows "if distinct (map fst (d @ kvs)) \<and> (\<forall>p\<in>set kvs. wf_val (snd p))
    then check_entries (map (\<lambda>p. (ConstNode (PStr (fst p)), written (snd p))) kvs) keypath d = Inr (d @ kvs)
    else \<exists>m. check_entries (map (\<lambda>p. (ConstNode (PStr (fst p)), written (snd p))) kvs) keypath d = Inl (GypErr m)"
  using assms
proof (induction kvs arbitrary: d)
  case (Cons p kvs)
  show ?case
  proof (cases "map_of d (fst p) = None \<and> wf_val (snd p)")
    case True
    then have "CheckNode (written (snd p)) (keypath @ [fst p]) = Inr (snd p)"
      using Cons.prems(1) [of p "keypath @ [fst p]"] by (simp add: reads_back_def)
    moreover have "distinct (map fst (d @ [p]))" using Cons.prems(2) True by (auto simp: map_of_eq_None_iff)
    moreover have "if distinct (map fst ((d @ [p]) @ kvs)) \<and> (\<forall>p\<in>set kvs. wf_val (snd p))
      then check_entries (map (\<lambda>p. (ConstNode (PStr (fst p)), written (snd p))) kvs) keypath (d @ [p]) = Inr ((d @ [p]) @ kvs)
      else \<exists>m. check_entries (map (\<lambda>p. (ConstNode (PStr (fst p)), written (snd p))) kvs) keypath (d @ [p]) = Inl (GypErr m)"
      by (rule Cons.IH) (use Cons.prems(1) calculation(2) in simp_all)
    ultimately show ?thesis using True by simp
  next
    case False
    have "\<exists>m. check_entries (map (\<lambda>p. (ConstNode (PStr (fst p)), written (snd p))) (p # kvs)) keypath d = Inl (GypErr m)"
    proof (cases "map_of d (fst p) = None")
      case True
      then obtain m where "CheckNode (written (snd p)) (keypath @ [fst p]) = Inl (GypErr m)"
        using Cons.prems(1) [of p "keypath @ [fst p]"] False by (auto simp: reads_back_def)
      then show ?thesis using True by simp
    qed auto
    moreover have "\<not> (distinct (map fst (d @ p # kvs)) \<and> (\<forall>q\<in>set (p # kvs). wf_val (snd q)))"
      using False by (auto simp: map_of_eq_None_iff)
    ultimately show ?thesis by (simp only: if_False)
  qed
qed simp

lemma check_children_written:
  assumes "\<And>x keypath. x \<in> set xs \<Longrightarrow> reads_back x (CheckNode (written x) keypath)"
  shows "if \<forall>x\<in>set xs. wf_val x then check_children (map written xs) i keypath = Inr xs
    else \<exists>m. check_children (map written xs) i keypath = Inl (GypErr m)"
  using assms
proof (induction xs arbitrary: i)
  case (Cons x xs)
  have x: "reads_back x (CheckNode (written x) (keypath @ [str_of_int (int i)]))" using Cons.prems by simp
  have xs: "if \<forall>x\<in>set xs. wf_val x then check_children (map written xs) (Suc i) keypath = Inr xs
    else \<exists>m. check_children (map written xs) (Suc i) keypath = Inl (GypErr m)"
    by (rule Cons.IH) (use Cons.prems in simp)
  show ?case
  proof (cases "wf_val x")
    case True
    then show ?thesis using x xs by (cases "\<forall>x\<in>set xs. wf_val x") (auto simp: reads_back_def)
  next
    case False
    then show ?thesis using x by (auto simp: reads_back_def)
  qed
qed simp

lemma CheckNode_written: "literal v \<Longrightarrow> reads_back v (CheckNode (written v) keypath)"
proof (induction v arbitrary: keypath)
  case (PList xs)
  have "reads_back x (CheckNode (written x) kp)" if "x \<in> set xs" for x kp using PList that by simp
  from check_children_written [OF this, of xs 0 keypath] show ?case
    by (cases "\<forall>x\<in>set xs. wf_val x") (auto simp: reads_back_def)
next
  case (PDict d)
  have "reads_back (snd p) (CheckNode (written (snd p)) kp)" if "p \<in> set d" for p kp
    using PDict that by (cases p) (auto simp: snds.simps)
  from check_entries_written [OF this, of d "[]" keypath] show ?case
    by (cases "distinct (map fst d) \<and> (\<forall>p\<in>set d. wf_val (snd p))") (auto simp: reads_back_def)
qed (simp_all add: reads_back_def)

text \<open>
  A file that is written as a value of strings, integers, lists and dictionaries is read back
  as this value, and when a dictionary at any depth has the same key twice it is rejected with a
  \<open>GypError\<close> instead of losing an entry.
\<close>

theorem CheckNode_roundtrip:
  assumes "literal v"
  shows "if wf_val v then CheckNode (written v) keypath = Inr v
    else \<exists>m. CheckNode (written v) keypath = Inl (GypErr m)"
  using CheckNode_written [OF assms] unfolding reads_back_def .

theorem CheckNode_roundtrip_witness:
  "\<exists>m. CheckNode (written (PDict [(''a'', PList [PInt 1]), (''a'', PStr ''x'')])) [] = Inl (GypErr m)"
  using CheckNode_roundtrip [of "PDict [(''a'', PList [PInt 1]), (''a'', PStr ''x'')]" "[]"] by simp

section \<open>Toolsets\<close>

text \<open>\<open>len\<close> and slices of the \<open>toolsets\<close> of a target: a list, or a string of characters.\<close>

fun toolset_items :: "pyval \<Rightarrow> pyval list res" where
  "toolset_items (PList xs) = Inr xs"
| "toolset_items (PStr s) = Inr (map (\<lambda>c. PStr [c]) s)"
| "toolset_items (PDict []) = Inr []"
| "toolset_items _ = Inl TypeErr"

definition copy_dict :: "pydict \<Rightarrow> pydict" where
  "copy_dict d = (case deepcopy (PDict d) of PDict e \<Rightarrow> e | _ \<Rightarrow> [])"

text \<open>The targets that replace one target; the first toolset keeps the original, which comes last.\<close>

fun with_toolsets :: "pydict \<Rightarrow> pyval list \<Rightarrow> pyval list" where
  "with_toolsets target [] = []"
| "with_toolsets target (t # rest) =
     map (\<lambda>build. PDict (dset ''toolset'' build (copy_dict target))) rest @ [PDict (dset ''toolset'' t target)]"

definition split_target :: "bool \<Rightarrow> pyval \<Rightarrow> pyval list res" where
  "split_target multiple_toolsets target =
     ebind (str_in ''toolset'' target) (\<lambda>has_toolset.
     ebind (str_in ''toolsets'' target) (\<lambda>has_toolsets.
       if has_toolset \<and> \<not> has_toolsets then Inr [target]
       else ebind (as_dict target) (\<lambda>d.
         let toolsets = (if multiple_toolsets then dget_or d ''toolsets'' (PList [PStr ''target''])
                         else PList [PStr ''target'']);
             d' = ddel ''toolsets'' d in
         ebind (toolset_items toolsets) (\<lambda>ts. Inr (with_toolsets d' ts)))))"

definition split_targets :: "bool \<Rightarrow> pyval \<Rightarrow> pyval res" where
  "split_targets multiple_toolsets data =
     ebind (str_in ''targets'' data) (\<lambda>has_targets.
       if \<not> has_targets then Inr data
       else ebind (as_dict data) (\<lambda>d.
         ebind (dindex d ''targets'') (\<lambda>target_list.
         ebind (iter_items target_list) (\<lambda>targets.
         ebind (emap (split_target multiple_toolsets) targets) (\<lambda>new_targets.
           Inr (PDict (dset ''targets'' (PList (concat new_targets)) d)))))))"

lemma split_targets_conditions:
  assumes "split_targets mt data = Inr data'"
  shows "data' = data \<or> (\<exists>d x. data = PDict d \<and> data' = PDict (dset ''targets'' x d))"
  using assms by (cases data) (auto simp: split_targets_def split: if_splits)

text \<open>The dictionaries of a condition, after its expression.\<close>

function ProcessToolsetsInDict :: "bool \<Rightarrow> pyval \<Rightarrow> pyval res" where
  "ProcessToolsetsInDict multiple_toolsets data =
     ebind (split_targets multiple_toolsets data) (\<lambda>data'.
     ebind (str_in ''conditions'' data') (\<lambda>has_conditions.
       if \<not> has_conditions then Inr data'
       else ebind (as_dict data') (\<lambda>d.
         case dget d ''conditions'' of
           Some (PList conditions) \<Rightarrow>
             ebind (emap (\<lambda>condition.
                 case condition of
                   PList (expr # dicts) \<Rightarrow>
                     ebind (emap (ProcessToolsetsInDict multiple_toolsets) dicts) (\<lambda>ds. Inr (PList (expr # ds)))
                 | _ \<Rightarrow> Inr condition) conditions) (\<lambda>cs. Inr (PDict (dset ''conditions'' (PList cs) d)))
         | Some conditions \<Rightarrow> ebind (iter_items conditions) (\<lambda>_. Inr (PDict d))
         | None \<Rightarrow> Inl (KeyErr ''conditions''))))"
  by pat_completeness auto
termination
proof (relation "measure (\<lambda>(mt, v). size v)")
  fix mt data data' h d v conds c xs e ds x
  assume s: "split_targets mt data = Inr data'" "as_dict data' = Inr d" "dget d ''conditions'' = Some v" "v = PList conds"
    "c \<in> set conds" "c = PList xs" "xs = e # ds" "x \<in> set ds"
  have "data' = PDict d" using s(2) by (cases data') auto
  then have "\<exists>d0. data = PDict d0 \<and> dget d0 ''conditions'' = Some v"
    using split_targets_conditions [OF s(1)] s(3) by auto
  then obtain d0 where d0: "data = PDict d0" "dget d0 ''conditions'' = Some v" by blast
  have "size x < size c" using size_list_item [OF s(8)] s(6,7) by simp
  also have "size c < size v" using size_list_item [OF s(5)] s(4) by simp
  also have "size v < size data" using size_dget [OF d0(2)] d0(1) by simp
  finally show "((mt, x), mt, data) \<in> measure (\<lambda>(mt, v). size v)" by simp
qed simp

declare ProcessToolsetsInDict.simps [simp del]

text \<open>A target with one toolset, which the step leaves alone.\<close>

definition one_toolset :: "pyval \<Rightarrow> bool" where
  "one_toolset t \<longleftrightarrow> str_in ''toolset'' t = Inr True \<and> str_in ''toolsets'' t = Inr False"

lemma copy_dict_keys: "dget d k = None \<Longrightarrow> dget (copy_dict d) k = None"
proof -
  have "dget (foldl (\<lambda>y p. dset (fst p) (snd p) y) e ps) k = None"
    if "dget e k = None" "k \<notin> fst ` set ps" for e :: pydict and ps
    using that by (induction ps arbitrary: e) auto
  then show "dget d k = None \<Longrightarrow> dget (copy_dict d) k = None"
    by (auto simp: copy_dict_def image_image map_of_eq_None_iff)
qed

lemma split_target_one:
  assumes "split_target mt target = Inr ts" and "t \<in> set ts"
  shows "one_toolset t"
proof -
  obtain a b where ab: "str_in ''toolset'' target = Inr a" "str_in ''toolsets'' target = Inr b"
    using assms(1) by (auto simp: split_target_def)
  show ?thesis
  proof (cases "a \<and> \<not> b")
    case True
    then show ?thesis using assms ab by (auto simp: split_target_def one_toolset_def)
  next
    case False
    then obtain d us where ts: "ts = with_toolsets (ddel ''toolsets'' d) us"
      using assms(1) ab unfolding split_target_def ab ebind_simps if_not_P [OF False]
      by (cases target) (auto simp: Let_def ebind_def split: sum.splits)
    have "dget (copy_dict (ddel ''toolsets'' d)) ''toolsets'' = None" by (rule copy_dict_keys) simp
    then show ?thesis using assms(2) unfolding ts by (cases us) (auto simp: one_toolset_def)
  qed
qed

lemma one_toolset_split: "one_toolset t \<Longrightarrow> split_target mt t = Inr [t]"
  by (simp add: split_target_def one_toolset_def)

definition targets_done :: "pyval \<Rightarrow> bool" where
  "targets_done v \<longleftrightarrow>
     (\<forall>d ts. v = PDict d \<longrightarrow> dget d ''targets'' = Some ts \<longrightarrow> (\<exists>xs. ts = PList xs \<and> (\<forall>t\<in>set xs. one_toolset t)))"

lemma split_targets_done:
  assumes "split_targets mt data = Inr data'"
  shows "targets_done data'"
proof (cases data)
  case (PDict d)
  show ?thesis
  proof (cases "dget d ''targets'' = None")
    case True
    then have "data' = PDict d" using assms PDict by (simp add: split_targets_def)
    then show ?thesis using True by (simp add: targets_done_def)
  next
    case False
    then obtain tl ts new where n: "dget d ''targets'' = Some tl" "iter_items tl = Inr ts"
      "emap (split_target mt) ts = Inr new" "data' = PDict (dset ''targets'' (PList (concat new)) d)"
      using assms PDict by (auto simp: split_targets_def dindex_def)
    have "one_toolset t" if t: "t \<in> set (concat new)" for t
    proof -
      obtain xs where "xs \<in> set new" "t \<in> set xs" using t by auto
      then obtain target where "split_target mt target = Inr xs" using emap_Inr_mem [OF n(3)] by blast
      then show ?thesis using split_target_one \<open>t \<in> set xs\<close> by blast
    qed
    then show ?thesis by (auto simp: targets_done_def n(4))
  qed
qed (use assms in \<open>auto simp: split_targets_def targets_done_def split: if_splits\<close>)

lemma targets_done_split:
  assumes "targets_done data" and "str_in ''targets'' data = Inr b" and "b \<longrightarrow> (\<exists>d. data = PDict d)"
  shows "split_targets mt data = Inr data"
proof (cases b)
  case True
  then obtain d tl where d: "data = PDict d" "dget d ''targets'' = Some tl" using assms(2,3) by (cases data) auto
  then obtain xs where xs: "tl = PList xs" "\<forall>t\<in>set xs. one_toolset t" using assms(1) by (auto simp: targets_done_def)
  have "emap (split_target mt) xs = Inr (map (\<lambda>t. [t]) xs)" by (rule emap_pure) (use xs(2) one_toolset_split in blast)
  moreover have "concat (map (\<lambda>t. [t]) xs) = xs" by (induction xs) auto
  ultimately show ?thesis using d xs(1) dset_same [OF d(2)] by (simp add: split_targets_def dindex_def)
qed (use assms(2) in \<open>simp add: split_targets_def\<close>)

text \<open>What the conditions become.\<close>

definition process_condition :: "bool \<Rightarrow> pyval \<Rightarrow> pyval res" where
  "process_condition mt condition =
     (case condition of
        PList (expr # dicts) \<Rightarrow> ebind (emap (ProcessToolsetsInDict mt) dicts) (\<lambda>ds. Inr (PList (expr # ds)))
      | _ \<Rightarrow> Inr condition)"

lemma ProcessToolsets_unfold:
  "ProcessToolsetsInDict mt data =
     ebind (split_targets mt data) (\<lambda>data'.
     ebind (str_in ''conditions'' data') (\<lambda>has_conditions.
       if \<not> has_conditions then Inr data'
       else ebind (as_dict data') (\<lambda>d.
         case dget d ''conditions'' of
           Some (PList conditions) \<Rightarrow>
             ebind (emap (process_condition mt) conditions) (\<lambda>cs. Inr (PDict (dset ''conditions'' (PList cs) d)))
         | Some conditions \<Rightarrow> ebind (iter_items conditions) (\<lambda>_. Inr (PDict d))
         | None \<Rightarrow> Inl (KeyErr ''conditions''))))"
  unfolding process_condition_def by (subst ProcessToolsetsInDict.simps) (rule refl)

lemma process_condition_again:
  assumes "process_condition mt c = Inr c'"
    and "\<And>expr dicts x x'. c = PList (expr # dicts) \<Longrightarrow> x \<in> set dicts \<Longrightarrow> ProcessToolsetsInDict mt x = Inr x'
      \<Longrightarrow> ProcessToolsetsInDict mt x' = Inr x'"
  shows "process_condition mt c' = Inr c'"
proof (cases "\<exists>expr dicts. c = PList (expr # dicts)")
  case True
  then obtain expr dicts ds where c: "c = PList (expr # dicts)" "emap (ProcessToolsetsInDict mt) dicts = Inr ds" "c' = PList (expr # ds)"
    using assms(1) by (auto simp: process_condition_def)
  have "\<forall>x'\<in>set ds. ProcessToolsetsInDict mt x' = Inr x'"
    using assms(2) [OF c(1)] emap_Inr_mem [OF c(2)] by blast
  then have "emap (ProcessToolsetsInDict mt) ds = Inr (map id ds)" by (intro emap_pure) auto
  then show ?thesis by (simp add: process_condition_def c(3))
next
  case False
  then have "c' = c" using assms(1) by (auto simp: process_condition_def split: pyval.splits list.splits)
  then show ?thesis using assms(1) by simp
qed

lemma ProcessToolsets_again:
  "ProcessToolsetsInDict mt data = Inr data' \<Longrightarrow> ProcessToolsetsInDict mt data' = Inr data' \<and> targets_done data'"
proof (induction "size data" arbitrary: data data' rule: less_induct)
  case less
  obtain v b where v: "split_targets mt data = Inr v" "str_in ''conditions'' v = Inr b"
    using less.prems unfolding ProcessToolsets_unfold [of mt data] by (auto simp: ebind_def split: sum.splits)
  have dn: "targets_done v" by (rule split_targets_done [OF v(1)])
  have again: "split_targets mt v = Inr v"
  proof -
    have "\<exists>b. str_in ''targets'' v = Inr b" using v(2) by (cases v) auto
    then obtain t where t: "str_in ''targets'' v = Inr t" by blast
    have "t \<longrightarrow> (\<exists>d. v = PDict d)"
    proof (rule ccontr)
      assume "\<not> ?thesis"
      then have "t" "\<nexists>d. v = PDict d" by auto
      then have "split_targets mt data = Inr v \<longrightarrow> False"
        using split_targets_conditions [OF v(1)] t by (cases v) (auto simp: split_targets_def)
      then show False using v(1) by blast
    qed
    then show ?thesis by (rule targets_done_split [OF dn t])
  qed
  show ?case
  proof (cases b)
    case False
    then have "data' = v" using less.prems v unfolding ProcessToolsets_unfold [of mt data] by simp
    then show ?thesis using dn again v(2) False unfolding ProcessToolsets_unfold [of mt data'] by simp
  next
    case True
    then obtain d where d: "v = PDict d" "as_dict v = Inr d"
      using less.prems v unfolding ProcessToolsets_unfold [of mt data] by (cases v) auto
    obtain c where c: "dget d ''conditions'' = Some c" using v(2) True d(1) by auto
    have run: "ProcessToolsetsInDict mt data =
      (case c of PList conditions \<Rightarrow>
          ebind (emap (process_condition mt) conditions) (\<lambda>cs. Inr (PDict (dset ''conditions'' (PList cs) d)))
       | _ \<Rightarrow> ebind (iter_items c) (\<lambda>_. Inr (PDict d)))"
      unfolding ProcessToolsets_unfold [of mt data] v(1) ebind_simps d(1) using c by (cases c) simp_all
    have tdone: "targets_done (PDict (dset ''conditions'' x d))" for x
      using dn by (simp add: targets_done_def d(1))
    have rerun: "ProcessToolsetsInDict mt (PDict (dset ''conditions'' x d)) =
      (case x of PList conditions \<Rightarrow>
          ebind (emap (process_condition mt) conditions) (\<lambda>cs. Inr (PDict (dset ''conditions'' (PList cs) (dset ''conditions'' x d))))
       | _ \<Rightarrow> ebind (iter_items x) (\<lambda>_. Inr (PDict (dset ''conditions'' x d))))" for x
    proof -
      have "split_targets mt (PDict (dset ''conditions'' x d)) = Inr (PDict (dset ''conditions'' x d))"
        by (rule targets_done_split [OF tdone str_in.simps(3)]) simp
      then show ?thesis unfolding ProcessToolsets_unfold [of mt "PDict (dset ''conditions'' x d)"]
        by (cases x) simp_all
    qed
    show ?thesis
    proof (cases "\<exists>cs. c = PList cs")
      case True
      then obtain cs cs' where cs: "c = PList cs" "emap (process_condition mt) cs = Inr cs'"
        "data' = PDict (dset ''conditions'' (PList cs') d)" using less.prems run by auto
      obtain d0 where d0: "data = PDict d0" "dget d0 ''conditions'' = Some c"
        using split_targets_conditions [OF v(1)] d(1) c by auto
      have "process_condition mt x' = Inr x'" if x': "x' \<in> set cs'" for x'
      proof -
        obtain x where x: "x \<in> set cs" "process_condition mt x = Inr x'" using emap_Inr_mem [OF cs(2)] x' by blast
        show ?thesis
        proof (rule process_condition_again [OF x(2)])
          fix expr dicts y y'
          assume y: "x = PList (expr # dicts)" "y \<in> set dicts" "ProcessToolsetsInDict mt y = Inr y'"
          have "size y < size x" using size_list_item [OF y(2)] y(1) by simp
          also have "size x < size c" using size_list_item [OF x(1)] cs(1) by simp
          also have "size c < size data" using size_dget [OF d0(2)] d0(1) by simp
          finally show "ProcessToolsetsInDict mt y' = Inr y'" using less.hyps y(3) by blast
        qed
      qed
      then have "emap (process_condition mt) cs' = Inr (map id cs')" by (intro emap_pure) simp
      then show ?thesis using rerun [of "PList cs'"] tdone cs(3) by (simp add: dset_same)
    next
      case False
      then have "data' = PDict d" using less.prems run by (cases c) auto
      then show ?thesis using rerun [of c] tdone [of c] dset_same [OF c] less.prems run False by (cases c) auto
    qed
  qed
qed

text \<open>
  Expanding the toolsets of a build file that has been expanded, as gyp does a second time for
  the targets that conditions bring in, changes nothing where it has been done: after the first
  time every target of the file has a toolset and no list of toolsets.
\<close>

theorem ProcessToolsets_idempotent:
  assumes "ProcessToolsetsInDict mt data = Inr data'"
  shows "ProcessToolsetsInDict mt data' = Inr data'
    \<and> (\<forall>d ts. data' = PDict d \<longrightarrow> dget d ''targets'' = Some ts \<longrightarrow> (\<exists>xs. ts = PList xs \<and> (\<forall>t\<in>set xs. one_toolset t)))"
  using ProcessToolsets_again [OF assms] unfolding targets_done_def .

theorem ProcessToolsets_idempotent_witness:
  "ProcessToolsetsInDict True
     (PDict [(''targets'', PList [PDict [(''toolset'', PStr ''host'')], PDict [(''toolset'', PStr ''target'')]])])
   = Inr (PDict [(''targets'', PList [PDict [(''toolset'', PStr ''host'')], PDict [(''toolset'', PStr ''target'')]])])"
proof -
  let ?in = "PDict [(''targets'', PList [PDict [(''toolsets'', PList [PStr ''target'', PStr ''host''])]])]"
  have "ProcessToolsetsInDict True ?in
     = Inr (PDict [(''targets'', PList [PDict [(''toolset'', PStr ''host'')], PDict [(''toolset'', PStr ''target'')]])])"
    by (simp add: ProcessToolsetsInDict.simps split_targets_def split_target_def dindex_def dget_or_def copy_dict_def)
  from ProcessToolsets_idempotent [OF this] show ?thesis by blast
qed

end
