(* ===== verification/ParallelLoad.thy ===== *)
theory ParallelLoad
  imports PyVal "HOL-Library.Multiset"
begin

text \<open>
  Loading build files in parallel (\<open>ParallelState\<close>, its callback, \<open>LoadTargetBuildFilesParallel\<close>
  and the worker's wrapper \<open>CallLoadTargetBuildFile\<close> of \<open>gyp/input.py\<close>) as a state machine: the
  main loop, which holds the lock except while it waits, the callbacks, which run between, and the
  jobs that are out. What a worker answers is an argument of the step relation.
\<close>

section \<open>The state\<close>

text \<open>What a worker sends back: \<open>None\<close> or \<open>False\<close> (here \<open>None\<close>), or its tuple.\<close>

type_synonym build_result = "(string \<times> (string \<times> pydict) list \<times> (string \<times> pydict) list \<times> string list) option"

text \<open>
  The attributes of \<open>ParallelState\<close>. Of the condition variable only the order matters; the pool is
  a flag (created or not). A set is a list without repetition, \<open>data['target_build_files']\<close> is a
  field of its own.
\<close>

record parallel_state =
  pool :: bool
  target_build_files :: "string list"
  data :: "(string \<times> pydict) list"
  aux_data :: "(string \<times> pydict) list"
  pending :: int
  scheduled :: "string list"
  dependencies :: "string list"
  error :: bool

definition update_all :: "(string \<times> 'v) list \<Rightarrow> (string \<times> 'v) list \<Rightarrow> (string \<times> 'v) list" where
  "update_all new d = foldl (\<lambda>d (k, v). AList.update k v d) d new"

definition schedule :: "parallel_state \<Rightarrow> string \<Rightarrow> parallel_state" where
  "schedule s new_dependency =
     (if new_dependency \<in> set (scheduled s) then s
      else s\<lparr>scheduled := scheduled s @ [new_dependency], dependencies := dependencies s @ [new_dependency]\<rparr>)"

definition LoadTargetBuildFileCallback :: "build_result \<Rightarrow> parallel_state \<Rightarrow> parallel_state" where
  "LoadTargetBuildFileCallback result s =
     (case result of
        None \<Rightarrow> s\<lparr>error := True\<rparr>
      | Some (build_file_path0, data0, aux_data0, dependencies0) \<Rightarrow>
          let s1 = s\<lparr>target_build_files := List.insert build_file_path0 (target_build_files s),
                     data := update_all data0 (data s), aux_data := update_all aux_data0 (aux_data s)\<rparr>;
              s2 = foldl schedule s1 dependencies0
          in s2\<lparr>pending := pending s2 - 1\<rparr>)"

text \<open>
  The wrapper in the worker: \<open>outcome\<close> is how \<open>LoadTargetBuildFile\<close> ended (an exception, \<open>False\<close>
  for a file already loaded, or its path and dependencies), with the dictionaries it left; only
  keys that were not there before are sent back.
\<close>

definition CallLoadTargetBuildFile :: "string list \<Rightarrow> string list \<Rightarrow>
    ((string \<times> string list) option \<times> (string \<times> pydict) list \<times> (string \<times> pydict) list) res \<Rightarrow> build_result" where
  "CallLoadTargetBuildFile data_keys aux_data_keys outcome =
     (case outcome of
        Inl _ \<Rightarrow> None
      | Inr (None, _, _) \<Rightarrow> None
      | Inr (Some (build_file_path, deps), d, aux) \<Rightarrow>
          Some (build_file_path,
                filter (\<lambda>p. fst p \<noteq> ''target_build_files'' \<and> fst p \<notin> set data_keys) d,
                filter (\<lambda>p. fst p \<notin> set aux_data_keys) aux, deps))"

section \<open>The steps\<close>

text \<open>
  The main thread is in its loop (holding the lock), waits, has been notified but not yet taken
  the lock again, has released it for good and joins the pool, or has finished, with an exception
  or an exit status.
\<close>

datatype main_thread = Looping | Waiting | Notified | Joining | Finished "unit res"

record system =
  parallel :: parallel_state
  jobs :: "string multiset"
  main :: main_thread

definition start_parallel :: "string list \<Rightarrow> string list \<Rightarrow> (string \<times> pydict) list \<Rightarrow> (string \<times> pydict) list \<Rightarrow> system" where
  "start_parallel build_files loaded d aux =
     \<lparr>parallel = \<lparr>pool = False, target_build_files = loaded, data = d, aux_data = aux, pending = 0,
                  scheduled = remdups build_files, dependencies = build_files, error = False\<rparr>,
      jobs = {#}, main = Looping\<rparr>"

text \<open>One iteration of the loop that finds work: pop, count, hand the job to the pool.\<close>

definition submit :: "parallel_state \<Rightarrow> parallel_state \<times> string" where
  "submit s = (s\<lparr>dependencies := butlast (dependencies s), pending := pending s + 1, pool := True\<rparr>,
               last (dependencies s))"

definition busy :: "parallel_state \<Rightarrow> bool" where
  "busy s \<longleftrightarrow> dependencies s \<noteq> [] \<or> pending s \<noteq> 0"

text \<open>\<open>pool.close()\<close> without a pool raises; an error in a worker ends the program with status 1.\<close>

definition parallel_result :: "parallel_state \<Rightarrow> unit res" where
  "parallel_result s = (if \<not> pool s then Inl TypeErr else if error s then Inl (SysExit 1) else Inr ())"

inductive pstep :: "(string \<Rightarrow> build_result \<Rightarrow> bool) \<Rightarrow> system \<Rightarrow> system \<Rightarrow> bool"
  for worker :: "string \<Rightarrow> build_result \<Rightarrow> bool" where
  submit_job: "main s = Looping \<Longrightarrow> \<not> error (parallel s) \<Longrightarrow> dependencies (parallel s) \<noteq> [] \<Longrightarrow>
    submit (parallel s) = (p, f) \<Longrightarrow>
    pstep worker s (s\<lparr>parallel := p, jobs := add_mset f (jobs s)\<rparr>)"
| wait_for_job: "main s = Looping \<Longrightarrow> busy (parallel s) \<Longrightarrow> \<not> error (parallel s) \<Longrightarrow> dependencies (parallel s) = [] \<Longrightarrow>
    pstep worker s (s\<lparr>main := Waiting\<rparr>)"
| leave_loop: "main s = Looping \<Longrightarrow> \<not> busy (parallel s) \<or> error (parallel s) \<Longrightarrow>
    pstep worker s (s\<lparr>main := Joining\<rparr>)"
| job_done: "main s \<in> {Waiting, Notified, Joining} \<Longrightarrow> f \<in># jobs s \<Longrightarrow> worker f result \<Longrightarrow>
    pstep worker s (s\<lparr>parallel := LoadTargetBuildFileCallback result (parallel s), jobs := jobs s - {#f#},
                      main := (if main s = Waiting then Notified else main s)\<rparr>)"
| wake_up: "main s = Notified \<Longrightarrow> pstep worker s (s\<lparr>main := Looping\<rparr>)"
| join_pool: "main s = Joining \<Longrightarrow> jobs s = {#} \<Longrightarrow>
    pstep worker s (s\<lparr>main := Finished (parallel_result (parallel s))\<rparr>)"

section \<open>Invariant\<close>

text \<open>The files reached from the build files through dependencies.\<close>

definition reached :: "(string \<Rightarrow> string set) \<Rightarrow> string list \<Rightarrow> string set" where
  "reached deps build_files = {f. \<exists>b\<in>set build_files. (b, f) \<in> {(f, d). d \<in> deps f}\<^sup>*}"

lemma reached_start: "b \<in> set build_files \<Longrightarrow> b \<in> reached deps build_files"
  by (auto simp: reached_def)

lemma reached_step: "f \<in> reached deps build_files \<Longrightarrow> d \<in> deps f \<Longrightarrow> d \<in> reached deps build_files"
  unfolding reached_def by (auto intro: rtrancl.rtrancl_into_rtrancl)

lemma reached_least:
  assumes "set build_files \<subseteq> S" and "\<And>f. f \<in> S \<Longrightarrow> deps f \<subseteq> S"
  shows "reached deps build_files \<subseteq> S"
proof
  fix f
  assume "f \<in> reached deps build_files"
  then obtain b where "b \<in> set build_files" "(b, f) \<in> {(f, d). d \<in> deps f}\<^sup>*" by (auto simp: reached_def)
  from this(2,1) show "f \<in> S"
    by (induction rule: rtrancl.induct) (use assms in auto)
qed

definition answers :: "(string \<Rightarrow> build_result \<Rightarrow> bool) \<Rightarrow> (string \<Rightarrow> string set) \<Rightarrow> bool" where
  "answers worker deps \<longleftrightarrow>
     (\<forall>f. (\<exists>r. worker f r) \<and> (\<forall>r. worker f (Some r) \<longrightarrow> fst r = f \<and> set (snd (snd (snd r))) = deps f))"

definition parallel_inv :: "(string \<Rightarrow> build_result \<Rightarrow> bool) \<Rightarrow> (string \<Rightarrow> string set) \<Rightarrow> string list \<Rightarrow> string list \<Rightarrow> system \<Rightarrow> bool" where
  "parallel_inv worker deps build_files loaded s \<longleftrightarrow>
     (let p = parallel s; R = reached deps build_files in
        distinct (scheduled p) \<and> set (scheduled p) \<subseteq> R \<and> set build_files \<subseteq> set (scheduled p)
      \<and> set (dependencies p) \<union> set_mset (jobs s) \<subseteq> set (scheduled p)
      \<and> set loaded \<subseteq> set (target_build_files p) \<and> set (target_build_files p) \<subseteq> set loaded \<union> set (scheduled p)
      \<and> (error p \<longrightarrow> (\<exists>f\<in>R. worker f None))
      \<and> (\<not> error p \<longrightarrow> pending p = int (size (jobs s))
           \<and> (\<forall>f\<in>set (scheduled p). f \<in> set (dependencies p) \<or> f \<in># jobs s
                \<or> f \<in> set (target_build_files p) \<and> deps f \<subseteq> set (scheduled p)))
      \<and> (\<not> pool p \<longrightarrow> dependencies p = build_files \<and> jobs s = {#} \<and> \<not> error p)
      \<and> (main s = Waiting \<longrightarrow> jobs s \<noteq> {#})
      \<and> (main s = Joining \<longrightarrow> error p \<or> dependencies p = [] \<and> jobs s = {#})
      \<and> (\<forall>r. main s = Finished r \<longrightarrow> r = parallel_result p \<and> (error p \<or> dependencies p = [] \<and> jobs s = {#})))"

lemma schedule_fields:
  "pool (foldl schedule p ds) = pool p" "error (foldl schedule p ds) = error p"
  "pending (foldl schedule p ds) = pending p" "target_build_files (foldl schedule p ds) = target_build_files p"
  by (induction ds arbitrary: p) (simp_all add: schedule_def)

lemma schedule_sets:
  "set (scheduled (foldl schedule p ds)) = set (scheduled p) \<union> set ds"
  "set (dependencies p) \<subseteq> set (dependencies (foldl schedule p ds))"
  "set (dependencies (foldl schedule p ds)) \<subseteq> set (dependencies p) \<union> set ds"
  "f \<in> set ds \<Longrightarrow> f \<notin> set (scheduled p) \<Longrightarrow> f \<in> set (dependencies (foldl schedule p ds))"
proof -
  show "set (scheduled (foldl schedule p ds)) = set (scheduled p) \<union> set ds"
    by (induction ds arbitrary: p) (auto simp: schedule_def)
  show m: "set (dependencies p) \<subseteq> set (dependencies (foldl schedule p ds))" for p ds
  proof (induction ds arbitrary: p)
    case (Cons d ds)
    have "set (dependencies p) \<subseteq> set (dependencies (schedule p d))" by (auto simp: schedule_def)
    then show ?case using Cons.IH [of "schedule p d"] by simp
  qed simp
  show "set (dependencies (foldl schedule p ds)) \<subseteq> set (dependencies p) \<union> set ds"
  proof (induction ds arbitrary: p)
    case (Cons d ds)
    have "set (dependencies (schedule p d)) \<subseteq> insert d (set (dependencies p))" by (auto simp: schedule_def)
    then show ?case using Cons.IH [of "schedule p d"] by auto
  qed simp
  show "f \<in> set ds \<Longrightarrow> f \<notin> set (scheduled p) \<Longrightarrow> f \<in> set (dependencies (foldl schedule p ds))"
  proof (induction ds arbitrary: p)
    case (Cons d ds)
    show ?case
    proof (cases "d = f")
      case True
      then have "f \<in> set (dependencies (schedule p d))" using Cons.prems(2) by (simp add: schedule_def)
      then show ?thesis using m [of "schedule p d" ds] by auto
    next
      case False
      then have "f \<in> set ds" "f \<notin> set (scheduled (schedule p d))"
        using Cons.prems by (auto simp: schedule_def)
      then show ?thesis using Cons.IH [of "schedule p d"] by simp
    qed
  qed simp
qed

lemma schedule_length:
  assumes "distinct (scheduled p)"
  shows "distinct (scheduled (foldl schedule p ds))
    \<and> length (dependencies (foldl schedule p ds)) - length (dependencies p) = length (scheduled (foldl schedule p ds)) - length (scheduled p)
    \<and> length (dependencies p) \<le> length (dependencies (foldl schedule p ds))
    \<and> length (scheduled p) \<le> length (scheduled (foldl schedule p ds))"
  using assms
proof (induction ds arbitrary: p)
  case (Cons d ds)
  have "distinct (scheduled (schedule p d))" using Cons.prems by (auto simp: schedule_def)
  from Cons.IH [OF this] show ?case by (auto simp: schedule_def)
qed simp

lemma callback_fields:
  fixes p :: parallel_state
  assumes "answers worker deps" and "worker f (Some r)"
  defines "p' \<equiv> LoadTargetBuildFileCallback (Some r) p"
  shows "pool p' = pool p" "error p' = error p" "pending p' = pending p - 1"
    "set (target_build_files p') = insert f (set (target_build_files p))"
    "set (scheduled p') = set (scheduled p) \<union> deps f"
    "set (dependencies p) \<subseteq> set (dependencies p')" "set (dependencies p') \<subseteq> set (dependencies p) \<union> deps f"
    "g \<in> deps f \<Longrightarrow> g \<notin> set (scheduled p) \<Longrightarrow> g \<in> set (dependencies p')"
    "distinct (scheduled p) \<Longrightarrow> distinct (scheduled p')"
proof -
  obtain x y ds where r: "r = (f, x, y, ds)" "set ds = deps f"
    using assms(1,2) unfolding answers_def by (cases r) force
  let ?p = "p\<lparr>target_build_files := List.insert f (target_build_files p),
      data := update_all x (data p), aux_data := update_all y (aux_data p)\<rparr>"
  have p': "p' = (foldl schedule ?p ds)\<lparr>pending := pending (foldl schedule ?p ds) - 1\<rparr>"
    by (simp add: p'_def LoadTargetBuildFileCallback_def r(1) Let_def)
  show "pool p' = pool p" "error p' = error p" "pending p' = pending p - 1"
    "set (target_build_files p') = insert f (set (target_build_files p))"
    "set (scheduled p') = set (scheduled p) \<union> deps f"
    "set (dependencies p) \<subseteq> set (dependencies p')" "set (dependencies p') \<subseteq> set (dependencies p) \<union> deps f"
    using schedule_sets(1-3) [of ?p ds] by (simp_all add: p' schedule_fields r(2))
  show "g \<in> deps f \<Longrightarrow> g \<notin> set (scheduled p) \<Longrightarrow> g \<in> set (dependencies p')"
    using schedule_sets(4) [of g ds ?p] by (simp add: p' r(2))
  show "distinct (scheduled p) \<Longrightarrow> distinct (scheduled p')"
    using schedule_length [of ?p ds] by (simp add: p')
qed

lemma parallel_invD:
  assumes "parallel_inv worker deps build_files loaded s"
  shows "distinct (scheduled (parallel s))"
    and "set (scheduled (parallel s)) \<subseteq> reached deps build_files"
    and "set build_files \<subseteq> set (scheduled (parallel s))"
    and "set (dependencies (parallel s)) \<union> set_mset (jobs s) \<subseteq> set (scheduled (parallel s))"
    and "set loaded \<subseteq> set (target_build_files (parallel s))"
    and "set (target_build_files (parallel s)) \<subseteq> set loaded \<union> set (scheduled (parallel s))"
    and "error (parallel s) \<Longrightarrow> \<exists>f\<in>reached deps build_files. worker f None"
    and "\<not> error (parallel s) \<Longrightarrow> pending (parallel s) = int (size (jobs s))"
    and "\<not> error (parallel s) \<Longrightarrow> f \<in> set (scheduled (parallel s)) \<Longrightarrow> f \<in> set (dependencies (parallel s)) \<or> f \<in># jobs s
          \<or> f \<in> set (target_build_files (parallel s)) \<and> deps f \<subseteq> set (scheduled (parallel s))"
    and "\<not> pool (parallel s) \<Longrightarrow> dependencies (parallel s) = build_files \<and> jobs s = {#} \<and> \<not> error (parallel s)"
    and "main s = Waiting \<Longrightarrow> jobs s \<noteq> {#}"
    and "main s = Joining \<Longrightarrow> error (parallel s) \<or> dependencies (parallel s) = [] \<and> jobs s = {#}"
    and "main s = Finished r \<Longrightarrow> r = parallel_result (parallel s)
          \<and> (error (parallel s) \<or> dependencies (parallel s) = [] \<and> jobs s = {#})"
  using assms unfolding parallel_inv_def Let_def by simp_all

lemma parallel_inv_start:
  "parallel_inv worker deps build_files loaded (start_parallel build_files loaded d aux)"
  by (auto simp: parallel_inv_def start_parallel_def reached_start Let_def)

lemma parallel_inv_job_done:
  assumes inv: "parallel_inv worker deps build_files loaded s" and w: "answers worker deps"
    and f: "f \<in># jobs s" "worker f result" and m: "main s \<in> {Waiting, Notified, Joining}"
  shows "parallel_inv worker deps build_files loaded
    (s\<lparr>parallel := LoadTargetBuildFileCallback result (parallel s), jobs := jobs s - {#f#},
       main := (if main s = Waiting then Notified else main s)\<rparr>)"
proof (cases result)
  case None
  have "f \<in> reached deps build_files" using inv f(1) unfolding parallel_inv_def Let_def by blast
  moreover have "set_mset (jobs s - {#f#}) \<subseteq> set_mset (jobs s)" by (meson in_diffD subsetI)
  moreover have "pool (parallel s)" using inv f(1) unfolding parallel_inv_def Let_def by auto
  ultimately show ?thesis
    using inv f m None unfolding parallel_inv_def Let_def
    by (auto simp: LoadTargetBuildFileCallback_def)
next
  case (Some r)
  let ?p = "parallel s" and ?p' = "LoadTargetBuildFileCallback result (parallel s)" and ?R = "reached deps build_files"
  have wr: "worker f (Some r)" using f(2) Some by simp
  note c = callback_fields [OF w wr, where p = "parallel s", folded Some]
  have R: "f \<in> ?R" "deps f \<subseteq> ?R" using parallel_invD(2,4) [OF inv] f(1) reached_step by blast+
  have pl: "pool ?p" using parallel_invD(10) [OF inv] f(1) by (metis empty_not_add_mset multi_member_split)
  have sub: "set_mset (jobs s - {#f#}) \<subseteq> set_mset (jobs s)" by (meson in_diffD subsetI)
  have sz: "int (size (jobs s - {#f#})) = int (size (jobs s)) - 1"
    using size_Suc_Diff1 [OF f(1)] by simp
  have tracked: "g \<in> set (dependencies ?p') \<or> g \<in># jobs s - {#f#}
      \<or> g \<in> set (target_build_files ?p') \<and> deps g \<subseteq> set (scheduled ?p')"
    if "\<not> error ?p" "g \<in> set (scheduled ?p')" for g
  proof (cases "g = f")
    case True
    then show ?thesis using c(4,5) by simp
  next
    case False
    show ?thesis
    proof (cases "g \<in> set (scheduled ?p)")
      case True
      then have "g \<in> set (dependencies ?p) \<or> g \<in># jobs s \<or> g \<in> set (target_build_files ?p) \<and> deps g \<subseteq> set (scheduled ?p)"
        using parallel_invD(9) [OF inv that(1)] by blast
      moreover have "g \<in># jobs s \<Longrightarrow> g \<in># jobs s - {#f#}" using False by (simp add: in_diff_count)
      ultimately show ?thesis using c(4,5,6) by blast
    next
      case False
      then show ?thesis using that(2) c(5,8) by blast
    qed
  qed
  note i = parallel_invD [OF inv]
  have sched: "distinct (scheduled ?p')" "set (scheduled ?p') \<subseteq> ?R" "set build_files \<subseteq> set (scheduled ?p')"
    using i(1,2,3) R(2) c(5,9) by auto
  have work: "set (dependencies ?p') \<union> set_mset (jobs s - {#f#}) \<subseteq> set (scheduled ?p')"
    using i(4) c(5,7) sub by blast
  have files: "set loaded \<subseteq> set (target_build_files ?p')"
    "set (target_build_files ?p') \<subseteq> set loaded \<union> set (scheduled ?p')"
    using i(4-6) c(4,5) f(1) by auto
  have err: "error ?p' \<longrightarrow> (\<exists>f\<in>?R. worker f None)" "\<not> error ?p' \<longrightarrow> pending ?p' = int (size (jobs s - {#f#}))"
    using i(7,8) c(2,3) sz by auto
  have join: "main s = Joining \<longrightarrow> error ?p'" using i(12) c(2) f(1) by auto
  show ?thesis
    unfolding parallel_inv_def Let_def
    using sched work files err join tracked c(1,2) pl m by (simp only: system.simps) (auto split: if_splits)
qed

lemma parallel_inv_step:
  assumes "pstep worker s s'" and inv: "parallel_inv worker deps build_files loaded s" and w: "answers worker deps"
  shows "parallel_inv worker deps build_files loaded s'"
  using assms(1)
proof (cases rule: pstep.cases)
  case (submit_job p f)
  obtain ds x where ds: "dependencies (parallel s) = ds @ [x]"
    using submit_job(4) by (cases "dependencies (parallel s)" rule: rev_cases) auto
  have p: "p = (parallel s)\<lparr>dependencies := ds, pending := pending (parallel s) + 1, pool := True\<rparr>" "f = x"
    using submit_job(5) ds by (auto simp: submit_def)
  note i = parallel_invD [OF inv, unfolded ds]
  have tracked: "g \<in> set ds \<or> g \<in># add_mset x (jobs s)
      \<or> g \<in> set (target_build_files (parallel s)) \<and> deps g \<subseteq> set (scheduled (parallel s))"
    if "g \<in> set (scheduled (parallel s))" for g
    using i(9) [OF submit_job(3) that] by auto
  show ?thesis
    unfolding parallel_inv_def Let_def submit_job(1) p
    using i(1-6) i(8) [OF submit_job(3)] submit_job(2,3) tracked by auto
next
  case (job_done f result)
  then show ?thesis using parallel_inv_job_done [OF inv w] by blast
next
  case leave_loop
  then show ?thesis using inv unfolding parallel_inv_def Let_def busy_def by auto
next
  case wait_for_job
  then show ?thesis using inv unfolding parallel_inv_def Let_def busy_def by auto
next
  case wake_up
  then show ?thesis using inv unfolding parallel_inv_def Let_def by auto
next
  case join_pool
  then show ?thesis using inv unfolding parallel_inv_def Let_def by auto
qed

lemma parallel_inv_reachable:
  assumes "(pstep worker)\<^sup>*\<^sup>* (start_parallel build_files loaded d aux) s" and "answers worker deps"
  shows "parallel_inv worker deps build_files loaded s"
  using assms
  by (induction rule: rtranclp_induct) (auto intro: parallel_inv_start parallel_inv_step)

section \<open>Every run ends\<close>

definition main_rank :: "main_thread \<Rightarrow> nat" where
  "main_rank m = (case m of Finished _ \<Rightarrow> 0 | Joining \<Rightarrow> 1 | Waiting \<Rightarrow> 2 | Looping \<Rightarrow> 3 | Notified \<Rightarrow> 4)"

text \<open>A file weighs most before it is scheduled, then as a dependency, then as a job.\<close>

definition parallel_measure :: "string set \<Rightarrow> system \<Rightarrow> nat" where
  "parallel_measure R s =
     5 * card (R - set (scheduled (parallel s))) + 5 * length (dependencies (parallel s)) + 4 * size (jobs s)
     + main_rank (main s)"

lemma callback_measure:
  assumes "finite R" and "distinct (scheduled p)" and "set (scheduled (foldl schedule p ds)) \<subseteq> R"
  shows "card (R - set (scheduled (foldl schedule p ds))) + length (dependencies (foldl schedule p ds))
    = card (R - set (scheduled p)) + length (dependencies p)"
proof -
  let ?q = "foldl schedule p ds"
  have s: "distinct (scheduled ?q)" "length (dependencies ?q) - length (dependencies p) = length (scheduled ?q) - length (scheduled p)"
    "length (dependencies p) \<le> length (dependencies ?q)" "length (scheduled p) \<le> length (scheduled ?q)"
    using schedule_length [OF assms(2), of ds] by blast+
  have sub: "set (scheduled p) \<subseteq> R" using schedule_sets(1) [of p ds] assms(3) by blast
  have "card (R - set (scheduled ?q)) = card R - length (scheduled ?q)"
    using assms(1,3) s(1) by (simp add: card_Diff_subset distinct_card)
  moreover have "card (R - set (scheduled p)) = card R - length (scheduled p)"
    using assms(1,2) sub by (simp add: card_Diff_subset distinct_card)
  moreover have "length (scheduled ?q) \<le> card R"
    using card_mono [OF assms(1,3)] s(1) by (simp add: distinct_card)
  ultimately show ?thesis using s(2-4) by linarith
qed

lemma pstep_decreases:
  assumes "pstep worker s s'" and inv: "parallel_inv worker deps build_files loaded s" and w: "answers worker deps"
    and fin: "finite (reached deps build_files)"
  shows "parallel_measure (reached deps build_files) s' < parallel_measure (reached deps build_files) s"
  using assms(1)
proof (cases rule: pstep.cases)
  case (submit_job p f)
  then have "length (butlast (dependencies (parallel s))) + 1 = length (dependencies (parallel s))" by simp
  moreover have "4 * (x::nat) + 5 * n + 4 < 4 * x + 5 * m" if "n + 1 = m" for x n m using that by simp
  ultimately show ?thesis using submit_job by (auto simp: parallel_measure_def submit_def simp del: length_butlast)
next
  case (job_done f result)
  let ?R = "reached deps build_files" and ?p = "parallel s"
  have "parallel_inv worker deps build_files loaded s'" using parallel_inv_step [OF assms(1) inv w] .
  then have sub: "set (scheduled (LoadTargetBuildFileCallback result ?p)) \<subseteq> ?R"
    using job_done(1) unfolding parallel_inv_def Let_def by simp
  have dist: "distinct (scheduled ?p)" using inv unfolding parallel_inv_def Let_def by blast
  have "card (?R - set (scheduled (LoadTargetBuildFileCallback result ?p))) + length (dependencies (LoadTargetBuildFileCallback result ?p))
      = card (?R - set (scheduled ?p)) + length (dependencies ?p)"
  proof (cases result)
    case (Some r)
    obtain a x y ds where r: "r = (a, x, y, ds)" by (cases r)
    show ?thesis
      using callback_measure [OF fin, of "?p\<lparr>target_build_files := List.insert a (target_build_files ?p),
          data := update_all x (data ?p), aux_data := update_all y (aux_data ?p)\<rparr>" ds] dist sub
      by (simp add: Some r LoadTargetBuildFileCallback_def Let_def)
  qed (simp add: LoadTargetBuildFileCallback_def)
  moreover have "size (jobs s) = Suc (size (jobs s - {#f#}))" using size_Suc_Diff1 [OF job_done(3)] by simp
  ultimately show ?thesis using job_done(1,2) by (auto simp: parallel_measure_def main_rank_def)
qed (auto simp: parallel_measure_def main_rank_def)

lemma parallel_progress:
  assumes inv: "parallel_inv worker deps build_files loaded s" and w: "answers worker deps"
    and "\<nexists>r. main s = Finished r"
  shows "\<exists>s'. pstep worker s s'"
proof (cases "main s")
  case Looping
  show ?thesis
  proof (cases "\<not> busy (parallel s) \<or> error (parallel s)")
    case False
    then show ?thesis
      using Looping submit_job [of s] wait_for_job [of s] by (cases "submit (parallel s)") blast
  qed (use Looping leave_loop in blast)
next
  case Waiting
  then have "jobs s \<noteq> {#}" using inv unfolding parallel_inv_def Let_def by blast
  then obtain f where "f \<in># jobs s" by blast
  moreover obtain r where "worker f r" using w unfolding answers_def by blast
  ultimately show ?thesis using Waiting job_done [of s f worker r] by blast
next
  case Notified
  then show ?thesis using wake_up by blast
next
  case Joining
  show ?thesis
  proof (cases "jobs s = {#}")
    case False
    then obtain f where "f \<in># jobs s" by blast
    moreover obtain r where "worker f r" using w unfolding answers_def by blast
    ultimately show ?thesis using Joining job_done [of s f worker r] by blast
  qed (use Joining join_pool in blast)
qed (use assms(3) in blast)

text \<open>
  C11: Loading in parallel, for workers that answer every job with \<open>None\<close> or with the file and its
  dependencies: no run goes on for ever, a run can stop only when the main thread has finished (no
  deadlock), and then either the loaded files are the ones loaded before and exactly those reached
  from the build files, or the program ends with status 1 and some worker has failed. The files
  that can be reached must be finitely many, and there must be one to load.
\<close>

theorem LoadTargetBuildFilesParallel_ends:
  fixes d aux :: "(string \<times> pydict) list" and loaded :: "string list"
  assumes "answers worker deps" and "finite (reached deps build_files)" and "build_files \<noteq> []"
  defines "start \<equiv> start_parallel build_files loaded d aux"
  shows "(\<nexists>run. run 0 = start \<and> (\<forall>i. pstep worker (run i) (run (Suc i))))
    \<and> (\<forall>s. (pstep worker)\<^sup>*\<^sup>* start s \<longrightarrow> (\<exists>r. main s = Finished r) \<or> (\<exists>s'. pstep worker s s'))
    \<and> (\<forall>s r. (pstep worker)\<^sup>*\<^sup>* start s \<longrightarrow> main s = Finished r \<longrightarrow>
         r = Inr () \<and> set (target_build_files (parallel s)) = set loaded \<union> reached deps build_files
         \<or> r = Inl (SysExit 1) \<and> (\<exists>f\<in>reached deps build_files. worker f None))"
proof -
  let ?R = "reached deps build_files"
  have inv: "parallel_inv worker deps build_files loaded s" if "(pstep worker)\<^sup>*\<^sup>* start s" for s
    using parallel_inv_reachable [OF that [unfolded start_def] assms(1)] .
  have "False" if run: "run 0 = start" "\<And>i. pstep worker (run i) (run (Suc i))" for run
  proof -
    have reach: "(pstep worker)\<^sup>*\<^sup>* start (run i)" for i
      by (induction i) (use run in \<open>auto intro: rtranclp.rtrancl_into_rtrancl\<close>)
    have "parallel_measure ?R (run (Suc i)) < parallel_measure ?R (run i)" for i
      using pstep_decreases [OF run(2) inv [OF reach] assms(1,2)] .
    then show False
      using wf_no_infinite_down_chainE [OF wf_less, of "\<lambda>i. parallel_measure ?R (run i)"] by blast
  qed
  moreover have "r = Inr () \<and> set (target_build_files (parallel s)) = set loaded \<union> ?R
      \<or> r = Inl (SysExit 1) \<and> (\<exists>f\<in>?R. worker f None)"
    if s: "(pstep worker)\<^sup>*\<^sup>* start s" "main s = Finished r" for s r
  proof -
    let ?p = "parallel s"
    note i = inv [OF s(1), unfolded parallel_inv_def Let_def]
    have r: "r = parallel_result ?p" "error ?p \<or> dependencies ?p = [] \<and> jobs s = {#}" using i s(2) by blast+
    then have pl: "pool ?p" using i assms(3) by metis
    show ?thesis
    proof (cases "error ?p")
      case True
      then show ?thesis using r(1) pl i by (auto simp: parallel_result_def)
    next
      case False
      then have d: "dependencies ?p = []" "jobs s = {#}" using r(2) by auto
      then have c: "\<forall>f\<in>set (scheduled ?p). f \<in> set (target_build_files ?p) \<and> deps f \<subseteq> set (scheduled ?p)"
        using i False by auto
      then have "?R \<subseteq> set (scheduled ?p)" using i by (intro reached_least) blast+
      then have "set (target_build_files ?p) = set loaded \<union> ?R" using i c by blast
      then show ?thesis using r(1) pl False by (simp add: parallel_result_def)
    qed
  qed
  ultimately show ?thesis using parallel_progress [OF inv assms(1)] by blast
qed

theorem LoadTargetBuildFilesParallel_ends_witness:
  "\<nexists>run. run 0 = start_parallel [''a.gyp''] [] [] []
    \<and> (\<forall>i. pstep (\<lambda>f r. r = Some (f, [], [], if f = ''a.gyp'' then [''b.gyp''] else [])) (run i) (run (Suc i)))"
proof -
  let ?w = "\<lambda>f r. r = Some (f, [], [], if f = ''a.gyp'' then [''b.gyp''] else [])"
  let ?deps = "\<lambda>f. if f = ''a.gyp'' then {''b.gyp''} else {}"
  have "answers ?w ?deps" by (auto simp: answers_def)
  moreover have "reached ?deps [''a.gyp''] \<subseteq> {''a.gyp'', ''b.gyp''}" by (rule reached_least) auto
  then have "finite (reached ?deps [''a.gyp''])" by (rule finite_subset) simp
  ultimately show ?thesis
    using LoadTargetBuildFilesParallel_ends [of ?w ?deps "[''a.gyp'']" "[]" "[]" "[]"] by blast
qed

end
