(* ===== verification/ReleaseScripts.thy ===== *)
theory ReleaseScripts
  imports PyVal "HOL-Library.Sublist"
begin

text \<open>
  The scripts that package a build: \<open>release.py\<close> and \<open>install.py\<close>, and the commands and copies of
  \<open>gen.py\<close>. They run on Windows: paths are joined with a backslash. The file system is a record of
  files and directories, paths being compared as strings; what \<open>os.system\<close> does to it is an
  argument, as is the directory of the script. Printed lines are left out.
\<close>

section \<open>Paths and the file system\<close>

definition is_sep :: "char \<Rightarrow> bool" where
  "is_sep c \<longleftrightarrow> c = CHR 0x5C \<or> c = CHR ''/''"

definition as_dir :: "string \<Rightarrow> string" where
  "as_dir a = (if a = [] \<or> is_sep (last a) then a else a @ [CHR 0x5C])"

text \<open>\<open>os.path.join(a, b)\<close> for a relative \<open>b\<close>; every second argument here is relative.\<close>

definition nt_join :: "string \<Rightarrow> string \<Rightarrow> string" where
  "nt_join a b = as_dir a @ b"

text \<open>A relative path written with backslashes in the source, given by its parts.\<close>

abbreviation bpath :: "string list \<Rightarrow> string" where
  "bpath parts \<equiv> join_with [CHR 0x5C] parts"

definition nt_parent :: "string \<Rightarrow> string" where
  "nt_parent p = rev (tl (dropWhile (\<lambda>c. \<not> is_sep c) (rev p)))"

record fs =
  files :: "(string \<times> string) list"
  dirs :: "string list"

definition isdir :: "string \<Rightarrow> fs \<Rightarrow> bool" where
  "isdir p s \<longleftrightarrow> p \<in> set (dirs s)"

definition isfile :: "string \<Rightarrow> fs \<Rightarrow> bool" where
  "isfile p s \<longleftrightarrow> map_of (files s) p \<noteq> None"

text \<open>\<open>shutil.copyfile\<close> reads the source and writes the destination in an existing directory.\<close>

definition copyfile :: "string \<times> string \<Rightarrow> fs \<Rightarrow> fs res" where
  "copyfile p s =
     (case p of (src, dst) \<Rightarrow>
        if src = dst then Inl (PlainExc ''same file'')
        else case map_of (files s) src of
          None \<Rightarrow> Inl (IOErr src)
        | Some content \<Rightarrow>
            if isdir dst s \<or> \<not> isdir (nt_parent dst) s then Inl (IOErr dst)
            else Inr (s\<lparr>files := AList.update dst content (files s)\<rparr>))"

definition copy_all :: "(string \<times> string) list \<Rightarrow> fs \<Rightarrow> fs res" where
  "copy_all ps s = efold (\<lambda>s p. copyfile p s) s ps"

text \<open>The directories above a path, the path last.\<close>

fun ancestors :: "string \<Rightarrow> string \<Rightarrow> string list" where
  "ancestors p [] = [p]"
| "ancestors p (c # cs) = (if is_sep c \<and> p \<noteq> [] then p # ancestors (p @ [c]) cs else ancestors (p @ [c]) cs)"

text \<open>\<open>os.makedirs\<close> makes a directory that does not exist and those above it.\<close>

definition makedirs :: "string \<Rightarrow> fs \<Rightarrow> fs res" where
  "makedirs p s =
     (if isdir p s \<or> isfile p s then Inl (IOErr p)
      else Inr (s\<lparr>dirs := foldl (\<lambda>ds d. if d \<in> set ds then ds else ds @ [d]) (dirs s) (ancestors [] p)\<rparr>))"

text \<open>The names of a list copied from one directory to another.\<close>

definition between_dirs :: "string \<Rightarrow> string \<Rightarrow> (string \<times> string) list \<Rightarrow> (string \<times> string) list" where
  "between_dirs src_dir dest_dir names = map (\<lambda>(a, b). (nt_join src_dir a, nt_join dest_dir b)) names"

definition same_names :: "string list \<Rightarrow> (string \<times> string) list" where
  "same_names names = map (\<lambda>n. (n, n)) names"

section \<open>release.py\<close>

definition configs :: "string list" where
  "configs = [''Release'', ''Release_x64'']"

text \<open>Removing the old directory with a command of the shell.\<close>

definition remove_old :: "(string \<Rightarrow> fs \<Rightarrow> fs) \<Rightarrow> string \<Rightarrow> fs \<Rightarrow> fs" where
  "remove_old system d s = (if isdir d s then system (''rmdir /S /Q '' @ d) s else s)"

definition web_files :: "(string \<times> string) list" where
  "web_files =
     [(bpath [''web'', ''Chart.bundle.js''], ''Chart.bundle.js''),
      (bpath [''web'', ''index.html''], ''index.html''),
      (bpath [''web'', ''jquery.min.js''], ''jquery.min.js''),
      (''main.cc'', ''main.cc''), (''dpe.h'', ''dpe.h'')]"

definition release_output :: "string \<Rightarrow> string" where
  "release_output solution = nt_join solution (bpath [''release'', ''dpe''])"

text \<open>The copies for one configuration.\<close>

definition release_dpe_files :: "string \<Rightarrow> string \<Rightarrow> (string \<times> string) list" where
  "release_dpe_files solution dir =
     (let src_dir = nt_join solution (bpath [''output'', dir]);
          dest_dir = nt_join (release_output solution) dir in
      between_dirs src_dir dest_dir (same_names [''msvcr120.dll'', ''msvcp120.dll'', ''zmq.dll'', ''dpe.dll''])
      @ between_dirs (nt_join solution ''dpe'') dest_dir web_files)"

definition release_dpe_config :: "string \<Rightarrow> fs \<Rightarrow> string \<Rightarrow> fs res" where
  "release_dpe_config solution s dir =
     ebind (makedirs (nt_join (release_output solution) dir) s) (copy_all (release_dpe_files solution dir))"

definition release_dpe_readmes :: "string \<Rightarrow> (string \<times> string) list" where
  "release_dpe_readmes solution =
     between_dirs (nt_join solution ''dpe'') (release_output solution) (same_names [''README.md'', ''README_cn.md''])"

definition release_dpe :: "(string \<Rightarrow> fs \<Rightarrow> fs) \<Rightarrow> string \<Rightarrow> fs \<Rightarrow> fs res" where
  "release_dpe system solution s =
     ebind (makedirs (release_output solution) (remove_old system (release_output solution) s)) (\<lambda>s.
     ebind (efold (release_dpe_config solution) s configs) (copy_all (release_dpe_readmes solution)))"

definition rs_output :: "string \<Rightarrow> string" where
  "rs_output solution = nt_join solution (bpath [''release'', ''dcfpe''])"

definition release_rs_files :: "string \<Rightarrow> string \<Rightarrow> (string \<times> string) list" where
  "release_rs_files solution dir =
     (let src_dir = nt_join solution (bpath [''output'', dir]);
          dest_dir = nt_join (rs_output solution) (bpath [''rs'', dir]) in
      between_dirs src_dir dest_dir (same_names [''msvcr120.dll'', ''msvcp120.dll'', ''zmq.dll'', ''rs.exe''])
      @ between_dirs (nt_join solution ''remote_shell'') dest_dir
          (same_names [''deploy_demo.txt'', ''deploy_demo_README.txt'']))"

definition release_pm_files :: "string \<Rightarrow> string \<Rightarrow> (string \<times> string) list" where
  "release_pm_files solution dir =
     (let src_dir = nt_join solution (bpath [''output'', dir]);
          dest_dir = nt_join (rs_output solution) (bpath [''dpe'', dir]) in
      between_dirs src_dir dest_dir (same_names [''msvcr120.dll'', ''msvcp120.dll'', ''zmq.dll'', ''dpe.dll'', ''pm.exe''])
      @ between_dirs (nt_join solution ''dpe'') dest_dir web_files)"

definition release_dcfpe_config :: "string \<Rightarrow> fs \<Rightarrow> string \<Rightarrow> fs res" where
  "release_dcfpe_config solution s dir =
     ebind (makedirs (nt_join (rs_output solution) (bpath [''rs'', dir])) s) (\<lambda>s.
     ebind (copy_all (release_rs_files solution dir) s) (\<lambda>s.
     ebind (makedirs (nt_join (rs_output solution) (bpath [''dpe'', dir])) s)
       (copy_all (release_pm_files solution dir))))"

definition release_dcfpe_readmes :: "string \<Rightarrow> (string \<times> string) list" where
  "release_dcfpe_readmes solution =
     between_dirs (nt_join solution ''dpe'') (nt_join (rs_output solution) ''dpe'') (same_names [''README.md'', ''README_cn.txt''])
     @ between_dirs (nt_join solution ''remote_shell'') (nt_join (rs_output solution) ''rs'') (same_names [''README.md''])
     @ [(nt_join solution ''../README.md'', nt_join (rs_output solution) ''README.md'')]"

definition release_dcfpe :: "(string \<Rightarrow> fs \<Rightarrow> fs) \<Rightarrow> string \<Rightarrow> fs \<Rightarrow> fs res" where
  "release_dcfpe system solution s =
     ebind (makedirs (rs_output solution) (remove_old system (rs_output solution) s)) (\<lambda>s.
     ebind (efold (release_dcfpe_config solution) s configs) (copy_all (release_dcfpe_readmes solution)))"

text \<open>The name called for the target \<open>dcfpe\<close> is misspelt, so it is not defined.\<close>

definition release_target :: "(string \<Rightarrow> fs \<Rightarrow> fs) \<Rightarrow> string \<Rightarrow> fs \<Rightarrow> string \<Rightarrow> fs res" where
  "release_target system solution s target =
     (if target = ''dpe'' then release_dpe system solution s
      else if target = ''dcfpe'' then Inl (NameErr ''releaes_dcfpe'')
      else Inr s)"

definition release_main :: "(string \<Rightarrow> fs \<Rightarrow> fs) \<Rightarrow> string \<Rightarrow> string list \<Rightarrow> fs \<Rightarrow> fs res" where
  "release_main system solution argv s =
     efold (release_target system solution) s (if 2 \<le> length argv then tl argv else [''dpe''])"

section \<open>install.py\<close>

definition install_files :: "string \<Rightarrow> string \<Rightarrow> (string \<times> string) list" where
  "install_files solution dest_dir =
     between_dirs (nt_join solution (bpath [''output'', ''Release_x64''])) dest_dir (same_names [''zmq.dll'', ''dpe.dll''])
     @ between_dirs (nt_join solution ''dpe'') dest_dir
         [(bpath [''web'', ''Chart.bundle.js''], ''Chart.bundle.js''), (bpath [''web'', ''index.html''], ''index.html''),
          (bpath [''web'', ''jquery.min.js''], ''jquery.min.js''), (''main.cc'', ''main.cc'')]"

definition install_main :: "(string \<Rightarrow> fs \<Rightarrow> fs) \<Rightarrow> string \<Rightarrow> string \<Rightarrow> fs \<Rightarrow> fs res" where
  "install_main system solution homedir s =
     (if homedir = [] then Inl (SysExit (-1))
      else
        let dest_dir = nt_join homedir (bpath [''usr'', ''bin'', ''dpe'']) in
        ebind (makedirs dest_dir (remove_old system dest_dir s)) (\<lambda>s.
        ebind (copy_all (install_files solution dest_dir) s)
          (copyfile (nt_join (nt_join solution ''dpe'') ''dpe.h'', nt_join (nt_join homedir (bpath [''usr'', ''include''])) ''dpe.h''))))"

section \<open>gen.py\<close>

text \<open>The command that runs the protocol buffer compiler on one file.\<close>

definition protoc_command :: "string \<Rightarrow> string list \<Rightarrow> string \<Rightarrow> string" where
  "protoc_command solution proto_dir proto_file =
     (let include1 = nt_join solution (bpath [''third_party'', ''protobuf-3.3.1'', ''src'']);
          include2 = nt_join solution (bpath proto_dir);
          file = nt_join solution (bpath (proto_dir @ [proto_file])) in
      bpath [''tools'', ''protoc-3.3.0-win32'', ''bin'', ''protoc.exe''] @ '' --proto_path='' @ include1
        @ '' --proto_path='' @ include2 @ '' '' @ file @ '' --cpp_out='' @ include2)"

definition build_dependencies :: "(string \<Rightarrow> fs \<Rightarrow> fs) \<Rightarrow> string \<Rightarrow> fs \<Rightarrow> fs" where
  "build_dependencies system solution s =
     foldl (\<lambda>s c. system c s) s
       [protoc_command solution [''dpe'', ''proto''] ''dpe.proto'',
        protoc_command solution [''remote_shell'', ''proto''] ''rs.proto'',
        protoc_command solution [''remote_shell'', ''proto''] ''deploy.proto'']"

definition gyp_args :: "string \<Rightarrow> string \<Rightarrow> string \<Rightarrow> string list" where
  "gyp_args solution build_dir component =
     [''build/dcfpe.gyp'', ''--depth=.'', ''--no-circular-check'', ''-G'', ''output_dir='' @ build_dir,
      ''-D'', ''component='' @ component, ''-D'', ''build_dir='' @ build_dir,
      ''-I'' @ nt_join solution ''build/common.gypi'']"

definition copy_file_if_necessary :: "string \<times> string \<Rightarrow> fs \<Rightarrow> fs res" where
  "copy_file_if_necessary p s = (if isfile (snd p) s then Inr s else copyfile p s)"

definition ensure_dir :: "string \<Rightarrow> fs \<Rightarrow> fs res" where
  "ensure_dir p s = (if isdir p s \<or> isfile p s then Inr s else makedirs p s)"

definition web_copies :: "string \<Rightarrow> string \<Rightarrow> string \<Rightarrow> (string \<times> string) list" where
  "web_copies src_dir release_dir debug_dir =
     concat (map (\<lambda>n. [(nt_join src_dir n, nt_join release_dir n), (nt_join src_dir n, nt_join debug_dir n)])
       [''index.html'', ''Chart.bundle.js'', ''jquery.min.js''])"

text \<open>The run-time libraries and the web files of one platform.\<close>

definition copy_resources :: "string \<Rightarrow> string \<Rightarrow> fs \<Rightarrow> string \<Rightarrow> fs res" where
  "copy_resources solution dest_dir s sfx =
     (let debug_dir = nt_join dest_dir (''Debug'' @ sfx); release_dir = nt_join dest_dir (''Release'' @ sfx);
          crt = nt_join solution (''third_party/vc/crt'' @ sfx) in
      ebind (ensure_dir debug_dir s) (\<lambda>s.
      ebind (ensure_dir release_dir s) (\<lambda>s.
      ebind (efold (\<lambda>s p. copy_file_if_necessary p s) s
               (between_dirs crt debug_dir (same_names [''msvcr120d.dll'', ''msvcp120d.dll''])
                @ between_dirs crt release_dir (same_names [''msvcr120.dll'', ''msvcp120.dll'']))) (\<lambda>s.
        copy_all (web_copies (nt_join solution ''dpe/web'') release_dir debug_dir) s))))"

text \<open>\<open>gyp.main\<close>, which writes the project and returns an exit status, is an argument.\<close>

definition build_dcfpe :: "(string list \<Rightarrow> fs \<Rightarrow> fs \<times> int) \<Rightarrow> string \<Rightarrow> string \<Rightarrow> string \<Rightarrow> fs \<Rightarrow> (fs \<times> int) res" where
  "build_dcfpe gyp_main solution build_dir component s =
     (case gyp_main (gyp_args solution build_dir component) s of
        (s, ret) \<Rightarrow>
          ebind (efold (copy_resources solution (nt_join solution build_dir)) s [[], ''_x64'']) (\<lambda>s. Inr (s, ret)))"

section \<open>Copying\<close>

text \<open>What a list of copies does: each destination gets its source's content, nothing else changes.\<close>

definition copied :: "(string \<times> string) list \<Rightarrow> fs \<Rightarrow> fs \<Rightarrow> bool" where
  "copied ps s s' \<longleftrightarrow>
     (\<forall>(a, b)\<in>set ps. map_of (files s) a \<noteq> None \<and> map_of (files s') b = map_of (files s) a)
     \<and> (\<forall>f. f \<notin> snd ` set ps \<longrightarrow> map_of (files s') f = map_of (files s) f)"

definition separate :: "(string \<times> string) list \<Rightarrow> bool" where
  "separate ps \<longleftrightarrow> distinct (map snd ps) \<and> fst ` set ps \<inter> snd ` set ps = {}"

lemma copied_append:
  assumes "copied ps s s1" and "copied qs s1 s2" and "separate (ps @ qs)"
  shows "copied (ps @ qs) s s2"
proof -
  have "map_of (files s) a \<noteq> None \<and> map_of (files s2) b = map_of (files s) a" if ab: "(a, b) \<in> set (ps @ qs)" for a b
  proof (cases "(a, b) \<in> set ps")
    case True
    have "b \<in> snd ` set ps" using True by force
    then have "b \<notin> snd ` set qs" using assms(3) by (auto simp: separate_def)
    then show ?thesis using True assms(1,2) by (auto simp: copied_def)
  next
    case False
    then have q: "(a, b) \<in> set qs" using ab by simp
    then have "a \<in> fst ` set (ps @ qs)" by force
    then have "a \<notin> snd ` set ps" using assms(3) by (auto simp: separate_def)
    then have "map_of (files s1) a = map_of (files s) a" using assms(1) by (simp add: copied_def)
    moreover have "map_of (files s1) a \<noteq> None \<and> map_of (files s2) b = map_of (files s1) a"
      using q assms(2) unfolding copied_def by blast
    ultimately show ?thesis by simp
  qed
  moreover have "map_of (files s2) f = map_of (files s) f" if "f \<notin> snd ` set (ps @ qs)" for f
    using that assms(1,2) by (simp add: copied_def image_Un)
  ultimately show ?thesis unfolding copied_def by blast
qed

lemma copied_dirs: "files s' = files s \<Longrightarrow> copied [] s s'"
  by (simp add: copied_def)

lemma copy_all_ok:
  assumes "\<forall>(a, b)\<in>set ps. isfile a s \<and> \<not> isdir b s \<and> isdir (nt_parent b) s" and "separate ps"
  shows "\<exists>s'. copy_all ps s = Inr s' \<and> dirs s' = dirs s \<and> copied ps s s'"
  using assms
proof (induction ps arbitrary: s)
  case (Cons p ps)
  obtain a b where p: "p = (a, b)" by (cases p)
  have ne: "a \<noteq> b" using Cons.prems(2) p by (auto simp: separate_def)
  obtain c where c: "map_of (files s) a = Some c" using Cons.prems(1) p by (auto simp: isfile_def)
  let ?s = "s\<lparr>files := AList.update b c (files s)\<rparr>"
  have step: "copyfile p s = Inr ?s" using Cons.prems(1) ne c p by (simp add: copyfile_def)
  have one: "copied [p] s ?s" using c ne p by (simp add: copied_def update_conv)
  have sep: "separate ps" using Cons.prems(2) by (auto simp: separate_def)
  have "\<forall>(a, b)\<in>set ps. isfile a ?s \<and> \<not> isdir b ?s \<and> isdir (nt_parent b) ?s"
    using Cons.prems(1) by (auto simp: isfile_def isdir_def update_conv)
  from Cons.IH [OF this sep] obtain s' where s': "copy_all ps ?s = Inr s'" "dirs s' = dirs ?s" "copied ps ?s s'" by blast
  have "copied (p # ps) s s'" using copied_append [OF one s'(3)] Cons.prems(2) by simp
  then show ?case using step s'(1,2) by (simp add: copy_all_def)
qed (simp add: copy_all_def copied_def)

lemma ancestors_prefix: "x \<in> set (ancestors q r) \<Longrightarrow> prefix x (q @ r)"
  by (induction q r rule: ancestors.induct) (fastforce split: if_splits)+

lemma ancestors_self: "q @ r \<in> set (ancestors q r)"
  by (induction q r rule: ancestors.induct) auto

lemma makedirs_ok:
  assumes "\<not> isdir p s" and "\<not> isfile p s"
  shows "\<exists>s'. makedirs p s = Inr s' \<and> files s' = files s \<and> isdir p s' \<and> (\<forall>d. isdir d s \<longrightarrow> isdir d s')
    \<and> (\<forall>d. isdir d s' \<longrightarrow> isdir d s \<or> prefix d p)"
proof -
  have "set (foldl (\<lambda>ds d. if d \<in> set ds then ds else ds @ [d]) ds as) = set ds \<union> set as" for ds as :: "string list"
    by (induction as arbitrary: ds) auto
  then show ?thesis
    using assms ancestors_self [of "[]" p] ancestors_prefix [of _ "[]" p] by (auto simp: makedirs_def isdir_def)
qed

lemma nt_parent_file: "\<forall>c\<in>set n. \<not> is_sep c \<Longrightarrow> nt_parent (d @ CHR 0x5C # n) = d"
proof -
  assume "\<forall>c\<in>set n. \<not> is_sep c"
  then have "dropWhile (\<lambda>c. \<not> is_sep c) (rev n @ CHR 0x5C # rev d) = CHR 0x5C # rev d"
    by (subst dropWhile_append2) (auto simp: is_sep_def)
  then show "nt_parent (d @ CHR 0x5C # n) = d" by (simp add: nt_parent_def)
qed

text \<open>A directory that is made and filled, from a state in which the output had been removed.\<close>

lemma fill_directory:
  assumes clean: "\<forall>p. isdir p s1 \<or> isfile p s1 \<longrightarrow> \<not> prefix out p"
    and t: "copied P s1 t" "\<forall>d. isdir d t \<longrightarrow> isdir d s1 \<or> (\<exists>r\<in>R. prefix d r)"
    and D: "prefix out D" "\<forall>r\<in>R. \<not> prefix D r" "D \<notin> snd ` set P"
    and ps: "\<forall>(a, b)\<in>set ps. isfile a s1 \<and> nt_parent b = D \<and> strict_prefix D b" and sep: "separate (P @ ps)"
  shows "\<exists>t'. ebind (makedirs D t) (copy_all ps) = Inr t' \<and> copied (P @ ps) s1 t'
    \<and> (\<forall>d. isdir d t' \<longrightarrow> isdir d s1 \<or> (\<exists>r\<in>insert D R. prefix d r)) \<and> (\<forall>d. isdir d t \<or> d = D \<longrightarrow> isdir d t')"
proof -
  have "\<not> isdir D t" using t(2) D(1,2) clean by blast
  moreover have "\<not> isfile D t" using t(1) D(1,3) clean by (auto simp: isfile_def copied_def)
  ultimately obtain u where u: "makedirs D t = Inr u" "files u = files t" "isdir D u" "\<forall>d. isdir d t \<longrightarrow> isdir d u"
    "\<forall>d. isdir d u \<longrightarrow> isdir d t \<or> prefix d D" using makedirs_ok by blast
  have "isfile a u \<and> \<not> isdir b u \<and> isdir (nt_parent b) u" if ab: "(a, b) \<in> set ps" for a b
  proof -
    have p: "isfile a s1" "nt_parent b = D" "strict_prefix D b" using ps ab by blast+
    have "a \<in> fst ` set (P @ ps)" using ab by force
    then have "a \<notin> snd ` set P" using sep by (auto simp: separate_def)
    then have "isfile a u" using p(1) t(1) u(2) by (simp add: isfile_def copied_def)
    moreover have "\<not> isdir b u"
    proof
      assume "isdir b u"
      then have "isdir b s1 \<or> (\<exists>r\<in>R. prefix b r) \<or> prefix b D" using u(5) t(2) by blast
      moreover have "prefix out b" using D(1) p(3) by (meson prefix_order.less_imp_le prefix_order.trans)
      moreover have "\<not> prefix b D" using p(3) by (simp add: prefix_order.less_le_not_le)
      moreover have "\<not> prefix b r" if "r \<in> R" for r
        using D(2) that p(3) by (meson prefix_order.less_imp_le prefix_order.trans)
      ultimately show False using clean by blast
    qed
    ultimately show ?thesis using p(2) u(3) by simp
  qed
  moreover have "separate ps" using sep by (auto simp: separate_def)
  ultimately obtain t' where t': "copy_all ps u = Inr t'" "dirs t' = dirs u" "copied ps u t'"
    using copy_all_ok [of ps u] by blast
  have "copied (P @ []) s1 u"
    by (rule copied_append [OF t(1) copied_dirs [OF u(2)]]) (use sep in \<open>auto simp: separate_def\<close>)
  then have "copied (P @ ps) s1 t'" using copied_append [OF _ t'(3) sep] by simp
  moreover have "isdir d t' = isdir d u" for d using t'(2) by (simp add: isdir_def)
  ultimately show ?thesis using u(1,3-5) t'(1) t(2) by (intro exI [of _ t']) auto
qed

section \<open>The release directory\<close>

text \<open>
  The package written out: the libraries, the web files and the headers in each configuration, the
  two README files beside them.
\<close>

definition release_list :: "string \<Rightarrow> (string \<times> string) list" where
  "release_list solution =
     (let b = as_dir solution; o1 = b @ bpath [''release'', ''dpe''];
          libs = [''msvcr120.dll'', ''msvcp120.dll'', ''zmq.dll'', ''dpe.dll''];
          web = [''Chart.bundle.js'', ''index.html'', ''jquery.min.js''];
          sources = [''main.cc'', ''dpe.h''];
          for_config = (\<lambda>c. map (\<lambda>n. (b @ bpath [''output'', c, n], bpath [o1, c, n])) libs
            @ map (\<lambda>n. (b @ bpath [''dpe'', ''web'', n], bpath [o1, c, n])) web
            @ map (\<lambda>n. (b @ bpath [''dpe'', n], bpath [o1, c, n])) sources) in
      for_config ''Release'' @ for_config ''Release_x64''
      @ map (\<lambda>n. (b @ bpath [''dpe'', n], bpath [o1, n])) [''README.md'', ''README_cn.md''])"

lemma as_dir_app: "b \<noteq> [] \<Longrightarrow> \<not> is_sep (last b) \<Longrightarrow> as_dir (a @ b) = a @ b @ [CHR 0x5C]"
  by (simp add: as_dir_def)

lemmas release_paths = release_output_def release_dpe_files_def release_dpe_readmes_def between_dirs_def
  same_names_def web_files_def nt_join_def as_dir_app is_sep_def

lemma release_list_code:
  "release_list solution =
     release_dpe_files solution ''Release'' @ release_dpe_files solution ''Release_x64'' @ release_dpe_readmes solution"
  by (simp add: release_list_def release_paths Let_def)

lemma release_separate: "separate (release_list solution)"
  unfolding release_list_def Let_def separate_def by simp

text \<open>Where the copies go.\<close>

definition config_dir :: "string \<Rightarrow> string \<Rightarrow> string" where
  "config_dir solution dir = nt_join (release_output solution) dir"

lemma config_dir_eq: "config_dir solution dir = release_output solution @ CHR 0x5C # dir"
  by (simp add: config_dir_def release_paths)

lemma release_dpe_files_dst:
  assumes "p \<in> set (release_dpe_files solution dir)" and "dir = ''Release'' \<or> dir = ''Release_x64''"
  shows "nt_parent (snd p) = config_dir solution dir \<and> strict_prefix (config_dir solution dir) (snd p)"
proof -
  have j: "nt_join (nt_join (release_output solution) dir) n = config_dir solution dir @ CHR 0x5C # n" for n
    using assms(2) by (auto simp: config_dir_def nt_join_def as_dir_app is_sep_def)
  have "\<exists>n. snd p = config_dir solution dir @ CHR 0x5C # n \<and> (\<forall>c\<in>set n. \<not> is_sep c)"
    using assms(1) unfolding release_dpe_files_def Let_def between_dirs_def same_names_def web_files_def j
    by (auto simp: is_sep_def j)
  then show ?thesis using nt_parent_file by (auto simp: strict_prefix_def)
qed

lemma readmes_dst:
  assumes "p \<in> set (release_dpe_readmes solution)"
  shows "nt_parent (snd p) = release_output solution \<and> prefix (release_output solution) (snd p)
    \<and> (\<forall>r\<in>{release_output solution, config_dir solution ''Release'', config_dir solution ''Release_x64''}. \<not> prefix (snd p) r)"
proof -
  have j: "nt_join (release_output solution) n = release_output solution @ CHR 0x5C # n" for n
    by (simp add: release_paths)
  have "\<exists>n\<in>{''README.md'', ''README_cn.md''}. snd p = release_output solution @ CHR 0x5C # n"
    using assms unfolding release_dpe_readmes_def between_dirs_def same_names_def by (auto simp: j)
  then obtain n where n: "n \<in> {''README.md'', ''README_cn.md''}" "snd p = release_output solution @ CHR 0x5C # n" by blast
  have "nt_parent (snd p) = release_output solution" unfolding n(2) by (rule nt_parent_file) (use n(1) in \<open>auto simp: is_sep_def\<close>)
  then show ?thesis using n by (auto simp: config_dir_eq)
qed

text \<open>
  When nothing is left of the old output directory and every file to be packaged exists,
  \<open>release_dpe\<close> succeeds: each file of the package, in both configurations, has the content of the
  file it is made from, and no other file has changed.
\<close>

theorem release_dpe_correct:
  fixes s :: fs and system :: "string \<Rightarrow> fs \<Rightarrow> fs" and solution :: string
  defines "s1 \<equiv> remove_old system (release_output solution) s"
  assumes clean: "\<forall>p. isdir p s1 \<or> isfile p s1 \<longrightarrow> \<not> prefix (release_output solution) p"
    and src: "\<forall>p\<in>set (release_list solution). isfile (fst p) s1"
  shows "\<exists>s'. release_dpe system solution s = Inr s'
    \<and> (\<forall>p\<in>set (release_list solution). map_of (files s') (snd p) = map_of (files s1) (fst p))
    \<and> (\<forall>f. f \<notin> snd ` set (release_list solution) \<longrightarrow> map_of (files s') f = map_of (files s1) f)"
proof -
  let ?out = "release_output solution" and ?c1 = "config_dir solution ''Release''" and ?c2 = "config_dir solution ''Release_x64''"
  let ?f1 = "release_dpe_files solution ''Release''" and ?f2 = "release_dpe_files solution ''Release_x64''"
  let ?rd = "release_dpe_readmes solution"
  have sep: "separate (?f1 @ ?f2 @ ?rd)" using release_separate unfolding release_list_code .
  have sub: "separate (?f1 @ ?f2)" "separate ?f1" "separate ?rd" "separate []"
    using sep by (auto simp: separate_def)
  have src': "isfile (fst p) s1" if "p \<in> set (?f1 @ ?f2 @ ?rd)" for p
    using src that unfolding release_list_code by blast
  have dst1: "\<forall>(a, b)\<in>set ?f1. isfile a s1 \<and> nt_parent b = ?c1 \<and> strict_prefix ?c1 b"
    using src' release_dpe_files_dst [of _ solution "''Release''"] by fastforce
  have dst2: "\<forall>(a, b)\<in>set ?f2. isfile a s1 \<and> nt_parent b = ?c2 \<and> strict_prefix ?c2 b"
    using src' release_dpe_files_dst [of _ solution "''Release_x64''"] by fastforce
  have c2: "?c2 \<notin> snd ` set ?f1" "\<not> prefix ?c2 ?c1"
  proof -
    have "prefix ?c1 b \<longrightarrow> nt_parent b \<noteq> nt_parent ?c2" if "nt_parent b = ?c1" for b
      using that nt_parent_file [of "''Release_x64''" ?out] by (auto simp: config_dir_eq is_sep_def)
    then show "?c2 \<notin> snd ` set ?f1" using dst1 by (fastforce simp: strict_prefix_def)
    show "\<not> prefix ?c2 ?c1" by (simp add: config_dir_eq)
  qed
  have out: "prefix ?out ?c1" "prefix ?out ?c2" "\<not> prefix ?c1 ?out" "\<not> prefix ?c2 ?out"
    by (auto simp: config_dir_eq dest: prefix_length_le)
  obtain t1 where t1: "ebind (makedirs ?out s1) (copy_all []) = Inr t1" "copied ([] @ []) s1 t1"
    "\<forall>d. isdir d t1 \<longrightarrow> isdir d s1 \<or> (\<exists>r\<in>insert ?out {}. prefix d r)" "\<forall>d. isdir d s1 \<or> d = ?out \<longrightarrow> isdir d t1"
    using fill_directory [OF clean, of "[]" s1 "{}" ?out "[]"] sub(4) by (auto simp: copied_def)
  obtain t2 where t2: "ebind (makedirs ?c1 t1) (copy_all ?f1) = Inr t2" "copied ([] @ ?f1) s1 t2"
    "\<forall>d. isdir d t2 \<longrightarrow> isdir d s1 \<or> (\<exists>r\<in>insert ?c1 {?out}. prefix d r)" "\<forall>d. isdir d t1 \<or> d = ?c1 \<longrightarrow> isdir d t2"
    using fill_directory [OF clean, of "[]" t1 "{?out}" ?c1 ?f1] t1(2,3) out dst1 sub(2) by auto
  obtain t3 where t3: "ebind (makedirs ?c2 t2) (copy_all ?f2) = Inr t3" "copied (?f1 @ ?f2) s1 t3"
    "\<forall>d. isdir d t3 \<longrightarrow> isdir d s1 \<or> (\<exists>r\<in>insert ?c2 {?c1, ?out}. prefix d r)" "\<forall>d. isdir d t2 \<or> d = ?c2 \<longrightarrow> isdir d t3"
    using fill_directory [OF clean, of ?f1 t2 "{?c1, ?out}" ?c2 ?f2] t2(2,3) out c2 dst2 sub(1) by auto
  have "isfile a t3 \<and> \<not> isdir b t3 \<and> isdir (nt_parent b) t3" if ab: "(a, b) \<in> set ?rd" for a b
  proof -
    note b = readmes_dst [OF ab, unfolded snd_conv]
    have "a \<in> fst ` set (?f1 @ ?f2 @ ?rd)" using ab by force
    then have "a \<notin> snd ` set (?f1 @ ?f2)" using sep by (auto simp: separate_def)
    then have "isfile a t3" using t3(2) src' [of "(a, b)"] ab by (simp add: copied_def isfile_def)
    moreover have "\<not> isdir b t3" using t3(3) b clean by blast
    ultimately show ?thesis using b t1(4) t2(4) t3(4) by simp
  qed
  then obtain s' where s': "copy_all ?rd t3 = Inr s'" "copied ?rd t3 s'"
    using copy_all_ok [of ?rd t3] sub(3) by blast
  have all: "copied (release_list solution) s1 s'"
    using copied_append [OF t3(2) s'(2)] sep by (simp add: release_list_code)
  have "makedirs ?out s1 = Inr t1" using t1(1) by (cases "makedirs ?out s1") (simp_all add: copy_all_def)
  moreover have "release_dpe_config solution t1 ''Release'' = Inr t2" "release_dpe_config solution t2 ''Release_x64'' = Inr t3"
    using t2(1) t3(1) unfolding release_dpe_config_def config_dir_def by blast+
  ultimately have "release_dpe system solution s = Inr s'"
    using s'(1) by (simp add: release_dpe_def s1_def [symmetric] configs_def)
  then show ?thesis using all unfolding copied_def by fastforce
qed

theorem release_dpe_correct_witness:
  "\<exists>s'. release_dpe (\<lambda>_ s. s) ''S'' \<lparr>files = map (\<lambda>p. (fst p, ''x'')) (release_list ''S''), dirs = []\<rparr> = Inr s'
    \<and> map_of (files s') (nt_join (release_output ''S'') ''README.md'') = Some ''x''"
proof -
  let ?s = "\<lparr>files = map (\<lambda>p. (fst p, ''x'')) (release_list ''S''), dirs = []\<rparr>"
  have s1: "remove_old (\<lambda>_ s. s) (release_output ''S'') ?s = ?s" by (simp add: remove_old_def)
  have out: "\<not> prefix (release_output ''S'') (fst p)" if "p \<in> set (release_list ''S'')" for p
    using that unfolding release_list_def Let_def by (auto simp: release_paths as_dir_def)
  then have clean: "\<forall>p. isdir p ?s \<or> isfile p ?s \<longrightarrow> \<not> prefix (release_output ''S'') p"
    by (auto simp: isdir_def isfile_def dest!: map_of_SomeD)
  have src: "\<forall>p\<in>set (release_list ''S''). isfile (fst p) ?s"
    unfolding isfile_def by (auto simp: map_of_eq_None_iff image_image intro: rev_image_eqI)
  obtain s' where s': "release_dpe (\<lambda>_ s. s) ''S'' ?s = Inr s'"
    "\<forall>p\<in>set (release_list ''S''). map_of (files s') (snd p) = map_of (files ?s) (fst p)"
    using release_dpe_correct [of "\<lambda>_ s. s" "''S''" ?s] clean src unfolding s1 by blast
  let ?p = "(nt_join (nt_join ''S'' ''dpe'') ''README.md'', nt_join (release_output ''S'') ''README.md'')"
  have p: "?p \<in> set (release_list ''S'')"
    by (simp add: release_list_code release_dpe_readmes_def between_dirs_def same_names_def)
  then obtain x where x: "map_of (files ?s) (fst ?p) = Some x" using src unfolding isfile_def by blast
  then have "x = ''x''" by (auto dest: map_of_SomeD)
  then show ?thesis using s'(1) bspec [OF s'(2) p] x by auto
qed

lemma release_dcfpe_undefined: "release_main system solution [script, ''dcfpe''] s = Inl (NameErr ''releaes_dcfpe'')"
  by (simp add: release_main_def release_target_def)

end
