(* ===== verification/Analyzer.thy ===== *)
theory Analyzer
  imports Common
begin

text \<open>
  \<open>gyp/generator/analyzer.py\<close>, first half: which sources a target has, which build files have
  changed, and the graph of the targets that \<open>_GenerateTargets\<close> builds from the target
  dictionaries. Paths are POSIX. A \<open>Target\<close> object is identified by its name, under which the
  dictionary \<open>targets\<close> holds it. Printed lines are left out.
\<close>

section \<open>Paths of the sources\<close>

text \<open>\<open>os.sep\<close> and \<open>os.altsep\<close> are the first arguments.\<close>

definition ToGypPath :: "char \<Rightarrow> char option \<Rightarrow> string \<Rightarrow> string" where
  "ToGypPath sep altsep path =
     (if sep = CHR 0x5C \<and> altsep = Some slash then py_replace [CHR 0x5C] ''/'' path else path)"

abbreviation gyp_path :: "string \<Rightarrow> string" where
  "gyp_path \<equiv> ToGypPath slash None"

lemma gyp_path_id [simp]: "gyp_path path = path"
  by (simp add: ToGypPath_def)

text \<open>The loop of \<open>_ResolveParent\<close>.\<close>

function strip_parents :: "nat \<Rightarrow> string \<Rightarrow> nat \<times> string" where
  "strip_parents depth path =
     (if starts_with path ''../'' then strip_parents (Suc depth) (drop 3 path) else (depth, path))"
  by auto
termination
  by (relation "measure (\<lambda>(_, path). length path)") (auto simp: starts_with_iff)

definition ResolveParent :: "string \<Rightarrow> string list \<Rightarrow> string" where
  "ResolveParent path base_path_components =
     (let (depth, path) = strip_parents 0 path; n = length base_path_components in
      if n < depth then []
      else if depth = n then path
      else join_with ''/'' (take (n - depth) base_path_components) @ ''/'' @ path)"

text \<open>In the top directory the list of components is not empty: it holds one empty name.\<close>

lemma ResolveParent_top: "ResolveParent ''../x.cc'' (split_on slash []) = ''x.cc''"
  by code_simp

text \<open>What the loop of \<open>_AddSources\<close> appends for one source; \<open>None\<close> when the source is ignored.\<close>

definition source_path :: "string \<Rightarrow> string list \<Rightarrow> string \<Rightarrow> string option" where
  "source_path base_path base_path_components source =
     (if source = [] \<or> starts_with source ''!!!'' \<or> starts_with source ''$'' then None
      else
        let source = hd source # py_replace ''//'' ''/'' (tl source) in
        if starts_with source ''../'' then
          let source = ResolveParent source base_path_components in
          if source = [] then None else Some source
        else Some (base_path @ source))"

fun add_source :: "string \<Rightarrow> string list \<Rightarrow> string list \<Rightarrow> pyval \<Rightarrow> string list res" where
  "add_source base_path comps result (PStr s) =
     Inr (case source_path base_path comps s of None \<Rightarrow> result | Some p \<Rightarrow> result @ [p])"
| "add_source base_path comps result (PList []) = Inr result"
| "add_source base_path comps result (PDict []) = Inr result"
| "add_source base_path comps result _ = Inl TypeErr"

definition AddSources :: "pyval \<Rightarrow> string \<Rightarrow> string list \<Rightarrow> string list \<Rightarrow> string list res" where
  "AddSources sources base_path comps result =
     ebind (iter_items sources) (efold (add_source base_path comps) result)"

definition ExtractSourcesFromAction :: "string \<Rightarrow> string list \<Rightarrow> string list \<Rightarrow> pyval \<Rightarrow> string list res" where
  "ExtractSourcesFromAction base_path comps results action =
     ebind (str_in ''inputs'' action) (\<lambda>has.
     if has then ebind (ebind (as_dict action) (\<lambda>d. dindex d ''inputs'')) (\<lambda>inputs. AddSources inputs base_path comps results)
     else Inr results)"

definition ToLocalPath :: "string \<Rightarrow> string \<Rightarrow> string" where
  "ToLocalPath toplevel_dir path =
     (if path = toplevel_dir then []
      else if starts_with path (toplevel_dir @ ''/'') then drop (length toplevel_dir + 1) path
      else path)"

text \<open>An optional section of a target dictionary, and the loop over actions or rules.\<close>

definition with_section :: "pydict \<Rightarrow> string \<Rightarrow> ('s \<Rightarrow> pyval \<Rightarrow> 's res) \<Rightarrow> 's \<Rightarrow> 's res" where
  "with_section d key f s = (case dget d key of None \<Rightarrow> Inr s | Some v \<Rightarrow> f s v)"

definition extract_from_actions :: "string \<Rightarrow> string list \<Rightarrow> string list \<Rightarrow> pyval \<Rightarrow> string list res" where
  "extract_from_actions base_path comps results actions =
     ebind (iter_items actions) (efold (ExtractSourcesFromAction base_path comps) results)"

definition ExtractSources :: "string \<Rightarrow> pydict \<Rightarrow> string \<Rightarrow> string list res" where
  "ExtractSources target target_dict toplevel_dir =
     (let base_path = dirname (ToLocalPath toplevel_dir (gyp_path target));
          comps = split_on slash base_path;
          base_path = (if base_path = [] then [] else base_path @ ''/'') in
      ebind (with_section target_dict ''sources'' (\<lambda>results sources. AddSources sources base_path comps results) []) (\<lambda>results.
      ebind (with_section target_dict ''actions'' (extract_from_actions base_path comps) results) (\<lambda>results.
      with_section target_dict ''rules'' (extract_from_actions base_path comps) results)))"

section \<open>Targets and build files\<close>

datatype match_status = Matches | MatchesByDependency | DoesntMatch | TBD

record target =
  t_deps :: "string list"
  t_match_status :: match_status
  t_back_deps :: "string list"
  t_name :: string
  t_visited :: bool
  t_requires_build :: bool
  t_added_to_compile_targets :: bool
  t_in_roots :: bool
  t_is_executable :: bool

type_synonym target_map = "(string \<times> target) list"

definition new_target :: "string \<Rightarrow> target" where
  "new_target name = \<lparr>t_deps = [], t_match_status = TBD, t_back_deps = [], t_name = name, t_visited = False,
     t_requires_build = False, t_added_to_compile_targets = False, t_in_roots = False, t_is_executable = False\<rparr>"

text \<open>What the analyzer is given: the arguments that its functions pass on unchanged.\<close>

record analysis =
  a_data :: pydict
  a_target_dicts :: "(string \<times> pydict) list"
  a_toplevel_dir :: string
  a_files :: "pyval list"
  a_build_files :: "string list"

definition in_files :: "string \<Rightarrow> pyval list \<Rightarrow> bool" where
  "in_files path files \<longleftrightarrow> PStr path \<in> set files"

fun include_modified :: "string \<Rightarrow> pyval list \<Rightarrow> string \<Rightarrow> pyval list \<Rightarrow> bool res" where
  "include_modified build_file files toplevel_dir [] = Inr False"
| "include_modified build_file files toplevel_dir (f # fs) =
     ebind (as_str f) (\<lambda>include_file.
     if in_files (ToLocalPath toplevel_dir (gyp_path (UnrelativePath include_file build_file))) files then Inr True
     else include_modified build_file files toplevel_dir fs)"

definition WasBuildFileModified :: "string \<Rightarrow> pydict \<Rightarrow> pyval list \<Rightarrow> string \<Rightarrow> bool res" where
  "WasBuildFileModified build_file data files toplevel_dir =
     (if in_files (ToLocalPath toplevel_dir (gyp_path build_file)) files then Inr True
      else
        ebind (ebind (dindex data build_file) as_dict) (\<lambda>d.
        ebind (ebind (dindex d ''included_files'') as_list) (\<lambda>included.
        if length included \<le> 1 then Inr False
        else include_modified build_file files toplevel_dir (tl included))))"

definition GetOrCreateTargetByName :: "target_map \<Rightarrow> string \<Rightarrow> bool \<times> target_map" where
  "GetOrCreateTargetByName targets target_name =
     (if map_of targets target_name \<noteq> None then (False, targets)
      else (True, AList.update target_name (new_target target_name) targets))"

definition DoesTargetTypeRequireBuild :: "pydict \<Rightarrow> bool res" where
  "DoesTargetTypeRequireBuild target_dict =
     ebind (dindex target_dict ''type'') (\<lambda>t.
     Inr (t \<noteq> PStr ''none'' \<or> truth (dget_or target_dict ''actions'' PNone)
          \<or> truth (dget_or target_dict ''rules'' PNone)))"

section \<open>\<open>_GenerateTargets\<close>\<close>

record gen_state =
  g_targets :: target_map
  g_matching :: "string list"
  g_to_visit :: "string list"
  g_in_files :: "(string \<times> bool) list"
  g_roots :: "string list"
  g_file_targets :: "string list"

definition set_add :: "'a \<Rightarrow> 'a list \<Rightarrow> 'a list" where
  "set_add x xs = (if x \<in> set xs then xs else xs @ [x])"

text \<open>The loop over the dependencies of a target.\<close>

definition add_dep :: "string \<Rightarrow> gen_state \<Rightarrow> string \<Rightarrow> gen_state" where
  "add_dep target_name s dep =
     (let (created, ts) = GetOrCreateTargetByName (g_targets s) dep in
      s\<lparr>g_to_visit := g_to_visit s @ [dep],
        g_roots := (if created then g_roots s else removeAll dep (g_roots s)),
        g_targets := AList.map_entry dep (t_back_deps_update (set_add target_name))
          (AList.map_entry target_name (t_deps_update (set_add dep)) ts)\<rparr>)"

text \<open>Whether the build file of a target has changed is remembered.\<close>

definition build_file_modified :: "analysis \<Rightarrow> (string \<times> bool) list \<Rightarrow> string \<Rightarrow> bool res" where
  "build_file_modified a cache build_file =
     (case map_of cache build_file of
        Some b \<Rightarrow> Inr b
      | None \<Rightarrow> WasBuildFileModified build_file (a_data a) (a_files a) (a_toplevel_dir a))"

definition target_matches :: "analysis \<Rightarrow> string \<Rightarrow> pydict \<Rightarrow> bool \<Rightarrow> bool res" where
  "target_matches a target_name target_dict modified =
     (if modified then Inr True
      else ebind (ExtractSources target_name target_dict (a_toplevel_dir a)) (\<lambda>sources.
        Inr (\<exists>source\<in>set sources. in_files source (a_files a))))"

text \<open>The body of the loop for a target that has not been visited.\<close>

definition visit_target :: "analysis \<Rightarrow> gen_state \<Rightarrow> string \<Rightarrow> gen_state res" where
  "visit_target a s n =
     (case map_of (a_target_dicts a) n of
        None \<Rightarrow> Inl (KeyErr n)
      | Some td \<Rightarrow>
          ebind (DoesTargetTypeRequireBuild td) (\<lambda>requires.
          ebind (dindex td ''type'') (\<lambda>type.
          case fst (ParseQualifiedTarget n) of
            None \<Rightarrow> Inl TypeErr
          | Some build_file \<Rightarrow>
              ebind (build_file_modified a (g_in_files s) build_file) (\<lambda>modified.
              ebind (target_matches a n td modified) (\<lambda>matches.
              let s = s\<lparr>g_in_files := AList.update build_file modified (g_in_files s),
                        g_file_targets := (if build_file \<in> set (a_build_files a) then set_add n (g_file_targets s)
                                           else g_file_targets s),
                        g_matching := (if matches then g_matching s @ [n] else g_matching s),
                        g_targets := AList.map_entry n (\<lambda>t. t\<lparr>t_visited := True, t_requires_build := requires,
                            t_is_executable := type = PStr ''executable'',
                            t_match_status := (if matches then Matches else t_match_status t)\<rparr>) (g_targets s)\<rparr> in
              ebind (ebind (iter_items (dget_or td ''dependencies'' (PList []))) (emap as_str)) (\<lambda>deps.
              Inr (foldl (add_dep n) s deps)))))))"

definition is_visited :: "target_map \<Rightarrow> string \<Rightarrow> bool" where
  "is_visited targets n = (case map_of targets n of None \<Rightarrow> False | Some t \<Rightarrow> t_visited t)"

text \<open>Popping the last target of the queue, which is made a root when it is new.\<close>

definition pop_target :: "gen_state \<Rightarrow> bool \<times> string \<times> gen_state" where
  "pop_target s =
     (let n = last (g_to_visit s); (created, ts) = GetOrCreateTargetByName (g_targets s) n in
      (created, n, s\<lparr>g_to_visit := butlast (g_to_visit s), g_targets := ts,
                     g_roots := (if created then set_add n (g_roots s) else g_roots s)\<rparr>))"

partial_function (option) generate_loop :: "analysis \<Rightarrow> gen_state \<Rightarrow> gen_state res option" where
  "generate_loop a s =
     (if g_to_visit s = [] then Some (Inr s)
      else case pop_target s of (created, n, s') \<Rightarrow>
        if \<not> created \<and> is_visited (g_targets s') n then generate_loop a s'
        else case visit_target a s' n of
               Inl e \<Rightarrow> Some (Inl e)
             | Inr s'' \<Rightarrow> generate_loop a s'')"

declare generate_loop.simps [code]

definition GenerateTargets :: "analysis \<Rightarrow> string list
    \<Rightarrow> (target_map \<times> string list \<times> string list) res option" where
  "GenerateTargets a target_list =
     map_option (\<lambda>r. ebind r (\<lambda>s.
         Inr (g_targets s, g_matching s, filter (\<lambda>n. n \<in> set (g_file_targets s)) (g_roots s))))
       (generate_loop a \<lparr>g_targets = [], g_matching = [], g_to_visit = target_list, g_in_files = [],
          g_roots = [], g_file_targets = []\<rparr>)"

section \<open>What is said of one target\<close>

record target_facts =
  i_requires :: bool
  i_executable :: bool
  i_build_file :: string
  i_modified :: bool
  i_matches :: bool
  i_deps :: "string list"

text \<open>The same steps without the state.\<close>

definition target_info :: "analysis \<Rightarrow> string \<Rightarrow> target_facts res" where
  "target_info a n =
     (case map_of (a_target_dicts a) n of
        None \<Rightarrow> Inl (KeyErr n)
      | Some td \<Rightarrow>
          ebind (DoesTargetTypeRequireBuild td) (\<lambda>requires.
          ebind (dindex td ''type'') (\<lambda>type.
          case fst (ParseQualifiedTarget n) of
            None \<Rightarrow> Inl TypeErr
          | Some build_file \<Rightarrow>
              ebind (WasBuildFileModified build_file (a_data a) (a_files a) (a_toplevel_dir a)) (\<lambda>modified.
              ebind (target_matches a n td modified) (\<lambda>matches.
              ebind (ebind (iter_items (dget_or td ''dependencies'' (PList []))) (emap as_str)) (\<lambda>deps.
              Inr \<lparr>i_requires = requires, i_executable = (type = PStr ''executable''), i_build_file = build_file,
                   i_modified = modified, i_matches = matches, i_deps = deps\<rparr>))))))"

lemma target_info_key: "target_info a n = Inr i \<Longrightarrow> n \<in> fst ` set (a_target_dicts a)"
  unfolding target_info_def by (auto split: option.splits dest!: map_of_SomeD intro: rev_image_eqI)

definition mark :: "analysis \<Rightarrow> string \<Rightarrow> target_facts \<Rightarrow> gen_state \<Rightarrow> gen_state" where
  "mark a n i s =
     s\<lparr>g_in_files := AList.update (i_build_file i) (i_modified i) (g_in_files s),
       g_file_targets := (if i_build_file i \<in> set (a_build_files a) then set_add n (g_file_targets s)
                          else g_file_targets s),
       g_matching := (if i_matches i then g_matching s @ [n] else g_matching s),
       g_targets := AList.map_entry n (\<lambda>t. t\<lparr>t_visited := True, t_requires_build := i_requires i,
           t_is_executable := i_executable i,
           t_match_status := (if i_matches i then Matches else t_match_status t)\<rparr>) (g_targets s)\<rparr>"

definition cache_ok :: "analysis \<Rightarrow> (string \<times> bool) list \<Rightarrow> bool" where
  "cache_ok a cache \<longleftrightarrow> (\<forall>f b. map_of cache f = Some b \<longrightarrow>
     WasBuildFileModified f (a_data a) (a_files a) (a_toplevel_dir a) = Inr b)"

lemma visit_target_info:
  assumes "cache_ok a (g_in_files s)"
  shows "visit_target a s n = ebind (target_info a n) (\<lambda>i. Inr (foldl (add_dep n) (mark a n i s) (i_deps i)))"
proof (cases "map_of (a_target_dicts a) n")
  case (Some td)
  have cache: "build_file_modified a (g_in_files s) f = WasBuildFileModified f (a_data a) (a_files a) (a_toplevel_dir a)" for f
    using assms by (auto simp: build_file_modified_def cache_ok_def split: option.splits)
  show ?thesis
    unfolding visit_target_def target_info_def Some option.case cache mark_def Let_def
    by (cases "fst (ParseQualifiedTarget n)") (simp_all add: ebind_assoc)
qed (simp add: visit_target_def target_info_def)

definition deps_of :: "analysis \<Rightarrow> string \<Rightarrow> string list" where
  "deps_of a n = (case target_info a n of Inl _ \<Rightarrow> [] | Inr i \<Rightarrow> i_deps i)"

definition dep_rel :: "analysis \<Rightarrow> (string \<times> string) set" where
  "dep_rel a = {(n, d). d \<in> set (deps_of a n)}"

definition needed :: "analysis \<Rightarrow> string list \<Rightarrow> string set" where
  "needed a target_list = (dep_rel a)\<^sup>* `` set target_list"

lemma needed_start: "set target_list \<subseteq> needed a target_list"
  by (auto simp: needed_def)

lemma needed_deps: "n \<in> needed a target_list \<Longrightarrow> set (deps_of a n) \<subseteq> needed a target_list"
  by (auto simp: needed_def dep_rel_def intro: rtrancl_into_rtrancl)

section \<open>The graph while it is built\<close>

lemma set_set_add [simp]: "set (set_add x xs) = insert x (set xs)"
  by (auto simp: set_add_def)

lemma distinct_set_add [simp]: "distinct (set_add x xs) = distinct xs"
  by (auto simp: set_add_def)

lemma is_visited_iff: "is_visited ts n \<longleftrightarrow> (\<exists>t. map_of ts n = Some t \<and> t_visited t)"
  by (auto simp: is_visited_def split: option.splits)

text \<open>
  The targets and roots of a state in which exactly the dependencies \<open>L\<close> have been linked: the
  two directions agree, a target not yet visited waits in the queue, and the roots are the visited
  targets nothing depends on.
\<close>

definition linked :: "(string \<times> string) set \<Rightarrow> gen_state \<Rightarrow> bool" where
  "linked L s \<longleftrightarrow>
     (\<forall>n t. map_of (g_targets s) n = Some t \<longrightarrow>
        set (t_deps t) = {d. (n, d) \<in> L} \<and> set (t_back_deps t) = {u. (u, n) \<in> L}
        \<and> distinct (t_deps t) \<and> distinct (t_back_deps t)
        \<and> (\<not> t_visited t \<longrightarrow> n \<in> set (g_to_visit s) \<and> (\<exists>u. (u, n) \<in> L)))
     \<and> (\<forall>u d. (u, d) \<in> L \<longrightarrow> is_visited (g_targets s) u \<and> map_of (g_targets s) d \<noteq> None)
     \<and> set (g_roots s) = {n. is_visited (g_targets s) n \<and> (\<forall>u. (u, n) \<notin> L)}
     \<and> distinct (g_roots s) \<and> distinct (map fst (g_targets s))"

lemma linkedD:
  assumes "linked L s"
  shows "map_of (g_targets s) n = Some t \<Longrightarrow> set (t_deps t) = {d. (n, d) \<in> L}"
    and "map_of (g_targets s) n = Some t \<Longrightarrow> set (t_back_deps t) = {u. (u, n) \<in> L}"
    and "map_of (g_targets s) n = Some t \<Longrightarrow> distinct (t_deps t) \<and> distinct (t_back_deps t)"
    and "map_of (g_targets s) n = Some t \<Longrightarrow> \<not> t_visited t \<Longrightarrow> n \<in> set (g_to_visit s) \<and> (\<exists>u. (u, n) \<in> L)"
    and "(u, d) \<in> L \<Longrightarrow> is_visited (g_targets s) u \<and> map_of (g_targets s) d \<noteq> None"
    and "set (g_roots s) = {n. is_visited (g_targets s) n \<and> (\<forall>u. (u, n) \<notin> L)}"
    and "distinct (g_roots s) \<and> distinct (map fst (g_targets s))"
  using assms unfolding linked_def by blast+

lemma map_of_get_or_create:
  assumes "GetOrCreateTargetByName ts n = (created, ts')"
  shows "map_of ts' = (map_of ts)(n \<mapsto> (case map_of ts n of None \<Rightarrow> new_target n | Some t \<Rightarrow> t))"
    and "created \<longleftrightarrow> map_of ts n = None"
    and "distinct (map fst ts') = distinct (map fst ts)"
  using assms by (auto simp: GetOrCreateTargetByName_def update_conv' distinct_update update_keys split: option.splits if_splits)

lemma map_of_add_dep:
  "map_of (g_targets (add_dep n s d)) m =
     map_option (\<lambda>t. let t = (if m = n then t_deps_update (set_add d) t else t) in
                     if m = d then t_back_deps_update (set_add n) t else t)
       (if m = d then Some (case map_of (g_targets s) d of None \<Rightarrow> new_target d | Some t \<Rightarrow> t) else map_of (g_targets s) m)"
proof -
  obtain created ts where g: "GetOrCreateTargetByName (g_targets s) d = (created, ts)" by fastforce
  show ?thesis
    using map_of_get_or_create(1) [OF g] by (auto simp: add_dep_def g map_of_map_entry option.map_ident split: option.splits)
qed

lemma add_dep_unchanged [simp]:
  "g_to_visit (add_dep n s d) = g_to_visit s @ [d]" "g_matching (add_dep n s d) = g_matching s"
  "g_in_files (add_dep n s d) = g_in_files s" "g_file_targets (add_dep n s d) = g_file_targets s"
  by (simp_all add: add_dep_def split: prod.split)

lemma is_visited_add_dep [simp]: "is_visited (g_targets (add_dep n s d)) = is_visited (g_targets s)"
proof (rule ext)
  fix m
  show "is_visited (g_targets (add_dep n s d)) m = is_visited (g_targets s) m"
    by (cases "map_of (g_targets s) m") (auto simp: is_visited_def map_of_add_dep Let_def new_target_def)
qed

lemma linked_add_dep:
  assumes l: "linked L s" and n: "is_visited (g_targets s) n"
  shows "linked (insert (n, d) L) (add_dep n s d)"
proof -
  let ?s = "add_dep n s d" and ?L = "insert (n, d) L"
  obtain created ts where g: "GetOrCreateTargetByName (g_targets s) d = (created, ts)" by fastforce
  note created = map_of_get_or_create(2) [OF g]
  have roots: "g_roots ?s = (if created then g_roots s else removeAll d (g_roots s))"
    by (simp add: add_dep_def g)
  have keys: "distinct (map fst (g_targets ?s))"
    using linkedD(7) [OF l] map_of_get_or_create(3) [OF g] by (simp add: add_dep_def g distinct_map_entry)
  have old: "is_visited (g_targets s) d \<Longrightarrow> \<not> created" using created by (auto simp: is_visited_iff)
  have unlinked: "(d, e) \<notin> L \<and> (u, d) \<notin> L" if "map_of (g_targets s) d = None" for u e
    using linkedD(5) [OF l, of d e] linkedD(5) [OF l, of u d] that by (auto simp: is_visited_iff)
  have entry: "set (t_deps t) = {e. (m, e) \<in> ?L} \<and> set (t_back_deps t) = {u. (u, m) \<in> ?L}
      \<and> distinct (t_deps t) \<and> distinct (t_back_deps t)
      \<and> (\<not> t_visited t \<longrightarrow> m \<in> set (g_to_visit ?s) \<and> (\<exists>u. (u, m) \<in> ?L))"
    if m: "map_of (g_targets ?s) m = Some t" for m t
  proof (cases "m = d \<and> map_of (g_targets s) d = None")
    case True
    then have "n \<noteq> d" using n by (auto simp: is_visited_iff)
    then show ?thesis using m True unlinked by (auto simp: map_of_add_dep new_target_def)
  next
    case False
    then obtain t0 where t0: "map_of (g_targets s) m = Some t0"
      using m by (cases "m = d") (auto simp: map_of_add_dep)
    show ?thesis
      using m t0 linkedD(1-4) [OF l t0] by (cases "m = d"; cases "m = n") (auto simp: map_of_add_dep Let_def)
  qed
  have "is_visited (g_targets ?s) u \<and> map_of (g_targets ?s) e \<noteq> None" if "(u, e) \<in> ?L" for u e
    using that n linkedD(5) [OF l, of u e] by (auto simp: map_of_add_dep)
  moreover have "set (g_roots ?s) = {m. is_visited (g_targets ?s) m \<and> (\<forall>u. (u, m) \<notin> ?L)}"
    using linkedD(6) [OF l] old by (auto simp: roots)
  moreover have "distinct (g_roots ?s)" using linkedD(7) [OF l] by (simp add: roots distinct_removeAll)
  ultimately show ?thesis using entry keys unfolding linked_def by blast
qed

text \<open>What does not change with the links.\<close>

definition fact_ok :: "analysis \<Rightarrow> string \<Rightarrow> target \<Rightarrow> bool" where
  "fact_ok a n t \<longleftrightarrow>
     t_name t = n \<and> \<not> t_added_to_compile_targets t \<and> \<not> t_in_roots t
     \<and> (if t_visited t then \<exists>i. target_info a n = Inr i \<and> t_requires_build t = i_requires i
          \<and> t_is_executable t = i_executable i \<and> t_match_status t = (if i_matches i then Matches else TBD)
        else t_match_status t = TBD)"

definition facts_ok :: "analysis \<Rightarrow> gen_state \<Rightarrow> bool" where
  "facts_ok a s \<longleftrightarrow> (\<forall>n t. map_of (g_targets s) n = Some t \<longrightarrow> fact_ok a n t)"

lemma fact_ok_links [simp]:
  "fact_ok a n (t_deps_update f t) = fact_ok a n t" "fact_ok a n (t_back_deps_update f t) = fact_ok a n t"
  "fact_ok a n (new_target n)"
  by (simp_all add: fact_ok_def new_target_def)

lemma facts_ok_add_dep:
  assumes "facts_ok a s"
  shows "facts_ok a (add_dep n s d)"
  unfolding facts_ok_def
proof (intro allI impI)
  fix m t assume "map_of (g_targets (add_dep n s d)) m = Some t"
  moreover have "fact_ok a m t0" if "map_of (g_targets s) m = Some t0" for t0
    using assms that by (simp add: facts_ok_def)
  ultimately show "fact_ok a m t"
    by (cases "map_of (g_targets s) m"; cases "m = d"; cases "m = n") (auto simp: map_of_add_dep Let_def)
qed

lemma fold_add_dep:
  assumes "linked L s" and "is_visited (g_targets s) n" and "facts_ok a s"
  defines "s' ds \<equiv> foldl (add_dep n) s ds"
  shows "linked (L \<union> {n} \<times> set ds) (s' ds) \<and> facts_ok a (s' ds) \<and> is_visited (g_targets (s' ds)) = is_visited (g_targets s)
    \<and> g_to_visit (s' ds) = g_to_visit s @ ds \<and> g_matching (s' ds) = g_matching s
    \<and> g_in_files (s' ds) = g_in_files s \<and> g_file_targets (s' ds) = g_file_targets s"
  unfolding s'_def
proof (induction ds rule: rev_induct)
  case Nil
  then show ?case using assms(1,3) by simp
next
  case (snoc d ds)
  then show ?case
    using linked_add_dep [of "L \<union> {n} \<times> set ds" "foldl (add_dep n) s ds" n d] assms(2) facts_ok_add_dep
    by simp
qed

section \<open>The loop\<close>

lemma pop_target_simps:
  assumes "pop_target s = (created, n, s')"
  shows "n = last (g_to_visit s)" and "g_to_visit s' = butlast (g_to_visit s)" and "g_matching s' = g_matching s"
    and "g_in_files s' = g_in_files s" and "g_file_targets s' = g_file_targets s"
    and "created \<longleftrightarrow> map_of (g_targets s) n = None"
    and "g_roots s' = (if created then set_add n (g_roots s) else g_roots s)"
    and "map_of (g_targets s') = (map_of (g_targets s))(n \<mapsto> (case map_of (g_targets s) n of None \<Rightarrow> new_target n | Some t \<Rightarrow> t))"
    and "distinct (map fst (g_targets s')) = distinct (map fst (g_targets s))"
proof -
  obtain c ts where g: "GetOrCreateTargetByName (g_targets s) (last (g_to_visit s)) = (c, ts)" by fastforce
  have "c = created" "n = last (g_to_visit s)"
    "s' = s\<lparr>g_to_visit := butlast (g_to_visit s), g_targets := ts,
            g_roots := if c then set_add n (g_roots s) else g_roots s\<rparr>"
    using assms by (auto simp: pop_target_def Let_def g)
  then show "n = last (g_to_visit s)" "g_to_visit s' = butlast (g_to_visit s)" "g_matching s' = g_matching s"
    "g_in_files s' = g_in_files s" "g_file_targets s' = g_file_targets s"
    "created \<longleftrightarrow> map_of (g_targets s) n = None" "g_roots s' = (if created then set_add n (g_roots s) else g_roots s)"
    "map_of (g_targets s') = (map_of (g_targets s))(n \<mapsto> (case map_of (g_targets s) n of None \<Rightarrow> new_target n | Some t \<Rightarrow> t))"
    "distinct (map fst (g_targets s')) = distinct (map fst (g_targets s))"
    using map_of_get_or_create [OF g] by (simp_all split: option.splits)
qed

lemma set_last: "xs \<noteq> [] \<Longrightarrow> set xs = insert (last xs) (set (butlast xs))"
  by (induction xs) auto

lemma linked_skip:
  assumes l: "linked L s" and ne: "g_to_visit s \<noteq> []" and p: "pop_target s = (created, n, s')"
    and v: "is_visited (g_targets s) n"
  shows "linked L s' \<and> g_targets s' = g_targets s"
proof -
  have "map_of (g_targets s) n \<noteq> None" using v by (auto simp: is_visited_iff)
  then have s': "s' = s\<lparr>g_to_visit := butlast (g_to_visit s)\<rparr>" and n: "n = last (g_to_visit s)"
    using p by (auto simp: pop_target_def Let_def GetOrCreateTargetByName_def split: if_splits)
  have "m \<in> set (butlast (g_to_visit s))" if "map_of (g_targets s) m = Some t" "\<not> t_visited t" for m t
    using linkedD(4) [OF l that] set_last [OF ne] v that n by (auto simp: is_visited_iff)
  then have "\<forall>m t. map_of (g_targets s) m = Some t \<longrightarrow> \<not> t_visited t \<longrightarrow> m \<in> set (g_to_visit s')"
    using s' by simp
  moreover have same: "g_targets s' = g_targets s" "g_roots s' = g_roots s" using s' by simp_all
  ultimately have "linked L s'" using l unfolding linked_def same by blast
  then show ?thesis using same by blast
qed

lemma linked_mark:
  assumes l: "linked L s" and ne: "g_to_visit s \<noteq> []" and p: "pop_target s = (created, n, s')"
    and v: "\<not> is_visited (g_targets s) n"
  shows "linked L (mark a n i s')"
    and "is_visited (g_targets (mark a n i s')) = (\<lambda>m. m = n \<or> is_visited (g_targets s) m)"
proof -
  note pop = pop_target_simps [OF p]
  let ?s = "mark a n i s'"
  define f :: "target \<Rightarrow> target" where "f t = t\<lparr>t_visited := True, t_requires_build := i_requires i,
      t_is_executable := i_executable i, t_match_status := (if i_matches i then Matches else t_match_status t)\<rparr>" for t
  have f [simp]: "t_deps (f t) = t_deps t" "t_back_deps (f t) = t_back_deps t" "t_visited (f t)" for t
    by (simp_all add: f_def)
  let ?t0 = "case map_of (g_targets s) n of None \<Rightarrow> new_target n | Some t \<Rightarrow> t"
  have ts: "map_of (g_targets ?s) m = (if m = n then Some (f ?t0) else map_of (g_targets s) m)" for m
    by (simp add: mark_def map_of_map_entry pop(8) f_def)
  show vis: "is_visited (g_targets ?s) = (\<lambda>m. m = n \<or> is_visited (g_targets s) m)"
    by (rule ext) (simp add: is_visited_def ts)
  have roots: "g_roots ?s = g_roots s'" by (simp add: mark_def)
  have new: "(n, e) \<notin> L \<and> (u, n) \<notin> L" if created for u e
    using linkedD(5) [OF l, of n e] linkedD(5) [OF l, of u n] that pop(6) v by auto
  have entry: "set (t_deps t) = {e. (m, e) \<in> L} \<and> set (t_back_deps t) = {u. (u, m) \<in> L}
      \<and> distinct (t_deps t) \<and> distinct (t_back_deps t)
      \<and> (\<not> t_visited t \<longrightarrow> m \<in> set (g_to_visit ?s) \<and> (\<exists>u. (u, m) \<in> L))"
    if m: "map_of (g_targets ?s) m = Some t" for m t
  proof (cases "m = n")
    case True
    then show ?thesis
      using m linkedD(1-3) [OF l, of n] new pop(6)
      by (cases "map_of (g_targets s) n") (auto simp: ts new_target_def)
  next
    case False
    then have t: "map_of (g_targets s) m = Some t" using m by (simp add: ts)
    have "g_to_visit ?s = butlast (g_to_visit s)" by (simp add: mark_def pop(2))
    then show ?thesis using linkedD(1-4) [OF l t] set_last [OF ne] pop(1) False by auto
  qed
  have "is_visited (g_targets ?s) u \<and> map_of (g_targets ?s) e \<noteq> None" if "(u, e) \<in> L" for u e
    using linkedD(5) [OF l that] by (auto simp: ts vis)
  moreover have "set (g_roots ?s) = {m. is_visited (g_targets ?s) m \<and> (\<forall>u. (u, m) \<notin> L)}"
    unfolding vis roots
  proof (cases created)
    case True
    then show "set (g_roots s') = {m. (m = n \<or> is_visited (g_targets s) m) \<and> (\<forall>u. (u, m) \<notin> L)}"
      using linkedD(6) [OF l] new by (auto simp: pop(7))
  next
    case False
    then obtain t where "map_of (g_targets s) n = Some t" using pop(6) by auto
    then have "\<exists>u. (u, n) \<in> L" using linkedD(4) [OF l] v by (auto simp: is_visited_iff)
    then show "set (g_roots s') = {m. (m = n \<or> is_visited (g_targets s) m) \<and> (\<forall>u. (u, m) \<notin> L)}"
      using linkedD(6) [OF l] False by (auto simp: pop(7))
  qed
  moreover have "distinct (g_roots ?s) \<and> distinct (map fst (g_targets ?s))"
    using linkedD(7) [OF l] pop(7,9) by (simp add: mark_def distinct_map_entry)
  ultimately show "linked L ?s" using entry unfolding linked_def by blast
qed

lemma facts_ok_mark:
  assumes "facts_ok a s" and p: "pop_target s = (created, n, s')" and v: "\<not> is_visited (g_targets s) n"
    and i: "target_info a n = Inr i"
  shows "facts_ok a (mark a n i s')"
  unfolding facts_ok_def
proof (intro allI impI)
  fix m t assume "map_of (g_targets (mark a n i s')) m = Some t"
  moreover have "fact_ok a m t0" if "map_of (g_targets s) m = Some t0" for t0
    using assms(1) that by (simp add: facts_ok_def)
  ultimately show "fact_ok a m t"
    using i v by (cases "m = n"; cases "map_of (g_targets s) m")
      (auto simp: mark_def map_of_map_entry pop_target_simps(8) [OF p] fact_ok_def is_visited_def new_target_def)
qed

definition gen_inv :: "analysis \<Rightarrow> string list \<Rightarrow> gen_state \<Rightarrow> bool" where
  "gen_inv a target_list s \<longleftrightarrow>
     linked {(u, d). is_visited (g_targets s) u \<and> d \<in> set (deps_of a u)} s
     \<and> facts_ok a s \<and> cache_ok a (g_in_files s)
     \<and> distinct (g_matching s)
     \<and> set (g_matching s) = {n. is_visited (g_targets s) n \<and> (\<exists>i. target_info a n = Inr i \<and> i_matches i)}
     \<and> set (g_file_targets s) = {n. is_visited (g_targets s) n
          \<and> (\<exists>i. target_info a n = Inr i \<and> i_build_file i \<in> set (a_build_files a))}
     \<and> Collect (is_visited (g_targets s)) \<union> set (g_to_visit s) \<subseteq> needed a target_list
     \<and> set target_list \<subseteq> Collect (is_visited (g_targets s)) \<union> set (g_to_visit s)
     \<and> (\<forall>u. is_visited (g_targets s) u \<longrightarrow>
          set (deps_of a u) \<subseteq> Collect (is_visited (g_targets s)) \<union> set (g_to_visit s))"

lemma gen_invD:
  assumes "gen_inv a target_list s"
  shows "linked {(u, d). is_visited (g_targets s) u \<and> d \<in> set (deps_of a u)} s"
    and "facts_ok a s" and "cache_ok a (g_in_files s)" and "distinct (g_matching s)"
    and "set (g_matching s) = {n. is_visited (g_targets s) n \<and> (\<exists>i. target_info a n = Inr i \<and> i_matches i)}"
    and "set (g_file_targets s) = {n. is_visited (g_targets s) n
          \<and> (\<exists>i. target_info a n = Inr i \<and> i_build_file i \<in> set (a_build_files a))}"
    and "Collect (is_visited (g_targets s)) \<union> set (g_to_visit s) \<subseteq> needed a target_list"
    and "set target_list \<subseteq> Collect (is_visited (g_targets s)) \<union> set (g_to_visit s)"
    and "is_visited (g_targets s) u \<Longrightarrow> set (deps_of a u) \<subseteq> Collect (is_visited (g_targets s)) \<union> set (g_to_visit s)"
  using assms unfolding gen_inv_def by blast+

lemma gen_inv_skip:
  assumes inv: "gen_inv a target_list s" and ne: "g_to_visit s \<noteq> []" and p: "pop_target s = (created, n, s')"
    and v: "is_visited (g_targets s) n"
  shows "gen_inv a target_list s'"
proof -
  note I = gen_invD [OF inv] and pop = pop_target_simps [OF p]
  have s': "linked {(u, d). is_visited (g_targets s) u \<and> d \<in> set (deps_of a u)} s'" "g_targets s' = g_targets s"
    using linked_skip [OF I(1) ne p v] by blast+
  have visit: "Collect (is_visited (g_targets s)) \<union> set (g_to_visit s') = Collect (is_visited (g_targets s)) \<union> set (g_to_visit s)"
    using v set_last [OF ne] pop(1,2) by auto
  have "facts_ok a s'" using I(2) by (simp add: facts_ok_def s'(2))
  then show ?thesis
    unfolding gen_inv_def s'(2) visit pop(3,4,5) using s'(1) I by blast
qed

lemma gen_inv_visit:
  assumes inv: "gen_inv a target_list s" and ne: "g_to_visit s \<noteq> []" and p: "pop_target s = (created, n, s')"
    and v: "\<not> is_visited (g_targets s) n" and i: "target_info a n = Inr i"
  shows "gen_inv a target_list (foldl (add_dep n) (mark a n i s') (i_deps i))"
    and "is_visited (g_targets (foldl (add_dep n) (mark a n i s') (i_deps i))) = (\<lambda>m. m = n \<or> is_visited (g_targets s) m)"
proof -
  note I = gen_invD [OF inv] and pop = pop_target_simps [OF p]
  let ?m = "mark a n i s'" and ?s = "foldl (add_dep n) (mark a n i s') (i_deps i)"
  let ?L = "{(u, d). is_visited (g_targets s) u \<and> d \<in> set (deps_of a u)}"
  have m: "linked ?L ?m" "is_visited (g_targets ?m) = (\<lambda>m. m = n \<or> is_visited (g_targets s) m)"
    using linked_mark [OF I(1) ne p v] by blast+
  have n: "n \<in> needed a target_list" using I(7) pop(1) last_in_set [OF ne] by blast
  have deps: "deps_of a n = i_deps i" by (simp add: deps_of_def i)
  have fold: "linked (?L \<union> {n} \<times> set (i_deps i)) ?s" "facts_ok a ?s" "is_visited (g_targets ?s) = is_visited (g_targets ?m)"
    "g_to_visit ?s = g_to_visit ?m @ i_deps i" "g_matching ?s = g_matching ?m" "g_in_files ?s = g_in_files ?m"
    "g_file_targets ?s = g_file_targets ?m"
    using fold_add_dep [OF m(1) _ facts_ok_mark [OF I(2) p v i]] m(2) by simp_all
  show vis: "is_visited (g_targets ?s) = (\<lambda>m. m = n \<or> is_visited (g_targets s) m)" using fold(3) m(2) by simp
  have fields: "g_to_visit ?s = butlast (g_to_visit s) @ i_deps i"
    "g_matching ?s = (if i_matches i then g_matching s @ [n] else g_matching s)"
    "g_in_files ?s = AList.update (i_build_file i) (i_modified i) (g_in_files s)"
    "g_file_targets ?s = (if i_build_file i \<in> set (a_build_files a) then set_add n (g_file_targets s) else g_file_targets s)"
    using fold(4-7) pop(2-5) by (simp_all add: mark_def)
  have "?L \<union> {n} \<times> set (i_deps i) = {(u, d). is_visited (g_targets ?s) u \<and> d \<in> set (deps_of a u)}"
    unfolding vis using deps v by auto
  then have 1: "linked {(u, d). is_visited (g_targets ?s) u \<and> d \<in> set (deps_of a u)} ?s" using fold(1) by simp
  have "WasBuildFileModified (i_build_file i) (a_data a) (a_files a) (a_toplevel_dir a) = Inr (i_modified i)"
    using i unfolding target_info_def by (auto split: option.splits)
  then have 2: "cache_ok a (g_in_files ?s)" using I(3) by (auto simp: cache_ok_def fields(3) update_conv')
  have 3: "distinct (g_matching ?s)" using I(4,5) v by (auto simp: fields(2))
  have 4: "set (g_matching ?s) = {n. is_visited (g_targets ?s) n \<and> (\<exists>i. target_info a n = Inr i \<and> i_matches i)}"
    unfolding vis fields(2) using I(5) i by auto
  have 5: "set (g_file_targets ?s) = {n. is_visited (g_targets ?s) n
      \<and> (\<exists>i. target_info a n = Inr i \<and> i_build_file i \<in> set (a_build_files a))}"
    unfolding vis fields(4) using I(6) i by auto
  have 6: "Collect (is_visited (g_targets ?s)) \<union> set (g_to_visit ?s) \<subseteq> needed a target_list"
    unfolding vis fields(1) using I(7) n needed_deps [OF n] deps set_last [OF ne] by auto
  have todo: "Collect (is_visited (g_targets s)) \<union> set (g_to_visit s) \<subseteq> Collect (is_visited (g_targets ?s)) \<union> set (g_to_visit ?s)"
    unfolding vis fields(1) using set_last [OF ne] pop(1) by auto
  then have 7: "set target_list \<subseteq> Collect (is_visited (g_targets ?s)) \<union> set (g_to_visit ?s)" using I(8) by blast
  have 8: "set (deps_of a u) \<subseteq> Collect (is_visited (g_targets ?s)) \<union> set (g_to_visit ?s)" if "is_visited (g_targets ?s) u" for u
  proof (cases "u = n")
    case False
    then show ?thesis using that I(9) [of u] todo unfolding vis by blast
  qed (auto simp: deps fields(1))
  show "gen_inv a target_list ?s"
    unfolding gen_inv_def using 1 fold(2) 2 3 4 5 6 7 8 by blast
qed

lemma generate_loop_ends:
  assumes "gen_inv a target_list s"
  shows "\<exists>r. generate_loop a s = Some r \<and>
    (case r of Inl e \<Rightarrow> \<exists>n\<in>needed a target_list. target_info a n = Inl e
             | Inr s' \<Rightarrow> gen_inv a target_list s' \<and> g_to_visit s' = [])"
  using assms
proof (induction "(card (fst ` set (a_target_dicts a) - Collect (is_visited (g_targets s))), length (g_to_visit s))" arbitrary: s
    rule: wf_induct_rule [OF wf_lex_prod [OF wf_less_than wf_less_than]])
  case less: 1
  show ?case
  proof (cases "g_to_visit s = []")
    case True
    then show ?thesis using less(2) by (subst generate_loop.simps) simp
  next
    case ne: False
    obtain created n s' where p: "pop_target s = (created, n, s')" by (metis prod_cases3)
    note pop = pop_target_simps [OF p]
    show ?thesis
    proof (cases "is_visited (g_targets s) n")
      case True
      then have c: "\<not> created" using pop(6) by (auto simp: is_visited_iff)
      have s': "gen_inv a target_list s'" "g_targets s' = g_targets s"
        using gen_inv_skip [OF less(2) ne p True] linked_skip [OF gen_invD(1) [OF less(2)] ne p True] by blast+
      have "length (g_to_visit s') < length (g_to_visit s)" using ne by (simp add: pop(2))
      then obtain r where "generate_loop a s' = Some r"
        "case r of Inl e \<Rightarrow> \<exists>n\<in>needed a target_list. target_info a n = Inl e
           | Inr s' \<Rightarrow> gen_inv a target_list s' \<and> g_to_visit s' = []"
        using less(1) [of s'] s' by auto
      then show ?thesis using ne p c True s'(2) by (subst generate_loop.simps) auto
    next
      case False
      then have visit: "generate_loop a s = (case visit_target a s' n of Inl e \<Rightarrow> Some (Inl e) | Inr t \<Rightarrow> generate_loop a t)"
        using ne p pop(6,8) by (subst generate_loop.simps) (auto simp: is_visited_def new_target_def split: option.splits)
      have c: "cache_ok a (g_in_files s')" using gen_invD(3) [OF less(2)] by (simp add: pop(4))
      show ?thesis
      proof (cases "target_info a n")
        case (Inl e)
        have "n \<in> needed a target_list" using gen_invD(7) [OF less(2)] pop(1) last_in_set [OF ne] by blast
        then show ?thesis using Inl visit visit_target_info [OF c] by auto
      next
        case (Inr i)
        let ?t = "foldl (add_dep n) (mark a n i s') (i_deps i)"
        note t = gen_inv_visit [OF less(2) ne p False Inr]
        have "n \<in> fst ` set (a_target_dicts a)" by (rule target_info_key [OF Inr])
        then have "fst ` set (a_target_dicts a) - Collect (is_visited (g_targets ?t))
            \<subset> fst ` set (a_target_dicts a) - Collect (is_visited (g_targets s))"
          unfolding t(2) using False by auto
        then have "card (fst ` set (a_target_dicts a) - Collect (is_visited (g_targets ?t)))
            < card (fst ` set (a_target_dicts a) - Collect (is_visited (g_targets s)))"
          by (intro psubset_card_mono) auto
        then show ?thesis using less(1) [of ?t] t(1) visit visit_target_info [OF c, of n] Inr by simp
      qed
    qed
  qed
qed

section \<open>The result\<close>

text \<open>
  The finished graph of the targets \<open>N\<close>: each has been visited, has its direct dependencies and, in
  \<open>t_back_deps\<close>, its direct dependents; only its own sources have been matched so far.
\<close>

definition graph_built :: "analysis \<Rightarrow> string set \<Rightarrow> target_map \<Rightarrow> bool" where
  "graph_built a N ts \<longleftrightarrow>
     distinct (map fst ts) \<and> fst ` set ts = N
     \<and> (\<forall>n t. map_of ts n = Some t \<longrightarrow> (\<exists>i. target_info a n = Inr i
          \<and> t_name t = n \<and> t_visited t \<and> \<not> t_added_to_compile_targets t \<and> \<not> t_in_roots t
          \<and> t_requires_build t = i_requires i \<and> t_is_executable t = i_executable i
          \<and> t_match_status t = (if i_matches i then Matches else TBD)
          \<and> distinct (t_deps t) \<and> set (t_deps t) = set (i_deps i)
          \<and> distinct (t_back_deps t) \<and> set (t_back_deps t) = {u \<in> N. n \<in> set (deps_of a u)}))"

lemma gen_inv_built:
  assumes inv: "gen_inv a target_list s" and ne: "g_to_visit s = []"
  defines "N \<equiv> needed a target_list"
  shows "graph_built a N (g_targets s) \<and> distinct (g_matching s)
    \<and> set (g_matching s) = {n \<in> N. \<exists>i. target_info a n = Inr i \<and> i_matches i}
    \<and> distinct (g_roots s) \<and> set (g_roots s) = {n \<in> N. \<forall>u\<in>N. n \<notin> set (deps_of a u)}
    \<and> set (g_file_targets s) = {n \<in> N. \<exists>i. target_info a n = Inr i \<and> i_build_file i \<in> set (a_build_files a)}"
proof -
  note I = gen_invD [OF inv]
  have "y \<in> Collect (is_visited (g_targets s))" if "(x, y) \<in> (dep_rel a)\<^sup>*" "x \<in> set target_list" for x y
    using that
  proof (induction rule: rtrancl_induct)
    case base
    then show ?case using I(8) ne by auto
  next
    case (step y z)
    then show ?case using I(9) [of y] ne by (auto simp: dep_rel_def)
  qed
  then have N: "is_visited (g_targets s) n \<longleftrightarrow> n \<in> N" for n
    using I(7) unfolding N_def needed_def by blast
  have keys: "fst ` set (g_targets s) = N"
  proof -
    have "map_of (g_targets s) n \<noteq> None \<longleftrightarrow> is_visited (g_targets s) n" for n
      using linkedD(4) [OF I(1), of n] ne by (auto simp: is_visited_iff)
    then show ?thesis using N by (auto simp: map_of_eq_None_iff)
  qed
  have "\<exists>i. target_info a n = Inr i
      \<and> t_name t = n \<and> t_visited t \<and> \<not> t_added_to_compile_targets t \<and> \<not> t_in_roots t
      \<and> t_requires_build t = i_requires i \<and> t_is_executable t = i_executable i
      \<and> t_match_status t = (if i_matches i then Matches else TBD)
      \<and> distinct (t_deps t) \<and> set (t_deps t) = set (i_deps i)
      \<and> distinct (t_back_deps t) \<and> set (t_back_deps t) = {u \<in> N. n \<in> set (deps_of a u)}"
    if t: "map_of (g_targets s) n = Some t" for n t
  proof -
    have v: "t_visited t" using linkedD(4) [OF I(1) t] ne by auto
    then have vis: "is_visited (g_targets s) n" using t by (simp add: is_visited_iff)
    obtain i where i: "target_info a n = Inr i" "t_name t = n \<and> t_visited t \<and> \<not> t_added_to_compile_targets t \<and> \<not> t_in_roots t
      \<and> t_requires_build t = i_requires i \<and> t_is_executable t = i_executable i
      \<and> t_match_status t = (if i_matches i then Matches else TBD)"
      using I(2) t v unfolding facts_ok_def fact_ok_def by fastforce
    have "set (t_deps t) = set (i_deps i)" "set (t_back_deps t) = {u \<in> N. n \<in> set (deps_of a u)}"
      using linkedD(1,2) [OF I(1) t] vis by (auto simp: deps_of_def i(1) N)
    then show ?thesis using i linkedD(3) [OF I(1) t] by blast
  qed
  then have "graph_built a N (g_targets s)" using keys linkedD(7) [OF I(1)] unfolding graph_built_def by blast
  moreover have "set (g_roots s) = {n \<in> N. \<forall>u\<in>N. n \<notin> set (deps_of a u)}" using linkedD(6) [OF I(1)] N by auto
  ultimately show ?thesis using I(4-6) linkedD(7) [OF I(1)] by (simp add: N)
qed

lemma gen_inv_start:
  "gen_inv a target_list \<lparr>g_targets = [], g_matching = [], g_to_visit = target_list, g_in_files = [],
     g_roots = [], g_file_targets = []\<rparr>"
  unfolding gen_inv_def linked_def facts_ok_def cache_ok_def using needed_start [of target_list a]
  by (auto simp: is_visited_def)

lemma GenerateTargets_cases:
  "(\<exists>e. GenerateTargets a target_list = Some (Inl e) \<and> (\<exists>n\<in>needed a target_list. target_info a n = Inl e))
   \<or> (\<exists>ts matching roots. GenerateTargets a target_list = Some (Inr (ts, matching, roots))
      \<and> graph_built a (needed a target_list) ts
      \<and> distinct matching \<and> set matching = {n \<in> needed a target_list. \<exists>i. target_info a n = Inr i \<and> i_matches i}
      \<and> distinct roots \<and> set roots = {n \<in> needed a target_list. (\<forall>u\<in>needed a target_list. n \<notin> set (deps_of a u))
           \<and> (\<exists>i. target_info a n = Inr i \<and> i_build_file i \<in> set (a_build_files a))})"
proof -
  let ?N = "needed a target_list" and ?s = "\<lparr>g_targets = [], g_matching = [], g_to_visit = target_list, g_in_files = [],
     g_roots = [], g_file_targets = []\<rparr>"
  obtain r where r: "generate_loop a ?s = Some r"
    "case r of Inl e \<Rightarrow> \<exists>n\<in>?N. target_info a n = Inl e | Inr s' \<Rightarrow> gen_inv a target_list s' \<and> g_to_visit s' = []"
    using generate_loop_ends [OF gen_inv_start] by blast
  show ?thesis
  proof (cases r)
    case (Inl e)
    then show ?thesis using r by (auto simp: GenerateTargets_def)
  next
    case (Inr s)
    then have s: "gen_inv a target_list s" "g_to_visit s = []" using r(2) by simp_all
    note b = gen_inv_built [OF s]
    then show ?thesis using r(1) Inr by (intro disjI2) (auto simp: GenerateTargets_def)
  qed
qed

end
