(* ===== verification/AnalyzerPasses.thy ===== *)
theory AnalyzerPasses
  imports Analyzer "HOL-Library.Product_Lexorder"
begin

text \<open>
  \<open>gyp/generator/analyzer.py\<close>, second half: which targets depend on a changed one, which have to be
  built, and the report. The functions follow the references between \<open>Target\<close> objects, which have
  an entry in the dictionary of targets each. The order in which a set is iterated is the argument
  \<open>ord\<close>, a function of the list of its elements.
\<close>

definition tgt :: "target_map \<Rightarrow> string \<Rightarrow> target" where
  "tgt ts n = (case map_of ts n of Some t \<Rightarrow> t | None \<Rightarrow> new_target n)"

abbreviation upd :: "string \<Rightarrow> (target \<Rightarrow> target) \<Rightarrow> target_map \<Rightarrow> target_map" where
  "upd n f ts \<equiv> AList.map_entry n f ts"

section \<open>The targets that depend on a changed one\<close>

text \<open>\<open>_DoesTargetDependOn\<close> for the targets of a list in turn, up to the first that does.\<close>

partial_function (option) any_depends ::
  "(string list \<Rightarrow> string list) \<Rightarrow> target_map \<Rightarrow> string list \<Rightarrow> (bool \<times> target_map) option" where
  "any_depends ord ts ds =
     (case ds of
        [] \<Rightarrow> Some (False, ts)
      | d # ds' \<Rightarrow>
          if t_match_status (tgt ts d) = DoesntMatch then any_depends ord ts ds'
          else if t_match_status (tgt ts d) = Matches \<or> t_match_status (tgt ts d) = MatchesByDependency
          then Some (True, ts)
          else
            Option.bind (any_depends ord ts (ord (t_deps (tgt ts d)))) (\<lambda>(found, ts').
            if found then Some (True, upd d (t_match_status_update (\<lambda>_. MatchesByDependency)) ts')
            else any_depends ord (upd d (t_match_status_update (\<lambda>_. DoesntMatch)) ts') ds'))"

declare any_depends.simps [code]

definition DoesTargetDependOn ::
  "(string list \<Rightarrow> string list) \<Rightarrow> target_map \<Rightarrow> string \<Rightarrow> (bool \<times> target_map) option" where
  "DoesTargetDependOn ord ts target = any_depends ord ts [target]"

fun GetTargetsDependingOn ::
  "(string list \<Rightarrow> string list) \<Rightarrow> target_map \<Rightarrow> string list \<Rightarrow> (string list \<times> target_map) option" where
  "GetTargetsDependingOn ord ts [] = Some ([], ts)"
| "GetTargetsDependingOn ord ts (target # possible_targets) =
     Option.bind (DoesTargetDependOn ord ts target) (\<lambda>(depends, ts).
     Option.bind (GetTargetsDependingOn ord ts possible_targets) (\<lambda>(found, ts).
     Some (if depends then target # found else found, ts)))"

section \<open>The targets to build\<close>

type_synonym build_state = "target_map \<times> string list"

definition enter_target :: "string list \<Rightarrow> string \<Rightarrow> build_state \<Rightarrow> build_state" where
  "enter_target roots n st =
     (upd n (\<lambda>t. t\<lparr>t_visited := True, t_in_roots := (t_back_deps t = [] \<and> n \<in> set roots)\<rparr>) (fst st), snd st)"

definition inherit_flags :: "string \<Rightarrow> string \<Rightarrow> build_state \<Rightarrow> build_state" where
  "inherit_flags n b st =
     (upd n (\<lambda>t. t\<lparr>t_added_to_compile_targets := t_added_to_compile_targets t \<or> t_added_to_compile_targets (tgt (fst st) b),
                  t_in_roots := t_in_roots t \<or> t_in_roots (tgt (fst st) b)\<rparr>) (fst st), snd st)"

definition leave_target :: "bool \<Rightarrow> string \<Rightarrow> build_state \<Rightarrow> build_state" where
  "leave_target add_if_no_ancestor n st =
     (let t = tgt (fst st) n in
      if t_in_roots t \<and> (t_is_executable t
            \<or> (\<not> t_added_to_compile_targets t \<and> (add_if_no_ancestor \<or> t_requires_build t)))
      then (upd n (t_added_to_compile_targets_update (\<lambda>_. True)) (fst st), set_add n (snd st))
      else st)"

text \<open>The loop of \<open>_AddBuildTargets\<close> over the targets that depend on \<open>n\<close>.\<close>

partial_function (option) add_back ::
  "(string list \<Rightarrow> string list) \<Rightarrow> string list \<Rightarrow> string \<Rightarrow> string list \<Rightarrow> build_state \<Rightarrow> build_state option" where
  "add_back ord roots n bs st =
     (case bs of
        [] \<Rightarrow> Some st
      | b # bs' \<Rightarrow>
          Option.bind
            (if t_visited (tgt (fst st) b) then Some st
             else Option.bind (add_back ord roots b (ord (t_back_deps (tgt (fst st) b))) (enter_target roots b st))
                    (\<lambda>st. Some (leave_target False b st)))
            (\<lambda>st. add_back ord roots n bs' (inherit_flags n b st)))"

declare add_back.simps [code]

definition AddBuildTargets ::
  "(string list \<Rightarrow> string list) \<Rightarrow> string list \<Rightarrow> bool \<Rightarrow> string \<Rightarrow> build_state \<Rightarrow> build_state option" where
  "AddBuildTargets ord roots add_if_no_ancestor n st =
     (if t_visited (tgt (fst st) n) then Some st
      else Option.bind (add_back ord roots n (ord (t_back_deps (tgt (fst st) n))) (enter_target roots n st))
             (\<lambda>st. Some (leave_target add_if_no_ancestor n st)))"

fun GetBuildTargets ::
  "(string list \<Rightarrow> string list) \<Rightarrow> string list \<Rightarrow> string list \<Rightarrow> build_state \<Rightarrow> build_state option" where
  "GetBuildTargets ord roots [] st = Some st"
| "GetBuildTargets ord roots (n # matching_targets) st =
     Option.bind (AddBuildTargets ord roots True n st) (GetBuildTargets ord roots matching_targets)"

section \<open>The report\<close>

text \<open>
  A set of values of a configuration file. \<open>sort\<close> puts numbers before strings, as Python 2 does.
\<close>

fun add_hashable :: "pyval list \<Rightarrow> pyval \<Rightarrow> pyval list res" where
  "add_hashable s v =
     (if \<not> hashable v then Inl TypeErr else Inr (if \<exists>w\<in>set s. py_eq w v then s else s @ [v]))"

definition py_set :: "pyval \<Rightarrow> pyval list res" where
  "py_set v = ebind (iter_items v) (efold add_hashable [])"

fun sort_rank :: "pyval \<Rightarrow> nat \<times> int \<times> string" where
  "sort_rank PNone = (0, 0, [])"
| "sort_rank (PBool b) = (1, if b then 1 else 0, [])"
| "sort_rank (PInt i) = (1, i, [])"
| "sort_rank (PStr s) = (2, 0, s)"
| "sort_rank _ = (3, 0, [])"

definition py_sort :: "pyval list \<Rightarrow> pyval list" where
  "py_sort xs = sort_key sort_rank xs"

record config =
  c_files :: pyval
  c_targets :: "pyval list"

text \<open>Reading the JSON file is an argument: it may raise \<open>IOError\<close> or \<open>ValueError\<close>.\<close>

definition Config_Init :: "(string \<Rightarrow> pyval res) \<Rightarrow> pydict \<Rightarrow> config res" where
  "Config_Init load generator_flags =
     (let config_path = dget_or generator_flags ''config_path'' PNone in
      if \<not> truth config_path then Inr \<lparr>c_files = PList [], c_targets = []\<rparr>
      else ebind (as_str config_path) (\<lambda>path.
        case load path of
          Inl (IOErr _) \<Rightarrow> Inl (PlainExc (''Unable to open file '' @ path))
        | Inl (ValueErr m) \<Rightarrow> Inl (PlainExc (''Unable to parse config file '' @ path @ m))
        | Inl e \<Rightarrow> Inl e
        | Inr (PDict d) \<Rightarrow>
            ebind (py_set (dget_or d ''targets'' (PList []))) (\<lambda>targets.
            Inr \<lparr>c_files = dget_or d ''files'' (PList []), c_targets = targets\<rparr>)
        | Inr _ \<Rightarrow> Inl (PlainExc ''config_path must be a JSON file containing a dictionary'')))"

record analyzer_params =
  p_generator_flags :: pydict
  p_includes :: "string list"
  p_toplevel_dir :: string
  p_build_files :: "string list"

fun WasGypIncludeFileModified :: "string list \<Rightarrow> pyval \<Rightarrow> bool res" where
  "WasGypIncludeFileModified [] files = Inr False"
| "WasGypIncludeFileModified (i # is) files =
     ebind (str_in (gyp_path i) files) (\<lambda>b. if b then Inr True else WasGypIncludeFileModified is files)"

definition unqualified :: "string \<Rightarrow> string" where
  "unqualified n = fst (snd (ParseQualifiedTarget n))"

text \<open>The loop over the names of all targets, which ends when everything has been found.\<close>

fun find_unqualified :: "string list \<Rightarrow> pyval list \<Rightarrow> (string \<times> string) list \<Rightarrow> (string \<times> string) list" where
  "find_unqualified [] to_find result = result"
| "find_unqualified (n # ns) to_find result =
     (if PStr (unqualified n) \<in> set to_find
      then let to_find = removeAll (PStr (unqualified n)) to_find; result = AList.update (unqualified n) n result in
        if to_find = [] then result else find_unqualified ns to_find result
      else find_unqualified ns to_find result)"

definition GetUnqualifiedToTargetMapping :: "target_map \<Rightarrow> pyval list \<Rightarrow> (string \<times> string) list" where
  "GetUnqualifiedToTargetMapping all_targets to_find =
     (if to_find = [] then [] else find_unqualified (map fst all_targets) to_find [])"

fun named_in :: "(string \<times> string) list \<Rightarrow> pyval \<Rightarrow> string option" where
  "named_in mapping (PStr s) = map_of mapping s"
| "named_in mapping _ = None"

definition NamesNotIn :: "pyval list \<Rightarrow> (string \<times> string) list \<Rightarrow> pyval list" where
  "NamesNotIn names mapping = filter (\<lambda>n. named_in mapping n = None) names"

definition LookupTargets :: "pyval list \<Rightarrow> (string \<times> string) list \<Rightarrow> string list" where
  "LookupTargets names mapping = List.map_filter (named_in mapping) names"

text \<open>
  What \<open>_WriteOutput\<close> writes, and where: to the file of the flag \<open>analyzer_output_path\<close>, or to
  standard output when there is none.
\<close>

record report =
  r_values :: pydict
  r_path :: pyval

definition sort_value :: "string \<Rightarrow> pydict \<Rightarrow> pydict" where
  "sort_value key values = (case dget values key of Some (PList xs) \<Rightarrow> dset key (PList (py_sort xs)) values | _ \<Rightarrow> values)"

definition WriteOutput :: "pydict \<Rightarrow> pydict \<Rightarrow> report" where
  "WriteOutput generator_flags values =
     \<lparr>r_values = sort_value ''build_targets'' (sort_value ''targets'' values),
      r_path = dget_or generator_flags ''analyzer_output_path'' PNone\<rparr>"

definition reset_visited :: "target_map \<Rightarrow> target_map" where
  "reset_visited ts = map (\<lambda>(n, t). (n, t\<lparr>t_visited := False\<rparr>)) ts"

text \<open>The search in the graph: the searched targets that matched and the targets to build.\<close>

definition search_graph :: "(string list \<Rightarrow> string list) \<Rightarrow> target_map \<Rightarrow> string list \<Rightarrow> string list \<Rightarrow> string list
    \<Rightarrow> (string list \<times> string list) option" where
  "search_graph ord all_targets matching_targets roots search_targets =
     (if matching_targets = [] then Some ([], [])
      else
        Option.bind (GetTargetsDependingOn ord all_targets search_targets) (\<lambda>(matched_search_targets, ts).
        Option.bind (GetBuildTargets ord roots matching_targets (reset_visited ts, [])) (\<lambda>(_, build_targets).
        Some (map unqualified matched_search_targets, map unqualified (ord build_targets)))))"

text \<open>
  The result dictionary; \<open>None\<close> when the search does not end. The order in which the set of the
  names to search for is iterated is the argument \<open>ordv\<close>, what \<open>str\<close> makes of a list of JSON values
  is \<open>show\<close>.
\<close>

definition analyze :: "(string list \<Rightarrow> string list) \<Rightarrow> (pyval list \<Rightarrow> pyval list) \<Rightarrow> (pyval list \<Rightarrow> string)
    \<Rightarrow> analysis \<Rightarrow> string list \<Rightarrow> pyval list \<Rightarrow> pydict res option" where
  "analyze ord ordv show a target_list targets =
     Option.bind (GenerateTargets a target_list) (\<lambda>r.
     case r of Inl e \<Rightarrow> Some (Inl e) | Inr (all_targets, matching_targets, roots) \<Rightarrow>
       let mapping = GetUnqualifiedToTargetMapping all_targets targets;
           warning = (if length mapping \<noteq> length targets
                      then [(''warning'', PStr (''Unable to find all targets: '' @ show (NamesNotIn (ordv targets) mapping)))]
                      else []) in
       map_option (\<lambda>(matched_search_targets, build_targets).
           Inr ([(''targets'', PList (map PStr matched_search_targets)),
                 (''status'', PStr (if matching_targets \<noteq> [] then ''Found dependency'' else ''No dependencies'')),
                 (''build_targets'', PList (map PStr build_targets))] @ warning))
         (search_graph ord all_targets matching_targets roots (LookupTargets (ordv targets) mapping)))"

text \<open>\<open>GenerateOutput\<close>: every exception becomes the value of \<open>error\<close>; \<open>str\<close> of it is \<open>show_err\<close>.\<close>

definition analyzer_result :: "(string list \<Rightarrow> string list) \<Rightarrow> (pyval list \<Rightarrow> pyval list) \<Rightarrow> (pyval list \<Rightarrow> string)
    \<Rightarrow> (string \<Rightarrow> pyval res) \<Rightarrow> (string \<Rightarrow> string) \<Rightarrow> string list \<Rightarrow> (string \<times> pydict) list \<Rightarrow> pydict
    \<Rightarrow> analyzer_params \<Rightarrow> pydict res option" where
  "analyzer_result ord ordv show load abspath target_list target_dicts data params =
     (case ebind (Config_Init load (p_generator_flags params)) (\<lambda>config.
             if \<not> truth (c_files config)
             then Inl (PlainExc ''Must specify files to analyze via config_path generator flag'')
             else ebind (WasGypIncludeFileModified (p_includes params) (c_files config)) (\<lambda>modified.
               Inr (config, modified))) of
        Inl e \<Rightarrow> Some (Inl e)
      | Inr (config, True) \<Rightarrow>
          Some (Inr [(''status'', PStr ''Found dependency (all)''), (''targets'', PList (ordv (c_targets config)))])
      | Inr (config, False) \<Rightarrow>
          (case py_set (c_files config) of
             Inl e \<Rightarrow> Some (Inl e)
           | Inr files \<Rightarrow>
               analyze ord ordv show
                 \<lparr>a_data = data, a_target_dicts = target_dicts,
                  a_toplevel_dir = gyp_path (abspath (p_toplevel_dir params)),
                  a_files = files, a_build_files = p_build_files params\<rparr>
                 target_list (c_targets config)))"

definition analyzer_GenerateOutput where
  "analyzer_GenerateOutput ord ordv show show_err load abspath target_list target_dicts data params =
     map_option (\<lambda>r. WriteOutput (p_generator_flags params)
         (case r of Inl e \<Rightarrow> [(''error'', PStr (show_err e))] | Inr values \<Rightarrow> values))
       (analyzer_result ord ordv show load abspath target_list target_dicts data params)"

section \<open>Which targets depend on a changed one\<close>

lemma tgt_upd: "tgt (upd n f ts) m = (if m = n \<and> map_of ts n \<noteq> None then f (tgt ts m) else tgt ts m)"
  by (auto simp: tgt_def map_of_map_entry split: option.splits)

lemma keys_upd [simp]: "fst ` set (upd n f ts) = fst ` set ts" "(map_of (upd n f ts) m = None) = (map_of ts m = None)"
  by (auto simp: AList.dom_map_entry map_of_map_entry split: option.splits)

text \<open>
  The graph of the passes: the nodes, the direct dependencies, and the nodes that match themselves.
  An order of iteration keeps the elements of a set.
\<close>

definition set_order :: "('a list \<Rightarrow> 'a list) \<Rightarrow> bool" where
  "set_order ord \<longleftrightarrow> (\<forall>xs. set (ord xs) = set xs)"

definition direct :: "('a \<Rightarrow> 'a set) \<Rightarrow> ('a \<times> 'a) set" where
  "direct D = {(n, d). d \<in> D n}"

definition hits :: "('a \<Rightarrow> 'a set) \<Rightarrow> 'a set \<Rightarrow> 'a \<Rightarrow> bool" where
  "hits D M n \<longleftrightarrow> (\<exists>m\<in>M. (n, m) \<in> (direct D)\<^sup>*)"

lemma hits_unfold: "hits D M n \<longleftrightarrow> n \<in> M \<or> (\<exists>d\<in>D n. hits D M d)"
proof -
  have step: "(n, m) \<in> (direct D)\<^sup>* \<longleftrightarrow> n = m \<or> (\<exists>d\<in>D n. (d, m) \<in> (direct D)\<^sup>*)" for m
  proof
    assume "(n, m) \<in> (direct D)\<^sup>*"
    then show "n = m \<or> (\<exists>d\<in>D n. (d, m) \<in> (direct D)\<^sup>*)"
      by (cases rule: converse_rtranclE) (auto simp: direct_def)
  next
    assume "n = m \<or> (\<exists>d\<in>D n. (d, m) \<in> (direct D)\<^sup>*)"
    then show "(n, m) \<in> (direct D)\<^sup>*"
    proof
      assume "\<exists>d\<in>D n. (d, m) \<in> (direct D)\<^sup>*"
      then obtain d where d: "d \<in> D n" "(d, m) \<in> (direct D)\<^sup>*" by blast
      show ?thesis by (rule converse_rtrancl_into_rtrancl [OF _ d(2)]) (simp add: direct_def d(1))
    qed simp
  qed
  show ?thesis unfolding hits_def step by blast
qed

text \<open>The statuses found so far are right, and the rest of the targets is untouched.\<close>

definition statuses_ok :: "string set \<Rightarrow> (string \<Rightarrow> string set) \<Rightarrow> string set \<Rightarrow> target_map \<Rightarrow> target_map \<Rightarrow> bool" where
  "statuses_ok N D M ts0 ts \<longleftrightarrow>
     fst ` set ts = N
     \<and> (\<forall>n\<in>N. set (t_deps (tgt ts n)) = D n
          \<and> (t_match_status (tgt ts n) = Matches \<longleftrightarrow> n \<in> M)
          \<and> (t_match_status (tgt ts n) = MatchesByDependency \<longrightarrow> hits D M n)
          \<and> (t_match_status (tgt ts n) = DoesntMatch \<longrightarrow> \<not> hits D M n)
          \<and> tgt ts n = (tgt ts0 n)\<lparr>t_match_status := t_match_status (tgt ts n)\<rparr>)"

lemma statuses_ok_set:
  assumes "statuses_ok N D M ts0 ts" and "n \<notin> M"
    and "v = MatchesByDependency \<and> hits D M n \<or> v = DoesntMatch \<and> \<not> hits D M n"
  shows "statuses_ok N D M ts0 (upd n (t_match_status_update (\<lambda>_. v)) ts)"
  unfolding statuses_ok_def
proof (intro conjI ballI)
  show "fst ` set (upd n (t_match_status_update (\<lambda>_. v)) ts) = N" using assms(1) by (simp add: statuses_ok_def)
  fix m assume "m \<in> N"
  note ts = assms(1) [unfolded statuses_ok_def, THEN conjunct2, rule_format, OF this]
  let ?ts = "upd n (t_match_status_update (\<lambda>_. v)) ts"
  show "set (t_deps (tgt ?ts m)) = D m" using ts by (auto simp: tgt_upd)
  show "(t_match_status (tgt ?ts m) = Matches) = (m \<in> M)" using ts assms(2,3) by (auto simp: tgt_upd)
  show "t_match_status (tgt ?ts m) = MatchesByDependency \<longrightarrow> hits D M m" using ts assms(3) by (auto simp: tgt_upd)
  show "t_match_status (tgt ?ts m) = DoesntMatch \<longrightarrow> \<not> hits D M m" using ts assms(3) by (auto simp: tgt_upd)
  have "tgt ts m = (tgt ts0 m)\<lparr>t_match_status := t_match_status (tgt ts m)\<rparr>" using ts by blast
  then show "tgt ?ts m = (tgt ts0 m)\<lparr>t_match_status := t_match_status (tgt ?ts m)\<rparr>"
    by (cases "tgt ts m"; cases "tgt ts0 m") (auto simp: tgt_upd)
qed

lemma any_depends_Nil [simp]: "any_depends ord ts [] = Some (False, ts)"
  by (simp add: any_depends.simps)

lemma any_depends_Cons:
  "any_depends ord ts (d # ds) =
     Option.bind (any_depends ord ts [d]) (\<lambda>(found, ts'). if found then Some (True, ts') else any_depends ord ts' ds)"
  by (subst (1 2) any_depends.simps) (cases "any_depends ord ts (ord (t_deps (tgt ts d)))"; auto)

lemma any_depends_list:
  assumes "\<And>d ts. d \<in> set ds \<Longrightarrow> statuses_ok N D M ts0 ts \<Longrightarrow>
      \<exists>ts'. any_depends ord ts [d] = Some (hits D M d, ts') \<and> statuses_ok N D M ts0 ts'"
    and "statuses_ok N D M ts0 ts"
  shows "\<exists>ts'. any_depends ord ts ds = Some (\<exists>d\<in>set ds. hits D M d, ts') \<and> statuses_ok N D M ts0 ts'"
  using assms
proof (induction ds arbitrary: ts)
  case (Cons d ds)
  then obtain ts1 where ts1: "any_depends ord ts [d] = Some (hits D M d, ts1)" "statuses_ok N D M ts0 ts1"
    by (meson list.set_intros(1))
  obtain ts2 where ts2: "any_depends ord ts1 ds = Some (\<exists>d\<in>set ds. hits D M d, ts2)" "statuses_ok N D M ts0 ts2"
    using Cons.IH [of ts1] Cons.prems(1) ts1(2) by (meson list.set_intros(2))
  show ?case
  proof (cases "hits D M d")
    case True
    then show ?thesis using ts1 by (subst any_depends_Cons) auto
  next
    case False
    then show ?thesis using ts1 ts2 by (subst any_depends_Cons) auto
  qed
qed simp

lemma any_depends_one:
  assumes wf: "wf ((direct D)\<inverse>)" and closed: "\<And>n. n \<in> N \<Longrightarrow> D n \<subseteq> N" and ord: "set_order ord"
  shows "n \<in> N \<Longrightarrow> statuses_ok N D M ts0 ts \<Longrightarrow>
    \<exists>ts'. any_depends ord ts [n] = Some (hits D M n, ts') \<and> statuses_ok N D M ts0 ts'"
proof (induction n arbitrary: ts rule: wf_induct_rule [OF wf])
  case (1 n)
  note ts = 1(3) [unfolded statuses_ok_def, THEN conjunct2, rule_format, OF 1(2)]
  have deps: "set (ord (t_deps (tgt ts n))) = D n" using ts ord by (simp add: set_order_def)
  consider "t_match_status (tgt ts n) = DoesntMatch" | "t_match_status (tgt ts n) = Matches"
    | "t_match_status (tgt ts n) = MatchesByDependency" | (tbd) "t_match_status (tgt ts n) = TBD"
    using match_status.exhaust by blast
  then show ?case
  proof cases
    case tbd
    then have M: "n \<notin> M" using ts by auto
    have "\<exists>ts'. any_depends ord t [d] = Some (hits D M d, ts') \<and> statuses_ok N D M ts0 ts'"
      if "d \<in> set (ord (t_deps (tgt ts n)))" "statuses_ok N D M ts0 t" for d t
      using 1(1) [of d t] that closed [OF 1(2)] deps by (auto simp: direct_def)
    then obtain ts' where ts': "any_depends ord ts (ord (t_deps (tgt ts n))) = Some (\<exists>d\<in>D n. hits D M d, ts')"
      "statuses_ok N D M ts0 ts'"
      using any_depends_list [of "ord (t_deps (tgt ts n))" N D M ts0 ord ts] 1(3) unfolding deps by blast
    have h: "hits D M n \<longleftrightarrow> (\<exists>d\<in>D n. hits D M d)" using hits_unfold [of D M n] M by blast
    show ?thesis
    proof (cases "hits D M n")
      case True
      then show ?thesis using tbd ts' h statuses_ok_set [OF ts'(2) M]
        by (subst any_depends.simps) auto
    next
      case False
      then show ?thesis using tbd ts' h statuses_ok_set [OF ts'(2) M]
        by (subst any_depends.simps) auto
    qed
  qed (use ts 1(3) hits_unfold [of D M n] in \<open>subst any_depends.simps, auto\<close>)+
qed

lemma GetTargetsDependingOn_hits:
  assumes "wf ((direct D)\<inverse>)" and "\<And>n. n \<in> N \<Longrightarrow> D n \<subseteq> N" and "set_order ord"
  shows "set xs \<subseteq> N \<Longrightarrow> statuses_ok N D M ts0 ts \<Longrightarrow>
    \<exists>ts'. GetTargetsDependingOn ord ts xs = Some (filter (hits D M) xs, ts') \<and> statuses_ok N D M ts0 ts'"
proof (induction xs arbitrary: ts)
  case (Cons x xs)
  obtain ts1 where ts1: "any_depends ord ts [x] = Some (hits D M x, ts1)" "statuses_ok N D M ts0 ts1"
    using any_depends_one [OF assms, of x M ts0 ts] Cons.prems by auto
  then show ?case using Cons.IH [of ts1] Cons.prems by (auto simp: DoesTargetDependOn_def)
qed simp

section \<open>What has to be built\<close>

text \<open>
  A walk over the dependents \<open>B\<close>. \<open>top_of\<close> holds for the nodes below a root that nothing depends on.
\<close>

record walk_graph =
  b_nodes :: "string set"
  b_back :: "string \<Rightarrow> string set"
  b_exe :: "string \<Rightarrow> bool"
  b_req :: "string \<Rightarrow> bool"
  b_roots :: "string list"
  b_matching :: "string set"

definition in_root :: "walk_graph \<Rightarrow> string \<Rightarrow> bool" where
  "in_root G = hits (b_back G) {r \<in> set (b_roots G). b_back G r = {}}"

definition above :: "walk_graph \<Rightarrow> string \<Rightarrow> string set" where
  "above G n = {u. (n, u) \<in> (direct (b_back G))\<^sup>*}"

lemma in_root_unfold: "in_root G n \<longleftrightarrow> (b_back G n = {} \<and> n \<in> set (b_roots G)) \<or> (\<exists>b\<in>b_back G n. in_root G b)"
  unfolding in_root_def by (subst hits_unfold) auto

lemma above_self [simp]: "n \<in> above G n"
  by (simp add: above_def)

lemma above_step: "b \<in> b_back G n \<Longrightarrow> above G b \<subseteq> above G n"
  unfolding above_def direct_def by (auto intro: converse_rtrancl_into_rtrancl)

lemma above_cases: "above G n = insert n (\<Union>b\<in>b_back G n. above G b)"
proof
  show "above G n \<subseteq> insert n (\<Union>b\<in>b_back G n. above G b)"
    unfolding above_def direct_def by (auto elim: converse_rtranclE)
  show "insert n (\<Union>b\<in>b_back G n. above G b) \<subseteq> above G n" using above_step by fastforce
qed

text \<open>The targets still have the links and kinds the graph is made of.\<close>

definition same_graph :: "walk_graph \<Rightarrow> target_map \<Rightarrow> bool" where
  "same_graph G ts \<longleftrightarrow> fst ` set ts = b_nodes G \<and> (\<forall>n\<in>b_nodes G.
     set (t_back_deps (tgt ts n)) = b_back G n \<and> t_is_executable (tgt ts n) = b_exe G n
     \<and> t_requires_build (tgt ts n) = b_req G n \<and> (\<not> t_visited (tgt ts n) \<longrightarrow> \<not> t_added_to_compile_targets (tgt ts n)))"

text \<open>A target that has been left.\<close>

definition node_done :: "walk_graph \<Rightarrow> build_state \<Rightarrow> string \<Rightarrow> bool" where
  "node_done G st n \<longleftrightarrow>
     (let t = tgt (fst st) n; above_added = (\<exists>b\<in>b_back G n. t_added_to_compile_targets (tgt (fst st) b)) in
      t_visited t \<and> t_in_roots t = in_root G n
      \<and> t_added_to_compile_targets t = (n \<in> set (snd st) \<or> above_added)
      \<and> (n \<in> set (snd st) \<longrightarrow> in_root G n \<and> (b_exe G n \<or> \<not> above_added \<and> (b_req G n \<or> n \<in> b_matching G)))
      \<and> (in_root G n \<and> b_exe G n \<longrightarrow> n \<in> set (snd st))
      \<and> (in_root G n \<and> b_req G n \<longrightarrow> t_added_to_compile_targets t))"

definition walk_inv :: "walk_graph \<Rightarrow> string set \<Rightarrow> build_state \<Rightarrow> bool" where
  "walk_inv G F st \<longleftrightarrow> same_graph G (fst st) \<and> F \<subseteq> b_nodes G \<and> set (snd st) \<subseteq> F \<and> distinct (snd st)
     \<and> (\<forall>n\<in>F. b_back G n \<subseteq> F \<and> node_done G st n)"

lemma walk_invD:
  assumes "walk_inv G F st"
  shows "same_graph G (fst st)" and "F \<subseteq> b_nodes G" and "set (snd st) \<subseteq> F" and "distinct (snd st)"
    and "n \<in> F \<Longrightarrow> b_back G n \<subseteq> F" and "n \<in> F \<Longrightarrow> node_done G st n"
  using assms unfolding walk_inv_def by blast+

lemma walk_inv_above: "walk_inv G F st \<Longrightarrow> n \<in> F \<Longrightarrow> above G n \<subseteq> F"
proof
  fix u assume inv: "walk_inv G F st" and n: "n \<in> F" and "u \<in> above G n"
  then have "(n, u) \<in> (direct (b_back G))\<^sup>*" by (simp add: above_def)
  then show "u \<in> F"
  proof (induction rule: rtrancl_induct)
    case (step y z)
    then show ?case using walk_invD(5) [OF inv, of y] by (auto simp: direct_def)
  qed (use n in simp)
qed

text \<open>Changing a target outside \<open>F\<close> keeps the invariant.\<close>

lemma walk_inv_frame:
  assumes inv: "walk_inv G F st" and same: "same_graph G ts'" and agree: "\<And>m. m \<in> F \<Longrightarrow> tgt ts' m = tgt (fst st) m"
  shows "walk_inv G F (ts', snd st)"
  unfolding walk_inv_def
proof (intro conjI ballI)
  fix n assume n: "n \<in> F"
  have dependents: "tgt ts' b = tgt (fst st) b" if "b \<in> b_back G n" for b
    using agree that walk_invD(5) [OF inv n] by blast
  show "node_done G (ts', snd st) n"
    using walk_invD(6) [OF inv n] dependents agree [OF n] by (simp add: node_done_def)
qed (use walk_invD [OF inv] same in auto)

lemma same_graph_upd:
  assumes "same_graph G ts" and "\<And>t. t_back_deps (f t) = t_back_deps t \<and> t_is_executable (f t) = t_is_executable t
      \<and> t_requires_build (f t) = t_requires_build t"
    and "t_visited (f (tgt ts n))"
  shows "same_graph G (upd n f ts)"
  using assms unfolding same_graph_def by (auto simp: tgt_upd)

lemma add_back_Nil [simp]: "add_back ord roots n [] st = Some st"
  by (simp add: add_back.simps)

lemma add_back_Cons:
  "add_back ord roots n (b # bs) st =
     Option.bind (AddBuildTargets ord roots False b st) (\<lambda>st. add_back ord roots n bs (inherit_flags n b st))"
  by (subst add_back.simps) (simp add: AddBuildTargets_def)

lemma tgt_in: "same_graph G ts \<Longrightarrow> n \<in> b_nodes G \<Longrightarrow> map_of ts n \<noteq> None"
  by (auto simp: same_graph_def map_of_eq_None_iff)

text \<open>Leaving a target whose dependents have been left.\<close>

lemma leave_target_ok:
  assumes inv: "walk_inv G F st" and n: "n \<in> b_nodes G" "n \<notin> F" "b_back G n \<subseteq> F"
    and t: "t_visited (tgt (fst st) n)" "t_in_roots (tgt (fst st) n) = in_root G n"
      "t_added_to_compile_targets (tgt (fst st) n) = (\<exists>b\<in>b_back G n. t_added_to_compile_targets (tgt (fst st) b))"
    and flag: "flag \<longrightarrow> n \<in> b_matching G"
  shows "walk_inv G (insert n F) (leave_target flag n st)"
    and "m \<noteq> n \<Longrightarrow> tgt (fst (leave_target flag n st)) m = tgt (fst st) m"
proof -
  let ?st = "leave_target flag n st" and ?t = "tgt (fst st) n"
  let ?add = "t_in_roots ?t \<and> (t_is_executable ?t \<or> \<not> t_added_to_compile_targets ?t \<and> (flag \<or> t_requires_build ?t))"
  note g = walk_invD(1) [OF inv] and has = tgt_in [OF walk_invD(1) [OF inv] n(1)]
  have kind: "t_is_executable ?t = b_exe G n" "t_requires_build ?t = b_req G n"
    using g n(1) by (simp_all add: same_graph_def)
  show others: "tgt (fst ?st) m = tgt (fst st) m" if "m \<noteq> n" for m
    using that by (simp add: leave_target_def Let_def tgt_upd)
  have self: "tgt (fst ?st) n = ?t\<lparr>t_added_to_compile_targets := ?add \<or> t_added_to_compile_targets ?t\<rparr>"
    using has by (cases ?t) (auto simp: leave_target_def Let_def tgt_upd)
  have res: "set (snd ?st) = (if ?add then insert n (set (snd st)) else set (snd st))"
    by (auto simp: leave_target_def Let_def)
  have nres: "n \<notin> set (snd st)" using walk_invD(3) [OF inv] n(2) by blast
  have "same_graph G (fst ?st)"
    using g t(1) by (auto simp: leave_target_def Let_def intro: same_graph_upd)
  moreover have "distinct (snd ?st)" using walk_invD(4) [OF inv] by (simp add: leave_target_def Let_def)
  moreover have "node_done G ?st u" if u: "u \<in> F" for u
  proof -
    have "n \<notin> b_back G u" "u \<noteq> n" using walk_invD(5) [OF inv u] n(2) u by auto
    then have "tgt (fst ?st) b = tgt (fst st) b" if "b \<in> insert u (b_back G u)" for b
      using others [of b] that by blast
    moreover have "u \<in> set (snd ?st) \<longleftrightarrow> u \<in> set (snd st)" using res \<open>u \<noteq> n\<close> by auto
    ultimately show ?thesis using walk_invD(6) [OF inv u] by (simp add: node_done_def)
  qed
  moreover have "node_done G ?st n"
  proof -
    have "tgt (fst ?st) b = tgt (fst st) b" if "b \<in> b_back G n" for b
      using others [of b] that n(2,3) by blast
    then show ?thesis
      unfolding node_done_def Let_def self res using t flag kind nres by auto
  qed
  moreover have "set (snd ?st) \<subseteq> insert n F" using walk_invD(3) [OF inv] by (auto simp: res)
  moreover have "b_back G u \<subseteq> insert n F" if "u \<in> insert n F" for u
    using that n(3) walk_invD(5) [OF inv, of u] by blast
  ultimately show "walk_inv G (insert n F) ?st"
    unfolding walk_inv_def using walk_invD(2) [OF inv] n(1) by blast
qed

text \<open>One step of the loop over the dependents, after the dependent \<open>b\<close> has been left.\<close>

lemma inherit_flags_ok:
  assumes inv: "walk_inv G F st" and n: "n \<in> b_nodes G" "n \<notin> F" "t_visited (tgt (fst st) n)"
  shows "walk_inv G F (inherit_flags n b st)"
    and "m \<noteq> n \<Longrightarrow> tgt (fst (inherit_flags n b st)) m = tgt (fst st) m"
    and "tgt (fst (inherit_flags n b st)) n = (tgt (fst st) n)\<lparr>
      t_added_to_compile_targets := t_added_to_compile_targets (tgt (fst st) n) \<or> t_added_to_compile_targets (tgt (fst st) b),
      t_in_roots := t_in_roots (tgt (fst st) n) \<or> t_in_roots (tgt (fst st) b)\<rparr>"
    and "snd (inherit_flags n b st) = snd st"
proof -
  note g = walk_invD(1) [OF inv] and has = tgt_in [OF walk_invD(1) [OF inv] n(1)]
  show o: "tgt (fst (inherit_flags n b st)) m = tgt (fst st) m" if "m \<noteq> n" for m
    using that by (simp add: inherit_flags_def tgt_upd)
  show "tgt (fst (inherit_flags n b st)) n = (tgt (fst st) n)\<lparr>
      t_added_to_compile_targets := t_added_to_compile_targets (tgt (fst st) n) \<or> t_added_to_compile_targets (tgt (fst st) b),
      t_in_roots := t_in_roots (tgt (fst st) n) \<or> t_in_roots (tgt (fst st) b)\<rparr>"
    using has by (simp add: inherit_flags_def tgt_upd)
  show snd: "snd (inherit_flags n b st) = snd st" by (simp add: inherit_flags_def)
  have "same_graph G (fst (inherit_flags n b st))"
    unfolding inherit_flags_def fst_conv by (rule same_graph_upd [OF g]) (use n(3) in simp_all)
  then have "walk_inv G F (fst (inherit_flags n b st), snd st)"
    by (rule walk_inv_frame [OF inv]) (metis o n(2))
  then show "walk_inv G F (inherit_flags n b st)" using snd by (metis prod.collapse)
qed

lemma enter_target_ok:
  assumes inv: "walk_inv G F st" and n: "n \<in> b_nodes G" "n \<notin> F"
  shows "walk_inv G F (enter_target (b_roots G) n st)"
    and "m \<noteq> n \<Longrightarrow> tgt (fst (enter_target (b_roots G) n st)) m = tgt (fst st) m"
    and "tgt (fst (enter_target (b_roots G) n st)) n = (tgt (fst st) n)\<lparr>t_visited := True,
      t_in_roots := (b_back G n = {} \<and> n \<in> set (b_roots G))\<rparr>"
proof -
  let ?st = "enter_target (b_roots G) n st"
  note g = walk_invD(1) [OF inv] and has = tgt_in [OF walk_invD(1) [OF inv] n(1)]
  have dependents: "t_back_deps (tgt (fst st) n) = [] \<longleftrightarrow> b_back G n = {}" using g n(1) by (auto simp: same_graph_def)
  show o: "tgt (fst ?st) m = tgt (fst st) m" if "m \<noteq> n" for m
    using that by (simp add: enter_target_def tgt_upd)
  show "tgt (fst ?st) n = (tgt (fst st) n)\<lparr>t_visited := True, t_in_roots := (b_back G n = {} \<and> n \<in> set (b_roots G))\<rparr>"
    using has dependents by (simp add: enter_target_def tgt_upd)
  have "same_graph G (fst ?st)"
    unfolding enter_target_def fst_conv by (rule same_graph_upd [OF g]) simp_all
  then have "walk_inv G F (fst ?st, snd st)" by (rule walk_inv_frame [OF inv]) (metis o n(2))
  then show "walk_inv G F ?st" by (simp add: enter_target_def)
qed

text \<open>What a call of \<open>_AddBuildTargets\<close> does to any state in which nothing above \<open>n\<close> is being visited.\<close>

definition visit_ok :: "(string list \<Rightarrow> string list) \<Rightarrow> walk_graph \<Rightarrow> bool \<Rightarrow> string \<Rightarrow> bool" where
  "visit_ok ord G flag n \<longleftrightarrow>
     (\<forall>F st. walk_inv G F st \<longrightarrow> (\<forall>m\<in>above G n. t_visited (tgt (fst st) m) \<longrightarrow> m \<in> F) \<longrightarrow>
        (\<exists>st'. AddBuildTargets ord (b_roots G) flag n st = Some st' \<and> walk_inv G (F \<union> above G n) st'
          \<and> (\<forall>m. m \<in> F \<or> m \<notin> above G n \<longrightarrow> tgt (fst st') m = tgt (fst st) m)))"

lemma visit_okD:
  assumes "visit_ok ord G flag n" and "walk_inv G F st" and "\<forall>m\<in>above G n. t_visited (tgt (fst st) m) \<longrightarrow> m \<in> F"
  obtains st' where "AddBuildTargets ord (b_roots G) flag n st = Some st'" and "walk_inv G (F \<union> above G n) st'"
    and "\<And>m. m \<in> F \<or> m \<notin> above G n \<Longrightarrow> tgt (fst st') m = tgt (fst st) m"
  using assms(1) [unfolded visit_ok_def, rule_format, OF assms(2)] assms(3) by blast

lemma add_loop:
  assumes "\<forall>b\<in>set bs. visit_ok ord G False b \<and> n \<notin> above G b" and n: "n \<in> b_nodes G"
    and "walk_inv G F st" and "n \<notin> F" and "t_visited (tgt (fst st) n)"
    and "\<forall>b\<in>set bs. \<forall>m\<in>above G b. t_visited (tgt (fst st) m) \<longrightarrow> m \<in> F"
  shows "\<exists>st'. add_back ord (b_roots G) n bs st = Some st' \<and> walk_inv G (F \<union> (\<Union>b\<in>set bs. above G b)) st'
      \<and> (\<forall>m. m \<in> F \<or> m \<noteq> n \<and> m \<notin> (\<Union>b\<in>set bs. above G b) \<longrightarrow> tgt (fst st') m = tgt (fst st) m)
      \<and> tgt (fst st') n = (tgt (fst st) n)\<lparr>
          t_added_to_compile_targets := t_added_to_compile_targets (tgt (fst st) n)
            \<or> (\<exists>b\<in>set bs. t_added_to_compile_targets (tgt (fst st') b)),
          t_in_roots := t_in_roots (tgt (fst st) n) \<or> (\<exists>b\<in>set bs. in_root G b)\<rparr>"
  using assms
proof (induction bs arbitrary: F st)
  case Nil
  then show ?case by simp
next
  case (Cons b bs)
  let ?F = "F \<union> above G b"
  note inv = Cons.prems(3) and nF = Cons.prems(4) and vis = Cons.prems(5) and above_F = Cons.prems(6)
  have nb: "n \<notin> above G b" and nbs: "\<forall>b\<in>set bs. visit_ok ord G False b \<and> n \<notin> above G b"
    and vb: "visit_ok ord G False b" and fb: "\<forall>m\<in>above G b. t_visited (tgt (fst st) m) \<longrightarrow> m \<in> F"
    using Cons.prems(1) above_F by simp_all
  have bn: "b \<noteq> n" using nb above_self by blast
  obtain st1 where st1: "AddBuildTargets ord (b_roots G) False b st = Some st1" "walk_inv G ?F st1"
      "\<And>m. m \<in> F \<or> m \<notin> above G b \<Longrightarrow> tgt (fst st1) m = tgt (fst st) m"
    by (rule visit_okD [OF vb inv fb]) (rule that)
  have n1: "n \<notin> ?F" "t_visited (tgt (fst st1) n)" "tgt (fst st1) n = tgt (fst st) n"
    using nF vis nb st1(3) by auto
  let ?st2 = "inherit_flags n b st1"
  note inh = inherit_flags_ok [OF st1(2) n n1(1,2), where b = b]
  have n2: "t_visited (tgt (fst ?st2) n)" using inh(3) n1(2) by simp
  have v2: "\<forall>b'\<in>set bs. \<forall>m\<in>above G b'. t_visited (tgt (fst ?st2) m) \<longrightarrow> m \<in> ?F"
  proof (intro ballI impI)
    fix b' m assume b': "b' \<in> set bs" and m: "m \<in> above G b'" and v: "t_visited (tgt (fst ?st2) m)"
    have "m \<noteq> n" using nbs b' m by auto
    then have "t_visited (tgt (fst st1) m)" using v inh(2) by simp
    then show "m \<in> ?F" using above_F st1(3) b' m by (cases "m \<in> above G b") auto
  qed
  obtain st' where st': "add_back ord (b_roots G) n bs ?st2 = Some st'"
      "walk_inv G (?F \<union> (\<Union>b\<in>set bs. above G b)) st'"
      "\<forall>m. m \<in> ?F \<or> m \<noteq> n \<and> m \<notin> (\<Union>b\<in>set bs. above G b) \<longrightarrow> tgt (fst st') m = tgt (fst ?st2) m"
      "tgt (fst st') n = (tgt (fst ?st2) n)\<lparr>
          t_added_to_compile_targets := t_added_to_compile_targets (tgt (fst ?st2) n)
            \<or> (\<exists>b\<in>set bs. t_added_to_compile_targets (tgt (fst st') b)),
          t_in_roots := t_in_roots (tgt (fst ?st2) n) \<or> (\<exists>b\<in>set bs. in_root G b)\<rparr>"
    using Cons.IH [OF nbs n inh(1) n1(1) n2 v2] by (elim exE conjE) (rule that)
  have b: "tgt (fst st') b = tgt (fst st1) b" using st'(3) inh(2) [OF bn] by simp
  have root: "t_in_roots (tgt (fst st1) b) = in_root G b"
    using walk_invD(6) [OF st1(2), of b] by (simp add: node_done_def Let_def)
  have "tgt (fst st') m = tgt (fst st) m"
    if "m \<in> F \<or> m \<noteq> n \<and> m \<notin> (\<Union>b\<in>set (b # bs). above G b)" for m
  proof -
    have m: "m \<noteq> n" "m \<in> F \<or> m \<notin> above G b" "m \<in> ?F \<or> m \<notin> (\<Union>b\<in>set bs. above G b)"
      using that nF by auto
    then have "tgt (fst st') m = tgt (fst ?st2) m" using st'(3) by blast
    then show ?thesis using inh(2) [OF m(1)] st1(3) [OF m(2)] by simp
  qed
  moreover have "tgt (fst st') n = (tgt (fst st) n)\<lparr>
          t_added_to_compile_targets := t_added_to_compile_targets (tgt (fst st) n)
            \<or> (\<exists>b\<in>set (b # bs). t_added_to_compile_targets (tgt (fst st') b)),
          t_in_roots := t_in_roots (tgt (fst st) n) \<or> (\<exists>b\<in>set (b # bs). in_root G b)\<rparr>"
    unfolding st'(4) inh(3) using root n1(3) b by (cases "tgt (fst st) n") auto
  moreover have "walk_inv G (F \<union> (\<Union>b\<in>set (b # bs). above G b)) st'" using st'(2) by (simp add: Un_assoc)
  ultimately show ?case using st1(1) st'(1) by (simp add: add_back_Cons)
qed

lemma add_one:
  assumes wf: "wf ((direct (b_back G))\<inverse>)" and closed: "\<And>n. n \<in> b_nodes G \<Longrightarrow> b_back G n \<subseteq> b_nodes G"
    and ord: "set_order ord"
  shows "n \<in> b_nodes G \<Longrightarrow> flag \<longrightarrow> n \<in> b_matching G \<Longrightarrow> visit_ok ord G flag n"
proof (induction n arbitrary: flag rule: wf_induct_rule [OF wf])
  case (1 n)
  note n = 1(2) and flag = 1(3)
  have "\<exists>st'. AddBuildTargets ord (b_roots G) flag n st = Some st' \<and> walk_inv G (F \<union> above G n) st'
      \<and> (\<forall>m. m \<in> F \<or> m \<notin> above G n \<longrightarrow> tgt (fst st') m = tgt (fst st) m)"
    if inv: "walk_inv G F st" and aF: "\<forall>m\<in>above G n. t_visited (tgt (fst st) m) \<longrightarrow> m \<in> F" for F st
  proof (cases "t_visited (tgt (fst st) n)")
    case True
    then have "n \<in> F" using aF by simp
    then have "F \<union> above G n = F" using walk_inv_above [OF inv] by blast
    then show ?thesis using True inv by (simp add: AddBuildTargets_def)
  next
    case False
    then have nF: "n \<notin> F" using walk_invD(6) [OF inv, of n] by (auto simp: node_done_def Let_def)
    let ?bs = "ord (t_back_deps (tgt (fst st) n))" and ?st1 = "enter_target (b_roots G) n st"
    have bs: "set ?bs = b_back G n" using walk_invD(1) [OF inv] n ord by (simp add: same_graph_def set_order_def)
    have cyc: "n \<notin> above G b" if "b \<in> b_back G n" for b
    proof
      assume "n \<in> above G b"
      then have "(n, n) \<in> (direct (b_back G))\<^sup>+"
        using that by (auto simp: above_def direct_def intro: rtrancl_into_trancl2)
      then have "(n, n) \<in> ((direct (b_back G))\<inverse>)\<^sup>+" by (simp add: trancl_converse)
      then show False using wf_acyclic [OF wf] by (simp add: acyclic_def)
    qed
    note ent = enter_target_ok [OF inv n nF]
    have v1: "\<forall>b\<in>set ?bs. \<forall>m\<in>above G b. t_visited (tgt (fst ?st1) m) \<longrightarrow> m \<in> F"
    proof (intro ballI impI)
      fix b m assume b: "b \<in> set ?bs" "m \<in> above G b" "t_visited (tgt (fst ?st1) m)"
      then have "m \<noteq> n" using cyc bs by auto
      then show "m \<in> F" using b aF ent(2) above_step [of b G n] bs by auto
    qed
    have n1: "t_visited (tgt (fst ?st1) n)" using ent(3) by simp
    have later: "\<forall>b\<in>set ?bs. visit_ok ord G False b \<and> n \<notin> above G b"
      using 1(1) closed [OF n] bs cyc by (auto simp: direct_def)
    obtain st2 where st2: "add_back ord (b_roots G) n ?bs ?st1 = Some st2"
        "walk_inv G (F \<union> (\<Union>b\<in>set ?bs. above G b)) st2"
        "\<forall>m. m \<in> F \<or> m \<noteq> n \<and> m \<notin> (\<Union>b\<in>set ?bs. above G b) \<longrightarrow> tgt (fst st2) m = tgt (fst ?st1) m"
        "tgt (fst st2) n = (tgt (fst ?st1) n)\<lparr>
          t_added_to_compile_targets := t_added_to_compile_targets (tgt (fst ?st1) n)
            \<or> (\<exists>b\<in>set ?bs. t_added_to_compile_targets (tgt (fst st2) b)),
          t_in_roots := t_in_roots (tgt (fst ?st1) n) \<or> (\<exists>b\<in>set ?bs. in_root G b)\<rparr>"
      using add_loop [OF later n ent(1) nF n1 v1] by (elim exE conjE) (rule that)
    let ?F = "F \<union> (\<Union>b\<in>set ?bs. above G b)"
    have nF2: "n \<notin> ?F" using nF cyc bs by blast
    have sub: "b_back G n \<subseteq> ?F" using bs above_self by fastforce
    have new: "\<not> t_added_to_compile_targets (tgt (fst st) n)"
      using False walk_invD(1) [OF inv] n by (simp add: same_graph_def)
    have t2: "t_visited (tgt (fst st2) n)" "t_in_roots (tgt (fst st2) n) = in_root G n"
      "t_added_to_compile_targets (tgt (fst st2) n) = (\<exists>b\<in>b_back G n. t_added_to_compile_targets (tgt (fst st2) b))"
      using st2(4) ent(3) new bs in_root_unfold [of G n] by auto
    have eq: "insert n ?F = F \<union> above G n" using above_cases [of G n] bs by auto
    note leave = leave_target_ok [OF st2(2) n nF2 sub t2 flag]
    have "walk_inv G (F \<union> above G n) (leave_target flag n st2)" using leave(1) eq by simp
    moreover have "tgt (fst (leave_target flag n st2)) m = tgt (fst st) m" if "m \<in> F \<or> m \<notin> above G n" for m
    proof -
      have m: "m \<noteq> n" "m \<in> F \<or> m \<notin> (\<Union>b\<in>set ?bs. above G b)" using that nF eq by auto
      then show ?thesis using leave(2) [OF m(1)] st2(3) ent(2) [OF m(1)] by auto
    qed
    ultimately show ?thesis using False st2(1) by (auto simp: AddBuildTargets_def)
  qed
  then show ?case unfolding visit_ok_def by blast
qed

lemma GetBuildTargets_walk:
  assumes wf: "wf ((direct (b_back G))\<inverse>)" and closed: "\<And>n. n \<in> b_nodes G \<Longrightarrow> b_back G n \<subseteq> b_nodes G"
    and ord: "set_order ord"
  shows "set xs \<subseteq> b_nodes G \<inter> b_matching G \<Longrightarrow> walk_inv G F st \<Longrightarrow> \<forall>m. t_visited (tgt (fst st) m) \<longrightarrow> m \<in> F \<Longrightarrow>
    \<exists>st'. GetBuildTargets ord (b_roots G) xs st = Some st' \<and> walk_inv G (F \<union> (\<Union>x\<in>set xs. above G x)) st'"
proof (induction xs arbitrary: F st)
  case (Cons x xs)
  have ok: "visit_ok ord G True x" using add_one [OF wf closed ord] Cons.prems(1) by auto
  have vx: "\<forall>m\<in>above G x. t_visited (tgt (fst st) m) \<longrightarrow> m \<in> F" using Cons.prems(3) by blast
  obtain st1 where st1: "AddBuildTargets ord (b_roots G) True x st = Some st1" "walk_inv G (F \<union> above G x) st1"
      "\<And>m. m \<in> F \<or> m \<notin> above G x \<Longrightarrow> tgt (fst st1) m = tgt (fst st) m"
    by (rule visit_okD [OF ok Cons.prems(2) vx]) (rule that)
  have xs: "set xs \<subseteq> b_nodes G \<inter> b_matching G" using Cons.prems(1) by simp
  have "\<forall>m. t_visited (tgt (fst st1) m) \<longrightarrow> m \<in> F \<union> above G x"
  proof (intro allI impI)
    fix m assume "t_visited (tgt (fst st1) m)"
    then show "m \<in> F \<union> above G x" using Cons.prems(3) st1(3) [of m] by auto
  qed
  from Cons.IH [OF xs st1(2) this] st1(1) show ?case by (auto simp: Un_assoc)
qed simp

lemma added_iff:
  assumes wf: "wf ((direct (b_back G))\<inverse>)" and inv: "walk_inv G F st"
  shows "n \<in> F \<Longrightarrow> t_added_to_compile_targets (tgt (fst st) n) \<longleftrightarrow> (\<exists>u\<in>above G n. u \<in> set (snd st))"
proof (induction n rule: wf_induct_rule [OF wf])
  case (1 n)
  have "t_added_to_compile_targets (tgt (fst st) n) \<longleftrightarrow>
      n \<in> set (snd st) \<or> (\<exists>b\<in>b_back G n. t_added_to_compile_targets (tgt (fst st) b))"
    using walk_invD(6) [OF inv 1(2)] by (simp add: node_done_def Let_def)
  also have "\<dots> \<longleftrightarrow> n \<in> set (snd st) \<or> (\<exists>b\<in>b_back G n. \<exists>u\<in>above G b. u \<in> set (snd st))"
    using 1(1) walk_invD(5) [OF inv 1(2)] by (auto simp: direct_def)
  finally show ?case unfolding above_cases [of G n] by blast
qed

text \<open>
  What the set of targets to build is for the nodes \<open>F\<close> above the changed ones: each is below a root
  and is an executable, needs a build or has changed; every executable below a root is in it; every
  node below a root that needs a build is built with one that depends on it; and only executables
  have another target to build above them.
\<close>

definition builds :: "walk_graph \<Rightarrow> string set \<Rightarrow> string set \<Rightarrow> bool" where
  "builds G F res \<longleftrightarrow>
     res \<subseteq> F
     \<and> (\<forall>u\<in>res. in_root G u \<and> (b_exe G u \<or> b_req G u \<or> u \<in> b_matching G))
     \<and> (\<forall>u\<in>F. in_root G u \<and> b_exe G u \<longrightarrow> u \<in> res)
     \<and> (\<forall>n\<in>F. in_root G n \<and> b_req G n \<longrightarrow> (\<exists>u\<in>res. u \<in> above G n))
     \<and> (\<forall>u\<in>res. \<not> b_exe G u \<longrightarrow> (\<forall>v\<in>res. v \<in> above G u \<longrightarrow> v = u))"

lemma walk_inv_builds:
  assumes wf: "wf ((direct (b_back G))\<inverse>)" and inv: "walk_inv G F st"
  shows "builds G F (set (snd st))"
proof -
  have done': "node_done G st n" if "n \<in> F" for n using walk_invD(6) [OF inv that] .
  have sub: "set (snd st) \<subseteq> F" using walk_invD(3) [OF inv] .
  have "v = u" if u: "u \<in> set (snd st)" "\<not> b_exe G u" and v: "v \<in> set (snd st)" "v \<in> above G u" for u v
  proof (rule ccontr)
    assume "v \<noteq> u"
    then obtain b where b: "b \<in> b_back G u" "v \<in> above G b" using v(2) above_cases [of G u] by auto
    then have "b \<in> F" using walk_invD(5) [OF inv, of u] u(1) sub by auto
    then have "t_added_to_compile_targets (tgt (fst st) b)" using added_iff [OF wf inv, of b] b(2) v(1) by blast
    then show False using done' [of u] u sub b(1) by (auto simp: node_done_def Let_def)
  qed
  moreover have "\<exists>u\<in>set (snd st). u \<in> above G n" if "n \<in> F" "in_root G n" "b_req G n" for n
    using done' [OF that(1)] that added_iff [OF wf inv that(1)] by (auto simp: node_done_def Let_def)
  moreover have "in_root G u \<and> (b_exe G u \<or> b_req G u \<or> u \<in> b_matching G)" if "u \<in> set (snd st)" for u
    using done' [of u] that sub by (auto simp: node_done_def Let_def)
  moreover have "u \<in> set (snd st)" if "u \<in> F" "in_root G u" "b_exe G u" for u
    using done' [OF that(1)] that by (auto simp: node_done_def Let_def)
  ultimately show ?thesis using sub unfolding builds_def by blast
qed

section \<open>From the target dictionaries to the report\<close>

lemma finite_dep_rel: "finite (dep_rel a)"
proof -
  have "dep_rel a \<subseteq> (SIGMA n:fst ` set (a_target_dicts a). set (deps_of a n))"
    unfolding dep_rel_def by (auto simp: deps_of_def split: sum.splits dest: target_info_key [OF sym] target_info_key)
  then show ?thesis by (rule finite_subset) (intro finite_SigmaI; simp)
qed

text \<open>The graph of the analysis as the passes see it.\<close>

definition kind_of :: "analysis \<Rightarrow> (target_facts \<Rightarrow> bool) \<Rightarrow> string \<Rightarrow> bool" where
  "kind_of a P n \<longleftrightarrow> (\<exists>i. target_info a n = Inr i \<and> P i)"

definition graph_for :: "analysis \<Rightarrow> string set \<Rightarrow> string list \<Rightarrow> walk_graph" where
  "graph_for a N roots = \<lparr>b_nodes = N, b_back = (\<lambda>n. {u \<in> N. n \<in> set (deps_of a u)}),
     b_exe = kind_of a i_executable, b_req = kind_of a i_requires, b_roots = roots,
     b_matching = {n \<in> N. kind_of a i_matches n}\<rparr>"

lemma direct_deps: "direct (\<lambda>n. set (deps_of a n)) = dep_rel a"
  by (simp add: direct_def dep_rel_def)

lemma tgt_built:
  assumes "graph_built a N ts" and "n \<in> N"
  shows "\<exists>i. target_info a n = Inr i \<and> t_visited (tgt ts n) \<and> \<not> t_added_to_compile_targets (tgt ts n)
    \<and> t_requires_build (tgt ts n) = i_requires i \<and> t_is_executable (tgt ts n) = i_executable i
    \<and> t_match_status (tgt ts n) = (if i_matches i then Matches else TBD)
    \<and> set (t_deps (tgt ts n)) = set (deps_of a n) \<and> set (t_back_deps (tgt ts n)) = {u \<in> N. n \<in> set (deps_of a u)}"
proof -
  obtain t where t: "map_of ts n = Some t" using assms unfolding graph_built_def by (metis map_of_eq_None_iff option.exhaust)
  then have tgt: "tgt ts n = t" by (simp add: tgt_def)
  obtain i where i: "target_info a n = Inr i" "t_visited t \<and> \<not> t_added_to_compile_targets t
    \<and> t_requires_build t = i_requires i \<and> t_is_executable t = i_executable i
    \<and> t_match_status t = (if i_matches i then Matches else TBD) \<and> set (t_deps t) = set (i_deps i)
    \<and> set (t_back_deps t) = {u \<in> N. n \<in> set (deps_of a u)}"
    using assms(1) t unfolding graph_built_def by blast
  moreover have "deps_of a n = i_deps i" by (simp add: deps_of_def i(1))
  ultimately show ?thesis unfolding tgt by (intro exI [of _ i]) simp
qed

lemma statuses_start:
  assumes "graph_built a N ts"
  shows "statuses_ok N (\<lambda>n. set (deps_of a n)) {n \<in> N. kind_of a i_matches n} ts ts"
  unfolding statuses_ok_def
proof (intro conjI ballI)
  fix n assume n: "n \<in> N"
  obtain i where "target_info a n = Inr i" "set (t_deps (tgt ts n)) = set (deps_of a n)"
    "t_match_status (tgt ts n) = (if i_matches i then Matches else TBD)"
    using tgt_built [OF assms n] by auto
  then show "set (t_deps (tgt ts n)) = set (deps_of a n)"
    "(t_match_status (tgt ts n) = Matches) = (n \<in> {n \<in> N. kind_of a i_matches n})"
    "t_match_status (tgt ts n) = MatchesByDependency \<longrightarrow> hits (\<lambda>n. set (deps_of a n)) {n \<in> N. kind_of a i_matches n} n"
    "t_match_status (tgt ts n) = DoesntMatch \<longrightarrow> \<not> hits (\<lambda>n. set (deps_of a n)) {n \<in> N. kind_of a i_matches n} n"
    using n by (auto simp: kind_of_def)
qed (use assms in \<open>simp_all add: graph_built_def\<close>)

lemma tgt_reset: "map_of ts n \<noteq> None \<Longrightarrow> tgt (reset_visited ts) n = (tgt ts n)\<lparr>t_visited := False\<rparr>"
  by (induction ts) (auto simp: tgt_def reset_visited_def)

lemma keys_reset [simp]: "map_of (reset_visited ts) n = None \<longleftrightarrow> map_of ts n = None" "fst ` set (reset_visited ts) = fst ` set ts"
  by (induction ts) (auto simp: reset_visited_def)

lemma walk_start:
  assumes built: "graph_built a N ts0" and st: "statuses_ok N D M ts0 ts"
  shows "walk_inv (graph_for a N roots) {} (reset_visited ts, [])"
    and "\<not> t_visited (tgt (reset_visited ts) m)"
proof -
  have keys: "fst ` set ts = N" using st by (simp add: statuses_ok_def)
  have has: "map_of ts n \<noteq> None \<longleftrightarrow> n \<in> N" for n using keys by (auto simp: map_of_eq_None_iff)
  show "\<not> t_visited (tgt (reset_visited ts) m)"
  proof (cases "m \<in> N")
    case True
    then show ?thesis using tgt_reset has by simp
  next
    case False
    then have "map_of ts m = None" using has [of m] by simp
    then have none: "map_of (reset_visited ts) m = None" by (simp only: keys_reset)
    show ?thesis unfolding tgt_def none by (simp add: new_target_def)
  qed
  have "same_graph (graph_for a N roots) (reset_visited ts)"
    unfolding same_graph_def
  proof (intro conjI ballI)
    fix n assume "n \<in> b_nodes (graph_for a N roots)"
    then have n: "n \<in> N" by (simp add: graph_for_def)
    have "tgt ts n = (tgt ts0 n)\<lparr>t_match_status := t_match_status (tgt ts n)\<rparr>"
      using st n unfolding statuses_ok_def by blast
    then have r: "tgt (reset_visited ts) n = (tgt ts0 n)\<lparr>t_match_status := t_match_status (tgt ts n), t_visited := False\<rparr>"
      using tgt_reset has n by metis
    obtain i where "target_info a n = Inr i" "\<not> t_added_to_compile_targets (tgt ts0 n)"
      "t_requires_build (tgt ts0 n) = i_requires i" "t_is_executable (tgt ts0 n) = i_executable i"
      "set (t_back_deps (tgt ts0 n)) = {u \<in> N. n \<in> set (deps_of a u)}"
      using tgt_built [OF built n] by auto
    then show "set (t_back_deps (tgt (reset_visited ts) n)) = b_back (graph_for a N roots) n"
      "t_is_executable (tgt (reset_visited ts) n) = b_exe (graph_for a N roots) n"
      "t_requires_build (tgt (reset_visited ts) n) = b_req (graph_for a N roots) n"
      "\<not> t_visited (tgt (reset_visited ts) n) \<longrightarrow> \<not> t_added_to_compile_targets (tgt (reset_visited ts) n)"
      using r by (simp_all add: graph_for_def kind_of_def)
  qed (simp add: graph_for_def keys)
  then show "walk_inv (graph_for a N roots) {} (reset_visited ts, [])" by (simp add: walk_inv_def)
qed

lemma find_unqualified_map:
  "map_of (find_unqualified ns to_find result) x =
     (if PStr x \<in> set to_find
      then (case find (\<lambda>n. unqualified n = x) ns of Some n \<Rightarrow> Some n | None \<Rightarrow> map_of result x)
      else map_of result x)"
proof (induction ns to_find result rule: find_unqualified.induct)
  case (2 n ns to_find result)
  show ?case
  proof (cases "PStr (unqualified n) \<in> set to_find")
    case True
    show ?thesis
    proof (cases "removeAll (PStr (unqualified n)) to_find = []")
      case nil: True
      have "to_find \<noteq> []" using True by auto
      moreover have "\<forall>v\<in>set to_find. v = PStr (unqualified n)" using nil by (induction to_find) (auto split: if_splits)
      ultimately have "PStr x \<in> set to_find \<longleftrightarrow> x = unqualified n" using True by blast
      then show ?thesis using True nil by (cases "x = unqualified n") (simp_all add: update_conv)
    next
      case False
      then show ?thesis using True 2(1) [OF True refl refl False]
        by (cases "x = unqualified n") (simp_all add: update_conv split: option.splits)
    qed
  qed (use 2(2) in auto)
qed simp

lemma mapping_names:
  assumes "inj_on unqualified (fst ` set ts)"
  shows "map_of (GetUnqualifiedToTargetMapping ts to_find) x = Some n \<longleftrightarrow>
    PStr x \<in> set to_find \<and> n \<in> fst ` set ts \<and> unqualified n = x"
proof -
  have "find (\<lambda>n. unqualified n = x) (map fst ts) = Some n \<longleftrightarrow> n \<in> fst ` set ts \<and> unqualified n = x"
  proof
    assume "find (\<lambda>n. unqualified n = x) (map fst ts) = Some n"
    then show "n \<in> fst ` set ts \<and> unqualified n = x" by (auto simp: find_Some_iff in_set_conv_nth image_def) (metis nth_mem prod.collapse)
  next
    assume n: "n \<in> fst ` set ts \<and> unqualified n = x"
    then obtain m where m: "find (\<lambda>n. unqualified n = x) (map fst ts) = Some m" by (metis (mono_tags, lifting) find_None_iff list.set_map not_Some_eq)
    then have "m \<in> fst ` set ts \<and> unqualified m = x"
      by (auto simp: find_Some_iff in_set_conv_nth image_def) (metis nth_mem prod.collapse)
    then show "find (\<lambda>n. unqualified n = x) (map fst ts) = Some n" using m n assms by (auto dest: inj_onD)
  qed
  then show ?thesis
    by (auto simp: GetUnqualifiedToTargetMapping_def find_unqualified_map split: option.splits)
qed

lemma in_map_filter: "y \<in> set (List.map_filter f xs) \<longleftrightarrow> (\<exists>x\<in>set xs. f x = Some y)"
  by (induction xs) (auto simp: List.map_filter_simps split: option.splits)

lemma LookupTargets_set:
  assumes "inj_on unqualified (fst ` set ts)" and "set vs = set to_find"
  shows "set (LookupTargets vs (GetUnqualifiedToTargetMapping ts to_find)) = {n \<in> fst ` set ts. PStr (unqualified n) \<in> set to_find}"
proof -
  have "named_in (GetUnqualifiedToTargetMapping ts to_find) v = Some n \<longleftrightarrow>
      v \<in> set to_find \<and> v = PStr (unqualified n) \<and> n \<in> fst ` set ts" for v n
    using mapping_names [OF assms(1), of to_find] by (cases v) auto
  then show ?thesis
    by (intro set_eqI) (simp only: LookupTargets_def in_map_filter mem_Collect_eq assms(2), blast)
qed

lemma search_graph_correct:
  assumes acyclic: "acyclic (dep_rel a)" and ord: "set_order ord"
    and built: "graph_built a N ts" and closed: "\<And>n. n \<in> N \<Longrightarrow> set (deps_of a n) \<subseteq> N"
    and changed: "set changed = {n \<in> N. kind_of a i_matches n}" "changed \<noteq> []" and search: "set search \<subseteq> N"
  shows "\<exists>res. search_graph ord ts changed roots search
      = Some (map unqualified (filter (hits (\<lambda>n. set (deps_of a n)) (set changed)) search), map unqualified (ord res))
    \<and> builds (graph_for a N roots) (\<Union>n\<in>set changed. above (graph_for a N roots) n) (set res)"
proof -
  let ?D = "\<lambda>n. set (deps_of a n)" and ?G = "graph_for a N roots"
  have wf: "wf ((direct ?D)\<inverse>)"
    unfolding direct_deps using finite_acyclic_wf_converse [OF finite_dep_rel acyclic] .
  have "(direct (b_back ?G))\<inverse> \<subseteq> dep_rel a" by (auto simp: direct_def dep_rel_def graph_for_def)
  then have wfB: "wf ((direct (b_back ?G))\<inverse>)" using wf_subset [OF finite_acyclic_wf [OF finite_dep_rel acyclic]] by blast
  obtain ts' where ts': "GetTargetsDependingOn ord ts search = Some (filter (hits ?D (set changed)) search, ts')"
      "statuses_ok N ?D (set changed) ts ts'"
    using GetTargetsDependingOn_hits [OF wf closed ord search] statuses_start [OF built] unfolding changed(1) by blast
  note start = walk_start(1) [OF built ts'(2), of roots] walk_start(2) [OF built ts'(2)]
  have sub: "set changed \<subseteq> b_nodes ?G \<inter> b_matching ?G" by (simp add: graph_for_def changed(1))
  have closedB: "b_back ?G n \<subseteq> b_nodes ?G" for n by (auto simp: graph_for_def)
  have roots: "b_roots ?G = roots" by (simp add: graph_for_def)
  obtain st where st: "GetBuildTargets ord roots changed (reset_visited ts', []) = Some st"
      "walk_inv ?G ({} \<union> (\<Union>x\<in>set changed. above ?G x)) st"
    using GetBuildTargets_walk [OF wfB closedB ord sub start(1)] start(2) unfolding roots by auto
  have "builds ?G (\<Union>x\<in>set changed. above ?G x) (set (snd st))" using walk_inv_builds [OF wfB st(2)] by simp
  moreover have "search_graph ord ts changed roots search
      = Some (map unqualified (filter (hits ?D (set changed)) search), map unqualified (ord (snd st)))"
    using changed(2) ts'(1) st(1) by (simp add: search_graph_def split: prod.split)
  ultimately show ?thesis by blast
qed

text \<open>What the walk means for the dependencies of the targets.\<close>

lemma above_depends:
  assumes "\<And>u. u \<in> N \<Longrightarrow> set (deps_of a u) \<subseteq> N" and "n \<in> N"
  shows "u \<in> above (graph_for a N roots) n \<longleftrightarrow> u \<in> N \<and> (u, n) \<in> (dep_rel a)\<^sup>*"
proof
  assume "u \<in> above (graph_for a N roots) n"
  then have "(n, u) \<in> (direct (\<lambda>n. {u \<in> N. n \<in> set (deps_of a u)}))\<^sup>*" by (simp add: above_def graph_for_def)
  then show "u \<in> N \<and> (u, n) \<in> (dep_rel a)\<^sup>*"
    by (induction rule: rtrancl_induct)
      (use assms(2) in \<open>auto simp: direct_def dep_rel_def intro: converse_rtrancl_into_rtrancl\<close>)
next
  assume u: "u \<in> N \<and> (u, n) \<in> (dep_rel a)\<^sup>*"
  from u [THEN conjunct2] u [THEN conjunct1]
  have "(n, u) \<in> (direct (\<lambda>n. {u \<in> N. n \<in> set (deps_of a u)}))\<^sup>*"
  proof (induction rule: converse_rtrancl_induct)
    case (step u v)
    then have "v \<in> N" "(v, u) \<in> direct (\<lambda>n. {u \<in> N. n \<in> set (deps_of a u)})"
      using assms(1) by (auto simp: dep_rel_def direct_def)
    then show ?case using step.IH by (simp add: rtrancl_into_rtrancl)
  qed simp
  then show "u \<in> above (graph_for a N roots) n" by (simp add: above_def graph_for_def)
qed

definition below_root :: "analysis \<Rightarrow> string set \<Rightarrow> string \<Rightarrow> bool" where
  "below_root a N n \<longleftrightarrow> (\<exists>r\<in>N. (\<forall>u\<in>N. r \<notin> set (deps_of a u))
     \<and> kind_of a (\<lambda>i. i_build_file i \<in> set (a_build_files a)) r \<and> (r, n) \<in> (dep_rel a)\<^sup>*)"

lemma in_root_below:
  assumes "\<And>u. u \<in> N \<Longrightarrow> set (deps_of a u) \<subseteq> N" and "n \<in> N"
    and "set roots = {n \<in> N. (\<forall>u\<in>N. n \<notin> set (deps_of a u)) \<and> (\<exists>i. target_info a n = Inr i \<and> i_build_file i \<in> set (a_build_files a))}"
  shows "in_root (graph_for a N roots) n \<longleftrightarrow> below_root a N n"
proof -
  have "in_root (graph_for a N roots) n \<longleftrightarrow>
      (\<exists>r\<in>above (graph_for a N roots) n. r \<in> set roots \<and> b_back (graph_for a N roots) r = {})"
    by (simp add: in_root_def hits_def above_def graph_for_def) blast
  also have "\<dots> \<longleftrightarrow> (\<exists>r\<in>N. (r, n) \<in> (dep_rel a)\<^sup>* \<and> r \<in> set roots \<and> b_back (graph_for a N roots) r = {})"
    using above_depends [OF assms(1,2), of _ roots] by blast
  also have "\<dots> \<longleftrightarrow> below_root a N n"
    unfolding below_root_def kind_of_def by (auto simp: graph_for_def assms(3))
  finally show ?thesis .
qed

text \<open>
  The targets to build, in terms of the dependencies: each is affected, belongs to a root, and is an
  executable, needs a build or has changed; every affected executable of a root is built; every affected
  target of a root that needs a build is built or something that depends on it is; and apart from
  executables no target is built that another built target depends on.
\<close>

definition build_set_ok :: "analysis \<Rightarrow> string set \<Rightarrow> string set \<Rightarrow> string set \<Rightarrow> string set \<Rightarrow> bool" where
  "build_set_ok a N changed affected S \<longleftrightarrow>
     S \<subseteq> affected
     \<and> (\<forall>u\<in>S. below_root a N u \<and> (kind_of a i_executable u \<or> kind_of a i_requires u \<or> u \<in> changed))
     \<and> (\<forall>u\<in>affected. below_root a N u \<and> kind_of a i_executable u \<longrightarrow> u \<in> S)
     \<and> (\<forall>n\<in>affected. below_root a N n \<and> kind_of a i_requires n \<longrightarrow> (\<exists>u\<in>S. (u, n) \<in> (dep_rel a)\<^sup>*))
     \<and> (\<forall>u\<in>S. \<not> kind_of a i_executable u \<longrightarrow> (\<forall>v\<in>S. (v, u) \<in> (dep_rel a)\<^sup>* \<longrightarrow> v = u))"

lemma builds_build_set:
  assumes closed: "\<And>u. u \<in> N \<Longrightarrow> set (deps_of a u) \<subseteq> N"
    and roots: "set roots = {n \<in> N. (\<forall>u\<in>N. n \<notin> set (deps_of a u)) \<and> (\<exists>i. target_info a n = Inr i \<and> i_build_file i \<in> set (a_build_files a))}"
    and builds: "builds (graph_for a N roots) affected S" and aN: "affected \<subseteq> N"
  shows "build_set_ok a N {n \<in> N. kind_of a i_matches n} affected S"
proof -
  let ?G = "graph_for a N roots"
  have up: "u \<in> above ?G n \<longleftrightarrow> u \<in> N \<and> (u, n) \<in> (dep_rel a)\<^sup>*" if "n \<in> N" for u n
    by (rule above_depends [OF closed that])
  have root: "in_root ?G n \<longleftrightarrow> below_root a N n" if "n \<in> N" for n by (rule in_root_below [OF closed that roots])
  have kinds: "b_exe ?G = kind_of a i_executable" "b_req ?G = kind_of a i_requires" "b_matching ?G = {n \<in> N. kind_of a i_matches n}"
    by (simp_all add: graph_for_def)
  note b = builds [unfolded builds_def kinds]
  note b1 = b [THEN conjunct1] and b2 = b [THEN conjunct2, THEN conjunct1] and b3 = b [THEN conjunct2, THEN conjunct2, THEN conjunct1]
    and b4 = b [THEN conjunct2, THEN conjunct2, THEN conjunct2, THEN conjunct1]
    and b5 = b [THEN conjunct2, THEN conjunct2, THEN conjunct2, THEN conjunct2]
  have SN: "u \<in> N" if "u \<in> S" for u using that b1 aN by blast
  have AN: "u \<in> N" if "u \<in> affected" for u using that aN by blast
  show ?thesis
    unfolding build_set_ok_def
  proof (intro conjI ballI impI)
    show "S \<subseteq> affected" by (rule b1)
    show "below_root a N u" if "u \<in> S" for u using b2 root [OF SN [OF that]] that by blast
    show "kind_of a i_executable u \<or> kind_of a i_requires u \<or> u \<in> {n \<in> N. kind_of a i_matches n}" if "u \<in> S" for u
      using b2 that by blast
    show "u \<in> S" if u: "u \<in> affected" "below_root a N u \<and> kind_of a i_executable u" for u
    proof -
      have "in_root ?G u" using root [OF AN [OF u(1)]] u(2) by blast
      then show ?thesis using b3 u by blast
    qed
    show "\<exists>u\<in>S. (u, n) \<in> (dep_rel a)\<^sup>*" if n: "n \<in> affected" "below_root a N n \<and> kind_of a i_requires n" for n
    proof -
      have "in_root ?G n" using root [OF AN [OF n(1)]] n(2) by blast
      then obtain u where "u \<in> S" "u \<in> above ?G n" using b4 n by blast
      then show ?thesis using up [OF AN [OF n(1)]] by blast
    qed
    show "v = u" if u: "u \<in> S" "\<not> kind_of a i_executable u" "v \<in> S" "(v, u) \<in> (dep_rel a)\<^sup>*" for u v
    proof -
      have "v \<in> above ?G u" using up [OF SN [OF u(1)], of v] SN [OF u(3)] u(4) by blast
      then show ?thesis using b5 u by blast
    qed
  qed
qed

lemma search_result:
  assumes acyclic: "acyclic (dep_rel a)" and ord: "set_order ord"
    and built: "graph_built a N ts" and closed: "\<And>n. n \<in> N \<Longrightarrow> set (deps_of a n) \<subseteq> N"
    and changed: "set matching = {n \<in> N. kind_of a i_matches n}" and search: "set search \<subseteq> N"
  defines "affected \<equiv> {n \<in> N. \<exists>m\<in>set matching. (n, m) \<in> (dep_rel a)\<^sup>*}"
  shows "\<exists>found res. search_graph ord ts matching roots search = Some (map unqualified found, map unqualified (ord res))
      \<and> set found = {n \<in> set search. n \<in> affected} \<and> builds (graph_for a N roots) affected (set res)"
proof (cases "matching = []")
  case True
  have "set (ord []) = set []" using ord unfolding set_order_def by blast
  then show ?thesis using True by (intro exI [of _ "[]"]) (auto simp: search_graph_def builds_def affected_def)
next
  case False
  have up: "above (graph_for a N roots) n = {u \<in> N. (u, n) \<in> (dep_rel a)\<^sup>*}" if "n \<in> N" for n
    using above_depends [OF closed that] by blast
  have "(\<Union>n\<in>set matching. above (graph_for a N roots) n) = affected"
    using up unfolding affected_def changed by blast
  moreover have "hits (\<lambda>n. set (deps_of a n)) (set matching) n \<longleftrightarrow> (\<exists>m\<in>set matching. (n, m) \<in> (dep_rel a)\<^sup>*)" for n
    by (simp add: hits_def direct_deps)
  then have "set (filter (hits (\<lambda>n. set (deps_of a n)) (set matching)) search) = {n \<in> set search. n \<in> affected}"
    unfolding set_filter affected_def using search by blast
  moreover obtain res where "search_graph ord ts matching roots search
      = Some (map unqualified (filter (hits (\<lambda>n. set (deps_of a n)) (set matching)) search), map unqualified (ord res))"
      "builds (graph_for a N roots) (\<Union>n\<in>set matching. above (graph_for a N roots) n) (set res)"
    using search_graph_correct [OF acyclic ord built closed changed False search] by blast
  ultimately show ?thesis
    by (intro exI [of _ "filter (hits (\<lambda>n. set (deps_of a n)) (set matching)) search"] exI [of _ res]) simp
qed


definition sample_analysis :: analysis where
  "sample_analysis =
     \<lparr>a_data = [(''a.gyp'', PDict [(''included_files'', PList [PStr ''a.gyp''])])],
      a_target_dicts =
        [(''a.gyp:app#t'', [(''type'', PStr ''executable''), (''dependencies'', PList [PStr ''a.gyp:lib#t''])]),
         (''a.gyp:lib#t'', [(''type'', PStr ''static_library''), (''sources'', PList [PStr ''lib.cc''])])],
      a_toplevel_dir = ''/r'', a_files = [PStr ''lib.cc''], a_build_files = [''a.gyp'']\<rparr>"

lemma sample_info:
  "target_info sample_analysis ''a.gyp:app#t'' = Inr \<lparr>i_requires = True, i_executable = True, i_build_file = ''a.gyp'',
     i_modified = False, i_matches = False, i_deps = [''a.gyp:lib#t'']\<rparr>"
  "target_info sample_analysis ''a.gyp:lib#t'' = Inr \<lparr>i_requires = True, i_executable = False, i_build_file = ''a.gyp'',
     i_modified = False, i_matches = True, i_deps = []\<rparr>"
  "unqualified ''a.gyp:app#t'' = ''app''" "unqualified ''a.gyp:lib#t'' = ''lib''"
  by code_simp+


end
