(* ===== verification/SettingTypes.thy ===== *)
theory SettingTypes
  imports PyVal
begin

text \<open>
  The types of the settings of the Microsoft build tools (\<open>gyp/MSVSSettings.py\<close>): the macros of
  a value, and the three operations of each \<open>_Type\<close>: validation for MSVS, validation for
  MSBuild, and conversion. The \<open>ValueError\<close>s carry their message, since it is printed.
\<close>

section \<open>Macros\<close>

definition fix_vc_macro_slashes_list :: "string list" where
  "fix_vc_macro_slashes_list = [''IntDir'', ''OutDir'']"

definition is_slash :: "char \<Rightarrow> bool" where
  "is_slash c \<longleftrightarrow> c = CHR 0x5C \<or> c = CHR ''/''"

text \<open>
  The regular expression \<open>(\$\((?:IntDir|OutDir)\))(?:[\\/]+)\<close> at the start of a string: the
  macro and what follows its slashes.
\<close>

definition macro_slashes :: "string \<Rightarrow> (string \<times> string) option" where
  "macro_slashes s =
     (case filter (\<lambda>m. starts_with s m) (map (\<lambda>n. ''$('' @ n @ '')'') fix_vc_macro_slashes_list) of
        [] \<Rightarrow> None
      | m # _ \<Rightarrow>
          (case drop (length m) s of
             [] \<Rightarrow> None
           | c # cs \<Rightarrow> if is_slash c then Some (m, dropWhile is_slash cs) else None))"

lemma macro_slashes_shorter:
  assumes "macro_slashes s = Some (m, rest)"
  shows "length rest < length s"
proof -
  obtain c cs where c: "drop (length m) s = c # cs" "rest = dropWhile is_slash cs"
    using assms by (auto simp: macro_slashes_def split: list.splits if_splits)
  have "length (dropWhile is_slash cs) \<le> length cs" by (rule length_dropWhile_le)
  moreover have "length (drop (length m) s) \<le> length s" by simp
  ultimately show ?thesis unfolding c by (simp del: length_drop)
qed

text \<open>\<open>regex.sub(r'\1', s)\<close>: every match loses its slashes.\<close>

function sub_macro_slashes :: "string \<Rightarrow> string" where
  "sub_macro_slashes [] = []"
| "sub_macro_slashes (c # cs) =
     (case macro_slashes (c # cs) of
        Some (m, rest) \<Rightarrow> m @ sub_macro_slashes rest
      | None \<Rightarrow> c # sub_macro_slashes cs)"
  by pat_completeness auto
termination
  by (relation "measure length") (auto dest!: macro_slashes_shorter)

definition FixVCMacroSlashes :: "string \<Rightarrow> string" where
  "FixVCMacroSlashes s = (if CHR ''$'' \<in> set s then sub_macro_slashes s else s)"

definition replace_map :: "(string \<times> string) list" where
  "replace_map =
     [(''$(ConfigurationName)'', ''$(Configuration)''),
      (''$(InputDir)'', ''%(RelativeDir)''),
      (''$(InputExt)'', ''%(Extension)''),
      (''$(InputFileName)'', ''%(Filename)%(Extension)''),
      (''$(InputName)'', ''%(Filename)''),
      (''$(InputPath)'', ''%(Identity)''),
      (''$(ParentName)'', ''$(ProjectFileName)''),
      (''$(PlatformName)'', ''$(Platform)''),
      (''$(SafeInputName)'', ''%(Filename)'')]"

definition replace_all :: "(string \<times> string) list \<Rightarrow> string \<Rightarrow> string" where
  "replace_all m s = foldl (\<lambda>s (old, new). py_replace old new s) s m"

text \<open>
  The order in which the replacements are made is that of a Python dictionary, an argument of
  the model. A value that is not a string and does not contain \<open>'$'\<close> is returned as it is.
\<close>

definition ConvertVCMacrosToMSBuild :: "(string \<times> string) list \<Rightarrow> pyval \<Rightarrow> pyval res" where
  "ConvertVCMacrosToMSBuild order s =
     ebind (str_in ''$'' s) (\<lambda>has_macro.
       if has_macro
       then ebind (as_str s) (\<lambda>s. Inr (PStr (FixVCMacroSlashes (replace_all order s))))
       else Inr s)"

section \<open>Integers\<close>

text \<open>\<open>int(value)\<close> with the message of its \<open>ValueError\<close>.\<close>

definition int_of_value :: "pyval \<Rightarrow> int res" where
  "int_of_value v =
     (case to_int v of
        Inl (ValueErr s) \<Rightarrow> Inl (ValueErr (''invalid literal for int() with base 10: '' @ repr_str s))
      | r \<Rightarrow> r)"

definition hex_val :: "char \<Rightarrow> nat option" where
  "hex_val c =
     (let n = (of_char c :: nat) in
      if 48 \<le> n \<and> n \<le> 57 then Some (n - 48)
      else if 97 \<le> n \<and> n \<le> 102 then Some (n - 87)
      else if 65 \<le> n \<and> n \<le> 70 then Some (n - 55) else None)"

definition nat_of_hex :: "string \<Rightarrow> nat" where
  "nat_of_hex s = foldl (\<lambda>n c. 16 * n + the (hex_val c)) 0 s"

definition ishex :: "string \<Rightarrow> bool" where
  "ishex s \<longleftrightarrow> s \<noteq> [] \<and> list_all (\<lambda>c. hex_val c \<noteq> None) s"

definition sign_split :: "string \<Rightarrow> bool \<times> string" where
  "sign_split s =
     (case s of
        [] \<Rightarrow> (False, [])
      | c # cs \<Rightarrow> if c = CHR ''-'' then (True, cs) else if c = CHR ''+'' then (False, cs) else (False, s))"

text \<open>\<open>int(s, 16)\<close> of a string: white space, sign, and a prefix \<open>0x\<close> are optional.\<close>

definition py_int16 :: "string \<Rightarrow> int res" where
  "py_int16 s =
     (case sign_split (strip s) of (neg, d) \<Rightarrow>
        let h = (if starts_with d ''0x'' \<or> starts_with d ''0X'' then drop 2 d else d) in
        if ishex h then Inr (if neg then - int (nat_of_hex h) else int (nat_of_hex h))
        else Inl (ValueErr (''invalid literal for int() with base 16: '' @ repr_str s)))"

text \<open>\<open>int(value, base)\<close> takes only strings.\<close>

definition int_of_base :: "nat \<Rightarrow> pyval \<Rightarrow> int res" where
  "int_of_base base v = ebind (as_str v) (\<lambda>s. if base = 16 then py_int16 s else int_of_value (PStr s))"

fun hex_of_nat :: "nat \<Rightarrow> string" where
  "hex_of_nat n = (if n < 16 then [hex_digit n] else hex_of_nat (n div 16) @ [hex_digit (n mod 16)])"

declare hex_of_nat.simps [simp del]

text \<open>\<open>'0x%04x' % i\<close>: the sign counts towards the four columns.\<close>

definition format_hex4 :: "int \<Rightarrow> string" where
  "format_hex4 i =
     ''0x'' @ (if i < 0
               then let h = hex_of_nat (nat (- i)) in ''-'' @ replicate (3 - length h) (CHR ''0'') @ h
               else let h = hex_of_nat (nat i) in replicate (4 - length h) (CHR ''0'') @ h)"

section \<open>The types of settings\<close>

text \<open>
  The subclasses of \<open>_Type\<close>: \<open>_String\<close>, \<open>_StringList\<close>, \<open>_Boolean\<close>, \<open>_Integer(msbuild_base)\<close>,
  \<open>_Enumeration(label_list, new)\<close>.
\<close>

datatype setting_type =
    TString
  | TStringList
  | TBoolean
  | TInteger nat
  | TEnumeration "string option list" "string list"

text \<open>The labels \<open>self._msbuild_values\<close>; \<open>new=None\<close> is the empty list.\<close>

definition msbuild_values :: "string option list \<Rightarrow> string list \<Rightarrow> string list" where
  "msbuild_values label_list new = map the (filter (\<lambda>v. v \<noteq> None) label_list) @ new"

definition ValidateBoolean :: "pyval \<Rightarrow> unit res" where
  "ValidateBoolean value =
     (if value \<noteq> PStr ''true'' \<and> value \<noteq> PStr ''false''
      then Inl (ValueErr (''expected bool; got '' @ py_repr value)) else Inr ())"

definition ConvertEnumeration :: "string option list \<Rightarrow> pyval \<Rightarrow> pyval res" where
  "ConvertEnumeration label_list value =
     ebind (int_of_value value) (\<lambda>index.
       if index < 0 \<or> int (length label_list) \<le> index
       then Inl (ValueErr (''index value ('' @ str_of_int index @ '') not in expected range [0, ''
              @ str_of_int (int (length label_list)) @ '')''))
       else case label_list ! nat index of
              None \<Rightarrow> Inl (ValueErr (''converted value for '' @ py_str value @ '' not specified.''))
            | Some label \<Rightarrow> Inr (PStr label))"

definition ConvertInteger :: "nat \<Rightarrow> pyval \<Rightarrow> pyval res" where
  "ConvertInteger base value =
     ebind (int_of_value value) (\<lambda>i. Inr (PStr (if base = 10 then str_of_int i else format_hex4 i)))"

definition ConvertStringList :: "(string \<times> string) list \<Rightarrow> pyval \<Rightarrow> pyval res" where
  "ConvertStringList order value =
     (case value of
        PList xs \<Rightarrow> ebind (emap (ConvertVCMacrosToMSBuild order) xs) (\<lambda>ys. Inr (PList ys))
      | _ \<Rightarrow> ConvertVCMacrosToMSBuild order value)"

fun ConvertToMSBuild :: "(string \<times> string) list \<Rightarrow> setting_type \<Rightarrow> pyval \<Rightarrow> pyval res" where
  "ConvertToMSBuild order TString value = ConvertVCMacrosToMSBuild order value"
| "ConvertToMSBuild order TStringList value = ConvertStringList order value"
| "ConvertToMSBuild order TBoolean value = ebind (ValidateBoolean value) (\<lambda>_. Inr value)"
| "ConvertToMSBuild order (TInteger base) value = ConvertInteger base value"
| "ConvertToMSBuild order (TEnumeration label_list new) value = ConvertEnumeration label_list value"

definition ValidateString :: "pyval \<Rightarrow> unit res" where
  "ValidateString value =
     (case value of PStr s \<Rightarrow> Inr () | _ \<Rightarrow> Inl (ValueErr (''expected string; got '' @ py_repr value)))"

definition ValidateStringList :: "pyval \<Rightarrow> unit res" where
  "ValidateStringList value =
     (case value of
        PStr s \<Rightarrow> Inr ()
      | PList xs \<Rightarrow> Inr ()
      | _ \<Rightarrow> Inl (ValueErr (''expected string list; got '' @ py_repr value)))"

text \<open>The integers and the enumerations validate for MSVS by converting.\<close>

fun ValidateMSVS :: "setting_type \<Rightarrow> pyval \<Rightarrow> unit res" where
  "ValidateMSVS TString value = ValidateString value"
| "ValidateMSVS TStringList value = ValidateStringList value"
| "ValidateMSVS TBoolean value = ValidateBoolean value"
| "ValidateMSVS (TInteger base) value = ebind (ConvertInteger base value) (\<lambda>_. Inr ())"
| "ValidateMSVS (TEnumeration label_list new) value = ebind (ConvertEnumeration label_list value) (\<lambda>_. Inr ())"

text \<open>Looking a list or a dictionary up in the set of labels raises \<open>TypeError\<close>.\<close>

fun ValidateMSBuild :: "setting_type \<Rightarrow> pyval \<Rightarrow> unit res" where
  "ValidateMSBuild TString value = ValidateString value"
| "ValidateMSBuild TStringList value = ValidateStringList value"
| "ValidateMSBuild TBoolean value = ValidateBoolean value"
| "ValidateMSBuild (TInteger base) value = ebind (int_of_base base value) (\<lambda>_. Inr ())"
| "ValidateMSBuild (TEnumeration label_list new) value =
     (if \<not> hashable value then Inl TypeErr
      else if value \<in> PStr ` set (msbuild_values label_list new) then Inr ()
      else Inl (ValueErr (''unrecognized enumerated value '' @ py_str value)))"

section \<open>Integers in hexadecimal\<close>

lemma hex_val_digit: "n < 16 \<Longrightarrow> hex_val (hex_digit n) = Some n"
proof -
  assume "n < 16"
  then have "n \<in> set [0..<16]" by simp
  moreover have "\<forall>n\<in>set [0..<16]. hex_val (hex_digit n) = Some n"
    by (simp add: upt_rec hex_val_def hex_digit_def)
  ultimately show ?thesis by blast
qed

lemma nat_of_hex_append: "nat_of_hex (s @ [c]) = 16 * nat_of_hex s + the (hex_val c)"
  by (simp add: nat_of_hex_def)

lemma nat_of_hex_of_nat [simp]: "nat_of_hex (hex_of_nat n) = n" and ishex_hex_of_nat [simp]: "ishex (hex_of_nat n)"
proof (induction n rule: hex_of_nat.induct)
  case (1 n)
  have "n < 16 \<Longrightarrow> hex_of_nat n = [hex_digit n]" by (simp add: hex_of_nat.simps)
  moreover have "\<not> n < 16 \<Longrightarrow> hex_of_nat n = hex_of_nat (n div 16) @ [hex_digit (n mod 16)]"
    by (subst hex_of_nat.simps) simp
  moreover have "nat_of_hex [hex_digit n] = n" "ishex [hex_digit n]" if "n < 16"
    using that by (simp_all add: nat_of_hex_def ishex_def hex_val_digit)
  ultimately show "nat_of_hex (hex_of_nat n) = n" "ishex (hex_of_nat n)"
    using 1 by (cases "n < 16"; simp add: nat_of_hex_append ishex_def hex_val_digit)+
qed

lemma nat_of_hex_zeros [simp]: "nat_of_hex (replicate k (CHR ''0'') @ s) = nat_of_hex s"
  by (induction k) (simp_all add: nat_of_hex_def hex_val_def)

lemma ishex_zeros: "ishex s \<Longrightarrow> ishex (replicate k (CHR ''0'') @ s)"
  by (auto simp: ishex_def hex_val_def list_all_iff)

lemma hex_no_space: "hex_val c \<noteq> None \<Longrightarrow> \<not> py_space c"
  by (auto simp: py_space_def hex_val_def)

lemma py_int16_format_hex4:
  assumes "0 \<le> i"
  shows "py_int16 (format_hex4 i) = Inr i"
proof -
  define h where "h = replicate (4 - length (hex_of_nat (nat i))) (CHR ''0'') @ hex_of_nat (nat i)"
  have f: "format_hex4 i = CHR ''0'' # CHR ''x'' # h" using assms by (simp add: format_hex4_def h_def Let_def)
  have h: "ishex h" by (simp add: h_def ishex_zeros)
  then have "h \<noteq> []" "hex_val (last h) \<noteq> None" by (auto simp: ishex_def list_all_iff)
  then have "strip (format_hex4 i) = format_hex4 i"
    unfolding f using hex_no_space by (intro strip_id) (auto simp: py_space_def)
  moreover have "sign_split (format_hex4 i) = (False, format_hex4 i)" by (simp add: f sign_split_def)
  moreover have "nat_of_hex h = nat i" by (simp add: h_def)
  ultimately show ?thesis using h assms by (simp add: py_int16_def f starts_with_def)
qed

section \<open>A converted value is valid for MSBuild\<close>

definition good_base :: "setting_type \<Rightarrow> pyval \<Rightarrow> bool" where
  "good_base ty v \<longleftrightarrow>
     (\<forall>b. ty = TInteger b \<longrightarrow> b = 10 \<or> b = 16 \<and> (\<forall>i. int_of_value v = Inr i \<longrightarrow> 0 \<le> i))"

definition convert_macros :: "(string \<times> string) list \<Rightarrow> string \<Rightarrow> string" where
  "convert_macros order s = (if CHR ''$'' \<in> set s then FixVCMacroSlashes (replace_all order s) else s)"

lemma ConvertVCMacros_str [simp]:
  "ConvertVCMacrosToMSBuild order (PStr s) = Inr (PStr (convert_macros order s))"
  by (auto simp: ConvertVCMacrosToMSBuild_def convert_macros_def in_set_conv_decomp sublist_def)

lemma int_of_value_str [simp]: "int_of_value (PStr (str_of_int i)) = Inr i"
  by (simp add: int_of_value_def)

lemma ConvertToMSBuild_valid:
  assumes "ValidateMSVS ty v = Inr ()" and "good_base ty v" and "ConvertToMSBuild order ty v = Inr w"
  shows "ValidateMSBuild ty w = Inr ()"
proof (cases ty)
  case TString
  then show ?thesis
    using assms(1,3) by (cases v) (auto simp: ValidateString_def)
next
  case TStringList
  then show ?thesis
    using assms(1,3)
    by (cases v) (auto simp: ValidateStringList_def ConvertStringList_def ebind_def split: sum.splits)
next
  case TBoolean
  then show ?thesis using assms(1,3) by auto
next
  case (TInteger b)
  then show ?thesis
    using assms(2,3) py_int16_format_hex4
    by (auto simp: ConvertInteger_def good_base_def int_of_base_def ebind_def split: sum.splits)
next
  case (TEnumeration ls new)
  then obtain i l where "int_of_value v = Inr i" "0 \<le> i" "i < int (length ls)" "ls ! nat i = Some l" "w = PStr l"
    using assms(3) by (auto simp: ConvertEnumeration_def ebind_def split: sum.splits if_splits option.splits)
  moreover from this have "Some l \<in> set ls" by (metis nat_less_iff nth_mem)
  then have "l \<in> set (msbuild_values ls new)" by (auto simp: msbuild_values_def intro: rev_image_eqI)
  ultimately show ?thesis using TEnumeration by simp
qed

text \<open>Which values convert: a value valid for MSVS, whose list items are strings.\<close>

definition strings_only :: "pyval \<Rightarrow> bool" where
  "strings_only v = (case v of PList xs \<Rightarrow> list_all (\<lambda>x. py_type x = TStr) xs | _ \<Rightarrow> True)"

lemma ConvertToMSBuild_total:
  assumes "ValidateMSVS ty v = Inr ()" and "strings_only v"
  shows "\<exists>w. ConvertToMSBuild order ty v = Inr w"
proof (cases ty)
  case TStringList
  have "\<exists>ys. emap (ConvertVCMacrosToMSBuild order) xs = Inr ys" if "list_all (\<lambda>x. py_type x = TStr) xs" for xs
    using that by (intro emap_total) (auto simp: list_all_iff)
  then show ?thesis
    using TStringList assms
    by (cases v) (auto simp: ConvertStringList_def ValidateStringList_def strings_only_def)
qed (use assms in
      \<open>auto simp: ValidateString_def ebind_def split: sum.splits pyval.splits\<close>)

end
