(* ===== verification/SettingRegistry.thy ===== *)
theory SettingRegistry
  imports SettingTypes
begin

text \<open>
  The registry of settings of \<open>gyp/MSVSSettings.py\<close>: the four module dictionaries as a record,
  the functions that declare a setting as operations on it, and the three entry points that
  convert and validate settings. A closure stored in a dictionary is a value of the type
  \<open>translation\<close>; a validator is the type whose method it is. The lines printed to the error
  stream are returned.
\<close>

section \<open>The registry\<close>

record tool =
  msvs_name :: string
  msbuild_name :: string

datatype translation =
    Translated string string setting_type
  | Untranslated
  | FlagOption string string
  | PreprocessedFile string

type_synonym 'v tool_dict = "(string \<times> (string \<times> 'v) list) list"

record registry =
  msvs_validators :: "setting_type tool_dict"
  msbuild_validators :: "setting_type tool_dict"
  converters :: "translation tool_dict"
  msbuild_name_of_tool :: "(string \<times> string) list"

definition empty_registry :: registry where
  "empty_registry = \<lparr>msvs_validators = [], msbuild_validators = [], converters = [], msbuild_name_of_tool = []\<rparr>"

definition AddTool :: "tool \<Rightarrow> registry \<Rightarrow> registry" where
  "AddTool tool r =
     r\<lparr>msvs_validators := AList.update (msvs_name tool) [] (msvs_validators r),
       msbuild_validators := AList.update (msbuild_name tool) [] (msbuild_validators r),
       converters := AList.update (msvs_name tool) [] (converters r),
       msbuild_name_of_tool := AList.update (msvs_name tool) (msbuild_name tool) (msbuild_name_of_tool r)\<rparr>"

text \<open>\<open>d[tool][name] = v\<close>.\<close>

definition put :: "string \<Rightarrow> string \<Rightarrow> 'v \<Rightarrow> 'v tool_dict \<Rightarrow> 'v tool_dict res" where
  "put tool name v d =
     (case map_of d tool of
        None \<Rightarrow> Inl (KeyErr tool)
      | Some settings \<Rightarrow> Inr (AList.update tool (AList.update name v settings) d))"

definition put_msvs :: "string \<Rightarrow> string \<Rightarrow> setting_type \<Rightarrow> registry \<Rightarrow> registry res" where
  "put_msvs tool name ty r =
     ebind (put tool name ty (msvs_validators r)) (\<lambda>d. Inr (r\<lparr>msvs_validators := d\<rparr>))"

definition put_msbuild :: "string \<Rightarrow> string \<Rightarrow> setting_type \<Rightarrow> registry \<Rightarrow> registry res" where
  "put_msbuild tool name ty r =
     ebind (put tool name ty (msbuild_validators r)) (\<lambda>d. Inr (r\<lparr>msbuild_validators := d\<rparr>))"

definition put_converter :: "string \<Rightarrow> string \<Rightarrow> translation \<Rightarrow> registry \<Rightarrow> registry res" where
  "put_converter tool name tr r =
     ebind (put tool name tr (converters r)) (\<lambda>d. Inr (r\<lparr>converters := d\<rparr>))"

section \<open>Declaring settings\<close>

definition renamed :: "tool \<Rightarrow> string \<Rightarrow> string \<Rightarrow> setting_type \<Rightarrow> registry \<Rightarrow> registry res" where
  "renamed tool msvs_setting msbuild_setting ty r =
     ebind (put_msvs (msvs_name tool) msvs_setting ty r) (\<lambda>r.
     ebind (put_msbuild (msbuild_name tool) msbuild_setting ty r) (\<lambda>r.
       put_converter (msvs_name tool) msvs_setting (Translated (msbuild_name tool) msbuild_setting ty) r))"

definition same :: "tool \<Rightarrow> string \<Rightarrow> setting_type \<Rightarrow> registry \<Rightarrow> registry res" where
  "same tool name ty = renamed tool name name ty"

definition moved_and_renamed :: "tool \<Rightarrow> string \<Rightarrow> string \<Rightarrow> string \<Rightarrow> setting_type \<Rightarrow> registry \<Rightarrow> registry res" where
  "moved_and_renamed tool msvs_setting msbuild_tool msbuild_setting ty r =
     ebind (put_msvs (msvs_name tool) msvs_setting ty r) (\<lambda>r.
     ebind (put_msbuild msbuild_tool msbuild_setting ty r) (\<lambda>r.
       put_converter (msvs_name tool) msvs_setting (Translated msbuild_tool msbuild_setting ty) r))"

definition moved :: "tool \<Rightarrow> string \<Rightarrow> string \<Rightarrow> setting_type \<Rightarrow> registry \<Rightarrow> registry res" where
  "moved tool name msbuild_tool ty = moved_and_renamed tool name msbuild_tool name ty"

definition msvs_only :: "tool \<Rightarrow> string \<Rightarrow> setting_type \<Rightarrow> registry \<Rightarrow> registry res" where
  "msvs_only tool name ty r =
     ebind (put_msvs (msvs_name tool) name ty r) (put_converter (msvs_name tool) name Untranslated)"

definition msbuild_only :: "tool \<Rightarrow> string \<Rightarrow> setting_type \<Rightarrow> registry \<Rightarrow> registry res" where
  "msbuild_only tool name ty r = put_msbuild (msbuild_name tool) name ty r"

definition converted_to_additional_option :: "tool \<Rightarrow> string \<Rightarrow> string \<Rightarrow> registry \<Rightarrow> registry res" where
  "converted_to_additional_option tool name flag r =
     ebind (put_msvs (msvs_name tool) name TBoolean r)
       (put_converter (msvs_name tool) name (FlagOption (msbuild_name tool) flag))"

definition custom_generate_preprocessed_file :: "tool \<Rightarrow> string \<Rightarrow> registry \<Rightarrow> registry res" where
  "custom_generate_preprocessed_file tool name r =
     ebind (put_msvs (msvs_name tool) name (TEnumeration [Some ''a'', Some ''b'', Some ''c''] []) r) (\<lambda>r.
     ebind (put_msbuild (msbuild_name tool) ''PreprocessToFile'' TBoolean r) (\<lambda>r.
     ebind (put_msbuild (msbuild_name tool) ''PreprocessSuppressLineNumbers'' TBoolean r) (\<lambda>r.
       put_converter (msvs_name tool) name (PreprocessedFile (msbuild_name tool)) r)))"

datatype decl =
    Same tool string setting_type
  | Renamed tool string string setting_type
  | Moved tool string string setting_type
  | MovedAndRenamed tool string string string setting_type
  | MSVSOnly tool string setting_type
  | MSBuildOnly tool string setting_type
  | ConvertedToAdditionalOption tool string string
  | CustomGeneratePreprocessedFile tool string

fun declare_setting :: "decl \<Rightarrow> registry \<Rightarrow> registry res" where
  "declare_setting (Same tool name ty) = same tool name ty"
| "declare_setting (Renamed tool name new_name ty) = renamed tool name new_name ty"
| "declare_setting (Moved tool name new_tool ty) = moved tool name new_tool ty"
| "declare_setting (MovedAndRenamed tool name new_tool new_name ty) = moved_and_renamed tool name new_tool new_name ty"
| "declare_setting (MSVSOnly tool name ty) = msvs_only tool name ty"
| "declare_setting (MSBuildOnly tool name ty) = msbuild_only tool name ty"
| "declare_setting (ConvertedToAdditionalOption tool name flag) = converted_to_additional_option tool name flag"
| "declare_setting (CustomGeneratePreprocessedFile tool name) = custom_generate_preprocessed_file tool name"

section \<open>Translating a setting\<close>

type_synonym settings = "(string \<times> pydict) list"

definition setdefault_tool :: "string \<Rightarrow> settings \<Rightarrow> settings" where
  "setdefault_tool tool m = (if map_of m tool = None then m @ [(tool, [])] else m)"

definition set_setting :: "string \<Rightarrow> string \<Rightarrow> pyval \<Rightarrow> settings \<Rightarrow> settings" where
  "set_setting tool name v m = AList.update tool (dset name v (the (map_of m tool))) m"

text \<open>\<open>_GetMSBuildToolSettings\<close> followed by one assignment of a converted value.\<close>

definition translate_value :: "(string \<times> string) list \<Rightarrow> string \<Rightarrow> string \<Rightarrow> setting_type \<Rightarrow> pyval \<Rightarrow> settings
    \<Rightarrow> settings \<times> pyerr option" where
  "translate_value order tool name ty value m =
     (let m = setdefault_tool tool m in
      case ConvertToMSBuild order ty value of
        Inl e \<Rightarrow> (m, Some e)
      | Inr v \<Rightarrow> (set_setting tool name v m, None))"

definition translate_flag :: "string \<Rightarrow> string \<Rightarrow> pyval \<Rightarrow> settings \<Rightarrow> settings \<times> pyerr option" where
  "translate_flag tool flag value m =
     (if value = PStr ''true'' then
        (let m = setdefault_tool tool m in
         case map_of (the (map_of m tool)) ''AdditionalOptions'' of
           Some old \<Rightarrow> (set_setting tool ''AdditionalOptions'' (PStr (py_str old @ '' '' @ flag)) m, None)
         | None \<Rightarrow> (set_setting tool ''AdditionalOptions'' (PStr flag) m, None))
      else (m, None))"

definition preprocess_flags :: "pyval \<Rightarrow> (string \<times> string) option" where
  "preprocess_flags value =
     (if value = PStr ''0'' then Some (''false'', ''false'')
      else if value = PStr ''1'' then Some (''true'', ''false'')
      else if value = PStr ''2'' then Some (''true'', ''true'') else None)"

definition translate_preprocessed :: "string \<Rightarrow> pyval \<Rightarrow> settings \<Rightarrow> settings \<times> pyerr option" where
  "translate_preprocessed tool value m =
     (let m = setdefault_tool tool m in
      case preprocess_flags value of
        None \<Rightarrow> (m, Some (ValueErr (''value must be one of [0, 1, 2]; got '' @ py_str value)))
      | Some (file, lines) \<Rightarrow>
          (set_setting tool ''PreprocessSuppressLineNumbers'' (PStr lines)
             (set_setting tool ''PreprocessToFile'' (PStr file) m), None))"

text \<open>
  A translation returns the new settings even when it raises: \<open>setdefault\<close> has run by then, and
  the caller goes on after a \<open>ValueError\<close>.
\<close>

fun translate :: "(string \<times> string) list \<Rightarrow> translation \<Rightarrow> pyval \<Rightarrow> settings \<Rightarrow> settings \<times> pyerr option" where
  "translate order (Translated tool name ty) value m = translate_value order tool name ty value m"
| "translate order Untranslated value m = (m, None)"
| "translate order (FlagOption tool flag) value m = translate_flag tool flag value m"
| "translate order (PreprocessedFile tool) value m = translate_preprocessed tool value m"

section \<open>Converting and validating settings\<close>

text \<open>
  \<open>re.match('^(.*)_excluded$', setting)\<close>: the dot matches no newline, the dollar also matches
  before a newline at the end.
\<close>

definition excluded_root :: "string \<Rightarrow> string option" where
  "excluded_root setting =
     (let s = (if setting \<noteq> [] \<and> last setting = CHR 0x0A then butlast setting else setting) in
      if ends_with s ''_excluded''
      then let root = take (length s - length ''_excluded'') s in
           if CHR 0x0A \<in> set root then None else Some root
      else None)"

definition ValidateExclusionSetting :: "string \<Rightarrow> (string \<times> 'v) list \<Rightarrow> string \<Rightarrow> string list" where
  "ValidateExclusionSetting setting settings error_msg =
     (case excluded_root setting of
        None \<Rightarrow> [error_msg]
      | Some root_setting \<Rightarrow> if map_of settings root_setting = None then [error_msg] else [])"

definition convert_setting :: "(string \<times> string) list \<Rightarrow> string \<Rightarrow> (string \<times> translation) list
    \<Rightarrow> settings \<times> string list \<Rightarrow> string \<times> pyval \<Rightarrow> (settings \<times> string list) res" where
  "convert_setting order tool_name tool st item =
     (case (st, item) of ((m, stderr), (setting, value)) \<Rightarrow>
        case map_of tool setting of
          None \<Rightarrow> Inr (m, stderr @ ValidateExclusionSetting setting tool
                    (''Warning: unrecognized setting '' @ tool_name @ ''/'' @ setting @ '' while converting to MSBuild.''))
        | Some tr \<Rightarrow>
            (case translate order tr value m of
               (m, None) \<Rightarrow> Inr (m, stderr)
             | (m, Some (ValueErr e)) \<Rightarrow>
                 Inr (m, stderr @ [''Warning: while converting '' @ tool_name @ ''/'' @ setting @ '' to MSBuild, '' @ e])
             | (m, Some e) \<Rightarrow> Inl e))"

definition convert_tool :: "(string \<times> string) list \<Rightarrow> registry \<Rightarrow> settings \<times> string list \<Rightarrow> string \<times> pydict
    \<Rightarrow> (settings \<times> string list) res" where
  "convert_tool order r st item =
     (case (st, item) of ((m, stderr), (tool_name, tool_settings)) \<Rightarrow>
        case map_of (converters r) tool_name of
          None \<Rightarrow> Inr (m, stderr @ [''Warning: unrecognized tool '' @ tool_name @ '' while converting to MSBuild.''])
        | Some tool \<Rightarrow> efold (convert_setting order tool_name tool) (m, stderr) tool_settings)"

definition ConvertToMSBuildSettings :: "(string \<times> string) list \<Rightarrow> registry \<Rightarrow> settings \<Rightarrow> (settings \<times> string list) res" where
  "ConvertToMSBuildSettings order r msvs_settings = efold (convert_tool order r) ([], []) msvs_settings"

definition validate_setting :: "(setting_type \<Rightarrow> pyval \<Rightarrow> unit res) \<Rightarrow> string \<Rightarrow> (string \<times> setting_type) list
    \<Rightarrow> string list \<Rightarrow> string \<times> pyval \<Rightarrow> string list res" where
  "validate_setting validate tool_name tool_validators stderr item =
     (case item of (setting, value) \<Rightarrow>
        case map_of tool_validators setting of
          None \<Rightarrow> Inr (stderr @ ValidateExclusionSetting setting tool_validators
                    (''Warning: unrecognized setting '' @ tool_name @ ''/'' @ setting))
        | Some ty \<Rightarrow>
            (case validate ty value of
               Inr _ \<Rightarrow> Inr stderr
             | Inl (ValueErr e) \<Rightarrow> Inr (stderr @ [''Warning: for '' @ tool_name @ ''/'' @ setting @ '', '' @ e])
             | Inl e \<Rightarrow> Inl e))"

definition validate_tool :: "(setting_type \<Rightarrow> pyval \<Rightarrow> unit res) \<Rightarrow> setting_type tool_dict
    \<Rightarrow> string list \<Rightarrow> string \<times> pydict \<Rightarrow> string list res" where
  "validate_tool validate validators stderr item =
     (case item of (tool_name, tool_settings) \<Rightarrow>
        case map_of validators tool_name of
          None \<Rightarrow> Inr (stderr @ [''Warning: unrecognized tool '' @ tool_name])
        | Some tool_validators \<Rightarrow> efold (validate_setting validate tool_name tool_validators) stderr tool_settings)"

definition ValidateSettings :: "(setting_type \<Rightarrow> pyval \<Rightarrow> unit res) \<Rightarrow> setting_type tool_dict \<Rightarrow> settings
    \<Rightarrow> string list res" where
  "ValidateSettings validate validators settings = efold (validate_tool validate validators) [] settings"

definition ValidateMSVSSettings :: "registry \<Rightarrow> settings \<Rightarrow> string list res" where
  "ValidateMSVSSettings r settings = ValidateSettings ValidateMSVS (msvs_validators r) settings"

definition ValidateMSBuildSettings :: "registry \<Rightarrow> settings \<Rightarrow> string list res" where
  "ValidateMSBuildSettings r settings = ValidateSettings ValidateMSBuild (msbuild_validators r) settings"

end
