(* ===== verification/SettingTables.thy ===== *)
theory SettingTables
  imports SettingRegistry
begin

text \<open>
  The settings that \<open>gyp/MSVSSettings.py\<close> declares, in its order: the types it names, the six
  tools, and for every tool the list of its declarations. \<open>settings_registry\<close> is the state of the
  four dictionaries when the module has been loaded.
\<close>

section \<open>Types and tools\<close>

abbreviation labels :: "string list \<Rightarrow> string list \<Rightarrow> setting_type" where
  "labels label_list new \<equiv> TEnumeration (map Some label_list) new"

definition boolean :: setting_type where "boolean = TBoolean"
definition integer :: setting_type where "integer = TInteger 10"
definition string_setting :: setting_type where "string_setting = TString"
definition file_name :: setting_type where "file_name = TString"
definition folder_name :: setting_type where "folder_name = TString"
definition file_list :: setting_type where "file_list = TStringList"
definition folder_list :: setting_type where "folder_list = TStringList"
definition string_list :: setting_type where "string_list = TStringList"
definition newly_boolean :: setting_type where "newly_boolean = labels [[], ''false'', ''true''] []"

lemmas type_defs = boolean_def integer_def string_setting_def file_name_def folder_name_def file_list_def
  folder_list_def string_list_def newly_boolean_def

definition compile_tool :: tool where
  "compile_tool = \<lparr>msvs_name = ''VCCLCompilerTool'', msbuild_name = ''ClCompile''\<rparr>"

definition link_tool :: tool where
  "link_tool = \<lparr>msvs_name = ''VCLinkerTool'', msbuild_name = ''Link''\<rparr>"

definition midl_tool :: tool where
  "midl_tool = \<lparr>msvs_name = ''VCMIDLTool'', msbuild_name = ''Midl''\<rparr>"

definition rc_tool :: tool where
  "rc_tool = \<lparr>msvs_name = ''VCResourceCompilerTool'', msbuild_name = ''ResourceCompile''\<rparr>"

definition lib_tool :: tool where
  "lib_tool = \<lparr>msvs_name = ''VCLibrarianTool'', msbuild_name = ''Lib''\<rparr>"

definition manifest_tool :: tool where
  "manifest_tool = \<lparr>msvs_name = ''VCManifestTool'', msbuild_name = ''Manifest''\<rparr>"

lemmas tool_defs = compile_tool_def link_tool_def midl_tool_def rc_tool_def lib_tool_def manifest_tool_def

definition subsystem_enumeration :: setting_type where
  "subsystem_enumeration =
     labels [''NotSet'', ''Console'', ''Windows'', ''Native'', ''EFI Application'',
        ''EFI Boot Service Driver'', ''EFI ROM'', ''EFI Runtime'', ''WindowsCE''] [''POSIX'']"

definition target_machine_enumeration :: setting_type where
  "target_machine_enumeration =
     TEnumeration [Some ''NotSet'', Some ''MachineX86'', None, Some ''MachineARM'', Some ''MachineEBC'',
        Some ''MachineIA64'', None, Some ''MachineMIPS'', Some ''MachineMIPS16'', Some ''MachineMIPSFPU'',
        Some ''MachineMIPSFPU16'', None, None, None, Some ''MachineSH4'', None, Some ''MachineTHUMB'',
        Some ''MachineX64''] []"

section \<open>The declarations\<close>

definition compile_same :: "decl list" where
  "compile_same =
     [Same compile_tool ''AdditionalIncludeDirectories'' folder_list,
      Same compile_tool ''AdditionalOptions'' string_list,
      Same compile_tool ''AdditionalUsingDirectories'' folder_list,
      Same compile_tool ''AssemblerListingLocation'' file_name,
      Same compile_tool ''BrowseInformationFile'' file_name,
      Same compile_tool ''BufferSecurityCheck'' boolean,
      Same compile_tool ''DisableLanguageExtensions'' boolean,
      Same compile_tool ''DisableSpecificWarnings'' string_list,
      Same compile_tool ''EnableFiberSafeOptimizations'' boolean,
      Same compile_tool ''EnablePREfast'' boolean,
      Same compile_tool ''ExpandAttributedSource'' boolean,
      Same compile_tool ''FloatingPointExceptions'' boolean,
      Same compile_tool ''ForceConformanceInForLoopScope'' boolean,
      Same compile_tool ''ForcedIncludeFiles'' file_list,
      Same compile_tool ''ForcedUsingFiles'' file_list,
      Same compile_tool ''GenerateXMLDocumentationFiles'' boolean,
      Same compile_tool ''IgnoreStandardIncludePath'' boolean,
      Same compile_tool ''MinimalRebuild'' boolean,
      Same compile_tool ''OmitDefaultLibName'' boolean,
      Same compile_tool ''OmitFramePointers'' boolean,
      Same compile_tool ''PreprocessorDefinitions'' string_list,
      Same compile_tool ''ProgramDataBaseFileName'' file_name,
      Same compile_tool ''RuntimeTypeInfo'' boolean,
      Same compile_tool ''ShowIncludes'' boolean,
      Same compile_tool ''SmallerTypeCheck'' boolean,
      Same compile_tool ''StringPooling'' boolean,
      Same compile_tool ''SuppressStartupBanner'' boolean,
      Same compile_tool ''TreatWChar_tAsBuiltInType'' boolean,
      Same compile_tool ''UndefineAllPreprocessorDefinitions'' boolean,
      Same compile_tool ''UndefinePreprocessorDefinitions'' string_list,
      Same compile_tool ''UseFullPaths'' boolean,
      Same compile_tool ''WholeProgramOptimization'' boolean,
      Same compile_tool ''XMLDocumentationFileName'' file_name,
      Same compile_tool ''AssemblerOutput'' (labels [''NoListing'', ''AssemblyCode'', ''All'',
        ''AssemblyAndMachineCode'', ''AssemblyAndSourceCode''] []),
      Same compile_tool ''BasicRuntimeChecks'' (labels [''Default'', ''StackFrameRuntimeCheck'',
        ''UninitializedLocalUsageCheck'', ''EnableFastChecks''] []),
      Same compile_tool ''BrowseInformation'' (labels [''false'', ''true'', ''true''] []),
      Same compile_tool ''CallingConvention'' (labels [''Cdecl'', ''FastCall'', ''StdCall''] []),
      Same compile_tool ''CompileAs'' (labels [''Default'', ''CompileAsC'', ''CompileAsCpp''] []),
      Same compile_tool ''DebugInformationFormat'' (TEnumeration [Some '''', Some ''OldStyle'',
        None, Some ''ProgramDatabase'', Some ''EditAndContinue''] []),
      Same compile_tool ''EnableEnhancedInstructionSet'' (labels [''NotSet'',
        ''StreamingSIMDExtensions'', ''StreamingSIMDExtensions2'', ''AdvancedVectorExtensions'',
        ''NoExtensions''] []),
      Same compile_tool ''ErrorReporting'' (labels [''None'', ''Prompt'', ''Queue''] [''Send'']),
      Same compile_tool ''ExceptionHandling'' (labels [''false'', ''Sync'', ''Async'']
        [''SyncCThrow'']),
      Same compile_tool ''FavorSizeOrSpeed'' (labels [''Neither'', ''Speed'', ''Size''] []),
      Same compile_tool ''FloatingPointModel'' (labels [''Precise'', ''Strict'', ''Fast''] []),
      Same compile_tool ''InlineFunctionExpansion'' (labels [''Default'', ''OnlyExplicitInline'',
        ''AnySuitable''] [''Disabled'']),
      Same compile_tool ''Optimization'' (labels [''Disabled'', ''MinSpace'', ''MaxSpeed'',
        ''Full''] []),
      Same compile_tool ''RuntimeLibrary'' (labels [''MultiThreaded'', ''MultiThreadedDebug'',
        ''MultiThreadedDLL'', ''MultiThreadedDebugDLL''] []),
      Same compile_tool ''StructMemberAlignment'' (labels [''Default'', ''1Byte'', ''2Bytes'',
        ''4Bytes'', ''8Bytes'', ''16Bytes''] []),
      Same compile_tool ''WarningLevel'' (labels [''TurnOffAllWarnings'', ''Level1'', ''Level2'',
        ''Level3'', ''Level4''] [''EnableAllWarnings''])]"

definition compile_other :: "decl list" where
  "compile_other =
     [Renamed compile_tool ''EnableFunctionLevelLinking'' ''FunctionLevelLinking'' boolean,
      Renamed compile_tool ''EnableIntrinsicFunctions'' ''IntrinsicFunctions'' boolean,
      Renamed compile_tool ''KeepComments'' ''PreprocessKeepComments'' boolean,
      Renamed compile_tool ''ObjectFile'' ''ObjectFileName'' file_name,
      Renamed compile_tool ''OpenMP'' ''OpenMPSupport'' boolean,
      Renamed compile_tool ''PrecompiledHeaderThrough'' ''PrecompiledHeaderFile'' file_name,
      Renamed compile_tool ''PrecompiledHeaderFile'' ''PrecompiledHeaderOutputFile'' file_name,
      Renamed compile_tool ''UsePrecompiledHeader'' ''PrecompiledHeader'' (labels [''NotUsing'',
        ''Create'', ''Use''] []),
      Renamed compile_tool ''WarnAsError'' ''TreatWarningAsError'' boolean,
      ConvertedToAdditionalOption compile_tool ''DefaultCharIsUnsigned'' ''/J'',
      MSVSOnly compile_tool ''Detect64BitPortabilityProblems'' boolean,
      MSVSOnly compile_tool ''UseUnicodeResponseFiles'' boolean,
      MSBuildOnly compile_tool ''BuildingInIDE'' boolean,
      MSBuildOnly compile_tool ''CompileAsManaged'' (labels [] [''false'', ''true'', ''Pure'',
        ''Safe'', ''OldSyntax'']),
      MSBuildOnly compile_tool ''CreateHotpatchableImage'' boolean,
      MSBuildOnly compile_tool ''MultiProcessorCompilation'' boolean,
      MSBuildOnly compile_tool ''PreprocessOutputPath'' string_setting,
      MSBuildOnly compile_tool ''ProcessorNumber'' integer,
      MSBuildOnly compile_tool ''TrackerLogDirectory'' folder_name,
      MSBuildOnly compile_tool ''TreatSpecificWarningsAsErrors'' string_list,
      MSBuildOnly compile_tool ''UseUnicodeForAssemblerListing'' boolean,
      CustomGeneratePreprocessedFile compile_tool ''GeneratePreprocessedFile'']"

definition link_same :: "decl list" where
  "link_same =
     [Same link_tool ''AdditionalDependencies'' file_list,
      Same link_tool ''AdditionalLibraryDirectories'' folder_list,
      Same link_tool ''AdditionalManifestDependencies'' file_list,
      Same link_tool ''AdditionalOptions'' string_list,
      Same link_tool ''AddModuleNamesToAssembly'' file_list,
      Same link_tool ''AllowIsolation'' boolean,
      Same link_tool ''AssemblyLinkResource'' file_list,
      Same link_tool ''BaseAddress'' string_setting,
      Same link_tool ''CLRUnmanagedCodeCheck'' boolean,
      Same link_tool ''DelayLoadDLLs'' file_list,
      Same link_tool ''DelaySign'' boolean,
      Same link_tool ''EmbedManagedResourceFile'' file_list,
      Same link_tool ''EnableUAC'' boolean,
      Same link_tool ''EntryPointSymbol'' string_setting,
      Same link_tool ''ForceSymbolReferences'' file_list,
      Same link_tool ''FunctionOrder'' file_name,
      Same link_tool ''GenerateDebugInformation'' boolean,
      Same link_tool ''GenerateMapFile'' boolean,
      Same link_tool ''HeapCommitSize'' string_setting,
      Same link_tool ''HeapReserveSize'' string_setting,
      Same link_tool ''IgnoreAllDefaultLibraries'' boolean,
      Same link_tool ''IgnoreEmbeddedIDL'' boolean,
      Same link_tool ''ImportLibrary'' file_name,
      Same link_tool ''KeyContainer'' file_name,
      Same link_tool ''KeyFile'' file_name,
      Same link_tool ''ManifestFile'' file_name,
      Same link_tool ''MapExports'' boolean,
      Same link_tool ''MapFileName'' file_name,
      Same link_tool ''MergedIDLBaseFileName'' file_name,
      Same link_tool ''MergeSections'' string_setting,
      Same link_tool ''MidlCommandFile'' file_name,
      Same link_tool ''ModuleDefinitionFile'' file_name,
      Same link_tool ''OutputFile'' file_name,
      Same link_tool ''PerUserRedirection'' boolean,
      Same link_tool ''Profile'' boolean,
      Same link_tool ''ProfileGuidedDatabase'' file_name,
      Same link_tool ''ProgramDatabaseFile'' file_name,
      Same link_tool ''RegisterOutput'' boolean,
      Same link_tool ''SetChecksum'' boolean,
      Same link_tool ''StackCommitSize'' string_setting,
      Same link_tool ''StackReserveSize'' string_setting,
      Same link_tool ''StripPrivateSymbols'' file_name,
      Same link_tool ''SupportUnloadOfDelayLoadedDLL'' boolean,
      Same link_tool ''SuppressStartupBanner'' boolean,
      Same link_tool ''SwapRunFromCD'' boolean,
      Same link_tool ''TurnOffAssemblyGeneration'' boolean,
      Same link_tool ''TypeLibraryFile'' file_name,
      Same link_tool ''TypeLibraryResourceID'' integer,
      Same link_tool ''UACUIAccess'' boolean,
      Same link_tool ''Version'' string_setting,
      Same link_tool ''EnableCOMDATFolding'' newly_boolean,
      Same link_tool ''FixedBaseAddress'' newly_boolean,
      Same link_tool ''LargeAddressAware'' newly_boolean,
      Same link_tool ''OptimizeReferences'' newly_boolean,
      Same link_tool ''RandomizedBaseAddress'' newly_boolean,
      Same link_tool ''TerminalServerAware'' newly_boolean]"

definition link_other :: "decl list" where
  "link_other =
     [Same link_tool ''AssemblyDebug'' (labels ['''', ''true'', ''false''] []),
      Same link_tool ''CLRImageType'' (labels [''Default'', ''ForceIJWImage'',
        ''ForcePureILImage'', ''ForceSafeILImage''] []),
      Same link_tool ''CLRThreadAttribute'' (labels [''DefaultThreadingAttribute'',
        ''MTAThreadingAttribute'', ''STAThreadingAttribute''] []),
      Same link_tool ''DataExecutionPrevention'' (labels ['''', ''false'', ''true''] []),
      Same link_tool ''Driver'' (labels [''NotSet'', ''Driver'', ''UpOnly'', ''WDM''] []),
      Same link_tool ''LinkTimeCodeGeneration'' (labels [''Default'',
        ''UseLinkTimeCodeGeneration'', ''PGInstrument'', ''PGOptimization'', ''PGUpdate''] []),
      Same link_tool ''ShowProgress'' (labels [''NotSet'', ''LinkVerbose'', ''LinkVerboseLib'']
        [''LinkVerboseICF'', ''LinkVerboseREF'', ''LinkVerboseSAFESEH'', ''LinkVerboseCLR'']),
      Same link_tool ''SubSystem'' subsystem_enumeration,
      Same link_tool ''TargetMachine'' target_machine_enumeration,
      Same link_tool ''UACExecutionLevel'' (labels [''AsInvoker'', ''HighestAvailable'',
        ''RequireAdministrator''] []),
      Same link_tool ''MinimumRequiredVersion'' string_setting,
      Same link_tool ''TreatLinkerWarningAsErrors'' boolean,
      Renamed link_tool ''ErrorReporting'' ''LinkErrorReporting'' (labels [''NoErrorReport'',
        ''PromptImmediately'', ''QueueForNextLogin''] [''SendErrorReport'']),
      Renamed link_tool ''IgnoreDefaultLibraryNames'' ''IgnoreSpecificDefaultLibraries'' file_list,
      Renamed link_tool ''ResourceOnlyDLL'' ''NoEntryPoint'' boolean,
      Renamed link_tool ''SwapRunFromNet'' ''SwapRunFromNET'' boolean,
      Moved link_tool ''GenerateManifest'' '''' boolean,
      Moved link_tool ''IgnoreImportLibrary'' '''' boolean,
      Moved link_tool ''LinkIncremental'' '''' newly_boolean,
      Moved link_tool ''LinkLibraryDependencies'' ''ProjectReference'' boolean,
      Moved link_tool ''UseLibraryDependencyInputs'' ''ProjectReference'' boolean,
      MSVSOnly link_tool ''OptimizeForWindows98'' newly_boolean,
      MSVSOnly link_tool ''UseUnicodeResponseFiles'' boolean,
      MSBuildOnly link_tool ''BuildingInIDE'' boolean,
      MSBuildOnly link_tool ''ImageHasSafeExceptionHandlers'' boolean,
      MSBuildOnly link_tool ''LinkDLL'' boolean,
      MSBuildOnly link_tool ''LinkStatus'' boolean,
      MSBuildOnly link_tool ''PreventDllBinding'' boolean,
      MSBuildOnly link_tool ''SupportNobindOfDelayLoadedDLL'' boolean,
      MSBuildOnly link_tool ''TrackerLogDirectory'' folder_name,
      MSBuildOnly link_tool ''MSDOSStubFileName'' file_name,
      MSBuildOnly link_tool ''SectionAlignment'' integer,
      MSBuildOnly link_tool ''SpecifySectionAttributes'' string_setting,
      MSBuildOnly link_tool ''ForceFileOutput'' (labels [] [''Enabled'',
        ''MultiplyDefinedSymbolOnly'', ''UndefinedSymbolOnly'']),
      MSBuildOnly link_tool ''CreateHotPatchableImage'' (labels [] [''Enabled'', ''X86Image'',
        ''X64Image'', ''ItaniumImage'']),
      MSBuildOnly link_tool ''CLRSupportLastError'' (labels [] [''Enabled'', ''Disabled'',
        ''SystemDlls''])]"

definition rc_settings :: "decl list" where
  "rc_settings =
     [Same rc_tool ''AdditionalOptions'' string_list,
      Same rc_tool ''AdditionalIncludeDirectories'' folder_list,
      Same rc_tool ''Culture'' (TInteger 16),
      Same rc_tool ''IgnoreStandardIncludePath'' boolean,
      Same rc_tool ''PreprocessorDefinitions'' string_list,
      Same rc_tool ''ResourceOutputFileName'' string_setting,
      Same rc_tool ''ShowProgress'' boolean,
      Same rc_tool ''SuppressStartupBanner'' boolean,
      Same rc_tool ''UndefinePreprocessorDefinitions'' string_list,
      MSBuildOnly rc_tool ''NullTerminateStrings'' boolean,
      MSBuildOnly rc_tool ''TrackerLogDirectory'' folder_name]"

definition midl_settings :: "decl list" where
  "midl_settings =
     [Same midl_tool ''AdditionalIncludeDirectories'' folder_list,
      Same midl_tool ''AdditionalOptions'' string_list,
      Same midl_tool ''CPreprocessOptions'' string_setting,
      Same midl_tool ''ErrorCheckAllocations'' boolean,
      Same midl_tool ''ErrorCheckBounds'' boolean,
      Same midl_tool ''ErrorCheckEnumRange'' boolean,
      Same midl_tool ''ErrorCheckRefPointers'' boolean,
      Same midl_tool ''ErrorCheckStubData'' boolean,
      Same midl_tool ''GenerateStublessProxies'' boolean,
      Same midl_tool ''GenerateTypeLibrary'' boolean,
      Same midl_tool ''HeaderFileName'' file_name,
      Same midl_tool ''IgnoreStandardIncludePath'' boolean,
      Same midl_tool ''InterfaceIdentifierFileName'' file_name,
      Same midl_tool ''MkTypLibCompatible'' boolean,
      Same midl_tool ''OutputDirectory'' string_setting,
      Same midl_tool ''PreprocessorDefinitions'' string_list,
      Same midl_tool ''ProxyFileName'' file_name,
      Same midl_tool ''RedirectOutputAndErrors'' file_name,
      Same midl_tool ''SuppressStartupBanner'' boolean,
      Same midl_tool ''TypeLibraryName'' file_name,
      Same midl_tool ''UndefinePreprocessorDefinitions'' string_list,
      Same midl_tool ''WarnAsError'' boolean,
      Same midl_tool ''DefaultCharType'' (labels [''Unsigned'', ''Signed'', ''Ascii''] []),
      Same midl_tool ''TargetEnvironment'' (labels [''NotSet'', ''Win32'', ''Itanium'', ''X64'']
        []),
      Same midl_tool ''EnableErrorChecks'' (labels [''EnableCustom'', ''None'', ''All''] []),
      Same midl_tool ''StructMemberAlignment'' (labels [''NotSet'', ''1'', ''2'', ''4'', ''8'']
        []),
      Same midl_tool ''WarningLevel'' (labels [''0'', ''1'', ''2'', ''3'', ''4''] []),
      Renamed midl_tool ''DLLDataFileName'' ''DllDataFileName'' file_name,
      Renamed midl_tool ''ValidateParameters'' ''ValidateAllParameters'' boolean,
      MSBuildOnly midl_tool ''ApplicationConfigurationMode'' boolean,
      MSBuildOnly midl_tool ''ClientStubFile'' file_name,
      MSBuildOnly midl_tool ''GenerateClientFiles'' (labels [] [''Stub'', ''None'']),
      MSBuildOnly midl_tool ''GenerateServerFiles'' (labels [] [''Stub'', ''None'']),
      MSBuildOnly midl_tool ''LocaleID'' integer,
      MSBuildOnly midl_tool ''ServerStubFile'' file_name,
      MSBuildOnly midl_tool ''SuppressCompilerWarnings'' boolean,
      MSBuildOnly midl_tool ''TrackerLogDirectory'' folder_name,
      MSBuildOnly midl_tool ''TypeLibFormat'' (labels [] [''NewFormat'', ''OldFormat''])]"

definition lib_settings :: "decl list" where
  "lib_settings =
     [Same lib_tool ''AdditionalDependencies'' file_list,
      Same lib_tool ''AdditionalLibraryDirectories'' folder_list,
      Same lib_tool ''AdditionalOptions'' string_list,
      Same lib_tool ''ExportNamedFunctions'' string_list,
      Same lib_tool ''ForceSymbolReferences'' string_setting,
      Same lib_tool ''IgnoreAllDefaultLibraries'' boolean,
      Same lib_tool ''IgnoreSpecificDefaultLibraries'' file_list,
      Same lib_tool ''ModuleDefinitionFile'' file_name,
      Same lib_tool ''OutputFile'' file_name,
      Same lib_tool ''SuppressStartupBanner'' boolean,
      Same lib_tool ''UseUnicodeResponseFiles'' boolean,
      Same lib_tool ''LinkTimeCodeGeneration'' boolean,
      Same lib_tool ''TargetMachine'' target_machine_enumeration,
      Moved lib_tool ''LinkLibraryDependencies'' ''ProjectReference'' boolean,
      MSBuildOnly lib_tool ''DisplayLibrary'' string_setting,
      MSBuildOnly lib_tool ''ErrorReporting'' (labels [] [''PromptImmediately'',
        ''QueueForNextLogin'', ''SendErrorReport'', ''NoErrorReport'']),
      MSBuildOnly lib_tool ''MinimumRequiredVersion'' string_setting,
      MSBuildOnly lib_tool ''Name'' file_name,
      MSBuildOnly lib_tool ''RemoveObjects'' file_list,
      MSBuildOnly lib_tool ''SubSystem'' subsystem_enumeration,
      MSBuildOnly lib_tool ''TrackerLogDirectory'' folder_name,
      MSBuildOnly lib_tool ''TreatLibWarningAsErrors'' boolean,
      MSBuildOnly lib_tool ''Verbose'' boolean]"

definition manifest_settings :: "decl list" where
  "manifest_settings =
     [Same manifest_tool ''AdditionalManifestFiles'' file_list,
      Same manifest_tool ''AdditionalOptions'' string_list,
      Same manifest_tool ''AssemblyIdentity'' string_setting,
      Same manifest_tool ''ComponentFileName'' file_name,
      Same manifest_tool ''GenerateCatalogFiles'' boolean,
      Same manifest_tool ''InputResourceManifests'' string_setting,
      Same manifest_tool ''OutputManifestFile'' file_name,
      Same manifest_tool ''RegistrarScriptFile'' file_name,
      Same manifest_tool ''ReplacementsFile'' file_name,
      Same manifest_tool ''SuppressStartupBanner'' boolean,
      Same manifest_tool ''TypeLibraryFile'' file_name,
      Same manifest_tool ''UpdateFileHashes'' boolean,
      Same manifest_tool ''UpdateFileHashesSearchPath'' file_name,
      Same manifest_tool ''VerboseOutput'' boolean,
      MovedAndRenamed manifest_tool ''ManifestResourceFile'' ''ManifestResourceCompile''
        ''ResourceOutputFileName'' file_name,
      Moved manifest_tool ''EmbedManifest'' '''' boolean,
      MSVSOnly manifest_tool ''DependencyInformationFile'' file_name,
      MSVSOnly manifest_tool ''UseFAT32Workaround'' boolean,
      MSVSOnly manifest_tool ''UseUnicodeResponseFiles'' boolean,
      MSBuildOnly manifest_tool ''EnableDPIAwareness'' boolean,
      MSBuildOnly manifest_tool ''GenerateCategoryTags'' boolean,
      MSBuildOnly manifest_tool ''ManifestFromManagedAssembly'' file_name,
      MSBuildOnly manifest_tool ''OutputResourceManifests'' string_setting,
      MSBuildOnly manifest_tool ''SuppressDependencyElement'' boolean,
      MSBuildOnly manifest_tool ''TrackerLogDirectory'' folder_name]"
definition tool_registry :: registry where
  "tool_registry =
     (let r = foldl (\<lambda>r t. AddTool t r) empty_registry
                [compile_tool, link_tool, midl_tool, rc_tool, lib_tool, manifest_tool] in
      r\<lparr>msbuild_validators := foldl (\<lambda>d n. AList.update n [] d) (msbuild_validators r)
          [[], ''ProjectReference'', ''ManifestResourceCompile'']\<rparr>)"

definition declarations :: "decl list" where
  "declarations = compile_same @ compile_other @ link_same @ link_other @ rc_settings @ midl_settings
     @ lib_settings @ manifest_settings"

definition load_settings :: "registry res" where
  "load_settings = efold (\<lambda>r d. declare_setting d r) tool_registry declarations"

end
