(* ===== verification/SettingsConversion.thy ===== *)
theory SettingsConversion
  imports SettingTables
begin

text \<open>
  What the tables of \<open>gyp/MSVSSettings.py\<close> promise together: after the module has been loaded
  every converter writes a setting that MSBuild knows with the type it is validated by, so valid
  MSVS settings convert to valid MSBuild settings. The registry is described by what its
  declarations write, so that only the names and types of the tables are evaluated.
\<close>

section \<open>What a declaration writes\<close>

definition lookup2 :: "'v tool_dict \<Rightarrow> string \<times> string \<Rightarrow> 'v option" where
  "lookup2 d k = Option.bind (map_of d (fst k)) (\<lambda>s. map_of s (snd k))"

fun msbuild_writes :: "decl \<Rightarrow> ((string \<times> string) \<times> setting_type) list" where
  "msbuild_writes (Same t n ty) = [((msbuild_name t, n), ty)]"
| "msbuild_writes (Renamed t n n' ty) = [((msbuild_name t, n'), ty)]"
| "msbuild_writes (Moved t n t' ty) = [((t', n), ty)]"
| "msbuild_writes (MovedAndRenamed t n t' n' ty) = [((t', n'), ty)]"
| "msbuild_writes (MSVSOnly t n ty) = []"
| "msbuild_writes (MSBuildOnly t n ty) = [((msbuild_name t, n), ty)]"
| "msbuild_writes (ConvertedToAdditionalOption t n flag) = []"
| "msbuild_writes (CustomGeneratePreprocessedFile t n) =
     [((msbuild_name t, ''PreprocessToFile''), TBoolean),
      ((msbuild_name t, ''PreprocessSuppressLineNumbers''), TBoolean)]"

fun msvs_writes :: "decl \<Rightarrow> ((string \<times> string) \<times> setting_type \<times> translation) list" where
  "msvs_writes (Same t n ty) = [((msvs_name t, n), ty, Translated (msbuild_name t) n ty)]"
| "msvs_writes (Renamed t n n' ty) = [((msvs_name t, n), ty, Translated (msbuild_name t) n' ty)]"
| "msvs_writes (Moved t n t' ty) = [((msvs_name t, n), ty, Translated t' n ty)]"
| "msvs_writes (MovedAndRenamed t n t' n' ty) = [((msvs_name t, n), ty, Translated t' n' ty)]"
| "msvs_writes (MSVSOnly t n ty) = [((msvs_name t, n), ty, Untranslated)]"
| "msvs_writes (MSBuildOnly t n ty) = []"
| "msvs_writes (ConvertedToAdditionalOption t n flag) =
     [((msvs_name t, n), TBoolean, FlagOption (msbuild_name t) flag)]"
| "msvs_writes (CustomGeneratePreprocessedFile t n) =
     [((msvs_name t, n), TEnumeration [Some ''a'', Some ''b'', Some ''c''] [], PreprocessedFile (msbuild_name t))]"

text \<open>The registry after the writes of a list of declarations.\<close>

definition describes :: "registry \<Rightarrow> decl list \<Rightarrow> bool" where
  "describes r ds \<longleftrightarrow>
     (\<forall>k. lookup2 (msbuild_validators r) k = map_of (rev (concat (map msbuild_writes ds))) k)
     \<and> (\<forall>k. lookup2 (msvs_validators r) k = map_option fst (map_of (rev (concat (map msvs_writes ds))) k))
     \<and> (\<forall>k. lookup2 (converters r) k = map_option snd (map_of (rev (concat (map msvs_writes ds))) k))"

definition same_tools :: "registry \<Rightarrow> registry \<Rightarrow> bool" where
  "same_tools r r' \<longleftrightarrow>
     (\<forall>t. (map_of (msbuild_validators r) t = None) = (map_of (msbuild_validators r') t = None)
        \<and> (map_of (msvs_validators r) t = None) = (map_of (msvs_validators r') t = None)
        \<and> (map_of (converters r) t = None) = (map_of (converters r') t = None))"

definition knows_tools :: "registry \<Rightarrow> decl \<Rightarrow> bool" where
  "knows_tools r d \<longleftrightarrow>
     (\<forall>w\<in>set (msbuild_writes d). map_of (msbuild_validators r) (fst (fst w)) \<noteq> None)
     \<and> (\<forall>w\<in>set (msvs_writes d). map_of (msvs_validators r) (fst (fst w)) \<noteq> None
                               \<and> map_of (converters r) (fst (fst w)) \<noteq> None)"

lemma put_known:
  assumes "map_of d t \<noteq> None"
  obtains d' where "put t n v d = Inr d'"
    and "\<And>k. lookup2 d' k = (if k = (t, n) then Some v else lookup2 d k)"
    and "\<And>t'. (map_of d' t' = None) = (map_of d t' = None)"
proof -
  obtain s where s: "map_of d t = Some s" using assms by auto
  let ?d' = "AList.update t (AList.update n v s) d"
  have "put t n v d = Inr ?d'" by (simp add: put_def s)
  moreover have "lookup2 ?d' k = (if k = (t, n) then Some v else lookup2 d k)" for k
    by (cases k) (auto simp: lookup2_def update_conv s)
  moreover have "(map_of ?d' t' = None) = (map_of d t' = None)" for t'
    by (simp add: update_conv s)
  ultimately show thesis using that by blast
qed

lemma put_registry:
  "map_of (msbuild_validators r) t \<noteq> None \<Longrightarrow> \<exists>d. put_msbuild t n ty r = Inr (r\<lparr>msbuild_validators := d\<rparr>)
     \<and> (\<forall>k. lookup2 d k = (if k = (t, n) then Some ty else lookup2 (msbuild_validators r) k))
     \<and> (\<forall>t'. (map_of d t' = None) = (map_of (msbuild_validators r) t' = None))"
  "map_of (msvs_validators r) t \<noteq> None \<Longrightarrow> \<exists>d. put_msvs t n ty r = Inr (r\<lparr>msvs_validators := d\<rparr>)
     \<and> (\<forall>k. lookup2 d k = (if k = (t, n) then Some ty else lookup2 (msvs_validators r) k))
     \<and> (\<forall>t'. (map_of d t' = None) = (map_of (msvs_validators r) t' = None))"
  "map_of (converters r) t \<noteq> None \<Longrightarrow> \<exists>d. put_converter t n tr r = Inr (r\<lparr>converters := d\<rparr>)
     \<and> (\<forall>k. lookup2 d k = (if k = (t, n) then Some tr else lookup2 (converters r) k))
     \<and> (\<forall>t'. (map_of d t' = None) = (map_of (converters r) t' = None))"
proof -
  show "\<exists>d. put_msbuild t n ty r = Inr (r\<lparr>msbuild_validators := d\<rparr>)
     \<and> (\<forall>k. lookup2 d k = (if k = (t, n) then Some ty else lookup2 (msbuild_validators r) k))
     \<and> (\<forall>t'. (map_of d t' = None) = (map_of (msbuild_validators r) t' = None))"
    if k: "map_of (msbuild_validators r) t \<noteq> None"
    by (rule put_known [OF k, of n ty]) (auto simp: put_msbuild_def)
  show "\<exists>d. put_msvs t n ty r = Inr (r\<lparr>msvs_validators := d\<rparr>)
     \<and> (\<forall>k. lookup2 d k = (if k = (t, n) then Some ty else lookup2 (msvs_validators r) k))
     \<and> (\<forall>t'. (map_of d t' = None) = (map_of (msvs_validators r) t' = None))"
    if k: "map_of (msvs_validators r) t \<noteq> None"
    by (rule put_known [OF k, of n ty]) (auto simp: put_msvs_def)
  show "\<exists>d. put_converter t n tr r = Inr (r\<lparr>converters := d\<rparr>)
     \<and> (\<forall>k. lookup2 d k = (if k = (t, n) then Some tr else lookup2 (converters r) k))
     \<and> (\<forall>t'. (map_of d t' = None) = (map_of (converters r) t' = None))"
    if k: "map_of (converters r) t \<noteq> None"
    by (rule put_known [OF k, of n tr]) (auto simp: put_converter_def)
qed

text \<open>One declaration: the dictionaries it writes, and nothing else, change.\<close>

definition wrote :: "registry \<Rightarrow> decl \<Rightarrow> registry \<Rightarrow> bool" where
  "wrote r d r' \<longleftrightarrow> same_tools r r'
     \<and> (\<forall>k. lookup2 (msbuild_validators r') k =
          (case map_of (rev (msbuild_writes d)) k of Some ty \<Rightarrow> Some ty | None \<Rightarrow> lookup2 (msbuild_validators r) k))
     \<and> (\<forall>k. lookup2 (msvs_validators r') k =
          (case map_of (rev (msvs_writes d)) k of Some w \<Rightarrow> Some (fst w) | None \<Rightarrow> lookup2 (msvs_validators r) k))
     \<and> (\<forall>k. lookup2 (converters r') k =
          (case map_of (rev (msvs_writes d)) k of Some w \<Rightarrow> Some (snd w) | None \<Rightarrow> lookup2 (converters r) k))"

lemma moved_and_renamed_writes:
  assumes "map_of (msvs_validators r) (msvs_name t) \<noteq> None" and "map_of (converters r) (msvs_name t) \<noteq> None"
    and "map_of (msbuild_validators r) t' \<noteq> None"
  shows "\<exists>r'. moved_and_renamed t n t' n' ty r = Inr r' \<and> wrote r (MovedAndRenamed t n t' n' ty) r'"
proof -
  obtain d1 where 1: "put_msvs (msvs_name t) n ty r = Inr (r\<lparr>msvs_validators := d1\<rparr>)"
    "\<forall>k. lookup2 d1 k = (if k = (msvs_name t, n) then Some ty else lookup2 (msvs_validators r) k)"
    "\<forall>t'. (map_of d1 t' = None) = (map_of (msvs_validators r) t' = None)"
    using put_registry(2) [OF assms(1)] by blast
  let ?r1 = "r\<lparr>msvs_validators := d1\<rparr>"
  have "map_of (msbuild_validators ?r1) t' \<noteq> None" using assms(3) by simp
  from put_registry(1) [OF this] obtain d2 where 2: "put_msbuild t' n' ty ?r1 = Inr (?r1\<lparr>msbuild_validators := d2\<rparr>)"
    "\<forall>k. lookup2 d2 k = (if k = (t', n') then Some ty else lookup2 (msbuild_validators r) k)"
    "\<forall>t'. (map_of d2 t' = None) = (map_of (msbuild_validators r) t' = None)" by force
  let ?r2 = "?r1\<lparr>msbuild_validators := d2\<rparr>"
  have "map_of (converters ?r2) (msvs_name t) \<noteq> None" using assms(2) by simp
  from put_registry(3) [OF this] obtain d3 where
    3: "put_converter (msvs_name t) n (Translated t' n' ty) ?r2 = Inr (?r2\<lparr>converters := d3\<rparr>)"
    "\<forall>k. lookup2 d3 k = (if k = (msvs_name t, n) then Some (Translated t' n' ty) else lookup2 (converters r) k)"
    "\<forall>t'. (map_of d3 t' = None) = (map_of (converters r) t' = None)" by force
  show ?thesis using 1 2 3 by (auto simp: moved_and_renamed_def wrote_def same_tools_def)
qed

lemma renamed_moved: "renamed t n n' ty = moved_and_renamed t n (msbuild_name t) n' ty"
  by (simp add: renamed_def moved_and_renamed_def fun_eq_iff)

lemma declare_writes:
  assumes "knows_tools r d"
  shows "\<exists>r'. declare_setting d r = Inr r' \<and> wrote r d r'"
proof (cases d)
  case (Same t n ty)
  then show ?thesis
    using assms moved_and_renamed_writes [of r t "msbuild_name t" n n ty]
    by (auto simp: same_def renamed_moved knows_tools_def wrote_def)
next
  case (Renamed t n n' ty)
  then show ?thesis
    using assms moved_and_renamed_writes [of r t "msbuild_name t" n n' ty]
    by (auto simp: renamed_moved knows_tools_def wrote_def)
next
  case (Moved t n t' ty)
  then show ?thesis
    using assms moved_and_renamed_writes [of r t t' n n ty] by (auto simp: moved_def knows_tools_def wrote_def)
next
  case (MovedAndRenamed t n t' n' ty)
  then show ?thesis
    using assms moved_and_renamed_writes [of r t t' n n' ty] by (auto simp: knows_tools_def)
next
  case (MSVSOnly t n ty)
  then have k: "map_of (msvs_validators r) (msvs_name t) \<noteq> None" "map_of (converters r) (msvs_name t) \<noteq> None"
    using assms by (auto simp: knows_tools_def)
  from put_registry(2) [OF k(1), of n ty] obtain d1 where 1: "put_msvs (msvs_name t) n ty r = Inr (r\<lparr>msvs_validators := d1\<rparr>)"
    "\<forall>k. lookup2 d1 k = (if k = (msvs_name t, n) then Some ty else lookup2 (msvs_validators r) k)"
    "\<forall>t'. (map_of d1 t' = None) = (map_of (msvs_validators r) t' = None)" by blast
  show ?thesis
    using MSVSOnly 1 put_registry(3) [of "r\<lparr>msvs_validators := d1\<rparr>" "msvs_name t" n Untranslated] k(2)
    by (force simp: msvs_only_def wrote_def same_tools_def)
next
  case (MSBuildOnly t n ty)
  then show ?thesis
    using assms put_registry(1) [of r "msbuild_name t" n ty]
    by (force simp: msbuild_only_def knows_tools_def wrote_def same_tools_def)
next
  case (ConvertedToAdditionalOption t n flag)
  then have k: "map_of (msvs_validators r) (msvs_name t) \<noteq> None" "map_of (converters r) (msvs_name t) \<noteq> None"
    using assms by (auto simp: knows_tools_def)
  from put_registry(2) [OF k(1), of n TBoolean] obtain d1 where 1: "put_msvs (msvs_name t) n TBoolean r = Inr (r\<lparr>msvs_validators := d1\<rparr>)"
    "\<forall>k. lookup2 d1 k = (if k = (msvs_name t, n) then Some TBoolean else lookup2 (msvs_validators r) k)"
    "\<forall>t'. (map_of d1 t' = None) = (map_of (msvs_validators r) t' = None)" by blast
  show ?thesis
    using ConvertedToAdditionalOption 1 k(2)
      put_registry(3) [of "r\<lparr>msvs_validators := d1\<rparr>" "msvs_name t" n "FlagOption (msbuild_name t) flag"]
    by (force simp: converted_to_additional_option_def wrote_def same_tools_def)
next
  case (CustomGeneratePreprocessedFile t n)
  let ?ty = "TEnumeration [Some ''a'', Some ''b'', Some ''c''] []" and ?m = "msbuild_name t"
  have k: "map_of (msvs_validators r) (msvs_name t) \<noteq> None" "map_of (converters r) (msvs_name t) \<noteq> None"
    "map_of (msbuild_validators r) ?m \<noteq> None"
    using assms CustomGeneratePreprocessedFile by (auto simp: knows_tools_def)
  from put_registry(2) [OF k(1), of n ?ty] obtain d1 where 1: "put_msvs (msvs_name t) n ?ty r = Inr (r\<lparr>msvs_validators := d1\<rparr>)"
    "\<forall>k. lookup2 d1 k = (if k = (msvs_name t, n) then Some ?ty else lookup2 (msvs_validators r) k)"
    "\<forall>t'. (map_of d1 t' = None) = (map_of (msvs_validators r) t' = None)" by blast
  let ?r1 = "r\<lparr>msvs_validators := d1\<rparr>"
  from put_registry(1) [of ?r1 ?m "''PreprocessToFile''" TBoolean] k(3) obtain d2 where
    2: "put_msbuild ?m ''PreprocessToFile'' TBoolean ?r1 = Inr (?r1\<lparr>msbuild_validators := d2\<rparr>)"
    "\<forall>k. lookup2 d2 k = (if k = (?m, ''PreprocessToFile'') then Some TBoolean else lookup2 (msbuild_validators r) k)"
    "\<forall>t'. (map_of d2 t' = None) = (map_of (msbuild_validators r) t' = None)" by force
  let ?r2 = "?r1\<lparr>msbuild_validators := d2\<rparr>"
  from put_registry(1) [of ?r2 ?m "''PreprocessSuppressLineNumbers''" TBoolean] k(3) 2(3) obtain d3 where
    3: "put_msbuild ?m ''PreprocessSuppressLineNumbers'' TBoolean ?r2 = Inr (?r2\<lparr>msbuild_validators := d3\<rparr>)"
    "\<forall>k. lookup2 d3 k = (if k = (?m, ''PreprocessSuppressLineNumbers'') then Some TBoolean else lookup2 d2 k)"
    "\<forall>t'. (map_of d3 t' = None) = (map_of d2 t' = None)" by force
  let ?r3 = "?r2\<lparr>msbuild_validators := d3\<rparr>"
  from put_registry(3) [of ?r3 "msvs_name t" n "PreprocessedFile ?m"] k(2) obtain d4 where
    4: "put_converter (msvs_name t) n (PreprocessedFile ?m) ?r3 = Inr (?r3\<lparr>converters := d4\<rparr>)"
    "\<forall>k. lookup2 d4 k = (if k = (msvs_name t, n) then Some (PreprocessedFile ?m) else lookup2 (converters r) k)"
    "\<forall>t'. (map_of d4 t' = None) = (map_of (converters r) t' = None)" by force
  show ?thesis
    using CustomGeneratePreprocessedFile 1 2 3 4
    by (auto simp: custom_generate_preprocessed_file_def wrote_def same_tools_def)
qed

lemma wrote_describes:
  assumes "describes r ds" and "wrote r d r'"
  shows "describes r' (ds @ [d])"
  using assms unfolding describes_def wrote_def
  by (auto simp: map_add_def split: option.splits)

lemma same_tools_knows: "same_tools r r' \<Longrightarrow> knows_tools r d \<Longrightarrow> knows_tools r' d"
  unfolding same_tools_def knows_tools_def by blast

lemma same_tools_trans: "same_tools r r' \<Longrightarrow> same_tools r' r'' \<Longrightarrow> same_tools r r''"
  unfolding same_tools_def by blast

lemma declarations_describe:
  assumes "describes r ds0" and "\<forall>d\<in>set ds. knows_tools r d"
  shows "\<exists>r'. efold (\<lambda>r d. declare_setting d r) r ds = Inr r' \<and> describes r' (ds0 @ ds) \<and> same_tools r r'"
  using assms
proof (induction ds arbitrary: r ds0)
  case (Cons d ds)
  obtain r1 where r1: "declare_setting d r = Inr r1" "wrote r d r1"
    using declare_writes Cons.prems(2) by fastforce
  then have "same_tools r r1" by (simp add: wrote_def)
  then obtain r' where "efold (\<lambda>r d. declare_setting d r) r1 ds = Inr r'" "describes r' ((ds0 @ [d]) @ ds)" "same_tools r1 r'"
    using Cons.IH [OF wrote_describes [OF Cons.prems(1) r1(2)]] Cons.prems(2) same_tools_knows by fastforce
  then show ?case using r1(1) \<open>same_tools r r1\<close> same_tools_trans by auto
qed (auto simp: same_tools_def)

section \<open>The tables\<close>

text \<open>
  The names under which a declaration registers a validator with its own tool, and the settings
  it moves to another section.
\<close>

fun decl_tool :: "decl \<Rightarrow> tool" where
  "decl_tool (Same t n ty) = t"
| "decl_tool (Renamed t n n' ty) = t"
| "decl_tool (Moved t n t' ty) = t"
| "decl_tool (MovedAndRenamed t n t' n' ty) = t"
| "decl_tool (MSVSOnly t n ty) = t"
| "decl_tool (MSBuildOnly t n ty) = t"
| "decl_tool (ConvertedToAdditionalOption t n flag) = t"
| "decl_tool (CustomGeneratePreprocessedFile t n) = t"

fun home_writes :: "decl \<Rightarrow> (string \<times> setting_type) list" where
  "home_writes (Same t n ty) = [(n, ty)]"
| "home_writes (Renamed t n n' ty) = [(n', ty)]"
| "home_writes (MSBuildOnly t n ty) = [(n, ty)]"
| "home_writes (CustomGeneratePreprocessedFile t n) =
     [(''PreprocessToFile'', TBoolean), (''PreprocessSuppressLineNumbers'', TBoolean)]"
| "home_writes _ = []"

fun moved_writes :: "decl \<Rightarrow> ((string \<times> string) \<times> setting_type) list" where
  "moved_writes (Moved t n t' ty) = [((t', n), ty)]"
| "moved_writes (MovedAndRenamed t n t' n' ty) = [((t', n'), ty)]"
| "moved_writes _ = []"

lemma msbuild_writes_split:
  "w \<in> set (msbuild_writes d) \<longleftrightarrow>
     w \<in> set (moved_writes d) \<or> (\<exists>(n, ty)\<in>set (home_writes d). w = ((msbuild_name (decl_tool d), n), ty))"
  by (cases d) auto

definition msbuild_tools :: "string list" where
  "msbuild_tools = [''ClCompile'', ''Link'', ''Midl'', ''ResourceCompile'', ''Lib'', ''Manifest'',
     [], ''ProjectReference'', ''ManifestResourceCompile'']"

definition tool_groups :: "(tool \<times> decl list) list" where
  "tool_groups =
     [(compile_tool, compile_same @ compile_other), (link_tool, link_same @ link_other),
      (rc_tool, rc_settings), (midl_tool, midl_settings), (lib_tool, lib_settings),
      (manifest_tool, manifest_settings)]"

lemma declarations_groups: "set declarations = (\<Union>(t, g)\<in>set tool_groups. set g)"
  by (auto simp: declarations_def tool_groups_def)

lemma group_tool:
  "list_all (\<lambda>d. decl_tool d = compile_tool) compile_same" "list_all (\<lambda>d. decl_tool d = compile_tool) compile_other"
  "list_all (\<lambda>d. decl_tool d = link_tool) link_same" "list_all (\<lambda>d. decl_tool d = link_tool) link_other"
  "list_all (\<lambda>d. decl_tool d = rc_tool) rc_settings" "list_all (\<lambda>d. decl_tool d = midl_tool) midl_settings"
  "list_all (\<lambda>d. decl_tool d = lib_tool) lib_settings" "list_all (\<lambda>d. decl_tool d = manifest_tool) manifest_settings"
  by (simp_all add: compile_same_def compile_other_def link_same_def link_other_def rc_settings_def
      midl_settings_def lib_settings_def manifest_settings_def)

lemma groups_tool: "(t, g) \<in> set tool_groups \<Longrightarrow> d \<in> set g \<Longrightarrow> decl_tool d = t"
  using group_tool by (auto simp: tool_groups_def list_all_iff)

lemma compile_names: "distinct (map fst (concat (map home_writes (compile_same @ compile_other))))"
  by code_simp

lemma link_names: "distinct (map fst (concat (map home_writes (link_same @ link_other))))"
  by code_simp

lemma other_names:
  "distinct (map fst (concat (map home_writes rc_settings)))"
  "distinct (map fst (concat (map home_writes midl_settings)))"
  "distinct (map fst (concat (map home_writes lib_settings)))"
  "distinct (map fst (concat (map home_writes manifest_settings)))"
  by code_simp+

lemma groups_names: "(t, g) \<in> set tool_groups \<Longrightarrow> distinct (map fst (concat (map home_writes g)))"
  unfolding tool_groups_def using compile_names link_names other_names by auto

definition moved_table :: "((string \<times> string) \<times> setting_type) list" where
  "moved_table =
     [(([], ''GenerateManifest''), boolean), (([], ''IgnoreImportLibrary''), boolean),
      (([], ''LinkIncremental''), newly_boolean), ((''ProjectReference'', ''LinkLibraryDependencies''), boolean),
      ((''ProjectReference'', ''UseLibraryDependencyInputs''), boolean),
      ((''ProjectReference'', ''LinkLibraryDependencies''), boolean),
      ((''ManifestResourceCompile'', ''ResourceOutputFileName''), file_name), (([], ''EmbedManifest''), boolean)]"

lemma moved_writes_tables:
  "concat (map moved_writes compile_same) = []" "concat (map moved_writes compile_other) = []"
  "concat (map moved_writes link_same) = []" "concat (map moved_writes link_other) = take 5 moved_table"
  "concat (map moved_writes rc_settings) = []" "concat (map moved_writes midl_settings) = []"
  "concat (map moved_writes lib_settings) = [moved_table ! 5]"
  "concat (map moved_writes manifest_settings) = drop 6 moved_table"
  by (simp_all add: compile_same_def compile_other_def link_same_def link_other_def rc_settings_def
      midl_settings_def lib_settings_def manifest_settings_def moved_table_def)

lemma moved_writes_declarations: "concat (map moved_writes declarations) = moved_table"
  unfolding declarations_def map_append concat_append moved_writes_tables by (simp add: moved_table_def)

lemma home_tools:
  "(t, g) \<in> set tool_groups \<Longrightarrow> (t', g') \<in> set tool_groups \<Longrightarrow> msbuild_name t = msbuild_name t' \<Longrightarrow> g = g'"
  by (auto simp: tool_groups_def tool_defs)

lemma moved_tools: "w \<in> set moved_table \<Longrightarrow> (t, g) \<in> set tool_groups \<Longrightarrow> msbuild_name t \<noteq> fst (fst w)"
  by (auto simp: tool_groups_def tool_defs moved_table_def)

lemma moved_consistent: "(k, ty) \<in> set moved_table \<Longrightarrow> (k, ty') \<in> set moved_table \<Longrightarrow> ty = ty'"
  by (auto simp: moved_table_def)

lemma declared_write:
  "w \<in> set (concat (map msbuild_writes declarations)) \<longleftrightarrow>
     w \<in> set moved_table
     \<or> (\<exists>t g n ty. (t, g) \<in> set tool_groups \<and> (n, ty) \<in> set (concat (map home_writes g)) \<and> w = ((msbuild_name t, n), ty))"
proof -
  have "(\<exists>d\<in>set declarations. \<exists>(n, ty)\<in>set (home_writes d). w = ((msbuild_name (decl_tool d), n), ty))
     \<longleftrightarrow> (\<exists>t g n ty. (t, g) \<in> set tool_groups \<and> (n, ty) \<in> set (concat (map home_writes g)) \<and> w = ((msbuild_name t, n), ty))"
    (is "?l \<longleftrightarrow> ?r")
  proof
    assume ?l
    then obtain t g d n ty where "(t, g) \<in> set tool_groups" "d \<in> set g" "(n, ty) \<in> set (home_writes d)"
      "w = ((msbuild_name (decl_tool d), n), ty)" unfolding declarations_groups by blast
    then show ?r using groups_tool by fastforce
  next
    assume ?r
    then obtain t g n ty d where "(t, g) \<in> set tool_groups" "d \<in> set g" "(n, ty) \<in> set (home_writes d)"
      "w = ((msbuild_name t, n), ty)" by auto
    then show ?l using groups_tool unfolding declarations_groups by blast
  qed
  moreover have "(\<exists>d\<in>set declarations. w \<in> set (moved_writes d)) \<longleftrightarrow> w \<in> set moved_table"
    unfolding moved_writes_declarations [symmetric] by auto
  moreover have "w \<in> set (concat (map msbuild_writes declarations)) \<longleftrightarrow>
     (\<exists>d\<in>set declarations. w \<in> set (moved_writes d))
     \<or> (\<exists>d\<in>set declarations. \<exists>(n, ty)\<in>set (home_writes d). w = ((msbuild_name (decl_tool d), n), ty))"
    using msbuild_writes_split [of w] by fastforce
  ultimately show ?thesis by argo
qed

lemma msbuild_consistent:
  assumes "(k, ty) \<in> set (concat (map msbuild_writes declarations))"
    and "(k, ty') \<in> set (concat (map msbuild_writes declarations))"
  shows "ty = ty'"
proof (cases "(k, ty) \<in> set moved_table")
  case True
  have "(k, ty') \<in> set moved_table"
  proof (rule ccontr)
    assume "(k, ty') \<notin> set moved_table"
    then obtain t g n where t: "(t, g) \<in> set tool_groups" "k = (msbuild_name t, n)"
      using assms(2) unfolding declared_write by blast
    then show False using moved_tools [OF True t(1)] by simp
  qed
  then show ?thesis using True moved_consistent by blast
next
  case False
  then obtain t g n where t: "(t, g) \<in> set tool_groups" "(n, ty) \<in> set (concat (map home_writes g))" "k = (msbuild_name t, n)"
    using assms(1) unfolding declared_write by blast
  have "(k, ty') \<notin> set moved_table" using moved_tools [OF _ t(1)] t(3) by force
  then obtain t' g' n' where t': "(t', g') \<in> set tool_groups" "(n', ty') \<in> set (concat (map home_writes g'))"
    "k = (msbuild_name t', n')" using assms(2) unfolding declared_write by blast
  have "g' = g" "n' = n" using home_tools [OF t(1) t'(1)] t(3) t'(3) by auto
  then show ?thesis using eq_key_imp_eq_value [OF groups_names [OF t(1)] t(2)] t'(2) by blast
qed

section \<open>The loaded registry\<close>

definition settings_registry :: registry where
  "settings_registry = (case load_settings of Inr r \<Rightarrow> r | Inl _ \<Rightarrow> empty_registry)"

lemma tool_registry_tables:
  "msvs_validators tool_registry = map (\<lambda>p. (msvs_name (fst p), []))
     [(compile_tool, ()), (link_tool, ()), (midl_tool, ()), (rc_tool, ()), (lib_tool, ()), (manifest_tool, ())]"
  "converters tool_registry = map (\<lambda>p. (msvs_name (fst p), []))
     [(compile_tool, ()), (link_tool, ()), (midl_tool, ()), (rc_tool, ()), (lib_tool, ()), (manifest_tool, ())]"
  "msbuild_validators tool_registry = map (\<lambda>n. (n, [])) msbuild_tools"
  by (simp_all add: tool_registry_def AddTool_def empty_registry_def tool_defs msbuild_tools_def)

lemma lookup2_empty: "\<forall>p\<in>set d. snd p = [] \<Longrightarrow> lookup2 d k = None"
  by (cases "map_of d (fst k)") (force simp: lookup2_def dest: map_of_SomeD)+

lemma tool_registry_describes: "describes tool_registry []"
  unfolding describes_def by (auto intro!: lookup2_empty simp: tool_registry_tables)

lemma msvs_writes_tool: "w \<in> set (msvs_writes d) \<Longrightarrow> fst (fst w) = msvs_name (decl_tool d)"
  by (cases d) auto

lemma declarations_known:
  assumes "d \<in> set declarations"
  shows "knows_tools tool_registry d"
proof -
  obtain t g where t: "(t, g) \<in> set tool_groups" "d \<in> set g" "decl_tool d = t"
    using assms groups_tool unfolding declarations_groups by blast
  have "map_of (msvs_validators tool_registry) (msvs_name t) \<noteq> None"
    "map_of (converters tool_registry) (msvs_name t) \<noteq> None"
    "msbuild_name t \<in> set msbuild_tools"
    using t(1) by (auto simp: tool_groups_def tool_registry_tables tool_defs msbuild_tools_def)
  moreover have "fst (fst w) \<in> set msbuild_tools" if "w \<in> set (msbuild_writes d)" for w
  proof -
    have "w \<in> set moved_table \<or> fst (fst w) = msbuild_name t"
      using that assms t(3) unfolding msbuild_writes_split moved_writes_declarations [symmetric] by auto
    then show ?thesis using \<open>msbuild_name t \<in> set msbuild_tools\<close> by (auto simp: moved_table_def msbuild_tools_def)
  qed
  ultimately show ?thesis
    using msvs_writes_tool [of _ d] t(3)
    unfolding knows_tools_def tool_registry_tables(3) by (auto simp: map_of_eq_None_iff image_image)
qed

lemma load_settings_ok: "load_settings = Inr settings_registry"
  and settings_registry_describes: "describes settings_registry declarations"
  and settings_registry_tools: "same_tools tool_registry settings_registry"
proof -
  obtain r where r: "load_settings = Inr r" "describes r ([] @ declarations)" "same_tools tool_registry r"
    using declarations_describe [OF tool_registry_describes, of declarations] declarations_known
    unfolding load_settings_def by blast
  then have "settings_registry = r" unfolding settings_registry_def r(1) by simp
  then show "load_settings = Inr settings_registry" "describes settings_registry declarations"
    "same_tools tool_registry settings_registry"
    using r by simp_all
qed

lemma map_of_rev_functional:
  assumes "(k, v) \<in> set ws" and "\<And>v'. (k, v') \<in> set ws \<Longrightarrow> v' = v"
  shows "map_of (rev ws) k = Some v"
proof -
  have "map_of (rev ws) k \<noteq> None" using assms(1) by (auto simp: map_of_eq_None_iff intro: rev_image_eqI)
  then obtain v' where "map_of (rev ws) k = Some v'" by blast
  then show ?thesis using assms(2) map_of_SomeD by fastforce
qed

lemma msbuild_registered:
  assumes "(k, ty) \<in> set (concat (map msbuild_writes declarations))"
  shows "lookup2 (msbuild_validators settings_registry) k = Some ty"
  using settings_registry_describes map_of_rev_functional [OF assms] msbuild_consistent [OF assms]
  unfolding describes_def by metis

lemma converter_registered:
  "lookup2 (converters settings_registry) k = Some tr \<longleftrightarrow>
     (\<exists>ty. map_of (rev (concat (map msvs_writes declarations))) k = Some (ty, tr))"
  "lookup2 (msvs_validators settings_registry) k = Some ty \<longleftrightarrow>
     (\<exists>tr. map_of (rev (concat (map msvs_writes declarations))) k = Some (ty, tr))"
proof -
  have "lookup2 (converters settings_registry) k = map_option snd (map_of (rev (concat (map msvs_writes declarations))) k)"
    "lookup2 (msvs_validators settings_registry) k = map_option fst (map_of (rev (concat (map msvs_writes declarations))) k)"
    using settings_registry_describes unfolding describes_def by blast+
  then show "lookup2 (converters settings_registry) k = Some tr \<longleftrightarrow>
       (\<exists>ty. map_of (rev (concat (map msvs_writes declarations))) k = Some (ty, tr))"
    "lookup2 (msvs_validators settings_registry) k = Some ty \<longleftrightarrow>
       (\<exists>tr. map_of (rev (concat (map msvs_writes declarations))) k = Some (ty, tr))"
    by auto
qed

text \<open>What a converter writes is a setting of MSBuild, of the type it converts to.\<close>

fun fits :: "registry \<Rightarrow> setting_type \<Rightarrow> translation \<Rightarrow> bool" where
  "fits r ty (Translated t n ty') = (ty' = ty \<and> lookup2 (msbuild_validators r) (t, n) = Some ty)"
| "fits r ty Untranslated = True"
| "fits r ty (FlagOption t flag) = (lookup2 (msbuild_validators r) (t, ''AdditionalOptions'') = Some TStringList)"
| "fits r ty (PreprocessedFile t) =
     (lookup2 (msbuild_validators r) (t, ''PreprocessToFile'') = Some TBoolean
      \<and> lookup2 (msbuild_validators r) (t, ''PreprocessSuppressLineNumbers'') = Some TBoolean)"

definition base_ok :: "string \<times> string \<Rightarrow> setting_type \<Rightarrow> bool" where
  "base_ok k ty \<longleftrightarrow> (\<forall>b. ty = TInteger b \<longrightarrow> b = 10 \<or> b = 16 \<and> k = (msvs_name rc_tool, ''Culture''))"

fun flag_ok :: "decl \<Rightarrow> bool" where
  "flag_ok (ConvertedToAdditionalOption t n flag) = (t = compile_tool)"
| "flag_ok (CustomGeneratePreprocessedFile t n) = (n = ''GeneratePreprocessedFile'')"
| "flag_ok _ = True"

lemma tables_flags:
  "list_all flag_ok compile_same" "list_all flag_ok compile_other" "list_all flag_ok link_same"
  "list_all flag_ok link_other" "list_all flag_ok rc_settings" "list_all flag_ok midl_settings"
  "list_all flag_ok lib_settings" "list_all flag_ok manifest_settings"
  by (simp_all add: compile_same_def compile_other_def link_same_def link_other_def rc_settings_def
      midl_settings_def lib_settings_def manifest_settings_def)

abbreviation bases_ok :: "decl list \<Rightarrow> bool" where
  "bases_ok ds \<equiv> list_all (\<lambda>w. base_ok (fst w) (fst (snd w))) (concat (map msvs_writes ds))"

lemmas base_simps = base_ok_def type_defs subsystem_enumeration_def target_machine_enumeration_def

lemma tables_bases:
  "bases_ok compile_same" "bases_ok compile_other" "bases_ok link_same" "bases_ok link_other"
  "bases_ok rc_settings" "bases_ok midl_settings" "bases_ok lib_settings" "bases_ok manifest_settings"
         apply (simp add: compile_same_def base_simps)
        apply (simp add: compile_other_def base_simps)
       apply (simp add: link_same_def base_simps)
      apply (simp add: link_other_def base_simps)
     apply (simp add: rc_settings_def base_simps)
    apply (simp add: midl_settings_def base_simps)
   apply (simp add: lib_settings_def base_simps)
  apply (simp add: manifest_settings_def base_simps)
  done

lemma declarations_ok:
  "d \<in> set declarations \<Longrightarrow> flag_ok d"
  "d \<in> set declarations \<Longrightarrow> (k, ty, tr) \<in> set (msvs_writes d) \<Longrightarrow> base_ok k ty"
proof -
  have "list_all flag_ok declarations" using tables_flags by (simp add: declarations_def)
  then show "d \<in> set declarations \<Longrightarrow> flag_ok d" by (simp add: list_all_iff)
  have "bases_ok declarations" using tables_bases by (simp add: declarations_def)
  then show "d \<in> set declarations \<Longrightarrow> (k, ty, tr) \<in> set (msvs_writes d) \<Longrightarrow> base_ok k ty"
    unfolding list_all_iff by force
qed

lemma settings_registry_fits:
  assumes "lookup2 (converters settings_registry) k = Some tr"
  shows "\<exists>ty. lookup2 (msvs_validators settings_registry) k = Some ty \<and> fits settings_registry ty tr \<and> base_ok k ty
    \<and> (\<forall>t. tr = PreprocessedFile t \<longrightarrow> snd k = ''GeneratePreprocessedFile'')"
proof -
  obtain ty where ty: "map_of (rev (concat (map msvs_writes declarations))) k = Some (ty, tr)"
    using assms converter_registered(1) by blast
  then obtain d where d: "d \<in> set declarations" "(k, ty, tr) \<in> set (msvs_writes d)"
    by (auto dest!: map_of_SomeD)
  have w: "w \<in> set (msbuild_writes d) \<Longrightarrow> lookup2 (msbuild_validators settings_registry) (fst w) = Some (snd w)" for w
    using d(1) by (intro msbuild_registered) auto
  have "Same compile_tool ''AdditionalOptions'' string_list \<in> set declarations"
    by (simp add: declarations_def compile_same_def)
  then have "lookup2 (msbuild_validators settings_registry) (msbuild_name compile_tool, ''AdditionalOptions'') = Some TStringList"
    by (intro msbuild_registered) (force simp: string_list_def)
  then have "fits settings_registry ty tr"
    using d w declarations_ok(1) [OF d(1)] by (cases d) auto
  moreover have "\<forall>t. tr = PreprocessedFile t \<longrightarrow> snd k = ''GeneratePreprocessedFile''"
    using d(2) declarations_ok(1) [OF d(1)] by (cases d) auto
  ultimately show ?thesis using ty converter_registered(2) declarations_ok(2) [OF d] by blast
qed

lemma settings_registry_keys:
  "lookup2 (converters settings_registry) k = None \<longleftrightarrow> lookup2 (msvs_validators settings_registry) k = None"
proof -
  let ?m = "map_of (rev (concat (map msvs_writes declarations))) k"
  have "lookup2 (converters settings_registry) k = map_option snd ?m"
    "lookup2 (msvs_validators settings_registry) k = map_option fst ?m"
    using settings_registry_describes unfolding describes_def by blast+
  then show ?thesis by simp
qed

lemma settings_registry_same_tools:
  "map_of (converters settings_registry) t = None \<longleftrightarrow> map_of (msvs_validators settings_registry) t = None"
proof -
  have "map_of (converters tool_registry) t = None \<longleftrightarrow> map_of (msvs_validators tool_registry) t = None"
    unfolding tool_registry_tables map_of_eq_None_iff by (simp add: image_image)
  then show ?thesis using spec [OF settings_registry_tools [unfolded same_tools_def], of t] by argo
qed

end
