(* ===== verification/SettingsCorrect.thy ===== *)
theory SettingsCorrect
  imports SettingsConversion
begin

text \<open>
  The entry points of \<open>gyp/MSVSSettings.py\<close> on the loaded registry: settings that validate
  silently for MSVS convert, and what they convert to validates silently for MSBuild.
\<close>

section \<open>Validation\<close>

lemma efold_log:
  assumes "\<And>s x. f s x = ebind (g x) (\<lambda>w. Inr (s @ w))"
  shows "efold f s xs = ebind (emap g xs) (\<lambda>ws. Inr (s @ concat ws))"
proof (induction xs arbitrary: s)
  case (Cons x xs)
  show ?case unfolding efold.simps emap.simps assms [of s]
    by (cases "g x"; cases "emap g xs") (simp_all add: Cons.IH)
qed simp

definition setting_warnings :: "(setting_type \<Rightarrow> pyval \<Rightarrow> unit res) \<Rightarrow> string \<Rightarrow> (string \<times> setting_type) list
    \<Rightarrow> string \<times> pyval \<Rightarrow> string list res" where
  "setting_warnings validate t tv item = validate_setting validate t tv [] item"

definition tool_warnings :: "(setting_type \<Rightarrow> pyval \<Rightarrow> unit res) \<Rightarrow> setting_type tool_dict \<Rightarrow> string \<times> pydict \<Rightarrow> string list res" where
  "tool_warnings validate validators item = validate_tool validate validators [] item"

lemma validate_setting_log:
  "validate_setting validate t tv s x = ebind (setting_warnings validate t tv x) (\<lambda>w. Inr (s @ w))"
  by (cases x) (auto simp: setting_warnings_def validate_setting_def split: option.splits sum.splits pyerr.splits)

lemma validate_tool_log:
  "validate_tool validate validators s x = ebind (tool_warnings validate validators x) (\<lambda>w. Inr (s @ w))"
proof (cases x)
  case (Pair t d)
  then show ?thesis
    by (auto simp: tool_warnings_def validate_tool_def efold_log [OF validate_setting_log] ebind_def
        split: option.splits sum.splits)
qed

lemma silent_iff:
  "ValidateSettings validate validators settings = Inr [] \<longleftrightarrow>
     (\<forall>(t, d)\<in>set settings. \<exists>tv. map_of validators t = Some tv
        \<and> (\<forall>p\<in>set d. setting_warnings validate t tv p = Inr []))"
proof -
  have all: "ebind (emap g xs) (\<lambda>ws. Inr (concat ws)) = Inr [] \<longleftrightarrow> (\<forall>x\<in>set xs. g x = Inr [])"
    for g :: "'c \<Rightarrow> string list res" and xs
  proof (induction xs)
    case (Cons x xs)
    then show ?case by (cases "g x"; cases "emap g xs") auto
  qed simp
  have tool: "tool_warnings validate validators (t, d) = Inr [] \<longleftrightarrow>
      (\<exists>tv. map_of validators t = Some tv \<and> (\<forall>p\<in>set d. setting_warnings validate t tv p = Inr []))" for t d
  proof (cases "map_of validators t")
    case (Some tv)
    show ?thesis
      unfolding tool_warnings_def validate_tool_def prod.case Some option.case efold_log [OF validate_setting_log]
        append_Nil all by simp
  qed (simp add: tool_warnings_def validate_tool_def)
  show ?thesis
    unfolding ValidateSettings_def efold_log [OF validate_tool_log] append_Nil all using tool by fastforce
qed

lemma silent_setting:
  "setting_warnings validate t tv (n, v) = Inr [] \<longleftrightarrow>
     (case map_of tv n of
        Some ty \<Rightarrow> validate ty v = Inr ()
      | None \<Rightarrow> \<exists>root. excluded_root n = Some root \<and> map_of tv root \<noteq> None)"
  by (auto simp: setting_warnings_def validate_setting_def ValidateExclusionSetting_def
      split: option.splits sum.splits pyerr.splits)

section \<open>Settings that are valid for MSBuild\<close>

lemma set_update_subset: "set (AList.update k v d) \<subseteq> insert (k, v) (set d)"
  by (induction d) auto

definition valid_msbuild :: "registry \<Rightarrow> settings \<Rightarrow> bool" where
  "valid_msbuild r m \<longleftrightarrow>
     (\<forall>(t, d)\<in>set m. map_of (msbuild_validators r) t \<noteq> None
        \<and> (\<forall>(n, v)\<in>set d. \<exists>ty. lookup2 (msbuild_validators r) (t, n) = Some ty \<and> ValidateMSBuild ty v = Inr ()))"

lemma valid_msbuild_silent: "valid_msbuild r m \<Longrightarrow> ValidateMSBuildSettings r m = Inr []"
  unfolding ValidateMSBuildSettings_def silent_iff valid_msbuild_def
  by (fastforce simp: silent_setting lookup2_def)

lemma valid_setdefault:
  "valid_msbuild r m \<Longrightarrow> lookup2 (msbuild_validators r) (t, n) \<noteq> None \<Longrightarrow> valid_msbuild r (setdefault_tool t m)"
  by (cases "map_of (msbuild_validators r) t") (auto simp: valid_msbuild_def setdefault_tool_def lookup2_def)

lemma setdefault_known: "map_of (setdefault_tool t m) t \<noteq> None"
  by (auto simp: setdefault_tool_def map_add_def)

lemma valid_set_setting:
  assumes "valid_msbuild r m" and "map_of m t \<noteq> None"
    and "lookup2 (msbuild_validators r) (t, n) = Some ty" and "ValidateMSBuild ty v = Inr ()"
  shows "valid_msbuild r (set_setting t n v m)"
proof -
  obtain d where d: "map_of m t = Some d" using assms(2) by auto
  have t: "map_of (msbuild_validators r) t \<noteq> None" using assms(3) by (auto simp: lookup2_def bind_eq_Some_conv)
  have "\<exists>ty. lookup2 (msbuild_validators r) (t, n') = Some ty \<and> ValidateMSBuild ty v' = Inr ()"
    if "(n', v') \<in> set (dset n v d)" for n' v'
    using that set_dset_subset [of n v d] assms(1,3,4) map_of_SomeD [OF d] unfolding valid_msbuild_def by fastforce
  then show ?thesis
    using assms(1) t set_update_subset [of t "dset n v d" m] unfolding valid_msbuild_def set_setting_def d option.sel
    by (auto dest!: subsetD)
qed

lemma set_setting_known: "map_of (set_setting t n v m) t \<noteq> None"
  by (simp add: set_setting_def update_conv)

section \<open>One translation\<close>

lemma translate_valid:
  assumes m: "valid_msbuild r m" and f: "fits r ty tr" and v: "ValidateMSVS ty v = Inr ()"
    and s: "strings_only v" and b: "good_base ty v"
  shows "\<exists>m' e. translate order tr v m = (m', e) \<and> valid_msbuild r m'
    \<and> (e = None \<or> (\<exists>msg t. e = Some (ValueErr msg) \<and> tr = PreprocessedFile t \<and> preprocess_flags v = None))"
proof (cases tr)
  case (Translated t n ty')
  then have l: "ty' = ty" "lookup2 (msbuild_validators r) (t, n) = Some ty" using f by auto
  obtain w where w: "ConvertToMSBuild order ty v = Inr w" using ConvertToMSBuild_total [OF v s] by blast
  have "valid_msbuild r (set_setting t n w (setdefault_tool t m))"
    using valid_setdefault [OF m, of t n] l(2) setdefault_known ConvertToMSBuild_valid [OF v b w]
    by (intro valid_set_setting) auto
  then show ?thesis using Translated l(1) w by (simp add: translate_value_def Let_def)
next
  case Untranslated
  then show ?thesis using m by simp
next
  case (FlagOption t flag)
  then have l: "lookup2 (msbuild_validators r) (t, ''AdditionalOptions'') = Some TStringList" using f by auto
  have "valid_msbuild r (set_setting t ''AdditionalOptions'' (PStr x) (setdefault_tool t m))" for x
    using valid_setdefault [OF m, of t "''AdditionalOptions''"] l setdefault_known
    by (intro valid_set_setting [of _ _ _ _ TStringList]) (auto simp: ValidateStringList_def)
  then show ?thesis using FlagOption m by (auto simp: translate_flag_def Let_def split: option.splits)
next
  case (PreprocessedFile t)
  then have l: "lookup2 (msbuild_validators r) (t, ''PreprocessToFile'') = Some TBoolean"
    "lookup2 (msbuild_validators r) (t, ''PreprocessSuppressLineNumbers'') = Some TBoolean" using f by auto
  have d: "valid_msbuild r (setdefault_tool t m)" using valid_setdefault [OF m, of t "''PreprocessToFile''"] l(1) by simp
  show ?thesis
  proof (cases "preprocess_flags v")
    case None
    then show ?thesis using PreprocessedFile d by (simp add: translate_preprocessed_def Let_def)
  next
    case (Some fl)
    then have ok: "ValidateMSBuild TBoolean (PStr (fst fl)) = Inr ()" "ValidateMSBuild TBoolean (PStr (snd fl)) = Inr ()"
      by (auto simp: preprocess_flags_def ValidateBoolean_def split: if_splits)
    have "valid_msbuild r (set_setting t ''PreprocessToFile'' (PStr (fst fl)) (setdefault_tool t m))"
      by (rule valid_set_setting [OF d setdefault_known l(1) ok(1)])
    then have "valid_msbuild r (set_setting t ''PreprocessSuppressLineNumbers'' (PStr (snd fl))
       (set_setting t ''PreprocessToFile'' (PStr (fst fl)) (setdefault_tool t m)))"
      by (rule valid_set_setting [OF _ set_setting_known l(2) ok(2)])
    then show ?thesis using PreprocessedFile Some
      by (cases fl) (simp add: translate_preprocessed_def Let_def)
  qed
qed

section \<open>The conversion\<close>

text \<open>
  Hypotheses on a setting besides being valid: the items of a list are strings, and the culture,
  which \<open>'0x%04x'\<close> prints, is not negative.
\<close>

definition convertible :: "string \<Rightarrow> string \<times> pyval \<Rightarrow> bool" where
  "convertible t p \<longleftrightarrow> strings_only (snd p)
     \<and> ((t, fst p) = (msvs_name rc_tool, ''Culture'') \<longrightarrow> (\<forall>i. int_of_value (snd p) = Inr i \<longrightarrow> 0 \<le> i))"

definition preprocess_ok :: "string \<times> pyval \<Rightarrow> bool" where
  "preprocess_ok p \<longleftrightarrow> (fst p = ''GeneratePreprocessedFile'' \<longrightarrow> preprocess_flags (snd p) \<noteq> None)"

lemma convert_setting_valid:
  assumes tv: "map_of (msvs_validators settings_registry) t = Some tv"
    and tc: "map_of (converters settings_registry) t = Some tc"
    and silent: "setting_warnings ValidateMSVS t tv p = Inr []" and c: "convertible t p"
    and m: "valid_msbuild settings_registry m"
  shows "\<exists>m' ws. convert_setting order t tc (m, log) p = Inr (m', log @ ws) \<and> valid_msbuild settings_registry m'
    \<and> (preprocess_ok p \<longrightarrow> ws = [])"
proof -
  obtain n v where p: "p = (n, v)" by (cases p)
  have lk: "lookup2 (converters settings_registry) (t, x) = map_of tc x"
    "lookup2 (msvs_validators settings_registry) (t, x) = map_of tv x" for x
    using tv tc by (simp_all add: lookup2_def)
  show ?thesis
  proof (cases "map_of tc n")
    case None
    then have "map_of tv n = None" using settings_registry_keys [of "(t, n)"] lk by simp
    then obtain root where root: "excluded_root n = Some root" "map_of tv root \<noteq> None"
      using silent unfolding p silent_setting by auto
    then have "map_of tc root \<noteq> None" using settings_registry_keys [of "(t, root)"] lk by simp
    then show ?thesis using None m root(1) p by (auto simp: convert_setting_def ValidateExclusionSetting_def)
  next
    case (Some tr)
    obtain ty where ty: "map_of tv n = Some ty" "fits settings_registry ty tr" "base_ok (t, n) ty"
      "\<forall>t'. tr = PreprocessedFile t' \<longrightarrow> n = ''GeneratePreprocessedFile''"
      using settings_registry_fits [of "(t, n)" tr] Some lk by auto
    have v: "ValidateMSVS ty v = Inr ()" using silent ty(1) unfolding p silent_setting by simp
    have "good_base ty v" using ty(3) c p unfolding good_base_def base_ok_def convertible_def by auto
    then obtain m' e where e: "translate order tr v m = (m', e)" "valid_msbuild settings_registry m'"
      "e = None \<or> (\<exists>msg t. e = Some (ValueErr msg) \<and> tr = PreprocessedFile t \<and> preprocess_flags v = None)"
      using translate_valid [OF m ty(2) v, of order] c p unfolding convertible_def by auto
    then show ?thesis using Some p ty(4) by (auto simp: convert_setting_def preprocess_ok_def)
  qed
qed

lemma convert_settings_valid:
  assumes tv: "map_of (msvs_validators settings_registry) t = Some tv"
    and tc: "map_of (converters settings_registry) t = Some tc"
    and "\<forall>p\<in>set ps. setting_warnings ValidateMSVS t tv p = Inr [] \<and> convertible t p"
    and "valid_msbuild settings_registry m"
  shows "\<exists>m' ws. efold (convert_setting order t tc) (m, log) ps = Inr (m', log @ ws)
    \<and> valid_msbuild settings_registry m' \<and> ((\<forall>p\<in>set ps. preprocess_ok p) \<longrightarrow> ws = [])"
  using assms(3,4)
proof (induction ps arbitrary: m log)
  case (Cons p ps)
  then obtain m1 w1 where 1: "convert_setting order t tc (m, log) p = Inr (m1, log @ w1)"
    "valid_msbuild settings_registry m1" "preprocess_ok p \<longrightarrow> w1 = []"
    using convert_setting_valid [OF tv tc, of p m order log] by auto
  obtain m2 w2 where 2: "efold (convert_setting order t tc) (m1, log @ w1) ps = Inr (m2, (log @ w1) @ w2)"
    "valid_msbuild settings_registry m2" "(\<forall>p\<in>set ps. preprocess_ok p) \<longrightarrow> w2 = []"
    using Cons.IH [of m1 "log @ w1"] Cons.prems(1) 1(2) by auto
  show ?case using 1 2 by (intro exI [of _ m2] exI [of _ "w1 @ w2"]) simp
qed simp

lemma convert_tools_valid:
  assumes "\<forall>(t, d)\<in>set settings. \<exists>tv. map_of (msvs_validators settings_registry) t = Some tv
      \<and> (\<forall>p\<in>set d. setting_warnings ValidateMSVS t tv p = Inr [] \<and> convertible t p)"
    and "valid_msbuild settings_registry m"
  shows "\<exists>m' ws. efold (convert_tool order settings_registry) (m, log) settings = Inr (m', log @ ws)
    \<and> valid_msbuild settings_registry m' \<and> ((\<forall>(t, d)\<in>set settings. \<forall>p\<in>set d. preprocess_ok p) \<longrightarrow> ws = [])"
  using assms
proof (induction settings arbitrary: m log)
  case (Cons td settings)
  obtain t d where td: "td = (t, d)" by (cases td)
  obtain tv where tv: "map_of (msvs_validators settings_registry) t = Some tv"
    "\<forall>p\<in>set d. setting_warnings ValidateMSVS t tv p = Inr [] \<and> convertible t p" using Cons.prems(1) td by auto
  obtain tc where tc: "map_of (converters settings_registry) t = Some tc"
    using tv(1) settings_registry_same_tools [of t] by auto
  obtain m1 w1 where 1: "convert_tool order settings_registry (m, log) td = Inr (m1, log @ w1)"
    "valid_msbuild settings_registry m1" "(\<forall>p\<in>set d. preprocess_ok p) \<longrightarrow> w1 = []"
    using convert_settings_valid [OF tv(1) tc tv(2) Cons.prems(2), of order log] tc td by (auto simp: convert_tool_def)
  obtain m2 w2 where 2: "efold (convert_tool order settings_registry) (m1, log @ w1) settings = Inr (m2, (log @ w1) @ w2)"
    "valid_msbuild settings_registry m2" "(\<forall>(t, d)\<in>set settings. \<forall>p\<in>set d. preprocess_ok p) \<longrightarrow> w2 = []"
    using Cons.IH [OF _ 1(2), of "log @ w1"] Cons.prems(1) unfolding list.set ball_simps by blast
  show ?case using 1 2 td by (intro exI [of _ m2] exI [of _ "w1 @ w2"]) auto
qed simp

text \<open>
  C12: Settings that \<open>ValidateMSVSSettings\<close> accepts without a warning, whose lists hold strings and
  whose culture is not negative, convert without an exception for every order of the macro
  dictionary, and \<open>ValidateMSBuildSettings\<close> accepts the result without a warning. The conversion
  itself warns of nothing but a \<open>GeneratePreprocessedFile\<close> that is not one of '0', '1' and '2'.
\<close>

theorem ConvertToMSBuildSettings_valid:
  assumes "ValidateMSVSSettings settings_registry settings = Inr []"
    and "\<forall>(t, d)\<in>set settings. \<forall>p\<in>set d. convertible t p"
  shows "\<exists>msbuild_settings warnings.
    ConvertToMSBuildSettings order settings_registry settings = Inr (msbuild_settings, warnings)
    \<and> ValidateMSBuildSettings settings_registry msbuild_settings = Inr []
    \<and> ((\<forall>(t, d)\<in>set settings. \<forall>p\<in>set d. preprocess_ok p) \<longrightarrow> warnings = [])"
proof -
  have "\<forall>(t, d)\<in>set settings. \<exists>tv. map_of (msvs_validators settings_registry) t = Some tv
      \<and> (\<forall>p\<in>set d. setting_warnings ValidateMSVS t tv p = Inr [] \<and> convertible t p)"
    using assms unfolding ValidateMSVSSettings_def silent_iff by fastforce
  moreover have "valid_msbuild settings_registry []" by (simp add: valid_msbuild_def)
  ultimately show ?thesis
    using convert_tools_valid [of settings "[]" order "[]"] valid_msbuild_silent
    unfolding ConvertToMSBuildSettings_def by fastforce
qed

lemma warn_as_error_registered:
  "map_of (rev (concat (map msvs_writes declarations))) (''VCCLCompilerTool'', ''WarnAsError'')
    = Some (TBoolean, Translated ''ClCompile'' ''TreatWarningAsError'' TBoolean)"
proof (rule map_of_rev_functional)
  have "Renamed compile_tool ''WarnAsError'' ''TreatWarningAsError'' boolean \<in> set declarations"
    by (simp add: declarations_def compile_other_def)
  then show "((''VCCLCompilerTool'', ''WarnAsError''), TBoolean, Translated ''ClCompile'' ''TreatWarningAsError'' TBoolean)
      \<in> set (concat (map msvs_writes declarations))"
    by (force simp: compile_tool_def boolean_def)
next
  fix v
  assume "((''VCCLCompilerTool'', ''WarnAsError''), v) \<in> set (concat (map msvs_writes declarations))"
  then obtain d where d: "d \<in> set declarations" "((''VCCLCompilerTool'', ''WarnAsError''), v) \<in> set (msvs_writes d)" by auto
  have tools: "''VCCLCompilerTool'' \<noteq> msvs_name t" if "t \<in> {link_tool, rc_tool, midl_tool, lib_tool, manifest_tool}" for t
    using that by (auto simp: tool_defs)
  have "msvs_name (decl_tool d) = ''VCCLCompilerTool''" using msvs_writes_tool [OF d(2)] by simp
  then have "d \<in> set (compile_same @ compile_other)"
    using d(1) group_tool(3-8) unfolding declarations_def list_all_iff by (auto simp: tool_defs)
  then show "v = (TBoolean, Translated ''ClCompile'' ''TreatWarningAsError'' TBoolean)"
    using d(2) by (auto simp: compile_same_def compile_other_def compile_tool_def boolean_def)
qed

theorem ConvertToMSBuildSettings_valid_witness:
  "\<exists>m. ConvertToMSBuildSettings replace_map settings_registry [(''VCCLCompilerTool'', [(''WarnAsError'', PStr ''true'')])]
       = Inr (m, []) \<and> ValidateMSBuildSettings settings_registry m = Inr []"
proof -
  let ?s = "[(''VCCLCompilerTool'', [(''WarnAsError'', PStr ''true'')])]"
  have "lookup2 (msvs_validators settings_registry) (''VCCLCompilerTool'', ''WarnAsError'') = Some TBoolean"
    using warn_as_error_registered converter_registered(2) by blast
  then obtain tv where "map_of (msvs_validators settings_registry) ''VCCLCompilerTool'' = Some tv"
    "map_of tv ''WarnAsError'' = Some TBoolean" by (auto simp: lookup2_def bind_eq_Some_conv)
  then have "ValidateMSVSSettings settings_registry ?s = Inr []"
    unfolding ValidateMSVSSettings_def silent_iff by (simp add: silent_setting ValidateBoolean_def)
  moreover have "\<forall>(t, d)\<in>set ?s. \<forall>p\<in>set d. convertible t p" "\<forall>(t, d)\<in>set ?s. \<forall>p\<in>set d. preprocess_ok p"
    by (simp_all add: convertible_def strings_only_def tool_defs preprocess_ok_def)
  ultimately show ?thesis
    using ConvertToMSBuildSettings_valid [of ?s replace_map] by blast
qed

lemma ConvertEnumeration_label:
  "ConvertEnumeration label_list value = Inr label \<longleftrightarrow>
     (\<exists>i l. int_of_value value = Inr (int i) \<and> i < length label_list \<and> label_list ! i = Some l \<and> label = PStr l)"
  (is "?l \<longleftrightarrow> ?r")
proof
  assume ?l
  then obtain i l where "int_of_value value = Inr i" "0 \<le> i" "i < int (length label_list)"
    "label_list ! nat i = Some l" "label = PStr l"
    by (auto simp: ConvertEnumeration_def ebind_def split: sum.splits if_splits option.splits)
  then show ?r by (intro exI [of _ "nat i"] exI [of _ l]) auto
next
  assume ?r
  then obtain i l where i: "int_of_value value = Inr (int i)" "i < length label_list" "label_list ! i = Some l" "label = PStr l"
    by blast
  show ?l unfolding ConvertEnumeration_def i(1) ebind_simps using i(2-4) by simp
qed

text \<open>
  C40: An enumerated setting is valid for MSVS exactly when it is an integer within the bounds of
  the list of labels, at a position that is used; it converts to the label at that position, which
  is valid for MSBuild. Any other integer, negative ones included, is a \<open>ValueError\<close>: no label is
  taken from the end of the list.
\<close>

theorem ConvertEnumeration_bounds:
  "(ValidateMSVS (TEnumeration label_list new) value = Inr () \<longleftrightarrow>
      (\<exists>i<length label_list. int_of_value value = Inr (int i) \<and> label_list ! i \<noteq> None))
   \<and> (\<forall>label. ConvertToMSBuild order (TEnumeration label_list new) value = Inr label \<longrightarrow>
      ValidateMSBuild (TEnumeration label_list new) label = Inr ()
      \<and> (\<exists>i<length label_list. int_of_value value = Inr (int i) \<and> label = PStr (the (label_list ! i))))
   \<and> (\<forall>j. int_of_value value = Inr j \<longrightarrow> ValidateMSVS (TEnumeration label_list new) value \<noteq> Inr () \<longrightarrow>
      (\<exists>msg. ConvertToMSBuild order (TEnumeration label_list new) value = Inl (ValueErr msg)))"
proof -
  have v: "ValidateMSVS (TEnumeration label_list new) value = Inr () \<longleftrightarrow> (\<exists>label. ConvertEnumeration label_list value = Inr label)"
    by (cases "ConvertEnumeration label_list value") auto
  have m: "ValidateMSBuild (TEnumeration label_list new) label = Inr ()"
    if c: "ConvertToMSBuild order (TEnumeration label_list new) value = Inr label" for label
    by (rule ConvertToMSBuild_valid [OF _ _ c]) (use v c in \<open>auto simp: good_base_def\<close>)
  have e: "\<exists>msg. ConvertEnumeration label_list value = Inl (ValueErr msg)"
    if "int_of_value value = Inr j" "\<nexists>label. ConvertEnumeration label_list value = Inr label" for j
    using that by (auto simp: ConvertEnumeration_def split: if_splits option.splits)
  show ?thesis
    unfolding v using m e by (auto simp: ConvertEnumeration_label)
qed

theorem ConvertEnumeration_bounds_witness:
  "\<exists>msg. ConvertToMSBuild replace_map (TEnumeration [Some ''a'', None] []) (PStr ''1'') = Inl (ValueErr msg)"
proof -
  have i: "int_of_value (PStr ''1'') = Inr 1"
    by (simp add: int_of_value_def py_int_def strip_def lstrip_def rstrip_def py_space_def isdigit_def
        is_digit_def nat_of_digits_def digit_val_def)
  show ?thesis
    using ConvertEnumeration_bounds [of "[Some ''a'', None]" "[]" "PStr ''1''" replace_map] i
    by (auto simp: less_Suc_eq)
qed

end
