(* ===== verification/PyHeap.thy ===== *)
theory PyHeap
  imports PyVal
begin

text \<open>
  Shared objects. The expansion of variables in \<open>gyp/input.py\<close> changes lists and dictionaries that
  other places hold too, so its values are references into a heap of list and dictionary objects.
  A computation is a function from a state to its result and the next state, or an exception.
\<close>

section \<open>Objects\<close>

datatype hval =
    HNone
  | HBool bool
  | HInt int
  | HStr string
  | HRef nat

datatype obj = OList "hval list" | ODict "(string \<times> hval) list"

type_synonym pyheap = "obj list"

text \<open>
  What the expansion changes: the objects, the results of commands
  (\<open>cached_command_results\<close>), and the outside world, as the list of the commands run and of the
  files written.
\<close>

record estate =
  es_heap :: pyheap
  cached_command_results :: "((string \<times> string option) \<times> string) list"
  es_runs :: "(string \<times> string option) list"
  es_files :: "(string \<times> string) list"

type_synonym 'a hcomp = "estate \<Rightarrow> ('a \<times> estate) res"

section \<open>Computations\<close>

definition hret :: "'a \<Rightarrow> 'a hcomp" where
  "hret x s = Inr (x, s)"

definition hraise :: "pyerr \<Rightarrow> 'a hcomp" where
  "hraise e s = Inl e"

definition hbind :: "'a hcomp \<Rightarrow> ('a \<Rightarrow> 'b hcomp) \<Rightarrow> 'b hcomp" where
  "hbind m f s = ebind (m s) (\<lambda>p. f (fst p) (snd p))"

abbreviation hseq :: "'a hcomp \<Rightarrow> 'b hcomp \<Rightarrow> 'b hcomp" where
  "hseq m n \<equiv> hbind m (\<lambda>_. n)"

definition hlift :: "'a res \<Rightarrow> 'a hcomp" where
  "hlift r s = ebind r (\<lambda>x. Inr (x, s))"

definition hstate :: "(estate \<Rightarrow> 'a) \<Rightarrow> 'a hcomp" where
  "hstate f s = Inr (f s, s)"

definition hupdate :: "(estate \<Rightarrow> estate) \<Rightarrow> unit hcomp" where
  "hupdate f s = Inr ((), f s)"

fun hmap :: "('a \<Rightarrow> 'b hcomp) \<Rightarrow> 'a list \<Rightarrow> 'b list hcomp" where
  "hmap f [] = hret []"
| "hmap f (x # xs) = hbind (f x) (\<lambda>y. hbind (hmap f xs) (\<lambda>ys. hret (y # ys)))"

fun hiter :: "('a \<Rightarrow> unit hcomp) \<Rightarrow> 'a list \<Rightarrow> unit hcomp" where
  "hiter f [] = hret ()"
| "hiter f (x # xs) = hseq (f x) (hiter f xs)"

fun hfold :: "('b \<Rightarrow> 'a \<Rightarrow> 'b hcomp) \<Rightarrow> 'b \<Rightarrow> 'a list \<Rightarrow> 'b hcomp" where
  "hfold f b [] = hret b"
| "hfold f b (x # xs) = hbind (f b x) (\<lambda>c. hfold f c xs)"

lemma hbind_simps [simp]:
  "hbind (hret x) f = f x"
  "hbind (hraise e) f = hraise e"
  "hbind m hret = m"
  "hbind (hlift (Inr x)) f = f x"
  "hbind (hlift (Inl e)) f = hraise e"
proof -
  show "hbind m hret = m"
  proof
    show "hbind m hret s = m s" for s
      by (cases "m s") (simp_all add: hbind_def hret_def)
  qed
qed (simp_all add: fun_eq_iff hbind_def hret_def hraise_def hlift_def)

lemma hbind_assoc: "hbind (hbind m f) g = hbind m (\<lambda>x. hbind (f x) g)"
  by (simp add: fun_eq_iff hbind_def ebind_assoc)

lemma hlift_simps [simp]: "hlift (Inr x) = hret x" "hlift (Inl e) = hraise e"
  by (simp_all add: fun_eq_iff hlift_def hret_def hraise_def)

lemma hret_Inr [simp]: "hret x s = Inr (y, t) \<longleftrightarrow> y = x \<and> t = s"
  by (auto simp: hret_def)

lemma hraise_Inr [simp]: "hraise e s \<noteq> Inr r"
  by (simp add: hraise_def)

lemma hbind_Inr: "hbind m f s = Inr (y, t) \<longleftrightarrow> (\<exists>x u. m s = Inr (x, u) \<and> f x u = Inr (y, t))"
  by (auto simp: hbind_def)

lemma hbind_step: "m s = Inr (x, u) \<Longrightarrow> hbind m f s = f x u"
  by (simp add: hbind_def)

lemma hstate_bind: "hbind (hstate f) g s = g (f s) s"
  by (simp add: hbind_def hstate_def)

lemma hupdate_bind: "hbind (hupdate f) g s = g () (f s)"
  by (simp add: hbind_def hupdate_def)

lemma hbind_cong [fundef_cong]:
  assumes "m = m'" and "\<And>x s t. m' s = Inr (x, t) \<Longrightarrow> f x t = g x t"
  shows "hbind m f = hbind m' g"
proof
  show "hbind m f s = hbind m' g s" for s
    using assms by (cases "m' s") (auto simp: hbind_def)
qed

lemma hmap_cong [fundef_cong]:
  "\<lbrakk>xs = ys; \<And>x. x \<in> set ys \<Longrightarrow> f x = g x\<rbrakk> \<Longrightarrow> hmap f xs = hmap g ys"
  by (induction ys arbitrary: xs) auto

lemma hiter_cong [fundef_cong]:
  "\<lbrakk>xs = ys; \<And>x. x \<in> set ys \<Longrightarrow> f x = g x\<rbrakk> \<Longrightarrow> hiter f xs = hiter g ys"
  by (induction ys arbitrary: xs) auto

section \<open>Access to objects\<close>

definition heap_at :: "pyheap \<Rightarrow> hval \<Rightarrow> obj option" where
  "heap_at h v = (case v of HRef a \<Rightarrow> if a < length h then Some (h ! a) else None | _ \<Rightarrow> None)"

definition list_at :: "pyheap \<Rightarrow> hval \<Rightarrow> hval list option" where
  "list_at h v = (case heap_at h v of Some (OList xs) \<Rightarrow> Some xs | _ \<Rightarrow> None)"

definition dict_at :: "pyheap \<Rightarrow> hval \<Rightarrow> (string \<times> hval) list option" where
  "dict_at h v = (case heap_at h v of Some (ODict d) \<Rightarrow> Some d | _ \<Rightarrow> None)"

text \<open>Using a value as a list or as a dictionary raises when it is not one.\<close>

definition hlist :: "hval \<Rightarrow> hval list hcomp" where
  "hlist v s = (case list_at (es_heap s) v of None \<Rightarrow> Inl TypeErr | Some xs \<Rightarrow> Inr (xs, s))"

definition hdict :: "hval \<Rightarrow> (string \<times> hval) list hcomp" where
  "hdict v s = (case dict_at (es_heap s) v of None \<Rightarrow> Inl TypeErr | Some d \<Rightarrow> Inr (d, s))"

definition put_obj :: "hval \<Rightarrow> obj \<Rightarrow> estate \<Rightarrow> estate" where
  "put_obj v ob s = (case v of HRef a \<Rightarrow> s\<lparr>es_heap := (es_heap s)[a := ob]\<rparr> | _ \<Rightarrow> s)"

definition set_list :: "hval \<Rightarrow> hval list \<Rightarrow> unit hcomp" where
  "set_list v xs = hbind (hlist v) (\<lambda>_. hupdate (put_obj v (OList xs)))"

definition set_dict :: "hval \<Rightarrow> (string \<times> hval) list \<Rightarrow> unit hcomp" where
  "set_dict v d = hbind (hdict v) (\<lambda>_. hupdate (put_obj v (ODict d)))"

text \<open>A new object.\<close>

definition hnew :: "obj \<Rightarrow> hval hcomp" where
  "hnew ob s = Inr (HRef (length (es_heap s)), s\<lparr>es_heap := es_heap s @ [ob]\<rparr>)"

text \<open>\<open>d[k] = v\<close> on a dictionary object, and \<open>del d[k]\<close>.\<close>

definition dict_put :: "hval \<Rightarrow> string \<Rightarrow> hval \<Rightarrow> unit hcomp" where
  "dict_put d k v = hbind (hdict d) (\<lambda>m. set_dict d (AList.update k v m))"

definition dict_del :: "hval \<Rightarrow> string \<Rightarrow> unit hcomp" where
  "dict_del d k = hbind (hdict d) (\<lambda>m. set_dict d (AList.delete k m))"

text \<open>The class of a value, for \<open>type(v)\<close> and \<open>v.__class__.__name__\<close>.\<close>

definition hclass :: "pyheap \<Rightarrow> hval \<Rightarrow> string" where
  "hclass h v =
     (case v of
        HNone \<Rightarrow> ''NoneType''
      | HBool _ \<Rightarrow> ''bool''
      | HInt _ \<Rightarrow> ''int''
      | HStr _ \<Rightarrow> ''str''
      | HRef _ \<Rightarrow> (case heap_at h v of Some (ODict _) \<Rightarrow> ''dict'' | _ \<Rightarrow> ''list''))"

fun plain_hval :: "hval \<Rightarrow> bool" where
  "plain_hval (HInt _) = True"
| "plain_hval (HStr _) = True"
| "plain_hval _ = False"

section \<open>Trees\<close>

text \<open>
  The tree a value stands for, as deep as the fuel; \<open>None\<close> on a reference to no object or when the fuel
  does not suffice.
\<close>

fun tree :: "nat \<Rightarrow> pyheap \<Rightarrow> hval \<Rightarrow> pyval option" where
  "tree n h HNone = Some PNone"
| "tree n h (HBool b) = Some (PBool b)"
| "tree n h (HInt i) = Some (PInt i)"
| "tree n h (HStr s) = Some (PStr s)"
| "tree 0 h (HRef a) = None"
| "tree (Suc n) h (HRef a) =
     (case heap_at h (HRef a) of
        None \<Rightarrow> None
      | Some (OList xs) \<Rightarrow> map_option PList (those (map (tree n h) xs))
      | Some (ODict d) \<Rightarrow>
          map_option (\<lambda>vs. PDict (zip (map fst d) vs)) (those (map (\<lambda>p. tree n h (snd p)) d)))"

text \<open>
  A path through an acyclic heap visits an object at most once, so the number of objects is enough fuel.
  On a cyclic value the code recurses without end.
\<close>

definition htree :: "hval \<Rightarrow> pyval hcomp" where
  "htree v s = (case tree (length (es_heap s)) (es_heap s) v of None \<Rightarrow> Inl NoReturn | Some t \<Rightarrow> Inr (t, s))"

text \<open>\<open>str(v)\<close>.\<close>

definition hstr :: "hval \<Rightarrow> string hcomp" where
  "hstr v = hbind (htree v) (\<lambda>t. hret (py_str t))"

text \<open>New objects for every list and dictionary of a tree.\<close>

fun hbuild :: "pyval \<Rightarrow> hval hcomp" where
  "hbuild PNone = hret HNone"
| "hbuild (PBool b) = hret (HBool b)"
| "hbuild (PInt i) = hret (HInt i)"
| "hbuild (PStr s) = hret (HStr s)"
| "hbuild (PList xs) = hbind (hmap hbuild xs) (\<lambda>ys. hnew (OList ys))"
| "hbuild (PDict d) =
     hbind (hmap (\<lambda>p. hbind (hbuild (snd p)) (\<lambda>v. hret (fst p, v))) d) (\<lambda>e. hnew (ODict e))"


section \<open>Trees of objects\<close>

lemma those_Some: "those (map f xs) = Some ys \<longleftrightarrow> list_all2 (\<lambda>x y. f x = Some y) xs ys"
proof (induction xs arbitrary: ys)
  case (Cons x xs)
  then show ?case by (cases ys) (auto split: option.splits)
qed auto

lemma tree_list:
  "tree (Suc n) h v = Some (PList ts) \<longleftrightarrow>
     (\<exists>xs. list_at h v = Some xs \<and> list_all2 (\<lambda>x t. tree n h x = Some t) xs ts)"
  by (cases v) (auto simp: list_at_def heap_at_def those_Some split: option.splits obj.splits)

lemma zip_keys:
  "length vs = length d \<Longrightarrow> zip (map fst d) vs = td \<longleftrightarrow> map fst td = map fst d \<and> map snd td = vs"
  by (metis length_map map_fst_zip map_snd_zip zip_map_fst_snd)

lemma tree_dict:
  "tree (Suc n) h v = Some (PDict td) \<longleftrightarrow>
     (\<exists>d. dict_at h v = Some d \<and> list_all2 (\<lambda>p q. fst q = fst p \<and> tree n h (snd p) = Some (snd q)) d td)"
proof -
  have eq: "(\<exists>vs. list_all2 (\<lambda>p y. tree n h (snd p) = Some y) d vs \<and> zip (map fst d) vs = td)
      \<longleftrightarrow> list_all2 (\<lambda>p q. fst q = fst p \<and> tree n h (snd p) = Some (snd q)) d td" for d :: "(string \<times> hval) list"
  proof
    assume "\<exists>vs. list_all2 (\<lambda>p y. tree n h (snd p) = Some y) d vs \<and> zip (map fst d) vs = td"
    then obtain vs where vs: "list_all2 (\<lambda>p y. tree n h (snd p) = Some y) d vs" "zip (map fst d) vs = td" by blast
    then show "list_all2 (\<lambda>p q. fst q = fst p \<and> tree n h (snd p) = Some (snd q)) d td"
      by (auto simp: list_all2_conv_all_nth)
  next
    assume all: "list_all2 (\<lambda>p q. fst q = fst p \<and> tree n h (snd p) = Some (snd q)) d td"
    then have "map fst d = map fst td"
      by (auto simp: list_all2_conv_all_nth intro: nth_equalityI)
    then have "zip (map fst d) (map snd td) = td" by (simp add: zip_map_fst_snd)
    moreover have "list_all2 (\<lambda>p y. tree n h (snd p) = Some y) d (map snd td)"
      using all by (auto simp: list_all2_conv_all_nth)
    ultimately show "\<exists>vs. list_all2 (\<lambda>p y. tree n h (snd p) = Some y) d vs \<and> zip (map fst d) vs = td" by blast
  qed
  show ?thesis
    using eq by (cases v) (auto simp: dict_at_def heap_at_def those_Some split: option.splits obj.splits)
qed

lemma tree_zero: "tree 0 h v = Some t \<Longrightarrow> plain_hval v \<or> v = HNone \<or> (\<exists>b. v = HBool b)"
  by (cases v) auto

text \<open>A plain value is its own tree.\<close>

lemma tree_plain: "tree n h v = Some t \<Longrightarrow> \<not> (\<exists>ts. t = PList ts) \<Longrightarrow> \<not> (\<exists>d. t = PDict d) \<Longrightarrow> tree m h' v = Some t"
  by (cases v; cases n) (auto split: option.splits obj.splits)

lemma tree_PStr [simp]: "tree n h v = Some (PStr s) \<longleftrightarrow> v = HStr s"
  by (cases v; cases n) (auto split: option.splits obj.splits)

lemma tree_PInt [simp]: "tree n h v = Some (PInt i) \<longleftrightarrow> v = HInt i"
  by (cases v; cases n) (auto split: option.splits obj.splits)

lemma list_at_HRef: "list_at h v = Some xs \<Longrightarrow> \<exists>a. v = HRef a \<and> a < length h \<and> h ! a = OList xs"
  by (cases v) (auto simp: list_at_def heap_at_def split: if_splits obj.splits option.splits)

lemma dict_at_HRef: "dict_at h v = Some d \<Longrightarrow> \<exists>a. v = HRef a \<and> a < length h \<and> h ! a = ODict d"
  by (cases v) (auto simp: dict_at_def heap_at_def split: if_splits obj.splits option.splits)

lemma tree_dict_at: "tree n h v = Some (PDict td) \<Longrightarrow> \<exists>d. dict_at h v = Some d"
proof (cases n)
  case (Suc m)
  assume "tree n h v = Some (PDict td)"
  then show ?thesis unfolding Suc tree_dict by blast
qed (cases v; simp)

lemma list_at_append: "list_at h v = Some xs \<Longrightarrow> list_at (h @ h') v = Some xs"
  by (drule list_at_HRef) (auto simp: list_at_def heap_at_def nth_append)

lemma dict_at_append: "dict_at h v = Some d \<Longrightarrow> dict_at (h @ h') v = Some d"
  by (drule dict_at_HRef) (auto simp: dict_at_def heap_at_def nth_append)

lemma tree_append: "tree n h v = Some t \<Longrightarrow> tree n (h @ h') v = Some t"
proof (induction n arbitrary: v t)
  case 0
  then show ?case by (cases v) simp_all
next
  case (Suc n)
  show ?case
  proof (cases t)
    case (PList ts)
    then obtain xs where xs: "list_at h v = Some xs" "list_all2 (\<lambda>x t. tree n h x = Some t) xs ts"
      using Suc.prems unfolding PList tree_list by blast
    have "list_all2 (\<lambda>x t. tree n (h @ h') x = Some t) xs ts" by (rule list_all2_mono [OF xs(2)]) (rule Suc.IH)
    then show ?thesis unfolding PList tree_list using list_at_append [OF xs(1)] by blast
  next
    case (PDict td)
    then obtain d where d: "dict_at h v = Some d" "list_all2 (\<lambda>p q. fst q = fst p \<and> tree n h (snd p) = Some (snd q)) d td"
      using Suc.prems unfolding PDict tree_dict by blast
    have "list_all2 (\<lambda>p q. fst q = fst p \<and> tree n (h @ h') (snd p) = Some (snd q)) d td"
      by (rule list_all2_mono [OF d(2)]) (use Suc.IH in blast)
    then show ?thesis unfolding PDict tree_dict using dict_at_append [OF d(1)] by blast
  qed (rule tree_plain [OF Suc.prems]; simp)+
qed

end
