(* ===== verification/HeapMerge.thy ===== *)
theory HeapMerge
  imports PyHeap MergeLogic
begin

text \<open>
  \<open>MergeDicts\<close> of \<open>gyp/input.py\<close> on shared objects: the dictionary merged into, its nested dictionaries
  and its lists are changed in place; what is merged from is only read and is a tree.
\<close>

section \<open>Lists\<close>

definition hput_item :: "bool \<Rightarrow> bool \<Rightarrow> hval \<Rightarrow> hval list \<times> nat \<Rightarrow> hval list \<times> nat" where
  "hput_item appending singleton to_item st =
     (case st of (to, prepend_index) \<Rightarrow>
        if appending
        then (if \<not> singleton \<or> to_item \<notin> set to then to @ [to_item] else to, prepend_index)
        else
          let to' = (if singleton then removeAll to_item to else to)
          in (take prepend_index to' @ to_item # drop prepend_index to', prepend_index + 1))"

text \<open>A list or dictionary item is copied by merging it into an empty one.\<close>

definition hmerge_item :: "merge_ctx \<Rightarrow> bool \<Rightarrow> bool \<Rightarrow> hval list \<times> nat \<Rightarrow> pyval \<Rightarrow> (hval list \<times> nat) hcomp" where
  "hmerge_item c is_paths appending st item =
     hbind (hlift (merged_item c is_paths item)) (\<lambda>t.
     hbind (hbuild t) (\<lambda>to_item. hret (hput_item appending (single_item item) to_item st)))"

definition hmerge_lists :: "merge_ctx \<Rightarrow> hval \<Rightarrow> pyval list \<Rightarrow> bool \<Rightarrow> bool \<Rightarrow> unit hcomp" where
  "hmerge_lists c to fro is_paths appending =
     hbind (hlist to) (\<lambda>xs.
     hbind (hfold (hmerge_item c is_paths appending) (xs, 0) fro) (\<lambda>st. set_list to (fst st)))"

section \<open>Dictionaries\<close>

definition hbad_merge :: "pyheap \<Rightarrow> pyval \<Rightarrow> hval \<Rightarrow> bool" where
  "hbad_merge h v old = (if is_str_int v then \<not> plain_hval old else class_name v \<noteq> hclass h old)"

text \<open>The list object a list is merged into, made when there is none; \<open>None\<close> to skip the key.\<close>

definition hmerge_target ::
  "string \<Rightarrow> pydict \<Rightarrow> hval \<Rightarrow> (string \<times> hval) list \<Rightarrow> (string \<times> hval \<times> bool) option hcomp" where
  "hmerge_target k fro to m =
     (if k = [] then hraise IndexErr
      else case list_policy k of (list_base, lists_incompatible, appending, replace) \<Rightarrow>
        (case filter (\<lambda>i. has_key i fro) lists_incompatible of
           i # _ \<Rightarrow> hraise (GypErr (''Incompatible list policies '' @ k @ '' and '' @ i))
         | [] \<Rightarrow>
             (case (if replace then None else map_of m list_base) of
                None \<Rightarrow>
                  hbind (hnew (OList [])) (\<lambda>r. hseq (dict_put to list_base r)
                    (hret (Some (list_base, r, appending))))
              | Some old \<Rightarrow>
                  if last k = CHR ''?'' then hret None
                  else hbind (hlist old) (\<lambda>_. hret (Some (list_base, old, appending))))))"

definition hmerge_list_entry ::
  "merge_ctx \<Rightarrow> pydict \<Rightarrow> hval \<Rightarrow> (string \<times> hval) list \<Rightarrow> string \<Rightarrow> pyval list \<Rightarrow> unit hcomp" where
  "hmerge_list_entry c fro to m k xs =
     hbind (hmerge_target k fro to m) (\<lambda>t.
       case t of
         None \<Rightarrow> hret ()
       | Some (list_base, r, appending) \<Rightarrow>
           hbind (hlift (is_path_section c list_base)) (\<lambda>is_paths.
             hmerge_lists c r xs is_paths appending))"

definition hsub_dict :: "hval \<Rightarrow> (string \<times> hval) list \<Rightarrow> string \<Rightarrow> hval hcomp" where
  "hsub_dict to m k =
     (case map_of m k of
        Some old \<Rightarrow> hret old
      | None \<Rightarrow> hbind (hnew (ODict [])) (\<lambda>r. hseq (dict_put to k r) (hret r)))"

function hmerge_dicts :: "merge_ctx \<Rightarrow> hval \<Rightarrow> pydict \<Rightarrow> unit hcomp" where
  "hmerge_dicts c to fro =
     hiter (\<lambda>kv. case kv of (k, v) \<Rightarrow>
       hbind (hdict to) (\<lambda>m.
       hbind (hstate es_heap) (\<lambda>h.
         if (case map_of m k of Some old \<Rightarrow> hbad_merge h v old | None \<Rightarrow> False) then hraise TypeErr
         else case v of
           PStr _ \<Rightarrow> hbind (hlift (merged_plain c k v)) (\<lambda>t. hbind (hbuild t) (dict_put to k))
         | PInt _ \<Rightarrow> hbind (hlift (merged_plain c k v)) (\<lambda>t. hbind (hbuild t) (dict_put to k))
         | PDict d \<Rightarrow> hbind (hsub_dict to m k) (\<lambda>sub. hmerge_dicts c sub d)
         | PList xs \<Rightarrow> hmerge_list_entry c fro to m k xs
         | _ \<Rightarrow> hraise TypeErr))) fro"
  by pat_completeness auto

termination
  by (relation "measure (\<lambda>(_, _, fro). size_list (size_prod (\<lambda>_. 0) size) fro)") (auto dest!: size_dict_item)

declare hmerge_dicts.simps [simp del]


lemma hmerge_induct:
  assumes step: "\<And>to fro. (\<And>k d sub. (k, PDict d) \<in> set fro \<Longrightarrow> P sub d) \<Longrightarrow> P to fro"
  shows "P to (fro :: pydict)"
proof (induction "size_list (size_prod (\<lambda>_. 0) size) fro" arbitrary: to fro rule: less_induct)
  case less
  show ?case
  proof (rule step)
    fix k d sub
    assume "(k, PDict d) \<in> set fro"
    then show "P sub d" using less by (auto dest!: size_dict_item)
  qed
qed

end
