(* ===== verification/VariableMatch.thy ===== *)
theory VariableMatch
  imports VariableSyntax
begin

text \<open>
  The lexical part of the expansion in \<open>gyp/input.py\<close>: the regular expressions that find the start
  of a variable or command reference, Python slices with negative bounds, and the word splitting of
  \<open>shlex.split\<close>.
\<close>

section \<open>References\<close>

datatype phase = PHASE_EARLY | PHASE_LATE | PHASE_LATELATE

definition expansion_symbol :: "phase \<Rightarrow> char" where
  "expansion_symbol phase =
     (case phase of PHASE_EARLY \<Rightarrow> CHR ''<'' | PHASE_LATE \<Rightarrow> CHR ''>'' | PHASE_LATELATE \<Rightarrow> CHR ''^'')"

text \<open>
  What the code reads of a match: the groups \<open>type\<close> (after the symbol), \<open>command_string\<close> and
  \<open>is_array\<close>, and the start of the match.
\<close>

record var_match =
  vm_start :: nat
  vm_type :: string
  vm_command_string :: "string option"
  vm_is_array :: string

definition command_char :: "char \<Rightarrow> bool" where
  "command_char c \<longleftrightarrow>
     c = CHR ''-'' \<or> c = CHR ''_'' \<or> c = CHR ''.'' \<or> is_digit c
     \<or> ((of_char CHR ''a'' :: nat) \<le> of_char c \<and> (of_char c :: nat) \<le> of_char CHR ''z'')
     \<or> ((of_char CHR ''A'' :: nat) \<le> of_char c \<and> (of_char c :: nat) \<le> of_char CHR ''Z'')"

text \<open>\<open>(!?@?)|\|\<close>: the first alternative wins whenever it matches something.\<close>

definition match_type :: "string \<Rightarrow> string" where
  "match_type s =
     (case s of
        [] \<Rightarrow> []
      | c # cs \<Rightarrow>
          if c = CHR ''!'' then (case cs of d # _ \<Rightarrow> if d = CHR ''@'' then ''!@'' else ''!'' | [] \<Rightarrow> ''!'')
          else if c = CHR ''@'' then ''@''
          else if c = CHR ''|'' then ''|'' else [])"

text \<open>
  \<open>\s*\[?\<close>, and \<open>.*?\]?\)\<close>: the shortest content ends at the first closing parenthesis, and no newline
  may come before it. The result is the length of the matched text.
\<close>

definition match_array :: "string \<Rightarrow> string" where
  "match_array s =
     (let w = takeWhile py_space s in if take 1 (drop (length w) s) = ''['' then w @ ''['' else w)"

definition match_content :: "string \<Rightarrow> nat option" where
  "match_content s =
     (let c = takeWhile (\<lambda>x. x \<noteq> CHR '')'') s in
      if length c < length s \<and> CHR 0x0A \<notin> set c then Some (Suc (length c)) else None)"

text \<open>\<open>variable_re\<close> at the start of a text that follows position \<open>i\<close>; the length of the match.\<close>

definition match_here :: "char \<Rightarrow> nat \<Rightarrow> string \<Rightarrow> (var_match \<times> nat) option" where
  "match_here esym i s =
     (case s of
        [] \<Rightarrow> None
      | c # cs \<Rightarrow>
          if c \<noteq> esym then None
          else
            let ty = match_type cs;
                s1 = drop (length ty) cs;
                cmd = takeWhile command_char s1;
                s2 = drop (length cmd) s1
            in (case s2 of
                  [] \<Rightarrow> None
                | d # s3 \<Rightarrow>
                    if d \<noteq> CHR ''('' then None
                    else
                      let ar = match_array s3 in
                      (case match_content (drop (length ar) s3) of
                         None \<Rightarrow> None
                       | Some n \<Rightarrow>
                           Some (\<lparr>vm_start = i, vm_type = ty,
                                  vm_command_string = (if cmd = [] then None else Some cmd),
                                  vm_is_array = ar\<rparr>,
                                 2 + length ty + length cmd + length ar + n))))"

text \<open>\<open>variable_re.finditer\<close>: matches from left to right that do not overlap.\<close>

function finditer :: "char \<Rightarrow> nat \<Rightarrow> string \<Rightarrow> var_match list" where
  "finditer esym i [] = []"
| "finditer esym i (c # cs) =
     (case match_here esym i (c # cs) of
        None \<Rightarrow> finditer esym (Suc i) cs
      | Some (m, n) \<Rightarrow> m # finditer esym (i + n) (drop (n - 1) cs))"
  by pat_completeness auto

termination by (relation "measure (\<lambda>(_, _, s). length s)") auto

section \<open>Slices\<close>

text \<open>\<open>s[a:b]\<close>: a negative bound counts from the end, and bounds outside are moved to the ends.\<close>

definition slice_bound :: "nat \<Rightarrow> int \<Rightarrow> nat" where
  "slice_bound n a = (if a < 0 then nat (max 0 (int n + a)) else min n (nat a))"

definition py_slice :: "int \<Rightarrow> int \<Rightarrow> 'a list \<Rightarrow> 'a list" where
  "py_slice a b s =
     (let i = slice_bound (length s) a; j = slice_bound (length s) b in take (j - i) (drop i s))"

definition slice_to :: "int \<Rightarrow> 'a list \<Rightarrow> 'a list" where
  "slice_to b s = take (slice_bound (length s) b) s"

definition slice_from :: "int \<Rightarrow> 'a list \<Rightarrow> 'a list" where
  "slice_from a s = drop (slice_bound (length s) a) s"

section \<open>Word splitting\<close>

text \<open>
  The states of the tokenizer of \<open>shlex\<close> in POSIX mode, splitting at white space only: between words, in
  a word, inside quotes, and after an escape character (with the state to go back to).
\<close>

datatype sh_state = ShSpace | ShWord | ShQuote char | ShEscape "char option"

definition sh_white :: "char \<Rightarrow> bool" where
  "sh_white c \<longleftrightarrow> c \<in> {CHR '' '', CHR 0x09, CHR 0x0D, CHR 0x0A}"

definition sh_quote :: "char \<Rightarrow> bool" where
  "sh_quote c \<longleftrightarrow> c = CHR 0x27 \<or> c = CHR 0x22"

text \<open>\<open>qd\<close> tells whether the word had quotes, which makes an empty word a word.\<close>

fun shlex_loop :: "sh_state \<Rightarrow> bool \<Rightarrow> string \<Rightarrow> string \<Rightarrow> string list res" where
  "shlex_loop (ShQuote q) qd token [] = Inl (ValueErr ''No closing quotation'')"
| "shlex_loop (ShEscape st) qd token [] = Inl (ValueErr ''No escaped character'')"
| "shlex_loop st qd token [] = Inr (if token \<noteq> [] \<or> qd then [token] else [])"
| "shlex_loop ShSpace qd token (c # cs) =
     (if sh_white c then
        (if token \<noteq> [] \<or> qd
         then ebind (shlex_loop ShSpace False [] cs) (\<lambda>ts. Inr (token # ts))
         else shlex_loop ShSpace qd token cs)
      else if c = CHR 0x5C then shlex_loop (ShEscape None) qd token cs
      else if sh_quote c then shlex_loop (ShQuote c) qd token cs
      else shlex_loop ShWord qd [c] cs)"
| "shlex_loop ShWord qd token (c # cs) =
     (if sh_white c then
        (if token \<noteq> [] \<or> qd
         then ebind (shlex_loop ShSpace False [] cs) (\<lambda>ts. Inr (token # ts))
         else shlex_loop ShSpace qd token cs)
      else if sh_quote c then shlex_loop (ShQuote c) qd token cs
      else if c = CHR 0x5C then shlex_loop (ShEscape None) qd token cs
      else shlex_loop ShWord qd (token @ [c]) cs)"
| "shlex_loop (ShQuote q) qd token (c # cs) =
     (if c = q then shlex_loop ShWord True token cs
      else if c = CHR 0x5C \<and> q = CHR 0x22 then shlex_loop (ShEscape (Some q)) True token cs
      else shlex_loop (ShQuote q) True (token @ [c]) cs)"
| "shlex_loop (ShEscape st) qd token (c # cs) =
     (let token' = (case st of Some q \<Rightarrow> if c \<noteq> CHR 0x5C \<and> c \<noteq> q then token @ [CHR 0x5C] else token
                    | None \<Rightarrow> token)
      in shlex_loop (case st of Some q \<Rightarrow> ShQuote q | None \<Rightarrow> ShWord) qd (token' @ [c]) cs)"

definition shlex_split :: "string \<Rightarrow> string list res" where
  "shlex_split s = shlex_loop ShSpace False [] s"

end
