(* ===== verification/Expansion.thy ===== *)
theory Expansion
  imports HeapMerge VariableMatch ListFilters
begin

text \<open>
  The expansion of variables and commands and the evaluation of conditions in \<open>gyp/input.py\<close>. The
  functions call each other without a bound that can be seen, so each is written with the functions it
  calls as an argument (\<open>expand_ops\<close>), and \<open>expansion n\<close> ties the knot \<open>n\<close> calls deep; a call beyond that
  depth is \<open>NoReturn\<close>. A dictionary of variables is copied before it is changed, so it is passed by value.
\<close>

section \<open>Surroundings\<close>

type_synonym vars = "(string \<times> hval) list"

text \<open>
  What the functions take from outside: the platform, the working directory, the global path sections, the
  regular expressions of filters, the evaluation of Python expressions, the programs they run, and
  the two directories of \<open>generator_filelist_paths\<close>.
\<close>

record expand_ctx =
  ec_platform :: string
  ec_realpath :: "string \<Rightarrow> string"
  ec_path_sections :: "string list"
  ec_compile :: "string \<Rightarrow> (string \<Rightarrow> bool) res"
  ec_condition :: "string \<Rightarrow> pyheap \<Rightarrow> vars \<Rightarrow> bool res"
  ec_eval :: "string \<Rightarrow> pyval res"
  ec_popen :: "bool \<Rightarrow> pyval \<Rightarrow> string option \<Rightarrow> int \<times> string \<times> string"
  ec_pymod :: "string option \<Rightarrow> string \<Rightarrow> string list \<Rightarrow> string res"
  ec_filelist_paths :: "(string \<times> string) option"

text \<open>The functions a step may call.\<close>

record expand_ops =
  op_expand :: "phase \<Rightarrow> vars \<Rightarrow> string \<Rightarrow> hval \<Rightarrow> hval hcomp"
  op_dict :: "phase \<Rightarrow> vars \<Rightarrow> string \<Rightarrow> string option \<Rightarrow> hval \<Rightarrow> unit hcomp"
  op_list :: "phase \<Rightarrow> vars \<Rightarrow> string \<Rightarrow> nat \<Rightarrow> hval \<Rightarrow> unit hcomp"

section \<open>Lists in files\<close>

text \<open>\<open><|(name item ...)\<close>: the items are written to a file; the result is its path.\<close>

definition filelist_path :: "expand_ctx \<Rightarrow> string \<Rightarrow> string \<Rightarrow> string" where
  "filelist_path c build_file_dir replacement =
     (case ec_filelist_paths c of
        None \<Rightarrow> path_join build_file_dir replacement
      | Some (toplevel, qualified_out_dir) \<Rightarrow>
          path_joins [qualified_out_dir,
            (if isabs build_file_dir then RelativePath (ec_realpath c) build_file_dir toplevel else build_file_dir),
            replacement])"

definition write_filelist :: "expand_ctx \<Rightarrow> string \<Rightarrow> string \<Rightarrow> string hcomp" where
  "write_filelist c build_file contents =
     (let contents_list = split_on (CHR '' '') contents;
          replacement = hd contents_list;
          build_file_dir = dirname build_file
      in if isabs replacement
         then hraise (GypErr (''| cannot handle absolute paths, got '' @ [CHR 0x22] @ replacement @ [CHR 0x22]))
         else
           let path = filelist_path c build_file_dir replacement;
               written = concat (map (\<lambda>i. i @ [CHR 0x0A]) (tl contents_list))
           in hseq (hupdate (\<lambda>s. s\<lparr>es_files := es_files s @ [(path, written)]\<rparr>))
                (hret (RelativePath (ec_realpath c) path build_file_dir)))"

section \<open>Commands\<close>

definition in_quotes :: "string \<Rightarrow> string" where
  "in_quotes s = [CHR 0x27] @ s @ [CHR 0x27]"

text \<open>What a command gives when it is not in the cache.\<close>

definition command_result ::
  "expand_ctx \<Rightarrow> bool \<Rightarrow> string option \<Rightarrow> pyval \<Rightarrow> string option \<Rightarrow> string res" where
  "command_result c use_shell command_string contents build_file_dir =
     (case command_string of
        Some cs \<Rightarrow>
          if cs = ''pymod_do_main'' then
            ebind (as_str contents) (\<lambda>text.
            ebind (shlex_split text) (\<lambda>parsed_contents.
              case parsed_contents of
                [] \<Rightarrow> Inl IndexErr
              | m # args \<Rightarrow> ebind (ec_pymod c build_file_dir m args) (\<lambda>out. Inr (rstrip out))))
          else Inl (GypErr (''Unknown command string '' @ in_quotes cs @ '' in '' @ in_quotes (py_str contents) @ ''.''))
      | None \<Rightarrow>
          ebind (FixupPlatformCommand (ec_platform c) contents) (\<lambda>contents.
            case ec_popen c use_shell contents build_file_dir of (returncode, out, err) \<Rightarrow>
              if returncode \<noteq> 0 \<or> err \<noteq> []
              then Inl (GypErr (''Call to '' @ in_quotes (py_str contents) @ '' returned exit status ''
                                @ str_of_int returncode @ ''.''))
              else Inr (rstrip out)))"

text \<open>A command is run when its text and directory are not in \<open>cached_command_results\<close>.\<close>

definition run_command ::
  "expand_ctx \<Rightarrow> string \<Rightarrow> string option \<Rightarrow> string \<Rightarrow> string \<Rightarrow> string hcomp" where
  "run_command c is_array command_string build_file text =
     (let build_file_dir = (if dirname build_file = [] then None else Some (dirname build_file)) in
      hbind (hlift (if is_array \<noteq> [] then ec_eval c text else Inr (PStr text))) (\<lambda>contents.
      let cache_key = (py_str contents, build_file_dir) in
      hbind (hstate cached_command_results) (\<lambda>cache.
        case map_of cache cache_key of
          Some replacement \<Rightarrow> hret replacement
        | None \<Rightarrow>
            hbind (hlift (command_result c (is_array = []) command_string contents build_file_dir)) (\<lambda>replacement.
            hseq (hupdate (\<lambda>s. s\<lparr>cached_command_results := (cache_key, replacement) # cached_command_results s,
                                 es_runs := es_runs s @ [cache_key]\<rparr>))
              (hret replacement)))))"

section \<open>Variables\<close>

definition variable_value :: "vars \<Rightarrow> string \<Rightarrow> string \<Rightarrow> hval hcomp" where
  "variable_value variables build_file contents =
     (case map_of variables contents of
        Some v \<Rightarrow> hret v
      | None \<Rightarrow>
          if contents = [] then hraise IndexErr
          else if last contents \<in> {CHR ''!'', CHR ''/''} then hnew (OList [])
          else hraise (GypErr (''Undefined variable '' @ contents @ '' in '' @ build_file)))"

definition not_a_string :: "string \<Rightarrow> string \<Rightarrow> string \<Rightarrow> pyerr" where
  "not_a_string contents found cls =
     GypErr (''Variable '' @ contents @ '' must expand to a string or list of strings; '' @ found @ '' a '' @ cls)"

text \<open>The value of a variable is checked, and the items of a list are expanded in place.\<close>

definition process_value ::
  "expand_ops \<Rightarrow> phase \<Rightarrow> vars \<Rightarrow> string \<Rightarrow> string \<Rightarrow> hval \<Rightarrow> unit hcomp" where
  "process_value ops phase variables build_file contents replacement =
     hbind (hstate es_heap) (\<lambda>h.
       case list_at h replacement of
         Some items \<Rightarrow>
           if items \<noteq> [] \<and> contents = [] then hraise IndexErr
           else (case (if items \<noteq> [] \<and> last contents = CHR ''/'' then [] else filter (\<lambda>v. \<not> plain_hval v) items) of
                   v # _ \<Rightarrow> hraise (not_a_string contents ''list contains'' (hclass h v))
                 | [] \<Rightarrow> op_list ops phase variables build_file 0 replacement)
       | None \<Rightarrow>
           if plain_hval replacement then hret ()
           else hraise (not_a_string contents ''found'' (hclass h replacement)))"

text \<open>A value inside a string: the items of a list are quoted for a POSIX shell.\<close>

definition encode_value :: "hval \<Rightarrow> string hcomp" where
  "encode_value replacement =
     hbind (hstate es_heap) (\<lambda>h.
       case list_at h replacement of
         Some items \<Rightarrow> hbind (hmap hstr items) (\<lambda>args. hret (EncodePOSIXShellList args))
       | None \<Rightarrow> hstr replacement)"

text \<open>A value in a list context: a list is copied, a string is split into words.\<close>

definition list_value :: "hval \<Rightarrow> hval list hcomp" where
  "list_value replacement =
     hbind (hstate es_heap) (\<lambda>h.
       case list_at h replacement of
         Some items \<Rightarrow> hret items
       | None \<Rightarrow> hbind (hstr replacement) (\<lambda>s. hbind (hlift (shlex_split s)) (\<lambda>ws. hret (map HStr ws))))"

section \<open>One reference\<close>

datatype expansion = OutStr string | OutList "hval list"

definition processed_variables :: "expand_ctx \<Rightarrow> string \<Rightarrow> vars \<Rightarrow> vars hcomp" where
  "processed_variables c name variables =
     hbind (hmap (\<lambda>p. hbind (htree (snd p)) (\<lambda>t. hret (fst p, t))) variables) (\<lambda>d.
     hbind (hlift (ProcessListFiltersInDict (ec_compile c) name d)) (\<lambda>d'.
       hmap (\<lambda>p. hbind (hbuild (snd p)) (\<lambda>v. hret (fst p, v))) d'))"

text \<open>The contents of the parentheses, expanded and stripped.\<close>

definition reference_contents ::
  "expand_ctx \<Rightarrow> expand_ops \<Rightarrow> phase \<Rightarrow> vars \<Rightarrow> string \<Rightarrow> bool \<Rightarrow> string \<Rightarrow> string hcomp" where
  "reference_contents c ops phase variables build_file file_list contents =
     hbind (if file_list then processed_variables c contents variables else hret variables) (\<lambda>vars.
     hbind (op_expand ops phase vars build_file (HStr contents)) (\<lambda>v.
       case v of HStr s \<Rightarrow> hret (strip s) | _ \<Rightarrow> hraise TypeErr))"

definition reference_value ::
  "expand_ctx \<Rightarrow> vars \<Rightarrow> string \<Rightarrow> var_match \<Rightarrow> string \<Rightarrow> hval hcomp" where
  "reference_value c variables build_file m contents =
     (if CHR ''|'' \<in> set (vm_type m) then hbind (write_filelist c build_file contents) (\<lambda>s. hret (HStr s))
      else if CHR ''!'' \<in> set (vm_type m)
      then hbind (run_command c (vm_is_array m) (vm_command_string m) build_file contents) (\<lambda>s. hret (HStr s))
      else variable_value variables build_file contents)"

text \<open>
  The loop body of \<open>ExpandVariables\<close>. The brackets need not close (\<open>c_end\<close> is then -1), so the bounds are
  those of Python slices.
\<close>

definition expand_match ::
  "expand_ctx \<Rightarrow> expand_ops \<Rightarrow> phase \<Rightarrow> vars \<Rightarrow> string \<Rightarrow> expansion \<Rightarrow> var_match \<Rightarrow> expansion hcomp" where
  "expand_match c ops phase variables build_file out m =
     (case out of
        OutList _ \<Rightarrow> hraise TypeErr
      | OutStr input_str \<Rightarrow>
          let replace_start = int (vm_start m);
              (c_start, c_end) = FindEnclosingBracketGroup (drop (vm_start m) input_str);
              replace_end = replace_start + c_end;
              replacement = py_slice replace_start replace_end input_str;
              contents = py_slice (replace_start + c_start + 1) (replace_end - 1) input_str;
              file_list = (CHR ''|'' \<in> set (vm_type m));
              expand_to_list = (CHR ''@'' \<in> set (vm_type m) \<and> input_str = replacement)
          in hbind (reference_contents c ops phase variables build_file file_list contents) (\<lambda>contents.
             hbind (reference_value c variables build_file m contents) (\<lambda>v.
             hbind (process_value ops phase variables build_file contents v) (\<lambda>_.
             if expand_to_list then hbind (list_value v) (\<lambda>xs. hret (OutList xs))
             else hbind (encode_value v) (\<lambda>s.
               hret (OutStr (slice_to replace_start input_str @ s @ slice_from replace_end input_str)))))))"

section \<open>Strings\<close>

definition canonical :: "hval \<Rightarrow> hval" where
  "canonical v =
     (case v of
        HStr s \<Rightarrow> if IsStrCanonicalInt (PStr s) then (case py_int s of Inr i \<Rightarrow> HInt i | Inl _ \<Rightarrow> v) else v
      | _ \<Rightarrow> v)"

definition canonical_output :: "hval \<Rightarrow> hval hcomp" where
  "canonical_output output =
     hbind (hstate es_heap) (\<lambda>h.
       case list_at h output of
         Some items \<Rightarrow> hseq (set_list output (map canonical items)) (hret output)
       | None \<Rightarrow> hret (canonical output))"

text \<open>After the matches: a changed text is expanded again, a list item by item.\<close>

definition expand_again ::
  "expand_ops \<Rightarrow> phase \<Rightarrow> vars \<Rightarrow> string \<Rightarrow> hval \<Rightarrow> expansion \<Rightarrow> hval hcomp" where
  "expand_again ops phase variables build_file input out =
     (case out of
        OutStr s \<Rightarrow>
          if input = HStr s then hret (HStr s) else op_expand ops phase variables build_file (HStr s)
      | OutList xs \<Rightarrow>
          hbind (hstate es_heap) (\<lambda>h.
            if xs \<noteq> [] \<and> list_at h (hd xs) \<noteq> None then hnew (OList xs)
            else hbind (hmap (op_expand ops phase variables build_file) xs) (\<lambda>new_output. hnew (OList new_output))))"

definition ExpandVariables_body ::
  "expand_ctx \<Rightarrow> expand_ops \<Rightarrow> phase \<Rightarrow> vars \<Rightarrow> string \<Rightarrow> hval \<Rightarrow> hval hcomp" where
  "ExpandVariables_body c ops phase variables build_file input =
     hbind (hstr input) (\<lambda>input_str.
       if IsStrCanonicalInt (PStr input_str) then hret (canonical (HStr input_str))
       else if expansion_symbol phase \<notin> set input_str then hret (HStr input_str)
       else
         let matches = finditer (expansion_symbol phase) 0 input_str in
         if matches = [] then hret (HStr input_str)
         else hbind (hfold (expand_match c ops phase variables build_file) (OutStr input_str) (rev matches)) (\<lambda>out.
              hbind (expand_again ops phase variables build_file input out) canonical_output))"

section \<open>Conditions\<close>

text \<open>An unknown name in a condition is a \<open>GypError\<close>; other exceptions pass.\<close>

definition condition_error :: "string \<Rightarrow> string \<Rightarrow> pyerr \<Rightarrow> pyerr" where
  "condition_error cond_expr build_file err =
     (case err of
        NameErr n \<Rightarrow> GypErr (n @ '' while evaluating condition '' @ in_quotes cond_expr @ '' in '' @ build_file)
      | _ \<Rightarrow> err)"

definition EvalCondition ::
  "expand_ctx \<Rightarrow> expand_ops \<Rightarrow> string \<Rightarrow> phase \<Rightarrow> vars \<Rightarrow> string \<Rightarrow> hval \<Rightarrow> hval hcomp" where
  "EvalCondition c ops conditions_key phase variables build_file condition =
     hbind (hstate es_heap) (\<lambda>h.
       case list_at h condition of
         None \<Rightarrow> hraise (GypErr (conditions_key @ '' must be a list''))
       | Some items \<Rightarrow>
           if length items \<noteq> 2 \<and> length items \<noteq> 3 then
             (case items of
                [] \<Rightarrow> hraise IndexErr
              | HStr s # _ \<Rightarrow>
                  hraise (GypErr (conditions_key @ '' '' @ s @ '' must be length 2 or 3, not ''
                                  @ str_of_int (int (length items))))
              | _ \<Rightarrow> hraise TypeErr)
           else
             hbind (op_expand ops phase variables build_file (items ! 0)) (\<lambda>cond_expr.
               case cond_expr of
                 HStr e \<Rightarrow>
                   hbind (hstate es_heap) (\<lambda>h'.
                     case ec_condition c e h' variables of
                       Inr holds \<Rightarrow>
                         hret (if holds then items ! 1 else if length items = 3 then items ! 2 else HNone)
                     | Inl err \<Rightarrow> hraise (condition_error e build_file err))
               | HInt _ \<Rightarrow> hraise TypeErr
               | _ \<Rightarrow> hraise (ValueErr (''Variable expansion in this context permits str and int only, found ''
                                       @ hclass h cond_expr))))"

text \<open>The values a \<open>for\<close> loop visits.\<close>

definition hitems :: "hval \<Rightarrow> hval list hcomp" where
  "hitems v =
     hbind (hstate es_heap) (\<lambda>h.
       case v of
         HStr s \<Rightarrow> hret (map (\<lambda>c. HStr [c]) s)
       | HRef _ \<Rightarrow>
           (case heap_at h v of
              Some (OList xs) \<Rightarrow> hret xs
            | Some (ODict d) \<Rightarrow> hret (map (\<lambda>p. HStr (fst p)) d)
            | None \<Rightarrow> hraise TypeErr)
       | _ \<Rightarrow> hraise TypeErr)"

definition conditions_key :: "phase \<Rightarrow> string option" where
  "conditions_key phase =
     (case phase of PHASE_EARLY \<Rightarrow> Some ''conditions'' | PHASE_LATE \<Rightarrow> Some ''target_conditions'' | PHASE_LATELATE \<Rightarrow> None)"

text \<open>One condition: the chosen dictionary is processed and then merged.\<close>

definition apply_condition ::
  "expand_ctx \<Rightarrow> expand_ops \<Rightarrow> string \<Rightarrow> phase \<Rightarrow> vars \<Rightarrow> string \<Rightarrow> hval \<Rightarrow> hval \<Rightarrow> unit hcomp" where
  "apply_condition c ops key phase variables build_file the_dict condition =
     hbind (EvalCondition c ops key phase variables build_file condition) (\<lambda>merge_dict.
       if merge_dict = HNone then hret ()
       else hbind (op_dict ops phase variables build_file None merge_dict) (\<lambda>_.
            hbind (htree merge_dict) (\<lambda>t.
            hbind (hlift (as_dict t)) (\<lambda>fro.
              hmerge_dicts \<lparr>mc_realpath = ec_realpath c, mc_path_sections = ec_path_sections c,
                mc_to_file = Some build_file, mc_fro_file = Some build_file\<rparr> the_dict fro))))"

definition ProcessConditionsInDict ::
  "expand_ctx \<Rightarrow> expand_ops \<Rightarrow> phase \<Rightarrow> vars \<Rightarrow> string \<Rightarrow> hval \<Rightarrow> unit hcomp" where
  "ProcessConditionsInDict c ops phase variables build_file the_dict =
     (case conditions_key phase of
        None \<Rightarrow> hret ()
      | Some key \<Rightarrow>
          hbind (hdict the_dict) (\<lambda>m.
            case map_of m key of
              None \<Rightarrow> hret ()
            | Some conditions_list \<Rightarrow>
                hbind (dict_del the_dict key) (\<lambda>_.
                hbind (hitems conditions_list) (\<lambda>conditions.
                  hiter (apply_condition c ops key phase variables build_file the_dict) conditions))))"

section \<open>Scopes\<close>

definition loadable :: "pyheap \<Rightarrow> hval \<Rightarrow> bool" where
  "loadable h v \<longleftrightarrow> plain_hval v \<or> list_at h v \<noteq> None"

definition LoadAutomaticVariablesFromDict :: "pyheap \<Rightarrow> (string \<times> hval) list \<Rightarrow> vars \<Rightarrow> vars" where
  "LoadAutomaticVariablesFromDict h the_dict variables =
     foldl (\<lambda>vs p. if loadable h (snd p) then AList.update (CHR ''_'' # fst p) (snd p) vs else vs) variables the_dict"

definition load_variable ::
  "pyheap \<Rightarrow> (string \<times> hval) list \<Rightarrow> string option \<Rightarrow> vars \<Rightarrow> string \<times> hval \<Rightarrow> vars" where
  "load_variable h the_dict the_dict_key variables p =
     (case p of (key, v) \<Rightarrow>
        if \<not> loadable h v then variables
        else if key \<noteq> [] \<and> last key = CHR ''%'' then
          let variable_name = butlast key in
          if map_of variables variable_name \<noteq> None then variables
          else (case (if the_dict_key = Some ''variables'' then map_of the_dict variable_name else None) of
                  Some w \<Rightarrow> AList.update variable_name w variables
                | None \<Rightarrow> AList.update variable_name v variables)
        else AList.update key v variables)"

definition LoadVariablesFromVariablesDict ::
  "(string \<times> hval) list \<Rightarrow> string option \<Rightarrow> vars \<Rightarrow> vars hcomp" where
  "LoadVariablesFromVariablesDict the_dict the_dict_key variables =
     (case map_of the_dict ''variables'' of
        None \<Rightarrow> hret variables
      | Some v \<Rightarrow>
          hbind (hdict v) (\<lambda>d.
          hbind (hstate es_heap) (\<lambda>h.
            hret (foldl (load_variable h the_dict the_dict_key) variables d))))"

text \<open>The variables of a dictionary: those passed in, its automatic ones, and its \<open>variables\<close>.\<close>

definition load_scope :: "vars \<Rightarrow> string option \<Rightarrow> hval \<Rightarrow> vars hcomp" where
  "load_scope variables_in the_dict_key the_dict =
     hbind (hdict the_dict) (\<lambda>m.
     hbind (hstate es_heap) (\<lambda>h.
       LoadVariablesFromVariablesDict m the_dict_key (LoadAutomaticVariablesFromDict h m variables_in)))"

section \<open>Dictionaries and lists\<close>

definition expand_variables_dict ::
  "expand_ops \<Rightarrow> phase \<Rightarrow> vars \<Rightarrow> string \<Rightarrow> hval \<Rightarrow> unit hcomp" where
  "expand_variables_dict ops phase variables_in build_file the_dict =
     hbind (hdict the_dict) (\<lambda>m.
     hbind (hstate es_heap) (\<lambda>h.
       case map_of m ''variables'' of
         None \<Rightarrow> hret ()
       | Some v \<Rightarrow>
           hbind (hdict v) (\<lambda>d.
             let variables = LoadAutomaticVariablesFromDict h m variables_in;
                 variables = foldl (\<lambda>vs p. AList.update (fst p) (snd p) vs) variables d
             in op_dict ops phase variables build_file (Some ''variables'') v)))"

definition expand_string_entry ::
  "expand_ops \<Rightarrow> phase \<Rightarrow> vars \<Rightarrow> string \<Rightarrow> hval \<Rightarrow> string \<Rightarrow> unit hcomp" where
  "expand_string_entry ops phase variables build_file the_dict key =
     hbind (hdict the_dict) (\<lambda>m.
       case map_of m key of
         Some (HStr s) \<Rightarrow>
           if key = ''variables'' then hret ()
           else hbind (op_expand ops phase variables build_file (HStr s)) (\<lambda>expanded.
                if plain_hval expanded then dict_put the_dict key expanded
                else hraise (ValueErr (''Variable expansion in this context permits str and int only, found list for '' @ key)))
       | _ \<Rightarrow> hret ())"

definition process_entry ::
  "expand_ops \<Rightarrow> phase \<Rightarrow> vars \<Rightarrow> string \<Rightarrow> hval \<Rightarrow> string \<Rightarrow> unit hcomp" where
  "process_entry ops phase variables build_file the_dict key =
     hbind (hdict the_dict) (\<lambda>m.
     hbind (hstate es_heap) (\<lambda>h.
       if key = ''variables'' then hret ()
       else case map_of m key of
         None \<Rightarrow> hret ()
       | Some v \<Rightarrow>
           (case v of
              HStr _ \<Rightarrow> hret ()
            | HInt _ \<Rightarrow> hret ()
            | HRef _ \<Rightarrow>
                (case heap_at h v of
                   Some (ODict _) \<Rightarrow> op_dict ops phase variables build_file (Some key) v
                 | Some (OList _) \<Rightarrow> op_list ops phase variables build_file 0 v
                 | None \<Rightarrow> hraise TypeErr)
            | _ \<Rightarrow> hraise TypeErr)))"

definition ProcessVariablesAndConditionsInDict_body ::
  "expand_ctx \<Rightarrow> expand_ops \<Rightarrow> phase \<Rightarrow> vars \<Rightarrow> string \<Rightarrow> string option \<Rightarrow> hval \<Rightarrow> unit hcomp" where
  "ProcessVariablesAndConditionsInDict_body c ops phase variables_in build_file the_dict_key the_dict =
     hbind (expand_variables_dict ops phase variables_in build_file the_dict) (\<lambda>_.
     hbind (load_scope variables_in the_dict_key the_dict) (\<lambda>variables.
     hbind (hdict the_dict) (\<lambda>m.
     hbind (hiter (expand_string_entry ops phase variables build_file the_dict) (map fst m)) (\<lambda>_.
     hbind (load_scope variables_in the_dict_key the_dict) (\<lambda>variables.
     hbind (ProcessConditionsInDict c ops phase variables build_file the_dict) (\<lambda>_.
     hbind (load_scope variables_in the_dict_key the_dict) (\<lambda>variables.
     hbind (hdict the_dict) (\<lambda>m.
       hiter (process_entry ops phase variables build_file the_dict) (map fst m)))))))))"

definition ProcessVariablesAndConditionsInList_body ::
  "expand_ops \<Rightarrow> phase \<Rightarrow> vars \<Rightarrow> string \<Rightarrow> nat \<Rightarrow> hval \<Rightarrow> unit hcomp" where
  "ProcessVariablesAndConditionsInList_body ops phase variables build_file index the_list =
     hbind (hlist the_list) (\<lambda>xs.
     hbind (hstate es_heap) (\<lambda>h.
       if length xs \<le> index then hret ()
       else case xs ! index of
         HRef a \<Rightarrow>
           (case heap_at h (HRef a) of
              Some (ODict _) \<Rightarrow>
                hseq (op_dict ops phase variables build_file None (HRef a))
                  (op_list ops phase variables build_file (index + 1) the_list)
            | Some (OList _) \<Rightarrow>
                hseq (op_list ops phase variables build_file 0 (HRef a))
                  (op_list ops phase variables build_file (index + 1) the_list)
            | None \<Rightarrow> hraise TypeErr)
       | HStr s \<Rightarrow>
           hbind (op_expand ops phase variables build_file (HStr s)) (\<lambda>expanded.
           hbind (hlist the_list) (\<lambda>ys.
           hbind (hstate es_heap) (\<lambda>h'.
             case list_at h' expanded of
               Some es \<Rightarrow>
                 hseq (set_list the_list (take index ys @ es @ drop (index + 1) ys))
                   (op_list ops phase variables build_file (index + length es) the_list)
             | None \<Rightarrow>
                 if \<not> plain_hval expanded then hraise TypeErr
                 else if length ys \<le> index then hraise IndexErr
                 else hseq (set_list the_list (ys[index := expanded]))
                        (op_list ops phase variables build_file (index + 1) the_list))))
       | HInt _ \<Rightarrow> op_list ops phase variables build_file (index + 1) the_list
       | _ \<Rightarrow> hraise TypeErr))"

section \<open>The recursion\<close>

fun expansion_ops :: "expand_ctx \<Rightarrow> nat \<Rightarrow> expand_ops" where
  "expansion_ops c 0 =
     \<lparr>op_expand = \<lambda>_ _ _ _. hraise NoReturn, op_dict = \<lambda>_ _ _ _ _. hraise NoReturn,
      op_list = \<lambda>_ _ _ _ _. hraise NoReturn\<rparr>"
| "expansion_ops c (Suc n) =
     (let ops = expansion_ops c n in
      \<lparr>op_expand = ExpandVariables_body c ops,
       op_dict = ProcessVariablesAndConditionsInDict_body c ops,
       op_list = ProcessVariablesAndConditionsInList_body ops\<rparr>)"

definition ExpandVariables :: "expand_ctx \<Rightarrow> nat \<Rightarrow> hval \<Rightarrow> phase \<Rightarrow> vars \<Rightarrow> string \<Rightarrow> hval hcomp" where
  "ExpandVariables c n input phase variables build_file = op_expand (expansion_ops c n) phase variables build_file input"

definition ProcessVariablesAndConditionsInDict ::
  "expand_ctx \<Rightarrow> nat \<Rightarrow> hval \<Rightarrow> phase \<Rightarrow> vars \<Rightarrow> string \<Rightarrow> string option \<Rightarrow> unit hcomp" where
  "ProcessVariablesAndConditionsInDict c n the_dict phase variables_in build_file the_dict_key =
     op_dict (expansion_ops c n) phase variables_in build_file the_dict_key the_dict"

definition ProcessVariablesAndConditionsInList ::
  "expand_ctx \<Rightarrow> nat \<Rightarrow> hval \<Rightarrow> phase \<Rightarrow> vars \<Rightarrow> string \<Rightarrow> unit hcomp" where
  "ProcessVariablesAndConditionsInList c n the_list phase variables build_file =
     op_list (expansion_ops c n) phase variables build_file 0 the_list"

end
