(* ===== verification/ExpansionEffects.thy ===== *)
theory ExpansionEffects
  imports Expansion
begin

text \<open>
  What every run of the expansion does to the state, whatever it expands: a law is stated for the few
  primitive changes of the state and carried through all functions by the locale \<open>effect\<close>. Also, more
  depth of recursion never changes a result.
\<close>

section \<open>Depth\<close>

text \<open>\<open>hle m m'\<close>: where \<open>m\<close> does not run out of depth, \<open>m'\<close> does the same.\<close>

definition hle :: "'a hcomp \<Rightarrow> 'a hcomp \<Rightarrow> bool" where
  "hle m m' \<longleftrightarrow> (\<forall>s. m s = Inl NoReturn \<or> m' s = m s)"

lemma hle_refl: "hle m m"
  by (simp add: hle_def)

lemma hle_trans: "hle m m' \<Longrightarrow> hle m' m'' \<Longrightarrow> hle m m''"
  unfolding hle_def by metis

lemma hle_bind: "hle m m' \<Longrightarrow> (\<And>x. hle (f x) (f' x)) \<Longrightarrow> hle (hbind m f) (hbind m' f')"
  unfolding hle_def
proof
  fix s
  assume m: "\<forall>s. m s = Inl NoReturn \<or> m' s = m s" and f: "\<And>x. \<forall>s. f x s = Inl NoReturn \<or> f' x s = f x s"
  show "hbind m f s = Inl NoReturn \<or> hbind m' f' s = hbind m f s"
  proof (cases "m s")
    case (Inl e)
    then show ?thesis using spec [OF m, of s] by (auto simp: hbind_def)
  next
    case (Inr r)
    then show ?thesis using spec [OF m, of s] spec [OF f [of "fst r"], of "snd r"] by (auto simp: hbind_def)
  qed
qed

lemma hle_map: "(\<And>x. hle (f x) (f' x)) \<Longrightarrow> hle (hmap f xs) (hmap f' xs)"
  by (induction xs) (auto intro!: hle_bind hle_refl)

lemma hle_iter: "(\<And>x. hle (f x) (f' x)) \<Longrightarrow> hle (hiter f xs) (hiter f' xs)"
  by (induction xs) (auto intro!: hle_bind hle_refl)

lemma hle_fold: "(\<And>b x. hle (f b x) (f' b x)) \<Longrightarrow> hle (hfold f b xs) (hfold f' b xs)"
  by (induction xs arbitrary: b) (auto intro!: hle_bind hle_refl)

lemma hle_if: "(b \<Longrightarrow> hle m m') \<Longrightarrow> (\<not> b \<Longrightarrow> hle n n') \<Longrightarrow> hle (if b then m else n) (if b then m' else n')"
  by simp

lemma hle_option:
  "hle n n' \<Longrightarrow> (\<And>x. hle (f x) (f' x)) \<Longrightarrow> hle (case_option n f v) (case_option n' f' v)"
  by (cases v) simp_all

lemma hle_list:
  "hle n n' \<Longrightarrow> (\<And>x y. hle (f x y) (f' x y)) \<Longrightarrow> hle (case_list n f v) (case_list n' f' v)"
  by (cases v) simp_all

lemma hle_prod: "(\<And>x y. hle (f x y) (f' x y)) \<Longrightarrow> hle (case_prod f v) (case_prod f' v)"
  by (cases v) simp_all

lemma hle_obj:
  "(\<And>x. hle (f x) (f' x)) \<Longrightarrow> (\<And>x. hle (g x) (g' x)) \<Longrightarrow> hle (case_obj f g v) (case_obj f' g' v)"
  by (cases v) simp_all

lemma hle_hval:
  "\<lbrakk>hle n n'; \<And>x. hle (f x) (f' x); \<And>x. hle (g x) (g' x); \<And>x. hle (k x) (k' x); \<And>x. hle (r x) (r' x)\<rbrakk>
   \<Longrightarrow> hle (case_hval n f g k r v) (case_hval n' f' g' k' r' v)"
  by (cases v) simp_all

lemma hle_expansion:
  "(\<And>x. hle (f x) (f' x)) \<Longrightarrow> (\<And>x. hle (g x) (g' x)) \<Longrightarrow> hle (case_expansion f g v) (case_expansion f' g' v)"
  by (cases v) simp_all

lemmas hle_intros = hle_bind hle_map hle_iter hle_fold hle_if hle_option hle_list hle_prod hle_obj hle_hval hle_expansion

definition ops_le :: "expand_ops \<Rightarrow> expand_ops \<Rightarrow> bool" where
  "ops_le o1 o2 \<longleftrightarrow>
     (\<forall>p v b i. hle (op_expand o1 p v b i) (op_expand o2 p v b i))
     \<and> (\<forall>p v b k d. hle (op_dict o1 p v b k d) (op_dict o2 p v b k d))
     \<and> (\<forall>p v b i l. hle (op_list o1 p v b i l) (op_list o2 p v b i l))"

lemma ops_leD:
  assumes "ops_le o1 o2"
  shows "hle (op_expand o1 p v b i) (op_expand o2 p v b i)"
    and "hle (op_dict o1 p v b k d) (op_dict o2 p v b k d)"
    and "hle (op_list o1 p v b j l) (op_list o2 p v b j l)"
  using assms unfolding ops_le_def by blast+

lemma expand_match_le: "ops_le o1 o2 \<Longrightarrow> hle (expand_match c o1 p v b out m) (expand_match c o2 p v b out m)"
  unfolding expand_match_def reference_contents_def process_value_def Let_def
  by (intro hle_intros ops_leD hle_refl) assumption+

lemma ExpandVariables_body_le: "ops_le o1 o2 \<Longrightarrow> hle (ExpandVariables_body c o1 p v b i) (ExpandVariables_body c o2 p v b i)"
  unfolding ExpandVariables_body_def expand_again_def Let_def
  by (intro hle_intros expand_match_le ops_leD hle_refl) assumption+

lemma ProcessConditionsInDict_le:
  "ops_le o1 o2 \<Longrightarrow> hle (ProcessConditionsInDict c o1 p v b d) (ProcessConditionsInDict c o2 p v b d)"
  unfolding ProcessConditionsInDict_def apply_condition_def EvalCondition_def
  by (intro hle_intros ops_leD hle_refl) assumption+

lemma Dict_body_le:
  "ops_le o1 o2 \<Longrightarrow> hle (ProcessVariablesAndConditionsInDict_body c o1 p v b k d)
    (ProcessVariablesAndConditionsInDict_body c o2 p v b k d)"
  unfolding ProcessVariablesAndConditionsInDict_body_def expand_variables_dict_def expand_string_entry_def
    process_entry_def Let_def
  by (intro hle_intros ProcessConditionsInDict_le ops_leD hle_refl) assumption+

lemma List_body_le:
  "ops_le o1 o2 \<Longrightarrow> hle (ProcessVariablesAndConditionsInList_body o1 p v b i l)
    (ProcessVariablesAndConditionsInList_body o2 p v b i l)"
  unfolding ProcessVariablesAndConditionsInList_body_def
  by (intro hle_intros ops_leD hle_refl) assumption+

lemma expansion_ops_Suc: "ops_le (expansion_ops c n) (expansion_ops c (Suc n))"
proof (induction n)
  case 0
  then show ?case by (simp add: ops_le_def hle_def hraise_def)
next
  case (Suc n)
  let ?o1 = "expansion_ops c n" and ?o2 = "expansion_ops c (Suc n)"
  have "expansion_ops c (Suc n) =
      \<lparr>op_expand = ExpandVariables_body c ?o1, op_dict = ProcessVariablesAndConditionsInDict_body c ?o1,
       op_list = ProcessVariablesAndConditionsInList_body ?o1\<rparr>"
    and "expansion_ops c (Suc (Suc n)) =
      \<lparr>op_expand = ExpandVariables_body c ?o2, op_dict = ProcessVariablesAndConditionsInDict_body c ?o2,
       op_list = ProcessVariablesAndConditionsInList_body ?o2\<rparr>"
    by (simp_all add: Let_def)
  then show ?case
    unfolding ops_le_def [of "expansion_ops c (Suc n)"]
    using ExpandVariables_body_le [OF Suc] Dict_body_le [OF Suc] List_body_le [OF Suc] by simp
qed

lemma expansion_ops_le: "n \<le> m \<Longrightarrow> ops_le (expansion_ops c n) (expansion_ops c m)"
proof (induction m rule: dec_induct)
  case base
  show ?case by (simp add: ops_le_def hle_refl)
next
  case (step m)
  then show ?case using expansion_ops_Suc [of c m] unfolding ops_le_def by (meson hle_trans)
qed



text \<open>A small state for examples: every condition holds, and every command prints the same.\<close>

definition example_ctx :: expand_ctx where
  "example_ctx =
     \<lparr>ec_platform = ''linux'', ec_realpath = (\<lambda>p. p), ec_path_sections = [],
      ec_compile = (\<lambda>r. Inr (\<lambda>s. r = s)), ec_condition = (\<lambda>e h vs. Inr True), ec_eval = (\<lambda>s. Inl TypeErr),
      ec_popen = (\<lambda>sh v d. (0, ''out'', [])), ec_pymod = (\<lambda>d m a. Inr m), ec_filelist_paths = None\<rparr>"

definition example_state :: "pyheap \<Rightarrow> estate" where
  "example_state h = \<lparr>es_heap = h, cached_command_results = [], es_runs = [], es_files = []\<rparr>"

definition example_dict :: pyheap where
  "example_dict = [ODict [(''x'', HStr ''<!(ls)''), (''y'', HStr ''<!(ls)'')]]"

definition example_end :: estate where
  "example_end =
     \<lparr>es_heap = [ODict [(''x'', HStr ''out''), (''y'', HStr ''out'')]],
      cached_command_results = [((''ls'', None), ''out'')], es_runs = [(''ls'', None)], es_files = []\<rparr>"

lemma example_run:
  "ProcessVariablesAndConditionsInDict example_ctx 3 (HRef 0) PHASE_EARLY [] ''f'' None (example_state example_dict)
   = Inr ((), example_end)"
  unfolding example_ctx_def example_state_def example_dict_def example_end_def by code_simp


section \<open>Laws of the state\<close>

text \<open>\<open>moves R m\<close>: when \<open>m\<close> succeeds, the state before and the state after are related.\<close>

definition moves :: "(estate \<Rightarrow> estate \<Rightarrow> bool) \<Rightarrow> 'a hcomp \<Rightarrow> bool" where
  "moves R m \<longleftrightarrow> (\<forall>s x t. m s = Inr (x, t) \<longrightarrow> R s t)"

lemma movesD: "moves R m \<Longrightarrow> m s = Inr (x, t) \<Longrightarrow> R s t"
  unfolding moves_def by blast

text \<open>The primitive changes of the state, and what a relation must allow for each of them.\<close>

locale effect =
  fixes R :: "estate \<Rightarrow> estate \<Rightarrow> bool"
  assumes R_refl: "R s s"
    and R_trans: "R s t \<Longrightarrow> R t u \<Longrightarrow> R s u"
    and R_list: "list_at (es_heap s) v = Some ys \<Longrightarrow> R s (put_obj v (OList xs) s)"
    and R_dict: "dict_at (es_heap s) v = Some e \<Longrightarrow> R s (put_obj v (ODict d) s)"
    and R_new: "R s (s\<lparr>es_heap := es_heap s @ [ob]\<rparr>)"
    and R_file: "R s (s\<lparr>es_files := es_files s @ [f]\<rparr>)"
    and R_run: "map_of (cached_command_results s) k = None \<Longrightarrow>
        R s (s\<lparr>cached_command_results := (k, r) # cached_command_results s, es_runs := es_runs s @ [k]\<rparr>)"
begin

lemma m_ret: "moves R (hret x)"
  by (simp add: moves_def R_refl)

lemma m_raise: "moves R (hraise e)"
  by (simp add: moves_def)

lemma m_bind: "moves R m \<Longrightarrow> (\<And>x. moves R (f x)) \<Longrightarrow> moves R (hbind m f)"
  unfolding moves_def hbind_Inr using R_trans by metis

lemma m_lift: "moves R (hlift r)"
  by (cases r) (simp_all add: m_ret m_raise)

lemma m_state: "moves R (hstate f)"
  by (simp add: moves_def hstate_def R_refl)

lemma m_map: "(\<And>x. x \<in> set xs \<Longrightarrow> moves R (f x)) \<Longrightarrow> moves R (hmap f xs)"
  by (induction xs) (auto intro!: m_bind m_ret)

lemma m_iter: "(\<And>x. x \<in> set xs \<Longrightarrow> moves R (f x)) \<Longrightarrow> moves R (hiter f xs)"
  by (induction xs) (auto intro!: m_bind m_ret)

lemma m_fold: "(\<And>b x. moves R (f b x)) \<Longrightarrow> moves R (hfold f b xs)"
  by (induction xs arbitrary: b) (auto intro!: m_bind m_ret)

lemma m_read: "moves R (hlist v)" "moves R (hdict v)" "moves R (htree v)" "moves R (hstr v)"
proof -
  show "moves R (hlist v)" "moves R (hdict v)" and t: "moves R (htree v)"
    by (auto simp: moves_def hlist_def hdict_def htree_def R_refl split: option.splits)
  then show "moves R (hstr v)" unfolding hstr_def by (intro m_bind m_ret)
qed

lemma m_new: "moves R (hnew ob)"
  by (simp add: moves_def hnew_def R_new)

lemma m_set: "moves R (set_list v xs)" "moves R (set_dict v d)"
  using R_list R_dict
  by (auto simp: moves_def set_list_def set_dict_def hbind_Inr hlist_def hdict_def hupdate_def split: option.splits)

lemma m_dict: "moves R (dict_put d k v)" "moves R (dict_del d k)"
  unfolding dict_put_def dict_del_def by (intro m_bind m_read m_set)+

lemma m_if: "(b \<Longrightarrow> moves R m) \<Longrightarrow> (\<not> b \<Longrightarrow> moves R n) \<Longrightarrow> moves R (if b then m else n)"
  by simp

lemma m_cases:
  "moves R n \<Longrightarrow> (\<And>x. moves R (f x)) \<Longrightarrow> moves R (case_option n f v1)"
  "moves R n' \<Longrightarrow> (\<And>x y. moves R (g x y)) \<Longrightarrow> moves R (case_list n' g v2)"
  "(\<And>x y. moves R (k x y)) \<Longrightarrow> moves R (case_prod k v3)"
  "(\<And>x. moves R (p1 x)) \<Longrightarrow> (\<And>x. moves R (p2 x)) \<Longrightarrow> moves R (case_obj p1 p2 v4)"
  "\<lbrakk>moves R h1; \<And>x. moves R (h2 x); \<And>x. moves R (h3 x); \<And>x. moves R (h4 x); \<And>x. moves R (h5 x)\<rbrakk>
   \<Longrightarrow> moves R (case_hval h1 h2 h3 h4 h5 v5)"
  "(\<And>x. moves R (e1 x)) \<Longrightarrow> (\<And>x. moves R (e2 x)) \<Longrightarrow> moves R (case_expansion e1 e2 v6)"
  "(\<And>x. moves R (s1 x)) \<Longrightarrow> (\<And>x. moves R (s2 x)) \<Longrightarrow> moves R (case_sum s1 s2 v7)"
  by (cases v1; simp)
    (cases v2; simp | cases v3; simp | cases v4; simp | cases v5; simp | cases v6; simp | cases v7; simp)+

lemmas m_intros = m_ret m_raise m_bind m_lift m_state m_map m_iter m_fold m_read m_new m_set m_dict m_if m_cases

lemma m_build: "moves R (hbuild t)"
proof (induction t)
  case (PList ts)
  then show ?case by (auto intro!: m_intros)
next
  case (PDict d)
  have "moves R (hbuild (snd p))" if "p \<in> set d" for p
    using PDict [OF that] by (cases p) simp
  then show ?case by (auto intro!: m_intros)
qed (simp_all add: m_ret)

lemma m_list_entry: "moves R (hmerge_list_entry c fro to m k xs)"
  unfolding hmerge_list_entry_def hmerge_target_def hmerge_lists_def hmerge_item_def
  by (intro m_intros m_build)

lemma m_sub_dict: "moves R (hsub_dict to m k)"
  unfolding hsub_dict_def by (intro m_intros)

lemma m_merge: "moves R (hmerge_dicts c to fro)"
proof (induction to fro rule: hmerge_induct)
  case (1 to fro)
  show ?case
  proof (subst hmerge_dicts.simps, rule m_iter, clarify, intro m_bind m_read m_state m_if m_raise)
    fix k v m h
    assume "(k, v) \<in> set fro"
    then have sub: "moves R (hmerge_dicts c sub d)" if "v = PDict d" for sub d
      using 1 that by simp
    show "moves R (case v of
         PStr _ \<Rightarrow> hbind (hlift (merged_plain c k v)) (\<lambda>t. hbind (hbuild t) (dict_put to k))
       | PInt _ \<Rightarrow> hbind (hlift (merged_plain c k v)) (\<lambda>t. hbind (hbuild t) (dict_put to k))
       | PDict d \<Rightarrow> hbind (hsub_dict to m k) (\<lambda>sub. hmerge_dicts c sub d)
       | PList xs \<Rightarrow> hmerge_list_entry c fro to m k xs
       | _ \<Rightarrow> hraise TypeErr)"
    proof (cases v)
      case (PDict d)
      then have "moves R (hmerge_dicts c sub d)" for sub by (simp add: sub)
      then show ?thesis using m_bind [OF m_sub_dict, of "\<lambda>sub. hmerge_dicts c sub d"] PDict by simp
    qed (simp_all only: pyval.case, intro m_intros m_build m_list_entry, (intro m_intros m_build m_list_entry)+)
  qed
qed

lemma m_cached:
  "moves R (hbind (hstate cached_command_results) (\<lambda>cache.
     case map_of cache k of
       Some r \<Rightarrow> hret r
     | None \<Rightarrow> hbind (hlift x) (\<lambda>r. hseq (hupdate (\<lambda>s. s\<lparr>cached_command_results := (k, r) # cached_command_results s,
         es_runs := es_runs s @ [k]\<rparr>)) (hret r))))"
  unfolding moves_def
proof (intro allI impI)
  fix s r t
  assume run: "hbind (hstate cached_command_results) (\<lambda>cache.
     case map_of cache k of
       Some r \<Rightarrow> hret r
     | None \<Rightarrow> hbind (hlift x) (\<lambda>r. hseq (hupdate (\<lambda>s. s\<lparr>cached_command_results := (k, r) # cached_command_results s,
         es_runs := es_runs s @ [k]\<rparr>)) (hret r))) s = Inr (r, t)"
  show "R s t"
  proof (cases "map_of (cached_command_results s) k")
    case None
    then show ?thesis using run R_run [OF None, of r] by (cases x) (auto simp: hstate_bind hupdate_bind hret_def hraise_def)
  next
    case (Some r')
    then show ?thesis using run R_refl by (simp add: hstate_bind)
  qed
qed

lemma m_run: "moves R (run_command c is_array command_string build_file text)"
  unfolding run_command_def Let_def by (intro m_bind m_lift m_cached)

lemma m_filelist: "moves R (write_filelist c build_file contents)"
  unfolding write_filelist_def Let_def
  by (intro m_intros) (simp add: moves_def hupdate_def R_file)

definition ops_move :: "expand_ops \<Rightarrow> bool" where
  "ops_move ops \<longleftrightarrow>
     (\<forall>p v b i. moves R (op_expand ops p v b i)) \<and> (\<forall>p v b k d. moves R (op_dict ops p v b k d))
     \<and> (\<forall>p v b i l. moves R (op_list ops p v b i l))"

lemma ops_moveD:
  assumes "ops_move ops"
  shows "moves R (op_expand ops p v b i)" and "moves R (op_dict ops p v b k d)" and "moves R (op_list ops p v b j l)"
  using assms unfolding ops_move_def by blast+

lemma m_match: "ops_move ops \<Longrightarrow> moves R (expand_match c ops p v b out m)"
  unfolding expand_match_def reference_contents_def processed_variables_def reference_value_def variable_value_def
    process_value_def list_value_def encode_value_def Let_def
  by (intro m_intros m_build m_run m_filelist ops_moveD) assumption+

lemma m_expand: "ops_move ops \<Longrightarrow> moves R (ExpandVariables_body c ops p v b i)"
  unfolding ExpandVariables_body_def expand_again_def canonical_output_def Let_def
  by (intro m_intros m_match ops_moveD) assumption+

lemma m_conditions: "ops_move ops \<Longrightarrow> moves R (ProcessConditionsInDict c ops p v b d)"
  unfolding ProcessConditionsInDict_def apply_condition_def EvalCondition_def hitems_def
  by (intro m_intros m_merge ops_moveD) assumption+

lemma m_dict_body: "ops_move ops \<Longrightarrow> moves R (ProcessVariablesAndConditionsInDict_body c ops p v b k d)"
  unfolding ProcessVariablesAndConditionsInDict_body_def expand_variables_dict_def expand_string_entry_def
    process_entry_def load_scope_def LoadVariablesFromVariablesDict_def Let_def
  by (intro m_intros m_conditions ops_moveD) assumption+

lemma m_list_body: "ops_move ops \<Longrightarrow> moves R (ProcessVariablesAndConditionsInList_body ops p v b i l)"
  unfolding ProcessVariablesAndConditionsInList_body_def
  by (intro m_intros ops_moveD) assumption+

lemma m_ops: "ops_move (expansion_ops c n)"
proof (induction n)
  case 0
  then show ?case by (simp add: ops_move_def m_raise)
next
  case (Suc n)
  then show ?case
    unfolding ops_move_def [of "expansion_ops c (Suc n)"]
    using m_expand [OF Suc] m_dict_body [OF Suc] m_list_body [OF Suc] by (simp add: Let_def)
qed

lemma m_ExpandVariables: "moves R (ExpandVariables c n input phase variables build_file)"
  unfolding ExpandVariables_def by (rule ops_moveD [OF m_ops])

lemma m_ProcessDict: "moves R (ProcessVariablesAndConditionsInDict c n d phase variables build_file key)"
  unfolding ProcessVariablesAndConditionsInDict_def by (rule ops_moveD [OF m_ops])

end

section \<open>Commands are run once\<close>

text \<open>
  The cache holds exactly the commands run, each run once. A step runs only commands that are not in the
  cache, and keeps the results of the others.
\<close>

definition commands_ok :: "estate \<Rightarrow> bool" where
  "commands_ok s \<longleftrightarrow> distinct (es_runs s) \<and> fst ` set (cached_command_results s) = set (es_runs s)"

definition commands_grow :: "estate \<Rightarrow> estate \<Rightarrow> bool" where
  "commands_grow s t \<longleftrightarrow>
     (commands_ok s \<longrightarrow> commands_ok t) \<and> prefix (es_runs s) (es_runs t)
     \<and> map_of (cached_command_results s) \<subseteq>\<^sub>m map_of (cached_command_results t)"

interpretation runs: effect commands_grow
proof
  fix s t u :: estate
  assume "commands_grow s t" "commands_grow t u"
  then show "commands_grow s u"
    unfolding commands_grow_def by (metis map_le_trans prefix_order.trans)
next
  fix s :: estate and k r
  assume "map_of (cached_command_results s) k = None"
  then have new: "k \<notin> fst ` set (cached_command_results s)" by (simp add: map_of_eq_None_iff)
  then show "commands_grow s (s\<lparr>cached_command_results := (k, r) # cached_command_results s, es_runs := es_runs s @ [k]\<rparr>)"
    by (auto simp: commands_grow_def commands_ok_def map_le_def dom_map_of_conv_image_fst)
qed (auto simp: commands_grow_def commands_ok_def put_obj_def split: hval.splits)

text \<open>
  C6: over a whole run of the expansion every command is run at most once in a directory, exactly the
  commands that were run are in the cache, and the result of a command never changes.
\<close>

theorem commands_run_once:
  assumes "ProcessVariablesAndConditionsInDict c n the_dict phase variables build_file key s = Inr ((), t)"
    and "commands_ok s"
  shows "distinct (es_runs t) \<and> set (es_runs t) = fst ` set (cached_command_results t)
    \<and> prefix (es_runs s) (es_runs t)
    \<and> map_of (cached_command_results s) \<subseteq>\<^sub>m map_of (cached_command_results t)"
  using movesD [OF runs.m_ProcessDict assms(1)] assms(2) unfolding commands_grow_def commands_ok_def by simp_all

theorem commands_run_once_witness:
  "distinct (es_runs example_end) \<and> set (es_runs example_end) = fst ` set (cached_command_results example_end)"
  using commands_run_once [OF example_run] by (simp add: commands_ok_def example_state_def)

section \<open>Objects keep their class\<close>

definition is_dict_obj :: "obj \<Rightarrow> bool" where
  "is_dict_obj ob = (case ob of ODict _ \<Rightarrow> True | OList _ \<Rightarrow> False)"

definition classes_kept :: "estate \<Rightarrow> estate \<Rightarrow> bool" where
  "classes_kept s t \<longleftrightarrow> prefix (map is_dict_obj (es_heap s)) (map is_dict_obj (es_heap t))"

lemma map_is_dict_update:
  "a < length h \<Longrightarrow> is_dict_obj ob = is_dict_obj (h ! a) \<Longrightarrow> map is_dict_obj (h[a := ob]) = map is_dict_obj h"
  by (simp add: map_update list_update_same_conv)

interpretation classes: effect classes_kept
proof
  fix s :: estate and v ys xs
  assume "list_at (es_heap s) v = Some ys"
  then show "classes_kept s (put_obj v (OList xs) s)"
    by (auto simp: classes_kept_def put_obj_def list_at_def heap_at_def map_is_dict_update is_dict_obj_def
        split: hval.splits option.splits obj.splits if_splits)
next
  fix s :: estate and v e d
  assume "dict_at (es_heap s) v = Some e"
  then show "classes_kept s (put_obj v (ODict d) s)"
    by (auto simp: classes_kept_def put_obj_def dict_at_def heap_at_def map_is_dict_update is_dict_obj_def
        split: hval.splits option.splits obj.splits if_splits)
qed (auto simp: classes_kept_def)

end
