(* ===== verification/ExpansionClosed.thy ===== *)
theory ExpansionClosed
  imports ExpansionEffects
begin

text \<open>
  Data without a reference of the phase: the expansion ends on it, changes nothing but strings that are
  integers, and touches nothing outside. So a phase leaves the references of the other phases alone, and
  a processed value is a fixed point.
\<close>

section \<open>Strings that are integers\<close>

fun with_ints :: "pyval \<Rightarrow> pyval" where
  "with_ints (PStr s) = (case canonical (HStr s) of HInt i \<Rightarrow> PInt i | _ \<Rightarrow> PStr s)"
| "with_ints (PList ts) = PList (map with_ints ts)"
| "with_ints (PDict d) = PDict (map (\<lambda>p. (fst p, with_ints (snd p))) d)"
| "with_ints t = t"

lemma canonical_cases: "canonical (HStr s) = HStr s \<or> (\<exists>i. canonical (HStr s) = HInt i)"
  by (auto simp: canonical_def split: sum.splits)

lemma canonical_other [simp]: "canonical (HInt i) = HInt i" "canonical (HRef a) = HRef a"
  "canonical HNone = HNone" "canonical (HBool b) = HBool b"
  by (simp_all add: canonical_def)

lemma canonical_idem [simp]: "canonical (canonical v) = canonical v"
proof (cases v)
  case (HStr s)
  then show ?thesis using canonical_cases [of s] by auto
qed simp_all

text \<open>\<open>t'\<close> is \<open>t\<close> with some of its integer strings converted.\<close>

inductive tcanon :: "pyval \<Rightarrow> pyval \<Rightarrow> bool" where
  same: "tcanon t t"
| int: "canonical (HStr s) = HInt i \<Longrightarrow> tcanon (PStr s) (PInt i)"
| list: "list_all2 tcanon ts us \<Longrightarrow> tcanon (PList ts) (PList us)"
| dict: "list_all2 (\<lambda>p q. fst q = fst p \<and> tcanon (snd p) (snd q)) d e \<Longrightarrow> tcanon (PDict d) (PDict e)"

inductive_cases tcanon_listE: "tcanon (PList ts) u"
inductive_cases tcanon_dictE: "tcanon (PDict d) u"

lemma tcanon_list: "tcanon (PList ts) u \<Longrightarrow> \<exists>us. u = PList us \<and> list_all2 tcanon ts us"
  by (erule tcanon_listE) (auto intro: list.rel_refl_strong tcanon.same)

lemma tcanon_dict:
  "tcanon (PDict d) u \<Longrightarrow> \<exists>e. u = PDict e \<and> list_all2 (\<lambda>p q. fst q = fst p \<and> tcanon (snd p) (snd q)) d e"
  by (erule tcanon_dictE) (auto intro: list.rel_refl_strong tcanon.same)

text \<open>How deep the calls go on data without references.\<close>

fun need :: "pyval \<Rightarrow> nat" where
  "need (PList ts) = Suc (sum_list (map (\<lambda>t. Suc (need t)) ts))"
| "need (PDict d) = Suc (sum_list (map (\<lambda>p. need (snd p)) d))"
| "need t = 1"

text \<open>No reference of the phase, no conditions of the phase, and only values a build file can hold.\<close>

fun closed_in :: "phase \<Rightarrow> pyval \<Rightarrow> bool" where
  "closed_in phase (PStr s) = (expansion_symbol phase \<notin> set s)"
| "closed_in phase (PInt i) = True"
| "closed_in phase (PList ts) = (\<forall>t\<in>set ts. closed_in phase t)"
| "closed_in phase (PDict d) =
     (distinct (map fst d) \<and> (\<forall>p\<in>set d. closed_in phase (snd p))
      \<and> (\<forall>k. conditions_key phase = Some k \<longrightarrow> k \<notin> fst ` set d)
      \<and> (\<forall>p\<in>set d. fst p = ''variables'' \<longrightarrow> (\<exists>e. snd p = PDict e)))"
| "closed_in phase t = False"

lemma tcanon_with_ints: "tcanon t u \<Longrightarrow> with_ints u = with_ints t"
proof (induction rule: tcanon.induct)
  case (list ts us)
  then show ?case by (auto simp: list_all2_conv_all_nth intro: nth_equalityI)
next
  case (dict d e)
  then show ?case by (auto simp: list_all2_conv_all_nth intro!: nth_equalityI)
qed simp_all

lemma tcanon_need: "tcanon t u \<Longrightarrow> need u = need t"
proof (induction rule: tcanon.induct)
  case (list ts us)
  then have "map (\<lambda>t. Suc (need t)) us = map (\<lambda>t. Suc (need t)) ts"
    by (auto simp: list_all2_conv_all_nth intro: nth_equalityI)
  then show ?case by simp
next
  case (dict d e)
  then have "map (\<lambda>p. need (snd p)) e = map (\<lambda>p. need (snd p)) d"
    by (auto simp: list_all2_conv_all_nth intro: nth_equalityI)
  then show ?case by simp
qed simp_all

lemma tcanon_keys: "list_all2 (\<lambda>p q. fst q = fst p \<and> R p q) d e \<Longrightarrow> map fst e = map fst d"
  by (auto simp: list_all2_conv_all_nth intro: nth_equalityI)

lemma tcanon_dict_keys:
  assumes "tcanon (PDict d) (PDict e)"
  shows "map fst e = map fst d"
  using tcanon_dict [OF assms] tcanon_keys by auto

lemma tcanon_closed: "tcanon t u \<Longrightarrow> closed_in phase t \<Longrightarrow> closed_in phase u"
proof (induction rule: tcanon.induct)
  case (list ts us)
  have "closed_in phase (us ! i)" if "i < length us" for i
    using list that nth_mem [of i ts] by (auto simp: list_all2_conv_all_nth)
  then show ?case by (auto simp: in_set_conv_nth)
next
  case (dict d e)
  have keys: "map fst e = map fst d" by (rule tcanon_keys [OF dict.IH])
  then have "fst ` set e = fst ` set d" by (metis list.set_map)
  moreover have "closed_in phase (snd p) \<and> (fst p = ''variables'' \<longrightarrow> (\<exists>x. snd p = PDict x))" if pe: "p \<in> set e" for p
  proof -
    obtain i where i: "i < length e" "p = e ! i" using pe by (auto simp: in_set_conv_nth)
    moreover have "length d = length e" using dict.IH by (rule list_all2_lengthD)
    ultimately have q: "d ! i \<in> set d" and R: "fst p = fst (d ! i)" "tcanon (snd (d ! i)) (snd p)"
        "closed_in phase (snd (d ! i)) \<longrightarrow> closed_in phase (snd p)"
      using list_all2_nthD2 [OF dict.IH, of i] by auto
    have "closed_in phase (snd (d ! i))" "fst (d ! i) = ''variables'' \<longrightarrow> (\<exists>x. snd (d ! i) = PDict x)"
      using dict.prems q by auto
    moreover have "\<exists>y. snd p = PDict y" if "snd (d ! i) = PDict x" for x
      using R(2) tcanon_dict [of x "snd p"] that by auto
    ultimately show ?thesis using R(1,3) by auto
  qed
  ultimately show ?case using dict.prems keys by auto
qed simp_all

lemma tcanon_done: "tcanon t u \<Longrightarrow> with_ints t = t \<Longrightarrow> u = t"
proof (induction rule: tcanon.induct)
  case (list ts us)
  have "us ! i = ts ! i" if "i < length ts" for i
  proof -
    have "with_ints (ts ! i) = ts ! i" using list.prems that by (metis nth_map pyval.inject(4) with_ints.simps(2))
    then show ?thesis using list.IH that by (auto simp: list_all2_conv_all_nth)
  qed
  then show ?case using list.IH by (auto simp: list_all2_conv_all_nth intro: nth_equalityI)
next
  case (dict d e)
  have "e ! i = d ! i" if "i < length d" for i
  proof -
    have "map (\<lambda>p. (fst p, with_ints (snd p))) d ! i = d ! i" using dict.prems by simp
    then have "with_ints (snd (d ! i)) = snd (d ! i)" using that by (auto simp: prod_eq_iff)
    then show ?thesis using dict.IH that by (auto simp: list_all2_conv_all_nth prod_eq_iff)
  qed
  then show ?case using dict.IH by (auto simp: list_all2_conv_all_nth intro: nth_equalityI)
qed simp_all

section \<open>Heaps\<close>

definition canon_val :: "hval \<Rightarrow> hval \<Rightarrow> bool" where
  "canon_val v w \<longleftrightarrow> w = v \<or> w = canonical v"

fun canon_obj :: "obj \<Rightarrow> obj \<Rightarrow> bool" where
  "canon_obj (OList xs) (OList ys) = list_all2 canon_val xs ys"
| "canon_obj (ODict d) (ODict e) = list_all2 (\<lambda>p q. fst q = fst p \<and> canon_val (snd p) (snd q)) d e"
| "canon_obj _ _ = False"

definition canon_step :: "estate \<Rightarrow> estate \<Rightarrow> bool" where
  "canon_step s t \<longleftrightarrow> list_all2 canon_obj (es_heap s) (es_heap t) \<and> t = s\<lparr>es_heap := es_heap t\<rparr>"

lemma canon_val_refl [simp]: "canon_val v v"
  by (simp add: canon_val_def)

lemma canon_val_trans: "canon_val u v \<Longrightarrow> canon_val v w \<Longrightarrow> canon_val u w"
  by (auto simp: canon_val_def)

lemma canon_obj_refl [simp]: "canon_obj ob ob"
  by (cases ob) (auto intro: list.rel_refl_strong)

lemma canon_obj_trans: "canon_obj x y \<Longrightarrow> canon_obj y z \<Longrightarrow> canon_obj x z"
proof (induction x y rule: canon_obj.induct)
  case (1 xs ys)
  then obtain zs where z: "z = OList zs" "list_all2 canon_val ys zs" by (cases z) simp_all
  have "list_all2 canon_val xs zs"
    by (rule list_all2_trans [OF canon_val_trans _ z(2)]) (use 1 in simp_all)
  then show ?case using z by simp
next
  case (2 d e)
  let ?R = "\<lambda>p q :: string \<times> hval. fst q = fst p \<and> canon_val (snd p) (snd q)"
  obtain f where z: "z = ODict f" "list_all2 ?R e f" using 2 by (cases z) simp_all
  have de: "list_all2 ?R d e" using 2 by simp
  have "?R (d ! i) (f ! i)" if "i < length d" for i
    using list_all2_nthD [OF de that] list_all2_nthD [OF z(2), of i] that list_all2_lengthD [OF de]
    by (auto intro: canon_val_trans)
  then have "list_all2 ?R d f"
    using list_all2_lengthD [OF de] list_all2_lengthD [OF z(2)] by (simp add: list_all2_conv_all_nth)
  then show ?case using z by simp
qed simp_all

lemma canon_step_refl [simp]: "canon_step s s"
  by (simp add: canon_step_def list.rel_refl_strong)

lemma canon_step_trans: "canon_step s t \<Longrightarrow> canon_step t u \<Longrightarrow> canon_step s u"
  unfolding canon_step_def
  by (auto intro: list_all2_trans [of canon_obj canon_obj canon_obj] canon_obj_trans) (metis estate.surjective estate.update_convs(1))

lemma canon_step_obj:
  "canon_step s t \<Longrightarrow> a < length (es_heap s) \<Longrightarrow> a < length (es_heap t) \<and> canon_obj (es_heap s ! a) (es_heap t ! a)"
  by (auto simp: canon_step_def list_all2_conv_all_nth)

lemma canon_list_at:
  assumes "canon_step s t" and "list_at (es_heap s) v = Some xs"
  shows "\<exists>ys. list_at (es_heap t) v = Some ys \<and> list_all2 canon_val xs ys"
proof -
  obtain a where a: "v = HRef a" "a < length (es_heap s)" "es_heap s ! a = OList xs"
    using list_at_HRef [OF assms(2)] by blast
  then show ?thesis using canon_step_obj [OF assms(1) a(2)]
    by (cases "es_heap t ! a") (auto simp: list_at_def heap_at_def)
qed

lemma canon_dict_at:
  assumes "canon_step s t" and "dict_at (es_heap s) v = Some d"
  shows "\<exists>e. dict_at (es_heap t) v = Some e \<and> list_all2 (\<lambda>p q. fst q = fst p \<and> canon_val (snd p) (snd q)) d e"
proof -
  obtain a where a: "v = HRef a" "a < length (es_heap s)" "es_heap s ! a = ODict d"
    using dict_at_HRef [OF assms(2)] by blast
  then show ?thesis using canon_step_obj [OF assms(1) a(2)]
    by (cases "es_heap t ! a") (auto simp: dict_at_def heap_at_def)
qed

lemma canon_val_ref: "canon_val v w \<Longrightarrow> \<not> plain_hval v \<Longrightarrow> w = v"
  by (cases v) (auto simp: canon_val_def)

lemma tcanon_canonical: "canon_val (HStr s) w \<Longrightarrow> \<exists>u. tree k h w = Some u \<and> tcanon (PStr s) u"
  using canonical_cases [of s] by (auto simp: canon_val_def intro: tcanon.intros)

lemma canon_tree:
  assumes "canon_step s s'"
  shows "canon_val v w \<Longrightarrow> tree k (es_heap s) v = Some t \<Longrightarrow> \<exists>u. tree k (es_heap s') w = Some u \<and> tcanon t u"
proof (induction k arbitrary: v w t)
  case 0
  then show ?case using tcanon_canonical by (cases v) (auto simp: canon_val_def intro: tcanon.same)
next
  case (Suc k)
  show ?case
  proof (cases v)
    case (HRef a)
    then have w: "w = v" using Suc.prems(1) by (simp add: canon_val_def)
    show ?thesis
    proof (cases t)
      case (PList ts)
      then obtain xs where xs: "list_at (es_heap s) v = Some xs" "list_all2 (\<lambda>x t. tree k (es_heap s) x = Some t) xs ts"
        using Suc.prems(2) by (auto simp: tree_list)
      then obtain ys where ys: "list_at (es_heap s') v = Some ys" "list_all2 canon_val xs ys"
        using canon_list_at [OF assms] by blast
      have "\<exists>u. tree k (es_heap s') (ys ! i) = Some u \<and> tcanon (ts ! i) u" if "i < length ts" for i
        using xs(2) ys(2) that by (intro Suc.IH [of "xs ! i"]) (auto simp: list_all2_conv_all_nth)
      then obtain f where f: "\<And>i. i < length ts \<Longrightarrow> tree k (es_heap s') (ys ! i) = Some (f i) \<and> tcanon (ts ! i) (f i)"
        by metis
      define us where "us = map f [0..<length ts]"
      have "list_all2 (\<lambda>x t. tree k (es_heap s') x = Some t) ys us" "list_all2 tcanon ts us"
        using f xs(2) ys(2) by (auto simp: us_def list_all2_conv_all_nth)
      then have "tree (Suc k) (es_heap s') v = Some (PList us) \<and> tcanon (PList ts) (PList us)"
        using ys(1) tcanon.list unfolding tree_list by blast
      then show ?thesis using w PList by blast
    next
      case (PDict td)
      then obtain d where d: "dict_at (es_heap s) v = Some d"
          "list_all2 (\<lambda>p q. fst q = fst p \<and> tree k (es_heap s) (snd p) = Some (snd q)) d td"
        using Suc.prems(2) by (auto simp: tree_dict)
      then obtain e where e: "dict_at (es_heap s') v = Some e"
          "list_all2 (\<lambda>p q. fst q = fst p \<and> canon_val (snd p) (snd q)) d e"
        using canon_dict_at [OF assms] by blast
      have "\<exists>u. tree k (es_heap s') (snd (e ! i)) = Some u \<and> tcanon (snd (td ! i)) u" if "i < length td" for i
        using d(2) e(2) that by (intro Suc.IH [of "snd (d ! i)"]) (auto simp: list_all2_conv_all_nth)
      then obtain f where f: "\<And>i. i < length td \<Longrightarrow>
          tree k (es_heap s') (snd (e ! i)) = Some (f i) \<and> tcanon (snd (td ! i)) (f i)"
        by metis
      define ue where "ue = map (\<lambda>i. (fst (td ! i), f i)) [0..<length td]"
      have "list_all2 (\<lambda>p q. fst q = fst p \<and> tree k (es_heap s') (snd p) = Some (snd q)) e ue"
          "list_all2 (\<lambda>p q. fst q = fst p \<and> tcanon (snd p) (snd q)) td ue"
        using f d(2) e(2) by (auto simp: ue_def list_all2_conv_all_nth)
      then have "tree (Suc k) (es_heap s') v = Some (PDict ue) \<and> tcanon (PDict td) (PDict ue)"
        using e(1) tcanon.dict unfolding tree_dict by blast
      then show ?thesis using w PDict by blast
    qed (use Suc.prems(2) HRef in \<open>auto split: option.splits obj.splits\<close>)
  qed (use Suc.prems tcanon_canonical in \<open>auto simp: canon_val_def intro: tcanon.same\<close>)
qed


section \<open>Steps\<close>

lemma canon_dict_put:
  assumes "dict_at (es_heap s) v = Some d" and "distinct (map fst d)" and "map_of d key = Some x"
  shows "\<exists>s'. dict_put v key (canonical x) s = Inr ((), s') \<and> canon_step s s'
    \<and> dict_at (es_heap s') v = Some (AList.update key (canonical x) d)"
proof -
  obtain a where a: "v = HRef a" "a < length (es_heap s)" "es_heap s ! a = ODict d"
    using dict_at_HRef [OF assms(1)] by blast
  let ?e = "AList.update key (canonical x) d"
  have up: "?e = map (\<lambda>p. if fst p = key then (key, canonical x) else p) d"
    using assms(2,3)
  proof (induction d)
    case (Cons p d)
    then show ?case
    proof (cases "fst p = key")
      case True
      then have "fst q \<noteq> key" if "q \<in> set d" for q
        using Cons.prems(1) True that by (metis distinct.simps(2) imageI list.set_map list.simps(9))
      then have "map (\<lambda>p. if fst p = key then (key, canonical x) else p) d = d"
        by (intro map_idI) simp
      then show ?thesis using True by (cases p) simp
    qed (cases p, simp)
  qed simp
  have x: "snd p = x" if "p \<in> set d" "fst p = key" for p
    using assms(2,3) that by (metis map_of_is_SomeI option.inject prod.collapse)
  have "list_all2 (\<lambda>p q. fst q = fst p \<and> canon_val (snd p) (snd q)) d ?e"
    unfolding up by (auto simp: list_all2_conv_all_nth canon_val_def x)
  then have "canon_step s (put_obj v (ODict ?e) s)"
    using a by (auto simp: canon_step_def put_obj_def list_all2_conv_all_nth nth_list_update)
  then show ?thesis
    using assms(1) a
    by (auto simp: dict_put_def set_dict_def hbind_def hdict_def hupdate_def put_obj_def dict_at_def heap_at_def)
qed

lemma canon_list_put:
  assumes "list_at (es_heap s) v = Some xs" and "i < length xs"
  shows "\<exists>s'. set_list v (xs[i := canonical (xs ! i)]) s = Inr ((), s') \<and> canon_step s s'
    \<and> list_at (es_heap s') v = Some (xs[i := canonical (xs ! i)])"
proof -
  obtain a where a: "v = HRef a" "a < length (es_heap s)" "es_heap s ! a = OList xs"
    using list_at_HRef [OF assms(1)] by blast
  have "list_all2 canon_val xs (xs[i := canonical (xs ! i)])"
    using assms(2) unfolding list_all2_conv_all_nth by (simp add: nth_list_update canon_val_def)
  then have "canon_step s (put_obj v (OList (xs[i := canonical (xs ! i)])) s)"
    using a by (auto simp: canon_step_def put_obj_def list_all2_conv_all_nth nth_list_update)
  then show ?thesis
    using assms(1) a
    by (auto simp: set_list_def hbind_def hlist_def hupdate_def put_obj_def list_at_def heap_at_def)
qed

lemma expand_closed_string:
  assumes "expansion_symbol phase \<notin> set x" and "0 < n"
  shows "op_expand (expansion_ops c n) phase variables build_file (HStr x) s = Inr (canonical (HStr x), s)"
proof -
  have "hstr (HStr x) s = Inr (x, s)" by (simp add: hstr_def htree_def hbind_def hret_def py_str_def)
  then show ?thesis
    using assms by (cases n) (auto simp: Let_def ExpandVariables_body_def hbind_def hret_def canonical_def)
qed

text \<open>A loop over the keys of a dictionary, with an invariant that says which keys are done.\<close>

lemma hiter_keys:
  assumes "\<And>K key s. key \<in> set ks \<Longrightarrow> Inv K s \<Longrightarrow> \<exists>s'. f key s = Inr ((), s') \<and> Inv (insert key K) s'"
    and "Inv K s"
  shows "\<exists>s'. hiter f ks s = Inr ((), s') \<and> Inv (K \<union> set ks) s'"
  using assms
proof (induction ks arbitrary: K s)
  case (Cons k ks)
  then obtain s1 where s1: "f k s = Inr ((), s1)" "Inv (insert k K) s1" by (meson list.set_intros(1))
  then obtain s2 where "hiter f ks s1 = Inr ((), s2)" "Inv (insert k K \<union> set ks) s2"
    using Cons.IH [OF _ s1(2)] Cons.prems(1) by (meson list.set_intros(2))
  then show ?case using s1 by (auto simp: hbind_def)
qed (auto simp: hret_def)

text \<open>The state of the two loops: what the dictionary is now, and which of its values are done.\<close>

definition dict_inv :: "estate \<Rightarrow> nat \<Rightarrow> hval \<Rightarrow> (pyval \<Rightarrow> bool) \<Rightarrow> string set \<Rightarrow> estate \<Rightarrow> bool" where
  "dict_inv s0 k v Q K s \<longleftrightarrow>
     canon_step s0 s
     \<and> (\<exists>u. tree k (es_heap s) v = Some (PDict u) \<and> (\<forall>p\<in>set u. fst p \<in> K \<longrightarrow> Q (snd p)))"

definition string_done :: "pyval \<Rightarrow> bool" where
  "string_done t \<longleftrightarrow> (\<forall>s. t = PStr s \<longrightarrow> with_ints t = t)"

definition value_done :: "pyval \<Rightarrow> bool" where
  "value_done t \<longleftrightarrow> with_ints t = t"

definition canon_stable :: "(pyval \<Rightarrow> bool) \<Rightarrow> bool" where
  "canon_stable Q \<longleftrightarrow> (\<forall>t u. tcanon t u \<longrightarrow> Q t \<longrightarrow> Q u)"

lemma done_stable: "canon_stable string_done" "canon_stable value_done"
  unfolding canon_stable_def string_done_def value_done_def by (auto elim: tcanon.cases dest: tcanon_done)

lemma dict_inv_at:
  assumes "dict_inv s0 (Suc k) v Q K s" and "tree (Suc k) (es_heap s0) v = Some (PDict t)"
  shows "\<exists>d u. dict_at (es_heap s) v = Some d \<and> tcanon (PDict t) (PDict u)
    \<and> list_all2 (\<lambda>p q. fst q = fst p \<and> tree k (es_heap s) (snd p) = Some (snd q)) d u
    \<and> (\<forall>p\<in>set u. fst p \<in> K \<longrightarrow> Q (snd p)) \<and> map fst d = map fst t"
proof -
  obtain u where u: "tree (Suc k) (es_heap s) v = Some (PDict u)" "\<forall>p\<in>set u. fst p \<in> K \<longrightarrow> Q (snd p)"
    and s: "canon_step s0 s"
    using assms(1) unfolding dict_inv_def by blast
  have tu: "tcanon (PDict t) (PDict u)" using canon_tree [OF s canon_val_refl assms(2)] u(1) by auto
  obtain d where d: "dict_at (es_heap s) v = Some d"
      "list_all2 (\<lambda>p q. fst q = fst p \<and> tree k (es_heap s) (snd p) = Some (snd q)) d u"
    using u(1) unfolding tree_dict by blast
  have "map fst u = map fst d" by (rule tcanon_keys [OF d(2)])
  moreover have "map fst u = map fst t" by (rule tcanon_dict_keys [OF tu])
  ultimately show ?thesis using u d tu by auto
qed

lemma dict_inv_step:
  assumes inv: "dict_inv s0 (Suc k) v Q K s" and step: "canon_step s s'" and Q: "canon_stable Q"
    and new: "\<And>d x r. dict_at (es_heap s') v = Some d \<Longrightarrow> (key, x) \<in> set d \<Longrightarrow> tree k (es_heap s') x = Some r \<Longrightarrow> Q r"
  shows "dict_inv s0 (Suc k) v Q (insert key K) s'"
proof -
  obtain u where u: "tree (Suc k) (es_heap s) v = Some (PDict u)" "\<forall>p\<in>set u. fst p \<in> K \<longrightarrow> Q (snd p)"
    and s0: "canon_step s0 s"
    using inv unfolding dict_inv_def by blast
  obtain u' where u': "tree (Suc k) (es_heap s') v = Some (PDict u')"
      "list_all2 (\<lambda>p q. fst q = fst p \<and> tcanon (snd p) (snd q)) u u'"
    using canon_tree [OF step canon_val_refl u(1)] tcanon_dict by blast
  obtain d where d: "dict_at (es_heap s') v = Some d"
      "list_all2 (\<lambda>p q. fst q = fst p \<and> tree k (es_heap s') (snd p) = Some (snd q)) d u'"
    using u'(1) unfolding tree_dict by blast
  have "Q (snd (u' ! i))" if i: "i < length u'" "fst (u' ! i) \<in> insert key K" for i
  proof (cases "fst (u' ! i) = key")
    case True
    have "fst (u' ! i) = fst (d ! i)" "tree k (es_heap s') (snd (d ! i)) = Some (snd (u' ! i))" and "i < length d"
      using list_all2_nthD2 [OF d(2) i(1)] i(1) list_all2_lengthD [OF d(2)] by auto
    then show ?thesis using new [OF d(1), of "snd (d ! i)"] True nth_mem [of i d] by (cases "d ! i") auto
  next
    case False
    have "fst (u' ! i) = fst (u ! i)" "tcanon (snd (u ! i)) (snd (u' ! i))" "u ! i \<in> set u"
      using list_all2_nthD2 [OF u'(2) i(1)] i(1) list_all2_lengthD [OF u'(2)] by auto
    then show ?thesis using u(2) i(2) False Q unfolding canon_stable_def by auto
  qed
  then have "\<forall>p\<in>set u'. fst p \<in> insert key K \<longrightarrow> Q (snd p)" by (metis in_set_conv_nth)
  then show ?thesis using u'(1) canon_step_trans [OF s0 step] unfolding dict_inv_def by blast
qed

text \<open>One string entry: the first loop.\<close>

lemma string_step:
  assumes t: "tree (Suc k) (es_heap s0) v = Some (PDict t)" "closed_in phase (PDict t)" and n: "0 < n"
    and key: "key \<in> fst ` set t" and inv: "dict_inv s0 (Suc k) v string_done K s"
  shows "\<exists>s'. expand_string_entry (expansion_ops c n) phase vars build_file v key s = Inr ((), s')
    \<and> dict_inv s0 (Suc k) v string_done (insert key K) s'"
proof -
  obtain d u where d: "dict_at (es_heap s) v = Some d" "tcanon (PDict t) (PDict u)"
      "list_all2 (\<lambda>p q. fst q = fst p \<and> tree k (es_heap s) (snd p) = Some (snd q)) d u"
      "map fst d = map fst t"
    using dict_inv_at [OF inv t(1)] by blast
  have u: "closed_in phase (PDict u)" by (rule tcanon_closed [OF d(2) t(2)])
  have dist: "distinct (map fst d)" using t(2) d(4) by simp
  obtain i where i: "i < length d" "fst (d ! i) = key"
    using key d(4) by (metis imageE in_set_conv_nth length_map list.set_map nth_map)
  define x where "x = snd (d ! i)"
  have dx: "d ! i = (key, x)" using i(2) by (simp add: x_def prod_eq_iff)
  then have at: "map_of d key = Some x" using dist i(1) by (metis map_of_is_SomeI nth_mem)
  have ui: "fst (u ! i) = key" "tree k (es_heap s) x = Some (snd (u ! i))" "u ! i \<in> set u"
    using list_all2_nthD [OF d(3) i(1)] dx i(1) list_all2_lengthD [OF d(3)] by auto
  show ?thesis
  proof (cases "\<exists>w. x = HStr w")
    case True
    then obtain w where w: "x = HStr w" by blast
    then have uw: "snd (u ! i) = PStr w" using ui(2) by simp
    then have "expansion_symbol phase \<notin> set w" "key \<noteq> ''variables''" using u ui(1,3) by fastforce+
    moreover obtain s' where s': "dict_put v key (canonical x) s = Inr ((), s')" "canon_step s s'"
        "dict_at (es_heap s') v = Some (AList.update key (canonical x) d)"
      using canon_dict_put [OF d(1) dist at] by blast
    moreover have "plain_hval (canonical x)" using canonical_cases [of w] w by auto
    ultimately have run: "expand_string_entry (expansion_ops c n) phase vars build_file v key s = Inr ((), s')"
      using d(1) at w n expand_closed_string
      by (simp add: expand_string_entry_def hbind_def hdict_def)
    have "string_done r" if "(key, y) \<in> set (AList.update key (canonical x) d)" "tree k (es_heap s') y = Some r" for y r
    proof -
      have "y = canonical x" using that(1) dist by (metis distinct_update map_of_is_SomeI option.inject update_Some_unfold update_conv')
      then show ?thesis using that(2) w canonical_cases [of w] canonical_idem [of x] by (auto simp: string_done_def)
    qed
    then have "dict_inv s0 (Suc k) v string_done (insert key K) s'"
      using dict_inv_step [OF inv s'(2) done_stable(1)] s'(3) by simp
    then show ?thesis using run by blast
  next
    case False
    then have run: "expand_string_entry (expansion_ops c n) phase vars build_file v key s = Inr ((), s)"
      using d(1) at by (auto simp: expand_string_entry_def hbind_def hdict_def hret_def split: hval.splits)
    have "string_done r" if "(key, y) \<in> set d" "tree k (es_heap s) y = Some r" for y r
      using that dist at False by (auto simp: string_done_def)
    then have "dict_inv s0 (Suc k) v string_done (insert key K) s"
      using dict_inv_step [OF inv canon_step_refl done_stable(1)] d(1) by simp
    then show ?thesis using run by blast
  qed
qed

text \<open>What the induction over the depth shows of dictionaries and of lists.\<close>

definition dict_ok :: "expand_ctx \<Rightarrow> phase \<Rightarrow> nat \<Rightarrow> bool" where
  "dict_ok c phase n \<longleftrightarrow>
     (\<forall>k v t s vars build_file key.
        tree k (es_heap s) v = Some (PDict t) \<longrightarrow> closed_in phase (PDict t) \<longrightarrow> need (PDict t) \<le> n \<longrightarrow>
        (\<exists>s' u. op_dict (expansion_ops c n) phase vars build_file key v s = Inr ((), s') \<and> canon_step s s'
           \<and> tree k (es_heap s') v = Some u \<and> value_done u))"

definition list_ok :: "expand_ctx \<Rightarrow> phase \<Rightarrow> nat \<Rightarrow> bool" where
  "list_ok c phase n \<longleftrightarrow>
     (\<forall>k v ts i s vars build_file.
        tree (Suc k) (es_heap s) v = Some (PList ts) \<longrightarrow> closed_in phase (PList ts)
        \<longrightarrow> Suc (sum_list (map (\<lambda>t. Suc (need t)) (drop i ts))) \<le> n \<longrightarrow>
        (\<exists>s' us. op_list (expansion_ops c n) phase vars build_file i v s = Inr ((), s') \<and> canon_step s s'
           \<and> tree (Suc k) (es_heap s') v = Some (PList us) \<and> (\<forall>j. i \<le> j \<and> j < length us \<longrightarrow> value_done (us ! j))))"

lemma dict_okD:
  assumes "dict_ok c phase n" and "tree k (es_heap s) v = Some (PDict t)" and "closed_in phase (PDict t)"
    and "need (PDict t) \<le> n"
  obtains s' u where "op_dict (expansion_ops c n) phase vars build_file key v s = Inr ((), s')" and "canon_step s s'"
    and "tree k (es_heap s') v = Some u" and "value_done u"
  using assms unfolding dict_ok_def by blast

lemma list_okD:
  assumes "list_ok c phase n" and "tree (Suc k) (es_heap s) v = Some (PList ts)" and "closed_in phase (PList ts)"
    and "Suc (sum_list (map (\<lambda>t. Suc (need t)) (drop i ts))) \<le> n"
  obtains s' us where "op_list (expansion_ops c n) phase vars build_file i v s = Inr ((), s')" and "canon_step s s'"
    and "tree (Suc k) (es_heap s') v = Some (PList us)" and "\<forall>j. i \<le> j \<and> j < length us \<longrightarrow> value_done (us ! j)"
  using assms unfolding list_ok_def by blast

text \<open>A nested list or dictionary.\<close>

lemma nested_ok:
  assumes ok: "dict_ok c phase n" "list_ok c phase n"
    and r: "tree k (es_heap s) (HRef a) = Some r" "closed_in phase r" "need r \<le> n"
  shows "\<exists>s' u. (case heap_at (es_heap s) (HRef a) of
        Some (ODict _) \<Rightarrow> op_dict (expansion_ops c n) phase vars build_file key (HRef a)
      | Some (OList _) \<Rightarrow> op_list (expansion_ops c n) phase vars build_file 0 (HRef a)
      | None \<Rightarrow> hraise TypeErr) s = Inr ((), s')
    \<and> canon_step s s' \<and> tree k (es_heap s') (HRef a) = Some u \<and> value_done u"
proof -
  obtain k' where k: "k = Suc k'" using r(1) by (cases k) auto
  show ?thesis
  proof (cases r)
    case (PDict t)
    then have "heap_at (es_heap s) (HRef a) = Some (ODict d)" if "dict_at (es_heap s) (HRef a) = Some d" for d
      using that by (auto simp: dict_at_def split: option.splits obj.splits)
    moreover obtain d where "dict_at (es_heap s) (HRef a) = Some d"
      using r(1) unfolding PDict k tree_dict by blast
    moreover obtain s' u where "op_dict (expansion_ops c n) phase vars build_file key (HRef a) s = Inr ((), s')"
        "canon_step s s'" "tree k (es_heap s') (HRef a) = Some u" "value_done u"
      using dict_okD [OF ok(1), of k s "HRef a" t vars build_file key] r PDict by metis
    ultimately show ?thesis by auto
  next
    case (PList ts)
    then have "heap_at (es_heap s) (HRef a) = Some (OList xs)" if "list_at (es_heap s) (HRef a) = Some xs" for xs
      using that by (auto simp: list_at_def split: option.splits obj.splits)
    moreover obtain xs where "list_at (es_heap s) (HRef a) = Some xs"
      using r(1) unfolding PList k tree_list by blast
    moreover obtain s' us where "op_list (expansion_ops c n) phase vars build_file 0 (HRef a) s = Inr ((), s')"
        "canon_step s s'" "tree (Suc k') (es_heap s') (HRef a) = Some (PList us)"
        "\<forall>j. 0 \<le> j \<and> j < length us \<longrightarrow> value_done (us ! j)"
      using list_okD [OF ok(2), of k' s "HRef a" ts 0 vars build_file] r PList k by (metis drop0 need.simps(1) zero_le)
    moreover from this(4) have "value_done (PList us)"
      unfolding value_done_def by (auto intro: nth_equalityI)
    ultimately show ?thesis using k by auto
  qed (use r(1) k in \<open>auto split: option.splits obj.splits\<close>)
qed

lemma canonical_done: "tree k h (canonical (HStr w)) = Some r \<Longrightarrow> value_done r"
  using canonical_cases [of w] by (auto simp: value_done_def)

lemma closed_value: "tree k h x = Some r \<Longrightarrow> closed_in phase r \<Longrightarrow> plain_hval x \<or> (\<exists>a. x = HRef a)"
  by (cases x) auto

text \<open>One nested entry: the second loop.\<close>

lemma value_step:
  assumes ok: "dict_ok c phase n" "list_ok c phase n"
    and t: "tree (Suc k) (es_heap s0) v = Some (PDict t)" "closed_in phase (PDict t)" "need (PDict t) \<le> Suc n"
    and key: "key \<in> fst ` set t"
    and inv: "dict_inv s0 (Suc k) v string_done (fst ` set t) s" "dict_inv s0 (Suc k) v value_done K s"
    and vars_done: "''variables'' \<in> K"
  shows "\<exists>s'. process_entry (expansion_ops c n) phase vars build_file v key s = Inr ((), s')
    \<and> dict_inv s0 (Suc k) v string_done (fst ` set t) s' \<and> dict_inv s0 (Suc k) v value_done (insert key K) s'"
proof -
  obtain d u where d: "dict_at (es_heap s) v = Some d" "tcanon (PDict t) (PDict u)"
      "list_all2 (\<lambda>p q. fst q = fst p \<and> tree k (es_heap s) (snd p) = Some (snd q)) d u"
      "map fst d = map fst t" and strings: "\<forall>p\<in>set u. fst p \<in> fst ` set t \<longrightarrow> string_done (snd p)"
    using dict_inv_at [OF inv(1) t(1)] by blast
  have u: "closed_in phase (PDict u)" "need (PDict u) \<le> Suc n"
    using tcanon_closed [OF d(2) t(2)] tcanon_need [OF d(2)] t(3) by simp_all
  have dist: "distinct (map fst d)" using t(2) d(4) by simp
  obtain i where i: "i < length d" "fst (d ! i) = key"
    using key d(4) by (metis imageE in_set_conv_nth length_map list.set_map nth_map)
  define x where "x = snd (d ! i)"
  have dx: "d ! i = (key, x)" using i(2) by (simp add: x_def prod_eq_iff)
  then have at: "map_of d key = Some x" using dist i(1) by (metis map_of_is_SomeI nth_mem)
  have ui: "fst (u ! i) = key" "tree k (es_heap s) x = Some (snd (u ! i))" "u ! i \<in> set u"
    using list_all2_nthD [OF d(3) i(1)] dx i(1) list_all2_lengthD [OF d(3)] by auto
  have ci: "closed_in phase (snd (u ! i))" and ni: "need (snd (u ! i)) \<le> n"
    using u ui(3) member_le_sum_list [of "need (snd (u ! i))" "map (\<lambda>p. need (snd p)) u"] by auto
  have run: "process_entry (expansion_ops c n) phase vars build_file v key s
      = (if key = ''variables'' then hret () else case x of HStr _ \<Rightarrow> hret () | HInt _ \<Rightarrow> hret ()
         | HRef _ \<Rightarrow> (case heap_at (es_heap s) x of
               Some (ODict _) \<Rightarrow> op_dict (expansion_ops c n) phase vars build_file (Some key) x
             | Some (OList _) \<Rightarrow> op_list (expansion_ops c n) phase vars build_file 0 x
             | None \<Rightarrow> hraise TypeErr)
         | _ \<Rightarrow> hraise TypeErr) s"
    using d(1) at
    by (cases x) (auto simp: process_entry_def hbind_def hdict_def hstate_def split: option.split obj.split)
  show ?thesis
  proof (cases "key = ''variables'' \<or> plain_hval x")
    case True
    have fin: "value_done r" if "(key, y) \<in> set d" "tree k (es_heap s) y = Some r" "key \<noteq> ''variables''" for y r
    proof -
      have y: "y = x" using that(1) dist at by simp
      then have "tree k (es_heap s) x = Some r" "string_done r" using that(2) ui strings key by auto
      then show ?thesis using True that(3) by (cases x) (auto simp: string_done_def value_done_def)
    qed
    have "dict_inv s0 (Suc k) v value_done (insert key K) s"
    proof (cases "key = ''variables''")
      case True
      then show ?thesis using inv(2) vars_done by (simp add: insert_absorb)
    next
      case False
      then show ?thesis using dict_inv_step [OF inv(2) canon_step_refl done_stable(2)] d(1) fin by simp
    qed
    moreover have "process_entry (expansion_ops c n) phase vars build_file v key s = Inr ((), s)"
      unfolding run using True by (cases x) (auto simp: hret_def)
    ultimately show ?thesis using inv(1) by blast
  next
    case False
    then obtain a where a: "x = HRef a" using closed_value [OF ui(2) ci] by blast
    obtain s' r where s': "process_entry (expansion_ops c n) phase vars build_file v key s = Inr ((), s')"
        "canon_step s s'" "tree k (es_heap s') x = Some r" "value_done r"
      using nested_ok [OF ok, of k s a "snd (u ! i)" vars build_file "Some key"] ui(2) ci ni a False
      unfolding run by auto
    obtain e where e: "dict_at (es_heap s') v = Some e" "list_all2 (\<lambda>p q. fst q = fst p \<and> canon_val (snd p) (snd q)) d e"
      using canon_dict_at [OF s'(2) d(1)] by blast
    have "(key, y) \<in> set e \<Longrightarrow> y = x" for y
    proof -
      assume "(key, y) \<in> set e"
      then obtain j where j: "j < length e" "e ! j = (key, y)" by (auto simp: in_set_conv_nth)
      then have "fst (d ! j) = key" "canon_val (snd (d ! j)) y" and jd: "j < length d"
        using list_all2_nthD2 [OF e(2) j(1)] list_all2_lengthD [OF e(2)] by auto
      moreover from this have "snd (d ! j) = x"
        using dist at nth_mem [OF jd] by (metis map_of_is_SomeI option.inject prod.collapse)
      ultimately show "y = x" using a by (simp add: canon_val_def)
    qed
    then have "dict_inv s0 (Suc k) v value_done (insert key K) s'"
      using dict_inv_step [OF inv(2) s'(2) done_stable(2)] e(1) s'(3,4) by (metis option.inject)
    moreover have "string_done q" if "value_done q" for q
      using that by (auto simp: string_done_def value_done_def)
    then have "dict_inv s0 (Suc k) v string_done (insert key (fst ` set t)) s'"
      using dict_inv_step [OF inv(1) s'(2) done_stable(1)] e(1) s'(3,4) \<open>\<And>y. (key, y) \<in> set e \<Longrightarrow> y = x\<close>
      by (metis option.inject)
    ultimately show ?thesis using s'(1) key by (auto simp: insert_absorb)
  qed
qed

section \<open>The whole expansion\<close>

lemma dict_inv_keep:
  assumes "dict_inv s0 (Suc k) v Q K s" and "canon_step s s'" and "canon_stable Q"
  shows "dict_inv s0 (Suc k) v Q K s'"
proof -
  obtain u where u: "tree (Suc k) (es_heap s) v = Some (PDict u)" "\<forall>p\<in>set u. fst p \<in> K \<longrightarrow> Q (snd p)"
    and s0: "canon_step s0 s"
    using assms(1) unfolding dict_inv_def by blast
  obtain u' where u': "tree (Suc k) (es_heap s') v = Some (PDict u')"
      "list_all2 (\<lambda>p q. fst q = fst p \<and> tcanon (snd p) (snd q)) u u'"
    using canon_tree [OF assms(2) canon_val_refl u(1)] tcanon_dict by blast
  have "fst (u' ! i) \<in> K \<longrightarrow> Q (snd (u' ! i))" if "i < length u'" for i
    using list_all2_nthD2 [OF u'(2) that] list_all2_lengthD [OF u'(2)] that u(2) assms(3)
    unfolding canon_stable_def by auto
  then have "\<forall>p\<in>set u'. fst p \<in> K \<longrightarrow> Q (snd p)" by (metis in_set_conv_nth)
  then show ?thesis using u'(1) canon_step_trans [OF s0 assms(2)] unfolding dict_inv_def by blast
qed

lemma dict_lookup:
  assumes "tree (Suc k) h v = Some (PDict t)" and "distinct (map fst t)"
  shows "\<exists>d. dict_at h v = Some d \<and> map fst d = map fst t
    \<and> (\<forall>key x. map_of d key = Some x \<longrightarrow> (\<exists>r. (key, r) \<in> set t \<and> tree k h x = Some r))"
proof -
  obtain d where d: "dict_at h v = Some d" "list_all2 (\<lambda>p q. fst q = fst p \<and> tree k h (snd p) = Some (snd q)) d t"
    using assms(1) unfolding tree_dict by blast
  have "\<exists>r. (key, r) \<in> set t \<and> tree k h x = Some r" if kx: "map_of d key = Some x" for key x
  proof -
    obtain i where i: "i < length d" "d ! i = (key, x)" using map_of_SomeD [OF kx] by (auto simp: in_set_conv_nth)
    then have "(key, snd (t ! i)) = t ! i" "tree k h x = Some (snd (t ! i))" "t ! i \<in> set t"
      using list_all2_nthD [OF d(2) i(1)] list_all2_lengthD [OF d(2)] by (auto simp: prod_eq_iff)
    then show ?thesis by metis
  qed
  then show ?thesis using d(1) tcanon_keys [OF d(2)] by auto
qed

lemma load_scope_closed:
  assumes "tree (Suc k) (es_heap s) v = Some (PDict t)" and "closed_in phase (PDict t)"
  shows "\<exists>vars. load_scope vin key v s = Inr (vars, s)"
proof -
  obtain d where d: "dict_at (es_heap s) v = Some d"
      "\<forall>key x. map_of d key = Some x \<longrightarrow> (\<exists>r. (key, r) \<in> set t \<and> tree k (es_heap s) x = Some r)"
    using dict_lookup [OF assms(1)] assms(2) by auto
  show ?thesis
  proof (cases "map_of d ''variables''")
    case None
    then show ?thesis using d(1)
      by (simp add: load_scope_def LoadVariablesFromVariablesDict_def hbind_def hdict_def hstate_def hret_def)
  next
    case (Some y)
    then obtain r where r: "(''variables'', r) \<in> set t" "tree k (es_heap s) y = Some r" using d(2) by blast
    then obtain e where "r = PDict e" using assms(2) by auto
    then obtain m where "dict_at (es_heap s) y = Some m" using r(2) tree_dict_at by blast
    then show ?thesis using d(1) Some
      by (simp add: load_scope_def LoadVariablesFromVariablesDict_def hbind_def hdict_def hstate_def hret_def)
  qed
qed

lemma conditions_closed:
  assumes "tree (Suc k) (es_heap s) v = Some (PDict t)" and "closed_in phase (PDict t)"
  shows "ProcessConditionsInDict c ops phase vars build_file v s = Inr ((), s)"
proof (cases "conditions_key phase")
  case (Some key)
  obtain d where d: "dict_at (es_heap s) v = Some d" "map fst d = map fst t"
    using dict_lookup [OF assms(1)] assms(2) by auto
  have "key \<notin> fst ` set d" using assms(2) Some d(2) by (metis closed_in.simps(4) list.set_map)
  then have "map_of d key = None" by (simp add: map_of_eq_None_iff)
  then show ?thesis using Some d(1) by (simp add: ProcessConditionsInDict_def hbind_def hdict_def hret_def)
qed (simp add: ProcessConditionsInDict_def hret_def)

lemma variables_closed:
  assumes ok: "dict_ok c phase n"
    and t: "tree (Suc k) (es_heap s) v = Some (PDict t)" "closed_in phase (PDict t)" "need (PDict t) \<le> Suc n"
  shows "\<exists>s'. expand_variables_dict (expansion_ops c n) phase vin build_file v s = Inr ((), s')
    \<and> dict_inv s (Suc k) v value_done {''variables''} s'"
proof -
  obtain d where d: "dict_at (es_heap s) v = Some d" "map fst d = map fst t"
      "\<forall>key x. map_of d key = Some x \<longrightarrow> (\<exists>r. (key, r) \<in> set t \<and> tree k (es_heap s) x = Some r)"
    using dict_lookup [OF t(1)] t(2) by auto
  have dist: "distinct (map fst d)" using t(2) d(2) by simp
  have start: "dict_inv s (Suc k) v value_done {} s" using t(1) by (simp add: dict_inv_def)
  show ?thesis
  proof (cases "map_of d ''variables''")
    case None
    then have "expand_variables_dict (expansion_ops c n) phase vin build_file v s = Inr ((), s)"
      using d(1) by (simp add: expand_variables_dict_def hbind_def hdict_def hstate_def hret_def)
    moreover have "dict_inv s (Suc k) v value_done {''variables''} s"
      using dict_inv_step [OF start canon_step_refl done_stable(2)] d(1) None by (force simp: map_of_eq_None_iff)
    ultimately show ?thesis by blast
  next
    case (Some y)
    then obtain r where r: "(''variables'', r) \<in> set t" "tree k (es_heap s) y = Some r" using d(3) by blast
    then obtain e where e: "r = PDict e" using t(2) by auto
    then obtain m where m: "dict_at (es_heap s) y = Some m" using r(2) tree_dict_at by blast
    have "need r \<in> set (map (\<lambda>p. need (snd p)) t)" using r(1) by force
    then have "need r \<le> n" using t(3) member_le_sum_list [of "need r" "map (\<lambda>p. need (snd p)) t"] by simp
    moreover have "closed_in phase r" using t(2) r(1) by auto
    ultimately obtain s' u where s': "op_dict (expansion_ops c n) phase
          (foldl (\<lambda>vs p. AList.update (fst p) (snd p) vs) (LoadAutomaticVariablesFromDict (es_heap s) d vin) m)
          build_file (Some ''variables'') y s = Inr ((), s')"
        "canon_step s s'" "tree k (es_heap s') y = Some u" "value_done u"
      using dict_okD [OF ok, of k s y e] r(2) unfolding e by blast
    have "expand_variables_dict (expansion_ops c n) phase vin build_file v s = Inr ((), s')"
      using d(1) Some m s'(1) by (simp add: expand_variables_dict_def hbind_def hdict_def hstate_def Let_def)
    moreover obtain f where f: "dict_at (es_heap s') v = Some f"
        "list_all2 (\<lambda>p q. fst q = fst p \<and> canon_val (snd p) (snd q)) d f"
      using canon_dict_at [OF s'(2) d(1)] by blast
    have "z = y" if z: "(''variables'', z) \<in> set f" for z
    proof -
      obtain j where j: "j < length f" "f ! j = (''variables'', z)" using z by (auto simp: in_set_conv_nth)
      then have "fst (d ! j) = ''variables''" "canon_val (snd (d ! j)) z" and jd: "j < length d"
        using list_all2_nthD2 [OF f(2) j(1)] list_all2_lengthD [OF f(2)] by auto
      moreover from this have "snd (d ! j) = y"
        using dist Some nth_mem [OF jd] by (metis map_of_is_SomeI option.inject prod.collapse)
      ultimately show "z = y" using dict_at_HRef [OF m] by (auto simp: canon_val_def)
    qed
    then have "dict_inv s (Suc k) v value_done {''variables''} s'"
      using dict_inv_step [OF start s'(2) done_stable(2)] f(1) s'(3,4) by (metis option.inject)
    ultimately show ?thesis by blast
  qed
qed

lemma need_pos: "0 < need t"
  by (cases t) simp_all

lemma dict_body_closed:
  assumes ok: "dict_ok c phase n" "list_ok c phase n"
    and t: "tree (Suc k) (es_heap s) v = Some (PDict t)" "closed_in phase (PDict t)" "need (PDict t) \<le> Suc n"
  shows "\<exists>s' u. ProcessVariablesAndConditionsInDict_body c (expansion_ops c n) phase vin build_file key v s = Inr ((), s')
    \<and> canon_step s s' \<and> tree (Suc k) (es_heap s') v = Some u \<and> value_done u"
proof -
  let ?ops = "expansion_ops c n"
  obtain s1 where s1: "expand_variables_dict ?ops phase vin build_file v s = Inr ((), s1)"
      "dict_inv s (Suc k) v value_done {''variables''} s1"
    using variables_closed [OF ok(1) t] by blast
  have c1: "canon_step s s1" using s1(2) by (simp add: dict_inv_def)
  obtain t1 where t1: "tree (Suc k) (es_heap s1) v = Some (PDict t1)" "tcanon (PDict t) (PDict t1)"
    using canon_tree [OF c1 canon_val_refl t(1)] tcanon_dict by blast
  have cl1: "closed_in phase (PDict t1)" by (rule tcanon_closed [OF t1(2) t(2)])
  obtain vars1 where vars1: "load_scope vin key v s1 = Inr (vars1, s1)" using load_scope_closed [OF t1(1) cl1] by blast
  obtain d1 where d1: "dict_at (es_heap s1) v = Some d1" "map fst d1 = map fst t1"
    using dict_lookup [OF t1(1)] cl1 by auto
  have "dict_inv s1 (Suc k) v string_done {} s1" using t1(1) by (simp add: dict_inv_def)
  moreover have "\<exists>s'. expand_string_entry ?ops phase vars1 build_file v key' s'' = Inr ((), s')
      \<and> dict_inv s1 (Suc k) v string_done (insert key' K) s'"
    if "key' \<in> set (map fst d1)" "dict_inv s1 (Suc k) v string_done K s''" for key' K s''
  proof -
    have key': "key' \<in> fst ` set t1" using that(1) d1(2) by (metis list.set_map)
    then obtain r where "(key', r) \<in> set t1" by auto
    then have "need r \<in> set (map (\<lambda>p. need (snd p)) t1)" by force
    then have "need r < need (PDict t1)" using member_le_sum_list [of "need r" "map (\<lambda>p. need (snd p)) t1"] by simp
    then have "0 < n" using tcanon_need [OF t1(2)] t(3) need_pos [of r] by simp
    then show ?thesis by (rule string_step [OF t1(1) cl1 _ key' that(2)])
  qed
  ultimately obtain s2 where s2: "hiter (expand_string_entry ?ops phase vars1 build_file v) (map fst d1) s1 = Inr ((), s2)"
      "dict_inv s1 (Suc k) v string_done ({} \<union> set (map fst d1)) s2"
    using hiter_keys [of "map fst d1" "dict_inv s1 (Suc k) v string_done" "expand_string_entry ?ops phase vars1 build_file v" "{}" s1]
    by blast
  have c2: "canon_step s1 s2" using s2(2) by (simp add: dict_inv_def)
  obtain t2 where t2: "tree (Suc k) (es_heap s2) v = Some (PDict t2)" "\<forall>p\<in>set t2. fst p \<in> set (map fst d1) \<longrightarrow> string_done (snd p)"
    using s2(2) unfolding dict_inv_def by auto
  have tc2: "tcanon (PDict t1) (PDict t2)" using canon_tree [OF c2 canon_val_refl t1(1)] t2(1) by auto
  have cl2: "closed_in phase (PDict t2)" by (rule tcanon_closed [OF tc2 cl1])
  have n2: "need (PDict t2) \<le> Suc n" using tcanon_need [OF tc2] tcanon_need [OF t1(2)] t(3) by simp
  have keys2: "map fst t2 = map fst t1" by (rule tcanon_dict_keys [OF tc2])
  obtain vars2 where vars2: "load_scope vin key v s2 = Inr (vars2, s2)" using load_scope_closed [OF t2(1) cl2] by blast
  have cond: "ProcessConditionsInDict c ?ops phase vars2 build_file v s2 = Inr ((), s2)"
    by (rule conditions_closed [OF t2(1) cl2])
  obtain d2 where d2: "dict_at (es_heap s2) v = Some d2" "map fst d2 = map fst t2"
    using dict_lookup [OF t2(1)] cl2 by auto
  let ?I = "\<lambda>K s'. dict_inv s2 (Suc k) v string_done (fst ` set t2) s' \<and> dict_inv s2 (Suc k) v value_done K s' \<and> ''variables'' \<in> K"
  have "fst ` set t2 = set (map fst d1)" using keys2 d1(2) by (metis list.set_map)
  then have str2: "dict_inv s2 (Suc k) v string_done (fst ` set t2) s2" using t2 by (simp add: dict_inv_def)
  have "dict_inv s (Suc k) v value_done {''variables''} s2" by (rule dict_inv_keep [OF s1(2) c2 done_stable(2)])
  then have "?I {''variables''} s2" using str2 t2(1) by (auto simp: dict_inv_def)
  then obtain s3 where s3: "hiter (process_entry ?ops phase vars2 build_file v) (map fst d2) s2 = Inr ((), s3)"
      "?I ({''variables''} \<union> set (map fst d2)) s3"
    using hiter_keys [of "map fst d2" ?I "process_entry ?ops phase vars2 build_file v" "{''variables''}" s2]
      value_step [OF ok t2(1) cl2 n2] d2(2) by (metis (no_types, lifting) insertCI list.set_map)
  have c3: "canon_step s2 s3" using s3(2) by (simp add: dict_inv_def)
  obtain t3 where t3: "tree (Suc k) (es_heap s3) v = Some (PDict t3)" "\<forall>p\<in>set t3. fst p \<in> set (map fst d2) \<longrightarrow> value_done (snd p)"
    using s3(2) unfolding dict_inv_def by auto
  have "tcanon (PDict t2) (PDict t3)" using canon_tree [OF c3 canon_val_refl t2(1)] t3(1) by auto
  then have "map fst t3 = map fst t2" by (rule tcanon_dict_keys)
  then have "with_ints (snd p) = snd p" if "p \<in> set t3" for p
    using t3(2) that d2(2) unfolding value_done_def by (metis image_eqI list.set_map)
  then have "value_done (PDict t3)" by (auto simp: value_done_def intro!: map_idI)
  moreover have "ProcessVariablesAndConditionsInDict_body c ?ops phase vin build_file key v s = Inr ((), s3)"
    using s1(1) vars1 d1(1) s2(1) vars2 cond d2(1) s3(1)
    by (simp add: ProcessVariablesAndConditionsInDict_body_def hbind_def hdict_def)
  ultimately show ?thesis using t3(1) canon_step_trans [OF canon_step_trans [OF c1 c2] c3] by blast
qed

lemma list_rest:
  assumes ok: "list_ok c phase n" and step: "canon_step s s1"
    and t: "tree (Suc k) (es_heap s) v = Some (PList ts)" "closed_in phase (PList ts)"
      "Suc (sum_list (map (\<lambda>t. Suc (need t)) (drop i ts))) \<le> Suc n" "i < length ts"
    and item: "\<And>ts1. tree (Suc k) (es_heap s1) v = Some (PList ts1) \<Longrightarrow> value_done (ts1 ! i)"
  shows "\<exists>s' us. op_list (expansion_ops c n) phase vars build_file (i + 1) v s1 = Inr ((), s') \<and> canon_step s s'
    \<and> tree (Suc k) (es_heap s') v = Some (PList us) \<and> (\<forall>j. i \<le> j \<and> j < length us \<longrightarrow> value_done (us ! j))"
proof -
  obtain ts1 where t1: "tree (Suc k) (es_heap s1) v = Some (PList ts1)" "tcanon (PList ts) (PList ts1)"
    using canon_tree [OF step canon_val_refl t(1)] tcanon_list by blast
  obtain l: "length ts1 = length ts" and all: "list_all2 tcanon ts ts1"
    using tcanon_list [OF t1(2)] list_all2_lengthD by fastforce
  have "map (\<lambda>t. Suc (need t)) ts1 = map (\<lambda>t. Suc (need t)) ts"
    using all l by (auto simp: list_all2_conv_all_nth tcanon_need intro: nth_equalityI)
  then have "map (\<lambda>t. Suc (need t)) (drop (i + 1) ts1) = map (\<lambda>t. Suc (need t)) (drop (i + 1) ts)"
    by (metis drop_map)
  moreover have "drop i ts = ts ! i # drop (i + 1) ts" using t(4) by (simp add: Cons_nth_drop_Suc)
  ultimately have "Suc (sum_list (map (\<lambda>t. Suc (need t)) (drop (i + 1) ts1))) \<le> n" using t(3) by simp
  then obtain s' us where s': "op_list (expansion_ops c n) phase vars build_file (i + 1) v s1 = Inr ((), s')"
      "canon_step s1 s'" "tree (Suc k) (es_heap s') v = Some (PList us)"
      "\<forall>j. i + 1 \<le> j \<and> j < length us \<longrightarrow> value_done (us ! j)"
    using list_okD [OF ok t1(1) tcanon_closed [OF t1(2) t(2)]] by blast
  have "tcanon (PList ts1) (PList us)" using canon_tree [OF s'(2) canon_val_refl t1(1)] s'(3) by auto
  then have all2: "list_all2 tcanon ts1 us" using tcanon_list by auto
  have "value_done (us ! i)"
    using done_stable(2) item [OF t1(1)] list_all2_nthD [OF all2, of i] t(4) l unfolding canon_stable_def by auto
  then have "\<forall>j. i \<le> j \<and> j < length us \<longrightarrow> value_done (us ! j)" using s'(4) by (metis Suc_eq_plus1 le_antisym not_less_eq_eq)
  then show ?thesis using s'(1,3) canon_step_trans [OF step s'(2)] by blast
qed


lemma list_body_closed:
  assumes ok: "dict_ok c phase n" "list_ok c phase n"
    and t: "tree (Suc k) (es_heap s) v = Some (PList ts)" "closed_in phase (PList ts)"
      "Suc (sum_list (map (\<lambda>t. Suc (need t)) (drop i ts))) \<le> Suc n"
  shows "\<exists>s' us. ProcessVariablesAndConditionsInList_body (expansion_ops c n) phase vars build_file i v s = Inr ((), s')
    \<and> canon_step s s' \<and> tree (Suc k) (es_heap s') v = Some (PList us)
    \<and> (\<forall>j. i \<le> j \<and> j < length us \<longrightarrow> value_done (us ! j))"
proof -
  obtain xs where xs: "list_at (es_heap s) v = Some xs" "list_all2 (\<lambda>x t. tree k (es_heap s) x = Some t) xs ts"
    using t(1) unfolding tree_list by blast
  note len = list_all2_lengthD [OF xs(2)]
  show ?thesis
  proof (cases "i < length ts")
    case False
    then have "ProcessVariablesAndConditionsInList_body (expansion_ops c n) phase vars build_file i v s = Inr ((), s)"
      using xs(1) len by (simp add: ProcessVariablesAndConditionsInList_body_def hbind_def hlist_def hstate_def hret_def)
    moreover have "\<forall>j. i \<le> j \<and> j < length ts \<longrightarrow> value_done (ts ! j)" using False by auto
    ultimately show ?thesis using t(1) canon_step_refl by blast
  next
    case True
    then have i: "i < length xs" and ti: "tree k (es_heap s) (xs ! i) = Some (ts ! i)"
      using len list_all2_nthD [OF xs(2)] by auto
    have ci: "closed_in phase (ts ! i)" using t(2) True by simp
    have "ts ! i \<in> set (drop i ts)" using True by (metis Cons_nth_drop_Suc list.set_intros(1))
    then have "Suc (need (ts ! i)) \<in> set (map (\<lambda>t. Suc (need t)) (drop i ts))" by auto
    then have ni: "need (ts ! i) \<le> n"
      using t(3) member_le_sum_list [of "Suc (need (ts ! i))" "map (\<lambda>t. Suc (need t)) (drop i ts)"] by simp
    then have n: "0 < n" using need_pos [of "ts ! i"] by simp
    note rest = list_rest [OF ok(2) _ t True]
    consider (str) w where "xs ! i = HStr w" | (int) j where "xs ! i = HInt j" | (ref) a where "xs ! i = HRef a"
      using closed_value [OF ti ci] by (cases "xs ! i") auto
    then show ?thesis
    proof cases
      case str
      then have w1: "ts ! i = PStr w" using ti by simp
      then have w: "expansion_symbol phase \<notin> set w" using ci by simp
      obtain s1 where s1: "set_list v (xs[i := canonical (xs ! i)]) s = Inr ((), s1)" "canon_step s s1"
          "list_at (es_heap s1) v = Some (xs[i := canonical (xs ! i)])"
        using canon_list_put [OF xs(1) i] by blast
      have "value_done (ts1 ! i)" if "tree (Suc k) (es_heap s1) v = Some (PList ts1)" for ts1
      proof -
        have "list_all2 (\<lambda>x t. tree k (es_heap s1) x = Some t) (xs[i := canonical (xs ! i)]) ts1"
          using that s1(3) unfolding tree_list by auto
        then have "tree k (es_heap s1) (canonical (HStr w)) = Some (ts1 ! i)"
          using list_all2_nthD i str by fastforce
        then show ?thesis by (rule canonical_done)
      qed
      then obtain s' us where s': "op_list (expansion_ops c n) phase vars build_file (i + 1) v s1 = Inr ((), s')"
          "canon_step s s'" "tree (Suc k) (es_heap s') v = Some (PList us)"
          "\<forall>j. i \<le> j \<and> j < length us \<longrightarrow> value_done (us ! j)"
        using rest [OF s1(2)] by blast
      have "plain_hval (canonical (HStr w))" "list_at (es_heap s) (canonical (HStr w)) = None"
        using canonical_cases [of w] by (auto simp: list_at_def heap_at_def)
      then have "ProcessVariablesAndConditionsInList_body (expansion_ops c n) phase vars build_file i v s = Inr ((), s')"
        using xs(1) i str s1(1) s'(1) expand_closed_string [OF w n]
        by (simp add: ProcessVariablesAndConditionsInList_body_def hbind_def hlist_def hstate_def)
      then show ?thesis using s' by blast
    next
      case int
      then have "ts ! i = PInt j" using ti by simp
      then have "value_done (ts1 ! i)" if "tree (Suc k) (es_heap s) v = Some (PList ts1)" for ts1
        using that t(1) by (auto simp: value_done_def)
      then obtain s' us where s': "op_list (expansion_ops c n) phase vars build_file (i + 1) v s = Inr ((), s')"
          "canon_step s s'" "tree (Suc k) (es_heap s') v = Some (PList us)"
          "\<forall>j. i \<le> j \<and> j < length us \<longrightarrow> value_done (us ! j)"
        using rest [OF canon_step_refl] by blast
      then show ?thesis
        using xs(1) i int by (auto simp: ProcessVariablesAndConditionsInList_body_def hbind_def hlist_def hstate_def)
    next
      case ref
      obtain s1 r where s1: "(case heap_at (es_heap s) (HRef a) of
            Some (ODict _) \<Rightarrow> op_dict (expansion_ops c n) phase vars build_file None (HRef a)
          | Some (OList _) \<Rightarrow> op_list (expansion_ops c n) phase vars build_file 0 (HRef a)
          | None \<Rightarrow> hraise TypeErr) s = Inr ((), s1)"
          "canon_step s s1" "tree k (es_heap s1) (HRef a) = Some r" "value_done r"
        using nested_ok [OF ok, of k s a "ts ! i" vars build_file None] ti ci ni ref by auto
      have "value_done (ts1 ! i)" if t1: "tree (Suc k) (es_heap s1) v = Some (PList ts1)" for ts1
      proof -
        obtain ys where ys: "list_at (es_heap s1) v = Some ys" "list_all2 (\<lambda>x t. tree k (es_heap s1) x = Some t) ys ts1"
          using t1 unfolding tree_list by blast
        then have "list_all2 canon_val xs ys" using canon_list_at [OF s1(2) xs(1)] by auto
        then have "ys ! i = HRef a" "i < length ys"
          using list_all2_nthD [of canon_val xs ys i] i ref by (auto simp: canon_val_def list_all2_lengthD)
        then show ?thesis using list_all2_nthD [OF ys(2)] s1(3,4) by fastforce
      qed
      then obtain s' us where s': "op_list (expansion_ops c n) phase vars build_file (i + 1) v s1 = Inr ((), s')"
          "canon_step s s'" "tree (Suc k) (es_heap s') v = Some (PList us)"
          "\<forall>j. i \<le> j \<and> j < length us \<longrightarrow> value_done (us ! j)"
        using rest [OF s1(2)] by blast
      have "ProcessVariablesAndConditionsInList_body (expansion_ops c n) phase vars build_file i v s = Inr ((), s')"
        using xs(1) i ref s1(1) s'(1)
        by (auto simp: ProcessVariablesAndConditionsInList_body_def hbind_def hlist_def hstate_def hraise_def
            split: option.splits obj.splits)
      then show ?thesis using s' by blast
    qed
  qed
qed

lemma expansion_closed_ok: "dict_ok c phase n \<and> list_ok c phase n"
proof (induction n)
  case 0
  have "\<not> need t \<le> 0" for t using need_pos [of t] by simp
  then show ?case unfolding dict_ok_def list_ok_def by simp
next
  case (Suc n)
  note ok = conjunct1 [OF Suc.IH] conjunct2 [OF Suc.IH]
  have "dict_ok c phase (Suc n)"
    unfolding dict_ok_def
  proof (intro allI impI)
    fix k v t vars build_file key and s :: estate
    assume t: "tree k (es_heap s) v = Some (PDict t)" "closed_in phase (PDict t)" "need (PDict t) \<le> Suc n"
    obtain k' where k: "k = Suc k'" using t(1) by (cases k; cases v) auto
    show "\<exists>s' u. op_dict (expansion_ops c (Suc n)) phase vars build_file key v s = Inr ((), s')
        \<and> canon_step s s' \<and> tree k (es_heap s') v = Some u \<and> value_done u"
      using dict_body_closed [OF ok t(1) [unfolded k] t(2,3), of vars build_file key] k by (simp add: Let_def)
  qed
  moreover have "list_ok c phase (Suc n)"
    unfolding list_ok_def
  proof (intro allI impI)
    fix k v ts i vars build_file and s :: estate
    assume t: "tree (Suc k) (es_heap s) v = Some (PList ts)" "closed_in phase (PList ts)"
      "Suc (sum_list (map (\<lambda>t. Suc (need t)) (drop i ts))) \<le> Suc n"
    show "\<exists>s' us. op_list (expansion_ops c (Suc n)) phase vars build_file i v s = Inr ((), s') \<and> canon_step s s'
        \<and> tree (Suc k) (es_heap s') v = Some (PList us) \<and> (\<forall>j. i \<le> j \<and> j < length us \<longrightarrow> value_done (us ! j))"
      using list_body_closed [OF ok t, of vars build_file] by (simp add: Let_def)
  qed
  ultimately show ?case by blast
qed



end
