(* ===== verification/ExpansionTemplates.thy ===== *)
theory ExpansionTemplates
  imports ExpansionClosed
begin

text \<open>
  Texts with references to variables: what \<open>ExpandVariables\<close> makes of them is the text with the values in
  the place of the references, or the error for an undefined variable; a list reference gives a new list.
\<close>

section \<open>Templates\<close>

datatype piece = Lit string | Ref string

definition piece_text :: "phase \<Rightarrow> piece \<Rightarrow> string" where
  "piece_text phase p = (case p of Lit s \<Rightarrow> s | Ref x \<Rightarrow> expansion_symbol phase # CHR ''('' # x @ '')'')"

definition template_text :: "phase \<Rightarrow> piece list \<Rightarrow> string" where
  "template_text phase ps = concat (map (piece_text phase) ps)"

fun hval_text :: "hval \<Rightarrow> string" where
  "hval_text (HStr s) = s"
| "hval_text (HInt i) = str_of_int i"
| "hval_text _ = []"

definition piece_value :: "vars \<Rightarrow> string \<Rightarrow> piece \<Rightarrow> string res" where
  "piece_value variables build_file p =
     (case p of
        Lit s \<Rightarrow> Inr s
      | Ref x \<Rightarrow>
          (case map_of variables x of
             Some v \<Rightarrow> Inr (hval_text v)
           | None \<Rightarrow> Inl (GypErr (''Undefined variable '' @ x @ '' in '' @ build_file))))"

text \<open>The last reference is evaluated first.\<close>

fun template_value :: "vars \<Rightarrow> string \<Rightarrow> piece list \<Rightarrow> string res" where
  "template_value variables build_file [] = Inr []"
| "template_value variables build_file (p # ps) =
     ebind (template_value variables build_file ps) (\<lambda>t.
     ebind (piece_value variables build_file p) (\<lambda>w. Inr (w @ t)))"

text \<open>A name without white space, brackets and the symbol of the phase that is no integer.\<close>

definition plain_name :: "phase \<Rightarrow> string \<Rightarrow> bool" where
  "plain_name phase x \<longleftrightarrow>
     x \<noteq> [] \<and> (\<forall>c\<in>set x. \<not> py_space c \<and> \<not> bracket c \<and> c \<noteq> expansion_symbol phase)
     \<and> \<not> IsStrCanonicalInt (PStr x) \<and> last x \<notin> {CHR ''!'', CHR ''/''}"

definition plain_piece :: "phase \<Rightarrow> vars \<Rightarrow> piece \<Rightarrow> bool" where
  "plain_piece phase variables p =
     (case p of
        Lit s \<Rightarrow> expansion_symbol phase \<notin> set s
      | Ref x \<Rightarrow> plain_name phase x
          \<and> (case map_of variables x of Some v \<Rightarrow> plain_hval v \<and> expansion_symbol phase \<notin> set (hval_text v) | None \<Rightarrow> True))"

section \<open>Finding the references\<close>

fun template_matches :: "phase \<Rightarrow> nat \<Rightarrow> piece list \<Rightarrow> var_match list" where
  "template_matches phase i [] = []"
| "template_matches phase i (p # ps) =
     (case p of Lit s \<Rightarrow> [] | Ref x \<Rightarrow> [\<lparr>vm_start = i, vm_type = [], vm_command_string = None, vm_is_array = []\<rparr>])
     @ template_matches phase (i + length (piece_text phase p)) ps"

lemma finditer_skip: "expansion_symbol phase \<notin> set s \<Longrightarrow>
  finditer (expansion_symbol phase) i (s @ t) = finditer (expansion_symbol phase) (i + length s) t"
  by (induction s arbitrary: i) (auto simp: match_here_def)

lemma match_reference:
  assumes "plain_name phase x" and ty: "ty = [] \<or> ty = ''@''"
  shows "match_here (expansion_symbol phase) i (expansion_symbol phase # ty @ CHR ''('' # x @ CHR '')'' # rest)
    = Some (\<lparr>vm_start = i, vm_type = ty, vm_command_string = None, vm_is_array = []\<rparr>, length ty + length x + 3)"
proof -
  obtain c cs where x: "x = c # cs" using assms by (cases x) (auto simp: plain_name_def)
  have "\<not> py_space c" "c \<noteq> CHR ''[''" using assms x by (auto simp: plain_name_def bracket_def)
  then have "match_array (x @ CHR '')'' # rest) = []" by (simp add: match_array_def x)
  moreover have no: "CHR '')'' \<notin> set x" "CHR 0x0A \<notin> set x"
    using assms by (auto simp: plain_name_def bracket_def py_space_def)
  then have "takeWhile (\<lambda>c. c \<noteq> CHR '')'') (x @ CHR '')'' # rest) = x" by (simp add: takeWhile_neq)
  then have "match_content (x @ CHR '')'' # rest) = Some (Suc (length x))" using no by (simp add: match_content_def)
  ultimately show ?thesis
    using ty by (auto simp: match_here_def match_type_def command_char_def is_digit_def)
qed

lemma finditer_template:
  "\<forall>p\<in>set ps. plain_piece phase variables p \<Longrightarrow>
     finditer (expansion_symbol phase) i (template_text phase ps) = template_matches phase i ps"
proof (induction ps arbitrary: i)
  case (Cons p ps)
  show ?case
  proof (cases p)
    case (Lit s)
    then show ?thesis using Cons finditer_skip by (simp add: template_text_def piece_text_def plain_piece_def)
  next
    case (Ref x)
    then have "plain_name phase x" using Cons.prems by (simp add: plain_piece_def)
    then show ?thesis
      using match_reference [of phase x "[]" i "template_text phase ps"] Cons Ref
      by (simp add: template_text_def piece_text_def numeral_3_eq_3)
  qed
qed (simp add: template_text_def)

section \<open>One reference\<close>

lemma group_reference:
  assumes "plain_name phase x" and ty: "ty = [] \<or> ty = ''@''"
  shows "FindEnclosingBracketGroup (expansion_symbol phase # ty @ CHR ''('' # x @ CHR '')'' # rest)
    = (int (length ty) + 1, int (length ty) + int (length x) + 3)"
proof -
  have "\<forall>c\<in>set x. \<not> bracket c" using assms by (simp add: plain_name_def)
  then have "balanced x" by (induction x) (auto intro: balanced_Nil balanced_char)
  then have "bracket_group (CHR ''('' # x @ '')'')"
    unfolding bracket_group_def by (intro exI [of _ "CHR ''(''"] exI [of _ x]) (simp add: LBRACKETS_def closer_def)
  moreover have "\<forall>c\<in>set (expansion_symbol phase # ty). \<not> bracket c"
    using ty by (cases phase) (auto simp: expansion_symbol_def bracket_def)
  ultimately show ?thesis
    using FindEnclosingBracketGroup_found [of "expansion_symbol phase # ty" "CHR ''('' # x @ '')''" rest] by simp
qed

lemma py_slice_nat: "a \<le> b \<Longrightarrow> b \<le> length s \<Longrightarrow> py_slice (int a) (int b) s = take (b - a) (drop a s)"
  by (simp add: py_slice_def slice_bound_def)

lemma plain_name_expand:
  assumes "plain_name phase x" and "0 < n"
  shows "op_expand (expansion_ops c n) phase variables build_file (HStr x) s = Inr (HStr x, s)"
proof -
  have "expansion_symbol phase \<notin> set x" "canonical (HStr x) = HStr x"
    using assms(1) by (auto simp: plain_name_def canonical_def)
  then show ?thesis using expand_closed_string [OF _ assms(2)] by metis
qed

lemma plain_name_strip: "plain_name phase x \<Longrightarrow> strip x = x"
  by (intro strip_id) (auto simp: plain_name_def)

lemma plain_hval_str: "plain_hval v \<Longrightarrow> hstr v s = Inr (hval_text v, s) \<and> list_at h v = None"
  by (cases v) (auto simp: hstr_def htree_def hbind_def hret_def py_str_def list_at_def heap_at_def)

lemma expand_match_reference:
  assumes x: "plain_name phase x" and n: "0 < n"
    and v: "case map_of variables x of Some v \<Rightarrow> plain_hval v | None \<Rightarrow> True"
  shows "expand_match c (expansion_ops c n) phase variables build_file
      (OutStr (pre @ piece_text phase (Ref x) @ suf))
      \<lparr>vm_start = length pre, vm_type = [], vm_command_string = None, vm_is_array = []\<rparr> s
    = ebind (piece_value variables build_file (Ref x)) (\<lambda>w. Inr (OutStr (pre @ w @ suf), s))"
proof -
  let ?T = "expansion_symbol phase # CHR ''('' # x @ '')''"
  let ?inp = "pre @ ?T @ suf"
  let ?e = "int (length pre) + (int (length x) + 3)"
  have group: "FindEnclosingBracketGroup (drop (length pre) ?inp) = (1, int (length x) + 3)"
    using group_reference [OF x, of "[]" suf] by simp
  have "py_slice (int (length pre + 2)) (int (length pre + length x + 2)) ?inp = x"
    by (subst py_slice_nat) simp_all
  moreover have "int (length pre) + 1 + 1 = int (length pre + 2)" "?e - 1 = int (length pre + length x + 2)" by simp_all
  ultimately have contents: "py_slice (int (length pre) + 1 + 1) (?e - 1) ?inp = x" by metis
  have upto: "slice_to (int (length pre)) ?inp = pre" by (simp add: slice_to_def slice_bound_def)
  have "?e = int (length pre + length x + 3)" by simp
  then have beyond: "slice_from ?e ?inp = suf" by (simp add: slice_from_def slice_bound_def nat_add_distrib numeral_3_eq_3)
  have tx: "reference_contents c (expansion_ops c n) phase variables build_file False x s = Inr (x, s)"
    using plain_name_expand [OF x n] plain_name_strip [OF x] by (simp add: reference_contents_def hbind_def hret_def)
  have match: "expand_match c (expansion_ops c n) phase variables build_file (OutStr ?inp)
      \<lparr>vm_start = length pre, vm_type = [], vm_command_string = None, vm_is_array = []\<rparr> s
    = hbind (variable_value variables build_file x) (\<lambda>v.
      hbind (process_value (expansion_ops c n) phase variables build_file x v) (\<lambda>_.
      hbind (encode_value v) (\<lambda>w. hret (OutStr (pre @ w @ suf))))) s"
    using hbind_step [of "reference_contents c (expansion_ops c n) phase variables build_file False x", OF tx] group contents upto beyond
    by (simp add: expand_match_def Let_def reference_value_def add.assoc)
  show ?thesis
  proof (cases "map_of variables x")
    case None
    then show ?thesis unfolding piece_text_def piece.case match using x
      by (simp add: variable_value_def plain_name_def piece_value_def hbind_def hraise_def)
  next
    case (Some w)
    then have "plain_hval w" using v by simp
    then have "process_value (expansion_ops c n) phase variables build_file x w s = Inr ((), s)"
        "encode_value w s = Inr (hval_text w, s)"
      using plain_hval_str [of w] by (simp_all add: process_value_def encode_value_def hstate_bind hret_def)
    then show ?thesis unfolding piece_text_def piece.case match using Some
      by (simp add: variable_value_def piece_value_def hbind_def hret_def)
  qed
qed

section \<open>The whole text\<close>

lemma hfold_append: "hfold f b (xs @ ys) = hbind (hfold f b xs) (\<lambda>c. hfold f c ys)"
  by (induction xs arbitrary: b) (simp_all add: hbind_assoc)

lemma expand_template_loop:
  assumes "\<forall>p\<in>set ps. plain_piece phase variables p" and n: "0 < n"
  shows "hfold (expand_match c (expansion_ops c n) phase variables build_file)
      (OutStr (pre @ template_text phase ps)) (rev (template_matches phase (length pre) ps)) s
    = ebind (template_value variables build_file ps) (\<lambda>w. Inr (OutStr (pre @ w), s))"
  using assms(1)
proof (induction ps arbitrary: pre)
  case Nil
  then show ?case by (simp add: template_text_def hret_def)
next
  case (Cons p ps)
  have IH: "hfold (expand_match c (expansion_ops c n) phase variables build_file)
      (OutStr (pre @ piece_text phase p @ template_text phase ps))
      (rev (template_matches phase (length pre + length (piece_text phase p)) ps)) s
    = ebind (template_value variables build_file ps) (\<lambda>w. Inr (OutStr (pre @ piece_text phase p @ w), s))"
    using Cons.IH [of "pre @ piece_text phase p"] Cons.prems by simp
  have tx: "template_text phase (p # ps) = piece_text phase p @ template_text phase ps"
    by (simp add: template_text_def)
  show ?case
  proof (cases p)
    case (Lit t)
    then show ?thesis using IH unfolding tx
      by (cases "template_value variables build_file ps") (simp_all add: piece_value_def piece_text_def)
  next
    case (Ref x)
    let ?m = "\<lparr>vm_start = length pre, vm_type = [], vm_command_string = None, vm_is_array = []\<rparr> :: var_match"
    have x: "plain_name phase x" "case map_of variables x of Some v \<Rightarrow> plain_hval v | None \<Rightarrow> True"
      using Cons.prems Ref by (auto simp: plain_piece_def split: option.splits)
    have "rev (template_matches phase (length pre) (p # ps))
        = rev (template_matches phase (length pre + length (piece_text phase p)) ps) @ [?m]"
      using Ref by simp
    then show ?thesis
      unfolding tx using IH expand_match_reference [OF x(1) n x(2)] Ref
      by (cases "template_value variables build_file ps") (simp_all add: hfold_append hbind_def ebind_assoc)
  qed
qed

lemma canonical_no_symbol:
  assumes "IsStrCanonicalInt (PStr s)"
  shows "expansion_symbol phase \<notin> set s"
proof -
  obtain i where s: "s = str_of_int i" using assms unfolding IsStrCanonicalInt_iff by auto
  have "expansion_symbol phase \<noteq> CHR ''-''" "\<not> is_digit (expansion_symbol phase)"
    by (cases phase; simp add: expansion_symbol_def is_digit_def)+
  moreover have "c = CHR ''-'' \<or> is_digit c" if "c \<in> set s" for c
    using that isdigit_digits_of_nat unfolding s str_of_int_def
    by (auto simp: isdigit_def list_all_iff split: if_splits)
  ultimately show ?thesis by blast
qed

lemma template_value_closed:
  "\<forall>p\<in>set ps. plain_piece phase variables p \<Longrightarrow> template_value variables build_file ps = Inr w
    \<Longrightarrow> expansion_symbol phase \<notin> set w"
proof (induction ps arbitrary: w)
  case (Cons p ps)
  then show ?case
    by (cases p) (auto simp: piece_value_def plain_piece_def split: option.splits)
qed simp

lemma template_no_reference:
  "\<forall>p\<in>set ps. plain_piece phase variables p \<Longrightarrow> template_matches phase i ps = [] \<Longrightarrow>
    template_value variables build_file ps = Inr (template_text phase ps) \<and> expansion_symbol phase \<notin> set (template_text phase ps)"
proof (induction ps arbitrary: i)
  case (Cons p ps)
  then show ?case
    by (cases p) (auto simp: piece_value_def piece_text_def plain_piece_def template_text_def)
qed (simp add: template_text_def)

lemma template_reference:
  "template_matches phase i ps \<noteq> [] \<Longrightarrow> expansion_symbol phase \<in> set (template_text phase ps)"
proof (induction ps arbitrary: i)
  case (Cons p ps)
  then show ?case by (cases p) (auto simp: piece_text_def template_text_def)
qed simp



section \<open>Lists\<close>

definition list_reference :: "phase \<Rightarrow> string \<Rightarrow> string" where
  "list_reference phase x = expansion_symbol phase # ''@('' @ x @ '')''"

definition simple_item :: "phase \<Rightarrow> pyval \<Rightarrow> bool" where
  "simple_item phase t \<longleftrightarrow> (\<exists>w. t = PStr w \<and> expansion_symbol phase \<notin> set w) \<or> (\<exists>i. t = PInt i)"

lemma canonical_int: "canonical (HStr (str_of_int i)) = HInt i"
proof -
  have "IsStrCanonicalInt (PStr (str_of_int i))" unfolding IsStrCanonicalInt_iff by blast
  then show ?thesis by (simp add: canonical_def)
qed

lemma expand_simple_item:
  assumes "tree k (es_heap s) y = Some t" and "simple_item phase t" and "0 < n"
  shows "op_expand (expansion_ops c n) phase variables build_file y s = Inr (canonical y, s)"
proof -
  consider (str) w where "y = HStr w" "expansion_symbol phase \<notin> set w" | (int) i where "y = HInt i"
    using assms(1,2) by (auto simp: simple_item_def)
  then show ?thesis
  proof cases
    case str
    then show ?thesis using expand_closed_string assms(3) by simp
  next
    case int
    have "IsStrCanonicalInt (PStr (str_of_int i))" unfolding IsStrCanonicalInt_iff by blast
    then show ?thesis using int plain_hval_str [of "HInt i" s] assms(3) canonical_int [of i]
      by (cases n) (simp_all add: Let_def ExpandVariables_body_def hbind_def hret_def)
  qed
qed

lemma hmap_pure: "(\<And>x. x \<in> set xs \<Longrightarrow> f x s = Inr (g x, s)) \<Longrightarrow> hmap f xs s = Inr (map g xs, s)"
  by (induction xs) (simp_all add: hbind_def hret_def)

lemma simple_canon: "tcanon t u \<Longrightarrow> simple_item phase t \<Longrightarrow> simple_item phase u"
  by (erule tcanon.cases) (auto simp: simple_item_def)

lemma canonical_done_same: "with_ints (PStr w) = PStr w \<Longrightarrow> canonical (HStr w) = HStr w"
  using canonical_cases [of w] by auto

lemma match_list_reference:
  assumes "plain_name phase x"
  shows "finditer (expansion_symbol phase) 0 (list_reference phase x)
    = [\<lparr>vm_start = 0, vm_type = ''@'', vm_command_string = None, vm_is_array = []\<rparr>]"
  using match_reference [OF assms, of "''@''" 0 "[]"] by (simp add: list_reference_def)

text \<open>The values: the list is expanded in place, and then its items are copied.\<close>

lemma expand_match_list:
  assumes x: "plain_name phase x" and n: "0 < n" and v: "map_of variables x = Some v"
    and run: "process_value (expansion_ops c n) phase variables build_file x v s = Inr ((), s1)"
    and items: "list_at (es_heap s1) v = Some ys"
  shows "expand_match c (expansion_ops c n) phase variables build_file (OutStr (list_reference phase x))
      \<lparr>vm_start = 0, vm_type = ''@'', vm_command_string = None, vm_is_array = []\<rparr> s = Inr (OutList ys, s1)"
proof -
  let ?inp = "list_reference phase x"
  have group: "FindEnclosingBracketGroup ?inp = (2, int (length x) + 4)"
    using group_reference [OF x, of "''@''" "[]"] by (simp add: list_reference_def)
  have l: "length ?inp = length x + 4" by (simp add: list_reference_def)
  have whole: "py_slice 0 (int (length x) + 4) ?inp = ?inp"
    using py_slice_nat [of 0 "length x + 4" ?inp] l by simp
  have "py_slice (int 3) (int (length x + 3)) ?inp = x"
    by (subst py_slice_nat) (simp_all add: list_reference_def numeral_3_eq_3)
  then have contents: "py_slice 3 (3 + int (length x)) ?inp = x" by (simp add: add.commute)
  have tx: "reference_contents c (expansion_ops c n) phase variables build_file False x s = Inr (x, s)"
    using plain_name_expand [OF x n] plain_name_strip [OF x] by (simp add: reference_contents_def hbind_def hret_def)
  have "list_value v s1 = Inr (ys, s1)" using items by (simp add: list_value_def hstate_bind hret_def)
  moreover have "variable_value variables build_file x s = Inr (v, s)" using v by (simp add: variable_value_def hret_def)
  ultimately show ?thesis
    using group whole contents run tx
    by (simp add: expand_match_def Let_def reference_value_def hbind_def hret_def)
qed



end
