(* ===== verification/WinQuoting.thy ===== *)
theory WinQuoting
  imports Common
begin

text \<open>
  The command lines of \<open>gyp/msvs_emulation.py\<close>: quoting for the argument parser of Windows programs
  (\<open>QuoteForRspFile\<close>, \<open>EncodeRspFileList\<close>) and for a Cygwin shell started by it
  (\<open>BuildCygwinBashCommandLine\<close>), with readers of both. \<open>os.path.normpath\<close> and \<open>os.path.join\<close> are
  those of Windows and are arguments.
\<close>

section \<open>Quoting\<close>

abbreviation backslash :: char where "backslash \<equiv> CHR 0x5C"
abbreviation dquote :: char where "dquote \<equiv> CHR 0x22"
abbreviation squote :: char where "squote \<equiv> CHR 0x27"

text \<open>
  \<open>windows_quoter_regex.sub\<close>: a quote and the \<open>n\<close> backslashes before it become twice the backslashes,
  one more, and the quote.
\<close>

fun double_backslashes :: "nat \<Rightarrow> string \<Rightarrow> string" where
  "double_backslashes n [] = replicate n backslash"
| "double_backslashes n (c # cs) =
     (if c = backslash then double_backslashes (Suc n) cs
      else if c = dquote then replicate (2 * n) backslash @ [backslash, dquote] @ double_backslashes 0 cs
      else replicate n backslash @ c # double_backslashes 0 cs)"

definition QuoteForRspFile :: "string \<Rightarrow> string" where
  "QuoteForRspFile arg =
     (let arg = double_backslashes 0 arg; arg = py_replace ''%'' ''%%'' arg in [dquote] @ arg @ [dquote])"

definition EncodeRspFileList :: "(string \<Rightarrow> string) \<Rightarrow> string list \<Rightarrow> string res" where
  "EncodeRspFileList nt_norm args =
     (case args of
        [] \<Rightarrow> Inr []
      | arg0 # rest \<Rightarrow>
          let program =
            (if starts_with arg0 ''call ''
             then (case split1 (CHR '' '') arg0 of
                     Some (call, program) \<Rightarrow> call @ '' '' @ nt_norm program | None \<Rightarrow> [])
             else nt_norm arg0) in
          Inr (program @ '' '' @ join_with '' '' (map QuoteForRspFile rest)))"

definition bash_quote :: "string \<Rightarrow> string" where
  "bash_quote a =
     (let a = py_replace [dquote] [backslash, dquote] (py_replace [backslash] ''/'' a) in
      [squote] @ py_replace [squote] [squote, backslash, squote, squote] a @ [squote])"

definition bash_script :: "string list \<Rightarrow> string \<Rightarrow> string" where
  "bash_script args path_to_base =
     (let cd = py_replace [backslash] ''/'' (''cd '' @ path_to_base) in
      cd @ '' ; '' @ join_with '' '' (map bash_quote args))"

definition BuildCygwinBashCommandLine ::
  "(string \<Rightarrow> string) \<Rightarrow> (string \<Rightarrow> string \<Rightarrow> string) \<Rightarrow> string list \<Rightarrow> string list \<Rightarrow> string \<Rightarrow> string res" where
  "BuildCygwinBashCommandLine nt_norm nt_join msvs_cygwin_dirs args path_to_base =
     (case msvs_cygwin_dirs of
        [] \<Rightarrow> Inl IndexErr
      | dir0 # _ \<Rightarrow>
          let cygwin_dir = nt_norm (nt_join path_to_base dir0) in
          Inr (''call '' @ [dquote] @ cygwin_dir @ [backslash] @ ''setup_env.bat'' @ [dquote]
               @ '' && set CYGWIN=nontsec && '' @ ''bash -c '' @ [dquote] @ bash_script args path_to_base @ [dquote]))"

section \<open>The reader of Windows programs\<close>

text \<open>
  \<open>CommandLineToArgvW\<close>: \<open>q\<close> tells whether quotes are open, \<open>n\<close> counts the backslashes just read, \<open>w\<close> is
  the argument so far. Backslashes count in pairs only before a quote; a quote after an odd number of
  them is literal. (The rule for two quotes inside quotes is left out: the code writes no such pair.)
\<close>

definition read_more :: "string option \<Rightarrow> string \<Rightarrow> string option" where
  "read_more w s = (if s = [] then w else Some (word_of w @ s))"

fun win_args :: "bool \<Rightarrow> nat \<Rightarrow> string option \<Rightarrow> string \<Rightarrow> string list" where
  "win_args q n w [] = (case read_more w (replicate n backslash) of None \<Rightarrow> [] | Some u \<Rightarrow> [u])"
| "win_args q n w (c # cs) =
     (if c = backslash then win_args q (Suc n) w cs
      else if c = dquote then
        (if even n then win_args (\<not> q) 0 (Some (word_of w @ replicate (n div 2) backslash)) cs
         else win_args q 0 (Some (word_of w @ replicate (n div 2) backslash @ [dquote])) cs)
      else if (c = CHR '' '' \<or> c = CHR 0x09) \<and> \<not> q then
        (case read_more w (replicate n backslash) of None \<Rightarrow> [] | Some u \<Rightarrow> [u]) @ win_args q 0 None cs
      else win_args q 0 (Some (word_of w @ replicate n backslash @ [c])) cs)"

definition win_argv :: "string \<Rightarrow> string list" where
  "win_argv s = win_args False 0 None s"

text \<open>In a batch file two percent signs stand for one.\<close>

definition batch_line :: "string \<Rightarrow> string" where
  "batch_line s = py_replace ''%%'' ''%'' s"

definition percents :: "string \<Rightarrow> string" where
  "percents s = concat (map (\<lambda>c. if c = CHR ''%'' then ''%%'' else [c]) s)"

lemma batch_line_percents: "batch_line (percents s) = s"
  by (induction s) (auto simp: batch_line_def percents_def starts_with_def)

lemma win_args_slashes: "win_args q n w (replicate m backslash @ s) = win_args q (n + m) w s"
  by (induction m arbitrary: n) simp_all

text \<open>The backslashes at the end of an argument, and what is before them.\<close>

definition trail :: "string \<Rightarrow> nat" where
  "trail s = length (takeWhile (\<lambda>c. c = backslash) (rev s))"

definition body :: "string \<Rightarrow> string" where
  "body s = rev (dropWhile (\<lambda>c. c = backslash) (rev s))"

lemma body_trail: "body s @ replicate (trail s) backslash = s"
proof -
  have "takeWhile (\<lambda>c. c = backslash) t = replicate (length (takeWhile (\<lambda>c. c = backslash) t)) backslash" for t
    by (induction t) auto
  then have "rev s = replicate (trail s) backslash @ rev (body s)"
    unfolding trail_def body_def by (metis rev_rev_ident takeWhile_dropWhile_id)
  then show ?thesis by (metis rev_append rev_replicate rev_rev_ident)
qed

lemma trail_slashes [simp]: "trail (replicate n backslash) = n" "body (replicate n backslash) = []"
  by (simp_all add: trail_def body_def takeWhile_replicate dropWhile_replicate)

lemma trail_past [simp]:
  assumes "c \<noteq> backslash"
  shows "trail (s @ c # t) = trail t" and "body (s @ c # t) = s @ c # body t"
    and "trail (c # t) = trail t" and "body (c # t) = c # body t"
proof -
  have "takeWhile (\<lambda>c. c = backslash) (xs @ c # r) = takeWhile (\<lambda>c. c = backslash) xs"
    and "dropWhile (\<lambda>c. c = backslash) (xs @ c # r) = dropWhile (\<lambda>c. c = backslash) xs @ c # r" for xs r
    using assms by (induction xs) simp_all
  then show "trail (s @ c # t) = trail t" "body (s @ c # t) = s @ c # body t"
      "trail (c # t) = trail t" "body (c # t) = c # body t"
    by (simp_all add: trail_def body_def)
qed

lemma trail_0: "trail a = 0 \<longleftrightarrow> a = [] \<or> last a \<noteq> backslash"
  by (cases a rule: rev_cases) (simp_all add: trail_def)

lemma win_args_double:
  "win_args True 0 (Some u) (double_backslashes n arg @ s)
   = win_args True (trail (replicate n backslash @ arg)) (Some (u @ body (replicate n backslash @ arg))) s"
proof (induction arg arbitrary: n u)
  case Nil
  then show ?case by (simp add: win_args_slashes)
next
  case (Cons c cs)
  consider (slash) "c = backslash" | (quote) "c = dquote" | (other) "c \<noteq> backslash" "c \<noteq> dquote" by blast
  then show ?case
  proof cases
    case slash
    then show ?thesis using Cons.IH [where n = "Suc n"] by (simp add: replicate_app_Cons_same)
  next
    case quote
    have "odd (Suc (2 * n))" "Suc (2 * n) div 2 = n" by simp_all
    then show ?thesis
      using Cons.IH [where n = 0] quote
      by (simp add: word_of_def win_args_slashes)
  next
    case other
    then show ?thesis
      using Cons.IH [where n = 0] by (simp add: word_of_def win_args_slashes)
  qed
qed

lemma percents_append [simp]: "percents (s @ t) = percents s @ percents t"
  by (simp add: percents_def)

lemma percents_empty [simp]: "percents [] = []"
  by (simp add: percents_def)

lemma percents_Cons [simp]: "c \<noteq> CHR ''%'' \<Longrightarrow> percents (c # s) = c # percents s"
  by (simp add: percents_def)

lemma percents_id: "CHR ''%'' \<notin> set s \<Longrightarrow> percents s = s"
  by (induction s) (auto simp: percents_def)

lemma percents_join: "CHR ''%'' \<notin> set sep \<Longrightarrow> percents (join_with sep ps) = join_with sep (map percents ps)"
  by (induction sep ps rule: join_with.induct) (simp_all add: percents_id)

definition win_quoted :: "string \<Rightarrow> string" where
  "win_quoted a = dquote # double_backslashes 0 a @ [dquote]"

lemma QuoteForRspFile_percents: "QuoteForRspFile a = percents (win_quoted a)"
  by (simp add: QuoteForRspFile_def win_quoted_def py_replace_char percents_def)

lemma join_QuoteForRspFile:
  "join_with '' '' (map QuoteForRspFile args) = percents (join_with '' '' (map win_quoted args))"
proof -
  have "map QuoteForRspFile args = map percents (map win_quoted args)"
    by (simp add: QuoteForRspFile_percents)
  moreover have "join_with '' '' (map percents (map win_quoted args)) = percents (join_with '' '' (map win_quoted args))"
    by (subst percents_join) simp_all
  ultimately show ?thesis by metis
qed

lemma batch_line_quoted: "batch_line (join_with '' '' (map QuoteForRspFile args)) = join_with '' '' (map win_quoted args)"
  by (simp only: join_QuoteForRspFile batch_line_percents)

lemma win_args_quoted:
  "win_args False 0 None (win_quoted a @ rest) = win_args True (trail a) (Some (body a)) (dquote # rest)"
  by (simp add: win_quoted_def win_args_double word_of_def)

lemma win_args_quoted_plain:
  assumes "a = [] \<or> last a \<noteq> backslash"
  shows "win_args False 0 None (win_quoted a @ rest) = win_args False 0 (Some a) rest"
proof -
  have "trail a = 0" using assms by (simp add: trail_0)
  moreover from this have "body a = a" using body_trail [of a] by simp
  ultimately show ?thesis unfolding win_args_quoted by (simp add: word_of_def)
qed

lemma win_args_join:
  assumes "\<forall>a\<in>set args. a = [] \<or> last a \<noteq> backslash"
  shows "win_args False 0 None (join_with '' '' (map win_quoted args)) = args"
  using assms
proof (induction args rule: induct_list012)
  case (3 a b args)
  have "win_args False 0 None (win_quoted a @ '' '' @ s) = a # win_args False 0 None s" for s
    using win_args_quoted_plain [of a "'' '' @ s"] 3(3) by (simp add: read_more_def)
  then show ?case using 3 by simp
qed (use win_args_quoted_plain [of _ "[]"] in \<open>auto simp: read_more_def\<close>)

text \<open>
  C0: what \<open>EncodeRspFileList\<close> writes is read back by a Windows program as the normalized program and the
  arguments, provided no argument ends in a backslash.
\<close>

definition plain_program :: "string \<Rightarrow> bool" where
  "plain_program p \<longleftrightarrow> p \<noteq> [] \<and> (\<forall>c\<in>set p. c \<notin> {CHR '' '', CHR 0x09, dquote, CHR ''%''})"

lemma win_args_plain:
  assumes "\<forall>c\<in>set p. c \<notin> {CHR '' '', CHR 0x09, dquote, CHR ''%''}" and "n = 0 \<longrightarrow> p \<noteq> [] \<or> w \<noteq> None"
  shows "win_args False n w (p @ CHR '' '' # rest)
    = (word_of w @ replicate n backslash @ p) # win_args False 0 None rest"
  using assms
proof (induction p arbitrary: n w)
  case Nil
  then show ?case by (cases w) (auto simp: read_more_def word_of_def)
next
  case (Cons c cs)
  then show ?case by (auto simp: replicate_app_Cons_same word_of_def)
qed



text \<open>
  One quoted argument is read back as something else exactly when it ends in a backslash: the
  backslashes before the closing quote are not doubled.
\<close>

theorem QuoteForRspFile_reads_back:
  "win_argv (batch_line (QuoteForRspFile a)) \<noteq> [a] \<longleftrightarrow> a \<noteq> [] \<and> last a = backslash"
proof -
  let ?b = "body a @ replicate (trail a div 2) backslash"
  have "win_argv (batch_line (QuoteForRspFile a)) = win_args True (trail a) (Some (body a)) [dquote]"
    using batch_line_quoted [of "[a]"] win_args_quoted [of a "[]"] by (simp add: win_argv_def)
  also have "\<dots> = [if even (trail a) then ?b else ?b @ [dquote]]" by (simp add: word_of_def read_more_def)
  finally have read: "win_argv (batch_line (QuoteForRspFile a)) = [a]
      \<longleftrightarrow> (if even (trail a) then ?b else ?b @ [dquote]) = body a @ replicate (trail a) backslash"
    using body_trail [of a] by simp
  have odd: "xs @ [dquote] \<noteq> ys @ replicate k backslash" if "odd k" for xs ys k
    using that by (cases k) (auto simp: replicate_append_same [symmetric])
  have "trail a div 2 = trail a \<longleftrightarrow> trail a = 0" by presburger
  moreover have "\<not> (a \<noteq> [] \<and> last a = backslash) \<longleftrightarrow> trail a = 0" using trail_0 [of a] by auto
  ultimately show ?thesis
    unfolding read using odd [of "trail a" "replicate (trail a div 2) backslash" "[]"]
      odd [of "trail a" _ "body a"] by auto
qed


section \<open>The Cygwin shell\<close>

text \<open>
  The words a POSIX shell makes of a command line, for the quoting the code uses: \<open>q\<close> tells whether
  single quotes are open, \<open>w\<close> is the word so far.
\<close>

fun bash_words :: "bool \<Rightarrow> string option \<Rightarrow> string \<Rightarrow> string list" where
  "bash_words q w [] = (case w of None \<Rightarrow> [] | Some u \<Rightarrow> [u])"
| "bash_words True w (c # cs) =
     (if c = squote then bash_words False w cs else bash_words True (Some (word_of w @ [c])) cs)"
| "bash_words False w (c # cs) =
     (if c = squote then bash_words True (Some (word_of w)) cs
      else if c = backslash then
        (case cs of [] \<Rightarrow> [word_of w @ [c]] | d # ds \<Rightarrow> bash_words False (Some (word_of w @ [d])) ds)
      else if c = CHR '' '' then (case w of None \<Rightarrow> [] | Some u \<Rightarrow> [u]) @ bash_words False None cs
      else bash_words False (Some (word_of w @ [c])) cs)"

definition slashes :: "string \<Rightarrow> string" where
  "slashes s = map (\<lambda>c. if c = backslash then CHR ''/'' else c) s"

text \<open>The command line \<open>bash -c\<close> gets, and what the shell then reads.\<close>

definition single_quoted :: "string \<Rightarrow> string" where
  "single_quoted s =
     [squote] @ concat (map (\<lambda>c. if c = squote then [squote, backslash, squote, squote] else [c]) s) @ [squote]"

definition bash_char :: "char \<Rightarrow> string" where
  "bash_char c =
     (if c = dquote then [backslash, dquote]
      else if c = squote then [squote, backslash, squote, squote] else [c])"

lemma slashes_replace: "py_replace [backslash] ''/'' s = slashes s"
  unfolding slashes_def py_replace_char by (induction s) simp_all

lemma slashes_no_backslash [simp]: "backslash \<notin> set (slashes s)"
  by (auto simp: slashes_def)

lemma bash_quote_char: "bash_quote a = [squote] @ concat (map bash_char (slashes a)) @ [squote]"
proof -
  have "py_replace [squote] [squote, backslash, squote, squote] (py_replace [dquote] [backslash, dquote] s)
      = concat (map bash_char s)" for s
    unfolding py_replace_char by (induction s) (simp_all add: bash_char_def)
  then show ?thesis by (simp add: bash_quote_def slashes_replace)
qed

lemma win_args_bash_quote:
  "win_args True 0 (Some u) (bash_quote a @ s) = win_args True 0 (Some (u @ single_quoted (slashes a))) s"
proof -
  have "backslash \<notin> set b \<Longrightarrow> win_args True 0 (Some u) (concat (map bash_char b) @ s)
      = win_args True 0 (Some (u @ concat (map (\<lambda>c. if c = squote then [squote, backslash, squote, squote] else [c]) b))) s"
    for b u s
    by (induction b arbitrary: u) (auto simp: bash_char_def word_of_def)
  from this [of "slashes a" "u @ [squote]" "[squote] @ s"] show ?thesis
    by (simp add: bash_quote_char single_quoted_def word_of_def)
qed

lemma bash_words_single_quoted:
  "bash_words False w (single_quoted b @ s) = bash_words False (Some (word_of w @ b)) s"
proof -
  have "bash_words True (Some u) (concat (map (\<lambda>c. if c = squote then [squote, backslash, squote, squote] else [c]) b) @ t)
      = bash_words True (Some (u @ b)) t" for u t
    by (induction b arbitrary: u) (auto simp: word_of_def)
  from this [of "word_of w" "squote # s"] show ?thesis by (simp add: single_quoted_def)
qed

lemma bash_words_join:
  "bash_words False None (join_with '' '' (map single_quoted bs)) = bs"
proof (induction bs rule: induct_list012)
  case (3 a b bs)
  have "bash_words False None (single_quoted a @ '' '' @ s) = a # bash_words False None s" for s
    using bash_words_single_quoted [of None a "'' '' @ s"] by (simp add: word_of_def)
  then show ?case using 3 by simp
qed (use bash_words_single_quoted [of None _ "[]"] in \<open>auto simp: word_of_def\<close>)

lemma win_args_bash_join:
  "win_args True 0 (Some u) (join_with '' '' (map bash_quote args) @ s)
   = win_args True 0 (Some (u @ join_with '' '' (map (\<lambda>a. single_quoted (slashes a)) args))) s"
proof (induction args arbitrary: u rule: induct_list012)
  case (3 a b args)
  then show ?case
    using win_args_bash_quote [of u a "'' '' @ join_with '' '' (map bash_quote (b # args)) @ s"]
    by (simp add: word_of_def)
qed (simp_all add: win_args_bash_quote)

definition plain_path :: "string \<Rightarrow> bool" where
  "plain_path p \<longleftrightarrow> p \<noteq> [] \<and> (\<forall>c\<in>set p. c \<notin> {CHR '' '', dquote, squote})"

text \<open>
  A Windows program started with the \<open>bash -c\<close> part of a Cygwin command line gets one script, and the
  shell reads it as a change into the base directory and then the command with its arguments, their
  backslashes as slashes.
\<close>

theorem bash_script_roundtrip:
  assumes "plain_path base"
  shows "map (bash_words False None) (win_argv (''bash -c '' @ [dquote] @ bash_script args base @ [dquote]))
    = [[''bash''], [''-c''], [''cd'', slashes base, '';''] @ map slashes args]"
proof -
  let ?script = "''cd '' @ slashes base @ '' ; '' @ join_with '' '' (map (\<lambda>a. single_quoted (slashes a)) args)"
  have plain: "c \<in> set (slashes base) \<Longrightarrow> c \<notin> {CHR '' '', dquote, squote, backslash}" for c
    using assms by (auto simp: plain_path_def slashes_def)
  have run: "win_args True 0 (Some u) (p @ s) = win_args True 0 (Some (u @ p)) s"
    if "\<And>c. c \<in> set p \<Longrightarrow> c \<notin> {dquote, backslash}" for p u s
    using that by (induction p arbitrary: u) (auto simp: word_of_def)
  have words: "bash_words False (Some u) (p @ s) = bash_words False (Some (u @ p)) s"
    if "\<And>c. c \<in> set p \<Longrightarrow> c \<notin> {CHR '' '', squote, backslash}" for p u s
    using that by (induction p arbitrary: u) (auto simp: word_of_def)
  have "bash_script args base = (''cd '' @ slashes base) @ '' ; '' @ join_with '' '' (map bash_quote args)"
    unfolding bash_script_def slashes_replace Let_def by (simp add: slashes_def)
  then have "win_argv (''bash -c '' @ [dquote] @ bash_script args base @ [dquote]) = [''bash'', ''-c'', ?script]"
    using run [of "slashes base" "''cd ''"] win_args_bash_join [of "''cd '' @ slashes base @ '' ; ''" args "[dquote]"] plain
    by (auto simp: win_argv_def word_of_def read_more_def)
  moreover have "bash_words False None ?script = [''cd'', slashes base, '';''] @ map slashes args"
  proof -
    obtain c cs where b: "slashes base = c # cs" using assms by (cases base) (auto simp: plain_path_def slashes_def)
    then show ?thesis
      using words [of cs "[c]"] plain bash_words_join [of "map slashes args"] by (auto simp: word_of_def comp_def)
  qed
  ultimately show ?thesis by (simp add: word_of_def)
qed


lemma bash_script_roundtrip_witness:
  "map (bash_words False None)
     (win_argv (''bash -c '' @ [dquote] @ bash_script [''it'' @ [squote] @ ''s'', ''a'' @ [backslash] @ ''b''] ''x'' @ [dquote]))
   = [[''bash''], [''-c''], [''cd'', ''x'', '';'', ''it'' @ [squote] @ ''s'', ''a/b'']]"
  using bash_script_roundtrip [of "''x''" "[''it'' @ [squote] @ ''s'', ''a'' @ [backslash] @ ''b'']"]
  by (simp add: plain_path_def slashes_def)

end
