(* ===== verification/LoadFiles.thy ===== *)
theory LoadFiles
  imports LoadHelpers GraphHelpers Expansion
begin

text \<open>
  Loading a build file in \<open>gyp/input.py\<close>: \<open>LoadOneBuildFile\<close> reads a file and merges the files it
  includes, at any depth of its value; \<open>LoadTargetBuildFile\<close> prepares the targets of a file and loads
  the files its targets depend on. The value of a file is a dictionary object: a file that is included
  while it is itself being loaded is seen as far as it has been built.
\<close>

section \<open>Surroundings and state\<close>

text \<open>
  What stands outside: the expansion's surroundings, the file system, the working directory, the parser and
  the evaluator of Python, which exceptions are a \<open>SyntaxError\<close>; and the arguments that every call passes on.
\<close>

record load_ctx =
  lc_expand :: expand_ctx
  lc_read :: "string \<Rightarrow> string option"
  lc_cwd :: string
  lc_parse :: "string \<Rightarrow> (string option \<times> stmt list) res"
  lc_eval :: "string \<Rightarrow> pyval res"
  lc_syntax_error :: "pyerr \<Rightarrow> bool"
  lc_multiple_toolsets :: bool
  lc_includes :: "string list"
  lc_depth :: "string option"
  lc_check :: bool

text \<open>
  The dictionaries \<open>data\<close> (with the set \<open>target_build_files\<close> as a field of its own), \<open>aux_data\<close> and
  \<open>variables\<close>, which the calls share and change.
\<close>

record load_state =
  ls_es :: estate
  ls_data :: "(string \<times> hval) list"
  ls_aux :: "(string \<times> pydict) list"
  ls_targets :: "string list"
  ls_variables :: vars

type_synonym 'a lcomp = "load_state \<Rightarrow> ('a \<times> load_state) res"

section \<open>Computations\<close>

definition lret :: "'a \<Rightarrow> 'a lcomp" where
  "lret x s = Inr (x, s)"

definition lbind :: "'a lcomp \<Rightarrow> ('a \<Rightarrow> 'b lcomp) \<Rightarrow> 'b lcomp" where
  "lbind m f s = ebind (m s) (\<lambda>p. f (fst p) (snd p))"

abbreviation lseq :: "'a lcomp \<Rightarrow> 'b lcomp \<Rightarrow> 'b lcomp" where
  "lseq m n \<equiv> lbind m (\<lambda>_. n)"

definition llift :: "'a res \<Rightarrow> 'a lcomp" where
  "llift r s = ebind r (\<lambda>x. Inr (x, s))"

definition lstate :: "(load_state \<Rightarrow> 'a) \<Rightarrow> 'a lcomp" where
  "lstate f s = Inr (f s, s)"

definition lupdate :: "(load_state \<Rightarrow> load_state) \<Rightarrow> unit lcomp" where
  "lupdate f s = Inr ((), f s)"

definition heap_op :: "'a hcomp \<Rightarrow> 'a lcomp" where
  "heap_op m s = ebind (m (ls_es s)) (\<lambda>p. Inr (fst p, s\<lparr>ls_es := snd p\<rparr>))"

text \<open>\<open>try: ... except Exception\<close> that changes the exception and raises it again.\<close>

definition lcatch :: "(pyerr \<Rightarrow> pyerr) \<Rightarrow> 'a lcomp \<Rightarrow> 'a lcomp" where
  "lcatch f m s = (case m s of Inl e \<Rightarrow> Inl (f e) | Inr r \<Rightarrow> Inr r)"

fun liter :: "('a \<Rightarrow> unit lcomp) \<Rightarrow> 'a list \<Rightarrow> unit lcomp" where
  "liter f [] = lret ()"
| "liter f (x # xs) = lseq (f x) (liter f xs)"

text \<open>
  \<open>ExceptionAppend\<close>: the message grows. An exception without a message in the model stays as it is;
  \<open>SystemExit\<close> is not an \<open>Exception\<close>.
\<close>

definition ExceptionAppend :: "pyerr \<Rightarrow> string \<Rightarrow> pyerr" where
  "ExceptionAppend e msg =
     (case e of
        GypErr m \<Rightarrow> GypErr (m @ '' '' @ msg)
      | ValueErr m \<Rightarrow> ValueErr (m @ '' '' @ msg)
      | KeyErr m \<Rightarrow> KeyErr (m @ '' '' @ msg)
      | NameErr m \<Rightarrow> NameErr (m @ '' '' @ msg)
      | PlainExc m \<Rightarrow> PlainExc (m @ '' '' @ msg)
      | _ \<Rightarrow> e)"

section \<open>One build file\<close>

text \<open>The functions a step may call, and the merge of an included file.\<close>

record load_ops =
  lo_file :: "string \<Rightarrow> string list \<Rightarrow> bool \<Rightarrow> hval lcomp"
  lo_dict :: "hval \<Rightarrow> string \<Rightarrow> string list \<Rightarrow> unit lcomp"
  lo_list :: "hval \<Rightarrow> string \<Rightarrow> unit lcomp"

definition file_merge :: "load_ctx \<Rightarrow> string \<Rightarrow> string \<Rightarrow> merge_ctx" where
  "file_merge c to_file fro_file =
     \<lparr>mc_realpath = ec_realpath (lc_expand c), mc_path_sections = ec_path_sections (lc_expand c),
      mc_to_file = Some to_file, mc_fro_file = Some fro_file\<rparr>"

definition read_build_file :: "load_ctx \<Rightarrow> string \<Rightarrow> pydict res" where
  "read_build_file c build_file_path =
     (case lc_read c build_file_path of
        None \<Rightarrow> Inl (GypErr (build_file_path @ '' not found (cwd: '' @ lc_cwd c @ '')''))
      | Some build_file_contents \<Rightarrow>
          (case (if lc_check c then CheckedEval (lc_parse c) build_file_contents
                 else lc_eval c build_file_contents) of
             Inl e \<Rightarrow> Inl (if lc_syntax_error c e then e else ExceptionAppend e (''while reading '' @ build_file_path))
           | Inr (PDict build_file_data) \<Rightarrow> Inr build_file_data
           | Inr _ \<Rightarrow> Inl (GypErr (build_file_path @ '' does not evaluate to a dictionary.''))))"

definition enter_file :: "string \<Rightarrow> hval \<Rightarrow> load_state \<Rightarrow> load_state" where
  "enter_file build_file_path r s =
     s\<lparr>ls_data := AList.update build_file_path r (ls_data s), ls_aux := AList.update build_file_path [] (ls_aux s)\<rparr>"

definition LoadOneBuildFile_body :: "load_ctx \<Rightarrow> load_ops \<Rightarrow> string \<Rightarrow> string list \<Rightarrow> bool \<Rightarrow> hval lcomp" where
  "LoadOneBuildFile_body c ops build_file_path includes is_target =
     lbind (lstate ls_data) (\<lambda>data.
       case map_of data build_file_path of
         Some r \<Rightarrow> lret r
       | None \<Rightarrow>
           lbind (llift (read_build_file c build_file_path)) (\<lambda>build_file_data.
           lbind (heap_op (hbuild (PDict build_file_data))) (\<lambda>r.
           lseq (lupdate (enter_file build_file_path r))
           (lseq (if truth (dget_or build_file_data ''skip_includes'' PNone) then lret ()
                  else lcatch (\<lambda>e. ExceptionAppend e (''while reading includes of '' @ build_file_path))
                    (lo_dict ops r build_file_path (if is_target then includes else [])))
           (lret r)))))"

section \<open>The files it includes\<close>

definition relative_include :: "string \<Rightarrow> hval \<Rightarrow> string res" where
  "relative_include subdict_path include =
     (case include of HStr i \<Rightarrow> Inr (normpath (path_join (dirname subdict_path) i)) | _ \<Rightarrow> Inl TypeErr)"

text \<open>The \<open>includes\<close> of a dictionary, which lose their key.\<close>

definition take_includes :: "hval \<Rightarrow> string \<Rightarrow> string list lcomp" where
  "take_includes subdict subdict_path =
     lbind (heap_op (hdict subdict)) (\<lambda>m.
       case map_of m ''includes'' of
         None \<Rightarrow> lret []
       | Some v \<Rightarrow>
           lbind (heap_op (hitems v)) (\<lambda>xs.
           lbind (llift (emap (relative_include subdict_path) xs)) (\<lambda>includes_list.
           lseq (heap_op (dict_del subdict ''includes'')) (lret includes_list))))"

definition note_include :: "string \<Rightarrow> string \<Rightarrow> (string \<times> pydict) list \<Rightarrow> (string \<times> pydict) list res" where
  "note_include subdict_path include aux_data =
     (case map_of aux_data subdict_path of
        None \<Rightarrow> Inl (KeyErr subdict_path)
      | Some d \<Rightarrow>
          ebind (as_list (dget_or d ''included'' (PList []))) (\<lambda>xs.
            Inr (AList.update subdict_path (dset ''included'' (PList (xs @ [PStr include])) d) aux_data)))"

definition include_file :: "load_ctx \<Rightarrow> load_ops \<Rightarrow> hval \<Rightarrow> string \<Rightarrow> string \<Rightarrow> unit lcomp" where
  "include_file c ops subdict subdict_path include =
     lbind (lstate ls_aux) (\<lambda>aux_data.
     lbind (llift (note_include subdict_path include aux_data)) (\<lambda>aux_data'.
     lseq (lupdate (\<lambda>s. s\<lparr>ls_aux := aux_data'\<rparr>))
     (lbind (lo_file ops include [] False) (\<lambda>fro.
      lbind (heap_op (htree fro)) (\<lambda>t.
      lbind (llift (as_dict t)) (\<lambda>d.
        heap_op (hmerge_dicts (file_merge c subdict_path include) subdict d)))))))"

definition includes_below :: "load_ops \<Rightarrow> string \<Rightarrow> hval \<Rightarrow> unit lcomp" where
  "includes_below ops path v =
     lbind (lstate (\<lambda>s. heap_at (es_heap (ls_es s)) v)) (\<lambda>ob.
       case ob of
         Some (ODict _) \<Rightarrow> lo_dict ops v path []
       | Some (OList _) \<Rightarrow> lo_list ops v path
       | None \<Rightarrow> lret ())"

definition LoadBuildFileIncludesIntoDict_body ::
  "load_ctx \<Rightarrow> load_ops \<Rightarrow> hval \<Rightarrow> string \<Rightarrow> string list \<Rightarrow> unit lcomp" where
  "LoadBuildFileIncludesIntoDict_body c ops subdict subdict_path includes =
     lbind (take_includes subdict subdict_path) (\<lambda>own.
     lseq (liter (include_file c ops subdict subdict_path) (includes @ own))
     (lbind (heap_op (hdict subdict)) (\<lambda>m. liter (includes_below ops subdict_path) (map snd m))))"

definition LoadBuildFileIncludesIntoList_body :: "load_ops \<Rightarrow> hval \<Rightarrow> string \<Rightarrow> unit lcomp" where
  "LoadBuildFileIncludesIntoList_body ops the_list the_list_path =
     lbind (heap_op (hlist the_list)) (\<lambda>xs. liter (includes_below ops the_list_path) xs)"

fun loading_ops :: "load_ctx \<Rightarrow> nat \<Rightarrow> load_ops" where
  "loading_ops c 0 =
     \<lparr>lo_file = \<lambda>_ _ _. llift (Inl NoReturn), lo_dict = \<lambda>_ _ _. llift (Inl NoReturn), lo_list = \<lambda>_ _. llift (Inl NoReturn)\<rparr>"
| "loading_ops c (Suc n) =
     (let ops = loading_ops c n in
      \<lparr>lo_file = LoadOneBuildFile_body c ops, lo_dict = LoadBuildFileIncludesIntoDict_body c ops,
       lo_list = LoadBuildFileIncludesIntoList_body ops\<rparr>)"

definition LoadOneBuildFile :: "load_ctx \<Rightarrow> nat \<Rightarrow> string \<Rightarrow> string list \<Rightarrow> bool \<Rightarrow> hval lcomp" where
  "LoadOneBuildFile c n build_file_path includes is_target = lo_file (loading_ops c n) build_file_path includes is_target"

definition LoadBuildFileIncludesIntoDict :: "load_ctx \<Rightarrow> nat \<Rightarrow> hval \<Rightarrow> string \<Rightarrow> string list \<Rightarrow> unit lcomp" where
  "LoadBuildFileIncludesIntoDict c n subdict subdict_path includes = lo_dict (loading_ops c n) subdict subdict_path includes"

definition LoadBuildFileIncludesIntoList :: "load_ctx \<Rightarrow> nat \<Rightarrow> hval \<Rightarrow> string \<Rightarrow> unit lcomp" where
  "LoadBuildFileIncludesIntoList c n the_list the_list_path = lo_list (loading_ops c n) the_list the_list_path"

section \<open>A build file with targets\<close>

text \<open>The variable \<open>DEPTH\<close>: the way from the directory of the file to that of \<open>depth\<close>.\<close>

definition depth_variable :: "load_ctx \<Rightarrow> string \<Rightarrow> string \<Rightarrow> string" where
  "depth_variable c depth build_file_path =
     (let d = RelativePath (ec_realpath (lc_expand c)) depth (dirname build_file_path)
      in if d = [] then ''.'' else py_replace [CHR 0x5C] ''/'' d)"

definition set_depth :: "load_ctx \<Rightarrow> string \<Rightarrow> load_state \<Rightarrow> load_state" where
  "set_depth c build_file_path s =
     (case lc_depth c of
        Some (d # ds) \<Rightarrow>
          s\<lparr>ls_variables := AList.update ''DEPTH'' (HStr (depth_variable c (d # ds) build_file_path)) (ls_variables s)\<rparr>
      | _ \<Rightarrow> s)"

text \<open>A step that changes the whole value of a dictionary object.\<close>

definition on_tree :: "(pyval \<Rightarrow> pyval res) \<Rightarrow> hval \<Rightarrow> unit hcomp" where
  "on_tree f r =
     hbind (htree r) (\<lambda>t.
     hbind (hlift (f t)) (\<lambda>t'.
     hbind (hlift (as_dict t')) (\<lambda>d.
     hbind (hmap (\<lambda>p. hbind (hbuild (snd p)) (\<lambda>v. hret (fst p, v))) d) (set_dict r))))"

definition included_relative :: "load_ctx \<Rightarrow> string \<Rightarrow> (string \<times> pydict) list \<Rightarrow> string list res" where
  "included_relative c build_file_path aux_data =
     (case GetIncludedBuildFiles build_file_path aux_data [] of
        None \<Rightarrow> Inl NoReturn
      | Some r \<Rightarrow>
          ebind r (\<lambda>included.
            Inr (map (\<lambda>f. RelativePath (ec_realpath (lc_expand c)) f (dirname build_file_path)) included)))"

text \<open>Each target is merged into a copy of \<open>target_defaults\<close>.\<close>

definition apply_target_defaults :: "load_ctx \<Rightarrow> string \<Rightarrow> pydict \<Rightarrow> pydict res" where
  "apply_target_defaults c build_file_path d =
     (case dget d ''target_defaults'' of
        None \<Rightarrow> Inr d
      | Some target_defaults \<Rightarrow>
          (case dget d ''targets'' of
             None \<Rightarrow> Inl (GypErr (''Unable to find targets in build file '' @ build_file_path))
           | Some targets \<Rightarrow>
               ebind (as_list targets) (\<lambda>ts.
               ebind (emap (\<lambda>t.
                   ebind (as_dict (deepcopy target_defaults)) (\<lambda>new_target_dict.
                   ebind (as_dict t) (\<lambda>old_target_dict.
                   ebind (MergeDicts (file_merge c build_file_path build_file_path) new_target_dict old_target_dict)
                     (\<lambda>merged. Inr (PDict merged))))) ts) (\<lambda>ts'.
                 Inr (ddel ''target_defaults'' (dset ''targets'' (PList ts') d))))))"

definition dependency_file :: "load_ctx \<Rightarrow> string \<Rightarrow> pyval \<Rightarrow> string res" where
  "dependency_file c build_file_path dependency =
     ebind (as_str dependency) (\<lambda>dep.
       case fst (ResolveTarget (ec_realpath (lc_expand c)) (Some build_file_path) dep None) of
         Some f \<Rightarrow> Inr f | None \<Rightarrow> Inl TypeErr)"

definition target_dependencies :: "load_ctx \<Rightarrow> string \<Rightarrow> pydict \<Rightarrow> string list res" where
  "target_dependencies c build_file_path d =
     (case dget d ''targets'' of
        None \<Rightarrow> Inr []
      | Some targets \<Rightarrow>
          ebind (iter_items targets) (\<lambda>ts.
          ebind (emap (\<lambda>target_dict.
              ebind (str_in ''dependencies'' target_dict) (\<lambda>b.
                if \<not> b then Inr []
                else ebind (as_dict target_dict) (\<lambda>td.
                     ebind (dindex td ''dependencies'') (\<lambda>v.
                     ebind (iter_items v) (emap (dependency_file c build_file_path)))))) ts) (\<lambda>deps.
            Inr (concat deps))))"

text \<open>The steps for a file that has not been loaded, up to the files it depends on.\<close>

definition add_meta :: "load_ctx \<Rightarrow> string \<Rightarrow> hval \<Rightarrow> unit lcomp" where
  "add_meta c build_file_path r =
     lseq (heap_op (dict_put r ''_DEPTH'' (case lc_depth c of None \<Rightarrow> HNone | Some d \<Rightarrow> HStr d)))
     (lbind (heap_op (hdict r)) (\<lambda>m.
        if map_of m ''included_files'' \<noteq> None
        then llift (Inl (GypErr (build_file_path @ '' must not contain included_files key'')))
        else lbind (lstate ls_aux) (\<lambda>aux_data.
             lbind (llift (included_relative c build_file_path aux_data)) (\<lambda>files.
               heap_op (hbind (hnew (OList (map HStr files))) (dict_put r ''included_files''))))))"

definition prepare_targets :: "load_ctx \<Rightarrow> nat \<Rightarrow> string \<Rightarrow> hval \<Rightarrow> string list lcomp" where
  "prepare_targets c n build_file_path r =
     lseq (add_meta c build_file_path r)
     (lseq (heap_op (on_tree (ProcessToolsetsInDict (lc_multiple_toolsets c)) r))
     (lbind (lstate ls_variables) (\<lambda>variables.
      lseq (heap_op (ProcessVariablesAndConditionsInDict (lc_expand c) n r PHASE_EARLY variables build_file_path None))
      (lseq (heap_op (on_tree (ProcessToolsetsInDict (lc_multiple_toolsets c)) r))
      (lseq (heap_op (on_tree (\<lambda>t. ebind (as_dict t) (\<lambda>d.
              ebind (apply_target_defaults c build_file_path d) (\<lambda>d'. Inr (PDict d')))) r))
      (lbind (heap_op (htree r)) (\<lambda>t.
         llift (ebind (as_dict t) (target_dependencies c build_file_path)))))))))"

definition load_file :: "load_ctx \<Rightarrow> nat \<Rightarrow> string \<Rightarrow> string list lcomp" where
  "load_file c n build_file_path =
     lseq (lupdate (\<lambda>s. s\<lparr>ls_targets := ls_targets s @ [build_file_path]\<rparr>))
     (lbind (LoadOneBuildFile c n build_file_path (lc_includes c) True) (prepare_targets c n build_file_path))"

text \<open>\<open>None\<close> when the file has been loaded before.\<close>

definition load_new_file :: "load_ctx \<Rightarrow> nat \<Rightarrow> string \<Rightarrow> string list option lcomp" where
  "load_new_file c n build_file_path =
     lseq (lupdate (set_depth c build_file_path))
     (lbind (lstate ls_targets) (\<lambda>loaded.
        if build_file_path \<in> set loaded then lret None
        else lbind (load_file c n build_file_path) (\<lambda>deps. lret (Some deps))))"

text \<open>
  With \<open>load_dependencies\<close>: \<open>k\<close> bounds the chain of files. Without, it is what a worker runs: the file
  and its dependencies, or \<open>False\<close>.
\<close>

fun LoadTargetBuildFile :: "load_ctx \<Rightarrow> nat \<Rightarrow> nat \<Rightarrow> string \<Rightarrow> unit lcomp" where
  "LoadTargetBuildFile c n 0 build_file_path = llift (Inl NoReturn)"
| "LoadTargetBuildFile c n (Suc k) build_file_path =
     lbind (load_new_file c n build_file_path) (\<lambda>r.
       case r of
         None \<Rightarrow> lret ()
       | Some deps \<Rightarrow>
           liter (\<lambda>dependency.
             lcatch (\<lambda>e. ExceptionAppend e (''while loading dependencies of '' @ build_file_path))
               (LoadTargetBuildFile c n k dependency)) deps)"

definition LoadTargetBuildFile_alone :: "load_ctx \<Rightarrow> nat \<Rightarrow> string \<Rightarrow> (string \<times> string list) option lcomp" where
  "LoadTargetBuildFile_alone c n build_file_path =
     lbind (load_new_file c n build_file_path) (\<lambda>r. lret (map_option (Pair build_file_path) r))"

end
