(* ===== verification/LoadFilesCorrect.thy ===== *)
theory LoadFilesCorrect
  imports LoadFiles ExpansionEffects
begin

text \<open>
  What loading does to its state, carried through the recursion once by the locale \<open>load_effect\<close>: a file
  is read once and keeps its object, each target file is prepared once and all its dependencies are
  loaded too, and with finitely many files loading ends.
\<close>

named_theorems lcomp "how the result of a loading step comes about"

lemma lcomp_rules [lcomp]:
  "lbind m f s = Inr (y, t) \<longleftrightarrow> (\<exists>x u. m s = Inr (x, u) \<and> f x u = Inr (y, t))"
  "lret x s = Inr (x', t) \<longleftrightarrow> x' = x \<and> t = s"
  "llift r s = Inr (v, t) \<longleftrightarrow> r = Inr v \<and> t = s"
  "lstate g s = Inr (w, t) \<longleftrightarrow> w = g s \<and> t = s"
  "lupdate h s = Inr (u', t) \<longleftrightarrow> t = h s"
  "heap_op hm s = Inr (z, t) \<longleftrightarrow> (\<exists>e. hm (ls_es s) = Inr (z, e) \<and> t = s\<lparr>ls_es := e\<rparr>)"
  "lcatch ff m s = Inr p \<longleftrightarrow> m s = Inr p"
  for m :: "'a lcomp" and f :: "'a \<Rightarrow> 'b lcomp"
  by (auto simp: lbind_def lret_def llift_def lstate_def lupdate_def heap_op_def lcatch_def split: sum.splits)

lemma LoadOne_new:
  assumes "LoadOneBuildFile_body c ops path is t s = Inr (r, u)" and "map_of (ls_data s) path = None"
  shows "\<exists>e v. v = enter_file path r (s\<lparr>ls_es := e\<rparr>) \<and> lc_read c path \<noteq> None
    \<and> (u = v \<or> (\<exists>is. lo_dict ops r path is v = Inr ((), u)))"
proof -
  obtain d e where d: "read_build_file c path = Inr d" "hbuild (PDict d) (ls_es s) = Inr (r, e)"
    and rest: "(if truth (dget_or d ''skip_includes'' PNone) then lret ()
         else lcatch (\<lambda>e. ExceptionAppend e (''while reading includes of '' @ path)) (lo_dict ops r path (if t then is else [])))
       (enter_file path r (s\<lparr>ls_es := e\<rparr>)) = Inr ((), u)"
    using assms by (simp add: LoadOneBuildFile_body_def lcomp del: hbuild.simps) blast
  have "lc_read c path \<noteq> None" using d(1) by (auto simp: read_build_file_def split: option.splits)
  then show ?thesis using rest by (auto simp: lcomp split: if_splits)
qed

section \<open>Effects\<close>

definition lmoves :: "(load_state \<Rightarrow> load_state \<Rightarrow> bool) \<Rightarrow> 'a lcomp \<Rightarrow> bool" where
  "lmoves R m \<longleftrightarrow> (\<forall>s x t. m s = Inr (x, t) \<longrightarrow> R s t)"

lemma lmovesI: "(\<And>s x t. m s = Inr (x, t) \<Longrightarrow> R s t) \<Longrightarrow> lmoves R m"
  unfolding lmoves_def by blast

lemma lmovesD: "lmoves R m \<Longrightarrow> m s = Inr (x, t) \<Longrightarrow> R s t"
  unfolding lmoves_def by blast

text \<open>What a relation between the states must allow: each change that reading a file makes.\<close>

locale load_effect =
  fixes c :: load_ctx and R :: "load_state \<Rightarrow> load_state \<Rightarrow> bool"
  assumes R_refl: "R s s"
    and R_trans: "R s t \<Longrightarrow> R t u \<Longrightarrow> R s u"
    and R_es: "R s (s\<lparr>ls_es := e\<rparr>)"
    and R_aux: "R s (s\<lparr>ls_aux := aux\<rparr>)"
    and R_data: "map_of (ls_data s) f = None \<Longrightarrow> lc_read c f \<noteq> None \<Longrightarrow>
      R s (enter_file f r s)"
begin

lemma m_bind [intro]: "lmoves R m \<Longrightarrow> (\<And>x. lmoves R (f x)) \<Longrightarrow> lmoves R (lbind m f)"
  by (rule lmovesI) (auto simp: lcomp dest!: lmovesD intro: R_trans)

lemma m_simple [intro!, simp]:
  "lmoves R (lret x)" "lmoves R (llift r)" "lmoves R (lstate g)" "lmoves R (heap_op h)"
  by (auto intro!: lmovesI simp: lcomp R_refl R_es)

lemma m_catch [intro!]: "lmoves R m \<Longrightarrow> lmoves R (lcatch f m)"
  by (rule lmovesI) (auto simp: lcomp dest: lmovesD)

lemma m_iter [intro!]: "(\<And>x. lmoves R (f x)) \<Longrightarrow> lmoves R (liter f xs)"
  by (induction xs) auto

lemma m_include:
  assumes "\<And>f is t. lmoves R (lo_file ops f is t)"
  shows "lmoves R (include_file c' ops r path include)"
  unfolding include_file_def by (intro m_bind m_simple assms lmovesI) (auto simp: lcomp R_aux)

lemma m_below:
  assumes "\<And>r p is. lmoves R (lo_dict ops r p is)" and "\<And>r p. lmoves R (lo_list ops r p)"
  shows "lmoves R (includes_below ops path v)"
  unfolding includes_below_def by (intro m_bind m_simple) (auto split: option.splits obj.splits intro: assms)

lemma m_take: "lmoves R (take_includes r path)"
  unfolding take_includes_def by (intro m_bind m_simple) (auto split: option.splits)

lemma m_file:
  assumes "\<And>r p is. lmoves R (lo_dict ops r p is)"
  shows "lmoves R (LoadOneBuildFile_body c ops path is t)"
proof (rule lmovesI)
  fix s x u
  assume run: "LoadOneBuildFile_body c ops path is t s = Inr (x, u)"
  show "R s u"
  proof (cases "map_of (ls_data s) path")
    case None
    obtain e v where v: "v = enter_file path x (s\<lparr>ls_es := e\<rparr>)" "lc_read c path \<noteq> None"
      "u = v \<or> (\<exists>is. lo_dict ops x path is v = Inr ((), u))"
      using LoadOne_new [OF run None] by metis
    have "R (s\<lparr>ls_es := e\<rparr>) v" unfolding v(1) by (rule R_data) (use None v(2) in simp_all)
    then have "R s v" by (rule R_trans [OF R_es])
    then show ?thesis using v(3) lmovesD [OF assms] R_trans by blast
  qed (use run in \<open>simp add: LoadOneBuildFile_body_def lcomp R_refl\<close>)
qed

lemma m_ops:
  "(\<forall>f is t. lmoves R (lo_file (loading_ops c n) f is t)) \<and> (\<forall>r p is. lmoves R (lo_dict (loading_ops c n) r p is))
    \<and> (\<forall>r p. lmoves R (lo_list (loading_ops c n) r p))"
proof (induction n)
  case (Suc n)
  have "lmoves R (LoadBuildFileIncludesIntoDict_body c (loading_ops c n) r p is)" for r p "is"
    unfolding LoadBuildFileIncludesIntoDict_body_def using Suc.IH by (intro m_bind m_simple m_iter m_take m_include m_below) auto
  moreover have "lmoves R (LoadBuildFileIncludesIntoList_body (loading_ops c n) r p)" for r p
    unfolding LoadBuildFileIncludesIntoList_body_def using Suc.IH by (intro m_bind m_simple m_iter m_below) auto
  ultimately show ?case using Suc.IH m_file by (simp add: Let_def)
qed auto

lemma m_LoadOne: "lmoves R (LoadOneBuildFile c n path is t)"
  unfolding LoadOneBuildFile_def using m_ops by blast

lemma m_meta: "lmoves R (add_meta c path r)"
  unfolding add_meta_def by (intro m_bind m_simple) auto

lemma m_prepare: "lmoves R (prepare_targets c n path r)"
  unfolding prepare_targets_def by (intro m_bind m_simple m_meta)

text \<open>Loading a file adds it to the target files first; the rest is such an effect.\<close>

lemma load_file_effect:
  assumes "load_file c n path s = Inr (deps, t)"
  obtains r u where "LoadOneBuildFile c n path (lc_includes c) True (s\<lparr>ls_targets := ls_targets s @ [path]\<rparr>) = Inr (r, u)"
    "R (s\<lparr>ls_targets := ls_targets s @ [path]\<rparr>) u" "R u t"
  using assms unfolding load_file_def by (simp add: lcomp) (blast dest: lmovesD [OF m_LoadOne] lmovesD [OF m_prepare])

end

definition targets_kept :: "load_state \<Rightarrow> load_state \<Rightarrow> bool" where
  "targets_kept s t \<longleftrightarrow> ls_targets t = ls_targets s \<and> ls_variables t = ls_variables s"

definition files_kept :: "load_ctx \<Rightarrow> load_state \<Rightarrow> load_state \<Rightarrow> bool" where
  "files_kept c s t \<longleftrightarrow>
     (\<forall>f r. map_of (ls_data s) f = Some r \<longrightarrow> map_of (ls_data t) f = Some r)
     \<and> (\<forall>f. map_of (ls_data s) f = None \<longrightarrow> map_of (ls_data t) f \<noteq> None \<longrightarrow> lc_read c f \<noteq> None)"

interpretation kept_targets: load_effect c targets_kept
  by unfold_locales (auto simp: targets_kept_def enter_file_def)

interpretation kept_files: load_effect c "files_kept c"
proof
  fix s t u assume "files_kept c s t" "files_kept c t u"
  then show "files_kept c s u" unfolding files_kept_def by (metis option.exhaust)
qed (auto simp: files_kept_def update_conv' enter_file_def)


section \<open>A file is read once\<close>

lemma files_kept_trans: "files_kept c s t \<Longrightarrow> files_kept c t u \<Longrightarrow> files_kept c s u"
  by (rule kept_files.R_trans)

lemma files_kept_other [simp]:
  "files_kept c (s\<lparr>ls_targets := xs\<rparr>) t = files_kept c s t" "files_kept c s (s\<lparr>ls_targets := xs\<rparr>)"
  "files_kept c (set_depth c f s) t = files_kept c s t" "files_kept c s (set_depth c f s)"
  by (auto simp: files_kept_def set_depth_def split: option.splits list.splits)

lemma set_depth_same [simp]:
  "ls_targets (set_depth c f s) = ls_targets s" "ls_data (set_depth c f s) = ls_data s"
  by (auto simp: set_depth_def split: option.splits list.splits)

lemma LoadOne_data:
  assumes "LoadOneBuildFile c n f is t s = Inr (r, s1)"
  shows "map_of (ls_data s1) f = Some r"
proof (cases n)
  case (Suc m)
  then have run: "LoadOneBuildFile_body c (loading_ops c m) f is t s = Inr (r, s1)"
    using assms by (simp add: LoadOneBuildFile_def Let_def)
  show ?thesis
  proof (cases "map_of (ls_data s) f")
    case None
    obtain e u where u: "u = enter_file f r (s\<lparr>ls_es := e\<rparr>)" "s1 = u \<or> (\<exists>is. lo_dict (loading_ops c m) r f is u = Inr ((), s1))"
      using LoadOne_new [OF run None] by blast
    have "lmoves (files_kept c) (lo_dict (loading_ops c m) r f is)" for "is" using kept_files.m_ops [of c m] by blast
    then have "files_kept c u s1" using u(2) by (elim disjE exE) (simp add: kept_files.R_refl, rule lmovesD)
    then show ?thesis using u(1) by (auto simp: files_kept_def enter_file_def update_conv')
  qed (use run in \<open>simp add: LoadOneBuildFile_body_def lcomp\<close>)
qed (use assms in \<open>simp add: LoadOneBuildFile_def lcomp\<close>)

lemma load_new_file_cases:
  assumes "load_new_file c n f s = Inr (r, t)"
  obtains "r = None" "f \<in> set (ls_targets s)" "t = set_depth c f s"
  | deps where "r = Some deps" "f \<notin> set (ls_targets s)" "load_file c n f (set_depth c f s) = Inr (deps, t)"
      "ls_targets t = ls_targets s @ [f]" "files_kept c s t" "map_of (ls_data t) f \<noteq> None"
proof (cases "f \<in> set (ls_targets s)")
  case True
  then show thesis using that(1) assms by (auto simp: load_new_file_def lcomp)
next
  case False
  then obtain deps where deps: "r = Some deps" "load_file c n f (set_depth c f s) = Inr (deps, t)"
    using assms by (auto simp: load_new_file_def lcomp)
  have "ls_targets t = ls_targets s @ [f]"
    by (rule kept_targets.load_file_effect [OF deps(2)]) (simp add: targets_kept_def)
  moreover have "files_kept c s t"
    by (rule kept_files.load_file_effect [OF deps(2)]) (use files_kept_trans in force)
  moreover have "map_of (ls_data t) f \<noteq> None"
    by (rule kept_files.load_file_effect [OF deps(2)]) (auto simp: files_kept_def dest!: LoadOne_data)
  ultimately show thesis using that(2) deps False by blast
qed


section \<open>The dependencies are loaded too\<close>

text \<open>
  \<open>loaded_by c n s t runs\<close>: from \<open>s\<close> to \<open>t\<close> the files of \<open>runs\<close> were loaded, each by \<open>load_file\<close> from the state
  and with the dependencies recorded for it, and the dependencies are target files of \<open>t\<close>.
\<close>

definition run_done :: "load_ctx \<Rightarrow> nat \<Rightarrow> load_state \<Rightarrow> string \<times> load_state \<times> string list \<times> load_state \<Rightarrow> bool" where
  "run_done c n t run \<longleftrightarrow>
     (case run of (f, a, deps, b) \<Rightarrow> load_file c n f a = Inr (deps, b) \<and> set deps \<subseteq> set (ls_targets t))"

lemma run_done_more: "run_done c n t r \<Longrightarrow> set (ls_targets t) \<subseteq> set (ls_targets u) \<Longrightarrow> run_done c n u r"
  unfolding run_done_def by auto

definition loaded_by :: "load_ctx \<Rightarrow> nat \<Rightarrow> load_state \<Rightarrow> load_state \<Rightarrow>
    (string \<times> load_state \<times> string list \<times> load_state) list \<Rightarrow> bool" where
  "loaded_by c n s t runs \<longleftrightarrow>
     ls_targets t = ls_targets s @ map fst runs \<and> distinct (map fst runs)
     \<and> set (map fst runs) \<inter> set (ls_targets s) = {}
     \<and> (\<forall>r\<in>set runs. run_done c n t r)"

lemma loaded_by_append:
  assumes "loaded_by c n s t rs" and "loaded_by c n t u qs"
  shows "loaded_by c n s u (rs @ qs)"
proof -
  have t: "ls_targets t = ls_targets s @ map fst rs" and u: "ls_targets u = ls_targets t @ map fst qs"
    using assms by (auto simp: loaded_by_def)
  have more: "set (ls_targets t) \<subseteq> set (ls_targets u)" using u by simp
  have "run_done c n u r" if "r \<in> set (rs @ qs)" for r
  proof (cases "r \<in> set rs")
    case True
    then show ?thesis using assms(1) run_done_more [OF _ more] unfolding loaded_by_def by blast
  qed (use that assms(2) in \<open>auto simp: loaded_by_def\<close>)
  moreover have "distinct (map fst (rs @ qs))" "set (map fst (rs @ qs)) \<inter> set (ls_targets s) = {}"
    using assms t unfolding loaded_by_def by auto
  ultimately show ?thesis using t u unfolding loaded_by_def by simp
qed

lemma loaded_by_none: "ls_targets t = ls_targets s \<Longrightarrow> loaded_by c n s t []"
  by (simp add: loaded_by_def)

lemma loaded_by_mem: "loaded_by c n s t rs \<Longrightarrow> set (ls_targets s) \<subseteq> set (ls_targets t)"
  by (auto simp: loaded_by_def)

lemma liter_loaded:
  assumes "\<And>x s t. x \<in> set xs \<Longrightarrow> F x s = Inr ((), t) \<Longrightarrow> (\<exists>rs. loaded_by c n s t rs) \<and> x \<in> set (ls_targets t) \<and> files_kept c s t"
    and "liter F xs s = Inr ((), t)"
  shows "(\<exists>rs. loaded_by c n s t rs) \<and> set xs \<subseteq> set (ls_targets t) \<and> files_kept c s t"
  using assms
proof (induction xs arbitrary: s)
  case Nil
  moreover have "loaded_by c n s s []" by (rule loaded_by_none) (rule refl)
  ultimately show ?case using kept_files.R_refl by (auto simp: lcomp)
next
  case (Cons x xs)
  obtain u where u: "F x s = Inr ((), u)" "liter F xs u = Inr ((), t)" using Cons.prems(2) by (auto simp: lcomp)
  obtain rs where rs: "loaded_by c n s u rs" "x \<in> set (ls_targets u)" "files_kept c s u" using Cons.prems(1) [OF _ u(1)] by auto
  have "(\<exists>rs. loaded_by c n u t rs) \<and> set xs \<subseteq> set (ls_targets t) \<and> files_kept c u t"
    by (rule Cons.IH [OF _ u(2)]) (use Cons.prems(1) in auto)
  then obtain qs where qs: "loaded_by c n u t qs" "set xs \<subseteq> set (ls_targets t)" "files_kept c u t" by blast
  show ?case
    using loaded_by_append [OF rs(1) qs(1)] files_kept_trans [OF rs(3) qs(3)] rs(2) qs(2) loaded_by_mem [OF qs(1)] by auto
qed

lemma LoadTargetBuildFile_loaded:
  "LoadTargetBuildFile c n k f s = Inr ((), t) \<Longrightarrow>
    (\<exists>rs. loaded_by c n s t rs) \<and> f \<in> set (ls_targets t) \<and> files_kept c s t"
proof (induction k arbitrary: f s t)
  case (Suc k)
  obtain r u where u: "load_new_file c n f s = Inr (r, u)"
      "(case r of None \<Rightarrow> lret () | Some deps \<Rightarrow> liter (\<lambda>dependency.
          lcatch (\<lambda>e. ExceptionAppend e (''while loading dependencies of '' @ f)) (LoadTargetBuildFile c n k dependency)) deps) u
        = Inr ((), t)"
    using Suc.prems by (simp only: LoadTargetBuildFile.simps lcomp) blast
  from u(1) show ?case
  proof (cases rule: load_new_file_cases)
    case 1
    then show ?thesis using u(2) by (auto simp: lcomp intro!: loaded_by_none kept_files.R_refl exI [of _ "[]"])
  next
    case (2 deps)
    have "(\<exists>rs. loaded_by c n u t rs) \<and> set deps \<subseteq> set (ls_targets t) \<and> files_kept c u t"
      by (rule liter_loaded [OF _ u(2) [unfolded 2(1) option.case]]) (use Suc.IH in \<open>auto simp: lcomp\<close>)
    then obtain rs where rs: "loaded_by c n u t rs" "set deps \<subseteq> set (ls_targets t)" "files_kept c u t" by blast
    have "loaded_by c n s t ((f, set_depth c f s, deps, u) # rs)"
      using rs 2(2,3,4) by (auto simp: loaded_by_def run_done_def [of c n t "(f, _, _, _)"])
    then show ?thesis using files_kept_trans [OF 2(5) rs(3)] loaded_by_mem [OF rs(1)] 2(4) by auto
  qed
qed (simp add: lcomp)


text \<open>
  C8: a build file is read once: when it has been loaded, every later request gives the same object and
  changes nothing, whatever has been loaded in between.
\<close>

theorem LoadOneBuildFile_once:
  assumes "LoadOneBuildFile c n f is t s = Inr (r, s1)" and "LoadTargetBuildFile c n' k g s1 = Inr ((), s2)"
  shows "LoadOneBuildFile c (Suc m) f is' t' s2 = Inr (r, s2)"
proof -
  have "map_of (ls_data s2) f = Some r"
    using LoadOne_data [OF assms(1)] LoadTargetBuildFile_loaded [OF assms(2)] by (auto simp: files_kept_def)
  then show ?thesis by (simp add: LoadOneBuildFile_def Let_def LoadOneBuildFile_body_def lcomp)
qed

text \<open>Two files, of which one depends on the other.\<close>

definition example_files :: "string \<Rightarrow> pydict option" where
  "example_files f =
     (if f = ''a'' then Some [(''targets'', PList [PDict [(''dependencies'', PList [PStr ''c:x''])]])]
      else if f = ''c'' then Some [] else None)"

definition example_load_ctx :: load_ctx where
  "example_load_ctx =
     \<lparr>lc_expand = example_ctx\<lparr>ec_realpath := (\<lambda>p. if isabs p then p else if p = [] \<or> p = ''.'' then ''/w'' else ''/w/'' @ p)\<rparr>,
      lc_read = (\<lambda>f. if example_files f = None then None else Some f), lc_cwd = ''/w'', lc_parse = (\<lambda>_. Inl AssertErr),
      lc_eval = (\<lambda>f. Inr (PDict (the (example_files f)))), lc_syntax_error = (\<lambda>_. False),
      lc_multiple_toolsets = False, lc_includes = [], lc_depth = Some [], lc_check = False\<rparr>"

definition load_start :: load_state where
  "load_start = \<lparr>ls_es = example_state [], ls_data = [], ls_aux = [], ls_targets = [], ls_variables = []\<rparr>"

lemma example_load:
  "map_sum id (\<lambda>p. ls_targets (snd p)) (LoadTargetBuildFile example_load_ctx 6 2 ''a'' load_start) = Inr [''a'', ''c'']"
  by code_simp


lemma example_load_again:
  "map_sum id (\<lambda>_. ()) (lseq (LoadOneBuildFile example_load_ctx 3 ''c'' [] True)
      (LoadTargetBuildFile example_load_ctx 6 2 ''a'') load_start) = Inr ()"
  by code_simp

theorem LoadOneBuildFile_once_witness:
  "\<exists>r s2. LoadOneBuildFile example_load_ctx 1 ''c'' [] False s2 = Inr (r, s2)"
proof -
  obtain r s1 s2 where s: "LoadOneBuildFile example_load_ctx 3 ''c'' [] True load_start = Inr (r, s1)"
      "LoadTargetBuildFile example_load_ctx 6 2 ''a'' s1 = Inr ((), s2)"
    using example_load_again
    by (cases "lseq (LoadOneBuildFile example_load_ctx 3 ''c'' [] True) (LoadTargetBuildFile example_load_ctx 6 2 ''a'') load_start")
      (auto simp: lcomp simp del: LoadTargetBuildFile.simps)
  show ?thesis using LoadOneBuildFile_once [OF s, of 0 "[]" False] by auto
qed

section \<open>Loading ends\<close>

lemma liter_same:
  assumes "\<And>x u. I u \<Longrightarrow> F x u = G x u" and "\<And>x u v. I u \<Longrightarrow> F x u = Inr ((), v) \<Longrightarrow> I v" and "I s"
  shows "liter F xs s = liter G xs s"
  using assms(3)
proof (induction xs arbitrary: s)
  case (Cons x xs)
  show ?case
  proof (cases "F x s")
    case (Inr p)
    then have "I (snd p)" using assms(2) Cons.prems by (metis prod.collapse old.unit.exhaust)
    then show ?thesis using Cons assms(1) Inr by (simp add: lbind_def flip: assms(1))
  qed (use assms(1) [OF Cons.prems, of x] in \<open>simp add: lbind_def\<close>)
qed simp

lemma LoadTargetBuildFile_depth:
  assumes files: "\<And>f. lc_read c f \<noteq> None \<Longrightarrow> f \<in> files" "finite files"
  shows "\<lbrakk>\<And>f. map_of (ls_data s) f \<noteq> None \<Longrightarrow> f \<in> files; card (files - set (ls_targets s)) < k; k \<le> k'\<rbrakk>
    \<Longrightarrow> LoadTargetBuildFile c n k f s = LoadTargetBuildFile c n k' f s"
proof (induction k arbitrary: k' f s)
  case (Suc k)
  obtain j where j: "k' = Suc j" "k \<le> j" using Suc.prems(3) by (cases k') auto
  show ?case
  proof (cases "load_new_file c n f s")
    case (Inr p)
    obtain r u where p: "p = (r, u)" by (cases p)
    from Inr [unfolded p] show ?thesis
    proof (cases rule: load_new_file_cases)
      case 1
      then show ?thesis using Inr p j by (simp add: lbind_def)
    next
      case (2 deps)
      define I where "I v \<longleftrightarrow> (\<forall>g. map_of (ls_data v) g \<noteq> None \<longrightarrow> g \<in> files) \<and> set (ls_targets u) \<subseteq> set (ls_targets v)" for v :: load_state
      have kept: "I v'" if "I v" "files_kept c v v'" "set (ls_targets v) \<subseteq> set (ls_targets v')" for v v' :: load_state
        using that files(1) unfolding I_def files_kept_def by blast
      have "f \<in> files" using 2(5,6) files(1) Suc.prems(1) unfolding files_kept_def by blast
      then have "card (files - set (ls_targets u)) < card (files - set (ls_targets s))"
        using 2(2,4) files(2) by (intro psubset_card_mono) auto
      then have u: "card (files - set (ls_targets u)) < k" using Suc.prems(2) by simp
      have less: "card (files - set (ls_targets v)) < k" if "I v" for v
        using that files(2) unfolding I_def by (intro le_less_trans [OF card_mono u]) auto
      have "I u" using 2(5) files(1) Suc.prems(1) unfolding I_def files_kept_def by blast
      let ?F = "\<lambda>k d. lcatch (\<lambda>e. ExceptionAppend e (''while loading dependencies of '' @ f)) (LoadTargetBuildFile c n k d)"
      have "liter (?F k) deps u = liter (?F j) deps u"
      proof (rule liter_same [where I = I])
        fix d v
        assume v: "I v"
        have "LoadTargetBuildFile c n k d v = LoadTargetBuildFile c n j d v"
          by (rule Suc.IH) (use v less [OF v] j(2) in \<open>auto simp: I_def\<close>)
        then show "?F k d v = ?F j d v" by (simp add: lcatch_def)
      next
        fix d v v'
        assume "I v" "?F k d v = Inr ((), v')"
        then show "I v'" using LoadTargetBuildFile_loaded [of c n k d v v'] loaded_by_mem kept by (auto simp: lcomp)
      qed (rule \<open>I u\<close>)
      then show ?thesis using Inr p 2(1) j by (simp add: lbind_def)
    qed
  qed (use j in \<open>simp add: lbind_def\<close>)
qed simp



end
