(* ===== verification/LoadAll.thy ===== *)
theory LoadAll
  imports LoadFiles TargetSelection Configurations DependentSettings FileCycles Validation
begin

text \<open>
  \<open>Load\<close> of \<open>gyp/input.py\<close>: it loads the build files and then runs the passes of the other theories over
  the targets. From there on no list or dictionary is reached from two places, so the values are trees;
  only the targets in \<open>data\<close> are the objects that \<open>targets\<close> holds, which \<open>attach_targets\<close> says at the
  end. The branch that loads in parallel is the theory \<open>ParallelLoad\<close>.
\<close>

section \<open>Arguments\<close>

text \<open>\<open>generator_input_info\<close>, and the other arguments of \<open>Load\<close> with the orders in which sets are visited.\<close>

record generator_input =
  gi_path_sections :: "string list"
  gi_non_configuration_keys :: "string list"
  gi_supports_multiple_toolsets :: bool
  gi_filelist_paths :: "(string \<times> string) option"
  gi_extra_sources_for_rules :: "string list"
  gi_wants_static_library_dependencies_adjusted :: bool
  gi_wants_sorted_dependencies :: bool

record load_args =
  la_circular_check :: bool
  la_duplicate_basename_check :: bool
  la_root_targets :: "string list"
  la_order :: "string list \<Rightarrow> string list"
  la_pick :: "node list \<Rightarrow> nat"

definition SetGeneratorGlobals :: "generator_input \<Rightarrow> load_ctx \<Rightarrow> load_ctx" where
  "SetGeneratorGlobals gi c =
     c\<lparr>lc_expand := (lc_expand c)\<lparr>ec_path_sections := base_path_sections @ gi_path_sections gi,
                                  ec_filelist_paths := gi_filelist_paths gi\<rparr>,
       lc_multiple_toolsets := gi_supports_multiple_toolsets gi\<rparr>"

definition non_configuration_keys :: "generator_input \<Rightarrow> string list" where
  "non_configuration_keys gi = base_non_configuration_keys @ gi_non_configuration_keys gi"

text \<open>A call that does not end does not let the whole end.\<close>

definition returned :: "'a res option \<Rightarrow> 'a res" where
  "returned r = (case r of None \<Rightarrow> Inl NoReturn | Some x \<Rightarrow> x)"

lemma returned_Inr [simp]: "returned r = Inr x \<longleftrightarrow> r = Some (Inr x)"
  by (auto simp: returned_def split: option.splits)

section \<open>From the build files to the ordered targets\<close>

definition filter_dependency_sections :: "(string \<Rightarrow> (string \<Rightarrow> bool) res) \<Rightarrow> string \<Rightarrow> pydict \<Rightarrow> pydict res" where
  "filter_dependency_sections re_compile target_name target_dict =
     (let keys = filter (\<lambda>key. has_key key target_dict) all_dependency_sections;
          tmp_dict = map (\<lambda>key. (key, dget_or target_dict key PNone)) keys
      in ebind (ProcessListFiltersInDict re_compile target_name tmp_dict) (\<lambda>tmp_dict'.
           Inr (foldl (\<lambda>d p. dset (fst p) (snd p) d) (foldl (\<lambda>d key. ddel key d) target_dict keys) tmp_dict')))"

definition resolve_targets ::
  "load_ctx \<Rightarrow> load_args \<Rightarrow> string list \<Rightarrow> (string \<times> pydict) list
     \<Rightarrow> (dgraph \<times> string list \<times> targets \<times> (string \<times> pydict) list) res" where
  "resolve_targets c a target_build_files data =
     ebind (BuildTargetsDict target_build_files data) (\<lambda>targets.
     ebind (QualifyDependencies (ec_realpath (lc_expand c)) (lc_multiple_toolsets c) targets) (\<lambda>targets.
     ebind (RemoveSelfDependencies targets) (\<lambda>targets.
     ebind (ExpandWildcardDependencies targets data) (\<lambda>targets.
     ebind (RemoveLinkDependenciesFromNoneTargets targets) (\<lambda>targets.
     ebind (each_target (\<lambda>_. filter_dependency_sections (ec_compile (lc_expand c))) targets) (\<lambda>targets.
     ebind (RemoveDuplicateDependencies targets) (\<lambda>targets.
     ebind (if la_circular_check a then returned (VerifyNoGYPFileCircularDependencies (la_pick a) targets) else Inr ()) (\<lambda>_.
     ebind (returned (BuildDependencyList (la_pick a) targets)) (\<lambda>(dependency_nodes, flat_list).
     ebind (if la_root_targets a = [] then Inr (targets, flat_list, data)
            else returned (PruneUnwantedTargets targets flat_list dependency_nodes (la_root_targets a)
                   target_build_files data)) (\<lambda>(targets, flat_list, data).
     ebind (VerifyNoCollidingTargets flat_list) (\<lambda>_.
       Inr (dependency_nodes, flat_list, targets, data))))))))))))"

section \<open>Settings and libraries\<close>

text \<open>\<open>for target in flat_list\<close> with a body that changes the dictionary of the target.\<close>

definition flat_pass :: "(string \<Rightarrow> pydict \<Rightarrow> pydict hcomp) \<Rightarrow> string list \<Rightarrow> targets \<Rightarrow> targets hcomp" where
  "flat_pass body flat_list targets =
     hfold (\<lambda>ts target.
         case map_of ts target of
           None \<Rightarrow> hraise (KeyErr target)
         | Some target_dict \<Rightarrow> hbind (body target target_dict) (\<lambda>d. hret (AList.update target d ts)))
       targets flat_list"

definition publish_settings :: "load_ctx \<Rightarrow> dgraph \<Rightarrow> string list \<Rightarrow> targets \<Rightarrow> string \<Rightarrow> targets hcomp" where
  "publish_settings c dependency_nodes flat_list targets settings_type =
     hbind (hlift (returned (DoDependentSettings (file_merge c [] []) settings_type flat_list targets dependency_nodes))) (\<lambda>targets.
       flat_pass (\<lambda>_ d. hret (ddel settings_type d)) flat_list targets)"

section \<open>Expansion and validation\<close>

definition build_file_of :: "string \<Rightarrow> string res" where
  "build_file_of target = (case BuildFile target of Some f \<Rightarrow> Inr f | None \<Rightarrow> Inl TypeErr)"

definition expand_target :: "load_ctx \<Rightarrow> nat \<Rightarrow> phase \<Rightarrow> vars \<Rightarrow> string \<Rightarrow> pydict \<Rightarrow> pydict hcomp" where
  "expand_target c n phase variables target target_dict =
     hbind (hlift (build_file_of target)) (\<lambda>build_file.
     hbind (hbuild (PDict target_dict)) (\<lambda>r.
     hbind (ProcessVariablesAndConditionsInDict (lc_expand c) n r phase variables build_file None) (\<lambda>_.
     hbind (htree r) (\<lambda>t. hlift (as_dict t)))))"

definition set_up_target :: "load_ctx \<Rightarrow> generator_input \<Rightarrow> string \<Rightarrow> pydict \<Rightarrow> pydict res" where
  "set_up_target c gi target target_dict =
     ebind (build_file_of target) (\<lambda>f. SetUpConfigurations (file_merge c f f) (non_configuration_keys gi) target target_dict)"

text \<open>\<open>'arm' in variables.get('target_arch', '')\<close>.\<close>

definition targets_arm :: "vars \<Rightarrow> bool hcomp" where
  "targets_arm variables =
     (case map_of variables ''target_arch'' of
        None \<Rightarrow> hret False
      | Some v \<Rightarrow> hbind (htree v) (\<lambda>t. hlift (str_in ''arm'' t)))"

definition validate_target :: "generator_input \<Rightarrow> bool \<Rightarrow> string \<Rightarrow> pydict \<Rightarrow> pydict res" where
  "validate_target gi duplicate_basename_check target target_dict =
     ebind (build_file_of target) (\<lambda>build_file.
     ebind (ValidateTargetType target target_dict) (\<lambda>_.
     ebind (ValidateSourcesInTarget target target_dict duplicate_basename_check) (\<lambda>_.
     ebind (ValidateRulesInTarget target target_dict (gi_extra_sources_for_rules gi)) (\<lambda>target_dict.
     ebind (ValidateRunAsInTarget target_dict build_file) (\<lambda>_.
     ebind (ValidateActionsInTarget target_dict) (\<lambda>_. Inr target_dict))))))"

section \<open>The result\<close>

text \<open>The targets in \<open>data\<close> are those of \<open>targets\<close>.\<close>

definition attach_target :: "targets \<Rightarrow> string \<Rightarrow> pyval \<Rightarrow> pyval" where
  "attach_target targets build_file v =
     (case v of
        PDict d \<Rightarrow>
          (case qualified_name build_file d of
             Inr q \<Rightarrow> (case map_of targets q of Some d' \<Rightarrow> PDict d' | None \<Rightarrow> v)
           | Inl _ \<Rightarrow> v)
      | _ \<Rightarrow> v)"

definition attach_targets :: "targets \<Rightarrow> string list \<Rightarrow> (string \<times> pydict) list \<Rightarrow> (string \<times> pydict) list" where
  "attach_targets targets target_build_files data =
     map (\<lambda>(f, d).
       (f, if f \<in> set target_build_files
           then (case dget d ''targets'' of
                   Some (PList ts) \<Rightarrow> dset ''targets'' (PList (map (attach_target targets f) ts)) d
                 | _ \<Rightarrow> d)
           else d)) data"

definition turn_ints :: "(string \<times> pydict) list \<Rightarrow> (string \<times> pydict) list" where
  "turn_ints = map (\<lambda>p. (fst p, TurnIntIntoStrInDict (snd p)))"

definition process_targets ::
  "load_ctx \<Rightarrow> generator_input \<Rightarrow> load_args \<Rightarrow> nat \<Rightarrow> vars \<Rightarrow> dgraph \<Rightarrow> string list \<Rightarrow> targets \<Rightarrow> targets hcomp" where
  "process_targets c gi a n variables dependency_nodes flat_list targets =
     hbind (hfold (publish_settings c dependency_nodes flat_list) targets
              [''all_dependent_settings'', ''direct_dependent_settings'', ''link_settings'']) (\<lambda>targets.
     hbind (if gi_wants_static_library_dependencies_adjusted gi
            then hlift (returned (AdjustStaticLibraryDependencies flat_list targets dependency_nodes
                   (gi_wants_sorted_dependencies gi)))
            else hret targets) (\<lambda>targets.
     hbind (flat_pass (expand_target c n PHASE_LATE variables) flat_list targets) (\<lambda>targets.
     hbind (flat_pass (\<lambda>t d. hlift (set_up_target c gi t d)) flat_list targets) (\<lambda>targets.
     hbind (flat_pass (\<lambda>t d. hlift (ProcessListFiltersInDict (ec_compile (lc_expand c)) t d)) flat_list targets) (\<lambda>targets.
     hbind (flat_pass (expand_target c n PHASE_LATELATE variables) flat_list targets) (\<lambda>targets.
     hbind (targets_arm variables) (\<lambda>arm.
       flat_pass (\<lambda>t d. hlift (validate_target gi (la_duplicate_basename_check a \<and> \<not> arm) t d)) flat_list targets)))))))"

definition load_passes ::
  "load_ctx \<Rightarrow> generator_input \<Rightarrow> load_args \<Rightarrow> nat \<Rightarrow> vars \<Rightarrow> string list \<Rightarrow> (string \<times> pydict) list
     \<Rightarrow> (string list \<times> targets \<times> (string \<times> pydict) list) hcomp" where
  "load_passes c gi a n variables target_build_files data =
     hbind (hlift (resolve_targets c a target_build_files data)) (\<lambda>(dependency_nodes, flat_list, targets, data).
     hbind (process_targets c gi a n variables dependency_nodes flat_list targets) (\<lambda>targets.
       hret (flat_list, turn_ints targets, turn_ints (attach_targets targets target_build_files data))))"

definition load_start_state :: "vars \<Rightarrow> estate \<Rightarrow> load_state" where
  "load_start_state variables es =
     \<lparr>ls_es = es, ls_data = [], ls_aux = [], ls_targets = [], ls_variables = variables\<rparr>"

definition load_build_files :: "load_ctx \<Rightarrow> nat \<Rightarrow> nat \<Rightarrow> string list \<Rightarrow> unit lcomp" where
  "load_build_files c n k build_files =
     liter (\<lambda>f. lcatch (\<lambda>e. ExceptionAppend e (''while trying to load '' @ f)) (LoadTargetBuildFile c n k f)) build_files"

definition Load ::
  "load_ctx \<Rightarrow> generator_input \<Rightarrow> load_args \<Rightarrow> nat \<Rightarrow> nat \<Rightarrow> string list \<Rightarrow> vars
     \<Rightarrow> (string list \<times> targets \<times> (string \<times> pydict) list) hcomp" where
  "Load c0 gi a n k build_files variables es =
     (let c = SetGeneratorGlobals gi c0 in
      ebind (load_build_files c n k (la_order a (remdups (map normpath build_files))) (load_start_state variables es)) (\<lambda>p.
      let s = snd p in
      hbind (hmap (\<lambda>p. hbind (htree (snd p)) (\<lambda>t. hbind (hlift (as_dict t)) (\<lambda>d. hret (fst p, d)))) (ls_data s)) (\<lambda>data.
        load_passes c gi a n (ls_variables s) (la_order a (ls_targets s)) data) (ls_es s)))"

end
