(* ===== verification/LoadCorrect.thy ===== *)
theory LoadCorrect
  imports LoadAll LoadFilesCorrect
begin

text \<open>
  What \<open>Load\<close> returns: the passes keep the set of targets that \<open>BuildTargetsDict\<close> found or
  \<open>PruneUnwantedTargets\<close> left, the flat list orders them by their dependencies, and every target has
  passed the validation.
\<close>

section \<open>The names of the targets\<close>

lemma update_same_keys: "k \<in> fst ` set d \<Longrightarrow> map fst (AList.update k v d) = map fst d"
  by (induction d) auto

lemma map_of_key: "map_of d k = Some v \<Longrightarrow> k \<in> fst ` set d"
  by (force dest: map_of_SomeD)

lemma update_known: "map_of d k = Some v \<Longrightarrow> map fst (AList.update k w d) = map fst d"
  using update_same_keys [OF map_of_key] by fast

lemma each_target_keys:
  assumes "each_target f targets = Inr targets'"
  shows "map fst targets' = map fst targets"
proof -
  have "map fst t = map fst targets" if "efold (\<lambda>ts n. case map_of ts n of None \<Rightarrow> Inr ts
      | Some d \<Rightarrow> ebind (f ts n d) (\<lambda>d'. Inr (AList.update n d' ts))) targets ns = Inr t" for t ns
    using that
  proof (rule efold_invariant [where P = "\<lambda>ts. map fst ts = map fst targets"])
    fix s n s' assume "map fst s = map fst targets"
      "(case map_of s n of None \<Rightarrow> Inr s | Some d \<Rightarrow> ebind (f s n d) (\<lambda>d'. Inr (AList.update n d' s))) = Inr s'"
    then show "map fst s' = map fst targets"
      by (cases "map_of s n") (auto simp: update_known)
  qed simp
  then show ?thesis using assms unfolding each_target_def by blast
qed

definition qualified_targets :: "targets \<Rightarrow> bool" where
  "qualified_targets targets \<longleftrightarrow> distinct (map fst targets) \<and> (\<forall>t\<in>fst ` set targets. CHR '':'' \<in> set t)"

lemma colon_in_name: "qualified_name f d = Inr q \<Longrightarrow> CHR '':'' \<in> set q"
  by (auto simp: qualified_name_def QualifiedTarget_def Let_def split: if_splits)

lemma BuildTargetsDict_qualified:
  assumes "BuildTargetsDict files data = Inr targets"
  shows "qualified_targets targets"
  using assms unfolding BuildTargetsDict_def
proof (rule efold_invariant [where P = qualified_targets])
  fix ts f ts' assume "qualified_targets ts" and ts': "ebind (file_targets data f) (efold (add_target f) ts) = Inr ts'"
  then obtain vs where "efold (add_target f) ts vs = Inr ts'" by auto
  then show "qualified_targets ts'"
  proof (rule efold_invariant [where P = qualified_targets])
    show "qualified_targets t'" if "qualified_targets t" "add_target f t v = Inr t'" for t v t'
      using that colon_in_name by (auto simp: qualified_targets_def add_target_def split: if_splits)
  qed (rule \<open>qualified_targets ts\<close>)
qed (simp add: qualified_targets_def)

lemma qualified_keys: "map fst ts' = map fst ts \<Longrightarrow> qualified_targets ts' = qualified_targets ts"
  unfolding qualified_targets_def by (metis list.set_map)

section \<open>Resolved targets\<close>

lemma link_all_readable:
  assumes "efold link_target g ts = Inr g'"
  shows "\<forall>(t, spec)\<in>set ts. deps_readable spec"
  using assms
proof (induction ts arbitrary: g)
  case (Cons p ts)
  obtain t spec where p: "p = (t, spec)" by (cases p)
  obtain g1 where g1: "link_target g p = Inr g1" "efold link_target g1 ts = Inr g'" using Cons.prems by auto
  have "deps_readable spec" using g1(1) p by (auto simp: link_target_def deps_readable_def)
  then show ?case using Cons.IH [OF g1(2)] p by simp
qed simp

definition in_order :: "targets \<Rightarrow> string list \<Rightarrow> bool" where
  "in_order targets flat \<longleftrightarrow> (\<forall>ys t zs. flat = ys @ t # zs \<longrightarrow> set (target_deps targets t) \<subseteq> set ys)"

lemma BuildDependencyList_order:
  assumes "BuildDependencyList pick targets = Some (Inr (g, flat))" and "distinct (map fst targets)"
  shows "build_graph targets = Inr g" and "distinct flat" and "set flat = fst ` set targets" and "in_order targets flat"
proof -
  obtain g' where g': "build_graph targets = Inr g'" using assms(1) by (cases "build_graph targets") (auto simp: BuildDependencyList_def)
  then have r: "\<forall>(t, spec)\<in>set targets. deps_readable spec" unfolding build_graph_def by (rule link_all_readable)
  show "build_graph targets = Inr g"
    using assms(1) g' by (auto simp: BuildDependencyList_def bind_eq_Some_conv split: if_splits)
  show "distinct flat" "set flat = fst ` set targets" "in_order targets flat"
    using BuildDependencyList_result [OF assms(2) r, of pick] assms(1) unfolding in_order_def
    by (auto split: if_splits)
qed


lemma target_deps_sub:
  assumes "set wanted \<subseteq> set targets" and "distinct (map fst targets)" and "t \<in> fst ` set wanted"
  shows "target_deps wanted t = target_deps targets t"
proof -
  obtain spec where w: "map_of wanted t = Some spec" using assms(3) by (metis map_of_eq_None_iff not_Some_eq)
  then have "map_of targets t = Some spec" using assms(1,2) by (auto dest: map_of_SomeD)
  then show ?thesis using w by (simp add: target_deps_def)
qed

lemma filter_split:
  assumes "filter P xs = ys @ t # zs"
  shows "\<exists>us vs. xs = us @ t # vs \<and> filter P us = ys \<and> P t"
  using assms
proof (induction xs arbitrary: ys)
  case (Cons x xs)
  show ?case
  proof (cases "P x \<and> ys \<noteq> []")
    case True
    then obtain ys' where "ys = x # ys'" "filter P xs = ys' @ t # zs" using Cons.prems by (cases ys) auto
    then show ?thesis using Cons.IH [of ys'] True by (metis append_Cons filter.simps(2))
  next
    case False
    show ?thesis
    proof (cases "P x")
      case True
      then show ?thesis using False Cons.prems by (intro exI [of _ "[]"] exI [of _ xs]) auto
    next
      case no: False
      then obtain us vs where "xs = us @ t # vs" "filter P us = ys" "P t" using Cons.IH [of ys] Cons.prems by auto
      then show ?thesis using no by (intro exI [of _ "x # us"] exI [of _ vs]) auto
    qed
  qed
qed simp

lemma in_order_filter:
  assumes "in_order targets flat" and "set wanted \<subseteq> set targets" and "distinct (map fst targets)"
    and closed: "\<And>t. t \<in> fst ` set wanted \<Longrightarrow> set (target_deps targets t) \<subseteq> fst ` set wanted"
  shows "in_order wanted (filter (\<lambda>t. t \<in> fst ` set wanted) flat)"
  unfolding in_order_def
proof (intro allI impI)
  fix ys t zs
  assume split: "filter (\<lambda>t. t \<in> fst ` set wanted) flat = ys @ t # zs"
  obtain us vs where u: "flat = us @ t # vs" "filter (\<lambda>t. t \<in> fst ` set wanted) us = ys" "t \<in> fst ` set wanted"
    using filter_split [OF split] by blast
  have "set (target_deps targets t) \<subseteq> set us" using assms(1) u(1) unfolding in_order_def by blast
  then show "set (target_deps wanted t) \<subseteq> set ys"
    using closed [OF u(3)] unfolding target_deps_sub [OF assms(2,3) u(3)] u(2) [symmetric] set_filter by blast
qed

lemma Prune_order:
  assumes "PruneUnwantedTargets targets flat g roots files data = Some (Inr (wanted, flat', data'))"
    and g: "build_graph targets = Inr g" and d: "distinct (map fst targets)"
    and flat: "set flat = fst ` set targets" "in_order targets flat" "distinct flat"
  shows "distinct flat' \<and> distinct (map fst wanted) \<and> fst ` set wanted \<subseteq> fst ` set targets \<and> set flat' = fst ` set wanted \<and> in_order wanted flat'"
proof -
  obtain w where ok: "wanted_ok targets w (wanted_by targets (named_by roots flat))"
    and eq: "Some (Inr (wanted, flat', data')) = Some (ebind (efold (prune_file w) data files)
        (\<lambda>data'. Inr (w, filter (\<lambda>t. t \<in> fst ` set w) flat, data')))"
    using PruneUnwantedTargets_kept [OF g d, of flat roots files data] flat(1) unfolding assms(1)
    by (auto simp del: ebind_Inr_iff split: if_splits)
  have w: "w = wanted" "flat' = filter (\<lambda>t. t \<in> fst ` set wanted) flat"
    using eq [symmetric] by auto
  have sub: "set wanted \<subseteq> set targets" "fst ` set wanted = wanted_by targets (named_by roots flat)" "distinct (map fst wanted)"
    using ok w(1) by (auto simp: wanted_ok_def)
  have "set (target_deps targets t) \<subseteq> fst ` set wanted" if "t \<in> fst ` set wanted" for t
    using that unfolding sub(2) wanted_by_def depends_def by (auto intro: converse_rtrancl_into_rtrancl)
  then have "in_order wanted flat'" using in_order_filter [OF flat(2) sub(1) d] w(2) by simp
  moreover have "fst ` set wanted \<subseteq> fst ` set targets" using sub(1) by blast
  ultimately show ?thesis using sub(3) w(2) flat(1,3) by auto
qed

lemma collide_distinct:
  assumes "VerifyNoCollidingTargets ts = Inr u" and "\<forall>t\<in>set ts. CHR '':'' \<in> set t"
  shows "distinct (map place ts)"
  using colliding_targets [OF assms(2)] assms(1) by (auto split: if_splits)

lemma resolve_result:
  assumes "resolve_targets c a files data = Inr (g, flat, targets, data')"
  shows "distinct flat \<and> distinct (map fst targets) \<and> set flat = fst ` set targets \<and> distinct (map place flat)
    \<and> (\<forall>ys t zs. flat = ys @ t # zs \<longrightarrow> set (target_deps targets t) \<subseteq> set ys)"
proof -
  obtain t0 t flat0 where t0: "BuildTargetsDict files data = Inr t0" and t: "map fst t = map fst t0"
    and b: "BuildDependencyList (la_pick a) t = Some (Inr (g, flat0))"
    and p: "(if la_root_targets a = [] then Inr (t, flat0, data)
        else returned (PruneUnwantedTargets t flat0 g (la_root_targets a) files data)) = Inr (targets, flat, data')"
    and v: "\<exists>u. VerifyNoCollidingTargets flat = Inr u"
  proof -
    obtain t0 t1 t2 t3 t4 t5 t6 flat0 u where
      steps: "BuildTargetsDict files data = Inr t0" "QualifyDependencies (ec_realpath (lc_expand c)) (lc_multiple_toolsets c) t0 = Inr t1"
        "RemoveSelfDependencies t1 = Inr t2" "ExpandWildcardDependencies t2 data = Inr t3"
        "RemoveLinkDependenciesFromNoneTargets t3 = Inr t4"
        "each_target (\<lambda>_. filter_dependency_sections (ec_compile (lc_expand c))) t4 = Inr t5"
        "RemoveDuplicateDependencies t5 = Inr t6"
      and rest: "BuildDependencyList (la_pick a) t6 = Some (Inr (g, flat0))"
        "(if la_root_targets a = [] then Inr (t6, flat0, data)
          else returned (PruneUnwantedTargets t6 flat0 g (la_root_targets a) files data)) = Inr (targets, flat, data')"
        "VerifyNoCollidingTargets flat = Inr u"
      using assms unfolding resolve_targets_def
      by (simp only: ebind_Inr_iff returned_Inr split_paired_Ex case_prod_conv sum.inject prod.inject) blast
    have "map fst t6 = map fst t0"
      using steps(2-) unfolding QualifyDependencies_def RemoveSelfDependencies_def ExpandWildcardDependencies_def
        RemoveLinkDependenciesFromNoneTargets_def RemoveDuplicateDependencies_def by (simp add: each_target_keys)
    then show thesis using that steps(1) rest by blast
  qed
  have q: "qualified_targets t" using BuildTargetsDict_qualified [OF t0] qualified_keys [OF t] by simp
  then have d: "distinct (map fst t)" by (simp add: qualified_targets_def)
  note flat0 = BuildDependencyList_order [OF b d]
  have sub: "distinct flat \<and> distinct (map fst targets) \<and> fst ` set targets \<subseteq> fst ` set t \<and> set flat = fst ` set targets \<and> in_order targets flat"
  proof (cases "la_root_targets a = []")
    case True
    then show ?thesis using p flat0 d by auto
  next
    case False
    then have pr: "PruneUnwantedTargets t flat0 g (la_root_targets a) files data = Some (Inr (targets, flat, data'))" using p by simp
    show ?thesis using Prune_order [OF pr flat0(1) d flat0(3,4,2)] by blast
  qed
  moreover have "distinct (map place flat)"
  proof -
    obtain u where "VerifyNoCollidingTargets flat = Inr u" using v by blast
    then show ?thesis by (rule collide_distinct) (use sub q in \<open>fastforce simp: qualified_targets_def\<close>)
  qed
  ultimately show ?thesis unfolding in_order_def by blast
qed

text \<open>
  C7: when the targets are resolved, the flat list has every target that is left exactly once and after all
  the targets it depends on, and no two of them have the same name in the same directory.
\<close>

theorem resolve_targets_correct:
  assumes "resolve_targets c a files data = Inr (g, flat, targets, data')"
  shows "distinct flat \<and> distinct (map fst targets) \<and> set flat = fst ` set targets \<and> distinct (map place flat)
    \<and> (\<forall>ys t zs. flat = ys @ t # zs \<longrightarrow> set (target_deps targets t) \<subseteq> set ys)"
  using assms by (rule resolve_result)

section \<open>The passes keep the targets\<close>

lemma flat_pass_step:
  "flat_pass f (t # flat) ts s = Inr (ts', s') \<longleftrightarrow>
     (\<exists>d d' u. map_of ts t = Some d \<and> f t d s = Inr (d', u) \<and> flat_pass f flat (AList.update t d' ts) u = Inr (ts', s'))"
  by (cases "map_of ts t") (auto simp: flat_pass_def hbind_Inr)

lemma flat_pass_Nil [simp]: "flat_pass f [] ts s = Inr (ts', s') \<longleftrightarrow> ts' = ts \<and> s' = s"
  by (auto simp: flat_pass_def)

lemma flat_pass_keys: "flat_pass f flat ts s = Inr (ts', s') \<Longrightarrow> map fst ts' = map fst ts"
  by (induction flat arbitrary: ts s) (auto simp: flat_pass_step update_known)

lemma flat_pass_other: "flat_pass f flat ts s = Inr (ts', s') \<Longrightarrow> t \<notin> set flat \<Longrightarrow> map_of ts' t = map_of ts t"
  by (induction flat arbitrary: ts s) (auto simp: flat_pass_step update_conv')

lemma flat_pass_get:
  assumes "flat_pass f flat ts s = Inr (ts', s')" and "distinct flat" and "t \<in> set flat"
  shows "\<exists>d d' u v. map_of ts t = Some d \<and> f t d u = Inr (d', v) \<and> map_of ts' t = Some d'"
  using assms
proof (induction flat arbitrary: ts s)
  case (Cons x flat)
  obtain d d' u where u: "map_of ts x = Some d" "f x d s = Inr (d', u)" "flat_pass f flat (AList.update x d' ts) u = Inr (ts', s')"
    using Cons.prems(1) by (auto simp: flat_pass_step)
  show ?case
  proof (cases "t = x")
    case True
    then have "map_of ts' t = Some d'" using flat_pass_other [OF u(3)] Cons.prems(2) by (simp add: update_conv')
    then show ?thesis using u True by blast
  next
    case False
    then show ?thesis using Cons.IH [OF u(3)] Cons.prems by (auto simp: update_conv')
  qed
qed simp

lemma bind_then:
  "Option.bind m (\<lambda>r. case ebind r h of Inl e \<Rightarrow> Some (Inl e) | Inr x \<Rightarrow> f x) = Some (Inr y) \<longleftrightarrow>
     (\<exists>a x. m = Some (Inr a) \<and> h a = Inr x \<and> f x = Some (Inr y))"
proof (cases m)
  case (Some r)
  then show ?thesis by (cases r) (auto split: sum.splits)
qed simp

lemma bind_case:
  "Option.bind m (case_sum (\<lambda>e. Some (Inl e)) f) = Some (Inr y) \<longleftrightarrow> (\<exists>x. m = Some (Inr x) \<and> f x = Some (Inr y))"
proof (cases m)
  case (Some r)
  then show ?thesis by (cases r) auto
qed simp

lemma publish_keys:
  assumes "efold (publish c key target) ts ds = Inr ts'"
  shows "map fst ts' = map fst ts"
  using assms
proof (rule efold_invariant [where P = "\<lambda>us. map fst us = map fst ts"])
  show "map fst us' = map fst ts" if "map fst us = map fst ts" "publish c key target us d = Inr us'" for us d us'
    using that by (auto simp: publish_def update_known split: option.splits)
qed simp

lemma settings_keys:
  "dependent_settings_loop c g key flat ts = Some (Inr ts') \<Longrightarrow> map fst ts' = map fst ts"
proof (induction flat arbitrary: ts)
  case (Cons t flat)
  then obtain ds us where "efold (publish c key t) ts ds = Inr us" "dependent_settings_loop c g key flat us = Some (Inr ts')"
    by (auto simp: bind_then split: if_splits)
  then show ?case using Cons.IH publish_keys by metis
qed simp

lemma adjust_keys:
  "adjust_loop g flat srt xs ts = Some (Inr ts') \<Longrightarrow> map fst ts' = map fst ts"
proof (induction xs arbitrary: ts)
  case (Cons t xs)
  then obtain d where d: "adjust_target g flat srt ts t = Some (Inr d)" "adjust_loop g flat srt xs (AList.update t d ts) = Some (Inr ts')"
    by (auto simp: bind_case)
  obtain e where "map_of ts t = Some e" using d(1) by (auto simp: adjust_target_def split: option.splits)
  then show ?case using Cons.IH [OF d(2)] by (simp add: update_known)
qed simp

lemma process_targets_result:
  assumes "process_targets c gi a n variables g flat targets s = Inr (targets', s')" and "distinct flat"
  shows "map fst targets' = map fst targets
    \<and> (\<forall>t\<in>set flat. \<exists>b d d'. validate_target gi b t d = Inr d' \<and> map_of targets' t = Some d')"
proof -
  obtain ts1 s1 ts2 s2 ts3 s3 ts4 s4 ts5 s5 ts6 s6 arm s7 where p:
    "hfold (publish_settings c g flat) targets [''all_dependent_settings'', ''direct_dependent_settings'', ''link_settings''] s = Inr (ts1, s1)"
    "(if gi_wants_static_library_dependencies_adjusted gi
      then hlift (returned (AdjustStaticLibraryDependencies flat ts1 g (gi_wants_sorted_dependencies gi))) else hret ts1) s1 = Inr (ts2, s2)"
    "flat_pass (expand_target c n PHASE_LATE variables) flat ts2 s2 = Inr (ts3, s3)"
    "flat_pass (\<lambda>t d. hlift (set_up_target c gi t d)) flat ts3 s3 = Inr (ts4, s4)"
    "flat_pass (\<lambda>t d. hlift (ProcessListFiltersInDict (ec_compile (lc_expand c)) t d)) flat ts4 s4 = Inr (ts5, s5)"
    "flat_pass (expand_target c n PHASE_LATELATE variables) flat ts5 s5 = Inr (ts6, s6)"
    "targets_arm variables s6 = Inr (arm, s7)"
    "flat_pass (\<lambda>t d. hlift (validate_target gi (la_duplicate_basename_check a \<and> \<not> arm) t d)) flat ts6 s7 = Inr (targets', s')"
    using assms(1) unfolding process_targets_def by (simp only: hbind_Inr) blast
  have "map fst us' = map fst us" if "publish_settings c g flat us key u = Inr (us', v)" for us us' key u v
    using that settings_keys flat_pass_keys
    by (simp add: publish_settings_def hbind_Inr hlift_def DoDependentSettings_def) metis
  then have "map fst ts1 = map fst targets" using p(1) by (simp add: hbind_Inr) metis
  moreover have "map fst ts2 = map fst ts1"
    using p(2) adjust_keys by (auto simp: hlift_def AdjustStaticLibraryDependencies_def split: if_splits)
  ultimately have "map fst targets' = map fst targets" using p(3-) by (simp add: flat_pass_keys)
  moreover have "\<exists>b d d'. validate_target gi b t d = Inr d' \<and> map_of targets' t = Some d'" if "t \<in> set flat" for t
    using flat_pass_get [OF p(8) assms(2) that] by (auto simp: hlift_def)
  ultimately show ?thesis by blast
qed

lemma validate_type:
  assumes "validate_target gi b t d = Inr d'"
  shows "\<exists>ty\<in>set VALID_TARGET_TYPES. dget d' ''type'' = Some (PStr ty)"
proof -
  have v: "ValidateTargetType t d = Inr ()" and "\<exists>st. d' = d \<or> d' = dset ''rules'' st d"
    using assms by (auto simp: validate_target_def ValidateRulesInTarget_def Let_def split: if_splits)
  then have "dget d' ''type'' = dget d ''type''" by auto
  moreover have "dget_or d ''type'' PNone \<in> PStr ` set VALID_TARGET_TYPES"
    using v by (auto simp: ValidateTargetType_def Let_def split: if_splits)
  ultimately show ?thesis by (auto simp: dget_or_def split: option.splits)
qed

lemma turn_ints_get: "map_of (turn_ints ts) t = map_option TurnIntIntoStrInDict (map_of ts t)"
  by (induction ts) (auto simp: turn_ints_def)

lemma turned_get: "dget (TurnIntIntoStrInDict d) k = map_option TurnIntIntoStr (dget d k)"
  by (induction d) (auto simp: TurnIntIntoStrInDict_def)

lemma turned_free: "int_free (PDict (TurnIntIntoStrInDict d))"
  using TurnInt_free [of "PDict d"] by (simp add: TurnIntIntoStrInDict_def comp_def)


lemma Load_passes:
  assumes "Load c gi a n k build_files variables es = Inr ((flat, targets, data), es')"
  shows "\<exists>s u data0 g data1 ts ts'.
    load_build_files (SetGeneratorGlobals gi c) n k (la_order a (remdups (map normpath build_files)))
      (load_start_state variables es) = Inr ((), s)
    \<and> resolve_targets (SetGeneratorGlobals gi c) a (la_order a (ls_targets s)) data0 = Inr (g, flat, ts, data1)
    \<and> process_targets (SetGeneratorGlobals gi c) gi a n (ls_variables s) g flat ts u = Inr (ts', es')
    \<and> targets = turn_ints ts' \<and> data = turn_ints (attach_targets ts' (la_order a (ls_targets s)) data1)"
  using assms unfolding Load_def Let_def load_passes_def
  by (clarsimp simp: hbind_Inr hlift_def split: prod.splits) blast

text \<open>
  C1: what \<open>Load\<close> returns: the flat list has every target once, no two targets have the same name in the
  same directory, each target has one of the valid types, and neither the targets nor the build files
  contain an integer.
\<close>

theorem Load_correct:
  assumes "Load c gi a n k build_files variables es = Inr ((flat, targets, data), es')"
  shows "distinct flat \<and> set flat = fst ` set targets \<and> distinct (map fst targets) \<and> distinct (map place flat)
    \<and> (\<forall>t\<in>set flat. \<exists>d. map_of targets t = Some d \<and> int_free (PDict d)
         \<and> (\<exists>ty\<in>set VALID_TARGET_TYPES. dget d ''type'' = Some (PStr ty)))
    \<and> (\<forall>(f, d)\<in>set data. int_free (PDict d))"
proof -
  obtain s :: load_state and u data0 g data1 ts ts' where
    r: "resolve_targets (SetGeneratorGlobals gi c) a (la_order a (ls_targets s)) data0 = Inr (g, flat, ts, data1)"
    and p: "process_targets (SetGeneratorGlobals gi c) gi a n (ls_variables s) g flat ts u = Inr (ts', es')"
      "targets = turn_ints ts'" "data = turn_ints (attach_targets ts' (la_order a (ls_targets s)) data1)"
    using Load_passes [OF assms] by (elim exE conjE) (rule that; assumption)
  note res = resolve_result [OF r]
  note proc = process_targets_result [OF p(1) conjunct1 [OF res]]
  have keys: "map fst targets = map fst ts" using proc p(2) by (simp add: turn_ints_def comp_def)
  have "\<exists>d. map_of targets t = Some d \<and> int_free (PDict d) \<and> (\<exists>ty\<in>set VALID_TARGET_TYPES. dget d ''type'' = Some (PStr ty))"
    if t: "t \<in> set flat" for t
  proof -
    obtain d' ty where d': "map_of ts' t = Some d'" "ty \<in> set VALID_TARGET_TYPES" "dget d' ''type'' = Some (PStr ty)"
      using conjunct2 [OF proc, rule_format, OF t] validate_type by blast
    then have "map_of targets t = Some (TurnIntIntoStrInDict d')" by (simp add: p(2) turn_ints_get)
    moreover have "dget (TurnIntIntoStrInDict d') ''type'' = Some (PStr ty)" using d'(3) by (simp add: turned_get)
    ultimately show ?thesis using turned_free d'(2) by blast
  qed
  moreover have "\<forall>(f, d)\<in>set data. int_free (PDict d)" using turned_free by (auto simp: p(3) turn_ints_def simp del: int_free.simps)
  moreover have "fst ` set targets = fst ` set ts" using keys by (metis list.set_map)
  ultimately show ?thesis using res keys by simp
qed


section \<open>An example\<close>

definition example_input :: generator_input where
  "example_input =
     \<lparr>gi_path_sections = [], gi_non_configuration_keys = [], gi_supports_multiple_toolsets = False,
      gi_filelist_paths = None, gi_extra_sources_for_rules = [], gi_wants_static_library_dependencies_adjusted = True,
      gi_wants_sorted_dependencies = False\<rparr>"

definition example_args :: load_args where
  "example_args =
     \<lparr>la_circular_check = True, la_duplicate_basename_check = True, la_root_targets = [], la_order = (\<lambda>xs. xs),
      la_pick = (\<lambda>_. 0)\<rparr>"

text \<open>A file with one target, and the value of a file of two, of which one depends on the other.\<close>

definition one_target :: pydict where
  "one_target = [(''targets'', PList [PDict [(''target_name'', PStr ''x''), (''type'', PStr ''none'')]])]"

definition one_target_ctx :: load_ctx where
  "one_target_ctx =
     example_load_ctx\<lparr>lc_read := (\<lambda>f. if f = ''a'' then Some f else None), lc_eval := (\<lambda>_. Inr (PDict one_target))\<rparr>"

definition two_targets :: "(string \<times> pydict) list" where
  "two_targets =
     [(''a'', [(''targets'', PList
         [PDict [(''target_name'', PStr ''x''), (''toolset'', PStr ''t''), (''type'', PStr ''none''),
                 (''dependencies'', PList [PStr ''y''])],
          PDict [(''target_name'', PStr ''y''), (''toolset'', PStr ''t''), (''type'', PStr ''none'')]])])]"

lemma example_resolve:
  "map_sum id (\<lambda>p. fst (snd p)) (resolve_targets one_target_ctx example_args [''a''] two_targets)
   = Inr [''a:y#t'', ''a:x#t'']"
  by code_simp

lemma example_Load:
  "map_sum id (\<lambda>p. fst (fst p)) (Load one_target_ctx example_input example_args 6 1 [''a''] [] (example_state []))
   = Inr [''a:x#target'']"
  by code_simp

theorem resolve_targets_correct_witness:
  "\<exists>g targets data'. resolve_targets one_target_ctx example_args [''a''] two_targets
      = Inr (g, [''a:y#t'', ''a:x#t''], targets, data')
    \<and> fst ` set targets = {''a:x#t'', ''a:y#t''} \<and> set (target_deps targets ''a:x#t'') \<subseteq> {''a:y#t''}"
proof -
  obtain g targets data' where r: "resolve_targets one_target_ctx example_args [''a''] two_targets
      = Inr (g, [''a:y#t'', ''a:x#t''], targets, data')"
    using example_resolve by (cases "resolve_targets one_target_ctx example_args [''a''] two_targets") auto
  have keys: "set [''a:y#t'', ''a:x#t''] = fst ` set targets"
    using resolve_targets_correct [OF r] by (elim conjE)
  have order: "\<forall>ys t zs. [''a:y#t'', ''a:x#t''] = ys @ t # zs \<longrightarrow> set (target_deps targets t) \<subseteq> set ys"
    using resolve_targets_correct [OF r] by (elim conjE)
  have "fst ` set targets = {''a:x#t'', ''a:y#t''}" unfolding keys [symmetric] by (simp add: insert_commute)
  moreover have "set (target_deps targets ''a:x#t'') \<subseteq> {''a:y#t''}"
    using order [rule_format, of "[''a:y#t'']" "''a:x#t''" "[]"] by simp
  ultimately show ?thesis using r by blast
qed

theorem Load_correct_witness:
  "\<exists>targets data es' d. Load one_target_ctx example_input example_args 6 1 [''a''] [] (example_state [])
      = Inr (([''a:x#target''], targets, data), es')
    \<and> map_of targets ''a:x#target'' = Some d \<and> int_free (PDict d)"
proof -
  obtain targets data es' where r: "Load one_target_ctx example_input example_args 6 1 [''a''] [] (example_state [])
      = Inr (([''a:x#target''], targets, data), es')"
    using example_Load
    by (cases "Load one_target_ctx example_input example_args 6 1 [''a''] [] (example_state [])") auto
  from Load_correct [OF r] have
    "\<forall>t\<in>set [''a:x#target'']. \<exists>d. map_of targets t = Some d \<and> int_free (PDict d)
       \<and> (\<exists>ty\<in>set VALID_TARGET_TYPES. dget d ''type'' = Some (PStr ty))"
    by (elim conjE)
  then obtain d where "map_of targets ''a:x#target'' = Some d" "int_free (PDict d)" unfolding list.set by blast
  with r show ?thesis by blast
qed

end
