(* ===== verification/NtPath.thy ===== *)
theory NtPath
  imports Prelude
begin

text \<open>
  The part of Python's \<open>ntpath\<close> that gyp calls when it runs on Windows: \<open>splitdrive\<close>, \<open>join\<close>,
  \<open>split\<close>, \<open>splitext\<close> and \<open>normpath\<close>. A path has a drive (a letter with a colon, or the server and
  share of a UNC path) and both slashes separate.
\<close>

abbreviation bslash :: char where "bslash \<equiv> CHR 0x5C"

definition win_sep :: "char \<Rightarrow> bool" where
  "win_sep c \<longleftrightarrow> c = bslash \<or> c = CHR ''/''"

section \<open>Drives\<close>

text \<open>Behind the two leading separators of a UNC path: the server, a separator, the share.\<close>

definition unc_drive :: "string \<Rightarrow> (string \<times> string) option" where
  "unc_drive p =
     (let server = takeWhile (\<lambda>c. \<not> win_sep c) (drop 2 p);
          rest = drop (2 + length server) p;
          share = takeWhile (\<lambda>c. \<not> win_sep c) (tl rest) in
      if rest = [] \<or> (share = [] \<and> tl rest \<noteq> []) then None
      else Some (take (3 + length server + length share) p, drop (3 + length server + length share) p))"

definition win_splitdrive :: "string \<Rightarrow> string \<times> string" where
  "win_splitdrive p =
     (case p of
        a # b # rest \<Rightarrow>
          if win_sep a \<and> win_sep b \<and> (rest = [] \<or> \<not> win_sep (hd rest))
          then (case unc_drive p of Some dp \<Rightarrow> dp | None \<Rightarrow> ([], p))
          else if b = CHR '':'' then ([a, b], rest)
          else ([], p)
      | _ \<Rightarrow> ([], p))"

lemma win_splitdrive_append: "win_splitdrive p = (d, r) \<Longrightarrow> d @ r = p"
  by (auto simp: win_splitdrive_def unc_drive_def Let_def split: list.splits option.splits if_splits)

section \<open>Joining and splitting\<close>

definition lower_char :: "char \<Rightarrow> char" where
  "lower_char c = (let n = of_char c :: nat in if 65 \<le> n \<and> n \<le> 90 then char_of (n + 32) else c)"

definition upper_char :: "char \<Rightarrow> char" where
  "upper_char c = (let n = of_char c :: nat in if 97 \<le> n \<and> n \<le> 122 then char_of (n - 32) else c)"

definition lower :: "string \<Rightarrow> string" where
  "lower s = map lower_char s"

definition upper :: "string \<Rightarrow> string" where
  "upper s = map upper_char s"

definition win_join :: "string \<Rightarrow> string \<Rightarrow> string" where
  "win_join a b =
     (let (d, p) = win_splitdrive a; (d', p') = win_splitdrive b;
          (rd, rp) =
            (if p' \<noteq> [] \<and> win_sep (hd p') then (if d' \<noteq> [] \<or> d = [] then d' else d, p')
             else if d' \<noteq> [] \<and> lower d' \<noteq> lower d then (d', p')
             else (if d' \<noteq> [] then d' else d,
                   (if p \<noteq> [] \<and> \<not> win_sep (last p) then p @ [bslash] else p) @ p')) in
      if rp \<noteq> [] \<and> \<not> win_sep (hd rp) \<and> rd \<noteq> [] \<and> last rd \<noteq> CHR '':'' then rd @ bslash # rp
      else rd @ rp)"

definition win_tail :: "string \<Rightarrow> string" where
  "win_tail p = rev (takeWhile (\<lambda>c. \<not> win_sep c) (rev p))"

definition win_split :: "string \<Rightarrow> string \<times> string" where
  "win_split path =
     (let (d, p) = win_splitdrive path;
          head = rev (dropWhile (\<lambda>c. \<not> win_sep c) (rev p));
          head2 = rev (dropWhile win_sep (rev head)) in
      (d @ (if head2 \<noteq> [] then head2 else head), win_tail p))"

definition win_dirname :: "string \<Rightarrow> string" where
  "win_dirname p = fst (win_split p)"

text \<open>The last dot behind the last separator, unless only dots are before it.\<close>

definition win_splitext :: "string \<Rightarrow> string \<times> string" where
  "win_splitext p =
     (let tail = win_tail p; head = take (length p - length tail) p in
      case rsplit1 (CHR ''.'') tail of
        None \<Rightarrow> (p, [])
      | Some (a, b) \<Rightarrow> if list_all (\<lambda>c. c = CHR ''.'') a then (p, []) else (head @ a, CHR ''.'' # b))"

section \<open>Normal form\<close>

text \<open>The loop over the components; \<open>acc\<close> holds the ones before the index, reversed.\<close>

fun win_comps :: "bool \<Rightarrow> string list \<Rightarrow> string list \<Rightarrow> string list" where
  "win_comps rooted acc [] = rev acc"
| "win_comps rooted acc (c # cs) =
     (if c = [] \<or> c = ''.'' then win_comps rooted acc cs
      else if c = ''..'' \<and> acc \<noteq> [] \<and> hd acc \<noteq> ''..'' then win_comps rooted (tl acc) cs
      else if c = ''..'' \<and> acc = [] \<and> rooted then win_comps rooted acc cs
      else win_comps rooted (c # acc) cs)"

definition win_normpath :: "string \<Rightarrow> string" where
  "win_normpath path =
     (if starts_with path [bslash, bslash, CHR ''.'', bslash] \<or> starts_with path [bslash, bslash, CHR ''?'', bslash]
      then path
      else
        let path = map (\<lambda>c. if c = CHR ''/'' then bslash else c) path;
            (prefix, path) = win_splitdrive path;
            slashes = takeWhile (\<lambda>c. c = bslash) path;
            prefix = (if prefix = [] then slashes else if slashes \<noteq> [] then prefix @ [bslash] else prefix);
            comps = win_comps (prefix \<noteq> [] \<and> last prefix = bslash) [] (split_on bslash (dropWhile (\<lambda>c. c = bslash) path)) in
        if prefix = [] \<and> comps = [] then ''.'' else prefix @ join_with [bslash] comps)"

lemma win_path_examples:
  "win_normpath ''a/./b/../c'' = ''a'' @ bslash # ''c''"
  "win_normpath ''C:/../x'' = ''C:'' @ bslash # ''x''"
  "win_normpath '''' = ''.''"
  "win_join ''C:a'' ''b'' = ''C:a'' @ bslash # ''b''"
  "win_join ''a'' ''c:/b'' = ''c:/b''"
  "win_split ''C:/a/b.c'' = (''C:/a'', ''b.c'')"
  "win_splitext ''a.b/c'' = (''a.b/c'', [])"
  "win_splitext ''a/x.y.cc'' = (''a/x.y'', ''.cc'')"
  "win_splitdrive ''//host/share/x'' = (''//host/share'', ''/x'')"
  by code_simp+

end
