(* ===== verification/MsvsFlags.thy ===== *)
theory MsvsFlags
  imports PyVal NtPath
begin

text \<open>
  The settings of the Microsoft tools read by \<open>gyp/msvs_emulation.py\<close>: retrieval of a setting from a
  tree of dictionaries, the macros of Visual Studio, the choice of the configuration, and the command
  line flags of the compiler. The version of Visual Studio and the directories found in the
  environment are a record; the path functions of the generator (\<open>gyp_to_build_path\<close>,
  \<open>expand_special\<close>) are arguments.
\<close>

section \<open>Retrieval of settings\<close>

text \<open>The argument \<open>map\<close> is a dictionary from strings to strings or a function.\<close>

datatype remap =
    NoMap
  | Table "(string \<times> string) list"
  | Callable "pyval \<Rightarrow> pyval res"

fun GenericRetrieve :: "pyval \<Rightarrow> pyval \<Rightarrow> string list \<Rightarrow> pyval res" where
  "GenericRetrieve root dflt [] = Inr (if truth root then root else dflt)"
| "GenericRetrieve root dflt (k # path) =
     (if \<not> truth root then Inr dflt
      else ebind (as_dict root) (\<lambda>d. GenericRetrieve (dget_or d k PNone) dflt path))"

fun AddPrefix :: "pyval \<Rightarrow> string \<Rightarrow> pyval res" where
  "AddPrefix PNone pre = Inr PNone"
| "AddPrefix (PList xs) pre =
     ebind (emap as_str xs) (\<lambda>ss. Inr (PList (map (\<lambda>s. PStr (pre @ s)) ss)))"
| "AddPrefix v pre = ebind (as_str v) (\<lambda>s. Inr (PStr (pre @ s)))"

text \<open>\<open>map.get\<close> of a dictionary: a list or a dictionary cannot be looked up.\<close>

definition table_get :: "(string \<times> string) list \<Rightarrow> pyval \<Rightarrow> pyval res" where
  "table_get t v =
     (if \<not> hashable v then Inl TypeErr
      else Inr (case v of PStr s \<Rightarrow> (case map_of t s of Some r \<Rightarrow> PStr r | None \<Rightarrow> PNone) | _ \<Rightarrow> PNone))"

definition remap_elem :: "(pyval \<Rightarrow> pyval res) \<Rightarrow> pyval \<Rightarrow> pyval res" where
  "remap_elem f v =
     (case v of
        PNone \<Rightarrow> Inr PNone
      | PList xs \<Rightarrow> ebind (emap f xs) (\<lambda>ys. Inr (PList (filter truth ys)))
      | _ \<Rightarrow> f v)"

definition DoRemapping :: "pyval \<Rightarrow> remap \<Rightarrow> pyval res" where
  "DoRemapping v m =
     (case m of NoMap \<Rightarrow> Inr v | Table t \<Rightarrow> remap_elem (table_get t) v | Callable f \<Rightarrow> remap_elem f v)"

text \<open>\<open>_AppendOrReturn\<close> with a list: after \<open>_AddPrefix\<close> every element is a string.\<close>

definition append_flags :: "string list \<Rightarrow> pyval \<Rightarrow> string list res" where
  "append_flags flags v =
     (case v of
        PNone \<Rightarrow> Inr flags
      | PList xs \<Rightarrow> ebind (emap as_str xs) (\<lambda>ss. Inr (flags @ ss))
      | _ \<Rightarrow> ebind (as_str v) (\<lambda>s. Inr (flags @ [s])))"

definition GetAndMunge :: "pyval \<Rightarrow> string list \<Rightarrow> pyval \<Rightarrow> string \<Rightarrow> remap \<Rightarrow> pyval res" where
  "GetAndMunge field path dflt pre m =
     ebind (GenericRetrieve field dflt path) (\<lambda>result.
     ebind (DoRemapping result m) (\<lambda>result. AddPrefix result pre))"

text \<open>
  \<open>_GetWrapper.__call__\<close> with a list to append to. A call is the name of the setting, its map, its
  prefix and its default value; the flags of a tool are a sequence of calls.
\<close>

type_synonym flag_call = "string \<times> remap \<times> string \<times> pyval"

definition wrapper_call :: "pyval \<Rightarrow> string \<Rightarrow> string list \<Rightarrow> flag_call \<Rightarrow> string list res" where
  "wrapper_call field base flags call =
     (case call of (name, m, pre, dflt) \<Rightarrow>
        ebind (GetAndMunge field [base, name] dflt pre m) (append_flags flags))"

definition wrapper_calls :: "pyval \<Rightarrow> string \<Rightarrow> string list \<Rightarrow> flag_call list \<Rightarrow> string list res" where
  "wrapper_calls field base flags calls = efold (wrapper_call field base) flags calls"

section \<open>The macros of Visual Studio\<close>

record vs_world =
  vs_short_name :: string
  vs_path :: string
  environ :: "string \<rightharpoonup> string"
  reg_output :: string

text \<open>\<open>s.split(sep)\<close> for a separator of several characters, and \<open>s.splitlines()\<close>.\<close>

function (sequential) split_str :: "string \<Rightarrow> string \<Rightarrow> string \<Rightarrow> string list" where
  "split_str sep acc [] = [rev acc]"
| "split_str sep acc (c # cs) =
     (if sep \<noteq> [] \<and> starts_with (c # cs) sep then rev acc # split_str sep [] (drop (length sep - 1) cs)
      else split_str sep (c # acc) cs)"
  by pat_completeness auto
termination by (relation "measure (\<lambda>(_, _, s). length s)") auto

fun lines_from :: "string \<Rightarrow> string \<Rightarrow> string list" where
  "lines_from acc [] = (if acc = [] then [] else [rev acc])"
| "lines_from acc (c # cs) =
     (if c = CHR 0x0D then
        (case cs of
           [] \<Rightarrow> [rev acc]
         | d # ds \<Rightarrow> rev acc # (if d = CHR 0x0A then lines_from [] ds else lines_from [] cs))
      else if c = CHR 0x0A then rev acc # lines_from [] cs
      else lines_from (c # acc) cs)"

definition splitlines :: "string \<Rightarrow> string list" where
  "splitlines s = lines_from [] s"

text \<open>
  \<open>_FindDirectXInstallation\<close>: the environment, else the registry, whose last line with an install path
  counts. The first answer is kept.
\<close>

definition directx_dir :: "vs_world \<Rightarrow> string option res" where
  "directx_dir w =
     (case environ w ''DXSDK_DIR'' of
        Some (c # cs) \<Rightarrow> Inr (Some (c # cs))
      | d \<Rightarrow>
          efold (\<lambda>dir line.
            if sublist ''InstallPath'' line
            then (let parts = split_str ''    '' [] line in
                  if length parts \<le> 3 then Inl IndexErr else Inr (Some (parts ! 3 @ [bslash])))
            else Inr dir) d (splitlines (reg_output w)))"

definition FindDirectXInstallation ::
  "vs_world \<Rightarrow> string option option \<Rightarrow> (string option \<times> string option option) res" where
  "FindDirectXInstallation w cache =
     (case cache of
        Some dir \<Rightarrow> Inr (dir, cache)
      | None \<Rightarrow> ebind (directx_dir w) (\<lambda>dir. Inr (dir, Some dir)))"

definition GetGlobalVSMacroEnv :: "vs_world \<Rightarrow> pydict res" where
  "GetGlobalVSMacroEnv w =
     ebind (directx_dir w) (\<lambda>dxsdk_dir.
       Inr ((if vs_path w \<noteq> []
             then [(''$(VSInstallDir)'', PStr (vs_path w)),
                   (''$(VCInstallDir)'', PStr (win_join (vs_path w) ''VC'' @ [bslash]))] else [])
            @ [(''$(DXSDK_DIR)'', PStr (case dxsdk_dir of Some d \<Rightarrow> d | None \<Rightarrow> [])),
               (''$(WDK_DIR)'', PStr (case environ w ''WDK_DIR'' of Some d \<Rightarrow> d | None \<Rightarrow> []))]))"

definition expand_macro :: "pyval \<Rightarrow> string \<times> pyval \<Rightarrow> pyval res" where
  "expand_macro v entry =
     (case entry of (old, new) \<Rightarrow>
        ebind (str_in ''$('' new) (\<lambda>bad.
          if bad then Inl AssertErr
          else ebind (as_str v) (\<lambda>s. ebind (as_str new) (\<lambda>n. Inr (PStr (py_replace old n s))))))"

definition ExpandMacros :: "pyval \<Rightarrow> pydict \<Rightarrow> pyval res" where
  "ExpandMacros v expansions =
     ebind (str_in ''$'' v) (\<lambda>macro. if macro then efold expand_macro v expansions else Inr v)"

section \<open>The settings of a target\<close>

text \<open>Each field maps the name of a configuration to its value there.\<close>

record msvs =
  m_spec :: pydict
  m_world :: vs_world
  configuration_attributes :: pydict
  msvs_settings :: pydict
  system_include_dirs :: pydict
  disabled_warnings :: pydict
  precompiled_header :: pydict
  precompiled_source :: pydict
  configuration_platform :: pydict
  target_platform :: pydict
  cygwin_dirs :: pyval

definition per_config :: "pydict \<Rightarrow> string \<Rightarrow> pyval \<Rightarrow> pydict res" where
  "per_config configs field dflt =
     emap (\<lambda>(configname, config). ebind (as_dict config) (\<lambda>c. Inr (configname, dget_or c field dflt)))
       configs"

definition unsupported_messages :: "pydict \<Rightarrow> pydict \<Rightarrow> string list res" where
  "unsupported_messages spec configs =
     efold (\<lambda>msgs (field, config).
       ebind (str_in field config) (\<lambda>there.
         if there
         then ebind (dindex spec ''target_name'') (\<lambda>name.
                Inr (msgs @ [field @ '' not supported (target '' @ py_str name @ '').'']))
         else Inr msgs))
       [] (concat (map (\<lambda>field. map (\<lambda>c. (field, snd c)) configs) [''msvs_prebuild'', ''msvs_postbuild'']))"

definition MsvsSettings :: "vs_world \<Rightarrow> pydict \<Rightarrow> msvs res" where
  "MsvsSettings w spec =
     ebind (dindex spec ''configurations'') (\<lambda>v. ebind (as_dict v) (\<lambda>configs.
     ebind (per_config configs ''msvs_configuration_attributes'' (PDict [])) (\<lambda>attributes.
     ebind (per_config configs ''msvs_settings'' (PDict [])) (\<lambda>settings.
     ebind (per_config configs ''msvs_system_include_dirs'' (PList [])) (\<lambda>includes.
     ebind (per_config configs ''msvs_disabled_warnings'' (PList [])) (\<lambda>warnings.
     ebind (per_config configs ''msvs_precompiled_header'' (PStr [])) (\<lambda>header.
     ebind (per_config configs ''msvs_precompiled_source'' (PStr [])) (\<lambda>source.
     ebind (per_config configs ''msvs_configuration_platform'' (PStr [])) (\<lambda>cplatform.
     ebind (per_config configs ''msvs_target_platform'' (PStr [])) (\<lambda>tplatform.
     ebind (unsupported_messages spec configs) (\<lambda>unsupported.
       if unsupported \<noteq> [] then Inl (PlainExc (join_with [CHR 0x0A] unsupported))
       else Inr \<lparr>m_spec = spec, m_world = w, configuration_attributes = attributes,
                  msvs_settings = settings, system_include_dirs = includes,
                  disabled_warnings = warnings, precompiled_header = header,
                  precompiled_source = source, configuration_platform = cplatform,
                  target_platform = tplatform,
                  cygwin_dirs = dget_or spec ''msvs_cygwin_dirs'' (PList [PStr ''.''])\<rparr>)))))))))))"

text \<open>The configuration is \<open>None\<close> where a caller leaves the argument out.\<close>

definition at_config :: "pydict \<Rightarrow> string option \<Rightarrow> pyval" where
  "at_config d config = (case config of None \<Rightarrow> PStr [] | Some c \<Rightarrow> dget_or d c (PStr []))"

definition GetArch :: "msvs \<Rightarrow> string option \<Rightarrow> string res" where
  "GetArch m config =
     (let platform = at_config (target_platform m) config;
          platform = (if truth platform then platform else at_config (configuration_platform m) config) in
      if \<not> hashable platform then Inl TypeErr
      else Inr (if platform = PStr ''x64'' then ''x64'' else ''x86''))"

definition TargetConfig :: "msvs \<Rightarrow> string \<Rightarrow> string res" where
  "TargetConfig m config =
     ebind (GetArch m (Some config)) (\<lambda>arch.
       let config = (if arch = ''x64'' \<and> \<not> ends_with config ''_x64'' then config @ ''_x64'' else config) in
       Inr (if arch = ''x86'' \<and> ends_with config ''_x64''
            then (case rsplit1 (CHR ''_'') config of Some (c, _) \<Rightarrow> c | None \<Rightarrow> config) else config))"

text \<open>\<open>v + w\<close>.\<close>

fun as_number :: "pyval \<Rightarrow> int res" where
  "as_number (PInt i) = Inr i"
| "as_number (PBool b) = Inr (if b then 1 else 0)"
| "as_number _ = Inl TypeErr"

fun py_add :: "pyval \<Rightarrow> pyval \<Rightarrow> pyval res" where
  "py_add (PStr s) (PStr t) = Inr (PStr (s @ t))"
| "py_add (PList xs) (PList ys) = Inr (PList (xs @ ys))"
| "py_add v w = ebind (as_number v) (\<lambda>i. ebind (as_number w) (\<lambda>j. Inr (PInt (i + j))))"

definition GetVSMacroEnv :: "msvs \<Rightarrow> string \<Rightarrow> string option \<Rightarrow> pydict res" where
  "GetVSMacroEnv m base_to_build config =
     ebind (GetArch m config) (\<lambda>arch.
     ebind (dindex (m_spec m) ''target_name'') (\<lambda>name.
     ebind (py_add (dget_or (m_spec m) ''product_prefix'' (PStr [])) (dget_or (m_spec m) ''product_name'' name))
       (\<lambda>target_name.
     ebind (GetGlobalVSMacroEnv (m_world m)) (\<lambda>global.
       let target_dir = (if base_to_build \<noteq> [] then base_to_build @ [bslash] else []) in
       Inr ([(''$(OutDir)'' @ [bslash], PStr target_dir),
             (''$(TargetDir)'' @ [bslash], PStr target_dir),
             (''$(IntDir)'', PStr ''$!INTERMEDIATE_DIR''),
             (''$(InputPath)'', PStr ''${source}''),
             (''$(InputName)'', PStr ''${root}''),
             (''$(ProjectName)'', name),
             (''$(TargetName)'', target_name),
             (''$(PlatformName)'', PStr (if arch = ''x86'' then ''Win32'' else ''x64'')),
             (''$(ProjectDir)'' @ [bslash], PStr [])]
            @ global)))))"

definition ConvertVSMacros :: "msvs \<Rightarrow> pyval \<Rightarrow> string \<Rightarrow> string option \<Rightarrow> pyval res" where
  "ConvertVSMacros m v base_to_build config = ebind (GetVSMacroEnv m base_to_build config) (ExpandMacros v)"

definition Setting :: "msvs \<Rightarrow> string list \<Rightarrow> string \<Rightarrow> pyval \<Rightarrow> pyval res" where
  "Setting m path config dflt =
     ebind (dindex (msvs_settings m) config) (\<lambda>field. GetAndMunge field path dflt [] NoMap)"

definition ConfigAttrib :: "msvs \<Rightarrow> string list \<Rightarrow> string \<Rightarrow> pyval res" where
  "ConfigAttrib m path config =
     ebind (dindex (configuration_attributes m) config) (\<lambda>field. GetAndMunge field path PNone [] NoMap)"

end
