(* ===== verification/MsvsMacros.thy ===== *)
theory MsvsMacros
  imports MsvsFlags "HOL-Library.Multiset"
begin

text \<open>
  What \<open>ExpandMacros\<close> of \<open>gyp/msvs_emulation.py\<close> computes: it replaces one macro after the other, in the
  order in which a dictionary is iterated, and the result is that of replacing all of them at once. A
  text is a list of tokens, single characters and macros; a dollar sign among the characters is followed
  by a character that does not open a macro.
\<close>

section \<open>Texts with macros\<close>

datatype mtoken = Lit char | Macro string

fun token_text :: "mtoken \<Rightarrow> string" where
  "token_text (Lit c) = [c]"
| "token_text (Macro k) = k"

definition tokens_text :: "mtoken list \<Rightarrow> string" where
  "tokens_text ts = concat (map token_text ts)"

fun no_open_dollar :: "mtoken list \<Rightarrow> bool" where
  "no_open_dollar [] = True"
| "no_open_dollar (Macro k # ts) = no_open_dollar ts"
| "no_open_dollar (Lit c # ts) =
     ((c = CHR ''$'' \<longrightarrow> (case ts of Lit d # _ \<Rightarrow> d \<noteq> CHR ''('' | _ \<Rightarrow> False)) \<and> no_open_dollar ts)"

definition closed_text :: "string \<Rightarrow> bool" where
  "closed_text s = no_open_dollar (map Lit s)"

definition macro_key :: "string \<Rightarrow> bool" where
  "macro_key k \<longleftrightarrow> starts_with k ''$('' \<and> CHR ''$'' \<notin> set (drop 1 k)"

definition prefix_free :: "string set \<Rightarrow> bool" where
  "prefix_free K \<longleftrightarrow> (\<forall>k\<in>K. \<forall>k'\<in>K. starts_with k k' \<longrightarrow> k = k')"

definition token_macros :: "mtoken list \<Rightarrow> string set" where
  "token_macros ts = {k. Macro k \<in> set ts}"

lemma tokens_text_simps [simp]:
  "tokens_text [] = []"
  "tokens_text (Lit c # ts) = c # tokens_text ts"
  "tokens_text (Macro k # ts) = k @ tokens_text ts"
  "tokens_text (ts @ us) = tokens_text ts @ tokens_text us"
  "tokens_text (map Lit s) = s"
  by (simp_all add: tokens_text_def) (induction s; simp)

lemma prefix_free_subset: "prefix_free K \<Longrightarrow> L \<subseteq> K \<Longrightarrow> prefix_free L"
  unfolding prefix_free_def by blast

lemma sublist_single: "sublist [x] s \<longleftrightarrow> x \<in> set s"
  by (auto simp: sublist_def in_set_conv_decomp)

lemma token_macros_simps [simp]:
  "token_macros [] = {}"
  "token_macros (Lit c # ts) = token_macros ts"
  "token_macros (Macro k # ts) = insert k (token_macros ts)"
  by (auto simp: token_macros_def)

lemma closed_text_no_macro: "closed_text v \<Longrightarrow> \<not> sublist ''$('' v"
proof (induction v)
  case (Cons c v)
  then show ?case
    by (cases v) (auto simp: closed_text_def sublist_Cons_right split: if_splits)
qed simp

section \<open>Replacing one macro\<close>

definition put_macro :: "string \<Rightarrow> string \<Rightarrow> mtoken list \<Rightarrow> mtoken list" where
  "put_macro k v ts = concat (map (\<lambda>t. if t = Macro k then map Lit v else [t]) ts)"

lemma put_macro_simps [simp]:
  "put_macro k v [] = []"
  "put_macro k v (Lit c # ts) = Lit c # put_macro k v ts"
  "put_macro k v (Macro k' # ts) = (if k' = k then map Lit v else [Macro k']) @ put_macro k v ts"
  by (simp_all add: put_macro_def)

lemma no_open_dollar_value:
  "closed_text v \<Longrightarrow> no_open_dollar ts \<Longrightarrow> no_open_dollar (map Lit v @ ts)"
proof (induction v)
  case (Cons c v)
  then show ?case by (cases v) (auto simp: closed_text_def)
qed simp

lemma no_open_dollar_put:
  "closed_text v \<Longrightarrow> no_open_dollar ts \<Longrightarrow> no_open_dollar (put_macro k v ts)"
proof (induction ts rule: no_open_dollar.induct)
  case (3 c ts)
  then show ?case by (cases ts; cases "hd ts") auto
qed (simp_all add: no_open_dollar_value)

lemma token_macros_put: "token_macros (put_macro k v ts) = token_macros ts - {k}"
  by (auto simp: token_macros_def put_macro_def split: if_splits)

text \<open>Within a macro nothing else begins; at a character no macro begins.\<close>

lemma py_replace_skip:
  "k \<noteq> [] \<Longrightarrow> hd k \<notin> set p \<Longrightarrow> py_replace k v (p @ s) = p @ py_replace k v s"
  by (induction p) (auto simp: starts_with_iff Cons_eq_append_conv)

lemma macro_not_here: "macro_key k \<Longrightarrow> no_open_dollar (Lit c # ts) \<Longrightarrow> \<not> starts_with (c # tokens_text ts) k"
  by (cases ts; cases "hd ts") (auto simp: macro_key_def starts_with_iff)

lemma macro_keyE:
  assumes "macro_key k"
  obtains r where "k = CHR ''$'' # r" and "CHR ''$'' \<notin> set r"
  using assms by (auto simp: macro_key_def starts_with_iff)

lemma starts_with_append:
  "starts_with (p @ s) k \<Longrightarrow> starts_with p k \<or> starts_with k p"
  unfolding starts_with_iff by (metis append_eq_append_conv2)

lemma py_replace_here: "k \<noteq> [] \<Longrightarrow> py_replace k v (k @ s) = v @ py_replace k v s"
  by (cases k) (auto simp: starts_with_iff)

lemma py_replace_put:
  assumes "no_open_dollar ts" and "macro_key k" and "\<forall>k\<in>token_macros ts. macro_key k"
    and "prefix_free (insert k (token_macros ts))"
  shows "py_replace k v (tokens_text ts) = tokens_text (put_macro k v ts)"
  using assms
proof (induction ts rule: no_open_dollar.induct)
  case (2 k' ts)
  have IH: "py_replace k v (tokens_text ts) = tokens_text (put_macro k v ts)"
    using 2 by (auto simp: prefix_free_def)
  obtain r where r: "k' = CHR ''$'' # r" "CHR ''$'' \<notin> set r" using 2 by (auto elim: macro_keyE)
  obtain q where q: "k = CHR ''$'' # q" using 2 by (auto elim: macro_keyE)
  show ?case
  proof (cases "k' = k")
    case True
    then show ?thesis
      using IH q py_replace_here [of k v "tokens_text ts"] by (simp del: py_replace.simps)
  next
    case False
    then have "\<not> starts_with (k' @ tokens_text ts) k"
      using 2(5) starts_with_append unfolding prefix_free_def by (metis insertCI token_macros_simps(3))
    then have "py_replace k v (k' @ tokens_text ts) = CHR ''$'' # py_replace k v (r @ tokens_text ts)"
      using r by simp
    also have "\<dots> = k' @ py_replace k v (tokens_text ts)"
      using r q by (simp add: py_replace_skip)
    finally show ?thesis using False IH by simp
  qed
next
  case (3 c ts)
  then show ?case using macro_not_here [of k c ts] by (simp add: prefix_free_def)
qed simp

section \<open>Replacing all of them\<close>

fun token_value :: "(string \<times> pyval) list \<Rightarrow> mtoken \<Rightarrow> string" where
  "token_value env (Lit c) = [c]"
| "token_value env (Macro k) = (case map_of env k of Some (PStr v) \<Rightarrow> v | _ \<Rightarrow> k)"

definition expanded_text :: "(string \<times> pyval) list \<Rightarrow> mtoken list \<Rightarrow> string" where
  "expanded_text env ts = concat (map (token_value env) ts)"

definition macro_env :: "(string \<times> pyval) list \<Rightarrow> bool" where
  "macro_env env \<longleftrightarrow>
     distinct (map fst env) \<and> prefix_free (fst ` set env) \<and> (\<forall>k\<in>fst ` set env. macro_key k)
     \<and> (\<forall>(k, v)\<in>set env. \<exists>s. v = PStr s \<and> closed_text s)"

lemma expanded_text_put:
  assumes "k \<notin> fst ` set env"
  shows "expanded_text env (put_macro k v ts) = expanded_text ((k, PStr v) # env) ts"
proof (induction ts)
  case (Cons t ts)
  have "concat (map (token_value env) (map Lit v)) = v" by (induction v) simp_all
  moreover have "map_of env k = None" using assms by (simp add: map_of_eq_None_iff)
  ultimately show ?case using Cons by (cases t) (auto simp: expanded_text_def)
qed (simp add: expanded_text_def)

lemma expanded_text_none: "token_macros ts \<inter> fst ` set env = {} \<Longrightarrow> expanded_text env ts = tokens_text ts"
proof (induction ts)
  case (Cons t ts)
  have "token_value env t = token_text t"
  proof (cases t)
    case (Macro k)
    then have "k \<notin> fst ` set env" using Cons.prems by auto
    then have "map_of env k = None" by (metis map_of_eq_None_iff)
    then show ?thesis using Macro by simp
  qed simp
  moreover have "expanded_text env ts = tokens_text ts" using Cons by (cases t) auto
  ultimately show ?case by (simp add: expanded_text_def tokens_text_def)
qed (simp add: expanded_text_def)

lemma expand_all:
  assumes "macro_env env" and "no_open_dollar ts" and "\<forall>k\<in>token_macros ts. macro_key k"
    and "prefix_free (fst ` set env \<union> token_macros ts)"
  shows "efold expand_macro (PStr (tokens_text ts)) env = Inr (PStr (expanded_text env ts))"
  using assms
proof (induction env arbitrary: ts)
  case Nil
  then show ?case by (simp add: expanded_text_none)
next
  case (Cons e env)
  obtain k v where e: "e = (k, PStr v)" and v: "closed_text v" and k: "macro_key k" "k \<notin> fst ` set env"
    using Cons.prems(1) by (cases e) (auto simp: macro_env_def)
  have rest: "macro_env env"
    using Cons.prems(1) by (auto simp: macro_env_def elim: prefix_free_subset)
  have "py_replace k v (tokens_text ts) = tokens_text (put_macro k v ts)"
    using Cons.prems k e by (intro py_replace_put) (auto elim: prefix_free_subset)
  then have "expand_macro (PStr (tokens_text ts)) e = Inr (PStr (tokens_text (put_macro k v ts)))"
    using closed_text_no_macro [OF v] by (simp add: expand_macro_def e)
  moreover have "efold expand_macro (PStr (tokens_text (put_macro k v ts))) env
      = Inr (PStr (expanded_text env (put_macro k v ts)))"
    using Cons.prems v
    by (intro Cons.IH) (auto simp: rest no_open_dollar_put token_macros_put elim: prefix_free_subset)
  ultimately show ?case by (simp add: e expanded_text_put k)
qed

lemma macro_env_mset:
  assumes "mset env' = mset env" and "macro_env env"
  shows "macro_env env'" and "expanded_text env' = expanded_text env"
proof -
  have same: "set env' = set env" by (rule mset_eq_setD [OF assms(1)])
  have "mset (map fst env') = mset (map fst env)" using assms(1) by simp
  then have keys: "distinct (map fst env')"
    using assms(2) mset_eq_imp_distinct_iff unfolding macro_env_def by blast
  then show "macro_env env'" using assms(2) by (simp add: macro_env_def same)
  have "map_of env' = map_of env"
    using keys assms(2) map_of_inject_set same unfolding macro_env_def by blast
  then have "token_value env' t = token_value env t" for t by (cases t) simp_all
  then have "token_value env' = token_value env" by blast
  then show "expanded_text env' = expanded_text env" by (intro ext) (simp add: expanded_text_def)
qed

lemma macro_in_text: "k \<in> token_macros ts \<Longrightarrow> set k \<subseteq> set (tokens_text ts)"
proof (induction ts)
  case (Cons t ts)
  then show ?case by (cases t) auto
qed simp

lemma ExpandMacros_tokens:
  assumes env: "macro_env env" and dollar: "no_open_dollar ts" and known: "token_macros ts \<subseteq> fst ` set env"
  shows "ExpandMacros (PStr (tokens_text ts)) env = Inr (PStr (expanded_text env ts))"
proof (cases "CHR ''$'' \<in> set (tokens_text ts)")
  case True
  have "fst ` set env \<union> token_macros ts = fst ` set env" using known by blast
  then have "efold expand_macro (PStr (tokens_text ts)) env = Inr (PStr (expanded_text env ts))"
    using env known by (intro expand_all dollar) (auto simp: macro_env_def)
  then show ?thesis using True by (simp add: ExpandMacros_def sublist_single)
next
  case False
  have "k \<notin> token_macros ts" for k
  proof
    assume k: "k \<in> token_macros ts"
    then have "macro_key k" using known env by (auto simp: macro_env_def)
    then have "CHR ''$'' \<in> set k" by (auto elim: macro_keyE)
    moreover have "set k \<subseteq> set (tokens_text ts)" by (rule macro_in_text [OF k])
    ultimately show False using False by blast
  qed
  then have "token_macros ts = {}" by blast
  then show ?thesis using False by (simp add: ExpandMacros_def sublist_single expanded_text_none)
qed

section \<open>The macros of a target\<close>

definition target_macros :: "string list" where
  "target_macros =
     [''$(OutDir)'' @ [bslash], ''$(TargetDir)'' @ [bslash], ''$(IntDir)'', ''$(InputPath)'', ''$(InputName)'',
      ''$(ProjectName)'', ''$(TargetName)'', ''$(PlatformName)'', ''$(ProjectDir)'' @ [bslash],
      ''$(VSInstallDir)'', ''$(VCInstallDir)'', ''$(DXSDK_DIR)'', ''$(WDK_DIR)'']"

lemma target_macros_ok:
  "distinct target_macros" "prefix_free (set target_macros)" "\<forall>k\<in>set target_macros. macro_key k"
  by code_simp+

lemma GetVSMacroEnv_names:
  assumes "GetVSMacroEnv m base_to_build config = Inr env"
  shows "distinct (map fst env)" and "fst ` set env \<subseteq> set target_macros"
proof -
  have "map fst env =
      (if vs_path (m_world m) = [] then take 9 target_macros @ drop 11 target_macros else target_macros)"
    using assms by (auto simp: GetVSMacroEnv_def GetGlobalVSMacroEnv_def Let_def target_macros_def)
  moreover have "distinct (take 9 target_macros @ drop 11 target_macros)" by code_simp
  moreover have "set (take 9 target_macros @ drop 11 target_macros) \<subseteq> set target_macros"
    using set_take_subset set_drop_subset by fastforce
  ultimately show "distinct (map fst env)" "fst ` set env \<subseteq> set target_macros"
    using target_macros_ok(1) by (auto simp flip: set_map split: if_splits)
qed

lemma GetVSMacroEnv_macro_env:
  assumes "GetVSMacroEnv m base_to_build config = Inr env"
    and "\<forall>v\<in>snd ` set env. \<exists>s. v = PStr s \<and> closed_text s"
  shows "macro_env env"
  using GetVSMacroEnv_names [OF assms(1)] assms(2) target_macros_ok
  by (auto simp: macro_env_def elim: prefix_free_subset)

text \<open>
  C34: the macros of a target are expanded as if all at once. For a text whose macros are those the
  target defines and whose other dollar signs open none, \<open>ConvertVSMacros\<close> gives the text with every
  macro replaced by its value, and so does every order in which the dictionary of the macros is
  iterated: the result does not depend on the order of the dictionary.
\<close>

theorem ConvertVSMacros_correct:
  assumes "GetVSMacroEnv m base_to_build config = Inr env"
    and "\<forall>v\<in>snd ` set env. \<exists>s. v = PStr s \<and> closed_text s"
    and "no_open_dollar ts" and "token_macros ts \<subseteq> fst ` set env" and "mset env' = mset env"
  shows "ConvertVSMacros m (PStr (tokens_text ts)) base_to_build config = Inr (PStr (expanded_text env ts))
    \<and> ExpandMacros (PStr (tokens_text ts)) env' = Inr (PStr (expanded_text env ts))"
proof
  have env: "macro_env env" using GetVSMacroEnv_macro_env assms(1,2) by blast
  then show "ConvertVSMacros m (PStr (tokens_text ts)) base_to_build config = Inr (PStr (expanded_text env ts))"
    using assms ExpandMacros_tokens by (simp add: ConvertVSMacros_def)
  have "fst ` set env' = fst ` set env" using assms(5) mset_eq_setD by metis
  then show "ExpandMacros (PStr (tokens_text ts)) env' = Inr (PStr (expanded_text env ts))"
    using ExpandMacros_tokens [of env' ts] macro_env_mset [OF assms(5) env] assms(3,4) by simp
qed

definition sample_world :: vs_world where
  "sample_world =
     \<lparr>vs_short_name = ''2013'', vs_path = ''C:/VS'', environ = Map.empty, reg_output = []\<rparr>"

definition sample_spec :: pydict where
  "sample_spec =
     [(''target_name'', PStr ''base''), (''type'', PStr ''shared_library''),
      (''configurations'', PDict [(''Debug'', PDict [(''msvs_settings'', PDict [(''VCLinkerTool'', PDict
         [(''OutputFile'', PStr (''$(OutDir)'' @ bslash # ''$(ProjectName).dll'')),
          (''AdditionalOptions'', PList [PStr ''/a'', PStr ''/MP4'']),
          (''FixedBaseAddress'', PStr ''2'')])])])])]"

definition sample_settings :: msvs where
  "sample_settings = (case MsvsSettings sample_world sample_spec of Inr m \<Rightarrow> m)"

definition sample_env :: pydict where
  "sample_env = (case GetVSMacroEnv sample_settings ''out'' (Some ''Debug'') of Inr env \<Rightarrow> env)"

definition sample_tokens :: "mtoken list" where
  "sample_tokens = [Macro (''$(OutDir)'' @ [bslash]), Macro ''$(ProjectName)'', Lit (CHR ''.''), Lit (CHR ''x'')]"

lemma sample_env:
  "GetVSMacroEnv sample_settings ''out'' (Some ''Debug'') = Inr sample_env"
  "list_all (\<lambda>(k, v). case v of PStr s \<Rightarrow> closed_text s | _ \<Rightarrow> False) sample_env"
  "no_open_dollar sample_tokens"
  "map_of sample_env (''$(OutDir)'' @ [bslash]) \<noteq> None" "map_of sample_env ''$(ProjectName)'' \<noteq> None"
  "expanded_text sample_env sample_tokens = ''out'' @ bslash # ''base.x''"
  by code_simp+

theorem ConvertVSMacros_correct_witness:
  "ConvertVSMacros sample_settings (PStr (tokens_text sample_tokens)) ''out'' (Some ''Debug'')
     = Inr (PStr (''out'' @ bslash # ''base.x''))
   \<and> ExpandMacros (PStr (tokens_text sample_tokens)) (rev sample_env) = Inr (PStr (''out'' @ bslash # ''base.x''))"
proof -
  have "\<forall>v\<in>snd ` set sample_env. \<exists>s. v = PStr s \<and> closed_text s"
    using sample_env(2) by (auto simp: list_all_iff split: pyval.splits)
  moreover have "token_macros sample_tokens \<subseteq> fst ` set sample_env"
    using sample_env(4,5) by (auto simp: sample_tokens_def map_of_eq_None_iff)
  ultimately show ?thesis
    using ConvertVSMacros_correct [OF sample_env(1) _ sample_env(3), of "rev sample_env"]
    by (simp add: sample_env(6))
qed

end
