(* ===== verification/MsvsTools.thy ===== *)
theory MsvsTools
  imports MsvsFlags
begin

text \<open>
  The command lines of the Microsoft tools in \<open>gyp/msvs_emulation.py\<close>: names of outputs, the flags of
  the assembler, the compiler, the librarian, the linker and the resource compiler, the manifests, the
  data of IDL files and precompiled headers. The flags of a tool are a sequence of calls of the wrapper,
  in the order of the code. A manifest the code writes is returned with its path and contents.
\<close>

abbreviation quote_mark :: char where "quote_mark \<equiv> CHR 0x22"
abbreviation newline :: char where "newline \<equiv> CHR 0x0A"

section \<open>Libraries, include directories, defines\<close>

definition AdjustLibraries :: "string list \<Rightarrow> string list" where
  "AdjustLibraries libraries =
     (let libs = map (\<lambda>lib. if starts_with lib ''-l'' then drop 2 lib else lib) libraries in
      map (\<lambda>lib. if \<not> ends_with lib ''.lib'' then lib @ ''.lib'' else lib) libs)"

definition AdjustIncludeDirs :: "msvs \<Rightarrow> pyval list \<Rightarrow> string \<Rightarrow> pyval list res" where
  "AdjustIncludeDirs m include_dirs config =
     ebind (TargetConfig m config) (\<lambda>config.
     ebind (dindex (system_include_dirs m) config) (\<lambda>v. ebind (as_list v) (\<lambda>system.
     ebind (Setting m [''VCCLCompilerTool'', ''AdditionalIncludeDirectories''] config (PList [])) (\<lambda>v.
     ebind (iter_items v) (\<lambda>additional.
       emap (\<lambda>p. ConvertVSMacros m p [] (Some config)) (include_dirs @ system @ additional))))))"

definition GetComputedDefines :: "msvs \<Rightarrow> string \<Rightarrow> pyval list res" where
  "GetComputedDefines m config =
     ebind (TargetConfig m config) (\<lambda>config.
     ebind (ConfigAttrib m [''CharacterSet''] config) (\<lambda>charset.
       let defines = (if charset = PStr ''1'' then [PStr ''_UNICODE'', PStr ''UNICODE''] else [])
                     @ (if charset = PStr ''2'' then [PStr ''_MBCS''] else []) in
     ebind (Setting m [''VCCLCompilerTool'', ''PreprocessorDefinitions''] config (PList [])) (\<lambda>v.
     ebind (iter_items v) (\<lambda>more. Inr (defines @ more)))))"

section \<open>Names of outputs\<close>

definition expand_name ::
  "msvs \<Rightarrow> (string \<Rightarrow> string res) \<Rightarrow> string option \<Rightarrow> pyval \<Rightarrow> pyval res" where
  "expand_name m expand_special config v =
     (if truth v
      then ebind (ConvertVSMacros m v [] config) (\<lambda>u. ebind (as_str u) (\<lambda>s.
           ebind (expand_special s) (\<lambda>t. Inr (PStr t))))
      else Inr v)"

definition GetCompilerPdbName :: "msvs \<Rightarrow> string \<Rightarrow> (string \<Rightarrow> string res) \<Rightarrow> pyval res" where
  "GetCompilerPdbName m config expand_special =
     ebind (TargetConfig m config) (\<lambda>config.
     ebind (Setting m [''VCCLCompilerTool'', ''ProgramDataBaseFileName''] config PNone)
       (expand_name m expand_special None))"

definition GetMapFileName :: "msvs \<Rightarrow> string \<Rightarrow> (string \<Rightarrow> string res) \<Rightarrow> pyval res" where
  "GetMapFileName m config expand_special =
     ebind (TargetConfig m config) (\<lambda>config.
     ebind (Setting m [''VCLinkerTool'', ''MapFileName''] config PNone)
       (expand_name m expand_special (Some config)))"

definition GetOutputName :: "msvs \<Rightarrow> string \<Rightarrow> (string \<Rightarrow> string res) \<Rightarrow> pyval res" where
  "GetOutputName m config expand_special =
     ebind (TargetConfig m config) (\<lambda>config.
     ebind (dindex (m_spec m) ''type'') (\<lambda>ty.
       let root = (if ty = PStr ''static_library'' then ''VCLibrarianTool'' else ''VCLinkerTool'') in
     ebind (Setting m [root, ''OutputFile''] config PNone) (expand_name m expand_special (Some config))))"

definition GetPDBName :: "msvs \<Rightarrow> string \<Rightarrow> (string \<Rightarrow> string res) \<Rightarrow> string \<Rightarrow> pyval res" where
  "GetPDBName m config expand_special dflt =
     ebind (TargetConfig m config) (\<lambda>config.
     ebind (Setting m [''VCLinkerTool'', ''ProgramDatabaseFile''] config PNone) (\<lambda>output_file.
     ebind (Setting m [''VCLinkerTool'', ''GenerateDebugInformation''] config PNone) (\<lambda>generate_debug_info.
       if generate_debug_info = PStr ''true''
       then (if truth output_file then expand_name m expand_special (Some config) output_file
             else Inr (PStr dflt))
       else Inr PNone)))"

definition GetPGDName :: "msvs \<Rightarrow> string \<Rightarrow> (string \<Rightarrow> string res) \<Rightarrow> pyval res" where
  "GetPGDName m config expand_special =
     ebind (TargetConfig m config) (\<lambda>config.
     ebind (Setting m [''VCLinkerTool'', ''ProfileGuidedDatabase''] config PNone)
       (expand_name m expand_special (Some config)))"

section \<open>Assembler and compiler\<close>

definition GetAsmflags :: "msvs \<Rightarrow> string \<Rightarrow> string list res" where
  "GetAsmflags m config =
     ebind (TargetConfig m config) (\<lambda>config.
     ebind (Setting m [''MASM'', ''UseSafeExceptionHandlers''] config PNone) (\<lambda>safeseh.
       Inr (if safeseh = PStr ''true'' then [''/safeseh''] else [])))"

definition cl_calls :: "flag_call list" where
  "cl_calls =
    [(''Optimization'', Table [(''0'', ''d''), (''1'', ''1''), (''2'', ''2''), (''3'', ''x'')], ''/O'', PStr ''2''),
     (''InlineFunctionExpansion'', NoMap, ''/Ob'', PNone),
     (''DisableSpecificWarnings'', NoMap, ''/wd'', PNone),
     (''StringPooling'', Table [(''true'', ''/GF'')], [], PNone),
     (''EnableFiberSafeOptimizations'', Table [(''true'', ''/GT'')], [], PNone),
     (''OmitFramePointers'', Table [(''false'', ''-''), (''true'', [])], ''/Oy'', PNone),
     (''EnableIntrinsicFunctions'', Table [(''false'', ''-''), (''true'', [])], ''/Oi'', PNone),
     (''FavorSizeOrSpeed'', Table [(''1'', ''t''), (''2'', ''s'')], ''/O'', PNone),
     (''WholeProgramOptimization'', Table [(''true'', ''/GL'')], [], PNone),
     (''WarningLevel'', NoMap, ''/W'', PNone),
     (''WarnAsError'', Table [(''true'', ''/WX'')], [], PNone),
     (''DebugInformationFormat'', Table [(''1'', ''7''), (''3'', ''i''), (''4'', ''I'')], ''/Z'', PNone),
     (''RuntimeTypeInfo'', Table [(''true'', ''/GR''), (''false'', ''/GR-'')], [], PNone),
     (''EnableFunctionLevelLinking'', Table [(''true'', ''/Gy''), (''false'', ''/Gy-'')], [], PNone),
     (''MinimalRebuild'', Table [(''true'', ''/Gm'')], [], PNone),
     (''BufferSecurityCheck'', Table [(''true'', ''/GS''), (''false'', ''/GS-'')], [], PNone),
     (''BasicRuntimeChecks'', Table [(''1'', ''s''), (''2'', ''u''), (''3'', ''1'')], ''/RTC'', PNone),
     (''RuntimeLibrary'', Table [(''0'', ''T''), (''1'', ''Td''), (''2'', ''D''), (''3'', ''Dd'')], ''/M'', PNone),
     (''ExceptionHandling'', Table [(''1'', ''sc''), (''2'', ''a'')], ''/EH'', PNone),
     (''DefaultCharIsUnsigned'', Table [(''true'', ''/J'')], [], PNone),
     (''TreatWChar_tAsBuiltInType'', Table [(''false'', ''-''), (''true'', [])], ''/Zc:wchar_t'', PNone),
     (''EnablePREfast'', Table [(''true'', ''/analyze'')], [], PNone),
     (''AdditionalOptions'', NoMap, [], PNone),
     (''EnableEnhancedInstructionSet'',
        Table [(''1'', ''SSE''), (''2'', ''SSE2''), (''3'', ''AVX''), (''4'', ''IA32'')], ''/arch:'', PNone)]"

definition GetCflags :: "msvs \<Rightarrow> string \<Rightarrow> string list res" where
  "GetCflags m config =
     ebind (TargetConfig m config) (\<lambda>config.
     ebind (dindex (disabled_warnings m) config) (\<lambda>v. ebind (iter_items v) (\<lambda>ws. ebind (emap as_str ws) (\<lambda>warnings.
     ebind (dindex (msvs_settings m) config) (\<lambda>field.
     ebind (wrapper_calls field ''VCCLCompilerTool'' (map ((@) ''/wd'') warnings) cl_calls) (\<lambda>cflags.
     ebind (Setting m [''VCCLCompilerTool'', ''ForcedIncludeFiles''] config (PList [])) (\<lambda>v.
     ebind (iter_items v) (\<lambda>fs. ebind (emap as_str fs) (\<lambda>forced.
       let cflags = cflags @ map ((@) ''/FI'') forced;
           cflags = (if vs_short_name (m_world m) \<in> {''2013'', ''2013e''} then cflags @ [''/FS''] else cflags) in
       Inr (filter (\<lambda>x. \<not> starts_with x ''/MP'') cflags))))))))))"

definition LanguageMatchesForPch :: "string \<Rightarrow> string \<Rightarrow> bool" where
  "LanguageMatchesForPch source_ext pch_source_ext \<longleftrightarrow>
     (let c_exts = [''.c'']; cc_exts = [''.cc'', ''.cxx'', ''.cpp''] in
      (source_ext \<in> set c_exts \<and> pch_source_ext \<in> set c_exts)
      \<or> (source_ext \<in> set cc_exts \<and> pch_source_ext \<in> set cc_exts))"

definition GetPchFlags :: "msvs \<Rightarrow> string \<Rightarrow> string \<Rightarrow> string list res" where
  "GetPchFlags m config extension =
     ebind (TargetConfig m config) (\<lambda>config.
     ebind (dindex (precompiled_header m) config) (\<lambda>header.
       if \<not> truth header then Inr []
       else
         ebind (dindex (precompiled_source m) config) (\<lambda>v. ebind (as_str v) (\<lambda>source.
         if LanguageMatchesForPch (snd (win_splitext source)) extension
         then ebind (as_str header) (\<lambda>h.
                let pch = snd (win_split h) in
                Inr [''/Yu'' @ pch, ''/FI'' @ pch, ''/Fp${pchprefix}.'' @ pch @ ''.pch''])
         else Inr []))))"

definition GetCflagsC :: "msvs \<Rightarrow> string \<Rightarrow> string list res" where
  "GetCflagsC m config = ebind (TargetConfig m config) (\<lambda>config. GetPchFlags m config ''.c'')"

definition GetCflagsCC :: "msvs \<Rightarrow> string \<Rightarrow> string list res" where
  "GetCflagsCC m config =
     ebind (TargetConfig m config) (\<lambda>config.
     ebind (GetPchFlags m config ''.cc'') (\<lambda>flags. Inr (''/TP'' # flags)))"

section \<open>Librarian and linker\<close>

definition GetAdditionalLibraryDirectories ::
  "msvs \<Rightarrow> string \<Rightarrow> string \<Rightarrow> (string \<Rightarrow> string res) \<Rightarrow> string list res" where
  "GetAdditionalLibraryDirectories m root config gyp_to_build_path =
     ebind (TargetConfig m config) (\<lambda>config.
     ebind (Setting m [root, ''AdditionalLibraryDirectories''] config (PList [])) (\<lambda>v.
     ebind (iter_items v) (\<lambda>ps.
       emap (\<lambda>p. ebind (ConvertVSMacros m p [] (Some config)) (\<lambda>q. ebind (as_str q) (\<lambda>s.
                 ebind (gyp_to_build_path s) (\<lambda>t.
                   Inr (''/LIBPATH:'' @ [quote_mark] @ win_normpath t @ [quote_mark]))))) ps)))"

definition GetLibFlags :: "msvs \<Rightarrow> string \<Rightarrow> (string \<Rightarrow> string res) \<Rightarrow> string list res" where
  "GetLibFlags m config gyp_to_build_path =
     ebind (TargetConfig m config) (\<lambda>config.
     ebind (dindex (msvs_settings m) config) (\<lambda>field.
     ebind (GetAdditionalLibraryDirectories m ''VCLibrarianTool'' config gyp_to_build_path) (\<lambda>libflags.
       wrapper_calls field ''VCLibrarianTool'' libflags
         [(''LinkTimeCodeGeneration'', Table [(''true'', ''/LTCG'')], [], PNone),
          (''TargetMachine'', Table [(''1'', ''X86''), (''17'', ''X64'')], ''/MACHINE:'', PNone),
          (''AdditionalOptions'', NoMap, [], PNone)])))"

definition GetDefFile :: "msvs \<Rightarrow> (string \<Rightarrow> string res) \<Rightarrow> string option res" where
  "GetDefFile m gyp_to_build_path =
     ebind (dindex (m_spec m) ''type'') (\<lambda>ty.
       if ty \<in> {PStr ''shared_library'', PStr ''loadable_module'', PStr ''executable''}
       then
         ebind (iter_items (dget_or (m_spec m) ''sources'' (PList []))) (\<lambda>sources.
         ebind (emap as_str sources) (\<lambda>ss.
           case filter (\<lambda>s. ends_with s ''.def'') ss of
             [] \<Rightarrow> Inr None
           | [f] \<Rightarrow> ebind (gyp_to_build_path f) (\<lambda>p. Inr (Some p))
           | _ \<Rightarrow> Inl (PlainExc ''Multiple .def files'')))
       else Inr None)"

definition GetDefFileAsLdflags :: "msvs \<Rightarrow> string list \<Rightarrow> (string \<Rightarrow> string res) \<Rightarrow> string list res" where
  "GetDefFileAsLdflags m ldflags gyp_to_build_path =
     ebind (GetDefFile m gyp_to_build_path) (\<lambda>def_file.
       Inr (case def_file of
              Some (c # cs) \<Rightarrow> ldflags @ [''/DEF:'' @ [quote_mark] @ c # cs @ [quote_mark]]
            | _ \<Rightarrow> ldflags))"

definition GetAdditionalManifestFiles ::
  "msvs \<Rightarrow> string \<Rightarrow> (string \<Rightarrow> string res) \<Rightarrow> string list res" where
  "GetAdditionalManifestFiles m config gyp_to_build_path =
     ebind (Setting m [''VCManifestTool'', ''AdditionalManifestFiles''] config (PList [])) (\<lambda>files.
     ebind (case files of PStr s \<Rightarrow> Inr (map PStr (split_on (CHR '';'') s)) | _ \<Rightarrow> iter_items files) (\<lambda>fs.
       emap (\<lambda>f. ebind (ConvertVSMacros m f [] (Some config)) (\<lambda>q. ebind (as_str q) (\<lambda>s.
                 ebind (gyp_to_build_path s) (\<lambda>t. Inr (win_normpath t))))) fs))"

definition trust_info :: "string \<Rightarrow> string \<Rightarrow> string" where
  "trust_info level ui_access =
     concat (map (\<lambda>line. newline # line)
       [''<trustInfo xmlns='' @ [quote_mark] @ ''urn:schemas-microsoft-com:asm.v3'' @ [quote_mark] @ ''>'',
        ''  <security>'',
        ''    <requestedPrivileges>'',
        ''      <requestedExecutionLevel level='' @ quoted level @ '' uiAccess='' @ quoted ui_access @ '' />'',
        ''    </requestedPrivileges>'',
        ''  </security>'',
        ''</trustInfo>''])"

definition manifest_text :: "string \<Rightarrow> string" where
  "manifest_text inner =
     ''<?xml version='' @ quoted ''1.0'' @ '' encoding='' @ quoted ''UTF-8'' @ '' standalone='' @ quoted ''yes'' @ ''?>''
     @ ''<assembly xmlns='' @ quoted ''urn:schemas-microsoft-com:asm.v1'' @ '' manifestVersion='' @ quoted ''1.0'' @ ''>''
     @ inner @ ''</assembly>''"

definition execution_level :: "pyval \<Rightarrow> string res" where
  "execution_level v =
     (if \<not> hashable v then Inl TypeErr
      else if v = PStr ''0'' then Inr ''asInvoker''
      else if v = PStr ''1'' then Inr ''highestAvailable''
      else if v = PStr ''2'' then Inr ''requireAdministrator''
      else Inl (KeyErr (py_str v)))"

record link_manifest =
  manifest_flags :: "string list"
  intermediate_manifest :: "string option"
  manifest_files :: "string list"
  written :: "(string \<times> string) list"

definition GetLdManifestFlags ::
  "msvs \<Rightarrow> string \<Rightarrow> string \<Rightarrow> (string \<Rightarrow> string res) \<Rightarrow> bool \<Rightarrow> string \<Rightarrow> link_manifest res" where
  "GetLdManifestFlags m config name gyp_to_build_path allow_isolation build_dir =
     ebind (Setting m [''VCLinkerTool'', ''GenerateManifest''] config (PStr ''true'')) (\<lambda>generate.
       if generate \<noteq> PStr ''true''
       then Inr \<lparr>manifest_flags = [''/MANIFEST:NO''], intermediate_manifest = None, manifest_files = [],
                 written = []\<rparr>
       else
         let output_name = name @ ''.intermediate.manifest'';
             flags = [''/MANIFEST'', ''/ManifestFile:'' @ output_name, ''/MANIFESTUAC:NO''] in
         ebind (TargetConfig m config) (\<lambda>config.
         ebind (Setting m [''VCLinkerTool'', ''EnableUAC''] config (PStr ''true'')) (\<lambda>enable_uac.
         ebind (if enable_uac = PStr ''true''
                then ebind (Setting m [''VCLinkerTool'', ''UACExecutionLevel''] config (PStr ''0'')) (\<lambda>v.
                     ebind (Setting m [''VCLinkerTool'', ''UACUIAccess''] config (PStr ''false'')) (\<lambda>ui_access.
                     ebind (execution_level v) (\<lambda>level. Inr (trust_info level (py_str ui_access)))))
                else Inr []) (\<lambda>inner.
           let generated_name = name @ ''.generated.manifest'' in
         ebind (GetAdditionalManifestFiles m config gyp_to_build_path) (\<lambda>more.
           Inr \<lparr>manifest_flags = (if allow_isolation then flags @ [''/ALLOWISOLATION''] else flags),
                intermediate_manifest = Some output_name,
                manifest_files = generated_name # more,
                written = [(win_join build_dir generated_name, manifest_text inner)]\<rparr>)))))"

definition ld_calls1 :: "flag_call list" where
  "ld_calls1 =
    [(''GenerateDebugInformation'', Table [(''true'', ''/DEBUG'')], [], PNone),
     (''TargetMachine'', Table [(''1'', ''X86''), (''17'', ''X64'')], ''/MACHINE:'', PNone)]"

definition ld_calls2 :: "flag_call list" where
  "ld_calls2 =
    [(''DelayLoadDLLs'', NoMap, ''/DELAYLOAD:'', PNone),
     (''TreatLinkerWarningAsErrors'', Table [(''true'', []), (''false'', '':NO'')], ''/WX'', PNone)]"

definition ld_calls3 :: "pyval \<Rightarrow> flag_call list" where
  "ld_calls3 map_file =
    [(''GenerateMapFile'',
        Table [(''true'', case map_file of PStr (c # cs) \<Rightarrow> ''/MAP:'' @ c # cs | _ \<Rightarrow> ''/MAP'')], [], PNone),
     (''MapExports'', Table [(''true'', ''/MAPINFO:EXPORTS'')], [], PNone),
     (''AdditionalOptions'', NoMap, [], PNone)]"

definition ld_calls4 :: "string \<Rightarrow> flag_call list" where
  "ld_calls4 version =
    [(''SubSystem'', Table [(''1'', ''CONSOLE'' @ version), (''2'', ''WINDOWS'' @ version)], ''/SUBSYSTEM:'', PNone),
     (''TerminalServerAware'', Table [(''1'', '':NO''), (''2'', [])], ''/TSAWARE'', PNone),
     (''LinkIncremental'', Table [(''1'', '':NO''), (''2'', [])], ''/INCREMENTAL'', PNone),
     (''BaseAddress'', NoMap, ''/BASE:'', PNone),
     (''FixedBaseAddress'', Table [(''1'', '':NO''), (''2'', [])], ''/FIXED'', PNone),
     (''RandomizedBaseAddress'', Table [(''1'', '':NO''), (''2'', [])], ''/DYNAMICBASE'', PNone),
     (''DataExecutionPrevention'', Table [(''1'', '':NO''), (''2'', [])], ''/NXCOMPAT'', PNone),
     (''OptimizeReferences'', Table [(''1'', ''NOREF''), (''2'', ''REF'')], ''/OPT:'', PNone),
     (''ForceSymbolReferences'', NoMap, ''/INCLUDE:'', PNone),
     (''EnableCOMDATFolding'', Table [(''1'', ''NOICF''), (''2'', ''ICF'')], ''/OPT:'', PNone),
     (''LinkTimeCodeGeneration'',
        Table [(''1'', []), (''2'', '':PGINSTRUMENT''), (''3'', '':PGOPTIMIZE''), (''4'', '':PGUPDATE'')],
        ''/LTCG'', PNone),
     (''IgnoreDefaultLibraryNames'', NoMap, ''/NODEFAULTLIB:'', PNone),
     (''ResourceOnlyDLL'', Table [(''true'', ''/NOENTRY'')], [], PNone),
     (''EntryPointSymbol'', NoMap, ''/ENTRY:'', PNone),
     (''Profile'', Table [(''true'', ''/PROFILE'')], [], PNone),
     (''LargeAddressAware'', Table [(''1'', '':NO''), (''2'', [])], ''/LARGEADDRESSAWARE'', PNone),
     (''ImageHasSafeExceptionHandlers'', Table [(''true'', ''/SAFESEH'')], [], PNone),
     (''AdditionalDependencies'', NoMap, [], PNone)]"

text \<open>\<open>if name: ldflags.append(prefix + name)\<close>.\<close>

definition append_name :: "string list \<Rightarrow> string \<Rightarrow> pyval \<Rightarrow> string list res" where
  "append_name flags pre v = (if truth v then ebind (as_str v) (\<lambda>s. Inr (flags @ [pre @ s])) else Inr flags)"

definition default_ldflags :: "string list \<Rightarrow> string list" where
  "default_ldflags ldflags =
     (let ldflags = (if filter (\<lambda>x. sublist ''DYNAMICBASE'' x \<or> x = ''/FIXED'') ldflags = []
                     then ldflags @ [''/DYNAMICBASE''] else ldflags) in
      if filter (sublist ''NXCOMPAT'') ldflags = [] then ldflags @ [''/NXCOMPAT''] else ldflags)"

text \<open>\<open>GetLdflags\<close> up to the default flags: what the settings ask for.\<close>

definition setting_ldflags ::
  "msvs \<Rightarrow> string \<Rightarrow> (string \<Rightarrow> string res) \<Rightarrow> (string \<Rightarrow> string res) \<Rightarrow> string \<Rightarrow> string list res" where
  "setting_ldflags m config gyp_to_build_path expand_special output_name =
     ebind (dindex (msvs_settings m) config) (\<lambda>field.
       let ld = wrapper_calls field ''VCLinkerTool'' in
     ebind (GetDefFileAsLdflags m [] gyp_to_build_path) (\<lambda>ldflags.
     ebind (ld ldflags ld_calls1) (\<lambda>ldflags.
     ebind (GetAdditionalLibraryDirectories m ''VCLinkerTool'' config gyp_to_build_path) (\<lambda>dirs.
     ebind (ld (ldflags @ dirs) ld_calls2) (\<lambda>ldflags.
     ebind (GetOutputName m config expand_special) (\<lambda>out.
     ebind (append_name ldflags ''/OUT:'' out) (\<lambda>ldflags.
     ebind (GetPDBName m config expand_special (output_name @ ''.pdb'')) (\<lambda>pdb.
     ebind (append_name ldflags ''/PDB:'' pdb) (\<lambda>ldflags.
     ebind (GetPGDName m config expand_special) (\<lambda>pgd.
     ebind (append_name ldflags ''/PGD:'' pgd) (\<lambda>ldflags.
     ebind (GetMapFileName m config expand_special) (\<lambda>map_file.
     ebind (ld ldflags (ld_calls3 map_file)) (\<lambda>ldflags.
     ebind (Setting m [''VCLinkerTool'', ''MinimumRequiredVersion''] config (PStr [])) (\<lambda>v.
     ebind (as_str v) (\<lambda>version.
       ld ldflags (ld_calls4 (if version \<noteq> [] then '','' @ version else [])))))))))))))))))"

definition GetLdflags ::
  "msvs \<Rightarrow> string \<Rightarrow> (string \<Rightarrow> string res) \<Rightarrow> (string \<Rightarrow> string res) \<Rightarrow> string \<Rightarrow> string \<Rightarrow> bool \<Rightarrow> string
   \<Rightarrow> (string list \<times> link_manifest) res" where
  "GetLdflags m config gyp_to_build_path expand_special manifest_base_name output_name is_executable build_dir =
     ebind (TargetConfig m config) (\<lambda>config.
     ebind (setting_ldflags m config gyp_to_build_path expand_special output_name) (\<lambda>ldflags.
       let ldflags = default_ldflags ldflags;
           have_def_file = (filter (\<lambda>x. starts_with x ''/DEF:'') ldflags \<noteq> []) in
     ebind (GetLdManifestFlags m config manifest_base_name gyp_to_build_path
              (is_executable \<and> \<not> have_def_file) build_dir) (\<lambda>manifest.
       Inr (ldflags @ manifest_flags manifest, manifest))))"

definition IsUseLibraryDependencyInputs :: "msvs \<Rightarrow> string \<Rightarrow> bool res" where
  "IsUseLibraryDependencyInputs m config =
     ebind (TargetConfig m config) (\<lambda>config.
     ebind (Setting m [''VCLinkerTool'', ''UseLibraryDependencyInputs''] config PNone) (\<lambda>v. Inr (v = PStr ''true'')))"

definition IsEmbedManifest :: "msvs \<Rightarrow> string \<Rightarrow> bool res" where
  "IsEmbedManifest m config =
     ebind (TargetConfig m config) (\<lambda>config.
     ebind (Setting m [''VCManifestTool'', ''EmbedManifest''] config (PStr ''true'')) (\<lambda>v. Inr (v = PStr ''true'')))"

definition IsLinkIncremental :: "msvs \<Rightarrow> string \<Rightarrow> bool res" where
  "IsLinkIncremental m config =
     ebind (TargetConfig m config) (\<lambda>config.
     ebind (Setting m [''VCLinkerTool'', ''LinkIncremental''] config PNone) (\<lambda>v. Inr (v \<noteq> PStr ''1'')))"

section \<open>Resource compiler\<close>

text \<open>\<open>hex(int(x))[2:]\<close>; on Windows an integer of Python 2 above 31 bits is long and ends in \<open>L\<close>.\<close>

fun hex_of_nat :: "nat \<Rightarrow> string" where
  "hex_of_nat n = (if n < 16 then [hex_digit n] else hex_of_nat (n div 16) @ [hex_digit (n mod 16)])"

declare hex_of_nat.simps [simp del]

definition py_hex :: "int \<Rightarrow> string" where
  "py_hex i =
     (if i < 0 then ''-'' else []) @ ''0x'' @ hex_of_nat (nat \<bar>i\<bar>)
     @ (if i < - (2 ^ 31) \<or> 2 ^ 31 \<le> i then ''L'' else [])"

definition culture_code :: "pyval \<Rightarrow> pyval res" where
  "culture_code v = ebind (to_int v) (\<lambda>i. Inr (PStr (drop 2 (py_hex i))))"

definition on_strings :: "(string \<Rightarrow> string res) \<Rightarrow> pyval \<Rightarrow> pyval res" where
  "on_strings f v = ebind (as_str v) (\<lambda>s. ebind (f s) (\<lambda>t. Inr (PStr t)))"

definition GetRcflags :: "msvs \<Rightarrow> string \<Rightarrow> (string \<Rightarrow> string res) \<Rightarrow> string list res" where
  "GetRcflags m config gyp_to_ninja_path =
     ebind (TargetConfig m config) (\<lambda>config.
     ebind (dindex (msvs_settings m) config) (\<lambda>field.
       let rc = wrapper_calls field ''VCResourceCompilerTool'' in
     ebind (rc [] [(''AdditionalIncludeDirectories'', Callable (on_strings gyp_to_ninja_path), ''/I'', PNone)]) (\<lambda>flags.
     ebind (gyp_to_ninja_path ''.'') (\<lambda>here.
       rc (flags @ [''/I'' @ here])
         [(''PreprocessorDefinitions'', NoMap, ''/d'', PNone), (''Culture'', Callable culture_code, ''/l'', PNone)]))))"

section \<open>Rules and actions\<close>

definition IsRuleRunUnderCygwin :: "msvs \<Rightarrow> pydict \<Rightarrow> bool res" where
  "IsRuleRunUnderCygwin m rule =
     ebind (to_int (dget_or rule ''msvs_cygwin_shell'' (dget_or (m_spec m) ''msvs_cygwin_shell'' (PInt 1))))
       (\<lambda>i. Inr (i \<noteq> 0))"

fun rule_for_extension :: "string \<Rightarrow> pyval list \<Rightarrow> bool res" where
  "rule_for_extension ext [] = Inr False"
| "rule_for_extension ext (rule # rules) =
     ebind (as_dict rule) (\<lambda>d. ebind (dindex d ''extension'') (\<lambda>e.
       if e = PStr ext then Inr True else rule_for_extension ext rules))"

definition HasExplicitRuleForExtension :: "pydict \<Rightarrow> string \<Rightarrow> bool res" where
  "HasExplicitRuleForExtension spec ext =
     ebind (iter_items (dget_or spec ''rules'' (PList []))) (rule_for_extension ext)"

definition HasExplicitIdlActions :: "pydict \<Rightarrow> bool res" where
  "HasExplicitIdlActions spec =
     ebind (iter_items (dget_or spec ''actions'' (PList []))) (\<lambda>actions.
     ebind (emap (\<lambda>a. ebind (as_dict a) (\<lambda>d. Inr (dget_or d ''explicit_idl_action'' (PInt 0)))) actions) (\<lambda>vs.
       Inr (list_ex truth vs)))"

definition HasExplicitIdlRulesOrActions :: "pydict \<Rightarrow> bool res" where
  "HasExplicitIdlRulesOrActions spec =
     ebind (HasExplicitRuleForExtension spec ''idl'') (\<lambda>b. if b then Inr True else HasExplicitIdlActions spec)"

definition HasExplicitAsmRules :: "pydict \<Rightarrow> bool res" where
  "HasExplicitAsmRules spec = HasExplicitRuleForExtension spec ''asm''"

definition GetIdlBuildData ::
  "msvs \<Rightarrow> string \<Rightarrow> (pyval \<times> pyval list \<times> (string \<times> pyval) list \<times> string list) res" where
  "GetIdlBuildData m config =
     ebind (TargetConfig m config) (\<lambda>config.
     ebind (dindex (msvs_settings m) config) (\<lambda>field.
       let midl = (\<lambda>name dflt.
             ebind (GetAndMunge field [''VCMIDLTool'', name] (PStr dflt) [] NoMap) (\<lambda>v.
               ConvertVSMacros m v [] (Some config))) in
     ebind (midl ''TypeLibraryName'' ''${root}.tlb'') (\<lambda>tlb.
     ebind (midl ''HeaderFileName'' ''${root}.h'') (\<lambda>header.
     ebind (midl ''DLLDataFileName'' ''dlldata.c'') (\<lambda>dlldata.
     ebind (midl ''InterfaceIdentifierFileName'' ''${root}_i.c'') (\<lambda>iid.
     ebind (midl ''ProxyFileName'' ''${root}_p.c'') (\<lambda>proxy.
     ebind (midl ''OutputDirectory'' []) (\<lambda>outdir.
     ebind (GetArch m (Some config)) (\<lambda>arch.
       Inr (outdir, [header, dlldata, iid, proxy],
            [(''tlb'', tlb), (''h'', header), (''dlldata'', dlldata), (''iid'', iid), (''proxy'', proxy)],
            [''/char'', ''signed'', ''/env'', if arch = ''x86'' then ''win32'' else ''x64'', ''/Oicf'']))))))))))"

section \<open>Precompiled headers\<close>

record pch =
  pch_settings :: msvs
  pch_config :: string
  pch_source :: string
  pch_output_obj :: string

definition PrecompiledHeader ::
  "msvs \<Rightarrow> string \<Rightarrow> (string \<Rightarrow> string res) \<Rightarrow> (string \<Rightarrow> string res) \<Rightarrow> string \<Rightarrow> pch res" where
  "PrecompiledHeader settings config gyp_to_build_path gyp_to_unique_output obj_ext =
     ebind (dindex (precompiled_source settings) config) (\<lambda>v. ebind (as_str v) (\<lambda>source.
     ebind (gyp_to_build_path source) (\<lambda>path.
     ebind (gyp_to_unique_output (fst (win_splitext source) @ obj_ext)) (\<lambda>obj.
       Inr \<lparr>pch_settings = settings, pch_config = config, pch_source = path, pch_output_obj = lower obj\<rparr>))))"

definition PchHeader :: "pch \<Rightarrow> string res" where
  "PchHeader p =
     ebind (dindex (precompiled_header (pch_settings p)) (pch_config p)) (\<lambda>v. ebind (as_str v) (\<lambda>h.
       Inr (snd (win_split h))))"

definition GetObjDependencies :: "pch \<Rightarrow> string list \<Rightarrow> string option \<Rightarrow> string list res" where
  "GetObjDependencies p sources arch =
     (if arch \<noteq> None then Inl AssertErr
      else ebind (PchHeader p) (\<lambda>header.
        if header = [] then Inr []
        else let pch_ext = snd (win_splitext (pch_source p)) in
          Inr (if list_ex (\<lambda>source. LanguageMatchesForPch (snd (win_splitext source)) pch_ext) sources
               then [pch_output_obj p] else [])))"

definition GetPchBuildCommands :: "string list" where
  "GetPchBuildCommands = []"

definition GetFlagsModifications ::
  "pch \<Rightarrow> string \<Rightarrow> string \<Rightarrow> string list \<Rightarrow> string \<Rightarrow> string list \<Rightarrow> string list \<Rightarrow> (string \<Rightarrow> string res)
   \<Rightarrow> ((string \<times> string list) list \<times> string \<times> string list) res" where
  "GetFlagsModifications p input output implicit command cflags_c cflags_cc expand_special =
     (if input = pch_source p
      then ebind (PchHeader p) (\<lambda>header.
        let pch_output = [''/Yc'' @ header] in
        if command = ''cxx''
        then ebind (emap expand_special (cflags_cc @ pch_output)) (\<lambda>flags.
               Inr ([(''cflags_cc'', flags)], pch_output_obj p, []))
        else if command = ''cc''
        then ebind (emap expand_special (cflags_c @ pch_output)) (\<lambda>flags.
               Inr ([(''cflags_c'', flags)], pch_output_obj p, []))
        else Inr ([], output, implicit))
      else Inr ([], output, implicit))"

end
