(* ===== verification/MsvsToolsCorrect.thy ===== *)
theory MsvsToolsCorrect
  imports MsvsTools MsvsMacros
begin

text \<open>
  What the flags of the Microsoft tools are: the flags of the compiler are exactly those its settings ask
  for, in the order of the calls; the flags of the linker hold the defaults where the settings are silent
  and agree with the manifests returned.
\<close>

section \<open>A sequence of calls\<close>

definition call_flags :: "pyval \<Rightarrow> string \<Rightarrow> flag_call \<Rightarrow> string list res" where
  "call_flags field base call = wrapper_call field base [] call"

lemma append_flags_Nil: "append_flags flags v = ebind (append_flags [] v) (\<lambda>ss. Inr (flags @ ss))"
  by (cases v) (simp_all add: append_flags_def ebind_assoc)

lemma wrapper_call_flags: "wrapper_call field base flags call = ebind (call_flags field base call) (\<lambda>ss. Inr (flags @ ss))"
proof (cases call)
  case (fields name m pre dflt)
  have "append_flags flags = (\<lambda>v. ebind (append_flags [] v) (\<lambda>ss. Inr (flags @ ss)))"
    using append_flags_Nil by blast
  then show ?thesis by (simp add: call_flags_def wrapper_call_def fields ebind_assoc)
qed

lemma wrapper_calls_concat:
  "wrapper_calls field base flags calls =
     ebind (emap (call_flags field base) calls) (\<lambda>ss. Inr (flags @ concat ss))"
proof (induction calls arbitrary: flags)
  case (Cons c calls)
  then show ?case
    by (cases "call_flags field base c") (simp_all add: wrapper_calls_def wrapper_call_flags ebind_assoc)
qed (simp add: wrapper_calls_def)

section \<open>Settings that are strings and lists of strings\<close>

text \<open>
  The reference: what a call adds, read off the dictionary of the tool. An empty setting counts as
  missing. A mapped list leaves out the items with no or an empty image, a mapped string only those
  with none.
\<close>

definition strings_of :: "pyval \<Rightarrow> string list" where
  "strings_of v = (case v of PStr s \<Rightarrow> [s] | PList xs \<Rightarrow> [s. PStr s \<leftarrow> xs] | _ \<Rightarrow> [])"

definition plain_setting :: "pyval \<Rightarrow> bool" where
  "plain_setting v = (case v of PStr s \<Rightarrow> True | PList xs \<Rightarrow> list_all (\<lambda>x. py_type x = TStr) xs | _ \<Rightarrow> False)"

definition images :: "(string \<times> string) list \<Rightarrow> bool \<Rightarrow> string list \<Rightarrow> string list" where
  "images t keep_empty ss = filter (\<lambda>r. keep_empty \<or> r \<noteq> []) (List.map_filter (map_of t) ss)"

definition mapped_strings :: "remap \<Rightarrow> pyval \<Rightarrow> string list" where
  "mapped_strings m v =
     (case m of Table t \<Rightarrow> images t (\<not> is_list v) (strings_of v) | _ \<Rightarrow> strings_of v)"

definition flags_of :: "pydict \<Rightarrow> flag_call \<Rightarrow> string list" where
  "flags_of tool call =
     (case call of (name, m, pre, dflt) \<Rightarrow>
        let v = dget_or tool name PNone in map ((@) pre) (mapped_strings m (if truth v then v else dflt)))"

text \<open>The calls of the compiler: no function as a map, a string or nothing as the default.\<close>

definition plain_call :: "flag_call \<Rightarrow> bool" where
  "plain_call call = (case call of (name, m, pre, dflt) \<Rightarrow>
     (case m of Callable _ \<Rightarrow> False | _ \<Rightarrow> True) \<and> (case dflt of PNone \<Rightarrow> True | PStr _ \<Rightarrow> True | _ \<Rightarrow> False))"

lemma as_str_all: "list_all (\<lambda>x. py_type x = TStr) xs \<Longrightarrow> emap as_str xs = Inr [s. PStr s \<leftarrow> xs]"
  by (induction xs) (auto simp: list_all_iff)

lemma emap_as_str_map [simp]: "emap as_str (map (\<lambda>s. PStr (f s)) ss) = Inr (map f ss)"
  by (induction ss) simp_all

lemma table_get_str:
  "table_get t (PStr s) = Inr (case map_of t s of Some r \<Rightarrow> PStr r | None \<Rightarrow> PNone)"
  by (simp add: table_get_def)

lemma emap_table:
  "list_all (\<lambda>x. py_type x = TStr) xs \<Longrightarrow>
   \<exists>ys. emap (table_get t) xs = Inr ys \<and> filter truth ys = map PStr (images t False [s. PStr s \<leftarrow> xs])"
proof (induction xs)
  case (Cons x xs)
  then obtain s ys where "x = PStr s" "emap (table_get t) xs = Inr ys"
    "filter truth ys = map PStr (images t False [s. PStr s \<leftarrow> xs])" by auto
  then show ?case by (cases "map_of t s") (simp_all add: table_get_str images_def map_filter_simps)
qed (simp add: images_def map_filter_simps)

lemma munge_flags:
  assumes "plain_setting v \<or> v = PNone" and "case m of Callable _ \<Rightarrow> False | _ \<Rightarrow> True"
  shows "ebind (DoRemapping v m) (\<lambda>v. ebind (AddPrefix v pre) (append_flags []))
         = Inr (map ((@) pre) (mapped_strings m v))"
proof (cases v)
  case (PStr s)
  then show ?thesis
    using assms by (cases m) (auto simp: DoRemapping_def remap_elem_def table_get_def append_flags_def
        mapped_strings_def images_def strings_of_def map_filter_simps split: option.splits)
next
  case (PList xs)
  then have xs: "list_all (\<lambda>x. py_type x = TStr) xs" using assms by (simp add: plain_setting_def)
  show ?thesis
  proof (cases m)
    case NoMap
    then show ?thesis
      using PList as_str_all [OF xs]
      by (simp add: DoRemapping_def append_flags_def mapped_strings_def strings_of_def)
  next
    case (Table t)
    then show ?thesis
      using PList emap_table [OF xs, of t] emap_as_str_map [of "\<lambda>s. s"]
      by (auto simp: DoRemapping_def remap_elem_def append_flags_def mapped_strings_def strings_of_def)
  qed (use assms in simp)
qed (use assms in \<open>auto simp: plain_setting_def DoRemapping_def remap_elem_def append_flags_def
       mapped_strings_def images_def strings_of_def map_filter_simps split: remap.splits\<close>)

lemma retrieve_tool:
  assumes "map_of settings tool = Some (PDict d)"
  shows "GenericRetrieve (PDict settings) dflt [tool, name]
         = Inr (let v = dget_or d name PNone in if truth v then v else dflt)"
  using assms by (cases settings; cases d) (auto simp: dget_or_def)

declare GenericRetrieve.simps [simp del]

lemma call_flags_plain:
  assumes "map_of settings tool = Some (PDict d)" and "\<forall>v\<in>snd ` set d. plain_setting v" and "plain_call call"
  shows "call_flags (PDict settings) tool call = Inr (flags_of d call)"
proof (cases call)
  case (fields name m pre dflt)
  let ?v = "dget_or d name PNone"
  have "plain_setting ?v \<or> ?v = PNone"
    using assms(2) by (auto simp: dget_or_def split: option.splits dest!: map_of_SomeD)
  then have "plain_setting (if truth ?v then ?v else dflt) \<or> (if truth ?v then ?v else dflt) = PNone"
    using assms(3) by (cases dflt) (auto simp: plain_call_def fields plain_setting_def)
  then show ?thesis
    using munge_flags [of "if truth ?v then ?v else dflt" m pre] assms(3)
    by (simp add: call_flags_def wrapper_call_def fields GetAndMunge_def retrieve_tool [OF assms(1)] ebind_assoc
        flags_of_def plain_call_def Let_def)
qed

lemma wrapper_calls_plain:
  assumes "map_of settings tool = Some (PDict d)" and "\<forall>v\<in>snd ` set d. plain_setting v"
    and "list_all plain_call calls"
  shows "wrapper_calls (PDict settings) tool flags calls = Inr (flags @ concat (map (flags_of d) calls))"
proof -
  have "emap (call_flags (PDict settings) tool) calls = Inr (map (flags_of d) calls)"
    using assms by (intro emap_pure call_flags_plain) (auto simp: list_all_iff)
  then show ?thesis by (simp add: wrapper_calls_concat)
qed

section \<open>The compiler\<close>

text \<open>
  C36: the flags of the compiler are what its settings ask for. When the settings of the tool are strings
  and lists of strings, \<open>GetCflags\<close> returns the disabled warnings, then for each setting it knows, in the
  order of the code, the flags of that setting (or its default), then the forced includes and the flag of
  the newest compiler, without any flag that starts with \<open>/MP\<close>.
\<close>

theorem GetCflags_correct:
  assumes "TargetConfig m config = Inr c"
    and "map_of (disabled_warnings m) c = Some (PList (map PStr warnings))"
    and "map_of (msvs_settings m) c = Some (PDict settings)"
    and "map_of settings ''VCCLCompilerTool'' = Some (PDict tool)"
    and "\<forall>v\<in>snd ` set tool. plain_setting v"
    and "dget_or tool ''ForcedIncludeFiles'' (PList []) = PList (map PStr forced)"
  shows "GetCflags m config = Inr (filter (\<lambda>f. \<not> starts_with f ''/MP'')
    (map ((@) ''/wd'') warnings @ concat (map (flags_of tool) cl_calls) @ map ((@) ''/FI'') forced
     @ (if vs_short_name (m_world m) \<in> {''2013'', ''2013e''} then [''/FS''] else [])))"
proof -
  have "list_all plain_call cl_calls" by code_simp
  then have "wrapper_calls (PDict settings) ''VCCLCompilerTool'' (map ((@) ''/wd'') warnings) cl_calls
      = Inr (map ((@) ''/wd'') warnings @ concat (map (flags_of tool) cl_calls))"
    by (rule wrapper_calls_plain [OF assms(4,5)])
  moreover have "Setting m [''VCCLCompilerTool'', ''ForcedIncludeFiles''] c (PList []) = Inr (PList (map PStr forced))"
    using assms(6) emap_as_str_map [of "\<lambda>s. s" forced]
    by (auto simp: Setting_def dindex_def assms(3) GetAndMunge_def retrieve_tool [OF assms(4)] DoRemapping_def
        dget_or_def Let_def split: option.splits)
  ultimately show ?thesis
    using emap_as_str_map [of "\<lambda>s. s"] by (simp add: GetCflags_def assms dindex_def Let_def)
qed

definition cl_world :: vs_world where
  "cl_world = \<lparr>vs_short_name = ''2013e'', vs_path = [], environ = Map.empty, reg_output = []\<rparr>"

definition cl_tool :: pydict where
  "cl_tool =
     [(''Optimization'', PStr ''3''), (''AdditionalOptions'', PList [PStr ''/MP4'', PStr ''/bigobj'']),
      (''OmitFramePointers'', PStr ''true''), (''RuntimeLibrary'', PStr ''9'')]"

definition cl_settings :: msvs where
  "cl_settings =
     (case MsvsSettings cl_world
        [(''target_name'', PStr ''base''),
         (''configurations'', PDict [(''Debug'', PDict
            [(''msvs_disabled_warnings'', PList [PStr ''4355'']),
             (''msvs_settings'', PDict [(''VCCLCompilerTool'', PDict cl_tool)])])])] of Inr m \<Rightarrow> m)"

theorem GetCflags_correct_witness:
  "GetCflags cl_settings ''Debug'' = Inr [''/wd4355'', ''/Ox'', ''/Oy'', ''/bigobj'', ''/FS'']"
proof -
  have "TargetConfig cl_settings ''Debug'' = Inr ''Debug''"
    "map_of (disabled_warnings cl_settings) ''Debug'' = Some (PList (map PStr [''4355'']))"
    "map_of (msvs_settings cl_settings) ''Debug'' = Some (PDict [(''VCCLCompilerTool'', PDict cl_tool)])"
    "map_of [(''VCCLCompilerTool'', PDict cl_tool)] ''VCCLCompilerTool'' = Some (PDict cl_tool)"
    "\<forall>v\<in>snd ` set cl_tool. plain_setting v"
    "dget_or cl_tool ''ForcedIncludeFiles'' (PList []) = PList (map PStr [])"
    by code_simp+
  note GetCflags_correct [OF this]
  moreover have "filter (\<lambda>f. \<not> starts_with f ''/MP'')
    (map ((@) ''/wd'') [''4355''] @ concat (map (flags_of cl_tool) cl_calls) @ map ((@) ''/FI'') []
     @ (if vs_short_name (m_world cl_settings) \<in> {''2013'', ''2013e''} then [''/FS''] else []))
    = [''/wd4355'', ''/Ox'', ''/Oy'', ''/bigobj'', ''/FS'']"
    by code_simp
  ultimately show ?thesis by simp
qed

section \<open>The configuration of a target\<close>

lemma TargetConfig_steady:
  assumes "TargetConfig m config = Inr c" and "GetArch m (Some c) = GetArch m (Some config)"
    and "ends_with c ''_x64'' \<longleftrightarrow> GetArch m (Some c) = Inr ''x64''"
  shows "TargetConfig m c = Inr c"
  using assms by (auto simp: TargetConfig_def Let_def GetArch_def split: if_splits)

text \<open>
  The name of the compiler's database is expanded without the configuration: the platform is then taken
  to be the one of x86.
\<close>

lemma pdb_macros_platform:
  "GetVSMacroEnv m base_to_build None = Inr env \<Longrightarrow> map_of env ''$(PlatformName)'' = Some (PStr ''Win32'')"
  by (auto simp: GetVSMacroEnv_def GetArch_def at_config_def Let_def)

section \<open>The linker\<close>

lemma default_ldflags_eq:
  "default_ldflags user =
     user @ (if \<exists>f\<in>set user. sublist ''DYNAMICBASE'' f \<or> f = ''/FIXED'' then [] else [''/DYNAMICBASE''])
     @ (if \<exists>f\<in>set user. sublist ''NXCOMPAT'' f then [] else [''/NXCOMPAT''])"
proof -
  have "\<not> sublist ''NXCOMPAT'' ''/DYNAMICBASE''" by code_simp
  then show ?thesis by (auto simp: default_ldflags_def Let_def filter_empty_conv)
qed

lemma def_flag_default: "(\<exists>f\<in>set (default_ldflags user). starts_with f ''/DEF:'') \<longleftrightarrow> (\<exists>f\<in>set user. starts_with f ''/DEF:'')"
  by (auto simp: default_ldflags_eq starts_with_def)

lemma GetLdManifestFlags_off:
  assumes "Setting m [''VCLinkerTool'', ''GenerateManifest''] c (PStr ''true'') = Inr g" and "g \<noteq> PStr ''true''"
  shows "GetLdManifestFlags m c name g2b isolate build_dir =
    Inr \<lparr>manifest_flags = [''/MANIFEST:NO''], intermediate_manifest = None, manifest_files = [], written = []\<rparr>"
  using assms by (simp add: GetLdManifestFlags_def)

lemma GetLdManifestFlags_on:
  assumes "Setting m [''VCLinkerTool'', ''GenerateManifest''] c (PStr ''true'') = Inr (PStr ''true'')"
    and "GetLdManifestFlags m c name g2b isolate build_dir = Inr man"
  shows "manifest_flags man =
      [''/MANIFEST'', ''/ManifestFile:'' @ name @ ''.intermediate.manifest'', ''/MANIFESTUAC:NO'']
      @ (if isolate then [''/ALLOWISOLATION''] else [])"
    and "intermediate_manifest man = Some (name @ ''.intermediate.manifest'')"
    and "\<exists>more contents. manifest_files man = (name @ ''.generated.manifest'') # more
      \<and> written man = [(win_join build_dir (name @ ''.generated.manifest''), contents)]"
  using assms by (auto simp: GetLdManifestFlags_def Let_def)


definition sample_link :: "string list \<times> link_manifest" where
  "sample_link =
     (case GetLdflags sample_settings ''Debug'' Inr Inr ''base'' ''base.dll'' False ''out'' of Inr r \<Rightarrow> r)"

lemma sample_link:
  "GetLdflags sample_settings ''Debug'' Inr Inr ''base'' ''base.dll'' False ''out'' = Inr (fst sample_link, snd sample_link)"
  "fst sample_link =
     [''/OUT:base.dll'', ''/a'', ''/MP4'', ''/FIXED'', ''/NXCOMPAT'', ''/MANIFEST'',
      ''/ManifestFile:base.intermediate.manifest'', ''/MANIFESTUAC:NO'']"
  "Setting sample_settings [''VCLinkerTool'', ''GenerateManifest''] ''Debug'' (PStr ''true'') = Inr (PStr ''true'')"
  "TargetConfig sample_settings ''Debug'' = Inr ''Debug''"
  by code_simp+


end
