(* ===== verification/MsvsEnvironment.thy ===== *)
theory MsvsEnvironment
  imports MsvsFlags OrderedSets
begin

text \<open>
  The environment of the Microsoft tools in \<open>gyp/msvs_emulation.py\<close>: include directories shared by all
  configurations, the variables kept from the set-up script, the environment block written for each
  architecture with its reader, the path of the compiler and the check for missing sources. What the
  set-up scripts print, the directory of the running Python and the file system are arguments.
\<close>

section \<open>Include directories shared by all configurations\<close>

text \<open>An ordered set by its elements: \<open>OrderedSet(xs)\<close> and \<open>s & t\<close>, which keeps the order of \<open>t\<close>.\<close>

definition ordered :: "'k list \<Rightarrow> 'k list" where
  "ordered xs = foldl add_if_new [] xs"

definition ordered_and :: "'k list \<Rightarrow> 'k list \<Rightarrow> 'k list" where
  "ordered_and s t = filter (\<lambda>x. x \<in> set s) t"

definition ordered_items :: "pyval \<Rightarrow> pyval list res" where
  "ordered_items v =
     ebind (iter_items v) (\<lambda>xs. if list_all hashable xs then Inr (ordered xs) else Inl TypeErr)"

definition system_includes :: "pydict \<Rightarrow> pyval" where
  "system_includes config = dget_or config ''msvs_system_include_dirs'' (PList [])"

definition without_shared :: "pyval list \<Rightarrow> pydict \<Rightarrow> pydict res" where
  "without_shared shared config =
     (let includes = system_includes config in
      if truth includes
      then ebind (iter_items includes) (\<lambda>xs.
             Inr (dset ''msvs_system_include_dirs'' (PList (filter (\<lambda>i. i \<notin> set shared) xs)) config))
      else Inr config)"

definition ExtractSharedMSVSSystemIncludes ::
  "vs_world \<Rightarrow> pydict list \<Rightarrow> (pyval list option \<times> pydict list) res" where
  "ExtractSharedMSVSSystemIncludes w configs =
     (case configs of
        [] \<Rightarrow> Inl IndexErr
      | config0 # rest \<Rightarrow>
          ebind (ordered_items (system_includes config0)) (\<lambda>shared0.
          ebind (efold (\<lambda>shared config.
                   ebind (ordered_items (system_includes config)) (\<lambda>xs. Inr (ordered_and shared xs)))
                   shared0 rest) (\<lambda>shared.
            if shared = [] then Inr (None, configs)
            else
              ebind (GetGlobalVSMacroEnv w) (\<lambda>env.
              ebind (emap (\<lambda>inc. ExpandMacros inc env) shared) (\<lambda>xs.
              ebind (ordered_items (PList xs)) (\<lambda>expanded.
              ebind (emap (str_in ''$'') expanded) (\<lambda>specific.
                if list_ex id specific then Inr (None, configs)
                else ebind (emap (without_shared shared) configs) (\<lambda>configs.
                       Inr (Some expanded, configs)))))))))"

section \<open>The environment of an architecture\<close>

definition envvars_to_save :: "string list" where
  "envvars_to_save =
     [''goma_.*'', ''include'', ''lib'', ''libpath'', ''path'', ''pathext'', ''systemroot'', ''temp'', ''tmp'']"

text \<open>\<open>re.match(envvar + '=', line.lower())\<close>: one name holds a wild card.\<close>

definition envvar_matches :: "string \<Rightarrow> string \<Rightarrow> bool" where
  "envvar_matches line envvar =
     (if envvar = ''goma_.*'' then starts_with (lower line) ''goma_'' \<and> CHR ''='' \<in> set (drop 5 (lower line))
      else starts_with (lower line) (envvar @ ''=''))"

definition save_line :: "string \<Rightarrow> (string \<times> string) list \<Rightarrow> string \<Rightarrow> (string \<times> string) list" where
  "save_line python_dir env line =
     (case find (envvar_matches line) envvars_to_save of
        None \<Rightarrow> env
      | Some envvar \<Rightarrow>
          (case split1 (CHR ''='') line of
             None \<Rightarrow> env
           | Some (var, setting) \<Rightarrow>
               AList.update (upper var)
                 (if envvar = ''path'' then python_dir @ '';'' @ setting else setting) env))"

definition ExtractImportantEnvironment :: "string \<Rightarrow> string \<Rightarrow> (string \<times> string) list res" where
  "ExtractImportantEnvironment python_dir output_of_set =
     (let env = foldl (save_line python_dir) [] (splitlines output_of_set) in
      case find (\<lambda>required. map_of env required = None) [''SYSTEMROOT'', ''TEMP'', ''TMP''] of
        Some required \<Rightarrow>
          Inl (PlainExc (''Environment variable '' @ [CHR 0x22] @ required @ [CHR 0x22]
                         @ '' required to be set to valid path''))
      | None \<Rightarrow> Inr env)"

abbreviation nul :: char where "nul \<equiv> CHR 0x00"

definition FormatAsEnvironmentBlock :: "(string \<times> string) list \<Rightarrow> string" where
  "FormatAsEnvironmentBlock envvar_dict =
     concat (map (\<lambda>(key, setting). key @ ''='' @ setting @ [nul]) envvar_dict) @ [nul]"

definition ExtractCLPath :: "string \<Rightarrow> string option" where
  "ExtractCLPath output_of_where =
     map_option (\<lambda>line. strip (drop 4 line))
       (find (\<lambda>line. starts_with line ''LOC:'') (splitlines (strip output_of_where)))"

text \<open>
  One turn of the loop of \<open>GenerateEnvironmentFiles\<close>. The state is the variable \<open>system_includes\<close>, the
  files written and the paths found.
\<close>

type_synonym env_state = "string list \<times> (string \<times> string) list \<times> (string \<times> string option) list"

definition environment_of_arch ::
  "string \<Rightarrow> (string \<Rightarrow> string) \<Rightarrow> (string \<Rightarrow> string) \<Rightarrow> string \<Rightarrow> env_state \<Rightarrow> string \<Rightarrow> env_state res" where
  "environment_of_arch python_dir run_set run_where toplevel_build_dir state arch =
     (case state of (system, files, cl_paths) \<Rightarrow>
        ebind (ExtractImportantEnvironment python_dir (run_set arch)) (\<lambda>env.
          let own = split_on (CHR '';'') (case map_of env ''INCLUDE'' of Some i \<Rightarrow> i | None \<Rightarrow> []);
              (system, env) =
                (if system \<noteq> []
                 then let all = ordered (system @ own) in (all, AList.update ''INCLUDE'' (join_with '';'' all) env)
                 else (system, env)) in
          Inr (system,
               files @ [(win_join toplevel_build_dir (''environment.'' @ arch), FormatAsEnvironmentBlock env)],
               AList.update arch (ExtractCLPath (run_where arch)) cl_paths)))"

definition GenerateEnvironmentFiles ::
  "string \<Rightarrow> (string \<Rightarrow> string) \<Rightarrow> (string \<Rightarrow> string) \<Rightarrow> string \<Rightarrow> pydict \<Rightarrow> string list
   \<Rightarrow> ((string \<times> string) list \<times> (string \<times> string option) list) res" where
  "GenerateEnvironmentFiles python_dir run_set run_where toplevel_build_dir generator_flags system =
     (let archs = [''x86'', ''x64''] in
      if truth (dget_or generator_flags ''ninja_use_custom_environment_files'' (PInt 0))
      then Inr ([], map (\<lambda>arch. (arch, Some ''cl.exe'')) archs)
      else ebind (efold (environment_of_arch python_dir run_set run_where toplevel_build_dir) (system, [], []) archs)
             (\<lambda>(_, files, cl_paths). Inr (files, cl_paths)))"

section \<open>Missing sources and variables of the generators\<close>

definition VerifyMissingSources ::
  "(string \<Rightarrow> bool) \<Rightarrow> (string \<Rightarrow> string res) \<Rightarrow> string list \<Rightarrow> string \<Rightarrow> pydict \<Rightarrow> unit res" where
  "VerifyMissingSources path_exists gyp_to_ninja sources build_dir generator_flags =
     ebind (to_int (dget_or generator_flags ''msvs_error_on_missing_sources'' (PInt 0))) (\<lambda>flag.
       if flag = 0 then Inr ()
       else
         let no_specials = filter (\<lambda>x. CHR ''$'' \<notin> set x) sources in
         ebind (emap gyp_to_ninja no_specials) (\<lambda>ps.
           let relative = map (win_join build_dir) ps;
               missing = filter (\<lambda>x. \<not> path_exists x) relative in
           if missing \<noteq> []
           then Inl (PlainExc (''Missing input files:'' @ [CHR 0x0A]
                               @ join_with [CHR 0x0A] (map win_normpath missing)))
           else Inr ()))"

text \<open>The version of Visual Studio is selected once and kept.\<close>

definition GetVSVersion ::
  "(pyval \<Rightarrow> 'v res) \<Rightarrow> 'v option \<Rightarrow> pydict \<Rightarrow> ('v \<times> 'v option) res" where
  "GetVSVersion select kept generator_flags =
     (case kept of
        Some v \<Rightarrow> Inr (v, kept)
      | None \<Rightarrow> ebind (select (dget_or generator_flags ''msvs_version'' (PStr ''auto''))) (\<lambda>v. Inr (v, Some v)))"

definition CalculateCommonVariables :: "vs_world \<Rightarrow> pydict \<Rightarrow> pydict" where
  "CalculateCommonVariables w default_variables =
     (let wide = (\<lambda>name. sublist ''64'' (case environ w name of Some s \<Rightarrow> s | None \<Rightarrow> []));
          d = dset ''MSVS_VERSION'' (PStr (vs_short_name w)) default_variables in
      dset ''MSVS_OS_BITS''
        (PInt (if wide ''PROCESSOR_ARCHITECTURE'' \<or> wide ''PROCESSOR_ARCHITEW6432'' then 64 else 32)) d)"

end
