(* ===== verification/MsvsEnvironmentCorrect.thy ===== *)
theory MsvsEnvironmentCorrect
  imports MsvsEnvironment
begin

text \<open>
  What the environment written for the Microsoft tools is: the variables kept from the set-up script, and
  the block that holds them, which is read back as these variables.
\<close>

section \<open>Upper and lower case\<close>

lemma upper_char_fixed:
  assumes "(of_char d :: nat) < 65"
  shows "upper_char c = d \<longleftrightarrow> c = d"
proof (cases "97 \<le> (of_char c :: nat) \<and> (of_char c :: nat) \<le> 122")
  case True
  then have "(of_char (upper_char c) :: nat) = of_char c - 32" by (auto simp: upper_char_def Let_def intro: mod_less)
  then show ?thesis using True assms by auto
qed (auto simp: upper_char_def Let_def)

lemma lower_char_fixed:
  assumes "(of_char d :: nat) < 65"
  shows "lower_char c = d \<longleftrightarrow> c = d"
proof (cases "65 \<le> (of_char c :: nat) \<and> (of_char c :: nat) \<le> 90")
  case True
  then have "(of_char (lower_char c) :: nat) = of_char c + 32" by (simp add: lower_char_def Let_def)
  then show ?thesis using True assms by auto
qed (auto simp: lower_char_def Let_def)

lemma lower_upper_char: "lower_char (upper_char c) = lower_char c"
proof (cases "97 \<le> (of_char c :: nat) \<and> (of_char c :: nat) \<le> 122")
  case True
  then have "(of_char (upper_char c) :: nat) = of_char c - 32" by (auto simp: upper_char_def Let_def intro: mod_less)
  moreover have "65 \<le> (of_char c :: nat) - 32" "(of_char c :: nat) - 32 \<le> 90" "\<not> (of_char c :: nat) \<le> 90"
    using True by linarith+
  ultimately show ?thesis using True by (simp add: lower_char_def Let_def)
qed (auto simp: upper_char_def Let_def)

lemma lower_upper: "lower (upper s) = lower s"
  by (simp add: lower_def upper_def lower_upper_char)

lemma lower_append [simp]: "lower (s @ t) = lower s @ lower t" "lower (c # s) = lower_char c # lower s"
  by (simp_all add: lower_def)

lemma case_signs [simp]:
  "lower_char c = CHR ''='' \<longleftrightarrow> c = CHR ''=''" "upper_char c = CHR ''='' \<longleftrightarrow> c = CHR ''=''"
  "upper_char c = CHR 0x00 \<longleftrightarrow> c = CHR 0x00"
  by (rule lower_char_fixed upper_char_fixed, simp)+

lemma lower_sign [simp]: "lower_char (CHR ''='') = CHR ''=''"
  by simp

lemma sign_in_case [simp]:
  "CHR ''='' \<in> set (lower s) \<longleftrightarrow> CHR ''='' \<in> set s" "CHR ''='' \<in> set (upper s) \<longleftrightarrow> CHR ''='' \<in> set s"
  "CHR 0x00 \<in> set (upper s) \<longleftrightarrow> CHR 0x00 \<in> set s"
  unfolding lower_def upper_def set_map image_iff by (metis case_signs)+

section \<open>The variables kept\<close>

definition kept_name :: "string \<Rightarrow> bool" where
  "kept_name k \<longleftrightarrow>
     starts_with (lower k) ''goma_'' \<or> lower k \<in> set (tl envvars_to_save)"

definition kept_entry :: "string \<Rightarrow> string \<times> string \<Rightarrow> bool" where
  "kept_entry python_dir entry \<longleftrightarrow>
     kept_name (fst entry) \<and> CHR ''='' \<notin> set (fst entry)
     \<and> (lower (fst entry) = ''path'' \<longrightarrow> starts_with (snd entry) (python_dir @ '';''))"

lemma starts_with_sign:
  "CHR ''='' \<notin> set v \<Longrightarrow> CHR ''='' \<notin> set e \<Longrightarrow> starts_with (v @ CHR ''='' # r) (e @ ''='') \<longleftrightarrow> v = e"
  unfolding starts_with_iff by (auto simp: append_eq_append_conv2 Cons_eq_append_conv append_eq_Cons_conv)

lemma starts_before_sign: "starts_with (v @ CHR ''='' # r) p \<Longrightarrow> CHR ''='' \<notin> set p \<Longrightarrow> starts_with v p"
  unfolding starts_with_iff by (auto simp: append_eq_append_conv2 Cons_eq_append_conv append_eq_Cons_conv)

lemma envvar_names: "e \<in> set envvars_to_save \<Longrightarrow> e = ''goma_.*'' \<or> e \<in> set (tl envvars_to_save) \<and> CHR ''='' \<notin> set e"
  by (auto simp: envvars_to_save_def)

lemma envvar_matches_name:
  assumes "envvar_matches (var @ CHR ''='' # setting) e" and "e \<in> set envvars_to_save" and "CHR ''='' \<notin> set var"
  shows "kept_name var \<and> (lower var = ''path'' \<longleftrightarrow> e = ''path'')"
proof (cases "e = ''goma_.*''")
  case True
  then have "starts_with (lower var) ''goma_''"
    using assms(1) starts_before_sign [of "lower var" "lower setting"] by (simp add: envvar_matches_def)
  then show ?thesis using True by (auto simp: kept_name_def starts_with_def)
next
  case False
  then have "lower var = e"
    using assms envvar_names [OF assms(2)] starts_with_sign [of "lower var" e] by (auto simp: envvar_matches_def)
  then show ?thesis using envvar_names [OF assms(2)] False by (auto simp: kept_name_def)
qed

lemma set_alist_update: "set (AList.update k v xs) \<subseteq> insert (k, v) (set xs)"
  by (induction xs) auto

lemma save_line_kept:
  assumes "\<forall>x\<in>set env. kept_entry python_dir x"
  shows "\<forall>x\<in>set (save_line python_dir env line). kept_entry python_dir x"
proof (cases "find (envvar_matches line) envvars_to_save")
  case (Some e)
  then have e: "envvar_matches line e" "e \<in> set envvars_to_save"
    by (auto simp: find_Some_iff)
  show ?thesis
  proof (cases "split1 (CHR ''='') line")
    case (Some p)
    then obtain var setting where p: "p = (var, setting)" "line = var @ CHR ''='' # setting" "CHR ''='' \<notin> set var"
      by (cases p) (auto simp: split1_Some)
    then have name: "kept_name var \<and> (lower var = ''path'' \<longleftrightarrow> e = ''path'')"
      using envvar_matches_name e by blast
    then have "kept_entry python_dir (upper var, if e = ''path'' then python_dir @ '';'' @ setting else setting)"
      using p(3) by (simp add: kept_entry_def kept_name_def lower_upper starts_with_def)
    then show ?thesis
      using assms Some \<open>find _ _ = Some e\<close> p(1)
      by (auto simp: save_line_def dest!: set_mp [OF set_alist_update])
  qed (use assms \<open>find _ _ = Some e\<close> in \<open>simp add: save_line_def\<close>)
qed (use assms in \<open>simp add: save_line_def\<close>)

lemma save_lines_kept:
  "\<forall>x\<in>set env. kept_entry python_dir x \<Longrightarrow> \<forall>x\<in>set (foldl (save_line python_dir) env lines). kept_entry python_dir x"
proof (induction lines arbitrary: env)
  case (Cons line lines)
  then show ?case using save_line_kept by (metis foldl_Cons)
qed simp

text \<open>No character appears that was neither in the output nor in the directory of Python.\<close>

lemma lines_from_absent:
  "x \<notin> set acc \<Longrightarrow> x \<notin> set s \<Longrightarrow> l \<in> set (lines_from acc s) \<Longrightarrow> x \<notin> set l"
proof (induction acc s rule: lines_from.induct)
  case (2 acc c cs)
  show ?case
  proof (cases cs)
    case Nil
    then show ?thesis using 2 by (auto split: if_splits)
  next
    case (Cons d ds)
    have "c = CHR 0x0D \<Longrightarrow> d = CHR 0x0A \<Longrightarrow> l \<in> set (lines_from [] ds) \<Longrightarrow> x \<notin> set l"
      "c = CHR 0x0D \<Longrightarrow> d \<noteq> CHR 0x0A \<Longrightarrow> l \<in> set (lines_from [] cs) \<Longrightarrow> x \<notin> set l"
      "c \<noteq> CHR 0x0D \<Longrightarrow> c = CHR 0x0A \<Longrightarrow> l \<in> set (lines_from [] cs) \<Longrightarrow> x \<notin> set l"
      "c \<noteq> CHR 0x0D \<Longrightarrow> c \<noteq> CHR 0x0A \<Longrightarrow> l \<in> set (lines_from (c # acc) cs) \<Longrightarrow> x \<notin> set l"
      using 2 Cons by simp_all
    moreover have "l = rev acc \<or> (c = CHR 0x0D \<and> d = CHR 0x0A \<and> l \<in> set (lines_from [] ds))
        \<or> (c = CHR 0x0D \<and> d \<noteq> CHR 0x0A \<and> l \<in> set (lines_from [] cs))
        \<or> (c \<noteq> CHR 0x0D \<and> c = CHR 0x0A \<and> l \<in> set (lines_from [] cs))
        \<or> (c \<noteq> CHR 0x0D \<and> c \<noteq> CHR 0x0A \<and> l \<in> set (lines_from (c # acc) cs))"
      using 2(7) by (simp only: lines_from.simps Cons list.case) (simp only: split: if_splits; force)
    ultimately show ?thesis using 2(5) by auto
  qed
qed (simp split: if_splits)

lemma splitlines_absent: "x \<notin> set s \<Longrightarrow> \<forall>l\<in>set (splitlines s). x \<notin> set l"
  using lines_from_absent [of x "[]" s] by (auto simp: splitlines_def)

definition no_nul :: "string \<times> string \<Rightarrow> bool" where
  "no_nul entry \<longleftrightarrow> nul \<notin> set (fst entry) \<and> nul \<notin> set (snd entry)"

lemma save_line_no_nul:
  assumes "\<forall>x\<in>set env. no_nul x" and "nul \<notin> set line" and "nul \<notin> set python_dir"
  shows "\<forall>x\<in>set (save_line python_dir env line). no_nul x"
proof (cases "split1 (CHR ''='') line")
  case (Some p)
  then have "line = fst p @ CHR ''='' # snd p" by (cases p) (simp add: split1_Some)
  then have "nul \<notin> set (fst p)" "nul \<notin> set (snd p)" using assms(2) by auto
  then show ?thesis
    using assms Some by (auto simp: save_line_def no_nul_def split: option.splits prod.splits
        dest!: set_mp [OF set_alist_update])
qed (use assms in \<open>auto simp: save_line_def split: option.splits\<close>)

lemma save_lines_no_nul:
  "\<forall>x\<in>set env. no_nul x \<Longrightarrow> \<forall>l\<in>set lines. nul \<notin> set l \<Longrightarrow> nul \<notin> set python_dir
   \<Longrightarrow> \<forall>x\<in>set (foldl (save_line python_dir) env lines). no_nul x"
proof (induction lines arbitrary: env)
  case (Cons line lines)
  then show ?case using save_line_no_nul [of env line python_dir] by simp
qed simp

lemma save_line_distinct: "distinct (map fst env) \<Longrightarrow> distinct (map fst (save_line python_dir env line))"
  by (auto simp: save_line_def distinct_update split: option.splits prod.splits)

lemma save_lines_distinct:
  "distinct (map fst env) \<Longrightarrow> distinct (map fst (foldl (save_line python_dir) env lines))"
  by (induction lines arbitrary: env) (simp_all add: save_line_distinct)

section \<open>The environment block\<close>

text \<open>
  How a program reads the block: entries end with a zero, an empty entry ends the block, and the first
  equals sign of an entry ends the name.
\<close>

definition read_block :: "string \<Rightarrow> (string \<times> string) option list" where
  "read_block block = map (split1 (CHR ''='')) (takeWhile (\<lambda>e. e \<noteq> []) (split_on nul block))"

lemma split_block:
  "\<forall>x\<in>set env. no_nul x \<Longrightarrow>
   split_on nul (FormatAsEnvironmentBlock env) = map (\<lambda>(k, v). k @ ''='' @ v) env @ [[], []]"
proof (induction env)
  case (Cons x env)
  obtain k v where x: "x = (k, v)" by (cases x)
  have "FormatAsEnvironmentBlock (x # env) = (k @ ''='' @ v) @ nul # FormatAsEnvironmentBlock env"
    by (simp add: FormatAsEnvironmentBlock_def x)
  moreover have "nul \<notin> set (k @ ''='' @ v)" using Cons.prems by (simp add: x no_nul_def)
  ultimately have "split_on nul (FormatAsEnvironmentBlock (x # env))
      = (k @ ''='' @ v) # split_on nul (FormatAsEnvironmentBlock env)"
    using split_on_append_sep by metis
  then show ?case using Cons by (simp add: x)
qed (simp add: FormatAsEnvironmentBlock_def)

lemma read_block_format:
  assumes "\<forall>x\<in>set env. no_nul x \<and> CHR ''='' \<notin> set (fst x)"
  shows "read_block (FormatAsEnvironmentBlock env) = map Some env"
proof -
  have "takeWhile (\<lambda>e. e \<noteq> []) (map (\<lambda>(k, v). k @ ''='' @ v) env @ [[], []]) = map (\<lambda>(k, v). k @ ''='' @ v) env"
    by (induction env) auto
  moreover have "map (split1 (CHR ''='')) (map (\<lambda>(k, v). k @ ''='' @ v) env) = map Some env"
    using assms by (induction env) (auto simp: split1_Some)
  ultimately show ?thesis using assms by (simp add: read_block_def split_block)
qed


definition sample_output :: string where
  "sample_output =
     join_with [CHR 0x0D, CHR 0x0A]
       [''Path=C:/bin'', ''PATHEXT=.exe'', ''SystemRoot=C:/W'', ''Temp=t'', ''TMP=u=v'', ''USER=x'']"


section \<open>The environments of the two architectures\<close>

text \<open>
  The directories of x86 stay in the variable of the loop: the environment of x64 lists them before the
  directories of its own set-up script.
\<close>

definition include_dirs :: "(string \<times> string) list \<Rightarrow> string list" where
  "include_dirs env = split_on (CHR '';'') (case map_of env ''INCLUDE'' of Some i \<Rightarrow> i | None \<Rightarrow> [])"

lemma GenerateEnvironmentFiles_includes:
  assumes "GenerateEnvironmentFiles python_dir run_set run_where dir flags system = Inr (files, cl_paths)"
    and "\<not> truth (dget_or flags ''ninja_use_custom_environment_files'' (PInt 0))" and "system \<noteq> []"
  shows "\<exists>env86 env64.
    ExtractImportantEnvironment python_dir (run_set ''x86'') = Inr env86
    \<and> ExtractImportantEnvironment python_dir (run_set ''x64'') = Inr env64
    \<and> (let all86 = ordered (system @ include_dirs env86); all64 = ordered (all86 @ include_dirs env64) in
       files =
         [(win_join dir ''environment.x86'',
             FormatAsEnvironmentBlock (AList.update ''INCLUDE'' (join_with '';'' all86) env86)),
          (win_join dir ''environment.x64'',
             FormatAsEnvironmentBlock (AList.update ''INCLUDE'' (join_with '';'' all64) env64))])"
proof -
  have some: "ordered (x @ y) \<noteq> []" if "x \<noteq> []" for x y :: "string list"
    using that foldl_add_if_new_set [of "[]" "x @ y"] by (auto simp: ordered_def)
  obtain s1 f1 c1 where one: "environment_of_arch python_dir run_set run_where dir (system, [], []) ''x86'' = Inr (s1, f1, c1)"
    and two: "\<exists>s2. environment_of_arch python_dir run_set run_where dir (s1, f1, c1) ''x64'' = Inr (s2, files, cl_paths)"
    using assms(1,2) by (auto simp: GenerateEnvironmentFiles_def Let_def)
  obtain env86 where e86: "ExtractImportantEnvironment python_dir (run_set ''x86'') = Inr env86"
      "s1 = ordered (system @ include_dirs env86)"
      "f1 = [(win_join dir ''environment.x86'',
              FormatAsEnvironmentBlock (AList.update ''INCLUDE'' (join_with '';'' s1) env86))]"
    using one assms(3) by (auto simp: environment_of_arch_def Let_def include_dirs_def)
  obtain env64 where e64: "ExtractImportantEnvironment python_dir (run_set ''x64'') = Inr env64"
      "files = f1 @ [(win_join dir ''environment.x64'',
         FormatAsEnvironmentBlock (AList.update ''INCLUDE'' (join_with '';'' (ordered (s1 @ include_dirs env64))) env64))]"
    using two some [OF assms(3)] e86(2) by (auto simp: environment_of_arch_def Let_def include_dirs_def)
  show ?thesis using e86 e64 by (simp add: Let_def)
qed

end
