(* ===== verification/MsvsVersion.thy ===== *)
theory MsvsVersion
  imports MsvsEnvironment
begin

text \<open>
  \<open>gyp/MSVSVersion.py\<close>: the versions of Visual Studio, their set-up scripts, the registry, and the
  detection and selection of an installed version. What \<open>reg.exe\<close> answers, the environment, the files
  and the conversion to Cygwin paths are fields of a record.
\<close>

section \<open>Versions\<close>

record vs_version =
  short_name :: string
  description :: string
  solution_version :: string
  project_version :: string
  flat_sln :: bool
  uses_vcxproj :: bool
  vs_dir :: "string option"
  sdk_based :: bool
  default_toolset :: "string option"

text \<open>What a run of a program gives: an \<open>OSError\<close> (for a missing file or another one), or its output.\<close>

datatype run_result = NoSuchFile | OtherOSError | Ran string int

record machine =
  m_environ :: "string \<rightharpoonup> string"
  m_platform :: string
  m_run :: "string list \<Rightarrow> run_result"
  m_exists :: "string \<Rightarrow> bool"
  m_glob :: "string \<Rightarrow> string list"
  m_cygpath :: "string \<Rightarrow> string"

definition ProjectExtension :: "vs_version \<Rightarrow> string" where
  "ProjectExtension v = (if uses_vcxproj v then ''.vcxproj'' else ''.vcproj'')"

definition path_in :: "vs_version \<Rightarrow> string \<Rightarrow> string res" where
  "path_in v p = (case vs_dir v of None \<Rightarrow> Inl TypeErr | Some d \<Rightarrow> Inr (win_normpath (win_join d p)))"

definition ToolPath :: "vs_version \<Rightarrow> string \<Rightarrow> string res" where
  "ToolPath v tool =
     (case vs_dir v of
        None \<Rightarrow> Inl TypeErr | Some d \<Rightarrow> Inr (win_normpath (win_join (win_join d ''VC/bin'') tool)))"

definition runs_64_bit :: "machine \<Rightarrow> bool" where
  "runs_64_bit s \<longleftrightarrow>
     m_environ s ''PROCESSOR_ARCHITECTURE'' = Some ''AMD64'' \<or> m_environ s ''PROCESSOR_ARCHITEW6432'' = Some ''AMD64''"

definition SetupScript :: "machine \<Rightarrow> vs_version \<Rightarrow> string \<Rightarrow> string list res" where
  "SetupScript s v target_arch =
     (if target_arch \<notin> {''x86'', ''x64''} then Inl AssertErr
      else
        let sdk_dir = (case m_environ s ''WindowsSDKDir'' of Some d \<Rightarrow> d | None \<Rightarrow> []) in
        if sdk_based v \<and> sdk_dir \<noteq> []
        then Inr [win_normpath (win_join sdk_dir ''Bin/SetEnv.Cmd''), ''/'' @ target_arch]
        else if target_arch = ''x86''
        then (if short_name v = ''2013'' \<and> runs_64_bit s
              then ebind (path_in v ''VC/vcvarsall.bat'') (\<lambda>p. Inr [p, ''amd64_x86''])
              else ebind (path_in v ''Common7/Tools/vsvars32.bat'') (\<lambda>p. Inr [p]))
        else if short_name v = [] then Inl IndexErr
        else ebind (path_in v ''VC/vcvarsall.bat'') (\<lambda>p.
               Inr [p, if last (short_name v) \<noteq> CHR ''e'' \<and> runs_64_bit s then ''amd64'' else ''x86_amd64'']))"

definition CreateVersion :: "string \<Rightarrow> string option \<Rightarrow> bool \<Rightarrow> vs_version res" where
  "CreateVersion name path sdk =
     (let path = (case path of Some (c # cs) \<Rightarrow> Some (win_normpath (c # cs)) | p \<Rightarrow> p);
          version = (\<lambda>desc sln proj flat vcx toolset.
            Inr \<lparr>short_name = name, description = desc, solution_version = sln, project_version = proj,
                 flat_sln = flat, uses_vcxproj = vcx, vs_dir = path, sdk_based = sdk,
                 default_toolset = toolset\<rparr>) in
      if name = ''2013'' then version ''Visual Studio 2013'' ''13.00'' ''12.0'' False True (Some ''v120'')
      else if name = ''2013e'' then version ''Visual Studio 2013'' ''13.00'' ''12.0'' True True (Some ''v120'')
      else if name = ''2012'' then version ''Visual Studio 2012'' ''12.00'' ''4.0'' False True (Some ''v110'')
      else if name = ''2012e'' then version ''Visual Studio 2012'' ''12.00'' ''4.0'' True True (Some ''v110'')
      else if name = ''2010'' then version ''Visual Studio 2010'' ''11.00'' ''4.0'' False True None
      else if name = ''2010e'' then version ''Visual C++ Express 2010'' ''11.00'' ''4.0'' True True None
      else if name = ''2008'' then version ''Visual Studio 2008'' ''10.00'' ''9.00'' False False None
      else if name = ''2008e'' then version ''Visual Studio 2008'' ''10.00'' ''9.00'' True False None
      else if name = ''2005'' then version ''Visual Studio 2005'' ''9.00'' ''8.00'' False False None
      else if name = ''2005e'' then version ''Visual Studio 2005'' ''9.00'' ''8.00'' True False None
      else Inl (KeyErr name))"

section \<open>The registry\<close>

text \<open>The answer of one run of \<open>reg.exe\<close>: the outer option is an \<open>OSError\<close> for a missing file.\<close>

definition RegistryQueryBase :: "machine \<Rightarrow> string \<Rightarrow> string \<Rightarrow> string \<Rightarrow> string option option res" where
  "RegistryQueryBase s sysdir key name =
     (if m_platform s \<notin> {''win32'', ''cygwin''} then Inr (Some None)
      else
        let windir = (case m_environ s ''WINDIR'' of Some d \<Rightarrow> d | None \<Rightarrow> []);
            cmd = [win_join (win_join windir sysdir) ''reg.exe'', ''query'', key]
                  @ (if name \<noteq> [] then [''/v'', name] else []) in
        case m_run s cmd of
          NoSuchFile \<Rightarrow> Inr None
        | OtherOSError \<Rightarrow> Inl (IOErr ''reg.exe'')
        | Ran output code \<Rightarrow> Inr (Some (if code \<noteq> 0 then None else Some output)))"

definition RegistryQuery :: "machine \<Rightarrow> string \<Rightarrow> string \<Rightarrow> string option res" where
  "RegistryQuery s key name =
     ebind (RegistryQueryBase s ''Sysnative'' key name) (\<lambda>r.
       case r of
         Some answer \<Rightarrow> Inr answer
       | None \<Rightarrow>
           ebind (RegistryQueryBase s ''System32'' key name) (\<lambda>r.
             case r of Some answer \<Rightarrow> Inr answer | None \<Rightarrow> Inl (IOErr ''reg.exe'')))"

text \<open>
  \<open>re.search(r'REG_\w+\s+([^\r]+)\r\n', text).group(1)\<close>: the word is taken whole, the white space as
  long as the rest still matches.
\<close>

definition word_char :: "char \<Rightarrow> bool" where
  "word_char c \<longleftrightarrow> (let n = of_char c :: nat in
     (48 \<le> n \<and> n \<le> 57) \<or> (65 \<le> n \<and> n \<le> 90) \<or> (97 \<le> n \<and> n \<le> 122) \<or> n = 95)"

definition reg_group :: "string \<Rightarrow> string option" where
  "reg_group s =
     (let g = takeWhile (\<lambda>c. c \<noteq> CHR 0x0D) s in
      if g \<noteq> [] \<and> starts_with (drop (length g) s) [CHR 0x0D, CHR 0x0A] then Some g else None)"

fun reg_spaces :: "nat \<Rightarrow> string \<Rightarrow> string option" where
  "reg_spaces 0 s = None"
| "reg_spaces (Suc k) s =
     (case reg_group (drop (Suc k) s) of Some g \<Rightarrow> Some g | None \<Rightarrow> reg_spaces k s)"

definition reg_match :: "string \<Rightarrow> string option" where
  "reg_match s =
     (if starts_with s ''REG_''
      then (let w = takeWhile word_char (drop 4 s); rest = drop (4 + length w) s in
            if w = [] then None else reg_spaces (length (takeWhile py_space rest)) rest)
      else None)"

fun reg_search :: "string \<Rightarrow> string option" where
  "reg_search [] = None"
| "reg_search (c # cs) = (case reg_match (c # cs) of Some g \<Rightarrow> Some g | None \<Rightarrow> reg_search cs)"

definition RegistryGetValue :: "machine \<Rightarrow> string \<Rightarrow> string \<Rightarrow> string option res" where
  "RegistryGetValue s key name =
     ebind (RegistryQuery s key name) (\<lambda>t.
       Inr (case t of Some (c # cs) \<Rightarrow> reg_search (c # cs) | _ \<Rightarrow> None))"

definition RegistryKeyExists :: "machine \<Rightarrow> string \<Rightarrow> bool res" where
  "RegistryKeyExists s key =
     ebind (RegistryQuery s key []) (\<lambda>t. Inr (case t of Some (c # cs) \<Rightarrow> True | _ \<Rightarrow> False))"

section \<open>Detection and selection\<close>

definition ConvertToCygpath :: "machine \<Rightarrow> string \<Rightarrow> string" where
  "ConvertToCygpath s path = (if m_platform s = ''cygwin'' then strip (m_cygpath s path) else path)"

definition version_to_year :: "(string \<times> string) list" where
  "version_to_year =
     [(''8.0'', ''2005''), (''9.0'', ''2008''), (''10.0'', ''2010''), (''11.0'', ''2012''), (''12.0'', ''2013'')]"

abbreviation reg_path :: "string list \<Rightarrow> string" where
  "reg_path parts \<equiv> join_with [bslash] parts"

definition install_keys :: "string \<Rightarrow> string list" where
  "install_keys version =
     [reg_path [''HKLM'', ''Software'', ''Microsoft'', ''VisualStudio'', version],
      reg_path [''HKLM'', ''Software'', ''Wow6432Node'', ''Microsoft'', ''VisualStudio'', version],
      reg_path [''HKLM'', ''Software'', ''Microsoft'', ''VCExpress'', version],
      reg_path [''HKLM'', ''Software'', ''Wow6432Node'', ''Microsoft'', ''VCExpress'', version]]"

definition sdk_keys :: "string list" where
  "sdk_keys =
     [reg_path [''HKLM'', ''Software'', ''Microsoft'', ''VisualStudio'', ''SxS'', ''VC7''],
      reg_path [''HKLM'', ''Software'', ''Wow6432Node'', ''Microsoft'', ''VisualStudio'', ''SxS'', ''VC7'']]"

definition year_of :: "string \<Rightarrow> string res" where
  "year_of version = (case map_of version_to_year version of Some y \<Rightarrow> Inr y | None \<Rightarrow> Inl (KeyErr version))"

definition detect_installed :: "machine \<Rightarrow> bool \<Rightarrow> string \<Rightarrow> vs_version list \<Rightarrow> string \<Rightarrow> vs_version list res" where
  "detect_installed s force_express version versions key =
     ebind (RegistryGetValue s key ''InstallDir'') (\<lambda>p.
       case p of
         Some (c # cs) \<Rightarrow>
           let path = ConvertToCygpath s (c # cs);
               up = Some (win_join (win_join path ''..'') ''..'') in
           if \<not> force_express \<and> m_exists s (win_join path ''devenv.exe'')
           then ebind (year_of version) (\<lambda>y. ebind (CreateVersion y up False) (\<lambda>v. Inr (versions @ [v])))
           else if m_glob s (win_join path ''*express.exe'') \<noteq> []
           then ebind (year_of version) (\<lambda>y. ebind (CreateVersion (y @ ''e'') up False) (\<lambda>v. Inr (versions @ [v])))
           else Inr versions
       | _ \<Rightarrow> Inr versions)"

definition detect_sdk :: "machine \<Rightarrow> string \<Rightarrow> vs_version list \<Rightarrow> string \<Rightarrow> vs_version list res" where
  "detect_sdk s version versions key =
     ebind (RegistryGetValue s key version) (\<lambda>p.
       case p of
         Some (c # cs) \<Rightarrow>
           let path = ConvertToCygpath s (c # cs) in
           ebind (year_of version) (\<lambda>y.
           ebind (CreateVersion (y @ ''e'') (Some (win_join path ''..'')) True) (\<lambda>v. Inr (versions @ [v])))
       | _ \<Rightarrow> Inr versions)"

definition detect_version :: "machine \<Rightarrow> bool \<Rightarrow> vs_version list \<Rightarrow> string \<Rightarrow> vs_version list res" where
  "detect_version s force_express versions version =
     ebind (efold (detect_installed s force_express version) versions (install_keys version)) (\<lambda>versions.
       efold (detect_sdk s version) versions sdk_keys)"

definition DetectVisualStudioVersions :: "machine \<Rightarrow> string list \<Rightarrow> bool \<Rightarrow> vs_version list res" where
  "DetectVisualStudioVersions s versions_to_check force_express =
     efold (detect_version s force_express) [] versions_to_check"

definition version_map :: "(string \<times> string list) list" where
  "version_map =
     [(''auto'', [''12.0'', ''10.0'', ''9.0'', ''8.0'', ''11.0'']),
      (''2005'', [''8.0'']), (''2005e'', [''8.0'']), (''2008'', [''9.0'']), (''2008e'', [''9.0'']),
      (''2010'', [''10.0'']), (''2010e'', [''10.0'']), (''2012'', [''11.0'']), (''2012e'', [''11.0'']),
      (''2013'', [''12.0'']), (''2013e'', [''12.0''])]"

text \<open>The requested version may be a number of the generator flags: \<open>str(version)\<close> is taken.\<close>

definition SelectVisualStudioVersion :: "machine \<Rightarrow> pyval \<Rightarrow> vs_version res" where
  "SelectVisualStudioVersion s requested =
     (let requested = (if requested = PStr ''auto''
                       then PStr (case m_environ s ''GYP_MSVS_VERSION'' of Some v \<Rightarrow> v | None \<Rightarrow> ''auto'')
                       else requested) in
      case m_environ s ''GYP_MSVS_OVERRIDE_PATH'' of
        Some (c # cs) \<Rightarrow>
          (case m_environ s ''GYP_MSVS_VERSION'' of
             Some (d # ds) \<Rightarrow> CreateVersion (d # ds) (Some (c # cs)) True
           | _ \<Rightarrow> Inl (ValueErr (''GYP_MSVS_OVERRIDE_PATH requires GYP_MSVS_VERSION to be ''
                                 @ ''set to a particular version (e.g. 2010e).'')))
      | _ \<Rightarrow>
          let version = py_str requested in
          (case map_of version_map version of
             None \<Rightarrow> Inl (KeyErr version)
           | Some to_check \<Rightarrow>
               ebind (DetectVisualStudioVersions s to_check (CHR ''e'' \<in> set version)) (\<lambda>versions.
                 case versions of
                   v # _ \<Rightarrow> Inr v
                 | [] \<Rightarrow> CreateVersion (if version = ''auto'' then ''2005'' else version) None False)))"

text \<open>The part of the machine that the settings of a target read, once a version is selected.\<close>

definition selected_world :: "machine \<Rightarrow> string \<Rightarrow> vs_version \<Rightarrow> vs_world" where
  "selected_world s reg v =
     \<lparr>vs_short_name = short_name v, vs_path = (case vs_dir v of Some d \<Rightarrow> d | None \<Rightarrow> []),
      environ = m_environ s, reg_output = reg\<rparr>"

end
