(* ===== verification/MsvsSelection.thy ===== *)
theory MsvsSelection
  imports MsvsVersion
begin

text \<open>
  What is selected for all targets at once: the version of Visual Studio, which is the one asked for, and
  the include directories shared by all configurations, which are exactly those taken out of each.
\<close>

section \<open>The selected version\<close>

lemma CreateVersion_name: "CreateVersion name path sdk = Inr v \<Longrightarrow> short_name v = name"
  by (auto simp: CreateVersion_def Let_def split: if_splits)

lemma CreateVersion_dir:
  "CreateVersion name path sdk = Inr v \<Longrightarrow>
   sdk_based v = sdk \<and> vs_dir v = (case path of Some (c # cs) \<Rightarrow> Some (win_normpath (c # cs)) | p \<Rightarrow> p)"
  by (auto simp: CreateVersion_def Let_def split: if_splits)

text \<open>The versions found for a number of the registry: its year, or its express edition.\<close>

definition edition :: "bool \<Rightarrow> string \<Rightarrow> vs_version \<Rightarrow> bool" where
  "edition express y v \<longleftrightarrow> short_name v = y @ ''e'' \<or> (\<not> express \<and> short_name v = y)"

definition found :: "bool \<Rightarrow> string \<Rightarrow> vs_version \<Rightarrow> bool" where
  "found express version v \<longleftrightarrow> (\<exists>y. year_of version = Inr y \<and> edition express y v) \<and> vs_dir v \<noteq> None"

lemma create_found:
  assumes "ebind (year_of version) (\<lambda>y. ebind (CreateVersion (y @ sfx) (Some p) sdk) (\<lambda>v. Inr (vs @ [v]))) = Inr vs'"
    and "sfx = ''e'' \<or> (\<not> express \<and> sfx = [])"
  shows "\<exists>v. vs' = vs @ [v] \<and> found express version v"
proof -
  obtain y v where v: "year_of version = Inr y" "CreateVersion (y @ sfx) (Some p) sdk = Inr v" "vs' = vs @ [v]"
    using assms(1) by auto
  then have "short_name v = y @ sfx" "vs_dir v \<noteq> None"
    using CreateVersion_name CreateVersion_dir by (auto split: list.splits)
  then show ?thesis using v(1,3) assms(2) by (auto simp: found_def edition_def)
qed

lemma detect_installed_found:
  assumes "detect_installed s express version vs key = Inr vs'"
  shows "vs' = vs \<or> (\<exists>v. vs' = vs @ [v] \<and> found express version v)"
proof -
  obtain p where p: "RegistryGetValue s key ''InstallDir'' = Inr p"
    using assms by (cases "RegistryGetValue s key ''InstallDir''") (auto simp: detect_installed_def)
  show ?thesis
  proof (cases "p = None \<or> p = Some []")
    case False
    then obtain c cs where "p = Some (c # cs)" by (cases p) (auto simp: neq_Nil_conv)
    then show ?thesis
      using assms p create_found [of version "[]"] create_found [of version "''e''"]
      by (simp add: detect_installed_def Let_def del: ebind_Inr_iff split: if_splits)
  qed (use assms p in \<open>auto simp: detect_installed_def\<close>)
qed

lemma detect_sdk_found:
  assumes "detect_sdk s version vs key = Inr vs'"
  shows "vs' = vs \<or> (\<exists>v. vs' = vs @ [v] \<and> found express version v)"
proof -
  obtain p where p: "RegistryGetValue s key version = Inr p"
    using assms by (cases "RegistryGetValue s key version") (auto simp: detect_sdk_def)
  show ?thesis
  proof (cases "p = None \<or> p = Some []")
    case False
    then obtain c cs where "p = Some (c # cs)" by (cases p) (auto simp: neq_Nil_conv)
    then show ?thesis
      using assms p create_found [of version "''e''"]
      by (simp add: detect_sdk_def Let_def del: ebind_Inr_iff)
  qed (use assms p in \<open>auto simp: detect_sdk_def\<close>)
qed

lemma detect_version_found:
  assumes "detect_version s express vs version = Inr vs'" and "list_all P vs"
    and P: "\<And>v. found express version v \<Longrightarrow> P v"
  shows "list_all P vs'"
proof -
  obtain ws where ws: "efold (detect_installed s express version) vs (install_keys version) = Inr ws"
    and vs': "efold (detect_sdk s version) ws sdk_keys = Inr vs'"
    using assms(1) by (auto simp: detect_version_def)
  have "list_all P ws"
    using ws assms(2) by (rule efold_invariant [where P = "list_all P"]) (auto dest!: detect_installed_found P)
  with vs' show ?thesis
    by (rule efold_invariant [where P = "list_all P"]) (auto dest!: detect_sdk_found [where express = express] P)
qed

lemma DetectVisualStudioVersions_found:
  assumes "DetectVisualStudioVersions s versions express = Inr vs"
  shows "list_all (\<lambda>v. \<exists>version\<in>set versions. found express version v) vs"
proof -
  have "efold (detect_version s express) [] versions = Inr vs"
    using assms by (simp add: DetectVisualStudioVersions_def)
  then show ?thesis by (rule efold_invariant) (auto elim!: detect_version_found)
qed

lemma version_map_years:
  "list_all (\<lambda>(r, versions). r = ''auto'' \<or>
     list_all (\<lambda>version. map_of version_to_year version
       = Some (if CHR ''e'' \<in> set r then butlast r else r) \<and> (CHR ''e'' \<in> set r \<longrightarrow> last r = CHR ''e'' \<and> r \<noteq> []))
       versions) version_map"
  by code_simp

lemma requested_edition:
  assumes "map_of version_map r = Some versions" and "version \<in> set versions" and "year_of version = Inr y"
    and "edition (CHR ''e'' \<in> set r) y v"
  shows "r = ''auto'' \<or> short_name v = r \<or> CHR ''e'' \<notin> set r \<and> short_name v = r @ ''e''"
proof (cases "r = ''auto''")
  case False
  then have y: "y = (if CHR ''e'' \<in> set r then butlast r else r)"
    and e: "CHR ''e'' \<in> set r \<longrightarrow> last r = CHR ''e'' \<and> r \<noteq> []"
    using version_map_years map_of_SomeD [OF assms(1)] assms(2,3)
    by (auto simp: list_all_iff year_of_def split: option.splits)
  then have "CHR ''e'' \<in> set r \<Longrightarrow> butlast r @ ''e'' = r" by (metis append_butlast_last_id)
  then show ?thesis using assms(4) y by (auto simp: edition_def split: if_splits)
qed simp

text \<open>The name of the version that is looked for, when nothing overrides it.\<close>

definition wanted :: "machine \<Rightarrow> pyval \<Rightarrow> string" where
  "wanted s requested =
     (if requested = PStr ''auto''
      then (case m_environ s ''GYP_MSVS_VERSION'' of Some r \<Rightarrow> r | None \<Rightarrow> ''auto'')
      else py_str requested)"

definition no_override :: "machine \<Rightarrow> bool" where
  "no_override s \<longleftrightarrow> m_environ s ''GYP_MSVS_OVERRIDE_PATH'' \<in> {None, Some []}"

lemma Select_wanted:
  assumes "no_override s"
  shows "SelectVisualStudioVersion s requested =
    (case map_of version_map (wanted s requested) of
       None \<Rightarrow> Inl (KeyErr (wanted s requested))
     | Some to_check \<Rightarrow>
         ebind (DetectVisualStudioVersions s to_check (CHR ''e'' \<in> set (wanted s requested))) (\<lambda>versions.
           case versions of
             v # _ \<Rightarrow> Inr v
           | [] \<Rightarrow> CreateVersion (if wanted s requested = ''auto'' then ''2005'' else wanted s requested) None False))"
proof -
  have r: "py_str (if requested = PStr ''auto''
      then PStr (case m_environ s ''GYP_MSVS_VERSION'' of Some v \<Rightarrow> v | None \<Rightarrow> ''auto'') else requested)
      = wanted s requested"
    by (simp add: py_str_def wanted_def)
  have "m_environ s ''GYP_MSVS_OVERRIDE_PATH'' = None \<or> m_environ s ''GYP_MSVS_OVERRIDE_PATH'' = Some []"
    using assms by (simp add: no_override_def)
  then show ?thesis
    by (elim disjE) (simp_all only: SelectVisualStudioVersion_def Let_def r option.case list.case)
qed


text \<open>A machine on which the full edition of Visual Studio 2012 is registered and present.\<close>

definition sample_machine :: machine where
  "sample_machine =
     \<lparr>m_environ = Map.empty, m_platform = ''win32'',
      m_run = (\<lambda>cmd. if cmd ! 2 = hd (install_keys ''11.0'') \<and> cmd ! 4 = ''InstallDir''
                    then Ran (''  InstallDir    REG_SZ    C:/VS/Common7/IDE'' @ [CHR 0x0D, CHR 0x0A]) 0 else Ran [] 1),
      m_exists = (\<lambda>p. p = ''C:/VS/Common7/IDE'' @ bslash # ''devenv.exe''), m_glob = (\<lambda>_. []),
      m_cygpath = (\<lambda>p. p)\<rparr>"

definition sample_version :: vs_version where
  "sample_version = (case SelectVisualStudioVersion sample_machine (PStr ''2012'') of Inr v \<Rightarrow> v)"

lemma sample_version:
  "SelectVisualStudioVersion sample_machine (PStr ''2012'') = Inr sample_version"
  "no_override sample_machine" "wanted sample_machine (PStr ''2012'') = ''2012''"
  "DetectVisualStudioVersions sample_machine [''11.0''] False = Inr [sample_version]"
  "map_of version_map ''2012'' = Some [''11.0'']"
  by code_simp+


section \<open>Shared include directories\<close>

definition include_items :: "pydict \<Rightarrow> pyval list" where
  "include_items config = (case iter_items (system_includes config) of Inr xs \<Rightarrow> xs | Inl _ \<Rightarrow> [])"

lemma emap_list_all2: "emap f xs = Inr ys \<Longrightarrow> list_all2 (\<lambda>x y. f x = Inr y) xs ys"
  by (induction xs arbitrary: ys) auto

lemma set_ordered [simp]: "set (ordered xs) = set xs" and distinct_ordered [simp]: "distinct (ordered xs)"
  by (simp_all add: ordered_def foldl_add_if_new_set foldl_add_if_new_distinct)

lemma ordered_items_include:
  "ordered_items (system_includes config) = Inr xs \<Longrightarrow> set xs = set (include_items config) \<and> distinct xs"
  by (auto simp: ordered_items_def include_items_def split: if_splits)

lemma shared_includes:
  assumes "efold (\<lambda>shared config. ebind (ordered_items (system_includes config)) (\<lambda>xs. Inr (ordered_and shared xs)))
     shared0 configs = Inr shared" and "distinct shared0"
  shows "distinct shared \<and> (\<forall>x. x \<in> set shared \<longleftrightarrow> x \<in> set shared0 \<and> (\<forall>c\<in>set configs. x \<in> set (include_items c)))"
  using assms
proof (induction configs arbitrary: shared0)
  case (Cons c configs)
  then obtain xs where xs: "ordered_items (system_includes c) = Inr xs" by auto
  then have "distinct (ordered_and shared0 xs)" using ordered_items_include by (simp add: ordered_and_def)
  then show ?case
    using Cons.IH [of "ordered_and shared0 xs"] Cons.prems xs ordered_items_include [OF xs]
    by (auto simp: ordered_and_def)
qed simp

lemma without_shared_items:
  assumes "without_shared shared config = Inr config'"
  shows "include_items config' = filter (\<lambda>i. i \<notin> set shared) (include_items config)
    \<and> (\<forall>k. k \<noteq> ''msvs_system_include_dirs'' \<longrightarrow> map_of config' k = map_of config k)"
proof (cases "truth (system_includes config)")
  case True
  then obtain xs where xs: "iter_items (system_includes config) = Inr xs"
    and "config' = dset ''msvs_system_include_dirs'' (PList (filter (\<lambda>i. i \<notin> set shared) xs)) config"
    using assms by (auto simp: without_shared_def Let_def)
  then show ?thesis by (simp add: include_items_def system_includes_def dget_or_def update_conv')
next
  case False
  then have "include_items config = []"
    by (cases "system_includes config") (auto simp: include_items_def)
  then show ?thesis using assms False by (simp add: without_shared_def Let_def)
qed

text \<open>
  C39: the shared include directories are taken out of every configuration and of nothing else. When
  \<open>ExtractSharedMSVSSystemIncludes\<close> returns directories, they are the expansions of exactly the
  directories listed by every configuration, none of them holds an unexpanded macro, and each
  configuration keeps its own directories in order and all its other settings; when it returns none, no
  configuration is changed.
\<close>

theorem ExtractSharedMSVSSystemIncludes_correct:
  assumes "ExtractSharedMSVSSystemIncludes w configs = Inr (result, configs')"
  shows "case result of
      None \<Rightarrow> configs' = configs
    | Some expanded \<Rightarrow> \<exists>shared env xs.
        (\<forall>x. x \<in> set shared \<longleftrightarrow> (\<forall>c\<in>set configs. x \<in> set (include_items c)))
        \<and> shared \<noteq> [] \<and> distinct shared
        \<and> GetGlobalVSMacroEnv w = Inr env \<and> emap (\<lambda>i. ExpandMacros i env) shared = Inr xs
        \<and> expanded = ordered xs \<and> (\<forall>x\<in>set expanded. str_in ''$'' x = Inr False)
        \<and> list_all2 (\<lambda>c c'. include_items c' = filter (\<lambda>i. i \<notin> set shared) (include_items c)
             \<and> (\<forall>k. k \<noteq> ''msvs_system_include_dirs'' \<longrightarrow> map_of c' k = map_of c k)) configs configs'"
proof (cases result)
  case None
  then show ?thesis
    using assms by (auto simp: ExtractSharedMSVSSystemIncludes_def split: list.splits if_splits)
next
  case (Some expanded)
  obtain c0 rest where configs: "configs = c0 # rest"
    using assms by (cases configs) (auto simp: ExtractSharedMSVSSystemIncludes_def)
  obtain shared0 shared env xs specific where
    s0: "ordered_items (system_includes c0) = Inr shared0"
    and s: "efold (\<lambda>shared config. ebind (ordered_items (system_includes config)) (\<lambda>xs. Inr (ordered_and shared xs)))
        shared0 rest = Inr shared" "shared \<noteq> []"
    and env: "GetGlobalVSMacroEnv w = Inr env" "emap (\<lambda>i. ExpandMacros i env) shared = Inr xs"
    and e: "ordered_items (PList xs) = Inr expanded" "emap (str_in ''$'') expanded = Inr specific" "\<not> list_ex id specific"
    and new: "emap (without_shared shared) configs = Inr configs'"
    using assms Some configs by (auto simp: ExtractSharedMSVSSystemIncludes_def split: if_splits)
  have sh: "distinct shared \<and> (\<forall>x. x \<in> set shared \<longleftrightarrow> (\<forall>c\<in>set configs. x \<in> set (include_items c)))"
    using shared_includes [OF s(1)] ordered_items_include [OF s0] configs by simp
  have ex: "expanded = ordered xs" using e(1) by (auto simp: ordered_items_def split: if_splits)
  have plain: "\<forall>x\<in>set expanded. str_in ''$'' x = Inr False"
  proof
    fix x
    assume "x \<in> set expanded"
    then obtain i where i: "i < length expanded" "x = expanded ! i" by (auto simp: in_set_conv_nth)
    have "str_in ''$'' x = Inr (specific ! i)" unfolding i(2) by (rule emap_Inr_nth [OF e(2) i(1)])
    moreover have "specific ! i \<in> set specific" using i(1) emap_Inr_length [OF e(2)] by simp
    then have "\<not> specific ! i" using e(3) by (auto simp: list_ex_iff)
    ultimately show "str_in ''$'' x = Inr False" by simp
  qed
  have each: "list_all2 (\<lambda>c c'. include_items c' = filter (\<lambda>i. i \<notin> set shared) (include_items c)
      \<and> (\<forall>k. k \<noteq> ''msvs_system_include_dirs'' \<longrightarrow> map_of c' k = map_of c k)) configs configs'"
    by (rule list_all2_mono [OF emap_list_all2 [OF new] without_shared_items])
  show ?thesis
    unfolding Some option.case
    by (intro exI [of _ shared] exI [of _ env] exI [of _ xs] conjI sh [THEN conjunct1] sh [THEN conjunct2]
        s(2) env ex plain each)
qed

definition sample_configs :: "pydict list" where
  "sample_configs =
     [[(''msvs_system_include_dirs'', PList [PStr ''a'', PStr ''$(VSInstallDir)/b''])],
      [(''msvs_system_include_dirs'', PList [PStr ''$(VSInstallDir)/b'', PStr ''c'']), (''defines'', PList [])]]"

definition include_world :: vs_world where
  "include_world = \<lparr>vs_short_name = ''2013'', vs_path = ''C:/VS'', environ = Map.empty, reg_output = []\<rparr>"

lemma sample_configs:
  "ExtractSharedMSVSSystemIncludes include_world sample_configs =
     Inr (Some [PStr ''C:/VS/b''],
          [[(''msvs_system_include_dirs'', PList [PStr ''a''])],
           [(''msvs_system_include_dirs'', PList [PStr ''c'']), (''defines'', PList [])]])"
  by code_simp

theorem ExtractSharedMSVSSystemIncludes_correct_witness:
  "\<exists>shared. shared \<noteq> [] \<and> (\<forall>x. x \<in> set shared \<longleftrightarrow> (\<forall>c\<in>set sample_configs. x \<in> set (include_items c)))"
  using ExtractSharedMSVSSystemIncludes_correct [OF sample_configs] by (simp only: option.case) blast

end
